(* ===== verification/Prelude.thy ===== *)
theory Prelude
  imports Main "HOL-Library.Word"
begin

text \<open>
  Shared vocabulary of the development: the Rust \<open>Result\<close> type as a sum whose
  left part is the error, the checked, saturating and wrapping operations on
  \<open>usize\<close> (a natural number below \<open>2 ^ 64\<close>), decimal formatting of numbers, and
  the generic lemmas the components use.
\<close>

named_theorems machine "unfolding rules of the machine-integer operations"
named_theorems result_simps "rewriting rules of the result combinators"

section \<open>Results\<close>

text \<open>Rust's \<open>Result<T, E>\<close>: \<open>Inl e\<close> is \<open>Err(e)\<close>, \<open>Inr x\<close> is \<open>Ok(x)\<close>.\<close>

text \<open>The \<open>?\<close> operator and \<open>Result::and_then\<close>.\<close>

fun and_then :: "'e + 'a \<Rightarrow> ('a \<Rightarrow> 'e + 'b) \<Rightarrow> 'e + 'b" where
  "and_then (Inl e) f = Inl e"
| "and_then (Inr x) f = f x"

text \<open>\<open>Option::ok_or\<close>.\<close>

fun ok_or :: "'a option \<Rightarrow> 'e \<Rightarrow> 'e + 'a" where
  "ok_or None e = Inl e"
| "ok_or (Some x) e = Inr x"

text \<open>A guard: \<open>if b { return Err(e) }\<close>.\<close>

definition fail_if :: "bool \<Rightarrow> 'e \<Rightarrow> 'e + unit" where
  "fail_if b e = (if b then Inl e else Inr ())"

text \<open>\<open>Result::map_err\<close> and \<open>Result::is_ok\<close>.\<close>

fun map_err :: "('e \<Rightarrow> 'f) \<Rightarrow> 'e + 'a \<Rightarrow> 'f + 'a" where
  "map_err f (Inl e) = Inl (f e)"
| "map_err f (Inr x) = Inr x"

fun is_ok :: "'e + 'a \<Rightarrow> bool" where
  "is_ok (Inl e) = False"
| "is_ok (Inr x) = True"

text \<open>\<open>Iterator::try_fold\<close>.\<close>

fun try_fold :: "('b \<Rightarrow> 'a \<Rightarrow> 'e + 'b) \<Rightarrow> 'b \<Rightarrow> 'a list \<Rightarrow> 'e + 'b" where
  "try_fold f acc [] = Inr acc"
| "try_fold f acc (x # xs) = and_then (f acc x) (\<lambda>acc'. try_fold f acc' xs)"

text \<open>A sequence of checks joined by \<open>?\<close>: the first error ends it.\<close>

fun run_checks :: "('e + unit) list \<Rightarrow> 'e + unit" where
  "run_checks [] = Inr ()"
| "run_checks (c # cs) = and_then c (\<lambda>_. run_checks cs)"

text \<open>\<open>[String]::join\<close>.\<close>

fun join :: "string \<Rightarrow> string list \<Rightarrow> string" where
  "join sep [] = []"
| "join sep [x] = x"
| "join sep (x # y # ys) = x @ sep @ join sep (y # ys)"

lemma and_then_eq_Inr [result_simps]:
  "and_then m f = Inr y \<longleftrightarrow> (\<exists>x. m = Inr x \<and> f x = Inr y)"
  by (cases m) auto

lemma and_then_eq_Inl [result_simps]:
  "and_then m f = Inl e \<longleftrightarrow> m = Inl e \<or> (\<exists>x. m = Inr x \<and> f x = Inl e)"
  by (cases m) auto

lemma ok_or_eq_Inr [result_simps]: "ok_or x e = Inr y \<longleftrightarrow> x = Some y"
  by (cases x) auto

lemma ok_or_eq_Inl [result_simps]: "ok_or x e = Inl e' \<longleftrightarrow> x = None \<and> e' = e"
  by (cases x) auto

lemma fail_if_eq_Inr [result_simps]: "fail_if b e = Inr u \<longleftrightarrow> \<not> b"
  by (simp add: fail_if_def)

lemma fail_if_eq_Inl [result_simps]: "fail_if b e = Inl e' \<longleftrightarrow> b \<and> e' = e"
  by (auto simp: fail_if_def)

lemma fail_if_simps [simp]:
  "fail_if True e = Inl e"
  "fail_if False e = Inr ()"
  by (simp_all add: fail_if_def)

lemma map_err_eq_Inr [result_simps]: "map_err f m = Inr y \<longleftrightarrow> m = Inr y"
  by (cases m) auto

lemma map_err_eq_Inl [result_simps]:
  "map_err f m = Inl e \<longleftrightarrow> (\<exists>e'. m = Inl e' \<and> e = f e')"
  by (cases m) auto

lemma run_checks_ok [result_simps]: "run_checks cs = Inr () \<longleftrightarrow> (\<forall>c \<in> set cs. c = Inr ())"
  by (induction cs) (auto simp: result_simps)

lemma run_checks_error: "run_checks cs = Inl e \<Longrightarrow> Inl e \<in> set cs"
  by (induction cs) (auto simp: result_simps)

lemma is_ok_iff: "is_ok m \<longleftrightarrow> (\<exists>x. m = Inr x)"
  by (cases m) auto

lemma and_then_assoc:
  "and_then (and_then m f) g = and_then m (\<lambda>x. and_then (f x) g)"
  by (cases m) auto

lemma try_fold_append:
  "try_fold f acc (xs @ ys) = and_then (try_fold f acc xs) (\<lambda>acc'. try_fold f acc' ys)"
  by (induction xs arbitrary: acc) (auto simp: and_then_assoc)

section \<open>Machine integers\<close>

text \<open>
  \<open>usize\<close> and \<open>u64\<close> values are natural numbers at most \<open>usize_max\<close> on the 64-bit
  targets the program is built for; every operation of the source that can
  leave that range is one of the operations below.
\<close>

type_synonym usize = nat

definition usize_max :: nat where
  "usize_max = 18446744073709551615"

definition checked_add :: "usize \<Rightarrow> usize \<Rightarrow> usize option" where
  "checked_add a b = (if a + b \<le> usize_max then Some (a + b) else None)"

definition checked_mul :: "usize \<Rightarrow> usize \<Rightarrow> usize option" where
  "checked_mul a b = (if a * b \<le> usize_max then Some (a * b) else None)"

definition checked_sub :: "usize \<Rightarrow> usize \<Rightarrow> usize option" where
  "checked_sub a b = (if b \<le> a then Some (a - b) else None)"

definition saturating_add :: "usize \<Rightarrow> usize \<Rightarrow> usize" where
  "saturating_add a b = min (a + b) usize_max"

definition saturating_mul :: "usize \<Rightarrow> usize \<Rightarrow> usize" where
  "saturating_mul a b = min (a * b) usize_max"

definition saturating_sub :: "usize \<Rightarrow> usize \<Rightarrow> usize" where
  "saturating_sub a b = a - b"

definition wrapping_add :: "usize \<Rightarrow> usize \<Rightarrow> usize" where
  "wrapping_add a b = (a + b) mod (usize_max + 1)"

definition div_ceil :: "usize \<Rightarrow> usize \<Rightarrow> usize" where
  "div_ceil a b = (if a mod b = 0 then a div b else a div b + 1)"

lemmas [machine] = checked_add_def checked_mul_def checked_sub_def saturating_add_def
  saturating_mul_def saturating_sub_def wrapping_add_def

lemma checked_add_eq_Some [simp]:
  "checked_add a b = Some c \<longleftrightarrow> c = a + b \<and> a + b \<le> usize_max"
  by (auto simp: checked_add_def)

lemma checked_add_eq_None [simp]: "checked_add a b = None \<longleftrightarrow> usize_max < a + b"
  by (auto simp: checked_add_def)

lemma checked_mul_eq_Some [simp]:
  "checked_mul a b = Some c \<longleftrightarrow> c = a * b \<and> a * b \<le> usize_max"
  by (auto simp: checked_mul_def)

lemma checked_mul_eq_None [simp]: "checked_mul a b = None \<longleftrightarrow> usize_max < a * b"
  by (auto simp: checked_mul_def)

lemma checked_sub_eq_Some [simp]: "checked_sub a b = Some c \<longleftrightarrow> c = a - b \<and> b \<le> a"
  by (auto simp: checked_sub_def)

lemma checked_sub_eq_None [simp]: "checked_sub a b = None \<longleftrightarrow> a < b"
  by (auto simp: checked_sub_def)

lemma div_ceil_bounds:
  assumes "0 < b"
  shows "a \<le> div_ceil a b * b" and "div_ceil a b * b < a + b"
proof -
  obtain q r where q: "q = a div b" and r: "r = a mod b" by blast
  have split: "a = q * b + r" and "r < b" using assms q r by simp_all
  then show "a \<le> div_ceil a b * b" and "div_ceil a b * b < a + b"
    unfolding div_ceil_def q [symmetric] r [symmetric] by simp_all
qed

lemma div_ceil_least:
  assumes "0 < b" and "a \<le> n * b"
  shows "div_ceil a b \<le> n"
proof (rule ccontr)
  assume "\<not> div_ceil a b \<le> n"
  then have "n + 1 \<le> div_ceil a b" by simp
  then have "(n + 1) * b \<le> div_ceil a b * b" by (rule mult_le_mono1)
  with div_ceil_bounds(2) [OF assms(1), of a] assms(2) show False by simp
qed

section \<open>Decimal formatting\<close>

text \<open>\<open>Display\<close> of an unsigned integer.\<close>

fun show_nat :: "nat \<Rightarrow> string" where
  "show_nat n =
    (if n < 10 then [''0123456789'' ! n]
     else show_nat (n div 10) @ [''0123456789'' ! (n mod 10)])"

declare show_nat.simps [simp del]

text \<open>\<open>Display\<close> of a signed integer.\<close>

definition show_int :: "int \<Rightarrow> string" where
  "show_int i = (if i < 0 then ''-'' @ show_nat (nat (- i)) else show_nat (nat i))"

section \<open>Step systems\<close>

text \<open>What the proofs about threads that interleave share: an invariant of the steps, and a relation between a state
  and those that follow it.\<close>

locale step_system =
  fixes step :: "'s \<Rightarrow> 's \<Rightarrow> bool" and inv :: "'s \<Rightarrow> bool" and keeps :: "'s \<Rightarrow> 's \<Rightarrow> bool"
  assumes step_inv: "inv s \<Longrightarrow> step s t \<Longrightarrow> inv t"
    and step_keeps: "inv s \<Longrightarrow> step s t \<Longrightarrow> keeps s t"
    and keeps_refl: "keeps s s"
    and keeps_trans: "keeps s t \<Longrightarrow> keeps t u \<Longrightarrow> keeps s u"
begin

lemma reachable: "step\<^sup>*\<^sup>* s t \<Longrightarrow> inv s \<Longrightarrow> inv t \<and> keeps s t"
  by (induction rule: rtranclp_induct) (auto intro: keeps_refl step_inv elim: keeps_trans dest: step_keeps)

end

locale invariant_system =
  fixes step :: "'s \<Rightarrow> 's \<Rightarrow> bool" and inv :: "'s \<Rightarrow> bool"
  assumes preserved: "inv s \<Longrightarrow> step s t \<Longrightarrow> inv t"

sublocale invariant_system \<subseteq> step_system step inv "\<lambda>_ _. True"
  by unfold_locales (auto intro: preserved)

section \<open>Lists\<close>

lemma sum_list_remove1:
  "x \<in> set xs \<Longrightarrow> f x + sum_list (map f (remove1 x xs)) = (sum_list (map f xs) :: nat)"
  by (induction xs) auto

lemma prod_list_eq_0_iff_nat: "prod_list xs = 0 \<longleftrightarrow> (0::nat) \<in> set xs"
  by (induction xs) auto

text \<open>How many elements of a list have a property.\<close>

definition number :: "('a \<Rightarrow> bool) \<Rightarrow> 'a list \<Rightarrow> nat" where
  "number P xs = length (filter P xs)"

lemma number_update:
  assumes "i < length xs"
  shows "number P (xs[i := y]) + (if P (xs ! i) then 1 else 0) = number P xs + (if P y then 1 else 0)"
proof -
  have "number P xs = number P (take i xs) + (if P (xs ! i) then 1 else 0) + number P (drop (Suc i) xs)"
    using assms by (subst id_take_nth_drop [OF assms]) (simp add: number_def)
  moreover have "number P (xs[i := y]) = number P (take i xs) + (if P y then 1 else 0) + number P (drop (Suc i) xs)"
    using assms by (simp add: upd_conv_take_nth_drop number_def)
  ultimately show ?thesis by simp
qed

end
