(* ===== verification/CoreTypes.thy ===== *)
theory CoreTypes
  imports Prelude
begin

text \<open>
  The plain data of \<open>dg-core\<close> that every other component mentions: the error
  enum (\<open>error.rs\<close>), the device and memory tags (\<open>device.rs\<close>, \<open>memory.rs\<close>),
  tensor layouts (\<open>format.rs\<close>), quantization metadata (\<open>quantization.rs\<close>),
  deployment modes (\<open>deployment.rs\<close>) and core selections (\<open>core.rs\<close>).
\<close>

unbundle bit_operations_syntax

section \<open>Devices and errors\<close>

datatype DeviceKind = Cpu | IntelGpu | IntelNpu | CudaGpu | RknnNpu | SophonTpu

datatype MemoryType = HostMem | DeviceMem | UnifiedMem

datatype MemoryDomain =
  Host | DmaBuf | DrmPrime | VaapiSurface | CudaDevice | MppBuffer | SophonDevice | Opaque

datatype core_error =
  InvalidArgument string | Config string | Device string | Backend string
| Media string | Io string | Shape string | Quantization string | Tensor string
| Buffer string | Stream string | Event string | OutOfMemory
| ResourceExhausted string | Unsupported string | UnsupportedDevice DeviceKind
| Timeout string | Busy string | Cancelled | Closed | Protocol string
| Auth string | RemoteClosed string | Invariant string | Internal string

type_synonym 'a core_result = "core_error + 'a"

text \<open>The derived \<open>Debug\<close> of \<open>DeviceKind\<close>, which messages interpolate.\<close>

fun debug_device_kind :: "DeviceKind \<Rightarrow> string" where
  "debug_device_kind Cpu = ''Cpu''"
| "debug_device_kind IntelGpu = ''IntelGpu''"
| "debug_device_kind IntelNpu = ''IntelNpu''"
| "debug_device_kind CudaGpu = ''CudaGpu''"
| "debug_device_kind RknnNpu = ''RknnNpu''"
| "debug_device_kind SophonTpu = ''SophonTpu''"

text \<open>\<open>Display\<close> of the error enum, from its \<open>#[error(...)]\<close> attributes.\<close>

fun display_core_error :: "core_error \<Rightarrow> string" where
  "display_core_error (InvalidArgument m) = ''invalid argument: '' @ m"
| "display_core_error (Config m) = ''config error: '' @ m"
| "display_core_error (Device m) = ''device error: '' @ m"
| "display_core_error (Backend m) = ''backend error: '' @ m"
| "display_core_error (Media m) = ''media error: '' @ m"
| "display_core_error (Io m) = ''I/O error: '' @ m"
| "display_core_error (Shape m) = ''shape error: '' @ m"
| "display_core_error (Quantization m) = ''quantization error: '' @ m"
| "display_core_error (Tensor m) = ''tensor error: '' @ m"
| "display_core_error (Buffer m) = ''buffer error: '' @ m"
| "display_core_error (Stream m) = ''stream error: '' @ m"
| "display_core_error (Event m) = ''event error: '' @ m"
| "display_core_error OutOfMemory = ''out of memory''"
| "display_core_error (ResourceExhausted m) = ''resource exhausted: '' @ m"
| "display_core_error (Unsupported m) = ''unsupported: '' @ m"
| "display_core_error (UnsupportedDevice k) = ''unsupported device: '' @ debug_device_kind k"
| "display_core_error (Timeout m) = ''timeout: '' @ m"
| "display_core_error (Busy m) = ''busy: '' @ m"
| "display_core_error Cancelled = ''cancelled''"
| "display_core_error Closed = ''closed''"
| "display_core_error (Protocol m) = ''protocol error: '' @ m"
| "display_core_error (Auth m) = ''auth error: '' @ m"
| "display_core_error (RemoteClosed m) = ''remote closed: '' @ m"
| "display_core_error (Invariant m) = ''invariant violation: '' @ m"
| "display_core_error (Internal m) = ''internal error: '' @ m"

section \<open>Layouts, quantization and deployment\<close>

datatype DataFormat = Auto_format | N | NC | NCHW | NHWC | NC4HW | NC8HW | NCDHW | OIHW

datatype QuantizationScheme = NoneScheme | AffineAsymmetric | Symmetric | DynamicFixedPoint

text \<open>Scale factors are \<open>f32\<close> bit patterns: the core only stores them.\<close>

record quantization =
  q_scheme :: QuantizationScheme
  q_scale :: "32 word list"
  q_zero_point :: "32 word list"
  q_axis :: "usize option"

definition quantization_none :: quantization where
  "quantization_none =
    \<lparr> q_scheme = NoneScheme, q_scale = [], q_zero_point = [], q_axis = None \<rparr>"

datatype DeployMode = SoC | Host_mode

section \<open>Core selections\<close>

datatype CoreSelection = Auto | Single "8 word" | Mask "32 word" | All_cores

text \<open>\<open>1u32.checked_shl(n)\<close>: \<open>None\<close> when the shift amount reaches the width.\<close>

definition checked_shl_one :: "nat \<Rightarrow> 32 word option" where
  "checked_shl_one n = (if n < 32 then Some (push_bit n 1) else None)"

fun contains :: "CoreSelection \<Rightarrow> 8 word \<Rightarrow> bool" where
  "contains Auto core_id = True"
| "contains All_cores core_id = True"
| "contains (Single selected) core_id = (selected = core_id)"
| "contains (Mask m) core_id =
    (case checked_shl_one (unat core_id) of
       None \<Rightarrow> False
     | Some b \<Rightarrow> m AND b \<noteq> 0)"

definition is_explicit :: "CoreSelection \<Rightarrow> bool" where
  "is_explicit s = (s \<noteq> Auto)"

text \<open>A mask names exactly the cores whose bit is set; ids of 32 and above are in no mask.\<close>

lemma contains_mask_iff: "contains (Mask m) c \<longleftrightarrow> unat c < 32 \<and> bit m (unat c)"
  by (auto simp: checked_shl_one_def push_bit_eq_mult and_exp_eq_0_iff_not_bit)

end
