(* ===== verification/DataTypes.thy ===== *)
theory DataTypes
  imports CoreTypes
begin

text \<open>
  \<open>dg-core/src/datatype.rs\<close>: element types, their storage sizes, and the packing
  of 4-bit integers and floats into nibbles.  Bytes are \<open>8 word\<close>; an \<open>i8\<close> is the
  same bit pattern read with \<^const>\<open>sint\<close>.  A \<open>try_reserve_exact\<close> succeeds or
  fails as the predicate \<open>can_reserve\<close> on the byte count says.
\<close>

section \<open>Element types\<close>

datatype TypeCode = Uint | Int_code | Float | Bfloat | Float8 | Float4 | OpaqueHandle

record data_type =
  dt_code :: TypeCode
  dt_bits :: "8 word"
  dt_lanes :: "8 word"

definition data_type_new :: "TypeCode \<Rightarrow> 8 word \<Rightarrow> 8 word \<Rightarrow> data_type" where
  "data_type_new code bits lanes = \<lparr> dt_code = code, dt_bits = bits, dt_lanes = lanes \<rparr>"

abbreviation "dt_U8 \<equiv> data_type_new Uint 8 1"
abbreviation "dt_U16 \<equiv> data_type_new Uint 16 1"
abbreviation "dt_I4 \<equiv> data_type_new Int_code 4 1"
abbreviation "dt_I8 \<equiv> data_type_new Int_code 8 1"
abbreviation "dt_I16 \<equiv> data_type_new Int_code 16 1"
abbreviation "dt_F4 \<equiv> data_type_new Float4 4 1"
abbreviation "dt_F8 \<equiv> data_type_new Float8 8 1"
abbreviation "dt_F16 \<equiv> data_type_new Float 16 1"
abbreviation "dt_BF16 \<equiv> data_type_new Bfloat 16 1"
abbreviation "dt_F32 \<equiv> data_type_new Float 32 1"
abbreviation "dt_F64 \<equiv> data_type_new Float 64 1"

datatype native_type =
  Native_u8 | Native_i8 | Native_u16 | Native_i16 | Native_u32 | Native_i32
| Native_u64 | Native_i64 | Native_f16 | Native_bf16 | Native_f32 | Native_f64

text \<open>The implementations of the trait \<open>NativeDataType\<close>.\<close>

fun native_data_type :: "native_type \<Rightarrow> data_type" where
  "native_data_type Native_u8 = dt_U8"
| "native_data_type Native_i8 = dt_I8"
| "native_data_type Native_u16 = dt_U16"
| "native_data_type Native_i16 = dt_I16"
| "native_data_type Native_u32 = data_type_new Uint 32 1"
| "native_data_type Native_i32 = data_type_new Int_code 32 1"
| "native_data_type Native_u64 = data_type_new Uint 64 1"
| "native_data_type Native_i64 = data_type_new Int_code 64 1"
| "native_data_type Native_f16 = dt_F16"
| "native_data_type Native_bf16 = dt_BF16"
| "native_data_type Native_f32 = dt_F32"
| "native_data_type Native_f64 = dt_F64"

definition size_in_bits :: "data_type \<Rightarrow> usize" where
  "size_in_bits t = unat (dt_bits t) * unat (dt_lanes t)"

definition bytes_per_element_ceil :: "data_type \<Rightarrow> usize" where
  "bytes_per_element_ceil t = div_ceil (size_in_bits t) 8"

definition storage_bytes_for_elements :: "data_type \<Rightarrow> usize \<Rightarrow> usize core_result" where
  "storage_bytes_for_elements t elements =
    and_then (ok_or (checked_mul (size_in_bits t) elements)
                (InvalidArgument ''datatype size overflow''))
      (\<lambda>total_bits. Inr (div_ceil total_bits 8))"

section \<open>Nibble packing\<close>

text \<open>\<open>Vec::try_reserve_exact\<close> for \<open>n\<close> one-byte elements, with its mapped error.\<close>

definition try_reserve_exact :: "(nat \<Rightarrow> bool) \<Rightarrow> nat \<Rightarrow> 'e \<Rightarrow> 'e + unit" where
  "try_reserve_exact can_reserve n e = (if can_reserve n then Inr () else Inl e)"

fun pack_chunks :: "8 word list \<Rightarrow> 8 word list" where
  "pack_chunks [] = []"
| "pack_chunks [a] = [(a AND 0x0f) OR push_bit 4 (0 AND 0x0f)]"
| "pack_chunks (a # b # rest) = ((a AND 0x0f) OR push_bit 4 (b AND 0x0f)) # pack_chunks rest"

definition pack_nibbles :: "(nat \<Rightarrow> bool) \<Rightarrow> 8 word list \<Rightarrow> 8 word list core_result" where
  "pack_nibbles can_reserve values =
    (let capacity = div_ceil (length values) 2 in
     and_then (try_reserve_exact can_reserve capacity
        (InvalidArgument (''pack_nibbles: allocation failed for '' @ show_nat capacity @ '' values'')))
      (\<lambda>_. Inr (pack_chunks values)))"

fun unpack_loop :: "nat \<Rightarrow> 8 word list \<Rightarrow> 8 word list \<Rightarrow> 8 word list" where
  "unpack_loop count [] values = values"
| "unpack_loop count (byte # bytes) values =
    (let values1 = values @ [byte AND 0x0f] in
     if length values1 = count then values1
     else
       let values2 = values1 @ [drop_bit 4 byte AND 0x0f] in
       if length values2 = count then values2
       else unpack_loop count bytes values2)"

definition unpack_nibbles :: "(nat \<Rightarrow> bool) \<Rightarrow> 8 word list \<Rightarrow> usize \<Rightarrow> 8 word list core_result" where
  "unpack_nibbles can_reserve bytes count =
    (let capacity = min count (saturating_mul (length bytes) 2) in
     and_then (try_reserve_exact can_reserve capacity
        (InvalidArgument (''unpack_nibbles: allocation failed for '' @ show_nat capacity @ '' values'')))
      (\<lambda>_. Inr (unpack_loop count bytes [])))"

definition int4_in_range :: "8 word \<Rightarrow> bool" where
  "int4_in_range v \<longleftrightarrow> -8 \<le> sint v \<and> sint v \<le> 7"

fun pack_int4_loop :: "8 word list \<Rightarrow> 8 word list \<Rightarrow> 8 word list core_result" where
  "pack_int4_loop [] raw = Inr raw"
| "pack_int4_loop (v # vs) raw =
    (if \<not> int4_in_range v then Inl (InvalidArgument ''int4 out of range'')
     else pack_int4_loop vs (raw @ [v AND 0x0f]))"

definition pack_int4 :: "(nat \<Rightarrow> bool) \<Rightarrow> 8 word list \<Rightarrow> 8 word list core_result" where
  "pack_int4 can_reserve values =
    and_then (try_reserve_exact can_reserve (length values)
        (InvalidArgument (''pack_int4: allocation failed for '' @ show_nat (length values) @ '' values'')))
      (\<lambda>_. and_then (pack_int4_loop values []) (pack_nibbles can_reserve))"

definition sign_extend_nibble :: "8 word \<Rightarrow> 8 word" where
  "sign_extend_nibble nibble = (if nibble AND 0x08 \<noteq> 0 then nibble - 16 else nibble)"

definition unpack_int4 :: "(nat \<Rightarrow> bool) \<Rightarrow> 8 word list \<Rightarrow> usize \<Rightarrow> 8 word list core_result" where
  "unpack_int4 can_reserve bytes count =
    and_then (unpack_nibbles can_reserve bytes count)
      (\<lambda>raw. and_then (try_reserve_exact can_reserve (length raw)
          (InvalidArgument (''unpack_int4: allocation failed for '' @ show_nat (length raw) @ '' values'')))
        (\<lambda>_. Inr (map sign_extend_nibble raw)))"

definition pack_float4 :: "(nat \<Rightarrow> bool) \<Rightarrow> 8 word list \<Rightarrow> 8 word list core_result" where
  "pack_float4 can_reserve values =
    (if list_ex (\<lambda>v. v > 0x0f) values then Inl (InvalidArgument ''float4 out of range'')
     else pack_nibbles can_reserve values)"

definition unpack_float4 :: "(nat \<Rightarrow> bool) \<Rightarrow> 8 word list \<Rightarrow> usize \<Rightarrow> 8 word list core_result" where
  "unpack_float4 can_reserve bytes count = unpack_nibbles can_reserve bytes count"

section \<open>Storage sizes\<close>

lemma size_in_bits_le: "size_in_bits t \<le> 255 * 255"
proof -
  have "unat (w :: 8 word) \<le> 255" for w using unsigned_less [of w, where ?'a = nat] by simp
  then show ?thesis unfolding size_in_bits_def by (intro mult_le_mono)
qed

lemma storage_bytes_for_elements_ok:
  "storage_bytes_for_elements t n = Inr b \<longleftrightarrow>
    size_in_bits t * n \<le> usize_max \<and> b = div_ceil (size_in_bits t * n) 8"
  by (auto simp: storage_bytes_for_elements_def result_simps)

section \<open>Nibble codec\<close>

text \<open>The reference reading of a packed vector: low nibble first.\<close>

definition nibbles :: "8 word list \<Rightarrow> 8 word list" where
  "nibbles bytes = concat (map (\<lambda>b. [b AND 0x0f, drop_bit 4 b AND 0x0f]) bytes)"

lemma nibbles_simps [simp]:
  "nibbles [] = []"
  "nibbles (b # bs) = (b AND 0x0f) # (drop_bit 4 b AND 0x0f) # nibbles bs"
  by (simp_all add: nibbles_def)

lemma length_nibbles [simp]: "length (nibbles bs) = 2 * length bs"
  by (induction bs) auto

lemma nibble_mask: "(0x0f :: 8 word) = mask 4"
  by (simp add: mask_eq_exp_minus_1)

lemma low_nibble: "((a AND 0x0f) OR push_bit 4 (b AND 0x0f)) AND 0x0f = (a AND 0x0f :: 8 word)"
  unfolding nibble_mask by (rule bit_word_eqI) (auto simp: bit_simps)

lemma high_nibble:
  "drop_bit 4 ((a AND 0x0f) OR push_bit 4 (b AND 0x0f)) AND 0x0f = (b AND 0x0f :: 8 word)"
  unfolding nibble_mask by (rule bit_word_eqI) (auto simp: bit_simps)

lemma length_pack_chunks: "length (pack_chunks vs) = div_ceil (length vs) 2"
proof (induction vs rule: pack_chunks.induct)
  case (3 a b rest)
  then show ?case by (simp add: div_ceil_def)
qed (simp_all add: div_ceil_def)

lemma nibbles_pack_chunks: "take (length vs) (nibbles (pack_chunks vs)) = map (\<lambda>v. v AND 0x0f) vs"
proof (induction vs rule: pack_chunks.induct)
  case (3 a b rest)
  then show ?case
    by (simp only: pack_chunks.simps nibbles_simps low_nibble high_nibble
        list.size list.map take_Suc_Cons add_0_right add_Suc_right One_nat_def)
qed simp_all

lemma unpack_loop_take:
  "length acc < count \<Longrightarrow> unpack_loop count bytes acc = take count (acc @ nibbles bytes)"
proof (induction bytes arbitrary: acc)
  case (Cons b bytes)
  consider "Suc (length acc) = count" | "Suc (Suc (length acc)) = count"
    | "Suc (Suc (length acc)) < count" using Cons.prems by linarith
  then show ?case
  proof cases
    case 3
    with Cons.IH [of "acc @ [b AND 0x0f, drop_bit 4 b AND 0x0f]"] show ?thesis by simp
  qed auto
qed simp

lemma unpack_loop_zero: "unpack_loop 0 bytes acc = acc @ nibbles bytes"
  by (induction bytes arbitrary: acc) auto

lemma unpack_nibbles_ok:
  assumes "can_reserve (min count (saturating_mul (length bytes) 2))"
  shows "unpack_nibbles can_reserve bytes count =
    Inr (if count = 0 then nibbles bytes else take count (nibbles bytes))"
  using assms unpack_loop_take [of "[]" count bytes] unpack_loop_zero [of bytes "[]"]
  by (simp add: unpack_nibbles_def try_reserve_exact_def)

lemma pack_nibbles_ok:
  "can_reserve (div_ceil (length vs) 2) \<Longrightarrow> pack_nibbles can_reserve vs = Inr (pack_chunks vs)"
  by (simp add: pack_nibbles_def try_reserve_exact_def)

lemma pack_int4_loop_eq:
  "pack_int4_loop vs raw =
    (if \<forall>v \<in> set vs. int4_in_range v then Inr (raw @ map (\<lambda>v. v AND 0x0f) vs)
     else Inl (InvalidArgument ''int4 out of range''))"
  by (induction vs arbitrary: raw) auto

text \<open>Unpacking what was packed: the nibbles of the packed vector are the low nibbles of its input.\<close>

lemma unpack_pack_nibbles:
  assumes len: "length vs \<le> usize_max" and res: "can_reserve (length vs)"
  shows "unpack_nibbles can_reserve (pack_chunks vs) (length vs) = Inr (map (\<lambda>v. v AND 0x0f) vs)"
proof -
  have "length vs \<le> div_ceil (length vs) 2 * 2" by (rule div_ceil_bounds) simp
  with len have "min (length vs) (saturating_mul (length (pack_chunks vs)) 2) = length vs"
    by (simp add: length_pack_chunks saturating_mul_def)
  then show ?thesis
    using unpack_nibbles_ok [of can_reserve "length vs" "pack_chunks vs"] res nibbles_pack_chunks [of vs]
    by (auto simp: pack_chunks.simps)
qed

text \<open>Sign extension undoes the truncation of an in-range value to its low nibble.\<close>

lemma sign_extend_low_nibble:
  assumes "int4_in_range v"
  shows "sign_extend_nibble (v AND 0x0f) = v"
proof -
  have "v \<in> {0, 1, 2, 3, 4, 5, 6, 7, -8, -7, -6, -5, -4, -3, -2, -1}"
  proof -
    have "sint v \<in> {-8..7}" using assms by (simp add: int4_in_range_def)
    also have "{-8..7} = {0, 1, 2, 3, 4, 5, 6, 7, -8, -7, -6, -5, -4, -3, -2, -1 :: int}"
      by (rule set_eqI) (simp, presburger)
    finally have "sint v \<in> {0, 1, 2, 3, 4, 5, 6, 7, -8, -7, -6, -5, -4, -3, -2, -1}" .
    moreover have "v = word_of_int (sint v)" by (simp only: of_int_sint scast_id)
    ultimately show ?thesis by (elim insertE emptyE) simp_all
  qed
  then show ?thesis by (auto simp: sign_extend_nibble_def)
qed

section \<open>Properties\<close>

text \<open>C17. Packing a vector of 4-bit signed integers in range succeeds, takes one byte per
  two values (rounded up), and unpacking as many values gives the vector back.\<close>

theorem int4_round_trip:
  assumes "\<forall>v \<in> set vs. int4_in_range v" and "length vs \<le> usize_max"
    and "can_reserve (length vs)" and "can_reserve (div_ceil (length vs) 2)"
  shows "\<exists>packed. pack_int4 can_reserve vs = Inr packed \<and>
    length packed = div_ceil (length vs) 2 \<and>
    unpack_int4 can_reserve packed (length vs) = Inr vs"
proof (intro exI conjI)
  let ?raw = "map (\<lambda>v. v AND 0x0f) vs"
  show "pack_int4 can_reserve vs = Inr (pack_chunks ?raw)"
    using assms by (simp add: pack_int4_def try_reserve_exact_def pack_int4_loop_eq pack_nibbles_ok)
  show "length (pack_chunks ?raw) = div_ceil (length vs) 2"
    by (simp add: length_pack_chunks)
  have "unpack_nibbles can_reserve (pack_chunks ?raw) (length vs) = Inr ?raw"
    using unpack_pack_nibbles [of ?raw can_reserve] assms by (simp add: comp_def)
  moreover have "map sign_extend_nibble ?raw = vs"
    using assms(1) by (simp add: comp_def map_idI sign_extend_low_nibble)
  ultimately show "unpack_int4 can_reserve (pack_chunks ?raw) (length vs) = Inr vs"
    using assms by (simp add: unpack_int4_def try_reserve_exact_def)
qed

theorem int4_round_trip_witness:
  "list_all int4_in_range [-8, -3, 0, 1, 7] \<and>
   (\<exists>packed. pack_int4 (\<lambda>_. True) [-8, -3, 0, 1, 7] = Inr packed \<and> length packed = 3 \<and>
     unpack_int4 (\<lambda>_. True) packed 5 = Inr [-8, -3, 0, 1, 7])"
  using int4_round_trip [of "[-8, -3, 0, 1, 7]" "\<lambda>_. True"]
  by (simp add: int4_in_range_def usize_max_def div_ceil_def numeral_2_eq_2 [symmetric])

text \<open>Packing 4-bit float payloads rejects a vector with a value above 15, and otherwise
  succeeds with a packed vector that unpacks to the same payloads.\<close>

lemma float4_round_trip:
  assumes "length vs \<le> usize_max"
    and "can_reserve (length vs)" and "can_reserve (div_ceil (length vs) 2)"
  shows "if \<exists>v \<in> set vs. 15 < v
    then pack_float4 can_reserve vs = Inl (InvalidArgument ''float4 out of range'')
    else \<exists>packed. pack_float4 can_reserve vs = Inr packed \<and>
      unpack_float4 can_reserve packed (length vs) = Inr vs"
proof (cases "\<exists>v \<in> set vs. 15 < v")
  case True
  then show ?thesis by (simp add: pack_float4_def list_ex_iff)
next
  case False
  have low: "v AND 0x0f = v" if "v \<in> set vs" for v
  proof -
    have "v \<le> 15" using False that by auto
    then have "unat v < 2 ^ 4" by (simp add: word_le_nat_alt)
    then show ?thesis
      unfolding nibble_mask take_bit_eq_mask [symmetric] by (simp add: word_unat_eq_iff unsigned_take_bit_eq take_bit_nat_eq_self)
  qed
  have "pack_float4 can_reserve vs = Inr (pack_chunks vs)"
    using False assms by (simp add: pack_float4_def list_ex_iff pack_nibbles_ok)
  moreover have "unpack_float4 can_reserve (pack_chunks vs) (length vs) = Inr vs"
    using unpack_pack_nibbles [of vs can_reserve] assms low
    by (simp add: unpack_float4_def map_idI)
  ultimately show ?thesis using False by auto
qed

text \<open>Asking to unpack zero values does not give an empty vector: the loop compares the
  length with \<open>count\<close> only after a push, so every nibble of the input is returned.  For a
  positive count the result is the first \<open>count\<close> nibbles, fewer when the input is short.\<close>

lemma unpack_float4_count:
  assumes "can_reserve (min count (saturating_mul (length bytes) 2))"
  shows "unpack_float4 can_reserve bytes count =
    Inr (if count = 0 then nibbles bytes else take count (nibbles bytes))"
  unfolding unpack_float4_def using assms by (rule unpack_nibbles_ok)

text \<open>When the storage size of \<open>n\<close> elements is computed without overflow it is the least
  number of bytes that holds all their bits.\<close>

lemma storage_bytes_least:
  assumes "storage_bytes_for_elements t n = Inr b"
  shows "size_in_bits t * n \<le> 8 * b \<and> (\<forall>b'. size_in_bits t * n \<le> 8 * b' \<longrightarrow> b \<le> b')"
proof
  have b: "b = div_ceil (size_in_bits t * n) 8" using assms by (simp add: storage_bytes_for_elements_ok)
  show "size_in_bits t * n \<le> 8 * b" using div_ceil_bounds(1) [of 8 "size_in_bits t * n"] b by simp
  show "\<forall>b'. size_in_bits t * n \<le> 8 * b' \<longrightarrow> b \<le> b'"
    using div_ceil_least [of 8 "size_in_bits t * n"] b by (simp add: mult.commute)
qed

end
