(* ===== verification/Shapes.thy ===== *)
theory Shapes
  imports DataTypes
begin

text \<open>
  \<open>dg-core/src/shape.rs\<close>: tensor extents, contiguous strides and the number of
  elements a strided layout occupies; with the descriptor of \<open>tensor.rs\<close> and its
  storage size.  The row-major address function is the reference the strides are
  compared with.
\<close>

section \<open>Shapes and strides\<close>

record shape =
  dims :: "usize list"

record strides =
  stride_values :: "usize list"

definition shape_new :: "usize list \<Rightarrow> shape" where
  "shape_new ds = \<lparr> dims = ds \<rparr>"

definition shape_scalar :: shape where
  "shape_scalar = \<lparr> dims = [] \<rparr>"

definition shape_rank :: "shape \<Rightarrow> usize" where
  "shape_rank s = length (dims s)"

definition element_count :: "shape \<Rightarrow> usize core_result" where
  "element_count s =
    try_fold (\<lambda>acc dim. ok_or (checked_mul acc dim) (Shape ''shape element count overflow''))
      1 (dims s)"

definition storage_bytes_for_shape :: "data_type \<Rightarrow> shape \<Rightarrow> usize core_result" where
  "storage_bytes_for_shape t s = and_then (element_count s) (storage_bytes_for_elements t)"

fun contiguous_loop :: "(nat \<times> usize) list \<Rightarrow> usize list \<Rightarrow> usize \<Rightarrow> usize list core_result" where
  "contiguous_loop [] vals stride = Inr vals"
| "contiguous_loop ((index, dim) # rest) vals stride =
    and_then (ok_or (checked_mul stride dim) (Shape ''contiguous stride overflow''))
      (\<lambda>stride'. contiguous_loop rest (vals[index := stride]) stride')"

text \<open>The stride vector holds \<open>usize\<close> elements: eight bytes each.\<close>

definition contiguous_for :: "(nat \<Rightarrow> bool) \<Rightarrow> shape \<Rightarrow> strides core_result" where
  "contiguous_for can_reserve s =
    and_then (try_reserve_exact can_reserve (8 * shape_rank s)
        (Shape ''failed to allocate contiguous strides''))
      (\<lambda>_. and_then (contiguous_loop (rev (enumerate 0 (dims s))) (replicate (shape_rank s) 0) 1)
        (\<lambda>vals. Inr \<lparr> stride_values = vals \<rparr>))"

definition is_contiguous_for :: "(nat \<Rightarrow> bool) \<Rightarrow> strides \<Rightarrow> shape \<Rightarrow> bool core_result" where
  "is_contiguous_for can_reserve st s =
    and_then (contiguous_for can_reserve s)
      (\<lambda>c. Inr (stride_values st = stride_values c))"

fun physical_loop :: "(usize \<times> usize) list \<Rightarrow> usize \<Rightarrow> usize core_result" where
  "physical_loop [] max_index = Inr max_index"
| "physical_loop ((dim, stride) # rest) max_index =
    (if stride = 0 then Inl (Shape ''stride must be non-zero'')
     else and_then (ok_or (Option.bind (checked_sub dim 1) (\<lambda>d. checked_mul d stride))
            (Shape ''stride physical offset overflow''))
       (\<lambda>offset. and_then (ok_or (checked_add max_index offset)
            (Shape ''physical element count overflow''))
         (physical_loop rest)))"

definition physical_element_count :: "strides \<Rightarrow> shape \<Rightarrow> usize core_result" where
  "physical_element_count st s =
    (if length (stride_values st) \<noteq> length (dims s)
     then Inl (Shape ''stride rank does not match shape rank'')
     else if 0 \<in> set (dims s) then Inr 0
     else if dims s = [] then Inr 1
     else and_then (physical_loop (zip (dims s) (stride_values st)) 0)
       (\<lambda>max_index. ok_or (checked_add max_index 1) (Shape ''physical element count overflow'')))"

section \<open>Tensor descriptors\<close>

record tensor_desc =
  td_name :: "string option"
  td_shape :: shape
  td_strides :: "strides option"
  td_dtype :: data_type
  td_format :: DataFormat
  td_quant :: quantization
  td_device :: DeviceKind

definition tensor_desc_new :: "shape \<Rightarrow> data_type \<Rightarrow> DataFormat \<Rightarrow> DeviceKind \<Rightarrow> tensor_desc" where
  "tensor_desc_new s dtype fmt device =
    \<lparr> td_name = None, td_shape = s, td_strides = None, td_dtype = dtype,
      td_format = fmt, td_quant = quantization_none, td_device = device \<rparr>"

definition with_name :: "tensor_desc \<Rightarrow> string \<Rightarrow> tensor_desc" where
  "with_name d name = d\<lparr> td_name := Some name \<rparr>"

definition with_strides :: "tensor_desc \<Rightarrow> strides \<Rightarrow> tensor_desc" where
  "with_strides d st = d\<lparr> td_strides := Some st \<rparr>"

definition with_quantization :: "tensor_desc \<Rightarrow> quantization \<Rightarrow> tensor_desc" where
  "with_quantization d q = d\<lparr> td_quant := q \<rparr>"

definition storage_bytes :: "tensor_desc \<Rightarrow> usize core_result" where
  "storage_bytes d =
    and_then (case td_strides d of
        Some st \<Rightarrow> physical_element_count st (td_shape d)
      | None \<Rightarrow> element_count (td_shape d))
      (storage_bytes_for_elements (td_dtype d))"

section \<open>Reference: row-major addressing\<close>

text \<open>An index is valid when every coordinate is below its extent.\<close>

definition valid_index :: "usize list \<Rightarrow> usize list \<Rightarrow> bool" where
  "valid_index ds idx = list_all2 (<) idx ds"

text \<open>The address of an index under a stride vector.\<close>

fun offset_of :: "usize list \<Rightarrow> usize list \<Rightarrow> nat" where
  "offset_of (i # idx) (st # sts) = i * st + offset_of idx sts"
| "offset_of _ _ = 0"

fun suffix_products :: "usize list \<Rightarrow> usize list" where
  "suffix_products [] = []"
| "suffix_products (d # ds) = prod_list ds # suffix_products ds"

lemma valid_index_simps [simp]:
  "valid_index [] idx \<longleftrightarrow> idx = []"
  "valid_index (d # ds) idx \<longleftrightarrow> (\<exists>i is. idx = i # is \<and> i < d \<and> valid_index ds is)"
  by (auto simp: valid_index_def list_all2_Cons2)

lemma length_suffix_products [simp]: "length (suffix_products ds) = length ds"
  by (induction ds) auto

lemma row_major_less: "valid_index ds idx \<Longrightarrow> offset_of idx (suffix_products ds) < prod_list ds"
proof (induction ds arbitrary: idx)
  case (Cons d ds)
  then obtain i "is" where idx: "idx = i # is" "i < d" "valid_index ds is" by auto
  have "i * prod_list ds + offset_of is (suffix_products ds) < (i + 1) * prod_list ds"
    using Cons.IH [OF idx(3)] by simp
  also have "\<dots> \<le> d * prod_list ds" using idx(2) by (intro mult_le_mono1) simp
  finally show ?case using idx(1) by simp
qed simp

lemma row_major_inj:
  assumes "valid_index ds idx" "valid_index ds idx'"
    and "offset_of idx (suffix_products ds) = offset_of idx' (suffix_products ds)"
  shows "idx = idx'"
  using assms
proof (induction ds arbitrary: idx idx')
  case (Cons d ds)
  let ?P = "prod_list ds" and ?o = "\<lambda>is. offset_of is (suffix_products ds)"
  from Cons.prems obtain i "is" j js where idx: "idx = i # is" "valid_index ds is"
    and idx': "idx' = j # js" "valid_index ds js" by auto
  have less: "?o is < ?P" "?o js < ?P" using idx(2) idx'(2) by (simp_all add: row_major_less)
  have eq: "i * ?P + ?o is = j * ?P + ?o js" using Cons.prems(3) idx idx' by simp
  from arg_cong [OF eq, where f = "\<lambda>x. x div ?P"] less have "i = j" by simp
  with eq have "?o is = ?o js" by simp
  with Cons.IH [OF idx(2) idx'(2)] have "is = js" by simp
  with \<open>i = j\<close> idx idx' show ?case by simp
qed simp

lemma row_major_surj:
  "k < prod_list ds \<Longrightarrow> \<exists>idx. valid_index ds idx \<and> offset_of idx (suffix_products ds) = k"
proof (induction ds arbitrary: k)
  case (Cons d ds)
  let ?P = "prod_list ds"
  have "0 < ?P" using Cons.prems by (cases "?P = 0") auto
  then have "k mod ?P < ?P" by simp
  from Cons.IH [OF this] obtain "is"
    where is_ok: "valid_index ds is" "offset_of is (suffix_products ds) = k mod ?P" by blast
  have "k div ?P < d" using Cons.prems \<open>0 < ?P\<close> by (simp add: less_mult_imp_div_less)
  with is_ok have "valid_index (d # ds) (k div ?P # is) \<and>
      offset_of (k div ?P # is) (suffix_products (d # ds)) = k" by simp
  then show ?case by blast
qed simp

section \<open>The operations against the reference\<close>

lemma element_count_fold:
  "try_fold (\<lambda>acc dim. ok_or (checked_mul acc dim) e) acc ds = Inr n \<Longrightarrow>
    acc \<le> usize_max \<Longrightarrow> n = acc * prod_list ds \<and> n \<le> usize_max"
proof (induction ds arbitrary: acc)
  case (Cons d ds)
  from Cons.IH [of "acc * d"] Cons.prems show ?case by (auto simp: result_simps mult.assoc)
qed simp

lemma element_count_ok: "element_count s = Inr n \<Longrightarrow> n = prod_list (dims s) \<and> n \<le> usize_max"
  unfolding element_count_def by (drule element_count_fold) (simp_all add: usize_max_def)

lemma element_count_fold_total:
  "acc * prod_list ds \<le> usize_max \<Longrightarrow> 0 \<notin> set ds \<Longrightarrow>
    try_fold (\<lambda>acc dim. ok_or (checked_mul acc dim) e) acc ds = Inr (acc * prod_list ds)"
proof (induction ds arbitrary: acc)
  case (Cons d ds)
  have "0 < prod_list ds" using Cons.prems(2) prod_list_eq_0_iff_nat [of ds] by auto
  then have "acc * d * 1 \<le> acc * d * prod_list ds" by (intro mult_le_mono2) simp
  also have "\<dots> \<le> usize_max" using Cons.prems(1) by (simp add: mult.assoc)
  finally have "acc * d \<le> usize_max" by simp
  with Cons show ?case by (simp add: checked_mul_def mult.assoc)
qed simp

lemma element_count_total:
  "prod_list (dims s) \<le> usize_max \<Longrightarrow> 0 \<notin> set (dims s) \<Longrightarrow> element_count s = Inr (prod_list (dims s))"
  unfolding element_count_def using element_count_fold_total [of 1 "dims s"] by simp

text \<open>Every product of trailing extents fits a \<open>usize\<close>.\<close>

definition strides_fit :: "usize list \<Rightarrow> bool" where
  "strides_fit ds \<longleftrightarrow> (\<forall>k < length ds. prod_list (drop k ds) \<le> usize_max)"

lemma suffix_products_snoc:
  "suffix_products (ds @ [d]) = map (\<lambda>p. p * d) (suffix_products ds) @ [1]"
  by (induction ds) auto

lemma contiguous_loop_eq:
  "length ds \<le> length vals \<Longrightarrow>
    contiguous_loop (rev (enumerate 0 ds)) vals stride =
      (if \<forall>k < length ds. stride * prod_list (drop k ds) \<le> usize_max
       then Inr (map (\<lambda>p. stride * p) (suffix_products ds) @ drop (length ds) vals)
       else Inl (Shape ''contiguous stride overflow''))"
proof (induction ds arbitrary: vals stride rule: rev_induct)
  case (snoc d ds)
  let ?n = "length ds"
  have fit: "(\<forall>k < length (ds @ [d]). stride * prod_list (drop k (ds @ [d])) \<le> usize_max) \<longleftrightarrow>
      stride * d \<le> usize_max \<and> (\<forall>k < ?n. stride * d * prod_list (drop k ds) \<le> usize_max)"
    by (simp add: less_Suc_eq all_conj_distrib disj_imp mult.assoc mult.commute imp_conjL
        mult.left_commute conj_commute all_simps(5) cong: conj_cong) (auto simp: ac_simps)
  have "drop ?n (vals[?n := stride]) = stride # drop (Suc ?n) vals"
    using snoc.prems by (simp add: Cons_nth_drop_Suc [symmetric])
  then show ?case
    unfolding fit using snoc.prems snoc.IH [of "vals[?n := stride]" "stride * d"]
    by (simp add: enumerate_append_eq suffix_products_snoc checked_mul_def ac_simps)
qed simp

lemma contiguous_for_eq:
  assumes "can_reserve (8 * length (dims s))"
  shows "contiguous_for can_reserve s =
    (if strides_fit (dims s) then Inr \<lparr> stride_values = suffix_products (dims s) \<rparr>
     else Inl (Shape ''contiguous stride overflow''))"
  using assms contiguous_loop_eq [of "dims s" "replicate (length (dims s)) 0" 1]
  by (simp add: contiguous_for_def try_reserve_exact_def shape_rank_def strides_fit_def map_idI)

lemma contiguous_for_ok:
  "contiguous_for can_reserve s = Inr c \<Longrightarrow>
    strides_fit (dims s) \<and> stride_values c = suffix_products (dims s)"
  using contiguous_for_eq [of can_reserve s]
  by (auto simp: contiguous_for_def try_reserve_exact_def shape_rank_def split: if_splits)

text \<open>The address of the last element.\<close>

definition last_offset :: "usize list \<Rightarrow> usize list \<Rightarrow> nat" where
  "last_offset ds sts = offset_of (map (\<lambda>d. d - 1) ds) sts"

lemma last_offset_simps [simp]:
  "last_offset [] sts = 0"
  "last_offset (d # ds) (st # sts) = (d - 1) * st + last_offset ds sts"
  by (simp_all add: last_offset_def)

lemma offset_le_last: "valid_index ds idx \<Longrightarrow> offset_of idx sts \<le> last_offset ds sts"
proof (induction ds arbitrary: idx sts)
  case (Cons d ds)
  then obtain i "is" where "idx = i # is" "i < d" "valid_index ds is" by auto
  with Cons.IH [of "is"] show ?case
    by (cases sts) (auto intro!: add_mono mult_le_mono1)
qed auto

lemma last_index_valid: "0 \<notin> set ds \<Longrightarrow> valid_index ds (map (\<lambda>d. d - 1) ds)"
  by (induction ds) auto

lemma no_valid_index: "0 \<in> set ds \<Longrightarrow> \<not> valid_index ds idx"
  by (induction ds arbitrary: idx) auto

lemma physical_loop_ok:
  "length ds = length sts \<Longrightarrow> physical_loop (zip ds sts) m = Inr r \<Longrightarrow>
    r = m + last_offset ds sts \<and> 0 \<notin> set sts"
proof (induction ds sts arbitrary: m rule: list_induct2)
  case (Cons d ds st sts)
  from Cons.IH [of "m + (d - 1) * st"] Cons.prems show ?case
    by (auto simp: result_simps split: if_splits bind_splits)
qed simp

lemma physical_loop_total:
  "length ds = length sts \<Longrightarrow> 0 \<notin> set ds \<Longrightarrow> 0 \<notin> set sts \<Longrightarrow>
    m + last_offset ds sts \<le> usize_max \<Longrightarrow> physical_loop (zip ds sts) m = Inr (m + last_offset ds sts)"
  by (induction ds sts arbitrary: m rule: list_induct2)
     (auto simp: checked_sub_def checked_mul_def checked_add_def Suc_le_eq)

lemma physical_element_count_ok:
  assumes "physical_element_count st s = Inr n" and "0 \<notin> set (dims s)"
  shows "n = last_offset (dims s) (stride_values st) + 1"
  using assms physical_loop_ok [of "dims s" "stride_values st" 0]
  by (auto simp: physical_element_count_def result_simps split: if_splits)

lemma last_offset_contiguous:
  assumes "0 \<notin> set ds"
  shows "last_offset ds (suffix_products ds) = prod_list ds - 1"
proof -
  have "0 < prod_list ds" using assms prod_list_eq_0_iff_nat [of ds] by auto
  moreover from this obtain idx
    where "valid_index ds idx" "offset_of idx (suffix_products ds) = prod_list ds - 1"
    using row_major_surj [of "prod_list ds - 1" ds] by auto
  moreover from this have "prod_list ds - 1 \<le> last_offset ds (suffix_products ds)"
    using offset_le_last [of ds idx "suffix_products ds"] by simp
  moreover have "last_offset ds (suffix_products ds) < prod_list ds"
    unfolding last_offset_def using assms by (intro row_major_less last_index_valid)
  ultimately show ?thesis by linarith
qed

lemma suffix_products_nonzero: "0 \<notin> set ds \<Longrightarrow> 0 \<notin> set (suffix_products ds)"
  by (induction ds) (auto simp: prod_list_eq_0_iff_nat)

lemma contiguous_physical:
  assumes "element_count s = Inr n" and "contiguous_for can_reserve s = Inr c"
  shows "physical_element_count c s = Inr n"
proof -
  have c: "stride_values c = suffix_products (dims s)" and n: "n = prod_list (dims s)" "n \<le> usize_max"
    using contiguous_for_ok [OF assms(2)] element_count_ok [OF assms(1)] by simp_all
  show ?thesis
  proof (cases "0 \<in> set (dims s)")
    case True
    then show ?thesis using c n by (simp add: physical_element_count_def prod_list_eq_0_iff_nat)
  next
    case False
    then have "0 < n" using n(1) prod_list_eq_0_iff_nat [of "dims s"] by auto
    then show ?thesis
      using False n c physical_loop_total [of "dims s" "suffix_products (dims s)" 0]
        suffix_products_nonzero [OF False]
      by (simp add: physical_element_count_def last_offset_contiguous checked_add_def)
  qed
qed

section \<open>Properties\<close>

text \<open>C30. Contiguous strides are row-major addressing: when they are computed, they number the
  valid indices of the shape with \<open>0, 1, ..., prod dims - 1\<close>, each address exactly once.\<close>

theorem contiguous_strides_bijective:
  assumes "contiguous_for can_reserve s = Inr c"
  shows "bij_betw (\<lambda>idx. offset_of idx (stride_values c)) {idx. valid_index (dims s) idx}
    {..< prod_list (dims s)}"
proof -
  have c: "stride_values c = suffix_products (dims s)" using contiguous_for_ok [OF assms] by simp
  have "inj_on (\<lambda>idx. offset_of idx (stride_values c)) {idx. valid_index (dims s) idx}"
    unfolding c by (rule inj_onI) (auto dest: row_major_inj)
  moreover have "(\<lambda>idx. offset_of idx (stride_values c)) ` {idx. valid_index (dims s) idx} =
      {..< prod_list (dims s)}"
    unfolding c using row_major_less row_major_surj [of _ "dims s"] by fastforce
  ultimately show ?thesis by (simp add: bij_betw_def)
qed

theorem contiguous_strides_bijective_witness:
  "contiguous_for (\<lambda>_. True) (shape_new [2, 3, 4]) = Inr \<lparr> stride_values = [12, 4, 1] \<rparr> \<and>
   bij_betw (\<lambda>idx. offset_of idx [12, 4, 1]) {idx. valid_index [2, 3, 4] idx} {..< 24}"
proof -
  have ok: "contiguous_for (\<lambda>_. True) (shape_new [2, 3, 4]) = Inr \<lparr> stride_values = [12, 4, 1] \<rparr>"
    by (simp add: contiguous_for_def try_reserve_exact_def shape_new_def shape_rank_def
        checked_mul_def usize_max_def)
  with contiguous_strides_bijective [OF ok] show ?thesis by (simp add: shape_new_def)
qed

text \<open>The element count of a strided layout is exact: every valid index is addressed below
  it, the bound is reached, and it is zero just when the shape has no element.\<close>

lemma physical_element_count_tight:
  assumes "physical_element_count st s = Inr n"
  shows "(\<forall>idx. valid_index (dims s) idx \<longrightarrow> offset_of idx (stride_values st) < n) \<and>
    (if n = 0 then 0 \<in> set (dims s)
     else \<exists>idx. valid_index (dims s) idx \<and> offset_of idx (stride_values st) = n - 1)"
proof (cases "0 \<in> set (dims s)")
  case True
  moreover have "n = 0" using assms True by (simp add: physical_element_count_def split: if_splits)
  ultimately show ?thesis by (simp add: no_valid_index)
next
  case False
  with physical_element_count_ok [OF assms] last_index_valid [OF False] offset_le_last [of "dims s"]
  show ?thesis by (auto simp: last_offset_def less_Suc_eq_le)
qed

text \<open>Making the contiguous strides of a shape explicit does not change the storage size of
  a descriptor: both paths of \<open>storage_bytes\<close> agree whenever both computations succeed.\<close>

lemma contiguous_storage_agrees:
  assumes "element_count (td_shape d) = Inr n" and "contiguous_for can_reserve (td_shape d) = Inr c"
  shows "storage_bytes (with_strides d c) = storage_bytes (d\<lparr> td_strides := None \<rparr>)"
  using assms contiguous_physical [OF assms] by (simp add: storage_bytes_def with_strides_def)

end
