(* ===== verification/Resource.thy ===== *)
theory Resource
  imports CoreTypes
begin

text \<open>
  \<open>dg-core/src/resource.rs\<close>: the process-level resource limits, the computation of
  the limits in effect for a graph, and the admission checks.
\<close>

section \<open>Policies\<close>

record resource_policy =
  max_config_bytes :: usize
  max_include_depth :: usize
  max_include_count :: usize
  max_nodes :: usize
  max_connections :: usize
  max_tensor_bytes :: usize
  max_frame_bytes :: usize
  max_model_bytes :: usize
  max_buffer_packets :: usize
  max_buffer_bytes :: usize

definition u32_max :: nat where
  "u32_max = 4294967295"

definition check_nonzero :: "usize \<Rightarrow> string \<Rightarrow> unit core_result" where
  "check_nonzero v name = (if v = 0 then Inl (Config (name @ '' must be > 0'')) else Inr ())"

definition check_representable :: "usize \<Rightarrow> string \<Rightarrow> unit core_result" where
  "check_representable v name =
    (if v > u32_max
     then Inl (Config (name @ '' '' @ show_nat v @ '' exceeds 32-bit representable maximum '' @ show_nat u32_max))
     else Inr ())"

definition policy_validate :: "resource_policy \<Rightarrow> unit core_result" where
  "policy_validate p = run_checks
    [ check_nonzero (max_config_bytes p) ''max_config_bytes'',
      check_nonzero (max_include_depth p) ''max_include_depth'',
      check_nonzero (max_include_count p) ''max_include_count'',
      check_nonzero (max_nodes p) ''max_nodes'',
      check_nonzero (max_connections p) ''max_connections'',
      check_nonzero (max_tensor_bytes p) ''max_tensor_bytes'',
      check_nonzero (max_frame_bytes p) ''max_frame_bytes'',
      check_nonzero (max_model_bytes p) ''max_model_bytes'',
      check_representable (max_config_bytes p) ''max_config_bytes'',
      check_representable (max_include_depth p) ''max_include_depth'',
      check_representable (max_include_count p) ''max_include_count'',
      check_representable (max_nodes p) ''max_nodes'',
      check_representable (max_connections p) ''max_connections'',
      check_representable (max_tensor_bytes p) ''max_tensor_bytes'',
      check_representable (max_frame_bytes p) ''max_frame_bytes'',
      check_representable (max_model_bytes p) ''max_model_bytes'',
      check_nonzero (max_buffer_packets p) ''max_buffer_packets'',
      check_representable (max_buffer_packets p) ''max_buffer_packets'',
      check_nonzero (max_buffer_bytes p) ''max_buffer_bytes'',
      check_representable (max_buffer_bytes p) ''max_buffer_bytes'' ]"

definition resource_policy_new :: "resource_policy \<Rightarrow> resource_policy core_result" where
  "resource_policy_new limits = and_then (policy_validate limits) (\<lambda>_. Inr limits)"

definition resource_policy_default :: resource_policy where
  "resource_policy_default =
    \<lparr> max_config_bytes = 8 * 1024 * 1024,
      max_include_depth = 16,
      max_include_count = 64,
      max_nodes = 1024,
      max_connections = 8192,
      max_tensor_bytes = 512 * 1024 * 1024,
      max_frame_bytes = 512 * 1024 * 1024,
      max_model_bytes = 2 * 1024 * 1024 * 1024,
      max_buffer_packets = 10000,
      max_buffer_bytes = 1024 * 1024 * 1024 \<rparr>"

definition exceeded_message :: "string \<Rightarrow> usize \<Rightarrow> usize \<Rightarrow> string" where
  "exceeded_message name requested hard =
    name @ '' requested '' @ show_nat requested @ '' exceeds hard limit '' @ show_nat hard"

definition check_exceeded :: "string list \<Rightarrow> string \<Rightarrow> usize \<Rightarrow> usize \<Rightarrow> string list" where
  "check_exceeded out name requested hard =
    (if requested > hard then out @ [exceeded_message name requested hard] else out)"

definition policy_min :: "resource_policy \<Rightarrow> resource_policy \<Rightarrow> resource_policy" where
  "policy_min self requested =
    \<lparr> max_config_bytes = min (max_config_bytes self) (max_config_bytes requested),
      max_include_depth = min (max_include_depth self) (max_include_depth requested),
      max_include_count = min (max_include_count self) (max_include_count requested),
      max_nodes = min (max_nodes self) (max_nodes requested),
      max_connections = min (max_connections self) (max_connections requested),
      max_tensor_bytes = min (max_tensor_bytes self) (max_tensor_bytes requested),
      max_frame_bytes = min (max_frame_bytes self) (max_frame_bytes requested),
      max_model_bytes = min (max_model_bytes self) (max_model_bytes requested),
      max_buffer_packets = min (max_buffer_packets self) (max_buffer_packets requested),
      max_buffer_bytes = min (max_buffer_bytes self) (max_buffer_bytes requested) \<rparr>"

definition effective_for :: "resource_policy \<Rightarrow> resource_policy \<Rightarrow> resource_policy core_result" where
  "effective_for self requested =
    (let effective = policy_min self requested;
      exceeded0 = [];
      exceeded1 = check_exceeded exceeded0 ''max_config_bytes'' (max_config_bytes requested) (max_config_bytes self);
      exceeded2 = check_exceeded exceeded1 ''max_include_depth'' (max_include_depth requested) (max_include_depth self);
      exceeded3 = check_exceeded exceeded2 ''max_include_count'' (max_include_count requested) (max_include_count self);
      exceeded4 = check_exceeded exceeded3 ''max_nodes'' (max_nodes requested) (max_nodes self);
      exceeded5 = check_exceeded exceeded4 ''max_connections'' (max_connections requested) (max_connections self);
      exceeded6 = check_exceeded exceeded5 ''max_tensor_bytes'' (max_tensor_bytes requested) (max_tensor_bytes self);
      exceeded7 = check_exceeded exceeded6 ''max_frame_bytes'' (max_frame_bytes requested) (max_frame_bytes self);
      exceeded8 = check_exceeded exceeded7 ''max_model_bytes'' (max_model_bytes requested) (max_model_bytes self);
      exceeded9 = check_exceeded exceeded8 ''max_buffer_packets'' (max_buffer_packets requested) (max_buffer_packets self);
      exceeded10 = check_exceeded exceeded9 ''max_buffer_bytes'' (max_buffer_bytes requested) (max_buffer_bytes self)
    in if exceeded10 \<noteq> [] then Inl (Config (join ''; '' exceeded10))
       else and_then (policy_validate effective) (\<lambda>_. Inr effective))"

section \<open>Admission checks\<close>

definition check_limit :: "string \<Rightarrow> usize \<Rightarrow> usize \<Rightarrow> unit core_result" where
  "check_limit what v limit =
    (if v > limit then Inl (Config (what @ '' '' @ show_nat v @ '' exceeds limit '' @ show_nat limit))
     else Inr ())"

definition check_config_bytes :: "resource_policy \<Rightarrow> usize \<Rightarrow> unit core_result" where
  "check_config_bytes p v = check_limit ''config bytes'' v (max_config_bytes p)"

definition check_include_depth :: "resource_policy \<Rightarrow> usize \<Rightarrow> unit core_result" where
  "check_include_depth p v = check_limit ''include depth'' v (max_include_depth p)"

definition check_include_count :: "resource_policy \<Rightarrow> usize \<Rightarrow> unit core_result" where
  "check_include_count p v = check_limit ''include count'' v (max_include_count p)"

definition check_nodes :: "resource_policy \<Rightarrow> usize \<Rightarrow> unit core_result" where
  "check_nodes p v = check_limit ''node count'' v (max_nodes p)"

definition check_connections :: "resource_policy \<Rightarrow> usize \<Rightarrow> unit core_result" where
  "check_connections p v = check_limit ''connection count'' v (max_connections p)"

definition check_tensor_bytes :: "resource_policy \<Rightarrow> usize \<Rightarrow> unit core_result" where
  "check_tensor_bytes p v = check_limit ''tensor bytes'' v (max_tensor_bytes p)"

definition check_frame_bytes :: "resource_policy \<Rightarrow> usize \<Rightarrow> unit core_result" where
  "check_frame_bytes p v = check_limit ''frame bytes'' v (max_frame_bytes p)"

definition check_model_bytes :: "resource_policy \<Rightarrow> usize \<Rightarrow> unit core_result" where
  "check_model_bytes p v = check_limit ''model bytes'' v (max_model_bytes p)"

definition check_buffer_packets :: "resource_policy \<Rightarrow> usize \<Rightarrow> unit core_result" where
  "check_buffer_packets p v = check_limit ''buffer packet count'' v (max_buffer_packets p)"

definition check_buffer_bytes :: "resource_policy \<Rightarrow> usize \<Rightarrow> unit core_result" where
  "check_buffer_bytes p v = check_limit ''buffer bytes'' v (max_buffer_bytes p)"

section \<open>The limits of a policy as a list\<close>

definition policy_limits :: "resource_policy \<Rightarrow> (string \<times> usize) list" where
  "policy_limits p =
    [ (''max_config_bytes'', max_config_bytes p),
      (''max_include_depth'', max_include_depth p),
      (''max_include_count'', max_include_count p),
      (''max_nodes'', max_nodes p),
      (''max_connections'', max_connections p),
      (''max_tensor_bytes'', max_tensor_bytes p),
      (''max_frame_bytes'', max_frame_bytes p),
      (''max_model_bytes'', max_model_bytes p),
      (''max_buffer_packets'', max_buffer_packets p),
      (''max_buffer_bytes'', max_buffer_bytes p) ]"

text \<open>Componentwise order: \<open>p\<close> is at least as tight as \<open>q\<close>.\<close>

definition tighter :: "resource_policy \<Rightarrow> resource_policy \<Rightarrow> bool" where
  "tighter p q = list_all2 (\<lambda>(_, a) (_, b). a \<le> b) (policy_limits p) (policy_limits q)"

text \<open>Every limit is positive and fits 32 bits.\<close>

definition policy_valid :: "resource_policy \<Rightarrow> bool" where
  "policy_valid p = list_all (\<lambda>(_, v). 0 < v \<and> v \<le> u32_max) (policy_limits p)"

lemma check_nonzero_ok [result_simps]: "check_nonzero v n = Inr () \<longleftrightarrow> 0 < v"
  by (simp add: check_nonzero_def)

lemma check_representable_ok [result_simps]: "check_representable v n = Inr () \<longleftrightarrow> v \<le> u32_max"
  by (simp add: check_representable_def)

lemma check_limit_ok [result_simps]: "check_limit w v l = Inr () \<longleftrightarrow> v \<le> l"
  by (simp add: check_limit_def)

lemma policy_validate_ok: "policy_validate p = Inr () \<longleftrightarrow> policy_valid p"
  by (simp add: policy_validate_def policy_valid_def policy_limits_def result_simps) blast

text \<open>The messages of the fields that exceed their hard limit, in declaration order.\<close>

definition exceeded_messages :: "resource_policy \<Rightarrow> resource_policy \<Rightarrow> string list" where
  "exceeded_messages hard requested =
    map (\<lambda>((name, r), (_, h)). exceeded_message name r h)
      (filter (\<lambda>((_, r), (_, h)). r > h) (zip (policy_limits requested) (policy_limits hard)))"

lemma check_exceeded_append:
  "check_exceeded out n r h = out @ (if r > h then [exceeded_message n r h] else [])"
  by (simp add: check_exceeded_def)

lemma exceeded_messages_Nil: "exceeded_messages hard requested = [] \<longleftrightarrow> tighter requested hard"
  by (auto simp: exceeded_messages_def tighter_def policy_limits_def)

lemma policy_min_tighter: "tighter r h \<Longrightarrow> policy_min h r = r"
  by (cases r) (simp add: policy_min_def tighter_def policy_limits_def min_def)

lemma effective_for_eq:
  "effective_for hard requested =
    (if tighter requested hard then and_then (policy_validate requested) (\<lambda>_. Inr requested)
     else Inl (Config (join ''; '' (exceeded_messages hard requested))))"
proof -
  have "effective_for hard requested =
    (if exceeded_messages hard requested \<noteq> []
     then Inl (Config (join ''; '' (exceeded_messages hard requested)))
     else and_then (policy_validate (policy_min hard requested)) (\<lambda>_. Inr (policy_min hard requested)))"
    unfolding effective_for_def Let_def check_exceeded_append
    by (simp add: exceeded_messages_def policy_limits_def if_distrib [where f = "map _"])
  then show ?thesis
    by (simp add: exceeded_messages_Nil policy_min_tighter)
qed

lemma tighter_trans: "tighter p q \<Longrightarrow> tighter q r \<Longrightarrow> tighter p r"
  by (auto simp: tighter_def policy_limits_def)

lemma tighter_refl: "tighter p p"
  by (simp add: tighter_def policy_limits_def)

section \<open>Properties\<close>

text \<open>Graphs can only tighten the process limits: a request is granted exactly when no field
  exceeds its hard limit and every field is positive and fits 32 bits, and the policy in
  effect is then the request itself.\<close>

lemma effective_for_iff:
  "effective_for hard requested = Inr p \<longleftrightarrow>
    p = requested \<and> tighter requested hard \<and> policy_valid requested"
  by (auto simp: effective_for_eq result_simps policy_validate_ok)

text \<open>A refused request names every offending field: when some field exceeds its hard limit
  the error is a configuration error whose text joins one message per exceeding field, in
  declaration order, with the requested value and the hard limit, and no other field.\<close>

lemma effective_for_exceeded:
  assumes "\<not> tighter requested hard"
  shows "effective_for hard requested = Inl (Config (join ''; '' (exceeded_messages hard requested)))
    \<and> (\<forall>name r h. ((name, r), (name, h)) \<in> set (zip (policy_limits requested) (policy_limits hard)) \<longrightarrow>
        h < r \<longrightarrow> exceeded_message name r h \<in> set (exceeded_messages hard requested))"
  using assms by (force simp: effective_for_eq exceeded_messages_def)

text \<open>Tightening composes: the limits granted under an already tightened policy are also
  granted by the outer policy, so a chain of graphs never widens the process limits.\<close>

lemma effective_for_chain:
  assumes "effective_for hard mid = Inr p" and "effective_for p inner = Inr q"
  shows "effective_for hard inner = Inr q \<and> tighter q hard"
  using assms tighter_trans by (auto simp: effective_for_eq result_simps split: if_splits)

end
