(* ===== verification/Buffers.thy ===== *)
theory Buffers
  imports CoreTypes DataTypes
begin

text \<open>
  \<open>dg-core/src/buffer.rs\<close> with the drop guards of \<open>memory.rs\<close>: buffer handles share
  their bytes through reference-counted storage, so the model has an explicit
  store of storage cells with their strong counts.  The inner
  \<open>Arc<RwLock<Vec<u8>>>\<close> and the guard's \<open>Arc\<close> are only ever owned by one storage
  value; they are part of the cell.  A release callback is a number, and the
  store logs the callbacks that have run.
\<close>

section \<open>Descriptors, guards and storage\<close>

type_synonym bytes = "8 word list"

record BufferDesc =
  size_bytes :: usize
  align :: usize

definition buffer_desc_new :: "usize \<Rightarrow> usize \<Rightarrow> BufferDesc" where
  "buffer_desc_new sz al = \<lparr> size_bytes = sz, align = al \<rparr>"

record ExternalHandle =
  eh_fd :: "int option"
  eh_raw :: nat

definition external_none :: ExternalHandle where
  "external_none = \<lparr> eh_fd = None, eh_raw = 0 \<rparr>"

definition external_from_fd :: "int \<Rightarrow> ExternalHandle" where
  "external_from_fd fd = \<lparr> eh_fd = Some fd, eh_raw = 0 \<rparr>"

definition external_from_raw :: "nat \<Rightarrow> ExternalHandle" where
  "external_from_raw raw = \<lparr> eh_fd = None, eh_raw = raw \<rparr>"

text \<open>The release cell: the callback, until it is taken.\<close>

record ExternalDropGuard =
  callback :: "nat option"

datatype BufferStorage =
  HostStorage bytes
| ExternalStorage "bytes option" ExternalDropGuard

record cell =
  c_storage :: BufferStorage
  c_strong :: nat

record store =
  st_cells :: "nat \<rightharpoonup> cell"
  st_next :: nat
  st_next_guard :: nat
  st_released :: "nat list"

definition store_empty :: store where
  "store_empty = \<lparr> st_cells = Map.empty, st_next = 0, st_next_guard = 0, st_released = [] \<rparr>"

record buffer =
  b_device :: DeviceKind
  b_domain :: MemoryDomain
  b_desc :: BufferDesc
  b_external :: ExternalHandle
  b_storage :: nat

text \<open>\<open>ExternalDropGuard::new\<close> boxes the callback; \<open>drop\<close> takes it and runs it.\<close>

definition external_drop_guard_new :: "store \<Rightarrow> ExternalDropGuard \<times> store" where
  "external_drop_guard_new st =
    (\<lparr> callback = Some (st_next_guard st) \<rparr>, st\<lparr> st_next_guard := st_next_guard st + 1 \<rparr>)"

definition drop_guard :: "ExternalDropGuard \<Rightarrow> store \<Rightarrow> store" where
  "drop_guard g st =
    (case callback g of
       None \<Rightarrow> st
     | Some release \<Rightarrow> st\<lparr> st_released := st_released st @ [release] \<rparr>)"

fun drop_storage :: "BufferStorage \<Rightarrow> store \<Rightarrow> store" where
  "drop_storage (HostStorage bs) st = st"
| "drop_storage (ExternalStorage bs g) st = drop_guard g st"

section \<open>Reference counting\<close>

text \<open>\<open>Arc::new\<close>, \<open>Arc::clone\<close>, \<open>drop\<close> of an \<open>Arc\<close>, and \<open>Arc::strong_count\<close>.\<close>

definition arc_new :: "BufferStorage \<Rightarrow> store \<Rightarrow> nat \<times> store" where
  "arc_new s st =
    (st_next st,
     st\<lparr> st_cells := (st_cells st)(st_next st \<mapsto> \<lparr> c_storage = s, c_strong = 1 \<rparr>),
         st_next := st_next st + 1 \<rparr>)"

definition strong_count :: "nat \<Rightarrow> store \<Rightarrow> nat" where
  "strong_count a st = (case st_cells st a of None \<Rightarrow> 0 | Some c \<Rightarrow> c_strong c)"

definition arc_clone :: "nat \<Rightarrow> store \<Rightarrow> store" where
  "arc_clone a st =
    (case st_cells st a of
       None \<Rightarrow> st
     | Some c \<Rightarrow> st\<lparr> st_cells := (st_cells st)(a \<mapsto> c\<lparr> c_strong := c_strong c + 1 \<rparr>) \<rparr>)"

definition arc_drop :: "nat \<Rightarrow> store \<Rightarrow> store" where
  "arc_drop a st =
    (case st_cells st a of
       None \<Rightarrow> st
     | Some c \<Rightarrow>
         if c_strong c \<le> 1
         then drop_storage (c_storage c) (st\<lparr> st_cells := (st_cells st)(a := None) \<rparr>)
         else st\<lparr> st_cells := (st_cells st)(a \<mapsto> c\<lparr> c_strong := c_strong c - 1 \<rparr>) \<rparr>)"

definition clone_buffer :: "buffer \<Rightarrow> store \<Rightarrow> buffer \<times> store" where
  "clone_buffer b st = (b, arc_clone (b_storage b) st)"

definition drop_buffer :: "buffer \<Rightarrow> store \<Rightarrow> store" where
  "drop_buffer b st = arc_drop (b_storage b) st"

definition ref_count :: "buffer \<Rightarrow> store \<Rightarrow> usize" where
  "ref_count b st = strong_count (b_storage b) st"

section \<open>Constructors\<close>

definition buffer_of_storage ::
  "DeviceKind \<Rightarrow> MemoryDomain \<Rightarrow> BufferDesc \<Rightarrow> ExternalHandle \<Rightarrow> BufferStorage \<Rightarrow> store \<Rightarrow> buffer \<times> store"
where
  "buffer_of_storage device domain desc external s st =
    (let (a, st') = arc_new s st in
     (\<lparr> b_device = device, b_domain = domain, b_desc = desc, b_external = external, b_storage = a \<rparr>,
      st'))"

definition try_new_host ::
  "(nat \<Rightarrow> bool) \<Rightarrow> DeviceKind \<Rightarrow> BufferDesc \<Rightarrow> store \<Rightarrow> buffer core_result \<times> store"
where
  "try_new_host can_reserve device desc st =
    (if align desc = 0 then (Inl (InvalidArgument ''buffer alignment must be non-zero''), st)
     else if \<not> can_reserve (size_bytes desc)
     then (Inl (ResourceExhausted
            (''host allocation failed for '' @ show_nat (size_bytes desc) @ '' bytes'')), st)
     else
       let (b, st') = buffer_of_storage device Host desc external_none
             (HostStorage (replicate (size_bytes desc) 0)) st
       in (Inr b, st'))"

definition allocate_host ::
  "(nat \<Rightarrow> bool) \<Rightarrow> DeviceKind \<Rightarrow> usize \<Rightarrow> store \<Rightarrow> buffer core_result \<times> store"
where
  "allocate_host can_reserve device sz st = try_new_host can_reserve device (buffer_desc_new sz 1) st"

definition from_host_bytes ::
  "DeviceKind \<Rightarrow> BufferDesc \<Rightarrow> bytes \<Rightarrow> store \<Rightarrow> buffer core_result \<times> store"
where
  "from_host_bytes device desc bs st =
    (if length bs \<noteq> size_bytes desc
     then (Inl (Buffer ''host bytes do not match descriptor size''), st)
     else
       let (b, st') = buffer_of_storage device Host desc external_none (HostStorage bs) st
       in (Inr b, st'))"

text \<open>The guard is an argument by value: on the error path it is dropped, which runs the callback.\<close>

definition from_external_with_host_bytes ::
  "DeviceKind \<Rightarrow> MemoryDomain \<Rightarrow> BufferDesc \<Rightarrow> ExternalHandle \<Rightarrow> bytes \<Rightarrow> ExternalDropGuard \<Rightarrow> store \<Rightarrow>
    buffer core_result \<times> store"
where
  "from_external_with_host_bytes device domain desc external bs guard st =
    (if length bs \<noteq> size_bytes desc
     then (Inl (Buffer ''external bytes do not match descriptor size''), drop_guard guard st)
     else
       let (b, st') = buffer_of_storage device domain desc external (ExternalStorage (Some bs) guard) st
       in (Inr b, st'))"

definition from_external ::
  "DeviceKind \<Rightarrow> MemoryDomain \<Rightarrow> BufferDesc \<Rightarrow> ExternalHandle \<Rightarrow> ExternalDropGuard \<Rightarrow> store \<Rightarrow>
    buffer core_result \<times> store"
where
  "from_external device domain desc external guard st =
    (let (b, st') = buffer_of_storage device domain desc external (ExternalStorage None guard) st
     in (Inr b, st'))"

section \<open>Access\<close>

fun memory_type :: "MemoryDomain \<Rightarrow> MemoryType" where
  "memory_type Host = HostMem"
| "memory_type DmaBuf = DeviceMem"
| "memory_type DrmPrime = DeviceMem"
| "memory_type VaapiSurface = DeviceMem"
| "memory_type CudaDevice = DeviceMem"
| "memory_type MppBuffer = DeviceMem"
| "memory_type SophonDevice = DeviceMem"
| "memory_type Opaque = DeviceMem"

definition buffer_len :: "buffer \<Rightarrow> usize" where
  "buffer_len b = size_bytes (b_desc b)"

abbreviation (input) not_mapped :: core_error where
  "not_mapped \<equiv> Buffer ''external buffer is not host-mapped; call map or stage explicitly''"

abbreviation (input) size_differs :: core_error where
  "size_differs \<equiv> Buffer ''source and destination size differ''"

text \<open>\<open>storage_of\<close> dereferences the handle's \<open>Arc\<close>; a live handle's cell exists.\<close>

definition storage_of :: "buffer \<Rightarrow> store \<Rightarrow> BufferStorage" where
  "storage_of b st =
    (case st_cells st (b_storage b) of None \<Rightarrow> HostStorage [] | Some c \<Rightarrow> c_storage c)"

definition is_host_readable :: "buffer \<Rightarrow> store \<Rightarrow> bool" where
  "is_host_readable b st =
    (case storage_of b st of ExternalStorage None g \<Rightarrow> False | _ \<Rightarrow> True)"

definition clone_bytes :: "(nat \<Rightarrow> bool) \<Rightarrow> bytes \<Rightarrow> bytes core_result" where
  "clone_bytes can_reserve bs =
    and_then (try_reserve_exact can_reserve (length bs) (Buffer ''failed to allocate buffer read copy''))
      (\<lambda>_. Inr bs)"

fun storage_try_read_bytes :: "(nat \<Rightarrow> bool) \<Rightarrow> BufferStorage \<Rightarrow> bytes core_result" where
  "storage_try_read_bytes can_reserve (HostStorage bs) = clone_bytes can_reserve bs"
| "storage_try_read_bytes can_reserve (ExternalStorage None g) = Inl not_mapped"
| "storage_try_read_bytes can_reserve (ExternalStorage (Some bs) g) = clone_bytes can_reserve bs"

fun storage_write_from_slice :: "BufferStorage \<Rightarrow> bytes \<Rightarrow> BufferStorage core_result" where
  "storage_write_from_slice (HostStorage bs) src =
    (if length bs \<noteq> length src then Inl size_differs else Inr (HostStorage src))"
| "storage_write_from_slice (ExternalStorage (Some bs) g) src =
    (if length bs \<noteq> length src then Inl size_differs else Inr (ExternalStorage (Some src) g))"
| "storage_write_from_slice (ExternalStorage None g) src = Inl not_mapped"

definition set_storage :: "nat \<Rightarrow> BufferStorage \<Rightarrow> store \<Rightarrow> store" where
  "set_storage a s st =
    (case st_cells st a of
       None \<Rightarrow> st
     | Some c \<Rightarrow> st\<lparr> st_cells := (st_cells st)(a \<mapsto> c\<lparr> c_storage := s \<rparr>) \<rparr>)"

definition read_bytes :: "(nat \<Rightarrow> bool) \<Rightarrow> buffer \<Rightarrow> store \<Rightarrow> bytes core_result" where
  "read_bytes can_reserve b st = storage_try_read_bytes can_reserve (storage_of b st)"

definition map_with ::
  "(nat \<Rightarrow> bool) \<Rightarrow> (ExternalHandle \<Rightarrow> MemoryDomain \<Rightarrow> usize \<Rightarrow> bytes core_result) \<Rightarrow>
    buffer \<Rightarrow> store \<Rightarrow> bytes core_result"
where
  "map_with can_reserve mapper b st =
    (if is_host_readable b st then read_bytes can_reserve b st
     else and_then (mapper (b_external b) (b_domain b) (size_bytes (b_desc b)))
       (\<lambda>bs. if length bs \<noteq> size_bytes (b_desc b)
             then Inl (Buffer ''mapped external bytes do not match descriptor size'')
             else Inr bs))"

text \<open>
  Consumes the handle.  A unique storage is taken apart: its bytes are moved out
  and an external guard is dropped with the rest; a shared one is copied and the
  handle's reference is given up.
\<close>

definition try_into_host_bytes :: "buffer \<Rightarrow> store \<Rightarrow> bytes core_result \<times> store" where
  "try_into_host_bytes b st =
    (if \<not> is_host_readable b st
     then (Inl (Buffer ''buffer is not host-readable; staging is required''), drop_buffer b st)
     else if strong_count (b_storage b) st = 1
     then
       let st' = st\<lparr> st_cells := (st_cells st)(b_storage b := None) \<rparr> in
       (case storage_of b st of
          HostStorage bs \<Rightarrow> (Inr bs, st')
        | ExternalStorage (Some bs) g \<Rightarrow> (Inr bs, drop_guard g st')
        | ExternalStorage None g \<Rightarrow> (Inl not_mapped, drop_guard g st'))
     else
       (case storage_of b st of
          HostStorage bs \<Rightarrow> (Inr bs, drop_buffer b st)
        | ExternalStorage (Some bs) g \<Rightarrow> (Inr bs, drop_buffer b st)
        | ExternalStorage None g \<Rightarrow> (Inl not_mapped, drop_buffer b st)))"

definition write_from_slice :: "buffer \<Rightarrow> bytes \<Rightarrow> store \<Rightarrow> unit core_result \<times> store" where
  "write_from_slice b src st =
    (if length src \<noteq> buffer_len b then (Inl size_differs, st)
     else
       case storage_write_from_slice (storage_of b st) src of
         Inl e \<Rightarrow> (Inl e, st)
       | Inr s \<Rightarrow> (Inr (), set_storage (b_storage b) s st))"

definition copy_into :: "(nat \<Rightarrow> bool) \<Rightarrow> buffer \<Rightarrow> bytes \<Rightarrow> store \<Rightarrow> bytes core_result" where
  "copy_into can_reserve b dst st =
    (if length dst \<noteq> buffer_len b then Inl size_differs else read_bytes can_reserve b st)"

definition buffer_copy_to :: "(nat \<Rightarrow> bool) \<Rightarrow> buffer \<Rightarrow> buffer \<Rightarrow> store \<Rightarrow> unit core_result \<times> store" where
  "buffer_copy_to can_reserve b dst st =
    (case read_bytes can_reserve b st of
       Inl e \<Rightarrow> (Inl e, st)
     | Inr bs \<Rightarrow> write_from_slice dst bs st)"

section \<open>Handles and the store invariant\<close>

text \<open>The bytes of a host-readable storage have the descriptor's size.\<close>

fun sized :: "BufferStorage \<Rightarrow> usize \<Rightarrow> bool" where
  "sized (HostStorage bs) n \<longleftrightarrow> length bs = n"
| "sized (ExternalStorage (Some bs) g) n \<longleftrightarrow> length bs = n"
| "sized (ExternalStorage None g) n \<longleftrightarrow> True"

fun guard_of :: "BufferStorage \<Rightarrow> nat option" where
  "guard_of (HostStorage bs) = None"
| "guard_of (ExternalStorage bs g) = callback g"

definition holds :: "store \<Rightarrow> nat \<Rightarrow> nat \<Rightarrow> bool" where
  "holds st a g \<longleftrightarrow> (\<exists>c. st_cells st a = Some c \<and> guard_of (c_storage c) = Some g)"

text \<open>\<open>hs\<close> are the live handles: every cell is counted once per handle on it.\<close>

definition counts_inv :: "store \<Rightarrow> buffer list \<Rightarrow> bool" where
  "counts_inv st hs \<longleftrightarrow>
    (\<forall>a. strong_count a st = count_list (map b_storage hs) a) \<and>
    (\<forall>a c. st_cells st a = Some c \<longrightarrow> 0 < c_strong c \<and> a < st_next st)"

definition sizes_inv :: "store \<Rightarrow> buffer list \<Rightarrow> bool" where
  "sizes_inv st hs \<longleftrightarrow> (\<forall>b \<in> set hs. sized (storage_of b st) (buffer_len b))"

text \<open>Every guard created is either held by exactly one cell or has been released exactly once.\<close>

definition guards_inv :: "store \<Rightarrow> bool" where
  "guards_inv st \<longleftrightarrow>
    distinct (st_released st) \<and>
    (\<forall>g. g < st_next_guard st \<longleftrightarrow> g \<in> set (st_released st) \<or> (\<exists>a. holds st a g)) \<and>
    (\<forall>a g. holds st a g \<longrightarrow> g \<notin> set (st_released st)) \<and>
    (\<forall>a a' g. holds st a g \<longrightarrow> holds st a' g \<longrightarrow> a = a')"

lemma guards_invI:
  assumes "distinct (st_released st)"
    and "\<And>g. g < st_next_guard st \<longleftrightarrow> g \<in> set (st_released st) \<or> (\<exists>a. holds st a g)"
    and "\<And>a g. holds st a g \<Longrightarrow> g \<notin> set (st_released st)"
    and "\<And>a a' g. holds st a g \<Longrightarrow> holds st a' g \<Longrightarrow> a = a'"
  shows "guards_inv st"
  unfolding guards_inv_def using assms by blast

lemma guards_invD:
  assumes "guards_inv st"
  shows "distinct (st_released st)"
    and "g < st_next_guard st \<longleftrightarrow> g \<in> set (st_released st) \<or> (\<exists>a. holds st a g)"
    and "holds st a g \<Longrightarrow> g \<notin> set (st_released st)"
    and "holds st a g \<Longrightarrow> holds st a' g \<Longrightarrow> a = a'"
  using assms unfolding guards_inv_def by blast+

definition store_inv :: "store \<Rightarrow> buffer list \<Rightarrow> bool" where
  "store_inv st hs \<longleftrightarrow> counts_inv st hs \<and> sizes_inv st hs \<and> guards_inv st"

subsection \<open>Counts\<close>

lemma counts_inv_cell:
  assumes "counts_inv st hs" and "b \<in> set hs"
  obtains c where "st_cells st (b_storage b) = Some c" and "0 < c_strong c"
    and "c_strong c = count_list (map b_storage hs) (b_storage b)"
proof -
  have "count_list (map b_storage hs) (b_storage b) \<noteq> 0"
    using assms(2) by (simp add: count_list_0_iff)
  moreover have "strong_count (b_storage b) st = count_list (map b_storage hs) (b_storage b)"
    using assms(1) by (simp add: counts_inv_def)
  ultimately show ?thesis using that by (auto simp: strong_count_def split: option.splits)
qed

lemma counts_inv_fresh:
  assumes "counts_inv st hs"
  shows "st_cells st (st_next st) = None" and "count_list (map b_storage hs) (st_next st) = 0"
    and "\<And>b. b \<in> set hs \<Longrightarrow> b_storage b \<noteq> st_next st"
proof -
  show none: "st_cells st (st_next st) = None"
    using assms by (cases "st_cells st (st_next st)") (auto simp: counts_inv_def)
  then have "strong_count (st_next st) st = 0" by (simp add: strong_count_def)
  then show zero: "count_list (map b_storage hs) (st_next st) = 0"
    using assms by (simp add: counts_inv_def)
  show "\<And>b. b \<in> set hs \<Longrightarrow> b_storage b \<noteq> st_next st" using zero by (force simp: count_list_0_iff)
qed

lemma counts_inv_new:
  assumes "counts_inv st hs" and "arc_new s st = (a, st')" and "b_storage b = a"
  shows "counts_inv st' (hs @ [b])"
proof -
  note fresh = counts_inv_fresh [OF assms(1)]
  have a: "a = st_next st"
    and st': "st' = st\<lparr> st_cells := (st_cells st)(a \<mapsto> \<lparr> c_storage = s, c_strong = 1 \<rparr>), st_next := a + 1 \<rparr>"
    using assms(2) by (auto simp: arc_new_def)
  have "strong_count x st' = count_list (map b_storage (hs @ [b])) x" for x
    using assms(1) fresh(2) assms(3) a
    by (cases "x = a") (auto simp: st' strong_count_def counts_inv_def)
  moreover have "0 < c_strong c \<and> x < st_next st'" if "st_cells st' x = Some c" for x c
    using that assms(1) by (auto simp: st' a counts_inv_def split: if_splits intro: less_SucI)
  ultimately show ?thesis by (simp add: counts_inv_def)
qed

lemma counts_inv_clone:
  assumes "counts_inv st hs" and "b \<in> set hs"
  shows "counts_inv (arc_clone (b_storage b) st) (hs @ [b])"
proof -
  obtain c where c: "st_cells st (b_storage b) = Some c" using counts_inv_cell [OF assms] by blast
  have "strong_count x (arc_clone (b_storage b) st) = count_list (map b_storage (hs @ [b])) x" for x
  proof -
    have "strong_count x st = count_list (map b_storage hs) x" using assms(1) by (simp add: counts_inv_def)
    then show ?thesis using c by (auto simp: arc_clone_def strong_count_def)
  qed
  then show ?thesis using assms(1) c by (auto simp: counts_inv_def arc_clone_def split: if_splits)
qed

lemma drop_guard_simps [simp]:
  "st_cells (drop_guard g st) = st_cells st" "st_next (drop_guard g st) = st_next st"
  "st_next_guard (drop_guard g st) = st_next_guard st"
  "strong_count a (drop_guard g st) = strong_count a st"
  "storage_of b (drop_guard g st) = storage_of b st"
  by (simp_all add: drop_guard_def strong_count_def storage_of_def split: option.splits)

lemma drop_storage_simps [simp]:
  "st_cells (drop_storage s st) = st_cells st" "st_next (drop_storage s st) = st_next st"
  "st_next_guard (drop_storage s st) = st_next_guard st"
  by (cases s; simp)+

definition remove_at :: "nat \<Rightarrow> 'a list \<Rightarrow> 'a list" where
  "remove_at i xs = take i xs @ drop (Suc i) xs"

lemma count_remove_at:
  assumes "i < length xs"
  shows "count_list (map f (remove_at i xs)) a = count_list (map f xs) a - (if f (xs ! i) = a then 1 else 0)"
  using arg_cong [OF id_take_nth_drop [OF assms], where f = "\<lambda>ys. count_list (map f ys) a"]
  by (simp add: remove_at_def)

lemma set_remove_at: "set (remove_at i xs) \<subseteq> set xs"
  using set_take_subset [of i xs] set_drop_subset [of "Suc i" xs] by (auto simp: remove_at_def)

lemma strong_count_arc_drop:
  assumes "\<And>c. st_cells st a = Some c \<Longrightarrow> 0 < c_strong c"
  shows "strong_count x (arc_drop a st) = strong_count x st - (if x = a then 1 else 0)"
  using assms by (auto simp: arc_drop_def strong_count_def split: option.splits)

lemma counts_inv_drop:
  assumes "counts_inv st hs" and "i < length hs"
  shows "counts_inv (drop_buffer (hs ! i) st) (remove_at i hs)"
proof -
  let ?a = "b_storage (hs ! i)"
  have "strong_count x (arc_drop ?a st) = count_list (map b_storage (remove_at i hs)) x" for x
    using assms by (auto simp: strong_count_arc_drop count_remove_at counts_inv_def)
  moreover have "0 < c_strong c \<and> x < st_next (arc_drop ?a st)" if "st_cells (arc_drop ?a st) x = Some c" for x c
    using that assms(1) by (auto simp: arc_drop_def counts_inv_def split: option.splits if_splits)
  ultimately show ?thesis by (simp add: counts_inv_def drop_buffer_def)
qed

lemma counts_inv_set_storage:
  assumes "counts_inv st hs"
  shows "counts_inv (set_storage a s st) hs"
proof -
  have "strong_count x (set_storage a s st) = strong_count x st" for x
    by (auto simp: set_storage_def strong_count_def split: option.splits)
  moreover have "0 < c_strong c \<and> x < st_next (set_storage a s st)"
    if "st_cells (set_storage a s st) x = Some c" for x c
    using that assms by (auto simp: set_storage_def counts_inv_def split: option.splits if_splits)
  ultimately show ?thesis using assms by (simp add: counts_inv_def)
qed

subsection \<open>Sizes\<close>

lemma sizes_inv_new:
  assumes "counts_inv st hs" and "sizes_inv st hs" and "arc_new s st = (a, st')"
    and "b_storage b = a" and "sized s (buffer_len b)"
  shows "sizes_inv st' (hs @ [b])"
proof -
  have "storage_of x st' = storage_of x st" if "x \<in> set hs" for x
    using counts_inv_fresh(3) [OF assms(1) that] assms(3) by (auto simp: storage_of_def arc_new_def)
  moreover have "storage_of b st' = s" using assms(3,4) by (auto simp: storage_of_def arc_new_def)
  ultimately show ?thesis using assms(2,5) by (simp add: sizes_inv_def)
qed

lemma storage_of_arc_clone [simp]: "storage_of b (arc_clone a st) = storage_of b st"
  by (simp add: storage_of_def arc_clone_def split: option.splits)

lemma sizes_inv_clone: "sizes_inv st hs \<Longrightarrow> b \<in> set hs \<Longrightarrow> sizes_inv (arc_clone a st) (hs @ [b])"
  by (auto simp: sizes_inv_def)

text \<open>Dropping one handle leaves the storage of every other handle as it is.\<close>

lemma storage_of_drop:
  assumes "counts_inv st hs" and "i < length hs" and "b \<in> set (remove_at i hs)"
  shows "storage_of b (drop_buffer (hs ! i) st) = storage_of b st"
proof (cases "b_storage b = b_storage (hs ! i)")
  case True
  obtain c where c: "st_cells st (b_storage (hs ! i)) = Some c"
    and n: "c_strong c = count_list (map b_storage hs) (b_storage (hs ! i))"
    using counts_inv_cell [OF assms(1) nth_mem [OF assms(2)]] by blast
  have "count_list (map b_storage (remove_at i hs)) (b_storage b) \<noteq> 0"
    using assms(3) by (simp add: count_list_0_iff)
  then have "1 < c_strong c" using n True count_remove_at [OF assms(2), of b_storage "b_storage b"] by simp
  then show ?thesis using c True by (simp add: storage_of_def drop_buffer_def arc_drop_def)
next
  case False
  then show ?thesis by (auto simp: storage_of_def drop_buffer_def arc_drop_def split: option.splits)
qed

lemma sizes_inv_drop:
  assumes "counts_inv st hs" and "sizes_inv st hs" and "i < length hs"
  shows "sizes_inv (drop_buffer (hs ! i) st) (remove_at i hs)"
  using assms storage_of_drop [OF assms(1,3)] set_remove_at [of i hs] by (auto simp: sizes_inv_def)

lemma storage_write_ok:
  "storage_write_from_slice s src = Inr s' \<Longrightarrow>
    sized s (length src) \<and> sized s' (length src) \<and> guard_of s' = guard_of s"
  by (cases "(s, src)" rule: storage_write_from_slice.cases) (auto split: if_splits)

lemma storage_of_set_storage:
  "st_cells st a \<noteq> None \<Longrightarrow>
    storage_of b (set_storage a s st) = (if b_storage b = a then s else storage_of b st)"
  by (auto simp: storage_of_def set_storage_def)

lemma sized_unique: "sized s n \<Longrightarrow> sized s m \<Longrightarrow> (\<And>g. s \<noteq> ExternalStorage None g) \<Longrightarrow> n = m"
  by (cases "(s, n)" rule: sized.cases) auto

text \<open>A write through one handle keeps the sizes seen by all the handles that share its storage.\<close>

lemma sizes_inv_write:
  assumes "counts_inv st hs" and "sizes_inv st hs" and "b \<in> set hs"
    and "storage_write_from_slice (storage_of b st) src = Inr s"
  shows "sizes_inv (set_storage (b_storage b) s st) hs"
proof -
  obtain c where c: "st_cells st (b_storage b) = Some c" using counts_inv_cell [OF assms(1,3)] by blast
  have "sized s (buffer_len x)" if "x \<in> set hs" and "b_storage x = b_storage b" for x
  proof -
    have same: "storage_of x st = storage_of b st" using that(2) by (simp add: storage_of_def)
    have "\<And>g. storage_of b st \<noteq> ExternalStorage None g" using assms(4) by auto
    moreover have "sized (storage_of b st) (length src)" "sized s (length src)"
      using storage_write_ok [OF assms(4)] by simp_all
    moreover have "sized (storage_of b st) (buffer_len x)"
      using assms(2) that same by (auto simp: sizes_inv_def)
    ultimately show ?thesis using sized_unique [of "storage_of b st"] by metis
  qed
  then show ?thesis using assms(2) c by (simp add: sizes_inv_def storage_of_set_storage)
qed

subsection \<open>Guards\<close>

lemma guards_inv_same:
  assumes "guards_inv st" and "\<And>a g. holds st' a g = holds st a g"
    and "st_released st' = st_released st" and "st_next_guard st' = st_next_guard st"
  shows "guards_inv st'"
  using assms by (simp add: guards_inv_def)

lemma guards_inv_clone: "guards_inv st \<Longrightarrow> guards_inv (arc_clone a st)"
  by (erule guards_inv_same) (auto simp: holds_def arc_clone_def split: option.splits)

lemma guards_inv_set_storage:
  assumes "guards_inv st" and "\<And>c. st_cells st a = Some c \<Longrightarrow> guard_of s = guard_of (c_storage c)"
  shows "guards_inv (set_storage a s st)"
  using assms(1) by (rule guards_inv_same)
    (use assms(2) in \<open>auto simp: holds_def set_storage_def split: option.splits\<close>)

lemma guards_inv_new_host:
  assumes "guards_inv st" and "st_cells st (st_next st) = None"
  shows "guards_inv (snd (arc_new (HostStorage bs) st))"
  using assms(1) by (rule guards_inv_same) (use assms(2) in \<open>auto simp: holds_def arc_new_def\<close>)

lemma guards_inv_import:
  assumes inv: "guards_inv st" and fresh: "st_cells st (st_next st) = None"
    and g: "external_drop_guard_new st = (g, st1)"
  shows "guards_inv (snd (arc_new (ExternalStorage bs g) st1))" (is "guards_inv ?st")
proof -
  note D = guards_invD [OF inv]
  have h: "holds ?st a k \<longleftrightarrow> holds st a k \<or> a = st_next st \<and> k = st_next_guard st" for a k
    using g fresh by (auto simp: holds_def arc_new_def external_drop_guard_new_def)
  have old: "k < st_next_guard st" if "holds st a k" for a k using D(2) that by blast
  have r: "st_released ?st = st_released st" "st_next_guard ?st = Suc (st_next_guard st)"
    using g by (auto simp: arc_new_def external_drop_guard_new_def)
  show ?thesis
  proof (rule guards_invI, unfold h r)
    show "(k < Suc (st_next_guard st)) = (k \<in> set (st_released st) \<or>
        (\<exists>a. holds st a k \<or> a = st_next st \<and> k = st_next_guard st))" for k
      using D(2) [of k] less_Suc_eq by auto
    show "k \<notin> set (st_released st)" if "holds st a k \<or> a = st_next st \<and> k = st_next_guard st" for a k
      using that D(2) [of k] D(3) by blast
    show "a = a'" if "holds st a k \<or> a = st_next st \<and> k = st_next_guard st"
      and "holds st a' k \<or> a' = st_next st \<and> k = st_next_guard st" for a a' k
      using that D(4) old by blast
  qed (rule D(1))
qed

lemma guards_inv_refused:
  assumes "guards_inv st" and g: "external_drop_guard_new st = (g, st1)"
  shows "guards_inv (drop_guard g st1)"
proof -
  note D = guards_invD [OF assms(1)]
  have h: "holds (drop_guard g st1) a k \<longleftrightarrow> holds st a k" for a k
    using g by (auto simp: holds_def external_drop_guard_new_def)
  have r: "st_released (drop_guard g st1) = st_released st @ [st_next_guard st]"
    "st_next_guard (drop_guard g st1) = Suc (st_next_guard st)"
    using g by (auto simp: external_drop_guard_new_def drop_guard_def)
  show ?thesis
  proof (rule guards_invI, unfold h r)
    show "distinct (st_released st @ [st_next_guard st])" using D(1) D(2) [of "st_next_guard st"] by simp
    show "(k < Suc (st_next_guard st)) = (k \<in> set (st_released st @ [st_next_guard st]) \<or> (\<exists>a. holds st a k))" for k
      using D(2) [of k] less_Suc_eq by auto
    show "k \<notin> set (st_released st @ [st_next_guard st])" if "holds st a k" for a k
      using that D(2) [of k] D(3) by auto
  qed (rule D(4))
qed

lemma released_drop_storage:
  "st_released (drop_storage s st) =
    st_released st @ (case guard_of s of None \<Rightarrow> [] | Some g \<Rightarrow> [g])"
  by (cases s) (auto simp: drop_guard_def split: option.splits)

lemma guards_inv_remove_cell:
  assumes "guards_inv st" and "st_cells st a = Some c"
  shows "guards_inv (drop_storage (c_storage c) (st\<lparr> st_cells := (st_cells st)(a := None) \<rparr>))"
    (is "guards_inv ?st")
proof -
  note D = guards_invD [OF assms(1)]
  have h: "holds ?st x k \<longleftrightarrow> x \<noteq> a \<and> holds st x k" for x k by (auto simp: holds_def)
  have a: "holds st a k \<longleftrightarrow> guard_of (c_storage c) = Some k" for k using assms(2) by (simp add: holds_def)
  have r: "distinct (st_released ?st)"
    "k \<in> set (st_released ?st) \<longleftrightarrow> k \<in> set (st_released st) \<or> holds st a k" for k
    using D(1) D(3) [of a] a by (auto simp: released_drop_storage split: option.splits)
  show ?thesis
  proof (rule guards_invI, unfold h)
    show "distinct (st_released ?st)" by (rule r(1))
    show "(k < st_next_guard ?st) = (k \<in> set (st_released ?st) \<or> (\<exists>x. x \<noteq> a \<and> holds st x k))" for k
      using D(2) [of k] r(2) [of k] by auto
    show "k \<notin> set (st_released ?st)" if "x \<noteq> a \<and> holds st x k" for x k
      using that D(3) D(4) r(2) by blast
    show "x = x'" if "x \<noteq> a \<and> holds st x k" and "x' \<noteq> a \<and> holds st x' k" for x x' k
      using that D(4) by blast
  qed
qed

lemma guards_inv_drop: "guards_inv st \<Longrightarrow> guards_inv (arc_drop a st)"
proof (cases "st_cells st a")
  case (Some c)
  assume inv: "guards_inv st"
  show ?thesis
  proof (cases "c_strong c \<le> 1")
    case True
    then show ?thesis using guards_inv_remove_cell [OF inv Some] Some by (simp add: arc_drop_def)
  next
    case False
    then show ?thesis
      using Some by (intro guards_inv_same [OF inv]) (auto simp: arc_drop_def holds_def)
  qed
qed (simp add: arc_drop_def)

section \<open>Programs over handles\<close>

text \<open>
  The operations a client can apply to the handles it owns, by position.  A
  consuming operation removes its handle; a constructor appends one.
\<close>

datatype buf_cmd =
  NewHost DeviceKind BufferDesc
| FromHostBytes DeviceKind BufferDesc bytes
| ImportMapped DeviceKind MemoryDomain BufferDesc ExternalHandle bytes
| Import DeviceKind MemoryDomain BufferDesc ExternalHandle
| CloneHandle nat
| DropHandle nat
| WriteBytes nat bytes
| CopyTo nat nat
| IntoHostBytes nat

definition add_handle :: "buffer list \<Rightarrow> buffer core_result \<times> store \<Rightarrow> store \<times> buffer list" where
  "add_handle hs r = (case r of (Inl e, st) \<Rightarrow> (st, hs) | (Inr b, st) \<Rightarrow> (st, hs @ [b]))"

fun exec_cmd :: "(nat \<Rightarrow> bool) \<Rightarrow> buf_cmd \<Rightarrow> store \<times> buffer list \<Rightarrow> store \<times> buffer list" where
  "exec_cmd res (NewHost dev desc) (st, hs) = add_handle hs (try_new_host res dev desc st)"
| "exec_cmd res (FromHostBytes dev desc bs) (st, hs) = add_handle hs (from_host_bytes dev desc bs st)"
| "exec_cmd res (ImportMapped dev domain desc ext bs) (st, hs) =
    (let (g, st1) = external_drop_guard_new st in
     add_handle hs (from_external_with_host_bytes dev domain desc ext bs g st1))"
| "exec_cmd res (Import dev domain desc ext) (st, hs) =
    (let (g, st1) = external_drop_guard_new st in
     add_handle hs (from_external dev domain desc ext g st1))"
| "exec_cmd res (CloneHandle i) (st, hs) =
    (if i < length hs
     then let (b, st') = clone_buffer (hs ! i) st in (st', hs @ [b])
     else (st, hs))"
| "exec_cmd res (DropHandle i) (st, hs) =
    (if i < length hs then (drop_buffer (hs ! i) st, remove_at i hs) else (st, hs))"
| "exec_cmd res (WriteBytes i src) (st, hs) =
    (if i < length hs then (snd (write_from_slice (hs ! i) src st), hs) else (st, hs))"
| "exec_cmd res (CopyTo i j) (st, hs) =
    (if i < length hs \<and> j < length hs
     then (snd (buffer_copy_to res (hs ! i) (hs ! j) st), hs) else (st, hs))"
| "exec_cmd res (IntoHostBytes i) (st, hs) =
    (if i < length hs
     then (snd (try_into_host_bytes (hs ! i) st), remove_at i hs) else (st, hs))"

definition run_cmds :: "(nat \<Rightarrow> bool) \<Rightarrow> buf_cmd list \<Rightarrow> store \<times> buffer list" where
  "run_cmds res cmds = fold (exec_cmd res) cmds (store_empty, [])"

abbreviation world_inv :: "store \<times> buffer list \<Rightarrow> bool" where
  "world_inv w \<equiv> store_inv (fst w) (snd w)"

lemma try_new_host_cases:
  "(\<exists>e. try_new_host res dev desc st = (Inl e, st)) \<or>
   (\<exists>b. try_new_host res dev desc st = (Inr b, snd (arc_new (HostStorage (replicate (size_bytes desc) 0)) st)) \<and>
      b_desc b = desc \<and> b_device b = dev \<and> b_domain b = Host \<and> b_storage b = st_next st)"
  by (simp add: try_new_host_def buffer_of_storage_def arc_new_def)

lemma store_inv_new:
  assumes "store_inv st hs" and "guards_inv (snd (arc_new s st1))"
    and "st_cells st1 = st_cells st" and "st_next st1 = st_next st"
    and "b_storage b = st_next st" and "sized s (buffer_len b)"
  shows "store_inv (snd (arc_new s st1)) (hs @ [b])"
proof -
  have "counts_inv st1 hs" "sizes_inv st1 hs"
    using assms(1,3,4) by (simp_all add: store_inv_def counts_inv_def sizes_inv_def strong_count_def storage_of_def)
  moreover have "arc_new s st1 = (st_next st, snd (arc_new s st1))" using assms(4) by (simp add: arc_new_def)
  ultimately show ?thesis
    using counts_inv_new sizes_inv_new assms(2,5,6) unfolding store_inv_def by metis
qed

lemma store_inv_fresh: "store_inv st hs \<Longrightarrow> st_cells st (st_next st) = None"
  by (auto simp: store_inv_def dest: counts_inv_fresh)

lemma store_inv_host:
  "store_inv st hs \<Longrightarrow> b_storage b = st_next st \<Longrightarrow> length bs = buffer_len b \<Longrightarrow>
    store_inv (snd (arc_new (HostStorage bs) st)) (hs @ [b])"
  by (rule store_inv_new [where st = st])
     (auto simp: store_inv_def intro: guards_inv_new_host counts_inv_fresh)

lemma store_inv_import:
  "store_inv st hs \<Longrightarrow> external_drop_guard_new st = (g, st1) \<Longrightarrow> b_storage b = st_next st \<Longrightarrow>
    sized (ExternalStorage bs g) (buffer_len b) \<Longrightarrow>
    store_inv (snd (arc_new (ExternalStorage bs g) st1)) (hs @ [b])"
  by (rule store_inv_new [where st = st])
     (auto simp: store_inv_def external_drop_guard_new_def intro!: guards_inv_import counts_inv_fresh)

lemma store_inv_refused:
  assumes "store_inv st hs" and "external_drop_guard_new st = (g, st1)"
  shows "store_inv (drop_guard g st1) hs"
proof -
  have same: "st_cells st1 = st_cells st" "st_next st1 = st_next st"
    using assms(2) by (auto simp: external_drop_guard_new_def)
  show ?thesis
    using assms(1) guards_inv_refused [OF _ assms(2)]
    by (simp add: store_inv_def counts_inv_def sizes_inv_def strong_count_def storage_of_def same)
qed

lemma store_inv_clone:
  "store_inv st hs \<Longrightarrow> b \<in> set hs \<Longrightarrow> store_inv (arc_clone (b_storage b) st) (hs @ [b])"
  by (simp add: store_inv_def counts_inv_clone sizes_inv_clone guards_inv_clone)

lemma store_inv_drop:
  "store_inv st hs \<Longrightarrow> i < length hs \<Longrightarrow> store_inv (drop_buffer (hs ! i) st) (remove_at i hs)"
  using guards_inv_drop by (auto simp: store_inv_def counts_inv_drop sizes_inv_drop drop_buffer_def
      dest: counts_inv_drop sizes_inv_drop)

lemma store_inv_write:
  assumes "store_inv st hs" and "b \<in> set hs"
  shows "store_inv (snd (write_from_slice b src st)) hs"
proof (cases "length src \<noteq> buffer_len b")
  case False
  show ?thesis
  proof (cases "storage_write_from_slice (storage_of b st) src")
    case (Inr s)
    have "guard_of s = guard_of (c_storage c)" if "st_cells st (b_storage b) = Some c" for c
      using storage_write_ok [OF Inr] that by (simp add: storage_of_def)
    then show ?thesis
      using assms Inr False
      by (simp add: write_from_slice_def store_inv_def counts_inv_set_storage sizes_inv_write guards_inv_set_storage)
  qed (use assms(1) False in \<open>simp add: write_from_slice_def\<close>)
qed (use assms(1) in \<open>simp add: write_from_slice_def\<close>)

text \<open>Whichever way \<open>try_into_host_bytes\<close> goes, the handle it consumed is given up.\<close>

lemma try_into_host_bytes_store:
  assumes "store_inv st hs" and "b \<in> set hs"
  shows "snd (try_into_host_bytes b st) = drop_buffer b st"
proof -
  obtain c where c: "st_cells st (b_storage b) = Some c"
    using counts_inv_cell assms unfolding store_inv_def by metis
  show ?thesis
  proof (cases "is_host_readable b st \<and> c_strong c = 1")
    case True
    then show ?thesis
      using c by (auto simp: try_into_host_bytes_def strong_count_def storage_of_def drop_buffer_def
          arc_drop_def is_host_readable_def split: BufferStorage.splits option.splits)
  next
    case False
    then show ?thesis
      using c by (auto simp: try_into_host_bytes_def strong_count_def split: BufferStorage.splits option.splits)
  qed
qed

lemma exec_cmd_inv:
  assumes "store_inv st hs"
  shows "world_inv (exec_cmd res cmd (st, hs))"
proof (cases cmd)
  case (NewHost dev desc)
  then show ?thesis
    using try_new_host_cases [of res dev desc st] assms
    by (auto simp: add_handle_def buffer_len_def intro!: store_inv_host)
next
  case (FromHostBytes dev desc bs)
  then show ?thesis
    using assms store_inv_host [of st hs _ bs]
    by (auto simp: add_handle_def from_host_bytes_def buffer_of_storage_def arc_new_def buffer_len_def)
next
  case (ImportMapped dev domain desc ext bs)
  obtain g st1 where g: "external_drop_guard_new st = (g, st1)" by fastforce
  have "st_next st1 = st_next st" using g by (auto simp: external_drop_guard_new_def)
  then show ?thesis
    using ImportMapped g assms store_inv_import [OF assms g, of _ "Some bs"] store_inv_refused [OF assms g]
    by (auto simp: add_handle_def from_external_with_host_bytes_def buffer_of_storage_def arc_new_def buffer_len_def)
next
  case (Import dev domain desc ext)
  obtain g st1 where g: "external_drop_guard_new st = (g, st1)" by fastforce
  have "st_next st1 = st_next st" using g by (auto simp: external_drop_guard_new_def)
  then show ?thesis
    using Import g assms store_inv_import [OF assms g, of _ None]
    by (auto simp: add_handle_def from_external_def buffer_of_storage_def arc_new_def)
next
  case (CopyTo i j)
  then show ?thesis
    using assms by (auto simp: buffer_copy_to_def store_inv_write split: sum.splits)
next
  case (IntoHostBytes i)
  then show ?thesis
    using assms by (simp add: try_into_host_bytes_store store_inv_drop)
qed (use assms in \<open>simp_all add: clone_buffer_def store_inv_clone store_inv_drop store_inv_write\<close>)

lemma store_inv_empty: "store_inv store_empty []"
  by (simp add: store_inv_def store_empty_def counts_inv_def sizes_inv_def guards_inv_def
      strong_count_def holds_def)

lemma run_cmds_inv: "world_inv (run_cmds res cmds)"
proof -
  have "world_inv (fold (exec_cmd res) cmds w)" if "world_inv w" for w
    using that
  proof (induction cmds arbitrary: w)
    case (Cons cmd cmds)
    have "world_inv (exec_cmd res cmd w)" using exec_cmd_inv [of "fst w" "snd w"] Cons.prems by simp
    then show ?case using Cons.IH by simp
  qed simp
  then show ?thesis unfolding run_cmds_def using store_inv_empty by simp
qed

lemma held_by_handle:
  assumes "store_inv st hs" and "holds st a g"
  shows "\<exists>b \<in> set hs. guard_of (storage_of b st) = Some g"
proof -
  obtain c where c: "st_cells st a = Some c" "guard_of (c_storage c) = Some g"
    using assms(2) by (auto simp: holds_def)
  then have "count_list (map b_storage hs) a \<noteq> 0"
    using assms(1) unfolding store_inv_def counts_inv_def by (metis less_numeral_extra(3) option.simps(5) strong_count_def)
  then obtain b where "b \<in> set hs" "b_storage b = a" by (auto simp: count_list_0_iff)
  then show ?thesis using c by (auto simp: storage_of_def intro!: bexI [of _ b])
qed

lemma handle_holds:
  assumes "store_inv st hs" and "b \<in> set hs" and "guard_of (storage_of b st) = Some g"
  shows "holds st (b_storage b) g"
proof -
  obtain c where "st_cells st (b_storage b) = Some c"
    using counts_inv_cell assms(1,2) unfolding store_inv_def by metis
  then show ?thesis using assms(3) by (simp add: holds_def storage_of_def)
qed

section \<open>Properties\<close>

text \<open>C6. External ownership is released exactly once, when the last handle goes: after any
  sequence of buffer operations no callback has run twice, and the callback of a guard
  created so far has run exactly when no live handle reaches that guard.\<close>

theorem released_exactly_once:
  "case run_cmds can_reserve cmds of (st, hs) \<Rightarrow>
    distinct (st_released st) \<and>
    (\<forall>g. g \<in> set (st_released st) \<longleftrightarrow>
      g < st_next_guard st \<and> \<not> (\<exists>b \<in> set hs. guard_of (storage_of b st) = Some g))"
proof -
  obtain st hs where run: "run_cmds can_reserve cmds = (st, hs)" by fastforce
  have inv: "store_inv st hs" using run_cmds_inv [of can_reserve cmds] run by simp
  note D = guards_invD [of st]
  have g: "guards_inv st" using inv by (simp add: store_inv_def)
  have "k \<in> set (st_released st) \<longleftrightarrow>
      k < st_next_guard st \<and> \<not> (\<exists>b \<in> set hs. guard_of (storage_of b st) = Some k)" for k
    using D(2,3) [OF g] held_by_handle [OF inv] handle_holds [OF inv] by blast
  then show ?thesis using D(1) [OF g] run by simp
qed

text \<open>Reference counts and sizes are exact after any sequence of buffer operations: the
  reported count of a live handle is the number of live handles on its storage, and reading
  it gives as many bytes as its descriptor says or fails because the buffer is device-only.\<close>

lemma handles_consistent:
  "case run_cmds can_reserve cmds of (st, hs) \<Rightarrow> list_all (\<lambda>b.
    ref_count b st = length (filter (\<lambda>x. b_storage x = b_storage b) hs) \<and>
    (case read_bytes (\<lambda>_. True) b st of
       Inr bs \<Rightarrow> is_host_readable b st \<and> length bs = buffer_len b
     | Inl e \<Rightarrow> \<not> is_host_readable b st)) hs"
proof -
  obtain st hs where run: "run_cmds can_reserve cmds = (st, hs)" by fastforce
  have inv: "counts_inv st hs" "sizes_inv st hs"
    using run_cmds_inv [of can_reserve cmds] run by (simp_all add: store_inv_def)
  have count: "count_list (map b_storage xs) a = length (filter (\<lambda>x. b_storage x = a) xs)" for xs a
    by (induction xs) auto
  have "ref_count b st = length (filter (\<lambda>x. b_storage x = b_storage b) hs)" for b
    using inv(1) by (simp add: ref_count_def counts_inv_def count)
  moreover have "case read_bytes (\<lambda>_. True) b st of
       Inr bs \<Rightarrow> is_host_readable b st \<and> length bs = buffer_len b
     | Inl e \<Rightarrow> \<not> is_host_readable b st" if "b \<in> set hs" for b
  proof -
    have "sized (storage_of b st) (buffer_len b)" using inv(2) that by (simp add: sizes_inv_def)
    then show ?thesis
      by (cases "(\<lambda>_::nat. True, storage_of b st)" rule: storage_try_read_bytes.cases)
         (auto simp: read_bytes_def is_host_readable_def clone_bytes_def try_reserve_exact_def)
  qed
  ultimately show ?thesis using run by (simp add: list_all_iff)
qed

text \<open>Writes are seen through every alias and by nobody else: after a successful write, each
  handle on the same storage reads the bytes written, and each handle on another storage
  reads what it read before.\<close>

lemma write_read_alias:
  assumes "store_inv st hs" and "b \<in> set hs" and "b' \<in> set hs"
    and "write_from_slice b src st = (Inr (), st')" and "can_reserve (length src)"
  shows "read_bytes can_reserve b' st' =
    (if b_storage b' = b_storage b then Inr src else read_bytes can_reserve b' st)"
proof -
  obtain c where c: "st_cells st (b_storage b) = Some c"
    using counts_inv_cell assms(1,2) unfolding store_inv_def by metis
  obtain s where s: "storage_write_from_slice (storage_of b st) src = Inr s"
    and st': "st' = set_storage (b_storage b) s st"
    using assms(4) by (auto simp: write_from_slice_def split: if_splits sum.splits)
  have "storage_try_read_bytes can_reserve s = Inr src"
    using s assms(5) by (cases "(storage_of b st, src)" rule: storage_write_from_slice.cases)
      (auto simp: clone_bytes_def try_reserve_exact_def split: if_splits)
  then show ?thesis using c by (simp add: read_bytes_def st' storage_of_set_storage)
qed

text \<open>Converting a handle into host bytes gives the bytes its storage holds, whether they are
  moved out of a unique storage or copied from a shared one, and leaves what every other
  handle reads unchanged.\<close>

lemma into_host_bytes_correct:
  assumes "store_inv st hs" and "i < length hs" and "b' \<in> set (remove_at i hs)"
  shows "fst (try_into_host_bytes (hs ! i) st) =
      (if is_host_readable (hs ! i) st then read_bytes (\<lambda>_. True) (hs ! i) st
       else Inl (Buffer ''buffer is not host-readable; staging is required'')) \<and>
    storage_of b' (snd (try_into_host_bytes (hs ! i) st)) = storage_of b' st"
proof
  show "fst (try_into_host_bytes (hs ! i) st) =
      (if is_host_readable (hs ! i) st then read_bytes (\<lambda>_. True) (hs ! i) st
       else Inl (Buffer ''buffer is not host-readable; staging is required''))"
    by (auto simp: try_into_host_bytes_def read_bytes_def clone_bytes_def try_reserve_exact_def
        Let_def is_host_readable_def split: BufferStorage.splits option.splits)
  have "counts_inv st hs" using assms(1) by (simp add: store_inv_def)
  then show "storage_of b' (snd (try_into_host_bytes (hs ! i) st)) = storage_of b' st"
    using storage_of_drop [OF _ assms(2,3)] try_into_host_bytes_store [OF assms(1)] assms(2) by simp
qed

end
