(* ===== verification/MemoryPools.thy ===== *)
theory MemoryPools
  imports Buffers "HOL-Library.Multiset"
begin

text \<open>
  \<open>dg-core/src/memory.rs\<close>: the allocator interface, the CPU allocator, and the
  reusable host-side pool with its per-descriptor, entry and byte limits.  A
  \<open>dyn Allocator\<close> is a record of its two operations on the buffer store.  The
  pool is a state: configuration, cache and atomic counters (which wrap).
  The abstract cache is one list of buffers, oldest first.
\<close>

section \<open>Allocators\<close>

record allocator =
  alloc_fn :: "BufferDesc \<Rightarrow> store \<Rightarrow> buffer core_result \<times> store"
  dealloc_fn :: "buffer \<Rightarrow> store \<Rightarrow> unit core_result \<times> store"

definition cpu_allocate :: "(nat \<Rightarrow> bool) \<Rightarrow> BufferDesc \<Rightarrow> store \<Rightarrow> buffer core_result \<times> store" where
  "cpu_allocate can_reserve desc st =
    (if align desc = 0 then (Inl (InvalidArgument ''buffer alignment must be non-zero''), st)
     else try_new_host can_reserve Cpu desc st)"

text \<open>The buffer is an argument by value: it is dropped on return.\<close>

definition cpu_deallocate :: "buffer \<Rightarrow> store \<Rightarrow> unit core_result \<times> store" where
  "cpu_deallocate b st = (Inr (), drop_buffer b st)"

definition cpu_allocator :: "(nat \<Rightarrow> bool) \<Rightarrow> allocator" where
  "cpu_allocator can_reserve = \<lparr> alloc_fn = cpu_allocate can_reserve, dealloc_fn = cpu_deallocate \<rparr>"

section \<open>Pool configuration and state\<close>

record MemoryPoolConfig =
  max_cached_bytes :: usize
  max_cached_entries :: usize
  max_per_descriptor :: usize

definition pool_config_validate :: "MemoryPoolConfig \<Rightarrow> unit core_result" where
  "pool_config_validate c = run_checks
    [fail_if (max_cached_bytes c = 0) (InvalidArgument ''max_cached_bytes must be > 0''),
     fail_if (max_cached_entries c = 0) (InvalidArgument ''max_cached_entries must be > 0''),
     fail_if (max_per_descriptor c = 0) (InvalidArgument ''max_per_descriptor must be > 0'')]"

definition pool_config_new :: "usize \<Rightarrow> usize \<Rightarrow> usize \<Rightarrow> MemoryPoolConfig core_result" where
  "pool_config_new bytes entries per_desc =
    (let config = \<lparr> max_cached_bytes = bytes, max_cached_entries = entries, max_per_descriptor = per_desc \<rparr> in
     and_then (pool_config_validate config) (\<lambda>_. Inr config))"

definition pool_config_default :: MemoryPoolConfig where
  "pool_config_default =
    \<lparr> max_cached_bytes = 256 * 1024 * 1024, max_cached_entries = 256, max_per_descriptor = 16 \<rparr>"

text \<open>\<open>AtomicU64\<close> counters: \<open>fetch_add\<close> wraps around.\<close>

record PoolMetricsState =
  pm_allocations :: "64 word"
  pm_cache_hits :: "64 word"
  pm_cache_misses :: "64 word"
  pm_returns :: "64 word"
  pm_evictions :: "64 word"
  pm_evicted_bytes :: "64 word"
  pm_rejected_returns :: "64 word"

definition pool_metrics_default :: PoolMetricsState where
  "pool_metrics_default =
    \<lparr> pm_allocations = 0, pm_cache_hits = 0, pm_cache_misses = 0, pm_returns = 0,
      pm_evictions = 0, pm_evicted_bytes = 0, pm_rejected_returns = 0 \<rparr>"

type_synonym cache_key = "usize \<times> usize"

record PoolCache =
  by_key :: "cache_key \<rightharpoonup> buffer list"
  lru :: "cache_key list"
  total_entries :: usize
  total_bytes :: usize

definition pool_cache_new :: PoolCache where
  "pool_cache_new = \<lparr> by_key = Map.empty, lru = [], total_entries = 0, total_bytes = 0 \<rparr>"

record MemoryPool =
  mp_config :: MemoryPoolConfig
  mp_cache :: PoolCache
  mp_metrics :: PoolMetricsState

definition pool_with_config :: "MemoryPoolConfig \<Rightarrow> MemoryPool" where
  "pool_with_config c = \<lparr> mp_config = c, mp_cache = pool_cache_new, mp_metrics = pool_metrics_default \<rparr>"

definition pool_new :: MemoryPool where
  "pool_new = pool_with_config pool_config_default"

definition cached_buffer_count :: "MemoryPool \<Rightarrow> usize" where
  "cached_buffer_count p = total_entries (mp_cache p)"

definition cached_bytes :: "MemoryPool \<Rightarrow> usize" where
  "cached_bytes p = total_bytes (mp_cache p)"

record MemoryPoolMetrics =
  mm_cached_entries :: nat
  mm_cached_bytes :: nat
  mm_counters :: PoolMetricsState

definition metrics_snapshot :: "MemoryPool \<Rightarrow> MemoryPoolMetrics" where
  "metrics_snapshot p =
    \<lparr> mm_cached_entries = total_entries (mp_cache p), mm_cached_bytes = total_bytes (mp_cache p),
      mm_counters = mp_metrics p \<rparr>"

section \<open>Cache operations\<close>

definition key_of :: "buffer \<Rightarrow> cache_key" where
  "key_of b = (size_bytes (b_desc b), align (b_desc b))"

text \<open>\<open>if let Some(pos) = lru.iter().rposition(..) { lru.remove(pos) }\<close>\<close>

definition remove_last1 :: "'a \<Rightarrow> 'a list \<Rightarrow> 'a list" where
  "remove_last1 x xs = rev (remove1 x (rev xs))"

text \<open>\<open>by_key.remove(&key)\<close> when the slot is missing or empty.\<close>

definition prune_key :: "cache_key \<Rightarrow> PoolCache \<Rightarrow> PoolCache" where
  "prune_key key cache =
    (case by_key cache key of
       Some (b # slot) \<Rightarrow> cache
     | _ \<Rightarrow> cache\<lparr> by_key := (by_key cache)(key := None) \<rparr>)"

definition take_cached :: "BufferDesc \<Rightarrow> PoolCache \<Rightarrow> buffer option \<times> PoolCache" where
  "take_cached desc cache =
    (let key = (size_bytes desc, align desc) in
     case by_key cache key of
       None \<Rightarrow> (None, cache)
     | Some slot \<Rightarrow>
         if slot = [] then (None, cache)
         else
           let cache1 = cache\<lparr> by_key := (by_key cache)(key \<mapsto> butlast slot) \<rparr>;
               cache2 = cache1\<lparr> lru := remove_last1 key (lru cache1) \<rparr>;
               cache3 = prune_key key cache2;
               cache4 = cache3\<lparr> total_entries := saturating_sub (total_entries cache3) 1 \<rparr>;
               cache5 = cache4\<lparr> total_bytes := saturating_sub (total_bytes cache4) (size_bytes desc) \<rparr>
           in (Some (last slot), cache5))"

text \<open>One iteration of the per-descriptor loop, and the loop over \<open>0..overflow\<close>.\<close>

fun per_key_evict :: "nat \<Rightarrow> cache_key \<Rightarrow> PoolCache \<Rightarrow> (buffer \<times> usize) list \<Rightarrow> PoolCache \<times> (buffer \<times> usize) list" where
  "per_key_evict 0 key cache out = (cache, out)"
| "per_key_evict (Suc n) key cache out =
    (case by_key cache key of
       Some (evicted # slot) \<Rightarrow>
         let sz = size_bytes (b_desc evicted);
             cache1 = cache\<lparr> by_key := (by_key cache)(key \<mapsto> slot) \<rparr>;
             cache2 = cache1\<lparr> total_entries := saturating_sub (total_entries cache1) 1 \<rparr>;
             cache3 = cache2\<lparr> total_bytes := saturating_sub (total_bytes cache2) sz \<rparr>;
             cache4 = cache3\<lparr> lru := remove1 key (lru cache3) \<rparr>
         in per_key_evict n key (prune_key key cache4) (out @ [(evicted, sz)])
     | _ \<Rightarrow> (cache, out))"

definition count_eviction :: "usize \<Rightarrow> PoolMetricsState \<Rightarrow> PoolMetricsState" where
  "count_eviction sz m =
    m\<lparr> pm_evictions := pm_evictions m + 1, pm_evicted_bytes := pm_evicted_bytes m + of_nat sz \<rparr>"

definition count_rejected :: "PoolMetricsState \<Rightarrow> PoolMetricsState" where
  "count_rejected m = m\<lparr> pm_rejected_returns := pm_rejected_returns m + 1 \<rparr>"

text \<open>The evicted buffers go back to the allocator; its result is ignored.\<close>

fun free_evicted ::
  "allocator \<Rightarrow> (buffer \<times> usize) list \<Rightarrow> PoolMetricsState \<times> store \<Rightarrow> PoolMetricsState \<times> store" where
  "free_evicted al [] (m, st) = (m, st)"
| "free_evicted al ((b, sz) # rest) (m, st) =
    free_evicted al rest (count_eviction sz m, snd (dealloc_fn al b st))"

definition evict_one_locked ::
  "allocator \<Rightarrow> PoolCache \<times> PoolMetricsState \<times> store \<Rightarrow>
    bool core_result \<times> PoolCache \<times> PoolMetricsState \<times> store"
where
  "evict_one_locked al s =
    (case s of (cache, m, st) \<Rightarrow>
     (case lru cache of
        [] \<Rightarrow> (Inr False, cache, m, st)
      | key # rest \<Rightarrow>
        let cache = cache\<lparr> lru := rest \<rparr> in
        (case by_key cache key of
           None \<Rightarrow> (Inr True, cache, m, st)
         | Some [] \<Rightarrow> (Inr True, cache\<lparr> by_key := (by_key cache)(key := None) \<rparr>, m, st)
         | Some (evicted # slot) \<Rightarrow>
           let cache1 = cache\<lparr> by_key := (if slot = [] then (by_key cache)(key := None)
                                           else (by_key cache)(key \<mapsto> slot)) \<rparr>;
               sz = size_bytes (b_desc evicted);
               cache2 = cache1\<lparr> total_entries := saturating_sub (total_entries cache1) 1 \<rparr>;
               cache3 = cache2\<lparr> total_bytes := saturating_sub (total_bytes cache2) sz \<rparr>;
               m' = count_eviction sz m
           in (case dealloc_fn al evicted st of
                 (Inl e, st') \<Rightarrow> (Inl e, cache3, m', st')
               | (Inr _, st') \<Rightarrow> (Inr True, cache3, m', st')))))"

text \<open>The \<open>while\<close> condition: there is no room for \<open>sz\<close> more bytes.\<close>

definition no_room :: "MemoryPoolConfig \<Rightarrow> usize \<Rightarrow> PoolCache \<Rightarrow> bool" where
  "no_room config sz cache \<longleftrightarrow>
    total_entries cache \<ge> max_cached_entries config \<or>
    saturating_add (total_bytes cache) sz > max_cached_bytes config"

lemma evict_one_locked_lru:
  "evict_one_locked al (cache, m, st) = (Inr True, cache', m', st') \<Longrightarrow>
    length (lru cache') < length (lru cache)"
  by (auto simp: evict_one_locked_def Let_def split: list.splits option.splits sum.splits prod.splits)

text \<open>
  The global eviction loop.  \<open>Inr True\<close>: there is room; \<open>Inr False\<close>: nothing is left to
  evict; \<open>Inl e\<close>: the allocator refused a deallocation.
\<close>

function evict_until_room ::
  "allocator \<Rightarrow> MemoryPoolConfig \<Rightarrow> usize \<Rightarrow> PoolCache \<times> PoolMetricsState \<times> store \<Rightarrow>
    bool core_result \<times> PoolCache \<times> PoolMetricsState \<times> store"
where
  "evict_until_room al config sz (cache, m, st) =
    (if no_room config sz cache
     then
       (case evict_one_locked al (cache, m, st) of
          (Inr True, s') \<Rightarrow> evict_until_room al config sz s'
        | r \<Rightarrow> r)
     else (Inr True, cache, m, st))"
  by pat_completeness auto
termination
  by (relation "measure (\<lambda>(al, config, sz, cache, m, st). length (lru cache))")
     (auto dest: evict_one_locked_lru [OF sym])

declare evict_until_room.simps [simp del]

text \<open>The per-descriptor bound: the oldest entries of the key make place for one more.\<close>

definition trim_descriptor ::
  "allocator \<Rightarrow> MemoryPoolConfig \<Rightarrow> cache_key \<Rightarrow> PoolCache \<times> PoolMetricsState \<times> store \<Rightarrow>
    PoolCache \<times> PoolMetricsState \<times> store"
where
  "trim_descriptor al config key s =
    (case s of (cache, m, st) \<Rightarrow>
     let current_len = (case by_key cache key of None \<Rightarrow> 0 | Some slot \<Rightarrow> length slot);
         overflow = saturating_sub (saturating_add current_len 1) (max_per_descriptor config);
         (cache1, evicted) = per_key_evict overflow key cache []
     in (cache1, free_evicted al evicted (m, st)))"

text \<open>The end of \<open>push_cached\<close>: the entry is appended to its slot and to the LRU order.\<close>

definition insert_cached :: "buffer \<Rightarrow> PoolCache \<Rightarrow> PoolCache" where
  "insert_cached b cache =
    (let desc = b_desc b; key = (size_bytes desc, align desc);
         slot = (case by_key cache key of None \<Rightarrow> [] | Some slot \<Rightarrow> slot);
         cache1 = cache\<lparr> by_key := (by_key cache)(key \<mapsto> slot @ [b]) \<rparr>;
         cache2 = cache1\<lparr> lru := lru cache1 @ [key] \<rparr>;
         cache3 = cache2\<lparr> total_entries := saturating_add (total_entries cache2) 1 \<rparr>
     in cache3\<lparr> total_bytes := saturating_add (total_bytes cache3) (size_bytes desc) \<rparr>)"

definition push_cached ::
  "allocator \<Rightarrow> buffer \<Rightarrow> MemoryPool \<times> store \<Rightarrow> unit core_result \<times> MemoryPool \<times> store"
where
  "push_cached al b s =
    (case s of (p, st) \<Rightarrow>
     let desc = b_desc b; key = (size_bytes desc, align desc); config = mp_config p in
     if size_bytes desc > max_cached_bytes config
     then
       let (r, st') = dealloc_fn al b st
       in (r, p\<lparr> mp_metrics := count_rejected (mp_metrics p) \<rparr>, st')
     else
       (case evict_until_room al config (size_bytes desc)
               (trim_descriptor al config key (mp_cache p, mp_metrics p, st)) of
          (Inl e, cache2, m2, st2) \<Rightarrow>
            (Inl e, p\<lparr> mp_cache := cache2, mp_metrics := m2 \<rparr>, drop_buffer b st2)
        | (Inr False, cache2, m2, st2) \<Rightarrow>
            let (r, st3) = dealloc_fn al b st2
            in (r, p\<lparr> mp_cache := cache2, mp_metrics := count_rejected m2 \<rparr>, st3)
        | (Inr True, cache2, m2, st2) \<Rightarrow>
            (Inr (), p\<lparr> mp_cache := insert_cached b cache2,
                        mp_metrics := m2\<lparr> pm_returns := pm_returns m2 + 1 \<rparr> \<rparr>, st2)))"

definition pool_allocate ::
  "allocator \<Rightarrow> BufferDesc \<Rightarrow> MemoryPool \<times> store \<Rightarrow> buffer core_result \<times> MemoryPool \<times> store"
where
  "pool_allocate al desc s =
    (case s of (p, st) \<Rightarrow>
     if align desc = 0 then (Inl (InvalidArgument ''buffer alignment must be non-zero''), p, st)
     else
       let m1 = (mp_metrics p)\<lparr> pm_allocations := pm_allocations (mp_metrics p) + 1 \<rparr>;
           (taken, cache') = take_cached desc (mp_cache p);
           p1 = p\<lparr> mp_cache := cache', mp_metrics := m1 \<rparr>
       in
       (case taken of
          Some b \<Rightarrow> (Inr b, p1\<lparr> mp_metrics := m1\<lparr> pm_cache_hits := pm_cache_hits m1 + 1 \<rparr> \<rparr>, st)
        | None \<Rightarrow>
            let (r, st') = alloc_fn al desc st
            in (r, p1\<lparr> mp_metrics := m1\<lparr> pm_cache_misses := pm_cache_misses m1 + 1 \<rparr> \<rparr>, st')))"

definition pool_deallocate ::
  "allocator \<Rightarrow> buffer \<Rightarrow> MemoryPool \<times> store \<Rightarrow> unit core_result \<times> MemoryPool \<times> store"
where
  "pool_deallocate al b s =
    (case s of (p, st) \<Rightarrow>
     if b_domain b \<noteq> Host \<or> ref_count b st \<noteq> 1
     then
       let (r, st') = dealloc_fn al b st
       in (r, p\<lparr> mp_metrics := count_rejected (mp_metrics p) \<rparr>, st')
     else push_cached al b (p, st))"

section \<open>The abstract cache\<close>

text \<open>The cache stands for the list of its buffers, oldest first.\<close>

definition buffers_bytes :: "buffer list \<Rightarrow> nat" where
  "buffers_bytes q = sum_list (map (\<lambda>b. size_bytes (b_desc b)) q)"

definition with_key :: "cache_key \<Rightarrow> buffer list \<Rightarrow> buffer list" where
  "with_key k q = filter (\<lambda>b. key_of b = k) q"

definition cache_rel :: "PoolCache \<Rightarrow> buffer list \<Rightarrow> bool" where
  "cache_rel c q \<longleftrightarrow>
    lru c = map key_of q \<and>
    (\<forall>k. by_key c k = (if with_key k q = [] then None else Some (with_key k q))) \<and>
    total_entries c = length q \<and> total_bytes c = buffers_bytes q"

fun remove_first :: "('a \<Rightarrow> bool) \<Rightarrow> 'a list \<Rightarrow> 'a list" where
  "remove_first P [] = []"
| "remove_first P (x # xs) = (if P x then xs else x # remove_first P xs)"

definition remove_last :: "('a \<Rightarrow> bool) \<Rightarrow> 'a list \<Rightarrow> 'a list" where
  "remove_last P xs = rev (remove_first P (rev xs))"

lemma map_remove_first:
  "(\<And>x. P x \<longleftrightarrow> f x = k) \<Longrightarrow> map f (remove_first P xs) = remove1 k (map f xs)"
  by (induction xs) auto

lemma filter_remove_first: "filter P (remove_first P xs) = tl (filter P xs)"
  by (induction xs) auto

lemma filter_remove_first_other:
  "(\<And>x. Q x \<Longrightarrow> \<not> P x) \<Longrightarrow> filter Q (remove_first P xs) = filter Q xs"
  by (induction xs) auto

lemma mset_remove_first:
  "filter P xs \<noteq> [] \<Longrightarrow> mset (remove_first P xs) = mset xs - {# hd (filter P xs) #} \<and> hd (filter P xs) \<in> set xs"
proof (induction xs)
  case (Cons x xs)
  then show ?case by (cases "x = hd (filter P xs)") (auto split: if_splits)
qed simp

lemma length_remove_first: "filter P xs \<noteq> [] \<Longrightarrow> length (remove_first P xs) = length xs - 1"
proof (induction xs)
  case (Cons x xs)
  then show ?case by (cases xs) (auto split: if_splits)
qed simp

lemma set_remove_first: "set (remove_first P xs) \<subseteq> set xs"
  by (induction xs) auto

lemma map_remove_last:
  "(\<And>x. P x \<longleftrightarrow> f x = k) \<Longrightarrow> map f (remove_last P xs) = remove_last1 k (map f xs)"
  by (simp add: remove_last_def remove_last1_def rev_map [symmetric] map_remove_first)

lemma filter_remove_last: "filter P (remove_last P xs) = butlast (filter P xs)"
  by (simp add: remove_last_def rev_filter [symmetric] filter_remove_first butlast_rev [symmetric])

lemma filter_remove_last_other:
  "(\<And>x. Q x \<Longrightarrow> \<not> P x) \<Longrightarrow> filter Q (remove_last P xs) = filter Q xs"
  by (simp add: remove_last_def rev_filter [symmetric] filter_remove_first_other)

lemma mset_remove_last:
  assumes "filter P xs \<noteq> []"
  shows "mset (remove_last P xs) = mset xs - {# last (filter P xs) #} \<and> last (filter P xs) \<in> set xs"
proof -
  have "filter P (rev xs) \<noteq> []" using assms by (simp add: rev_filter [symmetric])
  from mset_remove_first [OF this] show ?thesis
    using assms by (simp add: remove_last_def rev_filter [symmetric] hd_rev)
qed

lemma length_remove_last: "filter P xs \<noteq> [] \<Longrightarrow> length (remove_last P xs) = length xs - 1"
  by (simp add: remove_last_def length_remove_first rev_filter [symmetric])

lemma buffers_bytes_mset: "buffers_bytes q = sum_mset (image_mset (\<lambda>b. size_bytes (b_desc b)) (mset q))"
  by (induction q) (simp_all add: buffers_bytes_def)

lemma buffers_bytes_simps [simp]:
  "buffers_bytes [] = 0" "buffers_bytes (b # q) = size_bytes (b_desc b) + buffers_bytes q"
  "buffers_bytes (q @ q') = buffers_bytes q + buffers_bytes q'"
  by (simp_all add: buffers_bytes_def)

lemma buffers_bytes_remove:
  assumes "mset q' = mset q - {# b #}" and "b \<in> set q"
  shows "buffers_bytes q' = buffers_bytes q - size_bytes (b_desc b)"
proof -
  have "mset q = add_mset b (mset q')" using assms by simp
  then show ?thesis by (simp add: buffers_bytes_mset)
qed

lemma with_key_simps [simp]:
  "with_key k [] = []"
  "with_key k (b # q) = (if key_of b = k then b # with_key k q else with_key k q)"
  "with_key k (q @ q') = with_key k q @ with_key k q'"
  by (simp_all add: with_key_def)

lemma with_key_desc: "b \<in> set (with_key (sz, al) q) \<Longrightarrow> size_bytes (b_desc b) = sz \<and> align (b_desc b) = al"
  by (auto simp: with_key_def key_of_def)

lemma cache_relD:
  assumes "cache_rel c q"
  shows "lru c = map key_of q"
    and "by_key c k = (if with_key k q = [] then None else Some (with_key k q))"
    and "total_entries c = length q" and "total_bytes c = buffers_bytes q"
  using assms unfolding cache_rel_def by blast+

lemma cache_rel_new: "cache_rel pool_cache_new []"
  by (simp add: cache_rel_def pool_cache_new_def)

section \<open>Refinement of the cache operations\<close>

text \<open>Removing one buffer of key \<open>k\<close>, at either end of its slot.\<close>

lemma cache_rel_remove:
  assumes "cache_rel c q" and "b \<in> set q" and "key_of b = k"
    and "map key_of q' = l" and "mset q' = mset q - {# b #}"
    and "with_key k q' = slot" and "\<And>k'. k' \<noteq> k \<Longrightarrow> with_key k' q' = with_key k' q"
    and "c' = c\<lparr> by_key := (by_key c)(k := if slot = [] then None else Some slot), lru := l,
            total_entries := total_entries c - 1, total_bytes := total_bytes c - size_bytes (b_desc b) \<rparr>"
  shows "cache_rel c' q'"
proof -
  have "length q' = length q - 1" using arg_cong [OF assms(5), where f = size] assms(2)
    by (simp add: size_Diff_singleton)
  then show ?thesis
    using assms(1,4,6,7) buffers_bytes_remove [OF assms(5,2)] unfolding assms(8) cache_rel_def by simp
qed

definition key_is :: "cache_key \<Rightarrow> buffer \<Rightarrow> bool" where
  "key_is k b \<longleftrightarrow> key_of b = k"

lemma with_key_alt: "with_key k = filter (key_is k)"
  by (rule ext) (simp add: with_key_def key_is_def [abs_def])

lemma remove_first_key:
  assumes "with_key k q \<noteq> []"
  shows "map key_of (remove_first (key_is k) q) = remove1 k (map key_of q)"
    and "mset (remove_first (key_is k) q) = mset q - {# hd (with_key k q) #}"
    and "hd (with_key k q) \<in> set q" and "key_of (hd (with_key k q)) = k"
    and "with_key k (remove_first (key_is k) q) = tl (with_key k q)"
    and "k' \<noteq> k \<Longrightarrow> with_key k' (remove_first (key_is k) q) = with_key k' q"
  using assms mset_remove_first [of "key_is k" q] map_remove_first [of "key_is k" key_of k q]
    hd_in_set [OF assms] filter_remove_first_other [of "key_is k'" "key_is k" q]
  by (auto simp: with_key_alt filter_remove_first key_is_def)

lemma remove_last_key:
  assumes "with_key k q \<noteq> []"
  shows "map key_of (remove_last (key_is k) q) = remove_last1 k (map key_of q)"
    and "mset (remove_last (key_is k) q) = mset q - {# last (with_key k q) #}"
    and "last (with_key k q) \<in> set q" and "key_of (last (with_key k q)) = k"
    and "with_key k (remove_last (key_is k) q) = butlast (with_key k q)"
    and "k' \<noteq> k \<Longrightarrow> with_key k' (remove_last (key_is k) q) = with_key k' q"
  using assms mset_remove_last [of "key_is k" q] map_remove_last [of "key_is k" key_of k q]
    last_in_set [OF assms] filter_remove_last_other [of "key_is k'" "key_is k" q]
  by (auto simp: with_key_alt filter_remove_last key_is_def)

text \<open>\<open>take_cached\<close> hands out the youngest buffer of the descriptor, if there is one.\<close>

lemma take_cached_refines:
  assumes "cache_rel c q" and "k = (size_bytes desc, align desc)"
  shows "if with_key k q = [] then take_cached desc c = (None, c)
    else \<exists>c'. take_cached desc c = (Some (last (with_key k q)), c') \<and>
      cache_rel c' (remove_last (key_is k) q)"
proof (cases "with_key k q = []")
  case True
  then show ?thesis using assms by (simp add: take_cached_def cache_rel_def)
next
  case False
  let ?slot = "with_key k q"
  let ?c = "c\<lparr> by_key := (by_key c)(k := if butlast ?slot = [] then None else Some (butlast ?slot)),
    lru := remove_last1 k (lru c), total_entries := total_entries c - 1,
    total_bytes := total_bytes c - size_bytes (b_desc (last ?slot)) \<rparr>"
  have sz: "size_bytes (b_desc (last ?slot)) = size_bytes desc"
    using remove_last_key(4) [OF False] assms(2) by (simp add: key_of_def)
  have slot: "by_key c k = Some ?slot" using cache_relD(2) [OF assms(1), of k] False by simp
  have "take_cached desc c = (Some (last ?slot), ?c)"
    using slot False assms(2) sz
    by (cases "butlast ?slot") (simp_all add: take_cached_def prune_key_def Let_def saturating_sub_def)
  moreover have "cache_rel ?c (remove_last (key_is k) q)"
    by (rule cache_rel_remove [OF assms(1) remove_last_key(3,4) [OF False] _ remove_last_key(2) [OF False]
          remove_last_key(5) [OF False] remove_last_key(6) [OF False] refl])
       (use cache_relD(1) [OF assms(1)] remove_last_key(1) [OF False] in simp_all)
  ultimately show ?thesis using False by auto
qed

text \<open>The per-descriptor loop drops the oldest buffers of the key.\<close>

lemma per_key_evict_refines:
  assumes "cache_rel c q" and "per_key_evict n k c out = (c', out')"
  shows "cache_rel c' ((remove_first (key_is k) ^^ min n (length (with_key k q))) q) \<and>
    map fst out' = map fst out @ take n (with_key k q)"
  using assms
proof (induction n arbitrary: c q out)
  case (Suc n)
  show ?case
  proof (cases "with_key k q")
    case Nil
    then have "by_key c k = None" using cache_relD(2) [OF Suc.prems(1), of k] by simp
    then show ?thesis using Suc.prems Nil by simp
  next
    case (Cons b slot)
    let ?c = "c\<lparr> by_key := (by_key c)(k := if slot = [] then None else Some slot),
      lru := remove1 k (lru c), total_entries := total_entries c - 1,
      total_bytes := total_bytes c - size_bytes (b_desc b) \<rparr>"
    let ?q = "remove_first (key_is k) q"
    have ne: "with_key k q \<noteq> []" and hd: "hd (with_key k q) = b" using Cons by simp_all
    note R = remove_first_key [OF ne, unfolded hd]
    have slot: "by_key c k = Some (b # slot)" using cache_relD(2) [OF Suc.prems(1), of k] Cons by simp
    have rel: "cache_rel ?c ?q"
      by (rule cache_rel_remove [OF Suc.prems(1) R(3,4) _ R(2) R(5) R(6) refl, unfolded Cons list.sel])
         (use cache_relD(1) [OF Suc.prems(1)] R(1) in simp_all)
    have "per_key_evict n k ?c (out @ [(b, size_bytes (b_desc b))]) = (c', out')"
      using Suc.prems(2) slot
      by (cases slot; cases c) (simp_all add: Let_def prune_key_def saturating_sub_def)
    from Suc.IH [OF rel this] R(5) Cons show ?thesis
      by (simp add: funpow_Suc_right del: funpow.simps)
  qed
qed simp

lemma evict_one_empty: "cache_rel c [] \<Longrightarrow> evict_one_locked al (c, m, st) = (Inr False, c, m, st)"
  by (simp add: evict_one_locked_def cache_rel_def)

text \<open>\<open>evict_one_locked\<close> drops the oldest buffer of all and gives it to the allocator.\<close>

lemma evict_one_refines:
  assumes "cache_rel c (b # q)" and "dealloc_fn al b st = (r, st')"
  shows "\<exists>c'. cache_rel c' q \<and>
    evict_one_locked al (c, m, st) =
      (map_sum id (\<lambda>_. True) r, c', count_eviction (size_bytes (b_desc b)) m, st')"
proof -
  let ?k = "key_of b"
  let ?c = "c\<lparr> by_key := (by_key c)(?k := if with_key ?k q = [] then None else Some (with_key ?k q)),
    lru := map key_of q, total_entries := total_entries c - 1,
    total_bytes := total_bytes c - size_bytes (b_desc b) \<rparr>"
  have "cache_rel ?c q"
    by (rule cache_rel_remove [OF assms(1), of b]) auto
  moreover have "by_key c ?k = Some (b # with_key ?k q)" "lru c = ?k # map key_of q"
    using cache_relD(1) [OF assms(1)] cache_relD(2) [OF assms(1), of ?k] by simp_all
  then have "evict_one_locked al (c, m, st) =
      (map_sum id (\<lambda>_. True) r, ?c, count_eviction (size_bytes (b_desc b)) m, st')"
    using assms(2) by (cases r) (simp_all add: evict_one_locked_def Let_def saturating_sub_def)
  ultimately show ?thesis by blast
qed

lemma insert_cached_refines:
  assumes "cache_rel c q" and "length q < usize_max" and "buffers_bytes q + size_bytes (b_desc b) \<le> usize_max"
  shows "cache_rel (insert_cached b c) (q @ [b])"
proof -
  have "(case by_key c (key_of b) of None \<Rightarrow> [] | Some slot \<Rightarrow> slot) = with_key (key_of b) q"
    using cache_relD(2) [OF assms(1), of "key_of b"] by simp
  then show ?thesis
    using assms by (simp add: insert_cached_def cache_rel_def Let_def saturating_add_def key_of_def [symmetric])
qed

section \<open>Limits and the abstract push\<close>

definition config_ok :: "MemoryPoolConfig \<Rightarrow> bool" where
  "config_ok c \<longleftrightarrow> 0 < max_cached_bytes c \<and> max_cached_bytes c < usize_max \<and>
    0 < max_cached_entries c \<and> max_cached_entries c < usize_max \<and> 0 < max_per_descriptor c"

definition within_limits :: "MemoryPoolConfig \<Rightarrow> buffer list \<Rightarrow> bool" where
  "within_limits c q \<longleftrightarrow>
    length q \<le> max_cached_entries c \<and> buffers_bytes q \<le> max_cached_bytes c \<and>
    (\<forall>k. length (with_key k q) \<le> max_per_descriptor c)"

definition pool_ok :: "MemoryPool \<Rightarrow> buffer list \<Rightarrow> bool" where
  "pool_ok p q \<longleftrightarrow> config_ok (mp_config p) \<and> cache_rel (mp_cache p) q \<and>
    within_limits (mp_config p) q \<and> (\<forall>b \<in> set q. b_domain b = Host)"

fun evict_oldest :: "MemoryPoolConfig \<Rightarrow> nat \<Rightarrow> buffer list \<Rightarrow> buffer list" where
  "evict_oldest c sz [] = []"
| "evict_oldest c sz (b # q) =
    (if length (b # q) \<ge> max_cached_entries c \<or> buffers_bytes (b # q) + sz > max_cached_bytes c
     then evict_oldest c sz q else b # q)"

definition trim_key :: "MemoryPoolConfig \<Rightarrow> cache_key \<Rightarrow> buffer list \<Rightarrow> buffer list" where
  "trim_key c k q =
    (remove_first (key_is k) ^^ (length (with_key k q) + 1 - max_per_descriptor c)) q"

definition abs_push :: "MemoryPoolConfig \<Rightarrow> buffer \<Rightarrow> buffer list \<Rightarrow> buffer list" where
  "abs_push c b q =
    (if size_bytes (b_desc b) > max_cached_bytes c then q
     else evict_oldest c (size_bytes (b_desc b)) (trim_key c (key_of b) q) @ [b])"

lemma no_room_iff:
  "cache_rel cache q \<Longrightarrow> max_cached_bytes c < usize_max \<Longrightarrow>
    no_room c sz cache \<longleftrightarrow> length q \<ge> max_cached_entries c \<or> buffers_bytes q + sz > max_cached_bytes c"
  by (auto simp: no_room_def cache_rel_def saturating_add_def)

lemma evict_oldest_suffix: "\<exists>pre. q = pre @ evict_oldest c sz q"
proof (induction q)
  case (Cons b q)
  then obtain pre where "q = pre @ evict_oldest c sz q" by blast
  then have "b # q = (b # pre) @ evict_oldest c sz q" by simp
  then show ?case by (metis append_Nil evict_oldest.simps(2))
qed simp

lemma evict_oldest_room:
  "0 < max_cached_entries c \<Longrightarrow> sz \<le> max_cached_bytes c \<Longrightarrow>
    length (evict_oldest c sz q) < max_cached_entries c \<and>
    buffers_bytes (evict_oldest c sz q) + sz \<le> max_cached_bytes c"
  by (induction q) auto

lemma remove_first_pow:
  "n \<le> length (with_key k q) \<Longrightarrow>
    mset q = mset (take n (with_key k q)) + mset ((remove_first (key_is k) ^^ n) q) \<and>
    with_key k ((remove_first (key_is k) ^^ n) q) = drop n (with_key k q) \<and>
    (\<forall>k'. k' \<noteq> k \<longrightarrow> with_key k' ((remove_first (key_is k) ^^ n) q) = with_key k' q)"
proof (induction n arbitrary: q)
  case (Suc n)
  then obtain b slot where slot: "with_key k q = b # slot" by (cases "with_key k q") auto
  let ?q = "remove_first (key_is k) q"
  have ne: "with_key k q \<noteq> []" and hd: "hd (with_key k q) = b" using slot by simp_all
  note R = remove_first_key [OF ne, unfolded hd]
  have "with_key k ?q = slot" using R(5) slot by simp
  with Suc.IH [of ?q] Suc.prems slot have IH: "mset ?q = mset (take n slot) + mset ((remove_first (key_is k) ^^ n) ?q)"
      "with_key k ((remove_first (key_is k) ^^ n) ?q) = drop n slot"
      "\<And>k'. k' \<noteq> k \<Longrightarrow> with_key k' ((remove_first (key_is k) ^^ n) ?q) = with_key k' ?q"
    by auto
  have "mset q = add_mset b (mset ?q)" using R(2,3) by simp
  then show ?case
    unfolding funpow_Suc_right o_apply using IH R(6) slot by simp
qed simp

lemma trim_key_facts:
  assumes "0 < max_per_descriptor c" and "within_limits c q"
  shows "mset q = mset (take (length (with_key k q) + 1 - max_per_descriptor c) (with_key k q)) +
      mset (trim_key c k q)"
    and "length (with_key k (trim_key c k q)) < max_per_descriptor c"
    and "length (with_key k' (trim_key c k q)) \<le> max_per_descriptor c"
proof -
  let ?n = "length (with_key k q) + 1 - max_per_descriptor c"
  have len: "length (with_key k' q) \<le> max_per_descriptor c" for k'
    using assms(2) unfolding within_limits_def by blast
  have n: "?n \<le> length (with_key k q)" using assms(1) by simp
  note P = remove_first_pow [OF n]
  show "mset q = mset (take ?n (with_key k q)) + mset (trim_key c k q)"
    using P unfolding trim_key_def by blast
  show lt: "length (with_key k (trim_key c k q)) < max_per_descriptor c"
    using P len [of k] assms(1) unfolding trim_key_def by simp
  show "length (with_key k' (trim_key c k q)) \<le> max_per_descriptor c"
  proof (cases "k' = k")
    case False
    then have "with_key k' (trim_key c k q) = with_key k' q" using P unfolding trim_key_def by blast
    then show ?thesis using len by simp
  qed (use lt in simp)
qed

lemma within_limits_sub:
  assumes "within_limits c q" and "mset q = A + mset q'"
  shows "within_limits c q'"
proof -
  have "length (with_key k q') \<le> length (with_key k q)" for k
    using arg_cong [OF assms(2), where f = "\<lambda>M. size (filter_mset (key_is k) M)"]
    by (simp add: with_key_alt flip: mset_filter)
  then have "length (with_key k q') \<le> max_per_descriptor c" for k
    using assms(1) unfolding within_limits_def by (meson le_trans)
  moreover have "length q' \<le> length q" using arg_cong [OF assms(2), where f = size] by simp
  moreover have "buffers_bytes q' \<le> buffers_bytes q" unfolding buffers_bytes_mset assms(2) by simp
  ultimately show ?thesis using assms(1) unfolding within_limits_def by (meson le_trans)
qed

lemma abs_push_within:
  assumes "config_ok c" and "within_limits c q"
  shows "within_limits c (abs_push c b q)"
proof (cases "size_bytes (b_desc b) > max_cached_bytes c")
  case False
  let ?t = "trim_key c (key_of b) q"
  let ?e = "evict_oldest c (size_bytes (b_desc b)) ?t"
  have c: "0 < max_per_descriptor c" "0 < max_cached_entries c" using assms(1) by (simp_all add: config_ok_def)
  obtain pre where pre: "?t = pre @ ?e" using evict_oldest_suffix by blast
  have "length (with_key k (?e @ [b])) \<le> max_per_descriptor c" for k
  proof -
    have le: "length (with_key k ?e) \<le> length (with_key k ?t)" by (subst pre) simp
    show ?thesis
    proof (cases "k = key_of b")
      case True
      then show ?thesis using le trim_key_facts(2) [OF c(1) assms(2), of "key_of b"] by simp
    next
      case False
      then show ?thesis using le trim_key_facts(3) [OF c(1) assms(2), of k "key_of b"] by simp
    qed
  qed
  moreover have "length (?e @ [b]) \<le> max_cached_entries c"
    "buffers_bytes (?e @ [b]) \<le> max_cached_bytes c"
    using evict_oldest_room [OF c(2), of "size_bytes (b_desc b)" ?t] False by simp_all
  ultimately show ?thesis using False unfolding within_limits_def abs_push_def by simp
qed (use assms(2) in \<open>simp add: abs_push_def\<close>)

text \<open>Allocation from the pool: the youngest cached buffer of the descriptor, else the allocator.\<close>

lemma pool_allocate_miss:
  assumes "pool_ok p q" and "align d \<noteq> 0" and "with_key (size_bytes d, align d) q = []"
    and "alloc_fn al d st = (r, st')"
  shows "\<exists>p'. pool_ok p' q \<and> mp_config p' = mp_config p \<and> pool_allocate al d (p, st) = (r, p', st')"
proof -
  have "take_cached d (mp_cache p) = (None, mp_cache p)"
    using take_cached_refines [of "mp_cache p" q _ d] assms(1,3) by (simp add: pool_ok_def)
  then show ?thesis using assms by (simp add: pool_allocate_def pool_ok_def Let_def)
qed

lemma pool_allocate_hit:
  assumes ok: "pool_ok p q" and "align d \<noteq> 0" and k: "k = (size_bytes d, align d)"
    and ne: "with_key k q \<noteq> []"
  shows "\<exists>p'. pool_ok p' (remove_last (key_is k) q) \<and> mp_config p' = mp_config p \<and>
    pool_allocate al d (p, st) = (Inr (last (with_key k q)), p', st)"
proof -
  let ?b = "last (with_key k q)" and ?q = "remove_last (key_is k) q"
  obtain c' where c': "take_cached d (mp_cache p) = (Some ?b, c')" "cache_rel c' ?q"
    using take_cached_refines [of "mp_cache p" q k d] ok ne k by (auto simp: pool_ok_def)
  obtain p' where p': "pool_allocate al d (p, st) = (Inr ?b, p', st)" "mp_cache p' = c'" "mp_config p' = mp_config p"
    using assms(2) c'(1) by (auto simp: pool_allocate_def Let_def)
  have q: "mset q = {#?b#} + mset ?q" using remove_last_key(2,3) [OF ne] by simp
  have "set ?q \<subseteq> set q" using arg_cong [OF q, where f = set_mset] by auto
  then have "pool_ok p' ?q" using ok p' c'(2) within_limits_sub [OF _ q] by (auto simp: pool_ok_def)
  then show ?thesis using p' by blast
qed

section \<open>Ownership through an allocator\<close>

text \<open>
  What the pool relies on when it gives a buffer away: \<open>owns st hs\<close> says that the
  store is consistent with \<open>hs\<close> being the live handles, in any order; freeing or
  dropping a handle leaves the others.
\<close>

locale deallocation =
  fixes al :: allocator
    and owns :: "store \<Rightarrow> buffer list \<Rightarrow> bool"
  assumes owns_perm: "owns st hs \<Longrightarrow> mset hs = mset hs' \<Longrightarrow> owns st hs'"
    and dealloc_owns: "owns st (b # hs) \<Longrightarrow> owns (snd (dealloc_fn al b st)) hs"
    and drop_owns: "owns st (b # hs) \<Longrightarrow> owns (drop_buffer b st) hs"
begin

lemma free_evicted_owns:
  "owns st (map fst ev @ hs) \<Longrightarrow> owns (snd (free_evicted al ev (m, st))) hs"
proof (induction ev arbitrary: m st)
  case (Cons e ev)
  obtain b sz where e: "e = (b, sz)" by fastforce
  have "owns (snd (dealloc_fn al b st)) (map fst ev @ hs)"
    using Cons.prems dealloc_owns [of st b "map fst ev @ hs"] e by simp
  then show ?case using Cons.IH e by simp
qed simp

text \<open>The eviction loop always ends, with room or with an error of the allocator.\<close>

lemma evict_until_room_refines:
  assumes "max_cached_bytes c < usize_max" and "0 < max_cached_entries c" and "sz \<le> max_cached_bytes c"
    and "cache_rel cache q" and "owns st (q @ hs)"
    and "evict_until_room al c sz (cache, m, st) = (r, cache', m', st')"
  shows "\<exists>q'. cache_rel cache' q' \<and> owns st' (q' @ hs) \<and> (\<exists>pre. q = pre @ q') \<and>
    (case r of Inl e \<Rightarrow> True | Inr room \<Rightarrow> room \<and> q' = evict_oldest c sz q)"
  using assms(4-6)
proof (induction q arbitrary: cache m st)
  case Nil
  then have "\<not> no_room c sz cache" using no_room_iff [OF Nil.prems(1) assms(1)] assms(2,3) by simp
  with Nil show ?case by (auto simp: evict_until_room.simps)
next
  case (Cons b q)
  show ?case
  proof (cases "no_room c sz cache")
    case False
    with Cons.prems no_room_iff [OF Cons.prems(1) assms(1)] show ?thesis
      by (intro exI [of _ "b # q"]) (auto simp: evict_until_room.simps)
  next
    case True
    obtain r1 st1 where d: "dealloc_fn al b st = (r1, st1)" by fastforce
    obtain c1 where c1: "cache_rel c1 q" and ev: "evict_one_locked al (cache, m, st) =
        (map_sum id (\<lambda>_. True) r1, c1, count_eviction (size_bytes (b_desc b)) m, st1)"
      using evict_one_refines [OF Cons.prems(1) d] by blast
    have own: "owns st1 (q @ hs)" using dealloc_owns [of st b "q @ hs"] Cons.prems(2) d by simp
    have oldest: "evict_oldest c sz (b # q) = evict_oldest c sz q"
      using True no_room_iff [OF Cons.prems(1) assms(1)] by simp
    show ?thesis
    proof (cases r1)
      case (Inl e)
      then show ?thesis
        using Cons.prems(3) True ev c1 own
        by (intro exI [of _ q]) (auto simp: evict_until_room.simps [of al c sz cache])
    next
      case (Inr u)
      then have "evict_until_room al c sz (c1, count_eviction (size_bytes (b_desc b)) m, st1) = (r, cache', m', st')"
        using Cons.prems(3) True ev by (simp add: evict_until_room.simps [of al c sz cache])
      from Cons.IH [OF c1 own this] oldest show ?thesis by (metis append_Cons)
    qed
  qed
qed

lemma trim_descriptor_refines:
  assumes "0 < max_per_descriptor c" and "length q < usize_max" and lim: "within_limits c q"
    and rel: "cache_rel cache q" and own: "owns st (q @ hs)"
    and trim: "trim_descriptor al c k (cache, m, st) = (cache', m', st')"
  shows "cache_rel cache' (trim_key c k q) \<and> owns st' (trim_key c k q @ hs)"
proof -
  let ?n = "length (with_key k q) + 1 - max_per_descriptor c"
  have len: "length (with_key k q) \<le> length q" by (simp add: with_key_def)
  have n: "saturating_sub (saturating_add (length (with_key k q)) 1) (max_per_descriptor c) = ?n"
    using len assms(2) by (simp add: saturating_sub_def saturating_add_def)
  obtain ev where pk: "per_key_evict ?n k cache [] = (cache', ev)"
    and fr: "free_evicted al ev (m, st) = (m', st')"
    using trim cache_relD(2) [OF rel, of k] n
    by (auto simp: trim_descriptor_def Let_def split: prod.splits if_splits)
  have "min ?n (length (with_key k q)) = ?n" using assms(1) by simp
  then have rel': "cache_rel cache' (trim_key c k q)" and ev: "map fst ev = take ?n (with_key k q)"
    using per_key_evict_refines [OF rel pk] by (simp_all add: trim_key_def)
  have "mset (q @ hs) = mset (map fst ev @ trim_key c k q @ hs)"
    using trim_key_facts(1) [OF assms(1) lim, of k] ev by simp
  then have "owns st' (trim_key c k q @ hs)"
    using free_evicted_owns [OF owns_perm [OF own], of ev "trim_key c k q @ hs" m] fr by simp
  with rel' show ?thesis by blast
qed

lemma push_cached_refines:
  assumes ok: "pool_ok p q" and host: "b_domain b = Host" and own: "owns st (b # q @ hs)"
    and push: "push_cached al b (p, st) = (r, p', st')"
  shows "\<exists>q'. pool_ok p' q' \<and> mp_config p' = mp_config p \<and> owns st' (q' @ hs) \<and>
    (is_ok r \<longrightarrow> q' = abs_push (mp_config p) b q)"
proof (cases "size_bytes (b_desc b) > max_cached_bytes (mp_config p)")
  case True
  then show ?thesis
    using assms dealloc_owns [OF own]
    by (intro exI [of _ q]) (auto simp: push_cached_def pool_ok_def abs_push_def Let_def split: prod.splits)
next
  case False
  let ?c = "mp_config p" and ?k = "key_of b" and ?sz = "size_bytes (b_desc b)"
  let ?t = "trim_key ?c ?k q"
  have cfg: "config_ok ?c" and rel: "cache_rel (mp_cache p) q" and lim: "within_limits ?c q"
    and hq: "\<And>x. x \<in> set q \<Longrightarrow> b_domain x = Host"
    using ok by (auto simp: pool_ok_def)
  have c: "max_cached_bytes ?c < usize_max" "0 < max_cached_entries ?c" "max_cached_entries ?c < usize_max"
    "0 < max_per_descriptor ?c" using cfg by (simp_all add: config_ok_def)
  have lenq: "length q < usize_max" using lim c(3) by (simp add: within_limits_def)
  obtain cache1 m1 st1 where tr: "trim_descriptor al ?c ?k (mp_cache p, mp_metrics p, st) = (cache1, m1, st1)"
    by (metis prod_cases3)
  obtain r2 cache2 m2 st2 where ru: "evict_until_room al ?c ?sz (cache1, m1, st1) = (r2, cache2, m2, st2)"
    by (metis prod_cases4)
  have "owns st (q @ b # hs)" by (rule owns_perm [OF own]) simp
  from trim_descriptor_refines [OF c(4) lenq lim rel this tr]
  have t: "cache_rel cache1 ?t" "owns st1 (?t @ b # hs)" by blast+
  from evict_until_room_refines [OF c(1,2) _ t ru] False
  obtain q' pre where q': "cache_rel cache2 q'" "owns st2 (q' @ b # hs)" "?t = pre @ q'"
    and room: "case r2 of Inl e \<Rightarrow> True | Inr room \<Rightarrow> room \<and> q' = evict_oldest ?c ?sz ?t"
    by auto
  have own2: "owns st2 (b # q' @ hs)" "owns st2 ((q' @ [b]) @ hs)" by (rule owns_perm [OF q'(2)], simp)+
  obtain A where A: "mset q = A + mset q'" using trim_key_facts(1) [OF c(4) lim, of ?k] q'(3) add.assoc by auto
  have hq': "\<And>x. x \<in> set q' \<Longrightarrow> b_domain x = Host"
    using hq arg_cong [OF A, where f = set_mset] by auto
  note unf = push False tr ru
  show ?thesis
  proof (cases r2)
    case (Inl e)
    then have "r = Inl e" "p' = p\<lparr> mp_cache := cache2, mp_metrics := m2 \<rparr>" "st' = drop_buffer b st2"
      using unf by (simp_all add: push_cached_def Let_def key_of_def)
    then show ?thesis
      using q'(1) cfg hq' drop_owns [OF own2(1)] within_limits_sub [OF lim A]
      by (intro exI [of _ q']) (auto simp: pool_ok_def)
  next
    case (Inr u)
    then have u: "u = True" and q'_eq: "q' = evict_oldest ?c ?sz ?t" using room by simp_all
    then have bound: "length q' < max_cached_entries ?c" "buffers_bytes q' + ?sz \<le> max_cached_bytes ?c"
      using evict_oldest_room [OF c(2), of ?sz ?t] False by simp_all
    have "r = Inr ()" "st' = st2"
      "p' = p\<lparr> mp_cache := insert_cached b cache2, mp_metrics := m2\<lparr> pm_returns := pm_returns m2 + 1 \<rparr> \<rparr>"
      using unf Inr u by (simp_all add: push_cached_def Let_def key_of_def)
    moreover have "abs_push ?c b q = q' @ [b]" using False q'_eq by (simp add: abs_push_def)
    moreover from this have "within_limits ?c (q' @ [b])" using abs_push_within [OF cfg lim, of b] by simp
    ultimately show ?thesis
      using insert_cached_refines [OF q'(1)] bound c cfg hq' host own2(2)
      by (intro exI [of _ "q' @ [b]"]) (auto simp: pool_ok_def)
  qed
qed

end

section \<open>The allocator interface\<close>

text \<open>
  The contract of the trait \<open>Allocator\<close> over a state: a buffer handed out is a new
  handle of the requested descriptor in host memory, a buffer given back is no
  longer owned, an error leaves the ownership as it was, and a zero alignment is
  refused.
\<close>

locale buffer_allocator =
  fixes allocate :: "BufferDesc \<Rightarrow> 's \<Rightarrow> buffer core_result \<times> 's"
    and deallocate :: "buffer \<Rightarrow> 's \<Rightarrow> unit core_result \<times> 's"
    and owned :: "'s \<Rightarrow> buffer list \<Rightarrow> bool"
  assumes owned_perm: "owned s hs \<Longrightarrow> mset hs = mset hs' \<Longrightarrow> owned s hs'"
    and allocate_ok: "owned s hs \<Longrightarrow> allocate d s = (Inr b, s') \<Longrightarrow>
      owned s' (b # hs) \<and> b_desc b = d \<and> b_domain b = Host"
    and allocate_err: "owned s hs \<Longrightarrow> allocate d s = (Inl e, s') \<Longrightarrow> owned s' hs"
    and deallocate_owned: "owned s (b # hs) \<Longrightarrow> owned (snd (deallocate b s)) hs"
    and zero_align: "align d = 0 \<Longrightarrow>
      allocate d s = (Inl (InvalidArgument ''buffer alignment must be non-zero''), s)"
begin

text \<open>A client that allocates a list of descriptors and keeps what it gets.\<close>

fun allocate_all :: "BufferDesc list \<Rightarrow> 's \<Rightarrow> buffer list \<times> 's" where
  "allocate_all [] s = ([], s)"
| "allocate_all (d # ds) s =
    (case allocate d s of
       (Inl e, s') \<Rightarrow> allocate_all ds s'
     | (Inr b, s') \<Rightarrow> let (bs, s'') = allocate_all ds s' in (b # bs, s''))"

lemma allocate_all_owned:
  "owned s hs \<Longrightarrow> allocate_all ds s = (bs, s') \<Longrightarrow> owned s' (bs @ hs)"
proof (induction ds arbitrary: s hs bs)
  case (Cons d ds)
  obtain r s1 where a: "allocate d s = (r, s1)" by fastforce
  show ?case
  proof (cases r)
    case (Inl e)
    then show ?thesis using Cons a allocate_err by fastforce
  next
    case (Inr b)
    obtain bs' where bs: "bs = b # bs'" "allocate_all ds s1 = (bs', s')"
      using Cons.prems(2) a Inr by (auto split: prod.splits)
    have "owned s1 (b # hs)" using allocate_ok [OF Cons.prems(1)] a Inr by simp
    from Cons.IH [OF this bs(2)] have "owned s' (bs' @ b # hs)" .
    then show ?thesis using bs(1) by (auto intro: owned_perm)
  qed
qed simp

lemma deallocate_all_owned:
  "owned s (bs @ hs) \<Longrightarrow> owned (fold (\<lambda>b s. snd (deallocate b s)) bs s) hs"
  using deallocate_owned by (induction bs arbitrary: s) auto

end

text \<open>An allocator that can back a pool: it satisfies both contracts on the buffer store.\<close>

locale pool_backend =
  deallocation al owns + buffer_allocator "alloc_fn al" "dealloc_fn al" owns
  for al :: allocator and owns :: "store \<Rightarrow> buffer list \<Rightarrow> bool"
begin

text \<open>The handles of a pool's clients: the store also has the cached ones.\<close>

definition pool_owns :: "MemoryPool \<times> store \<Rightarrow> buffer list \<Rightarrow> bool" where
  "pool_owns s hs \<longleftrightarrow> (\<exists>q. pool_ok (fst s) q \<and> owns (snd s) (q @ hs))"

lemma pool_allocate_hit_or_miss:
  assumes own: "pool_owns s hs" and alloc: "pool_allocate al d s = (r, s')"
  shows "case r of Inl e \<Rightarrow> pool_owns s' hs
    | Inr b \<Rightarrow> pool_owns s' (b # hs) \<and> b_desc b = d \<and> b_domain b = Host"
proof (cases "align d = 0")
  case True
  then show ?thesis using assms by (auto simp: pool_allocate_def split: prod.splits)
next
  case False
  obtain p st where s: "s = (p, st)" by fastforce
  obtain q where ok: "pool_ok p q" and o: "owns st (q @ hs)" using own s by (auto simp: pool_owns_def)
  let ?k = "(size_bytes d, align d)"
  show ?thesis
  proof (cases "with_key ?k q = []")
    case True
    obtain r1 st1 where a: "alloc_fn al d st = (r1, st1)" by fastforce
    from pool_allocate_miss [OF ok False True a] obtain p'
      where p': "pool_ok p' q" "r = r1" "s' = (p', st1)" using alloc s by auto
    show ?thesis
    proof (cases r)
      case (Inl e)
      then show ?thesis using allocate_err [OF o] a p' by (auto simp: pool_owns_def)
    next
      case (Inr b)
      then have b: "owns st1 (b # q @ hs)" "b_desc b = d" "b_domain b = Host" using allocate_ok [OF o] a p' by simp_all
      from b(1) have "owns st1 (q @ b # hs)" by (rule owns_perm) simp
      then show ?thesis using Inr p' b by (auto simp: pool_owns_def)
    qed
  next
    case ne: False
    let ?b = "last (with_key ?k q)" and ?q = "remove_last (key_is ?k) q"
    note R = remove_last_key [OF ne]
    from pool_allocate_hit [OF ok False refl ne, of al st] obtain p'
      where p': "pool_ok p' ?q" "r = Inr ?b" "s' = (p', st)" using alloc s by auto
    have "owns st (?q @ ?b # hs)" by (rule owns_perm [OF o]) (use R(2,3) in simp)
    moreover have "b_desc ?b = d" using R(4) by (cases "b_desc ?b"; cases d) (simp add: key_of_def)
    moreover have "b_domain ?b = Host" using ok R(3) by (auto simp: pool_ok_def)
    ultimately show ?thesis using p' by (auto simp: pool_owns_def)
  qed
qed

lemma pool_deallocate_owned:
  assumes "pool_owns s (b # hs)"
  shows "pool_owns (snd (pool_deallocate al b s)) hs"
proof -
  obtain p st where s: "s = (p, st)" by fastforce
  obtain q where ok: "pool_ok p q" and "owns st (q @ b # hs)" using assms s by (auto simp: pool_owns_def)
  from this(2) have o: "owns st (b # q @ hs)" by (rule owns_perm) simp
  show ?thesis
  proof (cases "b_domain b \<noteq> Host \<or> ref_count b st \<noteq> 1")
    case True
    then show ?thesis
      using s ok dealloc_owns [OF o]
      by (auto simp: pool_deallocate_def pool_owns_def pool_ok_def split: prod.splits)
  next
    case False
    obtain r p' st' where r: "push_cached al b (p, st) = (r, p', st')" by (metis prod_cases3)
    from push_cached_refines [OF ok _ o r] False show ?thesis
      using s r by (auto simp: pool_deallocate_def pool_owns_def)
  qed
qed

end

text \<open>A pool over a backend keeps the allocator contract itself.\<close>

sublocale pool_backend \<subseteq> pooled: buffer_allocator "pool_allocate al" "pool_deallocate al" pool_owns
proof (unfold_locales, goal_cases)
  case (1 s hs hs')
  then show ?case unfolding pool_owns_def by (metis owns_perm mset_append)
next
  case (2 s hs d b s')
  then show ?case using pool_allocate_hit_or_miss [of s hs d "Inr b" s'] by simp
next
  case (3 s hs d e s')
  then show ?case using pool_allocate_hit_or_miss [of s hs d "Inl e" s'] by simp
next
  case (4 s b hs)
  then show ?case by (rule pool_deallocate_owned)
next
  case (5 d s)
  then show ?case by (cases s) (simp add: pool_allocate_def)
qed

lemma store_inv_perm: "store_inv st hs \<Longrightarrow> mset hs = mset hs' \<Longrightarrow> store_inv st hs'"
proof -
  assume inv: "store_inv st hs" and eq: "mset hs = mset hs'"
  have "count_list (map b_storage hs) a = count_list (map b_storage hs') a" for a
    using arg_cong [OF eq, where f = "\<lambda>M. count (image_mset b_storage M) a"]
    by (simp add: count_mset flip: mset_map)
  moreover have "set hs = set hs'" using eq by (rule mset_eq_setD)
  ultimately show "store_inv st hs'" using inv by (simp add: store_inv_def counts_inv_def sizes_inv_def)
qed

lemma store_inv_drop_head: "store_inv st (b # hs) \<Longrightarrow> store_inv (drop_buffer b st) hs"
  using store_inv_drop [of st "b # hs" 0] by (simp add: remove_at_def)

lemma cpu_allocate_ok:
  assumes "store_inv st hs" and "cpu_allocate res d st = (Inr b, st')"
  shows "store_inv st' (b # hs) \<and> b_desc b = d \<and> b_domain b = Host \<and> b_device b = Cpu"
proof -
  have new: "try_new_host res Cpu d st = (Inr b, st')"
    using assms(2) by (simp add: cpu_allocate_def split: if_splits)
  with try_new_host_cases [of res Cpu d st]
  have b: "st' = snd (arc_new (HostStorage (replicate (size_bytes d) 0)) st)"
    "b_desc b = d" "b_device b = Cpu" "b_domain b = Host" "b_storage b = st_next st" by auto
  then have "store_inv st' (hs @ [b])" using store_inv_host [OF assms(1)] by (simp add: buffer_len_def)
  then have "store_inv st' (b # hs)" by (rule store_inv_perm) simp
  then show ?thesis using b by simp
qed

lemma cpu_allocate_err: "cpu_allocate res d st = (Inl e, st') \<Longrightarrow> st' = st"
  using try_new_host_cases [of res Cpu d st] by (auto simp: cpu_allocate_def split: if_splits)

interpretation cpu_alloc: pool_backend "cpu_allocator res" store_inv for res
proof (unfold_locales, goal_cases)
  case (1 st hs hs')
  then show ?case by (rule store_inv_perm)
next
  case (4 s hs d b s')
  then show ?case using cpu_allocate_ok [of s hs res d b s'] by (simp add: cpu_allocator_def)
next
  case (5 s hs d e s')
  then show ?case using cpu_allocate_err [of res d s e s'] by (simp add: cpu_allocator_def)
qed (simp_all add: cpu_allocator_def cpu_deallocate_def cpu_allocate_def store_inv_drop_head)

text \<open>Bounds do not depend on the allocator: any one will do when nothing is tracked.\<close>

interpretation any_alloc: deallocation al "\<lambda>_ _. True" for al
  by unfold_locales simp_all

section \<open>Programs over a pool\<close>

text \<open>Clients allocate, clone the handles they have, and give them back, in any order.\<close>

datatype pool_cmd = PoolAlloc BufferDesc | PoolClone nat | PoolFree nat

fun exec_pool ::
  "allocator \<Rightarrow> pool_cmd \<Rightarrow> (MemoryPool \<times> store) \<times> buffer list \<Rightarrow> (MemoryPool \<times> store) \<times> buffer list"
where
  "exec_pool al (PoolAlloc d) (s, hs) =
    (case pool_allocate al d s of (Inl e, s') \<Rightarrow> (s', hs) | (Inr b, s') \<Rightarrow> (s', b # hs))"
| "exec_pool al (PoolClone i) ((p, st), hs) =
    (if i < length hs then ((p, arc_clone (b_storage (hs ! i)) st), hs ! i # hs) else ((p, st), hs))"
| "exec_pool al (PoolFree i) (s, hs) =
    (if i < length hs then (snd (pool_deallocate al (hs ! i) s), remove_at i hs) else (s, hs))"

definition run_pool :: "allocator \<Rightarrow> MemoryPoolConfig \<Rightarrow> pool_cmd list \<Rightarrow> (MemoryPool \<times> store) \<times> buffer list" where
  "run_pool al c cmds = fold (exec_pool al) cmds ((pool_with_config c, store_empty), [])"

lemma fold_invariant:
  assumes "P s" and "\<And>x s. P s \<Longrightarrow> P (f x s)"
  shows "P (fold f xs s)"
  using assms(1) by (induction xs arbitrary: s) (auto intro: assms(2))

lemma pool_ok_initial: "config_ok c \<Longrightarrow> pool_ok (pool_with_config c) []"
  by (simp add: pool_ok_def pool_with_config_def cache_rel_new within_limits_def)

lemma pool_allocate_pool_ok:
  assumes "pool_ok p q"
  shows "\<exists>q'. pool_ok (fst (snd (pool_allocate al d (p, st)))) q' \<and>
    mp_config (fst (snd (pool_allocate al d (p, st)))) = mp_config p"
proof -
  obtain r st' where "alloc_fn al d st = (r, st')" by fastforce
  then show ?thesis
    using assms pool_allocate_miss [OF assms] pool_allocate_hit [OF assms, of d _ al st]
    by (cases "align d = 0"; cases "with_key (size_bytes d, align d) q = []")
       (fastforce simp: pool_allocate_def)+
qed

lemma pool_deallocate_pool_ok:
  assumes "pool_ok p q"
  shows "\<exists>q'. pool_ok (fst (snd (pool_deallocate al b (p, st)))) q' \<and>
    mp_config (fst (snd (pool_deallocate al b (p, st)))) = mp_config p"
proof (cases "b_domain b \<noteq> Host \<or> ref_count b st \<noteq> 1")
  case True
  then show ?thesis using assms by (auto simp: pool_deallocate_def pool_ok_def split: prod.splits)
next
  case False
  obtain r p' st' where "push_cached al b (p, st) = (r, p', st')" by (metis prod_cases3)
  with any_alloc.push_cached_refines [OF assms _ _ this] False show ?thesis
    by (auto simp: pool_deallocate_def)
qed

lemma run_pool_ok:
  assumes "config_ok c"
  shows "\<exists>q. pool_ok (fst (fst (run_pool al c cmds))) q \<and> mp_config (fst (fst (run_pool al c cmds))) = c"
  unfolding run_pool_def
proof (rule fold_invariant, goal_cases)
  case 1
  then show ?case using pool_ok_initial [OF assms] by (auto simp: pool_with_config_def)
next
  case (2 cmd w)
  obtain p st hs where w: "w = ((p, st), hs)" by (metis prod.collapse)
  then obtain q where q: "pool_ok p q" "mp_config p = c" using 2 by auto
  show ?case
  proof (cases cmd)
    case (PoolAlloc d)
    then show ?thesis
      using w q pool_allocate_pool_ok [OF q(1), of al d st] by (auto split: prod.splits sum.splits)
  qed (use w q pool_deallocate_pool_ok [OF q(1), of al _ st] in auto)
qed

lemma run_pool_owned:
  assumes "config_ok c"
  shows "case run_pool (cpu_allocator res) c cmds of (s, hs) \<Rightarrow>
    \<exists>q. pool_ok (fst s) q \<and> store_inv (snd s) (q @ hs)"
proof -
  have own: "cpu_alloc.pool_owns s hs \<longleftrightarrow> (\<exists>q. pool_ok (fst s) q \<and> store_inv (snd s) (q @ hs))" for s hs
    by (simp add: cpu_alloc.pool_owns_def)
  have "(\<lambda>(s, hs). cpu_alloc.pool_owns s hs) (run_pool (cpu_allocator res) c cmds)"
    unfolding run_pool_def
  proof (rule fold_invariant, goal_cases)
    case 1
    then show ?case using pool_ok_initial [OF assms] store_inv_empty by (force simp: own)
  next
    case (2 cmd w)
    obtain p st hs where w: "w = ((p, st), hs)" by (metis prod.collapse)
    with 2 have o: "cpu_alloc.pool_owns (p, st) hs" by simp
    show ?case
    proof (cases cmd)
      case (PoolAlloc d)
      then show ?thesis
        using w cpu_alloc.pooled.allocate_ok [OF o] cpu_alloc.pooled.allocate_err [OF o]
        by (auto split: prod.splits sum.splits)
    next
      case (PoolClone i)
      obtain q where q: "pool_ok p q" "store_inv st (q @ hs)" using o by (auto simp: own)
      have "store_inv (arc_clone (b_storage (hs ! i)) st) (q @ hs ! i # hs)" if "i < length hs"
        by (rule store_inv_perm [OF store_inv_clone [OF q(2), of "hs ! i"]]) (use that in simp_all)
      then show ?thesis using w PoolClone q o by (auto simp: own)
    next
      case (PoolFree i)
      have "cpu_alloc.pool_owns (p, st) (hs ! i # remove_at i hs)" if "i < length hs"
        using cpu_alloc.pooled.owned_perm [OF o, of "hs ! i # remove_at i hs"]
          arg_cong [OF id_take_nth_drop [OF that], where f = mset] by (simp add: remove_at_def)
      then show ?thesis using w PoolFree o cpu_alloc.pooled.deallocate_owned by auto
    qed
  qed
  then show ?thesis by (auto simp: own)
qed

section \<open>Properties\<close>

lemma validated_config_ok:
  "pool_config_validate c = Inr () \<Longrightarrow> max_cached_bytes c < usize_max \<Longrightarrow> max_cached_entries c < usize_max \<Longrightarrow> config_ok c"
  by (simp add: pool_config_validate_def config_ok_def result_simps)

text \<open>C5. A pool with a validated configuration never holds more than the configuration allows: if the limits pass \<open>MemoryPoolConfig::validate\<close> (all positive) and those on
  bytes and entries are below the largest \<open>usize\<close>, then over any allocator, after any
  sequence of allocations, clones and returns, the cached entries and bytes are within their
  limits, the counters agree with the LRU order, and each slot holds at most
  \<open>max_per_descriptor\<close> buffers, all of the slot's own size and alignment.  The constructor of the pool
  does not validate: with a limit of no buffer per descriptor the pool still keeps one.\<close>

theorem pool_limits:
  assumes "pool_config_validate c = Inr ()" and "max_cached_bytes c < usize_max" and "max_cached_entries c < usize_max" and "p = fst (fst (run_pool al c cmds))"
  shows "cached_buffer_count p \<le> max_cached_entries c \<and> cached_bytes p \<le> max_cached_bytes c \<and>
    cached_buffer_count p = length (lru (mp_cache p)) \<and>
    cached_bytes p = sum_list (map fst (lru (mp_cache p))) \<and>
    (\<forall>k slot. by_key (mp_cache p) k = Some slot \<longrightarrow>
      slot \<noteq> [] \<and> length slot \<le> max_per_descriptor c \<and> list_all (\<lambda>b. key_of b = k) slot)"
proof -
  obtain q where q: "pool_ok p q" "mp_config p = c" using run_pool_ok [OF validated_config_ok [OF assms(1-3)]] assms(4) by blast
  have rel: "cache_rel (mp_cache p) q" and lim: "within_limits c q" using q by (auto simp: pool_ok_def)
  have "sum_list (map fst (lru (mp_cache p))) = buffers_bytes q"
    using cache_relD(1) [OF rel] by (simp add: buffers_bytes_def key_of_def comp_def)
  moreover have "slot \<noteq> [] \<and> length slot \<le> max_per_descriptor c \<and> list_all (\<lambda>b. key_of b = k) slot"
    if "by_key (mp_cache p) k = Some slot" for k slot
  proof -
    have "slot = with_key k q" "slot \<noteq> []" using that cache_relD(2) [OF rel, of k] by (auto split: if_splits)
    moreover have "length (with_key k q) \<le> max_per_descriptor c" using lim unfolding within_limits_def by blast
    ultimately show ?thesis by (auto simp: with_key_def list_all_iff)
  qed
  ultimately show ?thesis
    using lim cache_relD(1,3,4) [OF rel] by (auto simp: within_limits_def cached_buffer_count_def cached_bytes_def)
qed

theorem pool_limits_witness:
  "\<exists>p. cached_buffer_count p \<le> 2 \<and> p = fst (fst (run_pool (cpu_allocator (\<lambda>_. True))
     \<lparr> max_cached_bytes = 100, max_cached_entries = 2, max_per_descriptor = 1 \<rparr>
     [PoolAlloc (buffer_desc_new 8 1), PoolAlloc (buffer_desc_new 8 1), PoolFree 0, PoolFree 0]))"
  using pool_limits [OF _ _ _ refl, of "\<lparr> max_cached_bytes = 100, max_cached_entries = 2, max_per_descriptor = 1 \<rparr>"
      "cpu_allocator (\<lambda>_. True)"
      "[PoolAlloc (buffer_desc_new 8 1), PoolAlloc (buffer_desc_new 8 1), PoolFree 0, PoolFree 0]"]
  by (simp add: pool_config_validate_def usize_max_def)

text \<open>A pool made with a limit that validation would refuse keeps a buffer nevertheless.\<close>

lemma unvalidated_pool_caches:
  assumes "max_per_descriptor c = 0" and "0 < max_cached_entries c" and "size_bytes (b_desc b) \<le> max_cached_bytes c" and "max_cached_bytes c \<le> usize_max"
  shows "cached_buffer_count (fst (snd (push_cached al b (pool_with_config c, st)))) = 1"
proof -
  have "trim_descriptor al c (size_bytes (b_desc b), align (b_desc b)) (pool_cache_new, pool_metrics_default, st) = (pool_cache_new, pool_metrics_default, st)"
    by (simp add: trim_descriptor_def pool_cache_new_def saturating_add_def saturating_sub_def usize_max_def assms(1) Let_def)
  moreover have "evict_until_room al c (size_bytes (b_desc b)) (pool_cache_new, pool_metrics_default, st) = (Inr True, pool_cache_new, pool_metrics_default, st)"
    by (subst evict_until_room.simps) (use assms in \<open>simp add: no_room_def pool_cache_new_def saturating_add_def\<close>)
  ultimately show ?thesis using assms
    by (simp add: push_cached_def pool_with_config_def insert_cached_def pool_cache_new_def cached_buffer_count_def saturating_add_def usize_max_def Let_def)
qed

text \<open>Returning a buffer follows the stated policy: on success the cache, read as the list of
  its buffers from oldest to youngest, first loses the oldest buffers of the same descriptor
  until one more fits under \<open>max_per_descriptor\<close>, then the oldest buffers of all until both
  global limits leave room, and the returned buffer becomes the youngest; a buffer larger
  than the whole byte budget leaves the cache as it was.\<close>

lemma push_cached_lru:
  assumes "pool_ok p q" and "b_domain b = Host" and "push_cached al b (p, st) = (Inr (), p', st')"
  shows "pool_ok p' (abs_push (mp_config p) b q)"
  using any_alloc.push_cached_refines [OF assms(1,2) _ assms(3)] by auto

text \<open>Allocation reuses before it allocates: with a cached buffer of the requested size and
  alignment the pool hands out the youngest one and does not call the allocator, and without
  one the result is the allocator's; the cache loses exactly the buffer handed out.\<close>

lemma pool_allocate_reuses:
  assumes "pool_ok p q" and "align d \<noteq> 0" and "k = (size_bytes d, align d)"
  shows "if with_key k q = []
    then \<exists>p'. pool_ok p' q \<and> pool_allocate al d (p, st) =
      (fst (alloc_fn al d st), p', snd (alloc_fn al d st))
    else \<exists>p'. pool_ok p' (remove_last (key_is k) q) \<and>
      pool_allocate al d (p, st) = (Inr (last (with_key k q)), p', st)"
  using pool_allocate_miss [OF assms(1,2)] pool_allocate_hit [OF assms]
  by (metis assms(3) prod.collapse)

text \<open>C29. The pool neither leaks nor double-frees: over the CPU allocator, after any sequence of
  allocations, clones and returns, the storage in the store is referenced by exactly the
  clients' handles and the cached buffers, with exact reference counts, sizes and guards.\<close>

theorem pool_ownership:
  assumes "config_ok c"
  shows "case run_pool (cpu_allocator can_reserve) c cmds of ((p, st), hs) \<Rightarrow>
    \<exists>q. cache_rel (mp_cache p) q \<and> store_inv st (q @ hs)"
  using run_pool_owned [OF assms, of can_reserve cmds] by (fastforce simp: pool_ok_def split: prod.splits)

theorem pool_ownership_witness:
  "case run_pool (cpu_allocator (\<lambda>_. True)) pool_config_default
     [PoolAlloc (buffer_desc_new 8 1), PoolClone 0, PoolFree 1, PoolFree 0] of ((p, st), hs) \<Rightarrow>
   \<exists>q. cache_rel (mp_cache p) q \<and> store_inv st (q @ hs)"
  by (rule pool_ownership) (simp add: config_ok_def pool_config_default_def usize_max_def)

end
