(* ===== verification/Tensors.thy ===== *)
theory Tensors
  imports Shapes Resource MemoryPools
begin

text \<open>
  \<open>dg-core/src/tensor.rs\<close> and the CPU device of \<open>dg-core/src/device.rs\<close>.  A
  \<open>dyn Device\<close> is a record of the operations tensors use, over a world that is the
  device's memory pool and the buffer store.  The device registry, filled at link
  time, is the list \<open>registered\<close>.
\<close>

section \<open>Devices\<close>

type_synonym world = "MemoryPool \<times> store"

record device =
  dev_kind :: DeviceKind
  dev_name :: string
  dev_alloc :: "BufferDesc \<Rightarrow> world \<Rightarrow> buffer core_result \<times> world"
  dev_free :: "buffer \<Rightarrow> world \<Rightarrow> unit core_result \<times> world"

definition cpu_device :: "(nat \<Rightarrow> bool) \<Rightarrow> device" where
  "cpu_device can_reserve =
    \<lparr> dev_kind = Cpu, dev_name = ''cpu'',
      dev_alloc = pool_allocate (cpu_allocator can_reserve),
      dev_free = pool_deallocate (cpu_allocator can_reserve) \<rparr>"

text \<open>The pool a new CPU device owns.\<close>

definition cpu_device_pool :: MemoryPool where
  "cpu_device_pool = pool_new"

definition memcpy_h2d :: "buffer \<Rightarrow> bytes \<Rightarrow> store \<Rightarrow> unit core_result \<times> store" where
  "memcpy_h2d dst src st = write_from_slice dst src st"

definition memcpy_d2h :: "(nat \<Rightarrow> bool) \<Rightarrow> buffer \<Rightarrow> bytes \<Rightarrow> store \<Rightarrow> bytes core_result" where
  "memcpy_d2h can_reserve src dst st = copy_into can_reserve src dst st"

definition memcpy_d2d :: "(nat \<Rightarrow> bool) \<Rightarrow> buffer \<Rightarrow> buffer \<Rightarrow> store \<Rightarrow> unit core_result \<times> store" where
  "memcpy_d2d can_reserve dst src st = buffer_copy_to can_reserve src dst st"

record 'd device_descriptor =
  dd_kind :: DeviceKind
  dd_name :: string
  dd_create :: "'d core_result"

definition registered_device_kinds :: "'d device_descriptor list \<Rightarrow> DeviceKind list" where
  "registered_device_kinds registered = map dd_kind registered"

definition resolve_device :: "'d device_descriptor list \<Rightarrow> DeviceKind \<Rightarrow> 'd core_result" where
  "resolve_device registered kind =
    and_then (ok_or (find (\<lambda>d. dd_kind d = kind) registered) (UnsupportedDevice kind))
      (\<lambda>d. map_err (\<lambda>error. Device (''failed to create '' @ debug_device_kind kind @ '' device: '' @
               display_core_error error))
        (dd_create d))"

section \<open>Tensors\<close>

record tensor =
  t_desc :: tensor_desc
  t_buffer :: buffer

definition tensor_allocate :: "device \<Rightarrow> tensor_desc \<Rightarrow> world \<Rightarrow> tensor core_result \<times> world" where
  "tensor_allocate dev desc w =
    (case storage_bytes desc of
       Inl e \<Rightarrow> (Inl e, w)
     | Inr n \<Rightarrow>
        (case dev_alloc dev (buffer_desc_new n 1) w of
           (Inl e, w') \<Rightarrow> (Inl e, w')
         | (Inr b, (p, st)) \<Rightarrow>
            if b_device b \<noteq> td_device desc
            then (Inl (Tensor ''allocated buffer device does not match tensor device''),
                  (p, drop_buffer b st))
            else (Inr \<lparr> t_desc = desc, t_buffer = b \<rparr>, (p, st))))"

definition allocate_with_policy ::
  "device \<Rightarrow> tensor_desc \<Rightarrow> resource_policy \<Rightarrow> world \<Rightarrow> tensor core_result \<times> world"
where
  "allocate_with_policy dev desc policy w =
    (case and_then (storage_bytes desc) (check_tensor_bytes policy) of
       Inl e \<Rightarrow> (Inl e, w)
     | Inr _ \<Rightarrow> tensor_allocate dev desc w)"

text \<open>The buffer is an argument by value: it is dropped when the tensor is refused.\<close>

definition from_buffer :: "tensor_desc \<Rightarrow> buffer \<Rightarrow> store \<Rightarrow> tensor core_result \<times> store" where
  "from_buffer desc b st =
    (case storage_bytes desc of
       Inl e \<Rightarrow> (Inl e, drop_buffer b st)
     | Inr n \<Rightarrow>
        if buffer_len b \<noteq> n
        then (Inl (Tensor ''buffer size does not match tensor descriptor''), drop_buffer b st)
        else if b_device b \<noteq> td_device desc
        then (Inl (Tensor ''buffer device does not match tensor descriptor''), drop_buffer b st)
        else (Inr \<lparr> t_desc = desc, t_buffer = b \<rparr>, st))"

text \<open>
  \<open>reshape\<close> works in place: the result comes with the tensor as it is left.  The
  shape is assigned before the strides are computed.
\<close>

definition reshape_checks :: "(nat \<Rightarrow> bool) \<Rightarrow> tensor_desc \<Rightarrow> shape \<Rightarrow> unit core_result" where
  "reshape_checks can_reserve desc s =
    and_then (element_count (td_shape desc)) (\<lambda>old_elements.
    and_then (element_count s) (\<lambda>new_elements.
    and_then (fail_if (old_elements \<noteq> new_elements)
        (Shape ''reshape must preserve logical element count'')) (\<lambda>_.
    (case td_strides desc of
       None \<Rightarrow> Inr ()
     | Some st \<Rightarrow>
         and_then (is_contiguous_for can_reserve st (td_shape desc)) (\<lambda>contiguous.
           fail_if (\<not> contiguous) (Shape ''cannot reshape a tensor with non-contiguous strides''))))))"

definition reshape :: "(nat \<Rightarrow> bool) \<Rightarrow> tensor \<Rightarrow> shape \<Rightarrow> unit core_result \<times> tensor" where
  "reshape can_reserve t s =
    (case reshape_checks can_reserve (t_desc t) s of
       Inl e \<Rightarrow> (Inl e, t)
     | Inr _ \<Rightarrow>
        let t1 = t\<lparr> t_desc := (t_desc t)\<lparr> td_shape := s \<rparr> \<rparr> in
        (case contiguous_for can_reserve (td_shape (t_desc t1)) of
           Inl e \<Rightarrow> (Inl e, t1)
         | Inr c \<Rightarrow> (Inr (), t1\<lparr> t_desc := (t_desc t1)\<lparr> td_strides := Some c \<rparr> \<rparr>)))"

definition tensor_copy_to :: "(nat \<Rightarrow> bool) \<Rightarrow> tensor \<Rightarrow> tensor \<Rightarrow> store \<Rightarrow> unit core_result \<times> store" where
  "tensor_copy_to can_reserve t dst st =
    (if buffer_len (t_buffer t) \<noteq> buffer_len (t_buffer dst)
     then (Inl (Tensor ''tensor byte sizes differ''), st)
     else buffer_copy_to can_reserve (t_buffer t) (t_buffer dst) st)"

section \<open>Well-formed tensors\<close>

text \<open>What \<open>allocate\<close> and \<open>from_buffer\<close> establish: the buffer has the descriptor's size and device.\<close>

definition tensor_wf :: "tensor \<Rightarrow> bool" where
  "tensor_wf t \<longleftrightarrow> storage_bytes (t_desc t) = Inr (buffer_len (t_buffer t)) \<and>
    b_device (t_buffer t) = td_device (t_desc t)"

lemma reshape_checks_ok:
  "reshape_checks can_reserve d s = Inr () \<longleftrightarrow>
    (\<exists>n. element_count (td_shape d) = Inr n \<and> element_count s = Inr n) \<and>
    (\<forall>st. td_strides d = Some st \<longrightarrow> is_contiguous_for can_reserve st (td_shape d) = Inr True)"
  by (auto simp: reshape_checks_def result_simps split: option.splits)

text \<open>A reshape that succeeds keeps the storage size, so the tensor stays well formed.\<close>

lemma reshape_storage:
  assumes "reshape can_reserve t s = (Inr (), t')"
  shows "storage_bytes (t_desc t') = storage_bytes (t_desc t)"
proof -
  obtain c where checks: "reshape_checks can_reserve (t_desc t) s = Inr ()" and c: "contiguous_for can_reserve s = Inr c"
    and t': "t' = t\<lparr> t_desc := (t_desc t)\<lparr> td_shape := s, td_strides := Some c \<rparr> \<rparr>"
    using assms by (cases t) (auto simp: reshape_def Let_def split: sum.splits)
  obtain n where n: "element_count (td_shape (t_desc t)) = Inr n" "element_count s = Inr n"
    using checks by (auto simp: reshape_checks_ok)
  have "storage_bytes (t_desc t) = storage_bytes_for_elements (td_dtype (t_desc t)) n"
  proof (cases "td_strides (t_desc t)")
    case None
    then show ?thesis using n by (simp add: storage_bytes_def)
  next
    case (Some st)
    then obtain c0 where c0: "contiguous_for can_reserve (td_shape (t_desc t)) = Inr c0" "stride_values st = stride_values c0"
      using checks by (auto simp: reshape_checks_ok is_contiguous_for_def result_simps)
    have "st = c0" by (rule strides.equality) (simp_all add: c0(2))
    then have "physical_element_count st (td_shape (t_desc t)) = Inr n"
      using contiguous_physical [OF n(1) c0(1)] by simp
    then show ?thesis using Some by (simp add: storage_bytes_def)
  qed
  then show ?thesis using contiguous_physical [OF n(2) c] by (simp add: t' storage_bytes_def)
qed

section \<open>Properties\<close>

text \<open>Allocating a tensor on the CPU device: a tensor that is returned has the requested
  descriptor, its buffer has exactly the descriptor's storage size and device, and the pool
  and the store account for it as one more live handle; on an error no handle is added.\<close>

lemma tensor_allocate_cpu:
  assumes "pool_ok p q" and "store_inv st (q @ hs)"
    and "tensor_allocate (cpu_device can_reserve) desc (p, st) = (r, (p', st'))"
  shows "\<exists>q'. pool_ok p' q' \<and>
    (case r of Inl e \<Rightarrow> store_inv st' (q' @ hs)
     | Inr t \<Rightarrow> t_desc t = desc \<and> tensor_wf t \<and> store_inv st' (q' @ t_buffer t # hs))"
proof -
  have own: "cpu_alloc.pool_owns (p, st) hs" using assms(1,2) by (auto simp: cpu_alloc.pool_owns_def)
  show ?thesis
  proof (cases "storage_bytes desc")
    case (Inl e)
    then show ?thesis using assms by (auto simp: tensor_allocate_def)
  next
    case (Inr n)
    obtain r1 p1 st1 where a: "pool_allocate (cpu_allocator can_reserve) (buffer_desc_new n 1) (p, st) = (r1, (p1, st1))"
      by (metis prod_cases3)
    show ?thesis
    proof (cases r1)
      case (Inl e)
      then show ?thesis
        using cpu_alloc.pooled.allocate_err [OF own] a assms(3) Inr
        by (fastforce simp: tensor_allocate_def cpu_device_def cpu_alloc.pool_owns_def)
    next
      case (Inr b)
      then have b: "cpu_alloc.pool_owns (p1, st1) (b # hs)" "b_desc b = buffer_desc_new n 1"
        using cpu_alloc.pooled.allocate_ok [OF own] a by simp_all
      then obtain q' where q': "pool_ok p1 q'" "store_inv st1 (q' @ b # hs)" by (auto simp: cpu_alloc.pool_owns_def)
      have "store_inv (drop_buffer b st1) (q' @ hs)"
        by (rule store_inv_drop_head) (rule store_inv_perm [OF q'(2)], simp)
      then show ?thesis
        using q' b(2) a assms(3) Inr \<open>storage_bytes desc = Inr n\<close>
        by (intro exI [of _ q'])
           (auto simp: tensor_allocate_def cpu_device_def tensor_wf_def buffer_len_def buffer_desc_new_def split: if_splits)
    qed
  qed
qed

text \<open>The tensor byte limit is enforced before the device is asked: a descriptor above the
  limit is refused with the device and its pool untouched, and otherwise the outcome is that
  of a plain allocation.\<close>

lemma allocate_with_policy_limit:
  assumes "storage_bytes desc = Inr n"
  shows "allocate_with_policy dev desc policy w =
    (if n > max_tensor_bytes policy
     then (Inl (Config (''tensor bytes '' @ show_nat n @ '' exceeds limit '' @ show_nat (max_tensor_bytes policy))), w)
     else tensor_allocate dev desc w)"
  using assms by (simp add: allocate_with_policy_def check_tensor_bytes_def check_limit_def)

text \<open>A successful reshape installs the new shape with its contiguous strides, keeps the
  element count, the storage size and the buffer, and so keeps the tensor well formed.\<close>

lemma reshape_success:
  assumes "reshape can_reserve t s = (Inr (), t')"
  shows "td_shape (t_desc t') = s \<and> element_count s = element_count (td_shape (t_desc t)) \<and>
    td_strides (t_desc t') = Some \<lparr> stride_values = suffix_products (dims s) \<rparr> \<and>
    t_buffer t' = t_buffer t \<and> tensor_wf t' = tensor_wf t"
proof -
  obtain c where checks: "reshape_checks can_reserve (t_desc t) s = Inr ()" and c: "contiguous_for can_reserve s = Inr c"
    and t': "t' = t\<lparr> t_desc := (t_desc t)\<lparr> td_shape := s, td_strides := Some c \<rparr> \<rparr>"
    using assms by (cases t) (auto simp: reshape_def Let_def split: sum.splits)
  have "c = \<lparr> stride_values = suffix_products (dims s) \<rparr>" using contiguous_for_ok [OF c] by (cases c) simp
  then show ?thesis
    using checks reshape_storage [OF assms] by (auto simp: t' reshape_checks_ok tensor_wf_def)
qed

text \<open>A failed reshape does not always leave the tensor as it was: the shape is assigned before
  the new strides are computed, so when the checks pass and the strides overflow the call
  returns an error while the tensor already has the new shape with its old strides.\<close>

lemma reshape_error_not_atomic:
  assumes "reshape_checks can_reserve (t_desc t) s = Inr ()" and "can_reserve (8 * length (dims s))"
    and "\<not> strides_fit (dims s)"
  shows "reshape can_reserve t s =
    (Inl (Shape ''contiguous stride overflow''), t\<lparr> t_desc := (t_desc t)\<lparr> td_shape := s \<rparr> \<rparr>)"
  using assms contiguous_for_eq [of can_reserve s] by (simp add: reshape_def)

end
