(* ===== verification/ProcessPolicy.thy ===== *)
theory ProcessPolicy
  imports Resource MemoryPools
begin

text \<open>
  \<open>dg-core/src/process_policy.rs\<close>: the process-wide policy with its stream-registry,
  deadline, affinity and metrics budgets, and its validation at bootstrap.
\<close>

section \<open>Stream registry limits\<close>

record StreamRegistryLimits =
  max_streams :: usize
  max_subscribers_per_stream :: usize
  max_bootstrap_bytes :: usize
  max_bootstrap_frames :: usize
  idle_ttl_seconds :: nat

definition stream_limits_validate :: "StreamRegistryLimits \<Rightarrow> unit core_result" where
  "stream_limits_validate l = run_checks
    [check_nonzero (max_streams l) ''max_streams'',
     check_nonzero (max_subscribers_per_stream l) ''max_subscribers_per_stream'',
     check_nonzero (max_bootstrap_bytes l) ''max_bootstrap_bytes'',
     check_nonzero (max_bootstrap_frames l) ''max_bootstrap_frames'',
     check_nonzero (idle_ttl_seconds l) ''idle_ttl_seconds'',
     check_representable (max_streams l) ''max_streams'',
     check_representable (max_subscribers_per_stream l) ''max_subscribers_per_stream'',
     check_representable (max_bootstrap_bytes l) ''max_bootstrap_bytes'',
     check_representable (max_bootstrap_frames l) ''max_bootstrap_frames'']"

definition stream_limits_new ::
  "usize \<Rightarrow> usize \<Rightarrow> usize \<Rightarrow> usize \<Rightarrow> nat \<Rightarrow> StreamRegistryLimits core_result"
where
  "stream_limits_new streams subscribers bytes frames ttl =
    (let limits = \<lparr> max_streams = streams, max_subscribers_per_stream = subscribers,
           max_bootstrap_bytes = bytes, max_bootstrap_frames = frames, idle_ttl_seconds = ttl \<rparr>
     in and_then (stream_limits_validate limits) (\<lambda>_. Inr limits))"

definition stream_limits_default :: StreamRegistryLimits where
  "stream_limits_default =
    \<lparr> max_streams = 10000, max_subscribers_per_stream = 256,
      max_bootstrap_bytes = 64 * 1024 * 1024, max_bootstrap_frames = 256, idle_ttl_seconds = 300 \<rparr>"

section \<open>Deadlines\<close>

record DeadlinePolicy =
  connect_ms :: nat
  recv_poll_ms :: nat
  io_ms :: nat
  drain_ms :: nat
  shutdown_ms :: nat

definition check_order :: "nat \<Rightarrow> nat \<Rightarrow> string \<Rightarrow> string \<Rightarrow> unit core_result" where
  "check_order left right left_name right_name =
    (if left > right
     then Inl (Config (left_name @ '' ('' @ show_nat left @ '') cannot exceed '' @ right_name @ '' ('' @
            show_nat right @ '')''))
     else Inr ())"

definition deadlines_validate :: "DeadlinePolicy \<Rightarrow> unit core_result" where
  "deadlines_validate d = run_checks
    [check_nonzero (connect_ms d) ''connect_ms'',
     check_nonzero (recv_poll_ms d) ''recv_poll_ms'',
     check_nonzero (io_ms d) ''io_ms'',
     check_nonzero (drain_ms d) ''drain_ms'',
     check_nonzero (shutdown_ms d) ''shutdown_ms'',
     check_order (connect_ms d) (io_ms d) ''connect_ms'' ''io_ms'',
     check_order (drain_ms d) (shutdown_ms d) ''drain_ms'' ''shutdown_ms'']"

definition deadlines_new :: "nat \<Rightarrow> nat \<Rightarrow> nat \<Rightarrow> nat \<Rightarrow> nat \<Rightarrow> DeadlinePolicy core_result" where
  "deadlines_new connect recv_poll io drain shutdown =
    (let policy = \<lparr> connect_ms = connect, recv_poll_ms = recv_poll, io_ms = io, drain_ms = drain,
           shutdown_ms = shutdown \<rparr>
     in and_then (deadlines_validate policy) (\<lambda>_. Inr policy))"

definition deadlines_default :: DeadlinePolicy where
  "deadlines_default =
    \<lparr> connect_ms = 10000, recv_poll_ms = 100, io_ms = 30000, drain_ms = 10000, shutdown_ms = 30000 \<rparr>"

section \<open>The process policy\<close>

record ProcessRuntimePolicy =
  pp_resource :: resource_policy
  pp_memory_pool :: MemoryPoolConfig
  pp_stream_registry :: StreamRegistryLimits
  pp_deadlines :: DeadlinePolicy
  pp_affinity_capacity :: usize
  pp_affinity_ttl_seconds :: nat
  pp_metrics_serialization_bytes :: usize

definition process_policy_validate :: "ProcessRuntimePolicy \<Rightarrow> unit core_result" where
  "process_policy_validate p = run_checks
    [policy_validate (pp_resource p),
     pool_config_validate (pp_memory_pool p),
     stream_limits_validate (pp_stream_registry p),
     deadlines_validate (pp_deadlines p),
     check_nonzero (pp_affinity_capacity p) ''affinity_capacity'',
     check_nonzero (pp_affinity_ttl_seconds p) ''affinity_ttl_seconds'',
     check_nonzero (pp_metrics_serialization_bytes p) ''metrics_serialization_bytes'',
     check_representable (pp_affinity_capacity p) ''affinity_capacity'',
     check_representable (pp_metrics_serialization_bytes p) ''metrics_serialization_bytes'']"

definition process_policy_new ::
  "resource_policy \<Rightarrow> MemoryPoolConfig \<Rightarrow> StreamRegistryLimits \<Rightarrow> DeadlinePolicy \<Rightarrow> usize \<Rightarrow> nat \<Rightarrow> usize \<Rightarrow>
    ProcessRuntimePolicy core_result"
where
  "process_policy_new resource pool streams deadlines capacity ttl metrics =
    (let policy = \<lparr> pp_resource = resource, pp_memory_pool = pool, pp_stream_registry = streams,
           pp_deadlines = deadlines, pp_affinity_capacity = capacity, pp_affinity_ttl_seconds = ttl,
           pp_metrics_serialization_bytes = metrics \<rparr>
     in and_then (process_policy_validate policy) (\<lambda>_. Inr policy))"

definition process_policy_default :: ProcessRuntimePolicy where
  "process_policy_default =
    \<lparr> pp_resource = resource_policy_default, pp_memory_pool = pool_config_default,
      pp_stream_registry = stream_limits_default, pp_deadlines = deadlines_default,
      pp_affinity_capacity = 1000, pp_affinity_ttl_seconds = 600,
      pp_metrics_serialization_bytes = 8 * 1024 * 1024 \<rparr>"

section \<open>What a validated policy guarantees\<close>

lemma check_order_ok [result_simps]: "check_order a b m n = Inr () \<longleftrightarrow> a \<le> b"
  by (simp add: check_order_def)

lemma pool_config_validate_ok:
  "pool_config_validate c = Inr () \<longleftrightarrow>
    0 < max_cached_bytes c \<and> 0 < max_cached_entries c \<and> 0 < max_per_descriptor c"
  by (simp add: pool_config_validate_def result_simps)

lemma stream_limits_validate_ok:
  "stream_limits_validate l = Inr () \<longleftrightarrow>
    list_all (\<lambda>v. 0 < v \<and> v \<le> u32_max)
      [max_streams l, max_subscribers_per_stream l, max_bootstrap_bytes l, max_bootstrap_frames l] \<and>
    0 < idle_ttl_seconds l"
  by (simp add: stream_limits_validate_def result_simps) blast

lemma deadlines_validate_ok:
  "deadlines_validate d = Inr () \<longleftrightarrow>
    0 < connect_ms d \<and> connect_ms d \<le> io_ms d \<and> 0 < recv_poll_ms d \<and>
    0 < drain_ms d \<and> drain_ms d \<le> shutdown_ms d"
  by (auto simp: deadlines_validate_def result_simps)

text \<open>A process policy is accepted exactly when every resource, registry and budget limit is
  positive and fits 32 bits where it must, the pool limits and time-outs are positive, and
  the connect and drain deadlines do not exceed the I/O and shutdown deadlines.\<close>

lemma process_policy_accepted:
  "process_policy_validate p = Inr () \<longleftrightarrow>
    policy_valid (pp_resource p) \<and>
    list_all (\<lambda>v. 0 < v)
      [max_cached_bytes (pp_memory_pool p), max_cached_entries (pp_memory_pool p),
       max_per_descriptor (pp_memory_pool p), idle_ttl_seconds (pp_stream_registry p),
       connect_ms (pp_deadlines p), recv_poll_ms (pp_deadlines p), drain_ms (pp_deadlines p),
       pp_affinity_ttl_seconds p] \<and>
    list_all (\<lambda>v. 0 < v \<and> v \<le> u32_max)
      [max_streams (pp_stream_registry p), max_subscribers_per_stream (pp_stream_registry p),
       max_bootstrap_bytes (pp_stream_registry p), max_bootstrap_frames (pp_stream_registry p),
       pp_affinity_capacity p, pp_metrics_serialization_bytes p] \<and>
    connect_ms (pp_deadlines p) \<le> io_ms (pp_deadlines p) \<and>
    drain_ms (pp_deadlines p) \<le> shutdown_ms (pp_deadlines p)"
  by (simp add: process_policy_validate_def result_simps policy_validate_ok pool_config_validate_ok
      stream_limits_validate_ok deadlines_validate_ok) blast

lemma process_policy_default_valid: "process_policy_validate process_policy_default = Inr ()"
  by (simp add: process_policy_validate_def process_policy_default_def result_simps policy_validate_ok
      pool_config_validate_ok stream_limits_validate_ok deadlines_validate_ok policy_valid_def
      policy_limits_def resource_policy_default_def pool_config_default_def stream_limits_default_def
      deadlines_default_def u32_max_def)

end
