(* ===== verification/MediaInfo.thy ===== *)
theory MediaInfo
  imports CoreTypes Resource Buffers
begin

text \<open>
  \<open>dg-core/src/media.rs\<close>: metadata of encoded and decoded media and its validation,
  with the host plane geometry of \<open>dg-media/src/bridge.rs\<close> that produces the plane
  layouts of repacked images.  \<open>u32\<close> extents are \<open>32 word\<close>; offsets and strides are
  \<open>usize\<close>.
\<close>

section \<open>Timing\<close>

record MediaTimeBase =
  tb_num :: "32 word"
  tb_den :: "32 word"

definition time_base_validate :: "MediaTimeBase \<Rightarrow> unit core_result" where
  "time_base_validate tb =
    (if tb_den tb = 0
     then Inl (InvalidArgument (''media timebase denominator must be non-zero, got '' @
            show_nat (unat (tb_num tb)) @ ''/'' @ show_nat (unat (tb_den tb))))
     else Inr ())"

record MediaTiming =
  mt_pts :: "int option"
  mt_dts :: "int option"
  mt_time_base :: "MediaTimeBase option"

definition timing_validate :: "MediaTiming \<Rightarrow> unit core_result" where
  "timing_validate t = (case mt_time_base t of None \<Rightarrow> Inr () | Some tb \<Rightarrow> time_base_validate tb)"

section \<open>Encoded media\<close>

datatype MediaKind = Video | Audio | Data | Subtitle | UnknownKind

datatype MediaCodec =
  H264 | H265 | H266 | AV1 | VP8 | VP9 | MJPEG | Jpeg | AAC | ADPCM | Opus
| G711A | G711U | MP2 | MP3 | UnknownCodec

datatype BitstreamFormat =
  H264AnnexB | H264Avcc | H265AnnexB | H265Hvcc | Vp8Frame | Vp9Frame | Av1Obu
| JpegInterchange | AacRaw | AacAdts | UnknownFormat

record EncodedPacketFlags =
  ef_key :: bool
  ef_lost :: bool
  ef_corrupt :: bool

record MediaCodecConfig =
  cc_format :: BitstreamFormat
  cc_data :: bytes

definition MAX_CODEC_CONFIG_COUNT :: nat where "MAX_CODEC_CONFIG_COUNT = 8"
definition MAX_CODEC_CONFIG_ITEM_BYTES :: nat where "MAX_CODEC_CONFIG_ITEM_BYTES = 1048576"
definition MAX_CODEC_CONFIG_TOTAL_BYTES :: nat where "MAX_CODEC_CONFIG_TOTAL_BYTES = 4194304"

definition codec_config_new :: "BitstreamFormat \<Rightarrow> bytes \<Rightarrow> MediaCodecConfig core_result" where
  "codec_config_new format data =
    (if length data > MAX_CODEC_CONFIG_ITEM_BYTES
     then Inl (InvalidArgument (''codec config item exceeds '' @ show_nat MAX_CODEC_CONFIG_ITEM_BYTES @ '' bytes''))
     else Inr \<lparr> cc_format = format, cc_data = data \<rparr>)"

record EncodedMediaInfo =
  em_stream_index :: "32 word"
  em_track_id :: "nat option"
  em_media_kind :: MediaKind
  em_codec :: MediaCodec
  em_bitstream_format :: BitstreamFormat
  em_flags :: EncodedPacketFlags
  em_codec_configs :: "MediaCodecConfig list"

fun config_total_loop :: "MediaCodecConfig list \<Rightarrow> usize \<Rightarrow> unit core_result" where
  "config_total_loop [] acc = Inr ()"
| "config_total_loop (config # rest) acc =
    and_then (ok_or (checked_add acc (length (cc_data config)))
        (InvalidArgument ''codec config total size overflow''))
      (\<lambda>acc'. if acc' > MAX_CODEC_CONFIG_TOTAL_BYTES
         then Inl (InvalidArgument (''codec config total size exceeds '' @
                show_nat MAX_CODEC_CONFIG_TOTAL_BYTES @ '' bytes''))
         else config_total_loop rest acc')"

definition encoded_validate :: "EncodedMediaInfo \<Rightarrow> unit core_result" where
  "encoded_validate info =
    (if length (em_codec_configs info) > MAX_CODEC_CONFIG_COUNT
     then Inl (InvalidArgument (''codec config count '' @ show_nat (length (em_codec_configs info)) @
            '' exceeds maximum '' @ show_nat MAX_CODEC_CONFIG_COUNT))
     else and_then (config_total_loop (em_codec_configs info) 0)
       (\<lambda>_. fail_if (em_bitstream_format info = UnknownFormat \<and> em_codec info \<noteq> UnknownCodec)
          (InvalidArgument ''bitstream format Unknown is only valid when codec is Unknown'')))"

section \<open>Images\<close>

datatype PixelFormat =
  Yuv420P | Yuv422P | Yuv444P | Nv12 | Nv21 | Rgb24 | Bgr24 | Rgba | Bgra | Gray8 | UnknownPixel

fun debug_pixel_format :: "PixelFormat \<Rightarrow> string" where
  "debug_pixel_format Yuv420P = ''Yuv420P''"
| "debug_pixel_format Yuv422P = ''Yuv422P''"
| "debug_pixel_format Yuv444P = ''Yuv444P''"
| "debug_pixel_format Nv12 = ''Nv12''"
| "debug_pixel_format Nv21 = ''Nv21''"
| "debug_pixel_format Rgb24 = ''Rgb24''"
| "debug_pixel_format Bgr24 = ''Bgr24''"
| "debug_pixel_format Rgba = ''Rgba''"
| "debug_pixel_format Bgra = ''Bgra''"
| "debug_pixel_format Gray8 = ''Gray8''"
| "debug_pixel_format UnknownPixel = ''Unknown''"

datatype ColorPrimaries = UnknownPrimaries | Bt709Primaries | Bt601Primaries | Bt2020Primaries
datatype ColorTransfer = UnknownTransfer | Bt709Transfer | LinearTransfer | SrgbTransfer
datatype ColorMatrix = UnknownMatrix | Bt709Matrix | Bt601Matrix | Bt2020Matrix
datatype ColorRange = UnknownRange | LimitedRange | FullRange
datatype SampleLayout = Planar | SemiPlanar | Interleaved
datatype SampleType = Uint8 | Uint16 | Float16 | Float32

record MediaRect =
  rect_x :: "32 word"
  rect_y :: "32 word"
  rect_width :: "32 word"
  rect_height :: "32 word"

definition checked_add_u32 :: "32 word \<Rightarrow> 32 word \<Rightarrow> 32 word option" where
  "checked_add_u32 a b = (if unat a + unat b \<le> u32_max then Some (a + b) else None)"

definition rect_validate :: "MediaRect \<Rightarrow> unit core_result" where
  "rect_validate r =
    and_then (ok_or (checked_add_u32 (rect_width r) (rect_x r)) (InvalidArgument ''rect width + x overflows u32''))
      (\<lambda>_. and_then (ok_or (checked_add_u32 (rect_height r) (rect_y r)) (InvalidArgument ''rect height + y overflows u32''))
        (\<lambda>_. Inr ()))"

record MediaPlaneLayout =
  pl_offset :: usize
  pl_stride :: usize
  pl_len :: usize

definition end_offset :: "MediaPlaneLayout \<Rightarrow> usize core_result" where
  "end_offset p = ok_or (checked_add (pl_offset p) (pl_len p)) (InvalidArgument ''plane offset + len overflows'')"

record ImageMediaInfo =
  im_pixel_format :: PixelFormat
  im_coded_width :: "32 word"
  im_coded_height :: "32 word"
  im_visible_rect :: MediaRect
  im_crop_rect :: "MediaRect option"
  im_color_primaries :: ColorPrimaries
  im_color_transfer :: ColorTransfer
  im_color_matrix :: ColorMatrix
  im_color_range :: ColorRange
  im_key :: bool
  im_sample_type :: SampleType
  im_sample_layout :: SampleLayout
  im_planes :: "MediaPlaneLayout list"
  im_fence_id :: "nat option"

fun expected_plane_count :: "PixelFormat \<Rightarrow> usize core_result" where
  "expected_plane_count Yuv420P = Inr 3"
| "expected_plane_count Yuv422P = Inr 3"
| "expected_plane_count Yuv444P = Inr 3"
| "expected_plane_count Nv12 = Inr 2"
| "expected_plane_count Nv21 = Inr 2"
| "expected_plane_count Rgb24 = Inr 1"
| "expected_plane_count Bgr24 = Inr 1"
| "expected_plane_count Rgba = Inr 1"
| "expected_plane_count Bgra = Inr 1"
| "expected_plane_count Gray8 = Inr 1"
| "expected_plane_count UnknownPixel = Inl (Unsupported ''cannot validate plane layout for Unknown pixel format'')"

fun bytes_per_pixel_row :: "PixelFormat \<Rightarrow> usize core_result" where
  "bytes_per_pixel_row Rgb24 = Inr 3"
| "bytes_per_pixel_row Bgr24 = Inr 3"
| "bytes_per_pixel_row Rgba = Inr 4"
| "bytes_per_pixel_row Bgra = Inr 4"
| "bytes_per_pixel_row Gray8 = Inr 1"
| "bytes_per_pixel_row Yuv420P = Inr 1"
| "bytes_per_pixel_row Yuv422P = Inr 1"
| "bytes_per_pixel_row Yuv444P = Inr 1"
| "bytes_per_pixel_row Nv12 = Inr 1"
| "bytes_per_pixel_row Nv21 = Inr 1"
| "bytes_per_pixel_row UnknownPixel = Inl (Unsupported ''cannot compute row bytes for Unknown pixel format'')"

definition plane_row_count :: "PixelFormat \<Rightarrow> usize \<Rightarrow> 32 word \<Rightarrow> usize" where
  "plane_row_count format plane_index coded_height =
    (let height = unat coded_height in
     if (format = Yuv420P \<or> format = Nv12 \<or> format = Nv21) \<and> plane_index > 0
     then div_ceil height 2 else height)"

definition plane_min_stride :: "PixelFormat \<Rightarrow> usize \<Rightarrow> usize \<Rightarrow> 32 word \<Rightarrow> usize" where
  "plane_min_stride format bpp plane_index coded_width =
    (let width = unat coded_width in
     if format = Yuv420P \<and> plane_index > 0 then div_ceil width 2
     else if format = Nv12 \<or> format = Nv21 then width
     else saturating_mul width bpp)"

definition validate_plane_stride ::
  "PixelFormat \<Rightarrow> MediaPlaneLayout \<Rightarrow> usize \<Rightarrow> 32 word \<Rightarrow> 32 word \<Rightarrow> unit core_result"
where
  "validate_plane_stride format plane plane_index coded_width coded_height =
    and_then (bytes_per_pixel_row format) (\<lambda>bpp.
    let min_stride = plane_min_stride format bpp plane_index coded_width in
    if pl_stride plane < min_stride
    then Inl (InvalidArgument (''plane stride '' @ show_nat (pl_stride plane) @ '' is less than minimum '' @
           show_nat min_stride @ '' for format '' @ debug_pixel_format format))
    else
    let rows = plane_row_count format plane_index coded_height in
    and_then (ok_or (checked_add (pl_offset plane) (saturating_mul (pl_stride plane) (saturating_sub rows 1)))
        (InvalidArgument ''last row offset overflow'')) (\<lambda>last_row_start.
    and_then (ok_or (checked_add last_row_start min_stride)
        (InvalidArgument ''last row end overflow'')) (\<lambda>last_row_end.
    and_then (end_offset plane) (\<lambda>plane_end.
    fail_if (last_row_end > plane_end)
      (InvalidArgument ''last valid row extends beyond plane length'')))))"

definition validate_plane ::
  "ImageMediaInfo \<Rightarrow> usize \<Rightarrow> nat \<Rightarrow> MediaPlaneLayout \<Rightarrow> unit core_result"
where
  "validate_plane img buffer_size index plane =
    (if pl_stride plane = 0 then Inl (InvalidArgument ''plane stride must be non-zero'')
     else and_then (end_offset plane) (\<lambda>end_off.
       if end_off > buffer_size
       then Inl (InvalidArgument (''plane end offset '' @ show_nat end_off @ '' exceeds buffer size '' @
              show_nat buffer_size))
       else validate_plane_stride (im_pixel_format img) plane index (im_coded_width img) (im_coded_height img)))"

fun validate_planes :: "ImageMediaInfo \<Rightarrow> usize \<Rightarrow> nat \<Rightarrow> MediaPlaneLayout list \<Rightarrow> unit core_result" where
  "validate_planes img buffer_size index [] = Inr ()"
| "validate_planes img buffer_size index (plane # rest) =
    and_then (validate_plane img buffer_size index plane)
      (\<lambda>_. validate_planes img buffer_size (index + 1) rest)"

definition image_validate :: "ImageMediaInfo \<Rightarrow> usize \<Rightarrow> unit core_result" where
  "image_validate img buffer_size =
    (if im_coded_width img = 0 \<or> im_coded_height img = 0
     then Inl (InvalidArgument ''coded width and height must be non-zero'')
     else and_then (rect_validate (im_visible_rect img)) (\<lambda>_.
       and_then (case im_crop_rect img of None \<Rightarrow> Inr () | Some crop \<Rightarrow> rect_validate crop) (\<lambda>_.
       and_then (expected_plane_count (im_pixel_format img)) (\<lambda>expected_planes.
       if length (im_planes img) \<noteq> expected_planes
       then Inl (InvalidArgument (''pixel format '' @ debug_pixel_format (im_pixel_format img) @ '' requires '' @
              show_nat expected_planes @ '' planes, got '' @ show_nat (length (im_planes img))))
       else validate_planes img buffer_size 0 (im_planes img)))))"

section \<open>Envelope\<close>

datatype MediaPayloadInfo = Encoded EncodedMediaInfo | Image ImageMediaInfo

fun payload_validate :: "MediaPayloadInfo \<Rightarrow> usize option \<Rightarrow> unit core_result" where
  "payload_validate (Encoded info) buffer_size = encoded_validate info"
| "payload_validate (Image info) buffer_size =
    and_then (ok_or buffer_size (InvalidArgument ''buffer size required to validate image media info''))
      (image_validate info)"

record MediaInfo =
  mi_timing :: MediaTiming
  mi_payload :: MediaPayloadInfo

definition media_encoded :: "EncodedMediaInfo \<Rightarrow> MediaTiming \<Rightarrow> MediaInfo core_result" where
  "media_encoded info timing =
    and_then (timing_validate timing) (\<lambda>_. and_then (encoded_validate info)
      (\<lambda>_. Inr \<lparr> mi_timing = timing, mi_payload = Encoded info \<rparr>))"

definition media_image :: "ImageMediaInfo \<Rightarrow> MediaTiming \<Rightarrow> usize \<Rightarrow> MediaInfo core_result" where
  "media_image info timing buffer_size =
    and_then (timing_validate timing) (\<lambda>_. and_then (image_validate info buffer_size)
      (\<lambda>_. Inr \<lparr> mi_timing = timing, mi_payload = Image info \<rparr>))"

definition media_validate :: "MediaInfo \<Rightarrow> usize option \<Rightarrow> unit core_result" where
  "media_validate m buffer_size =
    and_then (timing_validate (mi_timing m)) (\<lambda>_. payload_validate (mi_payload m) buffer_size)"

definition is_keyframe :: "MediaInfo \<Rightarrow> bool" where
  "is_keyframe m = (case mi_payload m of Encoded e \<Rightarrow> ef_key (em_flags e) | Image i \<Rightarrow> im_key i)"

section \<open>Host plane geometry\<close>

text \<open>Rows and bytes per row of each plane of a repacked host image.\<close>

fun plane_geometry :: "PixelFormat \<Rightarrow> usize \<Rightarrow> usize \<Rightarrow> (usize \<times> usize) list core_result" where
  "plane_geometry Yuv420P width height =
    (let cw = div_ceil width 2; ch = div_ceil height 2 in Inr [(height, width), (ch, cw), (ch, cw)])"
| "plane_geometry Yuv422P width height =
    (let cw = div_ceil width 2 in Inr [(height, width), (height, cw), (height, cw)])"
| "plane_geometry Yuv444P width height = Inr [(height, width), (height, width), (height, width)]"
| "plane_geometry Nv12 width height = (let ch = div_ceil height 2 in Inr [(height, width), (ch, width)])"
| "plane_geometry Nv21 width height = (let ch = div_ceil height 2 in Inr [(height, width), (ch, width)])"
| "plane_geometry Gray8 width height = Inr [(height, width)]"
| "plane_geometry Rgb24 width height = Inr [(height, saturating_mul width 3)]"
| "plane_geometry Bgr24 width height = Inr [(height, saturating_mul width 3)]"
| "plane_geometry Rgba width height = Inr [(height, saturating_mul width 4)]"
| "plane_geometry Bgra width height = Inr [(height, saturating_mul width 4)]"
| "plane_geometry UnknownPixel width height =
    Inl (Unsupported (''no host plane geometry for pixel format '' @ debug_pixel_format UnknownPixel))"

fun tight_layouts :: "(usize \<times> usize) list \<Rightarrow> usize \<Rightarrow> MediaPlaneLayout list \<Rightarrow> MediaPlaneLayout list core_result" where
  "tight_layouts [] offset planes = Inr planes"
| "tight_layouts ((rows, row_bytes) # rest) offset planes =
    and_then (ok_or (checked_mul rows row_bytes) (Media ''plane length overflow'')) (\<lambda>len.
    and_then (ok_or (checked_add offset len) (Media ''plane offset overflow''))
      (\<lambda>offset'. tight_layouts rest offset'
         (planes @ [\<lparr> pl_offset = offset, pl_stride = row_bytes, pl_len = len \<rparr>])))"

definition tight_plane_layouts_for_format ::
  "PixelFormat \<Rightarrow> usize \<Rightarrow> usize \<Rightarrow> MediaPlaneLayout list core_result"
where
  "tight_plane_layouts_for_format format width height =
    and_then (plane_geometry format width height) (\<lambda>specs. tight_layouts specs 0 [])"

section \<open>Validation lemmas\<close>

lemma config_total_loop_ok:
  "config_total_loop cs acc = Inr () \<Longrightarrow> acc \<le> MAX_CODEC_CONFIG_TOTAL_BYTES \<Longrightarrow>
    acc + sum_list (map (\<lambda>c. length (cc_data c)) cs) \<le> MAX_CODEC_CONFIG_TOTAL_BYTES"
proof (induction cs arbitrary: acc)
  case (Cons c cs)
  from Cons.IH [of "acc + length (cc_data c)"] Cons.prems show ?case
    by (auto simp: result_simps split: if_splits)
qed simp

lemma config_total_loop_total:
  "acc + sum_list (map (\<lambda>c. length (cc_data c)) cs) \<le> MAX_CODEC_CONFIG_TOTAL_BYTES \<Longrightarrow>
    config_total_loop cs acc = Inr ()"
proof (induction cs arbitrary: acc)
  case (Cons c cs)
  have "acc + length (cc_data c) \<le> usize_max"
    using Cons.prems by (simp add: MAX_CODEC_CONFIG_TOTAL_BYTES_def usize_max_def)
  then show ?case using Cons.IH [of "acc + length (cc_data c)"] Cons.prems by (simp add: checked_add_def)
qed simp

lemma validate_planes_nth:
  "validate_planes img n idx ps = Inr () \<longleftrightarrow>
    (\<forall>i < length ps. validate_plane img n (idx + i) (ps ! i) = Inr ())"
proof (induction ps arbitrary: idx)
  case (Cons p ps)
  then show ?case by (simp add: result_simps All_less_Suc2)
qed simp

lemma image_validate_ok:
  assumes "image_validate img n = Inr ()"
  shows "0 < unat (im_coded_width img)" and "0 < unat (im_coded_height img)"
    and "i < length (im_planes img) \<Longrightarrow> validate_plane img n i (im_planes img ! i) = Inr ()"
  using assms
  by (auto simp: image_validate_def result_simps validate_planes_nth unat_gt_0 split: if_splits)

text \<open>A plane that passes ends inside the buffer and holds its last row, with no saturation.\<close>

lemma validate_plane_ok:
  assumes "validate_plane img n i p = Inr ()" and "0 < unat (im_coded_width img)"
    and "bytes_per_pixel_row (im_pixel_format img) = Inr bpp"
  defines "ms \<equiv> plane_min_stride (im_pixel_format img) bpp i (im_coded_width img)"
    and "rows \<equiv> plane_row_count (im_pixel_format img) i (im_coded_height img)"
  shows "ms \<le> pl_stride p" and "pl_offset p + pl_stride p * (rows - 1) + ms \<le> pl_offset p + pl_len p"
    and "pl_offset p + pl_len p \<le> n"
proof -
  have bpp: "0 < bpp" using assms(3) by (cases "im_pixel_format img") auto
  have "0 < ms"
    using assms(2) bpp div_ceil_bounds(1) [of 2 "unat (im_coded_width img)"]
    by (auto simp: ms_def plane_min_stride_def Let_def saturating_mul_def usize_max_def intro: gr0I)
  then show "ms \<le> pl_stride p" and "pl_offset p + pl_stride p * (rows - 1) + ms \<le> pl_offset p + pl_len p"
    and "pl_offset p + pl_len p \<le> n"
    using assms(1,3)
    by (auto simp: validate_plane_def validate_plane_stride_def end_offset_def result_simps Let_def
        saturating_mul_def saturating_sub_def min_def ms_def rows_def split: if_splits)
qed

text \<open>A tightly packed plane whose rows have the minimum length passes.\<close>

lemma tight_plane_valid:
  assumes "0 < rows" and "0 < rb" and "off + rows * rb \<le> n" and "n \<le> usize_max"
    and "bytes_per_pixel_row (im_pixel_format img) = Inr bpp"
    and "plane_min_stride (im_pixel_format img) bpp i (im_coded_width img) = rb"
    and "plane_row_count (im_pixel_format img) i (im_coded_height img) = rows"
  shows "validate_plane img n i \<lparr> pl_offset = off, pl_stride = rb, pl_len = rows * rb \<rparr> = Inr ()"
proof -
  have sum: "rb * (rows - 1) + rb = rows * rb" using assms(1) by (cases rows) simp_all
  have le: "off + (rb * (rows - 1) + rb) \<le> usize_max" unfolding sum using assms(3,4) by simp
  then have "saturating_mul rb (saturating_sub rows 1) = rb * (rows - 1)"
    by (simp add: saturating_mul_def saturating_sub_def min_def)
  then show ?thesis
    using assms sum le
    by (auto simp: validate_plane_def validate_plane_stride_def end_offset_def checked_add_def add.assoc)
qed

text \<open>Layouts produced for repacking: the planes follow one another without gaps.\<close>

fun packed :: "(usize \<times> usize) list \<Rightarrow> usize \<Rightarrow> MediaPlaneLayout list" where
  "packed [] off = []"
| "packed ((rows, rb) # rest) off =
    \<lparr> pl_offset = off, pl_stride = rb, pl_len = rows * rb \<rparr> # packed rest (off + rows * rb)"

lemma tight_layouts_packed: "tight_layouts specs off planes = Inr ps \<Longrightarrow> ps = planes @ packed specs off"
proof (induction specs arbitrary: off planes)
  case (Cons spec specs)
  obtain rows rb where spec: "spec = (rows, rb)" by fastforce
  from Cons.prems Cons.IH [of "off + rows * rb" "planes @ [\<lparr> pl_offset = off, pl_stride = rb, pl_len = rows * rb \<rparr>]"]
  show ?case by (auto simp: spec result_simps)
qed simp

text \<open>The specifications agree with what validation expects of the planes from index \<open>i\<close> on.\<close>

fun specs_ok :: "PixelFormat \<Rightarrow> usize \<Rightarrow> 32 word \<Rightarrow> 32 word \<Rightarrow> nat \<Rightarrow> (usize \<times> usize) list \<Rightarrow> bool" where
  "specs_ok f bpp w h i [] = True"
| "specs_ok f bpp w h i ((rows, rb) # rest) =
    (0 < rows \<and> 0 < rb \<and> plane_min_stride f bpp i w = rb \<and> plane_row_count f i h = rows \<and>
     specs_ok f bpp w h (i + 1) rest)"

lemma packed_valid:
  assumes "off + sum_list (map (\<lambda>(rows, rb). rows * rb) specs) \<le> n" and "n \<le> usize_max"
    and "bytes_per_pixel_row (im_pixel_format img) = Inr bpp"
    and "specs_ok (im_pixel_format img) bpp (im_coded_width img) (im_coded_height img) i specs"
  shows "validate_planes img n i (packed specs off) = Inr ()"
  using assms(1,4)
proof (induction specs arbitrary: off i)
  case (Cons sp specs)
  obtain rows rb where sp: "sp = (rows, rb)" by fastforce
  from Cons.prems(2) have hd: "0 < rows" "0 < rb"
      "plane_min_stride (im_pixel_format img) bpp i (im_coded_width img) = rb"
      "plane_row_count (im_pixel_format img) i (im_coded_height img) = rows"
    by (simp_all add: sp)
  have "validate_plane img n i \<lparr> pl_offset = off, pl_stride = rb, pl_len = rows * rb \<rparr> = Inr ()"
    using tight_plane_valid [OF hd(1,2) _ assms(2,3) hd(3,4), of off] Cons.prems(1) sp by simp
  then show ?case using Cons.IH [of "off + rows * rb" "i + 1"] Cons.prems by (simp add: sp add.assoc)
qed simp

lemma length_packed [simp]: "length (packed specs off) = length specs"
  by (induction specs off rule: packed.induct) auto

lemma unat_le_usize: "unat (w :: 32 word) \<le> usize_max"
  using unsigned_less [of w, where ?'a = nat] by (simp add: usize_max_def)

lemma div_ceil_one: "div_ceil (Suc 0) 2 = Suc 0"
  by (simp add: div_ceil_def)

lemma geometry_matches:
  assumes "plane_geometry f (unat w) (unat h) = Inr specs" and "0 < unat w" and "0 < unat h"
    and "bytes_per_pixel_row f = Inr bpp" and "f \<noteq> Yuv422P \<or> unat w = 1"
  shows "expected_plane_count f = Inr (length specs) \<and> specs_ok f bpp w h 0 specs"
proof -
  have pos: "0 < div_ceil a 2" if "0 < a" for a using that div_ceil_bounds(1) [of 2 a] by (auto intro: gr0I)
  have sat: "0 < saturating_mul a k" if "0 < a" "0 < k" for a k
    using that by (simp add: saturating_mul_def usize_max_def)
  have one: "saturating_mul (unat w) (Suc 0) = unat w"
    using unat_le_usize [of w] by (simp add: saturating_mul_def)
  note facts = pos [OF assms(2)] pos [OF assms(3)] sat [OF assms(2)] assms(2,3) one div_ceil_one
  show ?thesis
    using assms(1,4,5) facts
    by (cases f) (auto simp: Let_def plane_min_stride_def plane_row_count_def)
qed

text \<open>A four by two image, for the examples below.\<close>

definition sample_image :: "PixelFormat \<Rightarrow> MediaPlaneLayout list \<Rightarrow> ImageMediaInfo" where
  "sample_image f ps =
    \<lparr> im_pixel_format = f, im_coded_width = 4, im_coded_height = 2,
      im_visible_rect = \<lparr> rect_x = 0, rect_y = 0, rect_width = 4, rect_height = 2 \<rparr>,
      im_crop_rect = None, im_color_primaries = UnknownPrimaries, im_color_transfer = UnknownTransfer,
      im_color_matrix = UnknownMatrix, im_color_range = UnknownRange, im_key = False,
      im_sample_type = Uint8, im_sample_layout = Planar, im_planes = ps, im_fence_id = None \<rparr>"

lemmas sample_image_simps = sample_image_def rect_validate_def checked_add_u32_def u32_max_def
  usize_max_def div_ceil_def checked_mul_def checked_add_def saturating_mul_def

section \<open>Properties\<close>

text \<open>Where the samples of the pixel at column \<open>x\<close> and row \<open>y\<close> are in plane \<open>i\<close>, as row and byte of the plane: the memory layout that the name of a pixel format stands for.
  Chroma planes of 4:2:0 have half of the rows and columns, those of 4:2:2 half of the columns, and semi-planar formats keep both chroma samples side by side.\<close>

fun sample_bytes :: "PixelFormat \<Rightarrow> nat \<Rightarrow> nat \<Rightarrow> nat \<Rightarrow> (nat \<times> nat) list" where
  "sample_bytes Gray8 i x y = [(y, x)]"
| "sample_bytes Rgb24 i x y = map (\<lambda>c. (y, 3 * x + c)) [0, 1, 2]"
| "sample_bytes Bgr24 i x y = map (\<lambda>c. (y, 3 * x + c)) [0, 1, 2]"
| "sample_bytes Rgba i x y = map (\<lambda>c. (y, 4 * x + c)) [0, 1, 2, 3]"
| "sample_bytes Bgra i x y = map (\<lambda>c. (y, 4 * x + c)) [0, 1, 2, 3]"
| "sample_bytes Yuv444P i x y = [(y, x)]"
| "sample_bytes Yuv422P i x y = [(y, if i = 0 then x else x div 2)]"
| "sample_bytes Yuv420P i x y = [if i = 0 then (y, x) else (y div 2, x div 2)]"
| "sample_bytes Nv12 i x y = (if i = 0 then [(y, x)] else [(y div 2, 2 * (x div 2)), (y div 2, 2 * (x div 2) + 1)])"
| "sample_bytes Nv21 i x y = (if i = 0 then [(y, x)] else [(y div 2, 2 * (x div 2)), (y div 2, 2 * (x div 2) + 1)])"
| "sample_bytes UnknownPixel i x y = []"

lemma half_less: "x < w \<Longrightarrow> x div 2 < div_ceil w 2"
  by (auto simp: div_ceil_def)

text \<open>The samples of a pixel lie within the rows and the row length that validation checks, unless the format is semi-planar and the width odd.\<close>

lemma sample_in_row:
  assumes "(row, byte) \<in> set (sample_bytes f i x y)" and "x < unat w" and "y < unat h" and "bytes_per_pixel_row f = Inr bpp" and "f = Nv12 \<or> f = Nv21 \<longrightarrow> even (unat w)"
  shows "row < plane_row_count f i h \<and> byte < plane_min_stride f bpp i w"
proof -
  have small: "4 * unat w \<le> usize_max" using unsigned_less [of w, where ?'a = nat] by (simp add: usize_max_def)
  have pair: "Suc (2 * (x div 2)) < unat w" if "even (unat w)" using that assms(2) by presburger
  show ?thesis using assms small pair half_less [OF assms(2)] half_less [OF assms(3)]
    by (cases f) (auto simp: plane_min_stride_def plane_row_count_def saturating_mul_def Let_def split: if_splits)
qed

text \<open>C23. Validated image metadata is memory safe: when an image passes validation against a buffer size, every sample of every pixel of the coded picture, at its place in the layout
  of the pixel format, lies inside its row, inside its plane and inside the buffer.  For the semi-planar formats the width has to be even; with an odd width validation accepts
  a chroma plane that is a byte too short.\<close>

theorem validated_image_in_bounds:
  assumes "image_validate img n = Inr ()" and "i < length (im_planes img)" and "p = im_planes img ! i"
    and "x < unat (im_coded_width img)" and "y < unat (im_coded_height img)" and "(row, byte) \<in> set (sample_bytes (im_pixel_format img) i x y)"
    and "im_pixel_format img = Nv12 \<or> im_pixel_format img = Nv21 \<longrightarrow> even (unat (im_coded_width img))"
  shows "byte < pl_stride p \<and> row * pl_stride p + byte < pl_len p \<and> pl_offset p + row * pl_stride p + byte < n"
proof -
  obtain bpp where bpp: "bytes_per_pixel_row (im_pixel_format img) = Inr bpp" using assms(6) by (cases "im_pixel_format img") auto
  let ?rows = "plane_row_count (im_pixel_format img) i (im_coded_height img)" and ?ms = "plane_min_stride (im_pixel_format img) bpp i (im_coded_width img)"
  have in_row: "row < ?rows" "byte < ?ms" using sample_in_row [OF assms(6,4,5) bpp assms(7)] by auto
  note V = validate_plane_ok [OF image_validate_ok(3) [OF assms(1,2)] image_validate_ok(1) [OF assms(1)] bpp, folded assms(3)]
  have "row * pl_stride p \<le> pl_stride p * (?rows - 1)"
    unfolding mult.commute [of row] by (rule mult_le_mono2) (use in_row in simp)
  then show ?thesis using V in_row by linarith
qed

theorem validated_image_in_bounds_witness:
  "image_validate (sample_image Nv12 [\<lparr> pl_offset = 0, pl_stride = 4, pl_len = 8 \<rparr>, \<lparr> pl_offset = 8, pl_stride = 4, pl_len = 4 \<rparr>]) 12 = Inr () \<and>
   8 + 0 * 4 + 3 < (12 :: nat)"
proof -
  let ?p = "\<lparr> pl_offset = 8, pl_stride = 4, pl_len = 4 \<rparr>"
  let ?img = "sample_image Nv12 [\<lparr> pl_offset = 0, pl_stride = 4, pl_len = 8 \<rparr>, ?p]"
  have ok: "image_validate ?img 12 = Inr ()"
    by (simp add: image_validate_def validate_plane_def validate_plane_stride_def end_offset_def
        plane_min_stride_def plane_row_count_def saturating_sub_def sample_image_simps)
  have "3 < pl_stride ?p \<and> 0 * pl_stride ?p + 3 < pl_len ?p \<and> pl_offset ?p + 0 * pl_stride ?p + 3 < 12"
    by (rule validated_image_in_bounds [OF ok, where i = 1 and x = 3 and y = 1]) (simp_all add: sample_image_def)
  with ok show ?thesis by simp
qed

text \<open>The odd width: a picture of three columns and two rows with a chroma plane of three bytes is accepted, but the second chroma sample of its last column lies behind the buffer.\<close>

lemma odd_semi_planar_escapes:
  fixes img :: ImageMediaInfo
  defines "img \<equiv> (sample_image Nv12 [\<lparr> pl_offset = 0, pl_stride = 3, pl_len = 6 \<rparr>, \<lparr> pl_offset = 6, pl_stride = 3, pl_len = 3 \<rparr>])\<lparr> im_coded_width := 3 \<rparr>"
  shows "image_validate img 9 = Inr () \<and> (0, 3) \<in> set (sample_bytes (im_pixel_format img) 1 2 0) \<and>
    \<not> pl_offset (im_planes img ! 1) + 0 * pl_stride (im_planes img ! 1) + 3 < 9"
  by (simp add: img_def image_validate_def validate_plane_def validate_plane_stride_def end_offset_def
      plane_min_stride_def plane_row_count_def saturating_sub_def sample_image_simps)

text \<open>Encoded metadata is accepted exactly when it has at most eight codec configurations of at
  most four mebibytes in all, and names a bitstream format unless the codec is unknown.\<close>

lemma encoded_validate_iff:
  "encoded_validate info = Inr () \<longleftrightarrow>
    length (em_codec_configs info) \<le> 8 \<and>
    sum_list (map (\<lambda>c. length (cc_data c)) (em_codec_configs info)) \<le> 4 * 1024 * 1024 \<and>
    (em_bitstream_format info = UnknownFormat \<longrightarrow> em_codec info = UnknownCodec)"
  using config_total_loop_ok [of "em_codec_configs info" 0] config_total_loop_total [of 0 "em_codec_configs info"]
  by (auto simp: encoded_validate_def result_simps MAX_CODEC_CONFIG_COUNT_def MAX_CODEC_CONFIG_TOTAL_BYTES_def)

text \<open>The plane layouts that repacking produces pass validation for every supported pixel format
  except planar 4:2:2 wider than one pixel: repacking gives its chroma planes half-width rows
  while validation asks for full-width ones, so such images are refused.\<close>

lemma repacked_layout_validates:
  assumes "tight_plane_layouts_for_format (im_pixel_format img) (unat (im_coded_width img)) (unat (im_coded_height img)) =
      Inr (im_planes img)"
    and "0 < unat (im_coded_width img)" and "0 < unat (im_coded_height img)"
    and "rect_validate (im_visible_rect img) = Inr ()" and "im_crop_rect img = None"
    and "n = sum_list (map pl_len (im_planes img))" and "n \<le> usize_max"
  shows "image_validate img n = Inr () \<longleftrightarrow> im_pixel_format img \<noteq> Yuv422P \<or> unat (im_coded_width img) = 1"
proof -
  let ?f = "im_pixel_format img" and ?w = "im_coded_width img" and ?h = "im_coded_height img"
  obtain specs where specs: "plane_geometry ?f (unat ?w) (unat ?h) = Inr specs" and t: "tight_layouts specs 0 [] = Inr (im_planes img)"
    using assms(1) by (auto simp: tight_plane_layouts_for_format_def result_simps)
  have planes: "im_planes img = packed specs 0" using tight_layouts_packed [OF t] by simp
  obtain bpp where bpp: "bytes_per_pixel_row ?f = Inr bpp" using specs by (cases ?f) auto
  have len: "sum_list (map pl_len (packed sp off)) = sum_list (map (\<lambda>(rows, rb). rows * rb) sp)" for sp off
    by (induction sp off rule: packed.induct) auto
  have nz: "?w \<noteq> 0" "?h \<noteq> 0" using assms(2,3) by auto
  show ?thesis
  proof (cases "?f \<noteq> Yuv422P \<or> unat ?w = 1")
    case True
    note G = geometry_matches [OF specs assms(2,3) bpp True]
    have "validate_planes img n 0 (im_planes img) = Inr ()"
      unfolding planes using G assms(6,7) len planes by (intro packed_valid [OF _ _ bpp]) simp_all
    then show ?thesis using True G assms(4,5) nz planes by (simp add: image_validate_def)
  next
    case False
    then have f: "?f = Yuv422P" and w: "1 < unat ?w" using assms(2) by auto
    then have one: "im_planes img ! 1 = \<lparr> pl_offset = unat ?h * unat ?w, pl_stride = div_ceil (unat ?w) 2,
        pl_len = unat ?h * div_ceil (unat ?w) 2 \<rparr>" "1 < length (im_planes img)"
      using specs planes by (auto simp: Let_def)
    have "div_ceil (unat ?w) 2 < unat ?w" using w div_ceil_bounds(2) [of 2 "unat ?w"] by simp
    moreover have "bpp = 1" using f bpp by simp
    ultimately have "\<not> plane_min_stride ?f bpp 1 ?w \<le> pl_stride (im_planes img ! 1)"
      using f one(1) unat_le_usize [of ?w] by (simp add: plane_min_stride_def saturating_mul_def)
    then have "image_validate img n \<noteq> Inr ()"
      using validate_plane_ok(1) [OF image_validate_ok(3) [OF _ one(2)] assms(2) bpp] by blast
    then show ?thesis using False by simp
  qed
qed

end
