(* ===== verification/Scheduler.thy ===== *)
theory Scheduler
  imports CoreTypes "HOL-Library.Product_Lexorder"
begin

text \<open>
  \<open>dg-scheduler/src/lib.rs\<close>: topologies, lease acquisition with affinity, least-loaded
  and round-robin policies, load accounting, and instance pools over a shared
  scheduler.  Device ids are \<open>16 word\<close>, core ids \<open>8 word\<close>; a clock reading is a
  natural number and every call of \<open>Instant::now\<close> is an argument.  The hash maps
  of the source are association lists in iteration order.
\<close>

section \<open>Topology\<close>

datatype sched_error =
  EmptyTopology
| DuplicateDevice DeviceKind "16 word"
| EmptyDevice DeviceKind "16 word"
| CoreIdOutOfRange DeviceKind "16 word" "8 word"
| DuplicateCore DeviceKind "16 word" "8 word"
| UnknownDevice DeviceKind "16 word"
| NoMatchingDevice DeviceKind
| InvalidCoreMask "32 word"
| MissingCore "32 word" "8 word"
| NoAvailableCore
| InvalidInstanceCount
| InstanceCountOutOfRange usize usize
| LoadOverflow

type_synonym 'a sched_result = "sched_error + 'a"

record Core =
  core_id :: "8 word"

record sched_device =
  sd_kind :: DeviceKind
  sd_id :: "16 word"
  sd_cores :: "Core list"

record Topology =
  tp_deployment :: DeployMode
  tp_devices :: "sched_device list"

fun validate_cores :: "DeviceKind \<Rightarrow> 16 word \<Rightarrow> Core list \<Rightarrow> 8 word list \<Rightarrow> unit sched_result" where
  "validate_cores kind dev [] core_ids = Inr ()"
| "validate_cores kind dev (core # rest) core_ids =
    (if core_id core \<ge> 32 then Inl (CoreIdOutOfRange kind dev (core_id core))
     else if core_id core \<in> set core_ids then Inl (DuplicateCore kind dev (core_id core))
     else validate_cores kind dev rest (core_id core # core_ids))"

fun validate_devices :: "sched_device list \<Rightarrow> (DeviceKind \<times> 16 word) list \<Rightarrow> unit sched_result" where
  "validate_devices [] seen = Inr ()"
| "validate_devices (d # rest) seen =
    (if (sd_kind d, sd_id d) \<in> set seen then Inl (DuplicateDevice (sd_kind d) (sd_id d))
     else if sd_cores d = [] then Inl (EmptyDevice (sd_kind d) (sd_id d))
     else and_then (validate_cores (sd_kind d) (sd_id d) (sd_cores d) [])
       (\<lambda>_. validate_devices rest ((sd_kind d, sd_id d) # seen)))"

definition validate_topology :: "sched_device list \<Rightarrow> unit sched_result" where
  "validate_topology ds = (if ds = [] then Inl EmptyTopology else validate_devices ds [])"

definition topology_new :: "DeployMode \<Rightarrow> sched_device list \<Rightarrow> Topology sched_result" where
  "topology_new deployment ds =
    and_then (validate_topology ds) (\<lambda>_. Inr \<lparr> tp_deployment = deployment, tp_devices = ds \<rparr>)"

definition cores_from_count :: "8 word \<Rightarrow> Core list" where
  "cores_from_count n = map (\<lambda>i. \<lparr> core_id = of_nat i \<rparr>) [0..<unat n]"

definition single_chip :: "DeviceKind \<Rightarrow> 8 word \<Rightarrow> Topology sched_result" where
  "single_chip kind n =
    topology_new SoC [\<lparr> sd_kind = kind, sd_id = 0, sd_cores = cores_from_count n \<rparr>]"

text \<open>The registered kinds are a parameter; duplicates keep their first occurrence.\<close>

fun dedup_first :: "'a list \<Rightarrow> 'a list \<Rightarrow> 'a list" where
  "dedup_first [] seen = []"
| "dedup_first (x # xs) seen = (if x \<in> set seen then dedup_first xs seen else x # dedup_first xs (x # seen))"

definition from_registered_devices :: "DeviceKind list \<Rightarrow> 8 word \<Rightarrow> Topology sched_result" where
  "from_registered_devices registered hint =
    (let core_count = max hint 1 in
     topology_new Host_mode
       (map (\<lambda>kind. \<lparr> sd_kind = kind, sd_id = 0, sd_cores = cores_from_count core_count \<rparr>)
         (dedup_first registered [])))"

definition single_card_multi_core :: "DeviceKind \<Rightarrow> 16 word \<Rightarrow> 8 word \<Rightarrow> Topology sched_result" where
  "single_card_multi_core kind card_id n =
    topology_new Host_mode [\<lparr> sd_kind = kind, sd_id = card_id, sd_cores = cores_from_count n \<rparr>]"

definition multi_card_multi_core :: "DeviceKind \<Rightarrow> (16 word \<times> 8 word) list \<Rightarrow> Topology sched_result" where
  "multi_card_multi_core kind cards =
    topology_new Host_mode
      (map (\<lambda>(card_id, n). \<lparr> sd_kind = kind, sd_id = card_id, sd_cores = cores_from_count n \<rparr>) cards)"

section \<open>Requests\<close>

datatype SchedulingMode = Auto_mode | Explicit

datatype SchedulingPolicy = LeastLoaded | RoundRobin

record Request =
  rq_kind :: DeviceKind
  rq_device_id :: "16 word option"
  rq_mode :: SchedulingMode
  rq_core_selection :: CoreSelection
  rq_affinity_key :: "string option"
  rq_policy :: SchedulingPolicy
  rq_allowed_placements :: "(16 word \<times> 8 word) list option"

definition request_auto :: "DeviceKind \<Rightarrow> Request" where
  "request_auto kind =
    \<lparr> rq_kind = kind, rq_device_id = None, rq_mode = Auto_mode, rq_core_selection = Auto,
      rq_affinity_key = None, rq_policy = LeastLoaded, rq_allowed_placements = None \<rparr>"

definition request_explicit :: "DeviceKind \<Rightarrow> 16 word \<Rightarrow> CoreSelection \<Rightarrow> Request" where
  "request_explicit kind dev sel =
    \<lparr> rq_kind = kind, rq_device_id = Some dev, rq_mode = Explicit, rq_core_selection = sel,
      rq_affinity_key = None, rq_policy = LeastLoaded, rq_allowed_placements = None \<rparr>"

definition with_affinity_key :: "Request \<Rightarrow> string \<Rightarrow> Request" where
  "with_affinity_key r key = r\<lparr> rq_affinity_key := Some key \<rparr>"

definition with_device_id :: "Request \<Rightarrow> 16 word \<Rightarrow> Request" where
  "with_device_id r dev = r\<lparr> rq_device_id := Some dev \<rparr>"

definition with_core_selection :: "Request \<Rightarrow> CoreSelection \<Rightarrow> Request" where
  "with_core_selection r sel = r\<lparr> rq_core_selection := sel \<rparr>"

definition with_policy :: "Request \<Rightarrow> SchedulingPolicy \<Rightarrow> Request" where
  "with_policy r policy = r\<lparr> rq_policy := policy \<rparr>"

definition with_allowed_placements :: "Request \<Rightarrow> (16 word \<times> 8 word) list \<Rightarrow> Request" where
  "with_allowed_placements r ps = r\<lparr> rq_allowed_placements := Some ps \<rparr>"

section \<open>Affinity tables\<close>

record 'a AffinityEntry =
  ae_value :: 'a
  ae_last_used :: nat

record 'a BoundedAffinityTable =
  at_capacity :: usize
  at_ttl :: nat
  at_entries :: "(string \<times> 'a AffinityEntry) list"
  at_evictions :: "64 word"
  at_expired :: "64 word"

definition affinity_new :: "usize \<Rightarrow> nat \<Rightarrow> 'a BoundedAffinityTable" where
  "affinity_new capacity ttl =
    \<lparr> at_capacity = max capacity 1, at_ttl = ttl, at_entries = [], at_evictions = 0, at_expired = 0 \<rparr>"

text \<open>\<open>HashMap::remove\<close> and \<open>HashMap::insert\<close>.\<close>

definition remove_entry :: "string \<Rightarrow> (string \<times> 'b) list \<Rightarrow> (string \<times> 'b) list" where
  "remove_entry key es = filter (\<lambda>(k, _). k \<noteq> key) es"

fun insert_entry :: "string \<Rightarrow> 'b \<Rightarrow> (string \<times> 'b) list \<Rightarrow> (string \<times> 'b) list" where
  "insert_entry key v [] = [(key, v)]"
| "insert_entry key v ((k, w) # es) = (if k = key then (key, v) # es else (k, w) # insert_entry key v es)"

text \<open>\<open>Instant::duration_since\<close> saturates at zero, as subtraction of natural numbers does.\<close>

definition affinity_get :: "nat \<Rightarrow> string \<Rightarrow> 'a BoundedAffinityTable \<Rightarrow> 'a option \<times> 'a BoundedAffinityTable" where
  "affinity_get now key t =
    (case map_of (at_entries t) key of
       None \<Rightarrow> (None, t)
     | Some e \<Rightarrow>
         if now - ae_last_used e > at_ttl t
         then (None, t\<lparr> at_entries := remove_entry key (at_entries t), at_expired := at_expired t + 1 \<rparr>)
         else (Some (ae_value e),
               t\<lparr> at_entries := insert_entry key (e\<lparr> ae_last_used := now \<rparr>) (at_entries t) \<rparr>))"

text \<open>\<open>Iterator::min_by_key\<close>: the first of the minimal elements.\<close>

fun min_by_key :: "('a \<Rightarrow> 'b::linorder) \<Rightarrow> 'a list \<Rightarrow> 'a option" where
  "min_by_key f [] = None"
| "min_by_key f (x # xs) =
    (case min_by_key f xs of
       None \<Rightarrow> Some x
     | Some y \<Rightarrow> if f y < f x then Some y else Some x)"

definition affinity_insert :: "nat \<Rightarrow> string \<Rightarrow> 'a \<Rightarrow> 'a BoundedAffinityTable \<Rightarrow> 'a BoundedAffinityTable" where
  "affinity_insert now key v t =
    (let t1 =
       (if key \<notin> fst ` set (at_entries t) \<and> length (at_entries t) \<ge> at_capacity t
        then (case min_by_key (\<lambda>(_, e). ae_last_used e) (at_entries t) of
                None \<Rightarrow> t
              | Some (oldest, _) \<Rightarrow>
                  t\<lparr> at_entries := remove_entry oldest (at_entries t), at_evictions := at_evictions t + 1 \<rparr>)
        else t)
     in t1\<lparr> at_entries := insert_entry key \<lparr> ae_value = v, ae_last_used = now \<rparr> (at_entries t1) \<rparr>)"

definition affinity_remove :: "string \<Rightarrow> 'a BoundedAffinityTable \<Rightarrow> 'a BoundedAffinityTable" where
  "affinity_remove key t = t\<lparr> at_entries := remove_entry key (at_entries t) \<rparr>"

record AffinityMetrics =
  am_entries :: usize
  am_evictions :: "64 word"
  am_expired :: "64 word"

definition affinity_table_metrics :: "'a BoundedAffinityTable \<Rightarrow> AffinityMetrics" where
  "affinity_table_metrics t =
    \<lparr> am_entries = length (at_entries t), am_evictions = at_evictions t, am_expired = at_expired t \<rparr>"

section \<open>Scheduler state\<close>

record CoreState =
  cs_id :: "8 word"
  cs_load :: usize
  cs_overflow_count :: "64 word"
  cs_underflow_count :: "64 word"

record DeviceState =
  ds_kind :: DeviceKind
  ds_id :: "16 word"
  ds_cores :: "CoreState list"

record Allocation =
  al_device_index :: usize
  al_core_index :: usize

record SchedulerState =
  ss_devices :: "DeviceState list"
  ss_affinity :: "Allocation BoundedAffinityTable"
  ss_round_robin_cursor :: usize

text \<open>Affinity entries live for 600 seconds; the clock counts seconds.\<close>

definition state_from_topology :: "Topology \<Rightarrow> SchedulerState sched_result" where
  "state_from_topology tp =
    and_then (validate_topology (tp_devices tp)) (\<lambda>_.
      let total_cores = max (sum_list (map (\<lambda>d. length (sd_cores d)) (tp_devices tp))) 1;
          devs = map (\<lambda>d. \<lparr> ds_kind = sd_kind d, ds_id = sd_id d,
                   ds_cores = map (\<lambda>c. \<lparr> cs_id = core_id c, cs_load = 0, cs_overflow_count = 0,
                                         cs_underflow_count = 0 \<rparr>) (sd_cores d) \<rparr>) (tp_devices tp)
      in Inr \<lparr> ss_devices = devs, ss_affinity = affinity_new total_cores 600, ss_round_robin_cursor = 0 \<rparr>)"

text \<open>The core an allocation names, and its update in place.\<close>

definition core_at :: "SchedulerState \<Rightarrow> Allocation \<Rightarrow> CoreState option" where
  "core_at st a =
    (if al_device_index a < length (ss_devices st) \<and>
        al_core_index a < length (ds_cores (ss_devices st ! al_device_index a))
     then Some (ds_cores (ss_devices st ! al_device_index a) ! al_core_index a) else None)"

definition set_core :: "Allocation \<Rightarrow> CoreState \<Rightarrow> SchedulerState \<Rightarrow> SchedulerState" where
  "set_core a c st =
    (let d = ss_devices st ! al_device_index a in
     st\<lparr> ss_devices := (ss_devices st)[al_device_index a := d\<lparr> ds_cores := (ds_cores d)[al_core_index a := c] \<rparr>] \<rparr>)"

text \<open>Indexing out of range panics in the source; allocations only come from \<open>acquire\<close>, which keeps them in range.\<close>

definition increment :: "Allocation \<Rightarrow> SchedulerState \<Rightarrow> unit sched_result \<times> SchedulerState" where
  "increment a st =
    (case core_at st a of
       None \<Rightarrow> (Inl NoAvailableCore, st)
     | Some core \<Rightarrow>
        (case checked_add (cs_load core) 1 of
           Some new_load \<Rightarrow> (Inr (), set_core a (core\<lparr> cs_load := new_load \<rparr>) st)
         | None \<Rightarrow> (Inl LoadOverflow,
                    set_core a (core\<lparr> cs_overflow_count := cs_overflow_count core + 1 \<rparr>) st)))"

definition release :: "Allocation \<Rightarrow> SchedulerState \<Rightarrow> SchedulerState" where
  "release a st =
    (case core_at st a of
       None \<Rightarrow> st
     | Some core \<Rightarrow>
        (case checked_sub (cs_load core) 1 of
           Some new_load \<Rightarrow> set_core a (core\<lparr> cs_load := new_load \<rparr>) st
         | None \<Rightarrow> set_core a (core\<lparr> cs_underflow_count := cs_underflow_count core + 1, cs_load := 0 \<rparr>) st))"

definition allocation_is_valid ::
  "DeviceKind \<Rightarrow> nat list \<Rightarrow> Allocation \<Rightarrow> CoreSelection \<Rightarrow> SchedulerState \<Rightarrow> bool"
where
  "allocation_is_valid kind device_indexes a sel st =
    (if al_device_index a \<ge> length (ss_devices st) then False
     else
       let d = ss_devices st ! al_device_index a in
       if ds_kind d \<noteq> kind \<or> al_device_index a \<notin> set device_indexes then False
       else if al_core_index a \<ge> length (ds_cores d) then False
       else contains sel (cs_id (ds_cores d ! al_core_index a)))"

definition device_indexes :: "Request \<Rightarrow> SchedulerState \<Rightarrow> nat list" where
  "device_indexes rq st =
    map fst (filter (\<lambda>(_, d). rq_device_id rq = None \<or> rq_device_id rq = Some (ds_id d))
      (filter (\<lambda>(_, d). ds_kind d = rq_kind rq) (enumerate 0 (ss_devices st))))"

record candidate =
  cd_device_index :: nat
  cd_core_index :: nat
  cd_load :: usize
  cd_device_id :: "16 word"
  cd_core_id :: "8 word"

definition core_admitted :: "Request \<Rightarrow> 16 word \<Rightarrow> 8 word \<Rightarrow> bool" where
  "core_admitted rq dev core \<longleftrightarrow>
    contains (rq_core_selection rq) core \<and>
    (case rq_allowed_placements rq of None \<Rightarrow> True | Some ps \<Rightarrow> (dev, core) \<in> set ps) \<and>
    (is_explicit (rq_core_selection rq) \<or> rq_mode rq = Auto_mode \<or> contains (rq_core_selection rq) core)"

definition device_candidates :: "Request \<Rightarrow> SchedulerState \<Rightarrow> nat \<Rightarrow> candidate list" where
  "device_candidates rq st i =
    (let d = ss_devices st ! i in
     map (\<lambda>(j, c). \<lparr> cd_device_index = i, cd_core_index = j, cd_load = cs_load c,
                     cd_device_id = ds_id d, cd_core_id = cs_id c \<rparr>)
       (filter (\<lambda>(_, c). core_admitted rq (ds_id d) (cs_id c)) (enumerate 0 (ds_cores d))))"

definition candidates :: "Request \<Rightarrow> SchedulerState \<Rightarrow> candidate list" where
  "candidates rq st = concat (map (device_candidates rq st) (device_indexes rq st))"

definition no_candidate_error :: "CoreSelection \<Rightarrow> sched_error" where
  "no_candidate_error sel =
    (case sel of
       Mask m \<Rightarrow> InvalidCoreMask m
     | Single c \<Rightarrow> MissingCore (case checked_shl_one (unat c) of None \<Rightarrow> 0 | Some m \<Rightarrow> m) c
     | _ \<Rightarrow> NoAvailableCore)"

definition candidate_key :: "candidate \<Rightarrow> nat \<times> nat \<times> nat" where
  "candidate_key c = (cd_load c, unat (cd_device_id c), unat (cd_core_id c))"

definition allocation_of :: "candidate \<Rightarrow> Allocation" where
  "allocation_of c = \<lparr> al_device_index = cd_device_index c, al_core_index = cd_core_index c \<rparr>"

text \<open>The choice among the candidates, with the advanced round-robin cursor.\<close>

definition uses_round_robin :: "Request \<Rightarrow> bool" where
  "uses_round_robin rq \<longleftrightarrow>
    rq_mode rq = Auto_mode \<and> \<not> is_explicit (rq_core_selection rq) \<and> rq_policy rq = RoundRobin"

definition select_candidate :: "Request \<Rightarrow> candidate list \<Rightarrow> SchedulerState \<Rightarrow> candidate sched_result \<times> SchedulerState" where
  "select_candidate rq cs st =
    (if uses_round_robin rq
     then (Inr (cs ! (ss_round_robin_cursor st mod length cs)),
           st\<lparr> ss_round_robin_cursor := wrapping_add (ss_round_robin_cursor st) 1 \<rparr>)
     else (ok_or (min_by_key candidate_key cs) NoAvailableCore, st))"

text \<open>The part of \<open>acquire\<close> after the affinity lookup.\<close>

definition acquire_fresh :: "nat \<Rightarrow> Request \<Rightarrow> SchedulerState \<Rightarrow> Allocation sched_result \<times> SchedulerState" where
  "acquire_fresh t_insert rq st =
    (let cs = candidates rq st in
     if cs = [] then (Inl (no_candidate_error (rq_core_selection rq)), st)
     else
       (case select_candidate rq cs st of
          (Inl e, st1) \<Rightarrow> (Inl e, st1)
        | (Inr c, st1) \<Rightarrow>
           let a = allocation_of c in
           (case increment a st1 of
              (Inl e, st2) \<Rightarrow> (Inl e, st2)
            | (Inr _, st2) \<Rightarrow>
               (Inr a, case rq_affinity_key rq of
                  None \<Rightarrow> st2
                | Some key \<Rightarrow> st2\<lparr> ss_affinity := affinity_insert t_insert key a (ss_affinity st2) \<rparr>))))"

text \<open>The affinity lookup: the entry found, if any, and the table with the lookup recorded.\<close>

definition affinity_lookup :: "nat \<Rightarrow> Request \<Rightarrow> SchedulerState \<Rightarrow> Allocation option \<times> SchedulerState" where
  "affinity_lookup t_get rq st =
    (if rq_mode rq = Auto_mode
     then (case rq_affinity_key rq of
             None \<Rightarrow> (None, st)
           | Some key \<Rightarrow>
              let (found, table) = affinity_get t_get key (ss_affinity st)
              in (found, st\<lparr> ss_affinity := table \<rparr>))
     else (None, st))"

definition acquire ::
  "nat \<Rightarrow> nat \<Rightarrow> Request \<Rightarrow> SchedulerState \<Rightarrow> Allocation sched_result \<times> SchedulerState"
where
  "acquire t_get t_insert rq st =
    (let idx = device_indexes rq st in
     if idx = []
     then (Inl (case rq_device_id rq of Some dev \<Rightarrow> UnknownDevice (rq_kind rq) dev
                                      | None \<Rightarrow> NoMatchingDevice (rq_kind rq)), st)
     else
       (case affinity_lookup t_get rq st of
          (Some a, st1) \<Rightarrow>
            if allocation_is_valid (rq_kind rq) idx a (rq_core_selection rq) st1
            then (case increment a st1 of
                    (Inl e, st2) \<Rightarrow> (Inl e, st2)
                  | (Inr _, st2) \<Rightarrow> (Inr a, st2))
            else acquire_fresh t_insert rq st1
        | (None, st1) \<Rightarrow> acquire_fresh t_insert rq st1))"

text \<open>Snapshots.\<close>

definition snapshot :: "SchedulerState \<Rightarrow> (DeviceKind \<times> 16 word \<times> (8 word \<times> usize \<times> 64 word \<times> 64 word) list) list" where
  "snapshot st =
    map (\<lambda>d. (ds_kind d, ds_id d,
      map (\<lambda>c. (cs_id c, cs_load c, cs_overflow_count c, cs_underflow_count c)) (ds_cores d))) (ss_devices st)"

section \<open>Topology validation\<close>

definition cores_wf :: "Core list \<Rightarrow> bool" where
  "cores_wf cs \<longleftrightarrow> cs \<noteq> [] \<and> distinct (map core_id cs) \<and> list_all (\<lambda>c. core_id c < 32) cs"

definition topology_wf :: "sched_device list \<Rightarrow> bool" where
  "topology_wf ds \<longleftrightarrow> ds \<noteq> [] \<and> distinct (map (\<lambda>d. (sd_kind d, sd_id d)) ds) \<and>
    list_all (\<lambda>d. cores_wf (sd_cores d)) ds"

lemma validate_cores_ok:
  "validate_cores k i cs seen = Inr () \<longleftrightarrow>
    distinct (map core_id cs) \<and> core_id ` set cs \<inter> set seen = {} \<and> list_all (\<lambda>c. core_id c < 32) cs"
  by (induction cs arbitrary: seen) (auto simp: not_le)

lemma validate_devices_ok:
  "validate_devices ds seen = Inr () \<longleftrightarrow>
    distinct (map (\<lambda>d. (sd_kind d, sd_id d)) ds) \<and>
    (\<lambda>d. (sd_kind d, sd_id d)) ` set ds \<inter> set seen = {} \<and> list_all (\<lambda>d. cores_wf (sd_cores d)) ds"
  by (induction ds arbitrary: seen)
     (simp_all add: result_simps validate_cores_ok cores_wf_def, blast)

section \<open>Load accounting\<close>

definition load_of :: "SchedulerState \<Rightarrow> Allocation \<Rightarrow> nat" where
  "load_of st a = (case core_at st a of None \<Rightarrow> 0 | Some c \<Rightarrow> cs_load c)"

text \<open>What never changes: kinds, ids and the number of cores.\<close>

definition layout :: "SchedulerState \<Rightarrow> (DeviceKind \<times> 16 word \<times> 8 word list) list" where
  "layout st = map (\<lambda>d. (ds_kind d, ds_id d, map cs_id (ds_cores d))) (ss_devices st)"

lemma layout_core_at:
  assumes "layout st' = layout st"
  shows "core_at st' a = None \<longleftrightarrow> core_at st a = None"
proof -
  have len: "length (ss_devices st') = length (ss_devices st)" using assms map_eq_imp_length_eq by (fastforce simp: layout_def)
  have "length (ds_cores (ss_devices st' ! i)) = length (ds_cores (ss_devices st ! i))" if "i < length (ss_devices st)" for i
  proof -
    have "layout st' ! i = layout st ! i" using assms by simp
    then have "map cs_id (ds_cores (ss_devices st' ! i)) = map cs_id (ds_cores (ss_devices st ! i))"
      using that len by (simp add: layout_def)
    then show ?thesis by (rule map_eq_imp_length_eq)
  qed
  then show ?thesis using len by (auto simp: core_at_def)
qed

lemma set_core_layout:
  assumes "core_at st a = Some c" and "cs_id c' = cs_id c"
  shows "layout (set_core a c' st) = layout st"
proof -
  let ?i = "al_device_index a" and ?j = "al_core_index a"
  let ?d = "ss_devices st ! ?i"
  have i: "?i < length (ss_devices st)" "?j < length (ds_cores ?d)" "c = ds_cores ?d ! ?j"
    using assms(1) by (auto simp: core_at_def split: if_splits)
  have "map cs_id ((ds_cores ?d)[?j := c']) = map cs_id (ds_cores ?d)"
    using i assms(2) by (metis list_update_id map_update)
  then show ?thesis
    using i(1) by (simp add: layout_def set_core_def Let_def map_update list_update_same_conv)
qed

lemma core_at_set_core:
  assumes "core_at st a = Some c"
  shows "core_at (set_core a c' st) b = (if b = a then Some c' else core_at st b)"
proof -
  let ?i = "al_device_index a" and ?j = "al_core_index a"
  have i: "?i < length (ss_devices st)" "?j < length (ds_cores (ss_devices st ! ?i))"
    using assms by (auto simp: core_at_def split: if_splits)
  have eq: "b = a \<longleftrightarrow> al_device_index b = ?i \<and> al_core_index b = ?j"
    by (auto intro: Allocation.equality)
  show ?thesis
  proof (cases "al_device_index b = ?i")
    case True
    then show ?thesis using i by (simp add: core_at_def set_core_def Let_def eq nth_list_update)
  next
    case False
    then show ?thesis by (simp add: core_at_def set_core_def Let_def eq)
  qed
qed

lemma set_core_other [simp]:
  "ss_affinity (set_core a c st) = ss_affinity st"
  "ss_round_robin_cursor (set_core a c st) = ss_round_robin_cursor st"
  by (simp_all add: set_core_def Let_def)

lemma increment_ok:
  assumes "increment a st = (Inr u, st')"
  shows "load_of st' = (load_of st)(a := load_of st a + 1) \<and> layout st' = layout st \<and> core_at st a \<noteq> None \<and>
    ss_affinity st' = ss_affinity st \<and> ss_round_robin_cursor st' = ss_round_robin_cursor st"
proof -
  obtain c where c: "core_at st a = Some c" and st': "st' = set_core a (c\<lparr> cs_load := cs_load c + 1 \<rparr>) st"
    using assms by (auto simp: increment_def split: option.splits)
  show ?thesis
    using c set_core_layout [OF c, of "c\<lparr> cs_load := cs_load c + 1 \<rparr>"]
    by (auto simp: st' load_of_def core_at_set_core [OF c])
qed

lemma increment_err:
  assumes "increment a st = (Inl e, st')"
  shows "load_of st' = load_of st \<and> layout st' = layout st \<and> ss_affinity st' = ss_affinity st"
proof (cases "core_at st a")
  case None
  then show ?thesis using assms by (auto simp: increment_def)
next
  case (Some c)
  then have "st' = set_core a (c\<lparr> cs_overflow_count := cs_overflow_count c + 1 \<rparr>) st"
    using assms by (auto simp: increment_def split: option.splits)
  then show ?thesis
    using Some set_core_layout [OF Some, of "c\<lparr> cs_overflow_count := cs_overflow_count c + 1 \<rparr>"]
    by (auto simp: load_of_def core_at_set_core [OF Some])
qed

lemma release_ok:
  assumes "0 < load_of st a"
  shows "load_of (release a st) = (load_of st)(a := load_of st a - 1) \<and> layout (release a st) = layout st"
proof -
  obtain c where c: "core_at st a = Some c" "0 < cs_load c"
    using assms by (auto simp: load_of_def split: option.splits)
  then have r: "release a st = set_core a (c\<lparr> cs_load := cs_load c - 1 \<rparr>) st"
    by (auto simp: release_def checked_sub_def)
  show ?thesis
    using c set_core_layout [OF c(1), of "c\<lparr> cs_load := cs_load c - 1 \<rparr>"]
    by (auto simp: r load_of_def core_at_set_core [OF c(1)])
qed

text \<open>The lookup in the affinity table and the choice of a candidate leave the devices alone.\<close>

lemma affinity_lookup_devices:
  "affinity_lookup t rq st = (found, st') \<Longrightarrow> ss_devices st' = ss_devices st"
  by (auto simp: affinity_lookup_def split: if_splits option.splits prod.splits)

lemma select_candidate_devices:
  "select_candidate rq cs st = (r, st') \<Longrightarrow> ss_devices st' = ss_devices st \<and> ss_affinity st' = ss_affinity st"
  by (auto simp: select_candidate_def split: if_splits)

lemma devices_cong:
  assumes "ss_devices st' = ss_devices st"
  shows "core_at st' = core_at st" and "load_of st' = load_of st" and "layout st' = layout st"
    and "device_indexes rq st' = device_indexes rq st" and "candidates rq st' = candidates rq st"
    and "allocation_is_valid k is a sel st' = allocation_is_valid k is a sel st"
proof -
  show core: "core_at st' = core_at st" using assms by (simp add: core_at_def fun_eq_iff)
  show "load_of st' = load_of st" using core by (simp add: load_of_def fun_eq_iff)
  show "layout st' = layout st" using assms by (simp add: layout_def)
  show idx: "device_indexes rq st' = device_indexes rq st" using assms by (simp add: device_indexes_def)
  have "device_candidates rq st' = device_candidates rq st" using assms by (simp add: device_candidates_def fun_eq_iff)
  then show "candidates rq st' = candidates rq st" using idx by (simp only: candidates_def)
  show "allocation_is_valid k is a sel st' = allocation_is_valid k is a sel st"
    using assms by (simp add: allocation_is_valid_def)
qed

lemma acquire_fresh_effect:
  assumes "acquire_fresh t rq st = (r, st')"
  shows "layout st' = layout st \<and>
    (case r of Inl e \<Rightarrow> load_of st' = load_of st | Inr a \<Rightarrow> load_of st' = (load_of st)(a := load_of st a + 1))"
proof (cases "candidates rq st = []")
  case True
  then show ?thesis using assms by (auto simp: acquire_fresh_def)
next
  case False
  obtain rc st1 where sel: "select_candidate rq (candidates rq st) st = (rc, st1)" by fastforce
  note D = devices_cong [OF conjunct1 [OF select_candidate_devices [OF sel]]]
  show ?thesis
  proof (cases rc)
    case (Inl e)
    then show ?thesis using assms False sel D by (auto simp: acquire_fresh_def)
  next
    case (Inr c)
    obtain ri st2 where inc: "increment (allocation_of c) st1 = (ri, st2)" by fastforce
    show ?thesis
    proof (cases ri)
      case (Inl e)
      then have "r = Inl e" "st' = st2"
        using assms False sel \<open>rc = Inr c\<close> inc by (auto simp: acquire_fresh_def Let_def)
      then show ?thesis using increment_err [OF inc [unfolded Inl]] D by simp
    next
      case (Inr u)
      have r: "r = Inr (allocation_of c)" "ss_devices st' = ss_devices st2"
        using assms False sel \<open>rc = Inr c\<close> inc Inr by (auto simp: acquire_fresh_def Let_def split: option.splits)
      show ?thesis
        using increment_ok [OF inc [unfolded Inr]] D devices_cong(2,3) [OF r(2)] r(1) by simp
    qed
  qed
qed

lemma acquire_effect:
  assumes "acquire t1 t2 rq st = (r, st')"
  shows "layout st' = layout st \<and>
    (case r of Inl e \<Rightarrow> load_of st' = load_of st | Inr a \<Rightarrow> load_of st' = (load_of st)(a := load_of st a + 1))"
proof (cases "device_indexes rq st = []")
  case True
  then show ?thesis using assms by (auto simp: acquire_def)
next
  case False
  obtain found st1 where lk: "affinity_lookup t1 rq st = (found, st1)" by fastforce
  note D = devices_cong [OF affinity_lookup_devices [OF lk]]
  show ?thesis
  proof (cases "\<exists>a. found = Some a \<and> allocation_is_valid (rq_kind rq) (device_indexes rq st) a (rq_core_selection rq) st1")
    case True
    then obtain a where a: "found = Some a"
      "allocation_is_valid (rq_kind rq) (device_indexes rq st) a (rq_core_selection rq) st1" by blast
    obtain ri st2 where inc: "increment a st1 = (ri, st2)" by fastforce
    show ?thesis
    proof (cases ri)
      case (Inl e)
      then have "r = Inl e" "st' = st2" using assms False lk a inc by (auto simp: acquire_def Let_def)
      then show ?thesis using increment_err [OF inc [unfolded Inl]] D by simp
    next
      case (Inr u)
      then have "r = Inr a" "st' = st2" using assms False lk a inc by (auto simp: acquire_def Let_def)
      then show ?thesis using increment_ok [OF inc [unfolded Inr]] D by simp
    qed
  next
    case nv: False
    then have "acquire_fresh t2 rq st1 = (r, st')"
      using assms False lk by (cases found) (auto simp: acquire_def Let_def)
    from acquire_fresh_effect [OF this] show ?thesis unfolding D(2) D(3) .
  qed
qed

section \<open>The lease contract\<close>

text \<open>
  What holders of leases rely on: granting a lease adds one to the load of what it
  names and nothing else, a refusal changes no load, and giving back a lease that
  is counted takes the one off again.
\<close>

locale lease_service =
  fixes grant :: "'q \<Rightarrow> 's \<Rightarrow> ('e + 'a) \<times> 's"
    and give_back :: "'a \<Rightarrow> 's \<Rightarrow> 's"
    and held :: "'s \<Rightarrow> 'a \<Rightarrow> nat"
  assumes grant_ok: "grant q s = (Inr a, s') \<Longrightarrow> held s' = (held s)(a := held s a + 1)"
    and grant_err: "grant q s = (Inl e, s') \<Longrightarrow> held s' = held s"
    and give_back_held: "0 < held s a \<Longrightarrow> held (give_back a s) = (held s)(a := held s a - 1)"
begin

text \<open>Clients acquire leases and drop the ones they have, in any order.\<close>

fun lease_step :: "'q + nat \<Rightarrow> 's \<times> 'a list \<Rightarrow> 's \<times> 'a list" where
  "lease_step (Inl q) (s, ls) =
    (case grant q s of (Inl e, s') \<Rightarrow> (s', ls) | (Inr a, s') \<Rightarrow> (s', a # ls))"
| "lease_step (Inr i) (s, ls) =
    (if i < length ls then (give_back (ls ! i) s, take i ls @ drop (Suc i) ls) else (s, ls))"

lemma lease_step_counts:
  assumes "\<forall>a. held s a = count_list ls a" and "lease_step c (s, ls) = (s', ls')"
  shows "\<forall>a. held s' a = count_list ls' a"
proof (cases c)
  case (Inl q)
  then show ?thesis
    using assms grant_ok [of q s] grant_err [of q s] by (auto split: prod.splits sum.splits)
next
  case (Inr i)
  show ?thesis
  proof (cases "i < length ls")
    case True
    let ?a = "ls ! i"
    have split: "ls = take i ls @ ?a # drop (Suc i) ls" by (rule id_take_nth_drop [OF True])
    have eq: "count_list ls a = count_list (take i ls @ drop (Suc i) ls) a + (if a = ?a then 1 else 0)" for a
      by (subst split) simp
    then have "0 < held s ?a" using assms(1) by simp
    from give_back_held [OF this] show ?thesis using assms Inr True eq by auto
  qed (use assms Inr in simp)
qed

lemma lease_run_counts:
  "(\<forall>a. held s a = count_list ls a) \<Longrightarrow> fold lease_step cs (s, ls) = (s', ls') \<Longrightarrow>
    (\<forall>a. held s' a = count_list ls' a)"
proof (induction cs arbitrary: s ls)
  case (Cons c cs)
  obtain s1 ls1 where step: "lease_step c (s, ls) = (s1, ls1)" by fastforce
  from Cons.IH [OF lease_step_counts [OF Cons.prems(1) step]] Cons.prems(2) step show ?case by simp
qed simp

end

text \<open>The scheduler keeps the contract; a request comes with its two clock readings.\<close>

interpretation leases: lease_service "\<lambda>(t1, t2, rq) st. acquire t1 t2 rq st" release load_of
proof (unfold_locales, goal_cases)
  case (1 q s a s')
  then show ?case using acquire_effect [of "fst q" "fst (snd q)" "snd (snd q)" s "Inr a" s'] by (auto split: prod.splits)
next
  case (2 q s e s')
  then show ?case using acquire_effect [of "fst q" "fst (snd q)" "snd (snd q)" s "Inl e" s'] by (auto split: prod.splits)
next
  case (3 s a)
  then show ?case using release_ok by blast
qed

section \<open>Candidates and choice\<close>

text \<open>The placements a request may get, and their rank: load first, then device, then core.\<close>

definition admissible :: "Request \<Rightarrow> SchedulerState \<Rightarrow> Allocation \<Rightarrow> bool" where
  "admissible rq st a \<longleftrightarrow>
    (case core_at st a of
       None \<Rightarrow> False
     | Some core \<Rightarrow>
         let d = ss_devices st ! al_device_index a in
         ds_kind d = rq_kind rq \<and> (rq_device_id rq = None \<or> rq_device_id rq = Some (ds_id d)) \<and>
         core_admitted rq (ds_id d) (cs_id core))"

definition rank :: "SchedulerState \<Rightarrow> Allocation \<Rightarrow> nat \<times> nat \<times> nat" where
  "rank st a =
    (load_of st a, unat (ds_id (ss_devices st ! al_device_index a)),
     case core_at st a of None \<Rightarrow> 0 | Some core \<Rightarrow> unat (cs_id core))"

lemma device_indexes_iff:
  "i \<in> set (device_indexes rq st) \<longleftrightarrow>
    i < length (ss_devices st) \<and> ds_kind (ss_devices st ! i) = rq_kind rq \<and>
    (rq_device_id rq = None \<or> rq_device_id rq = Some (ds_id (ss_devices st ! i)))"
  by (force simp: device_indexes_def in_set_enumerate_eq image_iff)

lemma candidates_iff:
  "c \<in> set (candidates rq st) \<longleftrightarrow>
    admissible rq st (allocation_of c) \<and>
    c = \<lparr> cd_device_index = cd_device_index c, cd_core_index = cd_core_index c,
          cd_load = load_of st (allocation_of c), cd_device_id = ds_id (ss_devices st ! cd_device_index c),
          cd_core_id = cs_id (ds_cores (ss_devices st ! cd_device_index c) ! cd_core_index c) \<rparr>"
proof -
  have "c \<in> set (device_candidates rq st i) \<longleftrightarrow>
      cd_device_index c = i \<and> cd_core_index c < length (ds_cores (ss_devices st ! i)) \<and>
      (let core = ds_cores (ss_devices st ! i) ! cd_core_index c in
       core_admitted rq (ds_id (ss_devices st ! i)) (cs_id core) \<and>
       cd_load c = cs_load core \<and> cd_device_id c = ds_id (ss_devices st ! i) \<and> cd_core_id c = cs_id core)" for i
    by (cases c) (force simp: device_candidates_def Let_def in_set_enumerate_eq image_iff)
  then show ?thesis
    by (cases c)
       (auto simp: candidates_def device_indexes_iff admissible_def allocation_of_def core_at_def load_of_def Let_def)
qed

lemma candidates_allocation:
  "admissible rq st a \<longleftrightarrow> (\<exists>c \<in> set (candidates rq st). allocation_of c = a)"
proof
  assume adm: "admissible rq st a"
  let ?c = "\<lparr> cd_device_index = al_device_index a, cd_core_index = al_core_index a,
          cd_load = load_of st a, cd_device_id = ds_id (ss_devices st ! al_device_index a),
          cd_core_id = cs_id (ds_cores (ss_devices st ! al_device_index a) ! al_core_index a) \<rparr>"
  have "allocation_of ?c = a" by (simp add: allocation_of_def)
  then show "\<exists>c \<in> set (candidates rq st). allocation_of c = a"
    using adm by (intro bexI [of _ ?c]) (simp_all add: candidates_iff)
qed (auto simp: candidates_iff)

lemma candidate_key_rank:
  assumes "c \<in> set (candidates rq st)"
  shows "candidate_key c = rank st (allocation_of c)"
proof -
  have "cd_load c = load_of st (allocation_of c)" "cd_device_id c = ds_id (ss_devices st ! cd_device_index c)"
    "cd_core_id c = cs_id (ds_cores (ss_devices st ! cd_device_index c) ! cd_core_index c)"
    using assms unfolding candidates_iff by (metis candidate.select_convs)+
  moreover have "core_at st (allocation_of c) \<noteq> None"
    using assms by (auto simp: candidates_iff admissible_def split: option.splits)
  ultimately show ?thesis
    by (auto simp: candidate_key_def rank_def allocation_of_def core_at_def split: if_splits)
qed

lemma min_by_key_None: "min_by_key f xs = None \<longleftrightarrow> xs = []"
  by (cases xs) (auto split: option.splits)

lemma min_by_key_Some:
  "min_by_key f xs = Some x \<Longrightarrow> x \<in> set xs \<and> (\<forall>y \<in> set xs. f x \<le> f y)"
proof (induction xs arbitrary: x)
  case (Cons a xs)
  show ?case
  proof (cases "min_by_key f xs")
    case None
    then show ?thesis using Cons.prems by (simp add: min_by_key_None)
  next
    case (Some y)
    have y: "y \<in> set xs" "\<And>z. z \<in> set xs \<Longrightarrow> f y \<le> f z" using Cons.IH [OF Some] by blast+
    show ?thesis
    proof (cases "f y < f a")
      case True
      then show ?thesis using Cons.prems Some y by simp
    next
      case False
      then have "x = a" "f a \<le> f y" using Cons.prems Some by simp_all
      then show ?thesis using y(2) order_trans [of "f a" "f y"] by simp
    qed
  qed
qed simp

lemma select_candidate_ok:
  assumes "cs \<noteq> []"
  shows "\<exists>c st'. select_candidate rq cs st = (Inr c, st') \<and> c \<in> set cs \<and>
    (if uses_round_robin rq then c = cs ! (ss_round_robin_cursor st mod length cs)
     else \<forall>c' \<in> set cs. candidate_key c \<le> candidate_key c')"
proof (cases "uses_round_robin rq")
  case True
  then show ?thesis using assms by (simp add: select_candidate_def)
next
  case False
  obtain c where "min_by_key candidate_key cs = Some c"
    using assms by (cases "min_by_key candidate_key cs") (auto simp: min_by_key_None)
  with False show ?thesis using min_by_key_Some [of candidate_key cs c] by (simp add: select_candidate_def)
qed

lemma acquire_fresh_choice:
  assumes "acquire_fresh t rq st = (Inr a, st')"
  shows "\<exists>c \<in> set (candidates rq st). a = allocation_of c \<and>
    (if uses_round_robin rq then c = candidates rq st ! (ss_round_robin_cursor st mod length (candidates rq st))
     else \<forall>c' \<in> set (candidates rq st). candidate_key c \<le> candidate_key c')"
proof -
  have ne: "candidates rq st \<noteq> []" using assms by (auto simp: acquire_fresh_def)
  obtain c st1 where c: "select_candidate rq (candidates rq st) st = (Inr c, st1)" "c \<in> set (candidates rq st)"
    "if uses_round_robin rq then c = candidates rq st ! (ss_round_robin_cursor st mod length (candidates rq st))
     else \<forall>c' \<in> set (candidates rq st). candidate_key c \<le> candidate_key c'"
    using select_candidate_ok [OF ne] by blast
  then have "a = allocation_of c"
    using assms ne by (auto simp: acquire_fresh_def Let_def split: prod.splits sum.splits)
  with c show ?thesis by blast
qed

lemma acquire_no_affinity:
  assumes "rq_affinity_key rq = None" and "device_indexes rq st \<noteq> []"
  shows "acquire t1 t2 rq st = acquire_fresh t2 rq st"
  using assms by (simp add: acquire_def affinity_lookup_def Let_def)

lemma admissible_device_indexes: "admissible rq st a \<Longrightarrow> al_device_index a \<in> set (device_indexes rq st)"
  by (auto simp: admissible_def device_indexes_iff core_at_def Let_def split: if_splits)

section \<open>Affinity tables: lemmas\<close>

definition table_ok :: "'a BoundedAffinityTable \<Rightarrow> bool" where
  "table_ok t \<longleftrightarrow> 0 < at_capacity t \<and> distinct (map fst (at_entries t)) \<and> length (at_entries t) \<le> at_capacity t"

lemma map_of_insert_entry: "map_of (insert_entry k v es) = (map_of es)(k \<mapsto> v)"
  by (induction k v es rule: insert_entry.induct) auto

lemma insert_entry_keys:
  "map fst (insert_entry k v es) = (if k \<in> fst ` set es then map fst es else map fst es @ [k])"
  by (induction k v es rule: insert_entry.induct) auto

lemma length_insert_entry:
  "length (insert_entry k v es) = (if k \<in> fst ` set es then length es else length es + 1)"
  using arg_cong [OF insert_entry_keys [of k v es], where f = length] by simp

lemma distinct_insert_entry: "distinct (map fst es) \<Longrightarrow> distinct (map fst (insert_entry k v es))"
  by (simp add: insert_entry_keys)

lemma distinct_remove_entry: "distinct (map fst es) \<Longrightarrow> distinct (map fst (remove_entry k es))"
  by (simp add: remove_entry_def distinct_map_filter)

lemma length_remove_entry:
  assumes "k \<in> fst ` set es"
  shows "length (remove_entry k es) < length es"
proof -
  have "k \<notin> fst ` set (remove_entry k es)" by (auto simp: remove_entry_def)
  then have "remove_entry k es \<noteq> es" using assms by metis
  then show ?thesis by (metis length_filter_less filter_True remove_entry_def)
qed

lemma table_ok_new: "table_ok (affinity_new c ttl)"
  by (simp add: table_ok_def affinity_new_def)

lemma length_remove_entry_le: "length (remove_entry k es) \<le> length es"
  by (simp add: remove_entry_def)

lemma table_ok_get:
  assumes "table_ok t" and "affinity_get now k t = (r, t')"
  shows "table_ok t' \<and> at_ttl t' = at_ttl t \<and> at_capacity t' = at_capacity t"
proof (cases "map_of (at_entries t) k")
  case None
  then show ?thesis using assms by (auto simp: affinity_get_def)
next
  case (Some e)
  have "k \<in> fst ` set (at_entries t)" using map_of_SomeD [OF Some] by (rule rev_image_eqI) simp
  then have len: "length (insert_entry k v (at_entries t)) = length (at_entries t)" for v
    by (simp only: length_insert_entry if_True)
  show ?thesis
  proof (cases "now - ae_last_used e > at_ttl t")
    case True
    then show ?thesis
      using assms Some le_trans [OF length_remove_entry_le [of k "at_entries t"]]
      by (auto simp: affinity_get_def table_ok_def distinct_remove_entry)
  next
    case False
    then show ?thesis using assms Some len by (auto simp: affinity_get_def table_ok_def distinct_insert_entry)
  qed
qed

text \<open>A new key in a full table replaces an entry that was used least recently.\<close>

lemma affinity_insert_full:
  assumes "table_ok t" and "k \<notin> fst ` set (at_entries t)" and "length (at_entries t) = at_capacity t"
  shows "\<exists>o_key o_entry. (o_key, o_entry) \<in> set (at_entries t) \<and>
    (\<forall>(k', e) \<in> set (at_entries t). ae_last_used o_entry \<le> ae_last_used e) \<and>
    at_entries (affinity_insert now k v t) =
      insert_entry k \<lparr> ae_value = v, ae_last_used = now \<rparr> (remove_entry o_key (at_entries t))"
proof -
  have "at_entries t \<noteq> []" using assms(1,3) by (auto simp: table_ok_def)
  then obtain p where p: "min_by_key (\<lambda>(_, e). ae_last_used e) (at_entries t) = Some p"
    by (cases "min_by_key (\<lambda>(_, e). ae_last_used e) (at_entries t)") (auto simp: min_by_key_None)
  obtain ok oe where oke: "p = (ok, oe)" by fastforce
  from min_by_key_Some [OF p] oke have "(ok, oe) \<in> set (at_entries t)"
    "\<forall>(k', e) \<in> set (at_entries t). ae_last_used oe \<le> ae_last_used e" by auto
  moreover have "at_entries (affinity_insert now k v t) =
      insert_entry k \<lparr> ae_value = v, ae_last_used = now \<rparr> (remove_entry ok (at_entries t))"
    using assms(2,3) p oke by (simp add: affinity_insert_def)
  ultimately show ?thesis by blast
qed

lemma affinity_insert_room:
  "k \<in> fst ` set (at_entries t) \<or> length (at_entries t) < at_capacity t \<Longrightarrow>
    at_entries (affinity_insert now k v t) = insert_entry k \<lparr> ae_value = v, ae_last_used = now \<rparr> (at_entries t)"
  by (auto simp: affinity_insert_def)

lemma affinity_insert_params:
  "at_capacity (affinity_insert now k v t) = at_capacity t" "at_ttl (affinity_insert now k v t) = at_ttl t"
  by (auto simp: affinity_insert_def Let_def split: option.splits)

lemma table_ok_insert:
  assumes "table_ok t"
  shows "table_ok (affinity_insert now k v t)"
proof (cases "k \<in> fst ` set (at_entries t) \<or> length (at_entries t) < at_capacity t")
  case True
  then show ?thesis
    using assms affinity_insert_room [OF True, of now v]
    by (auto simp: table_ok_def affinity_insert_params distinct_insert_entry length_insert_entry)
next
  case False
  then have full: "k \<notin> fst ` set (at_entries t)" "length (at_entries t) = at_capacity t"
    using assms by (auto simp: table_ok_def)
  from affinity_insert_full [OF assms full, of now v] obtain ok oe where
    mem: "(ok, oe) \<in> set (at_entries t)" and es: "at_entries (affinity_insert now k v t) =
      insert_entry k \<lparr> ae_value = v, ae_last_used = now \<rparr> (remove_entry ok (at_entries t))" by blast
  have "length (remove_entry ok (at_entries t)) < length (at_entries t)"
    using mem by (intro length_remove_entry) (auto intro: rev_image_eqI)
  then show ?thesis
    using assms full unfolding table_ok_def affinity_insert_params es
    by (auto simp: distinct_insert_entry distinct_remove_entry length_insert_entry)
qed

lemma affinity_insert_lookup: "map_of (at_entries (affinity_insert now k v t)) k = Some \<lparr> ae_value = v, ae_last_used = now \<rparr>"
  by (simp add: affinity_insert_def Let_def map_of_insert_entry)

subsection \<open>The scheduler's table\<close>

lemma increment_affinity: "increment a st = (r, st') \<Longrightarrow> ss_affinity st' = ss_affinity st"
  using increment_ok [of a st _ st'] increment_err [of a st _ st'] by (cases r) auto

lemma acquire_fresh_cases:
  assumes "acquire_fresh t rq st = (r, st')"
  obtains (none) "candidates rq st = []" "st' = st" "\<exists>e. r = Inl e"
  | (chosen) c st1 ri st2 where "candidates rq st \<noteq> []"
      "select_candidate rq (candidates rq st) st = (Inr c, st1)"
      "increment (allocation_of c) st1 = (ri, st2)" "r = map_sum id (\<lambda>_. allocation_of c) ri"
      "st' = (case ri of Inl e \<Rightarrow> st2 | Inr _ \<Rightarrow>
         (case rq_affinity_key rq of None \<Rightarrow> st2
          | Some key \<Rightarrow> st2\<lparr> ss_affinity := affinity_insert t key (allocation_of c) (ss_affinity st2) \<rparr>))"
proof (cases "candidates rq st = []")
  case True
  show ?thesis by (rule none) (use assms True in \<open>auto simp: acquire_fresh_def\<close>)
next
  case False
  obtain c st1 where sel: "select_candidate rq (candidates rq st) st = (Inr c, st1)"
    using select_candidate_ok [OF False] by blast
  obtain ri st2 where inc: "increment (allocation_of c) st1 = (ri, st2)" by fastforce
  show ?thesis
    by (rule chosen [OF False sel inc]; use assms False sel inc in \<open>cases ri\<close>)
       (simp_all add: acquire_fresh_def Let_def)
qed

lemma acquire_fresh_affinity:
  assumes "acquire_fresh t rq st = (r, st')"
  shows "ss_affinity st' =
    (case r of Inl e \<Rightarrow> ss_affinity st | Inr a \<Rightarrow>
      (case rq_affinity_key rq of None \<Rightarrow> ss_affinity st | Some key \<Rightarrow> affinity_insert t key a (ss_affinity st)))"
  using assms
proof (cases rule: acquire_fresh_cases)
  case (chosen c st1 ri st2)
  have "ss_affinity st2 = ss_affinity st"
    using select_candidate_devices [OF chosen(2)] increment_affinity [OF chosen(3)] by simp
  then show ?thesis using chosen(4,5) by (cases ri) (simp_all split: option.splits)
qed auto

lemma affinity_lookup_table:
  assumes "table_ok (ss_affinity st)" and "affinity_lookup t rq st = (found, st')"
  shows "table_ok (ss_affinity st') \<and> at_ttl (ss_affinity st') = at_ttl (ss_affinity st)"
  using assms table_ok_get [OF assms(1)]
  by (auto simp: affinity_lookup_def split: if_splits option.splits prod.splits)

lemma acquire_cases:
  assumes "acquire t1 t2 rq st = (r, st')"
  obtains (unknown) "device_indexes rq st = []" "st' = st" "\<exists>e. r = Inl e"
  | (hit) a st1 where "affinity_lookup t1 rq st = (Some a, st1)"
      "allocation_is_valid (rq_kind rq) (device_indexes rq st) a (rq_core_selection rq) st1"
      "\<exists>ri. increment a st1 = (ri, st') \<and> r = map_sum id (\<lambda>_. a) ri"
  | (fresh) found st1 where "affinity_lookup t1 rq st = (found, st1)" "acquire_fresh t2 rq st1 = (r, st')"
proof (cases "device_indexes rq st = []")
  case True
  show ?thesis by (rule unknown) (use assms True in \<open>auto simp: acquire_def\<close>)
next
  case False
  obtain found st1 where lk: "affinity_lookup t1 rq st = (found, st1)" by fastforce
  show ?thesis
  proof (cases "\<exists>a. found = Some a \<and> allocation_is_valid (rq_kind rq) (device_indexes rq st) a (rq_core_selection rq) st1")
    case True
    then obtain a where a: "found = Some a"
      "allocation_is_valid (rq_kind rq) (device_indexes rq st) a (rq_core_selection rq) st1" by blast
    obtain ri st2 where inc: "increment a st1 = (ri, st2)" by fastforce
    then have "st' = st2 \<and> r = map_sum id (\<lambda>_. a) ri"
      using assms False lk a by (cases ri) (auto simp: acquire_def Let_def)
    then show ?thesis using hit [OF lk [unfolded a(1)] a(2)] inc by simp
  next
    case nv: False
    then have "acquire_fresh t2 rq st1 = (r, st')"
      using assms False lk by (cases found) (auto simp: acquire_def Let_def)
    then show ?thesis by (rule fresh [OF lk])
  qed
qed

lemma acquire_table_ok:
  assumes "table_ok (ss_affinity st)" and "acquire t1 t2 rq st = (r, st')"
  shows "table_ok (ss_affinity st') \<and> at_ttl (ss_affinity st') = at_ttl (ss_affinity st)"
  using assms(2)
proof (cases rule: acquire_cases)
  case unknown
  then show ?thesis using assms(1) by simp
next
  case (hit a st1)
  then show ?thesis using affinity_lookup_table [OF assms(1) hit(1)] increment_affinity [of a st1 _ st'] by auto
next
  case (fresh found st1)
  then show ?thesis
    using affinity_lookup_table [OF assms(1) fresh(1)] acquire_fresh_affinity [OF fresh(2)] table_ok_insert
    by (auto simp: affinity_insert_params split: sum.splits option.splits)
qed

subsection \<open>Validity depends on the layout only\<close>

lemma layout_nth:
  assumes "layout st' = layout st"
  shows "length (ss_devices st') = length (ss_devices st)"
    and "i < length (ss_devices st) \<Longrightarrow> ds_kind (ss_devices st' ! i) = ds_kind (ss_devices st ! i) \<and>
      ds_id (ss_devices st' ! i) = ds_id (ss_devices st ! i) \<and>
      map cs_id (ds_cores (ss_devices st' ! i)) = map cs_id (ds_cores (ss_devices st ! i))"
proof -
  show len: "length (ss_devices st') = length (ss_devices st)"
    using arg_cong [OF assms, where f = length] by (simp add: layout_def)
  show "i < length (ss_devices st) \<Longrightarrow> ds_kind (ss_devices st' ! i) = ds_kind (ss_devices st ! i) \<and>
      ds_id (ss_devices st' ! i) = ds_id (ss_devices st ! i) \<and>
      map cs_id (ds_cores (ss_devices st' ! i)) = map cs_id (ds_cores (ss_devices st ! i))"
    using arg_cong [OF assms, where f = "\<lambda>xs. xs ! i"] len by (simp add: layout_def)
qed

definition valid_for :: "Request \<Rightarrow> SchedulerState \<Rightarrow> Allocation \<Rightarrow> bool" where
  "valid_for rq st a \<longleftrightarrow> allocation_is_valid (rq_kind rq) (device_indexes rq st) a (rq_core_selection rq) st"

lemma valid_for_layout:
  assumes "layout st' = layout st"
  shows "valid_for rq st' a \<longleftrightarrow> valid_for rq st a"
proof -
  note L = layout_nth [OF assms]
  let ?i = "al_device_index a" and ?j = "al_core_index a"
  have idx: "?i \<in> set (device_indexes rq st') \<longleftrightarrow> ?i \<in> set (device_indexes rq st)"
    using L by (auto simp: device_indexes_iff)
  have cores: "length (ds_cores (ss_devices st' ! ?i)) = length (ds_cores (ss_devices st ! ?i)) \<and>
      (?j < length (ds_cores (ss_devices st ! ?i)) \<longrightarrow>
       cs_id (ds_cores (ss_devices st' ! ?i) ! ?j) = cs_id (ds_cores (ss_devices st ! ?i) ! ?j))"
    if "?i < length (ss_devices st)"
    using L(2) [OF that] by (metis map_eq_imp_length_eq nth_map)
  show ?thesis
    using L idx cores by (auto simp: valid_for_def allocation_is_valid_def Let_def)
qed

lemma admissible_valid_for: "admissible rq st a \<Longrightarrow> valid_for rq st a"
  using admissible_device_indexes [of rq st a]
  by (auto simp: admissible_def valid_for_def allocation_is_valid_def core_at_def core_admitted_def Let_def
      split: option.splits if_splits)

lemma valid_for_core: "valid_for rq st a \<Longrightarrow> core_at st a \<noteq> None"
  by (auto simp: valid_for_def allocation_is_valid_def core_at_def Let_def split: if_splits)

lemma affinity_get_hit:
  assumes "map_of (at_entries t) k = Some e" and "now - ae_last_used e \<le> at_ttl t"
  shows "\<exists>t'. affinity_get now k t = (Some (ae_value e), t')"
  using assms by (simp add: affinity_get_def)

lemma increment_total:
  assumes "core_at st a \<noteq> None" and "load_of st a < usize_max"
  shows "\<exists>st'. increment a st = (Inr (), st')"
  using assms by (auto simp: increment_def load_of_def checked_add_def split: option.splits)

lemma acquire_layout: "acquire t1 t2 rq st = (r, st') \<Longrightarrow> layout st' = layout st"
  using acquire_effect [of t1 t2 rq st r st'] by simp

text \<open>After a grant under an affinity key, the table maps the key to the grant.\<close>

lemma acquire_remembers:
  assumes "rq_mode rq = Auto_mode" and "rq_affinity_key rq = Some k" and "acquire t1 t2 rq st = (Inr a, st')"
  shows "valid_for rq st' a \<and>
    (\<exists>e. map_of (at_entries (ss_affinity st')) k = Some e \<and> ae_value e = a \<and> ae_last_used e \<in> {t1, t2})"
  using assms(3)
proof (cases rule: acquire_cases)
  case unknown
  then show ?thesis by simp
next
  case (hit b st1)
  then obtain ri where ri: "increment b st1 = (ri, st')" "Inr a = map_sum id (\<lambda>_. b) ri" by blast
  have "\<exists>u. ri = Inr u \<and> b = a" using ri(2) by (cases ri) simp_all
  then obtain u where inc: "increment b st1 = (Inr u, st')" and b: "b = a" using ri(1) by blast
  obtain t where get: "affinity_get t1 k (ss_affinity st) = (Some a, t)" and st1: "st1 = st\<lparr> ss_affinity := t \<rparr>"
    using hit(1) assms(1,2) b by (auto simp: affinity_lookup_def split: prod.splits)
  then have "\<exists>e. map_of (at_entries t) k = Some e \<and> ae_value e = a \<and> ae_last_used e = t1"
    by (auto simp: affinity_get_def map_of_insert_entry split: option.splits if_splits)
  moreover have "ss_affinity st' = t" using increment_affinity [OF inc] st1 by simp
  moreover have "valid_for rq st a"
    using hit(2) b devices_cong(6) [OF affinity_lookup_devices [OF hit(1)]] by (simp add: valid_for_def)
  ultimately show ?thesis using valid_for_layout [OF acquire_layout [OF assms(3)]] by auto
next
  case (fresh found st1)
  have "ss_affinity st' = affinity_insert t2 k a (ss_affinity st1)"
    using acquire_fresh_affinity [OF fresh(2)] assms(2) by simp
  then have e: "map_of (at_entries (ss_affinity st')) k = Some \<lparr> ae_value = a, ae_last_used = t2 \<rparr>"
    by (simp add: affinity_insert_lookup)
  have "admissible rq st1 a" using acquire_fresh_choice [OF fresh(2)] candidates_allocation by blast
  moreover have "layout st' = layout st1" using acquire_fresh_effect [OF fresh(2)] by simp
  ultimately have "valid_for rq st' a" using admissible_valid_for [of rq st1 a] valid_for_layout [of st' st1] by simp
  then show ?thesis using e by simp
qed

section \<open>Properties of the scheduler\<close>

text \<open>A topology is accepted exactly when it is non-empty, no two devices share kind and id, and
  every device has cores, with distinct ids below 32 (so every core has a bit in a core mask).\<close>

lemma validate_topology_iff: "validate_topology ds = Inr () \<longleftrightarrow> topology_wf ds"
  by (auto simp: validate_topology_def topology_wf_def validate_devices_ok)

text \<open>C13. A granted request without an affinity key gets a placement it asked for (kind, device,
  core selection, allowed placements), exactly that core's load grows by one, and unless the
  round-robin policy applies no admissible placement ranks lower by load, device and core id.\<close>

theorem acquire_least_loaded:
  assumes "rq_affinity_key rq = None" and "acquire t1 t2 rq st = (Inr a, st')"
  shows "admissible rq st a \<and> load_of st' = (load_of st)(a := load_of st a + 1) \<and> layout st' = layout st \<and>
    (\<not> uses_round_robin rq \<longrightarrow> (\<forall>b. admissible rq st b \<longrightarrow> rank st a \<le> rank st b))"
proof -
  have "device_indexes rq st \<noteq> []" using assms(2) by (auto simp: acquire_def)
  then have fresh: "acquire_fresh t2 rq st = (Inr a, st')" using assms acquire_no_affinity by simp
  obtain c where c: "c \<in> set (candidates rq st)" "a = allocation_of c"
    and best: "\<not> uses_round_robin rq \<Longrightarrow> c' \<in> set (candidates rq st) \<Longrightarrow> candidate_key c \<le> candidate_key c'" for c'
    using acquire_fresh_choice [OF fresh] by (auto split: if_splits)
  have "rank st a \<le> rank st b" if nr: "\<not> uses_round_robin rq" and adm: "admissible rq st b" for b
  proof -
    obtain d where d: "d \<in> set (candidates rq st)" "allocation_of d = b" using adm candidates_allocation by blast
    show ?thesis using best [OF nr d(1)] candidate_key_rank [OF c(1)] candidate_key_rank [OF d(1)] c(2) d(2) by simp
  qed
  moreover have "admissible rq st a" using c candidates_allocation by blast
  ultimately show ?thesis using acquire_effect [OF assms(2)] by simp
qed

text \<open>A request that some placement admits is granted: without an affinity key, if a core is
  admissible and no load has reached the maximum, \<open>acquire\<close> returns a lease.\<close>

lemma acquire_granted:
  assumes "rq_affinity_key rq = None" and "admissible rq st b" and "\<forall>a. load_of st a < usize_max"
  shows "\<exists>a st'. acquire t1 t2 rq st = (Inr a, st')"
proof -
  have idx: "device_indexes rq st \<noteq> []" using admissible_device_indexes [OF assms(2)] by auto
  obtain r st' where fresh: "acquire_fresh t2 rq st = (r, st')" by fastforce
  from fresh show ?thesis
  proof (cases rule: acquire_fresh_cases)
    case none
    then show ?thesis using assms(2) by (auto simp: candidates_allocation)
  next
    case (chosen c st1 ri st2)
    have c: "c \<in> set (candidates rq st)" using select_candidate_ok [OF chosen(1), of rq st] chosen(2) by auto
    note D = devices_cong [OF conjunct1 [OF select_candidate_devices [OF chosen(2)]]]
    have "core_at st (allocation_of c) \<noteq> None"
      using c by (auto simp: candidates_iff admissible_def split: option.splits)
    then obtain st3 where "increment (allocation_of c) st1 = (Inr (), st3)"
      using increment_total [of st1 "allocation_of c"] assms(3) D by auto
    then show ?thesis using chosen fresh acquire_no_affinity [OF assms(1) idx, of t1 t2] by simp
  qed
qed

text \<open>C2. Loads count live leases: after any interleaving of acquisitions and drops from a fresh
  scheduler, the load of every core is the number of live leases on it, so a drop never
  underflows and nothing stays booked once all leases are gone.\<close>

theorem loads_count_leases:
  assumes "state_from_topology tp = Inr st0" and "fold leases.lease_step cs (st0, []) = (st, ls)"
  shows "load_of st a = count_list ls a"
proof -
  have "cs_load core = 0" if "core_at st0 b = Some core" for b core
    using assms(1) that
    by (auto simp: state_from_topology_def result_simps Let_def core_at_def split: if_splits)
  then have "\<forall>b. load_of st0 b = count_list [] b" by (auto simp: load_of_def split: option.splits)
  from leases.lease_run_counts [OF this assms(2)] show ?thesis by blast
qed

text \<open>Affinity is sticky: after a lease was granted under a key, a later request with the same
  key and the same constraints, within the time to live, is granted the same core as long as
  its load has not reached the maximum.\<close>

lemma affinity_sticky:
  assumes "rq_mode rq = Auto_mode" and "rq_affinity_key rq = Some k" and "acquire t1 t2 rq st = (Inr a, st')"
    and "u1 - t1 \<le> at_ttl (ss_affinity st')" and "u1 - t2 \<le> at_ttl (ss_affinity st')"
    and "load_of st' a < usize_max"
  shows "\<exists>st''. acquire u1 u2 rq st' = (Inr a, st'')"
proof -
  obtain e where v: "valid_for rq st' a" and e: "map_of (at_entries (ss_affinity st')) k = Some e"
    "ae_value e = a" "ae_last_used e \<in> {t1, t2}"
    using acquire_remembers [OF assms(1-3)] by blast
  have "u1 - ae_last_used e \<le> at_ttl (ss_affinity st')" using e(3) assms(4,5) by auto
  then obtain t where "affinity_get u1 k (ss_affinity st') = (Some a, t)" using affinity_get_hit [OF e(1)] e(2) by blast
  then have lk: "affinity_lookup u1 rq st' = (Some a, st'\<lparr> ss_affinity := t \<rparr>)"
    using assms(1,2) by (simp add: affinity_lookup_def)
  note D = devices_cong [OF affinity_lookup_devices [OF lk]]
  obtain st'' where "increment a (st'\<lparr> ss_affinity := t \<rparr>) = (Inr (), st'')"
    using increment_total [of "st'\<lparr> ss_affinity := t \<rparr>" a] valid_for_core [OF v] assms(6) D by auto
  moreover have "device_indexes rq st' \<noteq> []"
    using v by (auto simp: valid_for_def allocation_is_valid_def Let_def split: if_splits)
  ultimately show ?thesis using lk v D(6) by (simp add: acquire_def Let_def valid_for_def)
qed

text \<open>The affinity table is bounded: no acquisition makes it grow beyond its capacity, and a new
  key in a full table replaces an entry that was used least recently.\<close>

lemma affinity_bounded:
  assumes "table_ok (ss_affinity st)"
  shows "table_ok (ss_affinity (snd (acquire t1 t2 rq st))) \<and>
    (\<forall>k v now. k \<notin> fst ` set (at_entries (ss_affinity st)) \<longrightarrow>
      length (at_entries (ss_affinity st)) = at_capacity (ss_affinity st) \<longrightarrow>
      (\<exists>o_key o_entry. (o_key, o_entry) \<in> set (at_entries (ss_affinity st)) \<and>
        (\<forall>(k', e) \<in> set (at_entries (ss_affinity st)). ae_last_used o_entry \<le> ae_last_used e) \<and>
        at_entries (affinity_insert now k v (ss_affinity st)) =
          insert_entry k \<lparr> ae_value = v, ae_last_used = now \<rparr> (remove_entry o_key (at_entries (ss_affinity st)))))"
proof
  obtain r st' where "acquire t1 t2 rq st = (r, st')" by fastforce
  then show "table_ok (ss_affinity (snd (acquire t1 t2 rq st)))" using acquire_table_ok [OF assms] by simp
qed (intro allI impI affinity_insert_full [OF assms], assumption+)

subsection \<open>Examples\<close>

text \<open>A fresh scheduler for one two-core device.\<close>

definition sample_state :: SchedulerState where
  "sample_state =
    \<lparr> ss_devices = [\<lparr> ds_kind = RknnNpu, ds_id = 0,
        ds_cores = [\<lparr> cs_id = 0, cs_load = 0, cs_overflow_count = 0, cs_underflow_count = 0 \<rparr>,
                    \<lparr> cs_id = 1, cs_load = 0, cs_overflow_count = 0, cs_underflow_count = 0 \<rparr>] \<rparr>],
      ss_affinity = affinity_new 2 600, ss_round_robin_cursor = 0 \<rparr>"

lemmas sample_simps = sample_state_def request_auto_def with_affinity_key_def acquire_def acquire_fresh_def
  device_indexes_def candidates_def device_candidates_def core_admitted_def is_explicit_def
  affinity_lookup_def affinity_new_def affinity_get_def affinity_insert_def select_candidate_def
  uses_round_robin_def candidate_key_def allocation_of_def increment_def core_at_def set_core_def
  checked_add_def usize_max_def

lemma sample_acquire:
  "\<exists>st'. acquire 0 0 (request_auto RknnNpu) sample_state = (Inr \<lparr> al_device_index = 0, al_core_index = 0 \<rparr>, st')"
  by (simp add: sample_simps)

lemma sample_acquire_key:
  "case acquire 0 0 (with_affinity_key (request_auto RknnNpu) ''cam'') sample_state of (r, st') \<Rightarrow>
     r = Inr \<lparr> al_device_index = 0, al_core_index = 0 \<rparr> \<and>
     at_ttl (ss_affinity st') = 600 \<and> load_of st' \<lparr> al_device_index = 0, al_core_index = 0 \<rparr> = 1"
  by (simp add: sample_simps load_of_def Let_def)

lemma sample_topology: "state_from_topology \<lparr> tp_deployment = SoC, tp_devices =
    [\<lparr> sd_kind = RknnNpu, sd_id = 0, sd_cores = [\<lparr> core_id = 0 \<rparr>, \<lparr> core_id = 1 \<rparr>] \<rparr>] \<rparr> = Inr sample_state"
proof -
  have "\<not> (32 :: 8 word) \<le> 0" "\<not> (32 :: 8 word) \<le> 1" by (simp_all add: word_le_nat_alt)
  moreover have "affinity_new (Suc (Suc 0)) 600 = affinity_new 2 600" by (simp add: numeral_2_eq_2)
  ultimately show ?thesis
    by (simp add: state_from_topology_def validate_topology_def sample_state_def Let_def)
qed

theorem acquire_least_loaded_witness:
  "admissible (request_auto RknnNpu) sample_state \<lparr> al_device_index = 0, al_core_index = 0 \<rparr>"
proof -
  obtain st' where a: "acquire 0 0 (request_auto RknnNpu) sample_state =
      (Inr \<lparr> al_device_index = 0, al_core_index = 0 \<rparr>, st')" using sample_acquire by blast
  have "rq_affinity_key (request_auto RknnNpu) = None" by (simp add: request_auto_def)
  from acquire_least_loaded [OF this a] show ?thesis by blast
qed

lemma sample_loads: "load_of sample_state a = 0"
proof -
  have "cs_load core = 0" if "core_at sample_state a = Some core" for core
    using that by (auto simp: core_at_def sample_state_def less_Suc_eq nth_Cons' split: if_splits)
  then show ?thesis by (auto simp: load_of_def split: option.splits)
qed

theorem loads_count_leases_witness:
  "\<exists>st ls. fold leases.lease_step [Inl (0, 0, request_auto RknnNpu), Inl (0, 0, request_auto RknnNpu), Inr 0]
     (sample_state, []) = (st, ls) \<and>
     load_of st \<lparr> al_device_index = 0, al_core_index = 0 \<rparr> = count_list ls \<lparr> al_device_index = 0, al_core_index = 0 \<rparr>"
proof -
  obtain st ls where run: "fold leases.lease_step
      [Inl (0, 0, request_auto RknnNpu), Inl (0, 0, request_auto RknnNpu), Inr 0] (sample_state, []) = (st, ls)" by fastforce
  from loads_count_leases [OF sample_topology run] run show ?thesis by blast
qed

end
