(* ===== verification/InstancePools.thy ===== *)
theory InstancePools
  imports Scheduler
begin

text \<open>
  The instance pools of \<open>dg-scheduler/src/lib.rs\<close>: model instances spread over the
  placements of a scheduler, checked out under a policy, with the pool's own
  affinity table next to the scheduler's.  A checkout works on the pool and on the
  scheduler state the pool shares with others.  A Rust panic is the outcome
  \<open>Panicked\<close>.
\<close>

section \<open>Leases and pools\<close>

record Lease =
  le_allocation :: Allocation
  le_device :: "DeviceKind \<times> 16 word"
  le_core_id :: "8 word"

definition scheduler_acquire ::
  "nat \<Rightarrow> nat \<Rightarrow> Request \<Rightarrow> SchedulerState \<Rightarrow> Lease sched_result \<times> SchedulerState"
where
  "scheduler_acquire t1 t2 rq st =
    (case acquire t1 t2 rq st of
       (Inl e, st') \<Rightarrow> (Inl e, st')
     | (Inr a, st') \<Rightarrow>
        let d = ss_devices st' ! al_device_index a in
        (Inr \<lparr> le_allocation = a, le_device = (ds_kind d, ds_id d),
               le_core_id = cs_id (ds_cores d ! al_core_index a) \<rparr>, st'))"

definition drop_lease :: "Lease \<Rightarrow> SchedulerState \<Rightarrow> SchedulerState" where
  "drop_lease l st = release (le_allocation l) st"

record Placement =
  pc_kind :: DeviceKind
  pc_device_id :: "16 word"
  pc_core_id :: "8 word"

record InstancePool =
  ip_placements :: "Placement list"
  ip_allowed_placements :: "(16 word \<times> 8 word) list"
  ip_next_instance :: usize
  ip_next_poisoned :: bool
  ip_affinity :: "nat BoundedAffinityTable"

definition MAX_INSTANCE_COUNT :: nat where
  "MAX_INSTANCE_COUNT = 1024"

definition available_placements :: "Topology \<Rightarrow> DeviceKind \<Rightarrow> CoreSelection \<Rightarrow> Placement list" where
  "available_placements tp kind sel =
    concat (map (\<lambda>d. map (\<lambda>c. \<lparr> pc_kind = kind, pc_device_id = sd_id d, pc_core_id = core_id c \<rparr>)
        (filter (\<lambda>c. contains sel (core_id c)) (sd_cores d)))
      (filter (\<lambda>d. sd_kind d = kind) (tp_devices tp)))"

definition placement_key :: "Placement \<Rightarrow> 16 word \<times> 8 word" where
  "placement_key p = (pc_device_id p, pc_core_id p)"

definition instance_pool_new ::
  "Topology \<Rightarrow> DeviceKind \<Rightarrow> usize \<Rightarrow> CoreSelection \<Rightarrow> InstancePool sched_result"
where
  "instance_pool_new tp kind n sel =
    (if n = 0 then Inl InvalidInstanceCount
     else if n > MAX_INSTANCE_COUNT then Inl (InstanceCountOutOfRange n MAX_INSTANCE_COUNT)
     else
       let available = available_placements tp kind sel in
       if available = [] then Inl (NoMatchingDevice kind)
       else
         let ps = map (\<lambda>i. available ! (i mod length available)) [0..<n] in
         Inr \<lparr> ip_placements = ps, ip_allowed_placements = remdups (map placement_key ps),
               ip_next_instance = 0, ip_next_poisoned = False,
               ip_affinity = affinity_new n 600 \<rparr>)"

definition instance_count :: "InstancePool \<Rightarrow> usize" where
  "instance_count p = length (ip_placements p)"

section \<open>Checkout\<close>

record PooledLease =
  pl_lease :: Lease
  pl_instance_index :: nat
  pl_placement :: Placement

datatype 'a outcome = Panicked | Returned 'a

text \<open>
  \<open>matching[*cursor % matching.len()]\<close> divides by zero when no instance matches; the
  unwinding poisons the cursor's mutex and drops the lease.  A poisoned mutex is an
  error for every later caller that needs the cursor.
\<close>

definition matching_instances :: "InstancePool \<Rightarrow> Placement \<Rightarrow> nat list" where
  "matching_instances p placement = map fst (filter (\<lambda>(_, c). c = placement) (enumerate 0 (ip_placements p)))"

definition checkout_request ::
  "nat \<Rightarrow> nat \<Rightarrow> Request \<Rightarrow> InstancePool \<times> SchedulerState \<Rightarrow>
    PooledLease sched_result outcome \<times> InstancePool \<times> SchedulerState"
where
  "checkout_request t1 t2 rq s =
    (case s of (p, st) \<Rightarrow>
     (case scheduler_acquire t1 t2 rq st of
        (Inl e, st') \<Rightarrow> (Returned (Inl e), p, st')
      | (Inr lease, st') \<Rightarrow>
         let placement = \<lparr> pc_kind = fst (le_device lease), pc_device_id = snd (le_device lease),
                           pc_core_id = le_core_id lease \<rparr>;
             matching = matching_instances p placement
         in if length matching = 1
            then (Returned (Inr \<lparr> pl_lease = lease, pl_instance_index = matching ! 0, pl_placement = placement \<rparr>), p, st')
            else if ip_next_poisoned p then (Returned (Inl NoAvailableCore), p, drop_lease lease st')
            else if matching = [] then (Panicked, p\<lparr> ip_next_poisoned := True \<rparr>, drop_lease lease st')
            else
              let cursor = ip_next_instance p; index = matching ! (cursor mod length matching)
              in (Returned (Inr \<lparr> pl_lease = lease, pl_instance_index = index, pl_placement = placement \<rparr>),
                  p\<lparr> ip_next_instance := wrapping_add cursor 1 \<rparr>, st')))"

text \<open>The clock readings, in order: the pool's table, the scheduler's table, the two insertions.\<close>

definition checkout ::
  "nat \<Rightarrow> nat \<Rightarrow> nat \<Rightarrow> nat \<Rightarrow> SchedulingPolicy \<Rightarrow> string option \<Rightarrow> InstancePool \<times> SchedulerState \<Rightarrow>
    PooledLease sched_result outcome \<times> InstancePool \<times> SchedulerState"
where
  "checkout t0 t1 t2 t3 policy key s =
    (case s of (p, st) \<Rightarrow>
     let (found, table) = (case key of None \<Rightarrow> (None, ip_affinity p) | Some k \<Rightarrow> affinity_get t0 k (ip_affinity p));
         p1 = p\<lparr> ip_affinity := table \<rparr>
     in
     (case found of
        Some i \<Rightarrow>
          let pl = ip_placements p ! i in
          (case scheduler_acquire t1 t2 (with_allowed_placements
                  (request_explicit (pc_kind pl) (pc_device_id pl) (Single (pc_core_id pl)))
                  [(pc_device_id pl, pc_core_id pl)]) st of
             (Inl e, st') \<Rightarrow> (Returned (Inl e), p1, st')
           | (Inr lease, st') \<Rightarrow>
              (Returned (Inr \<lparr> pl_lease = lease, pl_instance_index = i, pl_placement = pl \<rparr>), p1, st'))
      | None \<Rightarrow>
          let rq0 = with_allowed_placements (with_policy (request_auto (pc_kind (ip_placements p ! 0))) policy)
                      (ip_allowed_placements p);
              rq = (case key of None \<Rightarrow> rq0 | Some k \<Rightarrow> with_affinity_key rq0 k)
          in
          (case checkout_request t1 t2 rq (p1, st) of
             (Returned (Inr l), p2, st') \<Rightarrow>
               (Returned (Inr l),
                (case key of None \<Rightarrow> p2
                 | Some k \<Rightarrow> p2\<lparr> ip_affinity := affinity_insert t3 k (pl_instance_index l) (ip_affinity p2) \<rparr>), st')
           | r \<Rightarrow> r)))"

definition checkout_explicit ::
  "nat \<Rightarrow> nat \<Rightarrow> 16 word \<Rightarrow> 8 word \<Rightarrow> InstancePool \<times> SchedulerState \<Rightarrow>
    PooledLease sched_result outcome \<times> InstancePool \<times> SchedulerState"
where
  "checkout_explicit t1 t2 dev core s =
    (case s of (p, st) \<Rightarrow>
     if (dev, core) \<notin> set (ip_allowed_placements p) then (Returned (Inl NoAvailableCore), p, st)
     else checkout_request t1 t2
       (with_allowed_placements (request_explicit (pc_kind (ip_placements p ! 0)) dev (Single core)) [(dev, core)])
       (p, st))"

definition pool_affinity_metrics :: "InstancePool \<Rightarrow> AffinityMetrics" where
  "pool_affinity_metrics p = affinity_table_metrics (ip_affinity p)"

definition remove_affinity :: "string \<Rightarrow> InstancePool \<Rightarrow> InstancePool" where
  "remove_affinity key p = p\<lparr> ip_affinity := affinity_remove key (ip_affinity p) \<rparr>"

section \<open>Well-formed pools\<close>

definition pool_wf :: "DeviceKind \<Rightarrow> InstancePool \<Rightarrow> bool" where
  "pool_wf kind p \<longleftrightarrow> ip_placements p \<noteq> [] \<and> (\<forall>pl \<in> set (ip_placements p). pc_kind pl = kind) \<and>
    set (ip_allowed_placements p) = placement_key ` set (ip_placements p)"

lemma available_kind: "pl \<in> set (available_placements tp kind sel) \<Longrightarrow> pc_kind pl = kind"
  by (auto simp: available_placements_def)

lemma instance_pool_new_wf:
  assumes "instance_pool_new tp kind n sel = Inr p"
  shows "pool_wf kind p \<and> instance_count p = n \<and> set (ip_placements p) \<subseteq> set (available_placements tp kind sel)"
proof -
  let ?av = "available_placements tp kind sel"
  have n: "n \<noteq> 0" and ne: "?av \<noteq> []" and ps: "ip_placements p = map (\<lambda>i. ?av ! (i mod length ?av)) [0..<n]"
    and al: "ip_allowed_placements p = remdups (map placement_key (ip_placements p))"
    using assms by (auto simp: instance_pool_new_def Let_def split: if_splits)
  have "set (ip_placements p) \<subseteq> set ?av" using ne by (auto simp: ps intro!: nth_mem)
  then show ?thesis using n ps al available_kind by (fastforce simp: pool_wf_def instance_count_def)
qed

text \<open>The placement of the lease that a request without an affinity key gets.\<close>

lemma scheduler_acquire_placement:
  assumes "rq_affinity_key rq = None" and "scheduler_acquire t1 t2 rq st = (Inr l, st')"
  shows "fst (le_device l) = rq_kind rq \<and>
    (case rq_allowed_placements rq of None \<Rightarrow> True | Some ps \<Rightarrow> (snd (le_device l), le_core_id l) \<in> set ps)"
proof -
  obtain a where a: "acquire t1 t2 rq st = (Inr a, st')"
    and l: "l = \<lparr> le_allocation = a, le_device = (ds_kind (ss_devices st' ! al_device_index a), ds_id (ss_devices st' ! al_device_index a)),
      le_core_id = cs_id (ds_cores (ss_devices st' ! al_device_index a) ! al_core_index a) \<rparr>"
    using assms(2) by (auto simp: scheduler_acquire_def Let_def split: prod.splits sum.splits)
  have "device_indexes rq st \<noteq> []" using a by (auto simp: acquire_def)
  then have fresh: "acquire_fresh t2 rq st = (Inr a, st')" using a acquire_no_affinity [OF assms(1)] by simp
  have adm: "admissible rq st a" using acquire_fresh_choice [OF fresh] candidates_allocation by blast
  then have i: "al_device_index a < length (ss_devices st)"
    "al_core_index a < length (ds_cores (ss_devices st ! al_device_index a))"
    by (auto simp: admissible_def core_at_def split: if_splits)
  note L = layout_nth(2) [OF acquire_layout [OF a] i(1)]
  then have "cs_id (ds_cores (ss_devices st' ! al_device_index a) ! al_core_index a) =
      cs_id (ds_cores (ss_devices st ! al_device_index a) ! al_core_index a)"
    using i(2) by (metis length_map nth_map)
  then show ?thesis
    using adm L i by (auto simp: l admissible_def core_at_def core_admitted_def Let_def split: option.splits)
qed


section \<open>Instances and placements\<close>

definition affinity_values :: "'a BoundedAffinityTable \<Rightarrow> 'a set" where
  "affinity_values t = (\<lambda>(_, e). ae_value e) ` set (at_entries t)"

lemma insert_entry_set: "set (insert_entry k v es) \<subseteq> insert (k, v) (set es)"
  by (induction k v es rule: insert_entry.induct) auto

lemma affinity_get_values:
  assumes "affinity_get now k t = (r, t')"
  shows "affinity_values t' \<subseteq> affinity_values t \<and> (case r of None \<Rightarrow> True | Some v \<Rightarrow> v \<in> affinity_values t)"
proof (cases "map_of (at_entries t) k")
  case None
  then show ?thesis using assms by (auto simp: affinity_get_def)
next
  case (Some e)
  have mem: "(k, e) \<in> set (at_entries t)" using map_of_SomeD [OF Some] .
  then have e: "ae_value e \<in> affinity_values t" unfolding affinity_values_def by (rule rev_image_eqI) simp
  have "affinity_values (t\<lparr> at_entries := insert_entry k (e\<lparr> ae_last_used := now \<rparr>) (at_entries t) \<rparr>) \<subseteq> affinity_values t"
    using e insert_entry_set [of k "e\<lparr> ae_last_used := now \<rparr>" "at_entries t"] by (fastforce simp: affinity_values_def)
  then show ?thesis using assms Some e
    by (auto simp: affinity_get_def split: if_splits) (auto simp: affinity_values_def remove_entry_def)
qed

lemma affinity_insert_values: "affinity_values (affinity_insert now k v t) \<subseteq> insert v (affinity_values t)"
proof -
  let ?e = "\<lparr> ae_value = v, ae_last_used = now \<rparr>"
  have ins: "(\<lambda>(_, e). ae_value e) ` set (insert_entry k ?e es) \<subseteq> insert v ((\<lambda>(_, e). ae_value e) ` set es)" for es
    using image_mono [OF insert_entry_set [of k ?e es], of "\<lambda>(_, e). ae_value e"] by simp
  have "\<exists>es. at_entries (affinity_insert now k v t) = insert_entry k ?e es \<and> set es \<subseteq> set (at_entries t)"
  proof (cases "min_by_key (\<lambda>(_, e). ae_last_used e) (at_entries t)")
    case None
    then show ?thesis by (intro exI [of _ "at_entries t"]) (simp add: affinity_insert_def)
  next
    case (Some oe)
    obtain ok e where oe: "oe = (ok, e)" by fastforce
    show ?thesis
    proof (cases "k \<notin> fst ` set (at_entries t) \<and> length (at_entries t) \<ge> at_capacity t")
      case True
      then show ?thesis using Some oe
        by (intro exI [of _ "remove_entry ok (at_entries t)"]) (simp add: affinity_insert_def remove_entry_def)
    next
      case False
      then show ?thesis by (intro exI [of _ "at_entries t"]) (auto simp: affinity_insert_def)
    qed
  qed
  then obtain es where es: "at_entries (affinity_insert now k v t) = insert_entry k ?e es" "set es \<subseteq> set (at_entries t)"
    by blast
  from ins [of es] image_mono [OF es(2), of "\<lambda>(_, e). ae_value e"] show ?thesis
    unfolding affinity_values_def es(1) by blast
qed

text \<open>The pool's table only remembers instances the pool has.\<close>

definition pool_ok :: "DeviceKind \<Rightarrow> InstancePool \<Rightarrow> bool" where
  "pool_ok kind p \<longleftrightarrow> pool_wf kind p \<and> affinity_values (ip_affinity p) \<subseteq> {..<instance_count p}"

definition lease_placement :: "Lease \<Rightarrow> Placement" where
  "lease_placement l = \<lparr> pc_kind = fst (le_device l), pc_device_id = snd (le_device l), pc_core_id = le_core_id l \<rparr>"

definition served_by :: "InstancePool \<Rightarrow> PooledLease \<Rightarrow> bool" where
  "served_by p l \<longleftrightarrow> pl_instance_index l < instance_count p \<and>
    ip_placements p ! pl_instance_index l = pl_placement l \<and> pl_placement l = lease_placement (pl_lease l)"

lemma matching_set: "set (matching_instances p pl) = {i. i < instance_count p \<and> ip_placements p ! i = pl}"
  by (force simp: matching_instances_def instance_count_def in_set_enumerate_eq image_iff)

lemma matching_empty: "matching_instances p pl = [] \<longleftrightarrow> pl \<notin> set (ip_placements p)"
  unfolding set_empty [symmetric] matching_set by (auto simp: in_set_conv_nth instance_count_def)

lemma served_by_affinity [simp]: "served_by (p\<lparr> ip_affinity := t \<rparr>) = served_by p"
  by (simp add: served_by_def instance_count_def fun_eq_iff)

lemma matching_nth:
  assumes "m = matching_instances p pl" and "m \<noteq> []"
  shows "m ! (k mod length m) < instance_count p \<and> ip_placements p ! (m ! (k mod length m)) = pl"
proof -
  have "m ! (k mod length m) \<in> set m" using assms(2) by simp
  then show ?thesis using assms(1) by (simp add: matching_set)
qed

lemma checkout_request_served:
  assumes "checkout_request t1 t2 rq (p, st) = (r, p', st')"
  shows "(case r of Returned (Inr l) \<Rightarrow> served_by p l | _ \<Rightarrow> True) \<and>
    ip_placements p' = ip_placements p \<and> ip_allowed_placements p' = ip_allowed_placements p \<and> ip_affinity p' = ip_affinity p"
proof -
  obtain ra st1 where acq: "scheduler_acquire t1 t2 rq st = (ra, st1)" by fastforce
  show ?thesis
  proof (cases ra)
    case (Inl e)
    then show ?thesis using assms acq by (auto simp: checkout_request_def)
  next
    case (Inr l)
    define m where "m = matching_instances p (lease_placement l)"
    have nth: "m ! (k mod length m) < instance_count p \<and> ip_placements p ! (m ! (k mod length m)) = lease_placement l"
      if "m \<noteq> []" for k using matching_nth [OF m_def that] .
    have one: "m ! 0 < instance_count p \<and> ip_placements p ! (m ! 0) = lease_placement l" if "length m = 1"
      using that nth [of 0] by fastforce
    show ?thesis
      using assms acq Inr nth [of "ip_next_instance p", unfolded m_def] one [unfolded m_def]
      unfolding checkout_request_def lease_placement_def [symmetric] served_by_def
      by (auto simp: Let_def split: if_splits)
  qed
qed

lemma placement_of_key:
  assumes "pool_wf kind p" and "pc_kind pl = kind" and "placement_key pl \<in> set (ip_allowed_placements p)"
  shows "pl \<in> set (ip_placements p)"
proof -
  obtain q where q: "q \<in> set (ip_placements p)" "placement_key q = placement_key pl"
    using assms(1,3) by (auto simp: pool_wf_def)
  then have "pc_kind q = pc_kind pl" using assms(1,2) by (auto simp: pool_wf_def)
  then have "q = pl" using q(2) by (auto simp: placement_key_def intro: Placement.equality)
  then show ?thesis using q(1) by simp
qed

lemma checkout_request_no_panic:
  assumes "pool_wf kind p" and "rq_kind rq = kind" and "rq_affinity_key rq = None"
    and "rq_allowed_placements rq = Some ps" and "set ps \<subseteq> set (ip_allowed_placements p)"
    and "checkout_request t1 t2 rq (p, st) = (r, p', st')"
  shows "r \<noteq> Panicked \<and> ip_next_poisoned p' = ip_next_poisoned p"
proof -
  obtain ra st1 where acq: "scheduler_acquire t1 t2 rq st = (ra, st1)" by fastforce
  show ?thesis
  proof (cases ra)
    case (Inl e)
    then show ?thesis using assms(6) acq by (auto simp: checkout_request_def)
  next
    case (Inr l)
    have "fst (le_device l) = kind \<and> (snd (le_device l), le_core_id l) \<in> set ps"
      using scheduler_acquire_placement [OF assms(3) acq [unfolded Inr]] assms(2,4) by simp
    then have "lease_placement l \<in> set (ip_placements p)"
      using assms(5) by (intro placement_of_key [OF assms(1)]) (auto simp: lease_placement_def placement_key_def)
    then have "matching_instances p (lease_placement l) \<noteq> []" by (simp add: matching_empty)
    then show ?thesis
      using assms(6) acq Inr unfolding checkout_request_def lease_placement_def [symmetric]
      by (simp add: Let_def split: if_splits; clarsimp)
  qed
qed


lemma pool_ok_cong:
  assumes "pool_ok kind p" and "ip_placements p' = ip_placements p" and "ip_allowed_placements p' = ip_allowed_placements p"
    and "affinity_values (ip_affinity p') \<subseteq> {..<instance_count p}"
  shows "pool_ok kind p'"
  using assms by (simp add: pool_ok_def pool_wf_def instance_count_def)

text \<open>A checkout that finds its key in the pool's own table.\<close>

lemma checkout_hit:
  assumes "pool_ok kind p" and "affinity_get t0 k (ip_affinity p) = (Some i, table)"
    and "checkout t0 t1 t2 t3 policy (Some k) (p, st) = (r, p', st')"
  shows "pool_ok kind p' \<and> r \<noteq> Panicked \<and> (case r of Returned (Inr l) \<Rightarrow> served_by p l \<and> pl_instance_index l = i | _ \<Rightarrow> True)"
proof -
  let ?pl = "ip_placements p ! i"
  let ?rq = "with_allowed_placements (request_explicit (pc_kind ?pl) (pc_device_id ?pl) (Single (pc_core_id ?pl)))
    [(pc_device_id ?pl, pc_core_id ?pl)]"
  have i: "i < instance_count p" and vals: "affinity_values table \<subseteq> {..<instance_count p}"
    using affinity_get_values [OF assms(2)] assms(1) by (auto simp: pool_ok_def)
  obtain ra st1 where acq: "scheduler_acquire t1 t2 ?rq st = (ra, st1)" by fastforce
  have p': "p' = p\<lparr> ip_affinity := table \<rparr>" and r: "r = Returned (map_sum id
      (\<lambda>l. \<lparr> pl_lease = l, pl_instance_index = i, pl_placement = ?pl \<rparr>) ra)"
    using assms(2,3) acq by (cases ra; simp add: checkout_def Let_def)+
  have "lease_placement l = ?pl" if "ra = Inr l" for l
    using scheduler_acquire_placement [OF _ acq [unfolded that]]
    by (simp add: request_explicit_def with_allowed_placements_def lease_placement_def)
  then have "case r of Returned (Inr l) \<Rightarrow> served_by p l \<and> pl_instance_index l = i | _ \<Rightarrow> True"
    using r i by (cases ra) (simp_all add: served_by_def)
  moreover have "pool_ok kind p'" by (rule pool_ok_cong [OF assms(1)]) (simp_all add: p' vals)
  ultimately show ?thesis using r by simp
qed

text \<open>A checkout that goes to the shared scheduler.\<close>

definition pool_request :: "InstancePool \<Rightarrow> SchedulingPolicy \<Rightarrow> string option \<Rightarrow> Request" where
  "pool_request p policy key =
    (let rq = with_allowed_placements (with_policy (request_auto (pc_kind (ip_placements p ! 0))) policy)
                (ip_allowed_placements p)
     in case key of None \<Rightarrow> rq | Some k \<Rightarrow> with_affinity_key rq k)"

lemma pool_request_simps:
  "rq_kind (pool_request p policy key) = pc_kind (ip_placements p ! 0)"
  "rq_device_id (pool_request p policy key) = None"
  "rq_mode (pool_request p policy key) = Auto_mode"
  "rq_core_selection (pool_request p policy key) = Auto"
  "rq_affinity_key (pool_request p policy key) = key"
  "rq_allowed_placements (pool_request p policy key) = Some (ip_allowed_placements p)"
  by (cases key; simp add: pool_request_def Let_def request_auto_def with_policy_def with_allowed_placements_def
    with_affinity_key_def)+

definition own_lookup :: "nat \<Rightarrow> string option \<Rightarrow> InstancePool \<Rightarrow> nat option \<times> nat BoundedAffinityTable" where
  "own_lookup t key p = (case key of None \<Rightarrow> (None, ip_affinity p) | Some k \<Rightarrow> affinity_get t k (ip_affinity p))"

lemma checkout_miss:
  assumes "own_lookup t0 key p = (None, table)"
    and "checkout t0 t1 t2 t3 policy key (p, st) = (r, p', st')"
  obtains p2 where "checkout_request t1 t2 (pool_request p policy key) (p\<lparr> ip_affinity := table \<rparr>, st) = (r, p2, st')"
    and "p' = (case (r, key) of (Returned (Inr l), Some k) \<Rightarrow>
           p2\<lparr> ip_affinity := affinity_insert t3 k (pl_instance_index l) (ip_affinity p2) \<rparr> | _ \<Rightarrow> p2)"
proof -
  obtain r0 p2 st2 where cr: "checkout_request t1 t2 (pool_request p policy key) (p\<lparr> ip_affinity := table \<rparr>, st) = (r0, p2, st2)"
    by (metis prod_cases3)
  have eq: "checkout t0 t1 t2 t3 policy key (p, st) =
      (case (r0, p2, st2) of
             (Returned (Inr l), p2, st') \<Rightarrow>
               (Returned (Inr l),
                (case key of None \<Rightarrow> p2
                 | Some k \<Rightarrow> p2\<lparr> ip_affinity := affinity_insert t3 k (pl_instance_index l) (ip_affinity p2) \<rparr>), st')
           | r \<Rightarrow> r)"
    using assms(1) cr unfolding checkout_def own_lookup_def [symmetric] pool_request_def by (simp add: Let_def)
  show ?thesis
  proof (cases "\<exists>l. r0 = Returned (Inr l)")
    case True
    then show ?thesis using eq assms(2) cr by (intro that [of p2]) (auto split: option.splits)
  next
    case False
    then have "r = r0 \<and> p' = p2 \<and> st' = st2"
      using eq assms(2) by (auto split: outcome.splits sum.splits)
    then show ?thesis using False cr by (intro that [of p2]) (auto split: outcome.splits sum.splits)
  qed
qed


lemma checkout_pool_ok:
  assumes "pool_ok kind p" and "checkout t0 t1 t2 t3 policy key (p, st) = (r, p', st')"
  shows "pool_ok kind p' \<and> (case r of Returned (Inr l) \<Rightarrow> served_by p l | _ \<Rightarrow> True)"
proof -
  obtain found table where lk: "own_lookup t0 key p = (found, table)" by fastforce
  show ?thesis
  proof (cases found)
    case (Some i)
    then obtain k where k: "key = Some k" "affinity_get t0 k (ip_affinity p) = (Some i, table)"
      using lk by (auto simp: own_lookup_def split: option.splits)
    from checkout_hit [OF assms(1) k(2) assms(2) [unfolded k(1)]] show ?thesis
      by (auto split: outcome.splits sum.splits)
  next
    case None
    have vals: "affinity_values table \<subseteq> {..<instance_count p}"
      using lk assms(1) affinity_get_values [of t0 _ "ip_affinity p"]
      by (auto simp: own_lookup_def pool_ok_def split: option.splits) blast
    from lk None have "own_lookup t0 key p = (None, table)" by simp
    from this assms(2) obtain p2 where
      cr: "checkout_request t1 t2 (pool_request p policy key) (p\<lparr> ip_affinity := table \<rparr>, st) = (r, p2, st')"
      and p': "p' = (case (r, key) of (Returned (Inr l), Some k) \<Rightarrow>
           p2\<lparr> ip_affinity := affinity_insert t3 k (pl_instance_index l) (ip_affinity p2) \<rparr> | _ \<Rightarrow> p2)"
      by (rule checkout_miss)
    have S: "ip_placements p2 = ip_placements p" "ip_allowed_placements p2 = ip_allowed_placements p"
      "ip_affinity p2 = table" using checkout_request_served [OF cr] by simp_all
    have served: "case r of Returned (Inr l) \<Rightarrow> served_by p l | _ \<Rightarrow> True"
      using checkout_request_served [OF cr] by (auto split: outcome.splits sum.splits)
    have "ip_placements p' = ip_placements p" "ip_allowed_placements p' = ip_allowed_placements p"
      unfolding p' by (auto simp: S split: outcome.splits sum.splits option.splits)
    moreover have "affinity_values (ip_affinity p') \<subseteq> {..<instance_count p}"
    proof (cases "\<exists>l k. r = Returned (Inr l) \<and> key = Some k")
      case True
      then obtain l k where l: "r = Returned (Inr l)" "key = Some k" by blast
      have "pl_instance_index l < instance_count p" using served l by (simp add: served_by_def)
      then show ?thesis
        using affinity_insert_values [of t3 k "pl_instance_index l" table] vals by (auto simp: p' l S)
    next
      case False
      then have "p' = p2" unfolding p' by (auto split: outcome.splits sum.splits option.splits)
      then show ?thesis using S vals by simp
    qed
    ultimately show ?thesis using pool_ok_cong [OF assms(1)] served by blast
  qed
qed

lemma checkout_no_key_no_panic:
  assumes "pool_ok kind p" and "checkout t0 t1 t2 t3 policy None (p, st) = (r, p', st')"
  shows "r \<noteq> Panicked"
proof -
  have "own_lookup t0 None p = (None, ip_affinity p)" by (simp add: own_lookup_def)
  from this assms(2) obtain p2 where
    cr: "checkout_request t1 t2 (pool_request p policy None) (p\<lparr> ip_affinity := ip_affinity p \<rparr>, st) = (r, p2, st')"
    by (rule checkout_miss)
  have wf: "pool_wf kind p" using assms(1) by (simp add: pool_ok_def)
  then have "pc_kind (ip_placements p ! 0) = kind" by (simp add: pool_wf_def)
  with checkout_request_no_panic [OF wf, of "pool_request p policy None" "ip_allowed_placements p"] cr
  show ?thesis by (simp add: pool_request_simps)
qed

text \<open>The scheduler's lookup of an affinity key does not consult the placements the request allows.\<close>

lemma affinity_ignores_allowed:
  assumes "pool_wf kind p"
    and "map_of (at_entries (ss_affinity st)) k = Some e" and "t1 - ae_last_used e \<le> at_ttl (ss_affinity st)"
    and "core_at st (ae_value e) = Some c" and "ds_kind (ss_devices st ! al_device_index (ae_value e)) = kind"
    and "cs_load c < usize_max"
  shows "\<exists>l st'. scheduler_acquire t1 t2 (pool_request p policy (Some k)) st = (Inr l, st') \<and>
    placement_key (lease_placement l) = (ds_id (ss_devices st ! al_device_index (ae_value e)), cs_id c)"
proof -
  let ?a = "ae_value e" and ?rq = "pool_request p policy (Some k)"
  have kind: "pc_kind (ip_placements p ! 0) = kind" using assms(1) by (simp add: pool_wf_def)
  have i: "al_device_index ?a < length (ss_devices st)"
    "al_core_index ?a < length (ds_cores (ss_devices st ! al_device_index ?a))"
    and c: "c = ds_cores (ss_devices st ! al_device_index ?a) ! al_core_index ?a"
    using assms(4) by (auto simp: core_at_def split: if_splits)
  obtain t where get: "affinity_get t1 k (ss_affinity st) = (Some ?a, t)" using affinity_get_hit [OF assms(2,3)] by blast
  then have lk: "affinity_lookup t1 ?rq st = (Some ?a, st\<lparr> ss_affinity := t \<rparr>)"
    by (simp add: affinity_lookup_def pool_request_simps)
  note D = devices_cong [OF affinity_lookup_devices [OF lk]]
  have di: "al_device_index ?a \<in> set (device_indexes ?rq st)"
    using i(1) assms(5) kind by (simp add: device_indexes_iff pool_request_simps)
  then have valid: "allocation_is_valid (rq_kind ?rq) (device_indexes ?rq st) ?a (rq_core_selection ?rq) (st\<lparr> ss_affinity := t \<rparr>)"
    using i assms(5) kind by (simp add: allocation_is_valid_def Let_def pool_request_simps)
  obtain st2 where inc: "increment ?a (st\<lparr> ss_affinity := t \<rparr>) = (Inr (), st2)"
    using increment_total [of "st\<lparr> ss_affinity := t \<rparr>" ?a] assms(4,6) D by (auto simp: load_of_def)
  have ne: "device_indexes ?rq st \<noteq> []" using di by auto
  have acq: "acquire t1 t2 ?rq st = (Inr ?a, st2)"
    using ne lk valid inc unfolding acquire_def by (simp add: Let_def)
  note L = layout_nth(2) [OF acquire_layout [OF acq] i(1)]
  then have cid: "cs_id (ds_cores (ss_devices st2 ! al_device_index ?a) ! al_core_index ?a) = cs_id c"
    using i(2) c by (metis length_map nth_map)
  then show ?thesis using acq L by (simp add: scheduler_acquire_def Let_def lease_placement_def placement_key_def)
qed

section \<open>Properties of the pools\<close>

text \<open>A new pool has the requested number of instances, all on placements of its topology with
  the requested kind and core selection, filled evenly: instance i sits on available placement
  i modulo their number.\<close>

lemma instance_pool_even:
  assumes "instance_pool_new tp kind n sel = Inr p"
  shows "pool_ok kind p \<and> instance_count p = n \<and>
    (\<forall>i < n. ip_placements p ! i = available_placements tp kind sel ! (i mod length (available_placements tp kind sel))) \<and>
    (\<forall>pl \<in> set (ip_placements p). \<exists>d \<in> set (tp_devices tp). sd_kind d = kind \<and> sd_id d = pc_device_id pl \<and>
       pc_core_id pl \<in> core_id ` set (sd_cores d) \<and> contains sel (pc_core_id pl))"
proof -
  have wf: "pool_wf kind p" "instance_count p = n" "set (ip_placements p) \<subseteq> set (available_placements tp kind sel)"
    using instance_pool_new_wf [OF assms] by simp_all
  have eq: "ip_placements p = map (\<lambda>i. available_placements tp kind sel ! (i mod length (available_placements tp kind sel))) [0..<n]"
    and aff: "ip_affinity p = affinity_new n 600"
    using assms by (auto simp: instance_pool_new_def Let_def split: if_splits)
  have "\<exists>d \<in> set (tp_devices tp). sd_kind d = kind \<and> sd_id d = pc_device_id pl \<and>
       pc_core_id pl \<in> core_id ` set (sd_cores d) \<and> contains sel (pc_core_id pl)"
    if "pl \<in> set (available_placements tp kind sel)" for pl
    using that by (auto simp: available_placements_def)
  then show ?thesis
    using wf eq aff by (auto simp: pool_ok_def affinity_values_def affinity_new_def)
qed

text \<open>C18. A checkout hands out an instance that really runs where its lease is: whatever the key and the
  policy, a granted checkout names an instance of the pool whose placement is the device and core
  the scheduler leased, the pool stays well-formed, and without a key the checkout never panics.\<close>

theorem checkout_serves_instance:
  assumes "pool_ok kind p" and "checkout t0 t1 t2 t3 policy key (p, st) = (r, p', st')"
  shows "pool_ok kind p' \<and> (case r of Returned (Inr l) \<Rightarrow> served_by p l | _ \<Rightarrow> True) \<and> (key = None \<longrightarrow> r \<noteq> Panicked)"
  using checkout_pool_ok [OF assms] checkout_no_key_no_panic [OF assms(1)] assms(2) by blast

text \<open>C31. An affinity key that two pools of one scheduler share breaks the second pool: when the scheduler
  remembers the key for a core of the pool's kind outside the pool's placements, the lookup ignores
  the allowed placements, no instance matches the lease, and the checkout divides by zero.\<close>

theorem shared_affinity_panics:
  assumes "pool_ok kind p" and "\<not> ip_next_poisoned p" and "map_of (at_entries (ip_affinity p)) k = None"
    and "map_of (at_entries (ss_affinity st)) k = Some e" and "t1 - ae_last_used e \<le> at_ttl (ss_affinity st)"
    and "core_at st (ae_value e) = Some c" and "ds_kind (ss_devices st ! al_device_index (ae_value e)) = kind"
    and "(ds_id (ss_devices st ! al_device_index (ae_value e)), cs_id c) \<notin> set (ip_allowed_placements p)"
    and "cs_load c < usize_max"
  shows "fst (checkout t0 t1 t2 t3 policy (Some k) (p, st)) = Panicked"
proof -
  let ?rq = "pool_request p policy (Some k)"
  have wf: "pool_wf kind p" using assms(1) by (simp add: pool_ok_def)
  obtain l st2 where l: "scheduler_acquire t1 t2 ?rq st = (Inr l, st2)"
    and key: "placement_key (lease_placement l) \<notin> set (ip_allowed_placements p)"
    using affinity_ignores_allowed [OF wf assms(4-7,9)] assms(8) by metis
  let ?p1 = "p\<lparr> ip_affinity := ip_affinity p \<rparr>"
  have "lease_placement l \<notin> set (ip_placements ?p1)" using key wf by (auto simp: pool_wf_def)
  then have "matching_instances ?p1 (lease_placement l) = []" by (simp add: matching_empty)
  then have cr: "fst (checkout_request t1 t2 ?rq (?p1, st)) = Panicked"
    using l assms(2) unfolding checkout_request_def by (simp add: Let_def lease_placement_def)
  obtain r p' st' where co: "checkout t0 t1 t2 t3 policy (Some k) (p, st) = (r, p', st')" by (metis prod_cases3)
  have "own_lookup t0 (Some k) p = (None, ip_affinity p)" using assms(3) by (simp add: own_lookup_def affinity_get_def)
  from this co obtain p2 where "checkout_request t1 t2 ?rq (?p1, st) = (r, p2, st')" by (rule checkout_miss)
  then show ?thesis using cr co by simp
qed


subsection \<open>Examples\<close>

definition sample_pool :: "8 word \<Rightarrow> InstancePool" where
  "sample_pool core =
    \<lparr> ip_placements = [\<lparr> pc_kind = RknnNpu, pc_device_id = 0, pc_core_id = core \<rparr>], ip_allowed_placements = [(0, core)],
      ip_next_instance = 0, ip_next_poisoned = False, ip_affinity = affinity_new 1 600 \<rparr>"

lemma sample_pool_new:
  "instance_pool_new \<lparr> tp_deployment = SoC, tp_devices =
     [\<lparr> sd_kind = RknnNpu, sd_id = 0, sd_cores = [\<lparr> core_id = 0 \<rparr>, \<lparr> core_id = 1 \<rparr>] \<rparr>] \<rparr> RknnNpu 1 (Single 1) = Inr (sample_pool 1)"
  by (simp add: instance_pool_new_def available_placements_def sample_pool_def placement_key_def MAX_INSTANCE_COUNT_def)

lemma sample_pool_ok: "pool_ok RknnNpu (sample_pool c)"
  by (simp add: pool_ok_def pool_wf_def sample_pool_def affinity_values_def affinity_new_def placement_key_def)

text \<open>The scheduler after the pool on core 0 checked out an instance for the stream \<open>cam\<close>.\<close>

definition state_after_cam :: SchedulerState where
  "state_after_cam = snd (snd (checkout 0 0 0 0 LeastLoaded (Some ''cam'') (sample_pool 0, sample_state)))"

lemma state_after_cam:
  "ss_devices state_after_cam = [\<lparr> ds_kind = RknnNpu, ds_id = 0,
        ds_cores = [\<lparr> cs_id = 0, cs_load = 1, cs_overflow_count = 0, cs_underflow_count = 0 \<rparr>,
                    \<lparr> cs_id = 1, cs_load = 0, cs_overflow_count = 0, cs_underflow_count = 0 \<rparr>] \<rparr>]"
  "at_ttl (ss_affinity state_after_cam) = 600"
  "at_entries (ss_affinity state_after_cam) =
     [(''cam'', \<lparr> ae_value = \<lparr> al_device_index = 0, al_core_index = 0 \<rparr>, ae_last_used = 0 \<rparr>)]"
  by (simp_all add: state_after_cam_def checkout_def sample_pool_def checkout_request_def scheduler_acquire_def
      sample_simps with_policy_def with_allowed_placements_def matching_instances_def Let_def)

theorem checkout_serves_instance_witness:
  "fst (checkout 0 0 0 0 RoundRobin None (sample_pool 1, state_after_cam)) \<noteq> Panicked"
proof -
  obtain r p' st' where co: "checkout 0 0 0 0 RoundRobin None (sample_pool 1, state_after_cam) = (r, p', st')"
    by (metis prod_cases3)
  from checkout_serves_instance [OF sample_pool_ok co] co show ?thesis by simp
qed

theorem shared_affinity_panics_witness:
  "fst (checkout 9 9 9 9 LeastLoaded (Some ''cam'') (sample_pool 1, state_after_cam)) = Panicked"
  by (rule shared_affinity_panics [OF sample_pool_ok,
        where e = "\<lparr> ae_value = \<lparr> al_device_index = 0, al_core_index = 0 \<rparr>, ae_last_used = 0 \<rparr>" and
        c = "\<lparr> cs_id = 0, cs_load = 1, cs_overflow_count = 0, cs_underflow_count = 0 \<rparr>"])
     (simp_all add: sample_pool_def affinity_new_def state_after_cam core_at_def usize_max_def)

end
