(* ===== verification/RustStr.thy ===== *)
theory RustStr
  imports Prelude "HOL-Library.Char_ord" "HOL-Library.List_Lexorder"
begin

text \<open>
  The operations of Rust's \<open>str\<close> and \<open>BTreeMap\<close> that the graph configuration code
  uses.  A string is its list of characters; the configuration texts the program
  reads are ASCII in the model, so that length in bytes and length in characters agree
  and white space is ASCII white space.  A \<open>BTreeMap\<close> is an association list in
  ascending key order.
\<close>

section \<open>Searching and splitting\<close>

definition starts_with :: "string \<Rightarrow> string \<Rightarrow> bool" where
  "starts_with p s \<longleftrightarrow> take (length p) s = p"

definition ends_with :: "string \<Rightarrow> string \<Rightarrow> bool" where
  "ends_with p s \<longleftrightarrow> starts_with (rev p) (rev s)"

text \<open>\<open>str::find\<close> with a string pattern: the first position.\<close>

fun find_sub :: "string \<Rightarrow> string \<Rightarrow> nat option" where
  "find_sub p [] = (if p = [] then Some 0 else None)"
| "find_sub p (c # s) = (if starts_with p (c # s) then Some 0 else map_option Suc (find_sub p s))"

definition contains_sub :: "string \<Rightarrow> string \<Rightarrow> bool" where
  "contains_sub p s \<longleftrightarrow> (\<exists>u v. s = u @ p @ v)"

definition split_once :: "string \<Rightarrow> string \<Rightarrow> (string \<times> string) option" where
  "split_once p s = map_option (\<lambda>i. (take i s, drop (i + length p) s)) (find_sub p s)"

text \<open>\<open>str::trim\<close> and its relatives.\<close>

definition is_whitespace :: "char \<Rightarrow> bool" where
  "is_whitespace c \<longleftrightarrow> c \<in> {CHR 0x09, CHR 0x0A, CHR 0x0B, CHR 0x0C, CHR 0x0D, CHR '' ''}"

definition trim_start :: "string \<Rightarrow> string" where
  "trim_start s = dropWhile is_whitespace s"

definition trim_end :: "string \<Rightarrow> string" where
  "trim_end s = rev (dropWhile is_whitespace (rev s))"

definition trim :: "string \<Rightarrow> string" where
  "trim s = trim_end (trim_start s)"

text \<open>With an empty pattern \<open>trim_start_matches\<close> would not end; the source only uses \<open>"${"\<close>.\<close>

function trim_start_matches :: "string \<Rightarrow> string \<Rightarrow> string" where
  "trim_start_matches p s =
    (if p \<noteq> [] \<and> s \<noteq> [] \<and> starts_with p s then trim_start_matches p (drop (length p) s) else s)"
  by auto
termination by (relation "measure (\<lambda>(p, s). length s)") auto

declare trim_start_matches.simps [simp del]

definition trim_end_matches :: "char \<Rightarrow> string \<Rightarrow> string" where
  "trim_end_matches c s = rev (dropWhile (\<lambda>d. d = c) (rev s))"

text \<open>\<open>str::to_lowercase\<close> on ASCII.\<close>

definition lower_char :: "char \<Rightarrow> char" where
  "lower_char c = (if of_char c \<ge> (65 :: nat) \<and> of_char c \<le> (90 :: nat) then char_of (of_char c + 32 :: nat) else c)"

definition to_lowercase :: "string \<Rightarrow> string" where
  "to_lowercase s = map lower_char s"

text \<open>\<open>str::replace\<close> and \<open>str::matches(..).count()\<close> for a non-empty pattern: occurrences that
  do not overlap, from the left.\<close>

function replace :: "string \<Rightarrow> string \<Rightarrow> string \<Rightarrow> string" where
  "replace p r s =
    (case s of
       [] \<Rightarrow> []
     | c # cs \<Rightarrow> if p \<noteq> [] \<and> starts_with p s then r @ replace p r (drop (length p) s) else c # replace p r cs)"
  by pat_completeness auto
termination by (relation "measure (\<lambda>(p, r, s). length s)") auto

declare replace.simps [simp del]

function count_matches :: "string \<Rightarrow> string \<Rightarrow> nat" where
  "count_matches p s =
    (case s of
       [] \<Rightarrow> 0
     | c # cs \<Rightarrow> if p \<noteq> [] \<and> starts_with p s then Suc (count_matches p (drop (length p) s)) else count_matches p cs)"
  by pat_completeness auto
termination by (relation "measure (\<lambda>(p, s). length s)") auto

declare count_matches.simps [simp del]

subsection \<open>Lemmas\<close>

lemma starts_with_iff: "starts_with p s \<longleftrightarrow> (\<exists>v. s = p @ v)"
  unfolding starts_with_def by (metis append_eq_conv_conj append_take_drop_id)

lemma starts_with_length: "starts_with p s \<Longrightarrow> length p \<le> length s"
  unfolding starts_with_def by (metis length_take min.cobounded1)

lemma starts_with_append [simp]: "starts_with p (p @ v)"
  by (auto simp: starts_with_iff)

lemma contains_sub_Cons: "contains_sub p (c # s) \<longleftrightarrow> starts_with p (c # s) \<or> contains_sub p s"
proof
  assume "contains_sub p (c # s)"
  then obtain u v where uv: "c # s = u @ p @ v" by (auto simp: contains_sub_def)
  show "starts_with p (c # s) \<or> contains_sub p s"
  proof (cases u)
    case Nil
    then show ?thesis using uv by simp
  next
    case (Cons d u')
    then show ?thesis using uv by (auto simp: contains_sub_def)
  qed
next
  assume "starts_with p (c # s) \<or> contains_sub p s"
  then show "contains_sub p (c # s)"
    unfolding contains_sub_def starts_with_iff by (metis append_Cons append_Nil)
qed

lemma contains_sub_Nil [simp]: "contains_sub p [] \<longleftrightarrow> p = []"
  by (simp add: contains_sub_def)

text \<open>\<open>find_sub\<close> finds the first occurrence.\<close>

lemma find_sub_None: "find_sub p s = None \<longleftrightarrow> \<not> contains_sub p s"
  by (induction p s rule: find_sub.induct) (auto simp: contains_sub_Cons)

lemma find_sub_Some:
  "find_sub p s = Some i \<Longrightarrow> starts_with p (drop i s) \<and> i + length p \<le> length s"
proof (induction p s arbitrary: i rule: find_sub.induct)
  case (2 p c s)
  show ?case
  proof (cases "starts_with p (c # s)")
    case True
    then have "i = 0" "length p \<le> length (c # s)" using 2 starts_with_length [OF True] by simp_all
    then show ?thesis using True by simp
  next
    case False
    then show ?thesis using 2 by auto
  qed
qed (auto split: if_splits simp: starts_with_def)

text \<open>When the pattern first occurs after \<open>u\<close>.\<close>

lemma find_sub_first:
  "(\<And>i. i < length u \<Longrightarrow> \<not> starts_with p (drop i (u @ p @ v))) \<Longrightarrow> find_sub p (u @ p @ v) = Some (length u)"
proof (induction u)
  case Nil
  then show ?case by (cases "p @ v") (auto, metis append_Nil append_self_conv2 starts_with_append)
next
  case (Cons c u)
  have "\<not> starts_with p (c # u @ p @ v)" using Cons.prems [of 0] by simp
  moreover have "find_sub p (u @ p @ v) = Some (length u)"
    using Cons.prems [of "Suc i" for i] by (intro Cons.IH) auto
  ultimately show ?case by simp
qed

lemma find_sub_take: "find_sub p s = Some i \<Longrightarrow> j < i \<Longrightarrow> \<not> starts_with p (drop j s)"
proof (induction p s arbitrary: i j rule: find_sub.induct)
  case (2 p c s)
  then have ns: "\<not> starts_with p (c # s)" and i: "\<exists>k. find_sub p s = Some k \<and> i = Suc k" by (auto split: if_splits)
  then show ?case using 2 by (cases j) auto
qed (auto split: if_splits)

lemma find_char_first: "c \<notin> set u \<Longrightarrow> find_sub [c] (u @ c # v) = Some (length u)"
  by (induction u) (auto simp: starts_with_def)

lemma split_once_char: "c \<notin> set u \<Longrightarrow> split_once [c] (u @ c # v) = Some (u, v)"
  by (simp add: split_once_def find_char_first)

lemma split_once_SomeD: "split_once p s = Some (u, v) \<Longrightarrow> s = u @ p @ v"
proof -
  assume "split_once p s = Some (u, v)"
  then obtain i where i: "find_sub p s = Some i" "u = take i s" "v = drop (i + length p) s"
    by (auto simp: split_once_def)
  from find_sub_Some [OF i(1)] obtain w where w: "drop i s = p @ w" by (auto simp: starts_with_iff)
  then have "w = drop (length p) (drop i s)" by simp
  then have "w = v" using i(3) by (simp add: add.commute)
  then show "s = u @ p @ v" using w i(2) append_take_drop_id [of i s] by simp
qed

lemma split_once_char_SomeD: "split_once [c] s = Some (u, v) \<Longrightarrow> c \<notin> set u"
proof -
  assume sp: "split_once [c] s = Some (u, v)"
  then obtain i where i: "find_sub [c] s = Some i" "u = take i s" by (auto simp: split_once_def)
  show "c \<notin> set u"
  proof
    assume "c \<in> set u"
    then obtain j where j: "j < length u" "u ! j = c" by (auto simp: in_set_conv_nth)
    then have "j < i" "s ! j = c" "j < length s" using i(2) by auto
    then have "starts_with [c] (drop j s)" by (simp add: starts_with_def take_Suc_conv_app_nth nth_drop hd_drop_conv_nth take_Suc)
    then show False using find_sub_take [OF i(1) \<open>j < i\<close>] by simp
  qed
qed

text \<open>Trimmed strings.\<close>

definition trimmed :: "string \<Rightarrow> bool" where
  "trimmed s \<longleftrightarrow> s = [] \<or> (\<not> is_whitespace (hd s) \<and> \<not> is_whitespace (last s))"

lemma trim_start_idem: "s = [] \<or> \<not> is_whitespace (hd s) \<Longrightarrow> trim_start s = s"
  by (cases s) (auto simp: trim_start_def)

lemma trim_end_idem: "s = [] \<or> \<not> is_whitespace (last s) \<Longrightarrow> trim_end s = s"
  by (cases s rule: rev_cases) (auto simp: trim_end_def)

lemma trim_trimmed [simp]: "trimmed s \<Longrightarrow> trim s = s"
  by (auto simp: trim_def trimmed_def trim_start_idem trim_end_idem)

lemma trim_start_hd: "trim_start s = [] \<or> \<not> is_whitespace (hd (trim_start s))"
  unfolding trim_start_def using hd_dropWhile [of is_whitespace s] by auto

lemma trim_end_last: "trim_end s = [] \<or> \<not> is_whitespace (last (trim_end s))"
  unfolding trim_end_def using hd_dropWhile [of is_whitespace "rev s"] by (auto simp: last_rev)

lemma trim_end_prefix: "\<exists>w. s = trim_end s @ w"
proof -
  have "rev s = takeWhile is_whitespace (rev s) @ dropWhile is_whitespace (rev s)" by simp
  then have "s = rev (dropWhile is_whitespace (rev s)) @ rev (takeWhile is_whitespace (rev s))"
    by (metis rev_append rev_rev_ident)
  then show ?thesis unfolding trim_end_def by blast
qed

lemma trim_start_suffix: "\<exists>w. s = w @ trim_start s"
  unfolding trim_start_def by (metis takeWhile_dropWhile_id)

lemma trimmed_trim [simp]: "trimmed (trim s)"
proof (cases "trim s = []")
  case True
  then show ?thesis by (simp add: trimmed_def)
next
  case False
  obtain w where w: "trim_start s = trim s @ w" unfolding trim_def using trim_end_prefix by blast
  then have "hd (trim s) = hd (trim_start s)" "trim_start s \<noteq> []" using False by (metis hd_append2, auto)
  then have "\<not> is_whitespace (hd (trim s))" using trim_start_hd [of s] by simp
  moreover have "\<not> is_whitespace (last (trim s))" using trim_end_last [of "trim_start s"] False by (simp add: trim_def)
  ultimately show ?thesis by (simp add: trimmed_def)
qed

lemma trim_substring: "\<exists>u v. s = u @ trim s @ v"
proof -
  obtain u where u: "s = u @ trim_start s" using trim_start_suffix by blast
  obtain v where v: "trim_start s = trim s @ v" unfolding trim_def using trim_end_prefix by blast
  show ?thesis using u v by metis
qed

lemma contains_sub_substring: "contains_sub p s \<Longrightarrow> contains_sub p (u @ s @ v)"
  unfolding contains_sub_def by (metis append.assoc)

lemma set_trim: "set (trim s) \<subseteq> set s"
  using trim_substring [of s] by (metis Un_iff set_append subsetI)

section \<open>Ordered maps\<close>

fun bt_insert :: "'k::linorder \<Rightarrow> 'v \<Rightarrow> ('k \<times> 'v) list \<Rightarrow> ('k \<times> 'v) list" where
  "bt_insert k v [] = [(k, v)]"
| "bt_insert k v ((k', v') # m) =
    (if k < k' then (k, v) # (k', v') # m
     else if k = k' then (k, v) # m
     else (k', v') # bt_insert k v m)"

definition bt_remove :: "'k::linorder \<Rightarrow> ('k \<times> 'v) list \<Rightarrow> ('k \<times> 'v) list" where
  "bt_remove k m = filter (\<lambda>(k', _). k' \<noteq> k) m"

definition bt_extend :: "('k::linorder \<times> 'v) list \<Rightarrow> ('k \<times> 'v) list \<Rightarrow> ('k \<times> 'v) list" where
  "bt_extend m other = fold (\<lambda>(k, v). bt_insert k v) other m"

definition bt_keys :: "('k::linorder \<times> 'v) list \<Rightarrow> 'k list" where
  "bt_keys m = map fst m"

definition bt_wf :: "('k::linorder \<times> 'v) list \<Rightarrow> bool" where
  "bt_wf m \<longleftrightarrow> sorted_wrt (<) (map fst m)"

lemma bt_insert_keys: "fst ` set (bt_insert k v m) = insert k (fst ` set m)"
  by (induction k v m rule: bt_insert.induct) auto

lemma bt_insert_wf [simp]: "bt_wf m \<Longrightarrow> bt_wf (bt_insert k v m)"
proof (induction k v m rule: bt_insert.induct)
  case (2 k v k' v' m)
  have wf: "bt_wf m" "\<forall>x \<in> fst ` set m. k' < x" using "2.prems" by (auto simp: bt_wf_def)
  show ?case
  proof (cases "k < k' \<or> k = k'")
    case True
    then show ?thesis using "2.prems" by (auto simp: bt_wf_def)
  next
    case False
    then have "bt_wf (bt_insert k v m)" using "2.IH" wf(1) by auto
    moreover have "\<forall>x \<in> fst ` set (bt_insert k v m). k' < x" using wf(2) False by (auto simp: bt_insert_keys)
    ultimately show ?thesis using False by (auto simp: bt_wf_def)
  qed
qed (simp add: bt_wf_def)

lemma map_of_bt_insert: "bt_wf m \<Longrightarrow> map_of (bt_insert k v m) = (map_of m)(k \<mapsto> v)"
proof (induction k v m rule: bt_insert.induct)
  case (2 k v k' v' m)
  then show ?case by (auto simp: bt_wf_def fun_eq_iff)
qed auto

lemma bt_wf_remove [simp]: "bt_wf m \<Longrightarrow> bt_wf (bt_remove k m)"
  unfolding bt_wf_def bt_remove_def by (induction m) auto

lemma map_of_bt_remove: "map_of (bt_remove k m) = (map_of m)(k := None)"
  unfolding bt_remove_def by (induction m) (auto simp: fun_eq_iff)

lemma bt_wf_extend [simp]: "bt_wf m \<Longrightarrow> bt_wf (bt_extend m other)"
  unfolding bt_extend_def by (induction other arbitrary: m) (auto split: prod.splits)

lemma bt_wf_distinct: "bt_wf m \<Longrightarrow> distinct (map fst m)"
  unfolding bt_wf_def by (simp add: strict_sorted_iff)

lemma map_of_bt_extend:
  "bt_wf m \<Longrightarrow> distinct (map fst other) \<Longrightarrow> map_of (bt_extend m other) = map_of m ++ map_of other"
proof (induction other arbitrary: m)
  case (Cons kv other)
  obtain k v where kv: "kv = (k, v)" by fastforce
  have "map_of (bt_extend m (kv # other)) = map_of (bt_extend (bt_insert k v m) other)" by (simp add: bt_extend_def kv)
  also have "\<dots> = map_of (bt_insert k v m) ++ map_of other" using Cons.prems by (intro Cons.IH) auto
  also have "\<dots> = map_of m ++ map_of (kv # other)"
    using Cons.prems by (simp add: map_of_bt_insert kv map_add_upd_left dom_map_of_conv_image_fst)
  finally show ?case .
qed (simp add: bt_extend_def)

end
