(* ===== verification/GraphTypes.thy ===== *)
theory GraphTypes
  imports RustStr Resource DataTypes
begin

text \<open>
  The data of \<open>dg-graph\<close>: its errors and their scopes (\<open>error.rs\<close>), the configuration
  model (\<open>spec.rs\<close>: execution, defaults, limits, nodes, connections, graphs), the
  element registry as a list of descriptors (\<open>registry.rs\<close>, \<open>schema.rs\<close>, the ports of
  \<open>element.rs\<close>), and the textual form of connections.  JSON values are those of
  \<open>serde_json\<close>: objects are ordered maps, a number is one of its three internal forms.
\<close>

section \<open>Errors\<close>

text \<open>The errors of the runtime and of the parsers carry their message.\<close>

datatype graph_error =
  GConfig string
| GValidation string string
| GUnknownFormat string
| GUnknownNodeKind string
| GUnknownPort string string
| GPortTypeMismatch string string string string
| GDuplicateNode string
| GCycleDetected
| GElement string string
| GBadFrame string string
| GRuntime string
| GNotRunning
| GNotBuilt string
| GResourceLimit string usize usize
| GTimeout string
| GBusy string
| GCancelled
| GInvalidState string
| GInvariant string
| GIo string
| GJson string
| GYaml string
| GTomlDe string
| GTomlSer string
| GRuntimeBackend string
| GCore core_error

type_synonym 'a graph_result = "graph_error + 'a"

datatype ErrorScope = FrameLocal | StreamLocal | NodeFatal | GraphFatal

fun is_fatal :: "ErrorScope \<Rightarrow> bool" where
  "is_fatal NodeFatal = True"
| "is_fatal GraphFatal = True"
| "is_fatal _ = False"

fun error_scope :: "graph_error \<Rightarrow> ErrorScope" where
  "error_scope GCancelled = FrameLocal"
| "error_scope GNotRunning = FrameLocal"
| "error_scope (GBadFrame _ _) = FrameLocal"
| "error_scope (GInvariant _) = GraphFatal"
| "error_scope _ = NodeFatal"

fun is_cancellation :: "graph_error \<Rightarrow> bool" where
  "is_cancellation GCancelled = True"
| "is_cancellation GNotRunning = True"
| "is_cancellation _ = False"

fun display_graph_error :: "graph_error \<Rightarrow> string" where
  "display_graph_error (GConfig m) = ''configuration error: '' @ m"
| "display_graph_error (GValidation p m) = ''invalid graph spec at '' @ p @ '': '' @ m"
| "display_graph_error (GUnknownFormat p) = ''unknown graph format for path: '' @ p"
| "display_graph_error (GUnknownNodeKind k) = ''unknown node kind: '' @ k"
| "display_graph_error (GUnknownPort n p) = ''unknown port '' @ p @ '' on node '' @ n"
| "display_graph_error (GPortTypeMismatch fn fp tn tp) =
    ''connection type mismatch from '' @ fn @ ''.'' @ fp @ '' to '' @ tn @ ''.'' @ tp"
| "display_graph_error (GDuplicateNode n) = ''duplicate node name: '' @ n"
| "display_graph_error GCycleDetected = ''graph contains a cycle''"
| "display_graph_error (GElement e m) = ''element error in '' @ e @ '': '' @ m"
| "display_graph_error (GBadFrame e m) = ''bad frame in '' @ e @ '': '' @ m"
| "display_graph_error (GRuntime m) = ''runtime error: '' @ m"
| "display_graph_error GNotRunning = ''graph is not running''"
| "display_graph_error (GNotBuilt m) = ''graph is not built: '' @ m"
| "display_graph_error (GResourceLimit r q l) =
    ''resource limit exceeded for '' @ r @ '': requested '' @ show_nat q @ '', limit '' @ show_nat l"
| "display_graph_error (GTimeout m) = ''timeout: '' @ m"
| "display_graph_error (GBusy m) = ''busy: '' @ m"
| "display_graph_error GCancelled = ''cancelled''"
| "display_graph_error (GInvalidState m) = ''invalid state: '' @ m"
| "display_graph_error (GInvariant m) = ''invariant violation: '' @ m"
| "display_graph_error (GIo m) = m"
| "display_graph_error (GJson m) = m"
| "display_graph_error (GYaml m) = m"
| "display_graph_error (GTomlDe m) = m"
| "display_graph_error (GTomlSer m) = m"
| "display_graph_error (GRuntimeBackend m) = m"
| "display_graph_error (GCore e) = display_core_error e"

section \<open>JSON values\<close>

datatype Number = PosInt "64 word" | NegInt int | FloatNum "64 word"

datatype Value =
  Null | Bool bool | Number Number | String string | Array "Value list" | Object "(string \<times> Value) list"

text \<open>Objects are ordered maps at every level.\<close>

fun value_wf :: "Value \<Rightarrow> bool" where
  "value_wf (Array vs) = list_all value_wf vs"
| "value_wf (Object m) = (bt_wf m \<and> list_all (\<lambda>kv. value_wf (snd kv)) m)"
| "value_wf _ = True"

section \<open>Configuration\<close>

datatype ParallelType = Sequential | Task | Pipeline

record ExecutionSpec =
  ex_parallel :: ParallelType
  ex_queue_capacity :: usize
  ex_workers :: "usize option"

definition DEFAULT_QUEUE_CAPACITY :: usize where
  "DEFAULT_QUEUE_CAPACITY = 20"

definition execution_default :: ExecutionSpec where
  "execution_default = \<lparr> ex_parallel = Pipeline, ex_queue_capacity = DEFAULT_QUEUE_CAPACITY, ex_workers = None \<rparr>"

record NodeTemplate =
  nt_kind :: string
  nt_template :: "string option"
  nt_params :: Value

datatype DeviceDefault = Named string | Detailed string "64 word"

record DefaultsSpec =
  df_backend :: "string option"
  df_device :: "DeviceDefault option"
  df_precision :: "string option"

definition defaults_default :: DefaultsSpec where
  "defaults_default = \<lparr> df_backend = None, df_device = None, df_precision = None \<rparr>"

text \<open>\<open>ResourceLimits\<close> has the fields of \<open>ResourcePolicy\<close>; the conversion copies them.\<close>

record ResourceLimits =
  rl_max_config_bytes :: usize
  rl_max_include_depth :: usize
  rl_max_include_count :: usize
  rl_max_nodes :: usize
  rl_max_connections :: usize
  rl_max_tensor_bytes :: usize
  rl_max_frame_bytes :: usize
  rl_max_model_bytes :: usize
  rl_max_buffer_packets :: usize
  rl_max_buffer_bytes :: usize

definition limits_default :: ResourceLimits where
  "limits_default =
    \<lparr> rl_max_config_bytes = max_config_bytes resource_policy_default,
      rl_max_include_depth = max_include_depth resource_policy_default,
      rl_max_include_count = max_include_count resource_policy_default,
      rl_max_nodes = max_nodes resource_policy_default,
      rl_max_connections = max_connections resource_policy_default,
      rl_max_tensor_bytes = max_tensor_bytes resource_policy_default,
      rl_max_frame_bytes = max_frame_bytes resource_policy_default,
      rl_max_model_bytes = max_model_bytes resource_policy_default,
      rl_max_buffer_packets = max_buffer_packets resource_policy_default,
      rl_max_buffer_bytes = max_buffer_bytes resource_policy_default \<rparr>"

definition policy_of_limits :: "ResourceLimits \<Rightarrow> resource_policy" where
  "policy_of_limits l =
    \<lparr> max_config_bytes = rl_max_config_bytes l,
      max_include_depth = rl_max_include_depth l,
      max_include_count = rl_max_include_count l,
      max_nodes = rl_max_nodes l,
      max_connections = rl_max_connections l,
      max_tensor_bytes = rl_max_tensor_bytes l,
      max_frame_bytes = rl_max_frame_bytes l,
      max_model_bytes = rl_max_model_bytes l,
      max_buffer_packets = rl_max_buffer_packets l,
      max_buffer_bytes = rl_max_buffer_bytes l \<rparr>"

record NodeSpec =
  nd_name :: string
  nd_kind :: string
  nd_threads :: "usize option"
  nd_sink :: bool
  nd_backend :: "string option"
  nd_device :: "string option"
  nd_precision :: "string option"
  nd_template :: "string option"
  nd_params :: Value

record ConnectionSpec =
  cn_from_node :: string
  cn_from_port :: string
  cn_to_node :: string
  cn_to_port :: string

record GraphSpec =
  gs_api_version :: string
  gs_kind :: string
  gs_includes :: "string list"
  gs_variables :: "(string \<times> Value) list"
  gs_defaults :: DefaultsSpec
  gs_templates :: "(string \<times> NodeTemplate) list"
  gs_allow_cycles :: bool
  gs_execution :: ExecutionSpec
  gs_nodes :: "NodeSpec list"
  gs_connections :: "string list"
  gs_limits :: ResourceLimits

definition graph_spec_default :: GraphSpec where
  "graph_spec_default =
    \<lparr> gs_api_version = ''dg/v1'', gs_kind = ''Graph'', gs_includes = [], gs_variables = [],
      gs_defaults = defaults_default, gs_templates = [], gs_allow_cycles = False,
      gs_execution = execution_default, gs_nodes = [], gs_connections = [], gs_limits = limits_default \<rparr>"

datatype GraphFormat = Yaml | Json | Toml

text \<open>The extension of a path: what follows the last dot of its last component, if the
  component does not begin with that dot.\<close>

definition path_extension :: "string \<Rightarrow> string option" where
  "path_extension path =
    (let name = rev (takeWhile (\<lambda>c. c \<noteq> CHR ''/'') (rev path));
         ext = rev (takeWhile (\<lambda>c. c \<noteq> CHR ''.'') (rev name));
         stem = take (length name - length ext - 1) name
     in if CHR ''.'' \<in> set name \<and> stem \<noteq> [] then Some ext else None)"

definition format_from_path :: "string \<Rightarrow> GraphFormat graph_result" where
  "format_from_path path =
    (case path_extension path of
       None \<Rightarrow> Inl (GUnknownFormat path)
     | Some ext \<Rightarrow>
         if ext = ''yaml'' \<or> ext = ''yml'' then Inr Yaml
         else if ext = ''json'' then Inr Json
         else if ext = ''toml'' then Inr Toml
         else Inl (GUnknownFormat path))"

section \<open>Connections as text\<close>

definition connection_parse :: "string \<Rightarrow> ConnectionSpec graph_result" where
  "connection_parse spec =
    and_then (ok_or (split_once ''->'' spec) (GConfig (''invalid connection: '' @ spec))) (\<lambda>(from0, to0).
    let from = trim from0; to = trim to0 in
    and_then (ok_or (split_once ''.'' from) (GConfig (''invalid source endpoint: '' @ from))) (\<lambda>(from_node, from_port).
    and_then (ok_or (split_once ''.'' to) (GConfig (''invalid destination endpoint: '' @ to))) (\<lambda>(to_node, to_port).
    Inr \<lparr> cn_from_node = trim from_node, cn_from_port = trim from_port,
          cn_to_node = trim to_node, cn_to_port = trim to_port \<rparr>)))"

definition connection_display :: "ConnectionSpec \<Rightarrow> string" where
  "connection_display c =
    cn_from_node c @ ''.'' @ cn_from_port c @ '' -> '' @ cn_to_node c @ ''.'' @ cn_to_port c"

section \<open>The element registry\<close>

record PortSchema =
  ps_name :: string
  ps_dtype :: "data_type option"
  ps_required :: bool

datatype ParamType = PBool | PUint | PInt | PFloat | PStr | PEnum "string list" | PArray ParamType | PObject

record ParamField =
  pf_name :: string
  pf_ty :: ParamType
  pf_required :: bool

text \<open>The registered elements are collected at link time; they are a parameter of the model.  The
  constructor of the element itself is not part of the descriptor here.\<close>

record ElementDescriptor =
  ed_kind :: string
  ed_input_ports :: "PortSchema list"
  ed_output_ports :: "PortSchema list"
  ed_params :: "ParamField list"
  ed_validate :: "(NodeSpec \<Rightarrow> unit graph_result) option"

definition find_element :: "ElementDescriptor list \<Rightarrow> string \<Rightarrow> ElementDescriptor option" where
  "find_element registered kind = find (\<lambda>d. ed_kind d = kind) registered"

definition validate_element :: "ElementDescriptor list \<Rightarrow> NodeSpec \<Rightarrow> unit graph_result" where
  "validate_element registered node =
    and_then (ok_or (find_element registered (nd_kind node)) (GUnknownNodeKind (nd_kind node))) (\<lambda>d.
    (case ed_validate d of Some validate \<Rightarrow> validate node | None \<Rightarrow> Inr ()))"

definition element_ports :: "ElementDescriptor list \<Rightarrow> string \<Rightarrow> (PortSchema list \<times> PortSchema list) graph_result" where
  "element_ports registered kind =
    and_then (ok_or (find_element registered kind) (GUnknownNodeKind kind)) (\<lambda>d.
    Inr (ed_input_ports d, ed_output_ports d))"

definition find_port :: "PortSchema list \<Rightarrow> string \<Rightarrow> PortSchema option" where
  "find_port ports name = find (\<lambda>p. ps_name p = name) ports"

subsection \<open>Parameter schemas\<close>

definition type_object :: "string \<Rightarrow> (string \<times> Value) list" where
  "type_object name = bt_insert ''type'' (String name) []"

fun param_type_schema :: "ParamType \<Rightarrow> Value" where
  "param_type_schema PBool = Object (type_object ''boolean'')"
| "param_type_schema PUint = Object (bt_insert ''minimum'' (Number (PosInt 0)) (type_object ''integer''))"
| "param_type_schema PInt = Object (type_object ''integer'')"
| "param_type_schema PFloat = Object (type_object ''number'')"
| "param_type_schema PStr = Object (type_object ''string'')"
| "param_type_schema (PEnum vs) = Object (bt_insert ''enum'' (Array (map String vs)) (type_object ''string''))"
| "param_type_schema (PArray inner) = Object (bt_insert ''items'' (param_type_schema inner) (type_object ''array''))"
| "param_type_schema PObject = Object (type_object ''object'')"

definition params_json_schema :: "ParamField list \<Rightarrow> Value" where
  "params_json_schema params =
    (let schema0 = bt_insert ''$schema'' (String ''https://json-schema.org/draft/2020-12/schema'') [];
         schema1 = bt_insert ''type'' (String ''object'') schema0;
         schema2 = bt_insert ''additionalProperties'' (Bool False) schema1;
         properties = fold (\<lambda>field m. bt_insert (pf_name field) (param_type_schema (pf_ty field)) m) params [];
         required = map (\<lambda>field. String (pf_name field)) (filter pf_required params);
         schema3 = bt_insert ''properties'' (Object properties) schema2;
         schema4 = (if required = [] then schema3 else bt_insert ''required'' (Array required) schema3)
     in Object schema4)"

definition element_params_schema :: "ElementDescriptor list \<Rightarrow> string \<Rightarrow> Value option" where
  "element_params_schema registered kind = map_option (\<lambda>d. params_json_schema (ed_params d)) (find_element registered kind)"

definition all_element_schemas :: "ElementDescriptor list \<Rightarrow> (string \<times> Value) list" where
  "all_element_schemas registered = fold (\<lambda>d m. bt_insert (ed_kind d) (params_json_schema (ed_params d)) m) registered []"

section \<open>Parsing and printing connections\<close>

lemma contains_pair_middle:
  assumes "m \<noteq> x" and "m \<noteq> y"
  shows "contains_sub [x, y] (u @ m # v) \<longleftrightarrow> contains_sub [x, y] u \<or> contains_sub [x, y] v"
proof (induction u)
  case (Cons c u)
  then show ?case using assms by (cases u) (auto simp: contains_sub_Cons starts_with_def)
qed (use assms in \<open>simp add: contains_sub_Cons starts_with_def\<close>)

lemma find_pair_after:
  assumes "m \<noteq> x" and "m \<noteq> y" and "\<not> contains_sub [x, y] u"
  shows "find_sub [x, y] (u @ m # x # y # v) = Some (length u + 1)"
  using assms(3)
proof (induction u)
  case (Cons c u)
  then have "find_sub [x, y] (u @ m # x # y # v) = Some (length u + 1)" by (simp add: contains_sub_Cons)
  moreover have "\<not> starts_with [x, y] ((c # u) @ m # x # y # v)"
    using Cons.prems assms(1,2) by (cases u) (auto simp: contains_sub_Cons starts_with_def)
  ultimately show ?case by simp
qed (use assms in \<open>auto simp: starts_with_def\<close>)

lemma split_pair_after:
  assumes "m \<noteq> x" and "m \<noteq> y" and "\<not> contains_sub [x, y] u"
  shows "split_once [x, y] (u @ m # x # y # v) = Some (u @ [m], v)"
  by (simp add: split_once_def find_pair_after [OF assms])

lemma split_once_no_earlier:
  assumes "split_once p s = Some (u, v)" and "p \<noteq> []"
  shows "\<not> contains_sub p u"
proof
  assume "contains_sub p u"
  then obtain a b where ab: "u = a @ p @ b" by (auto simp: contains_sub_def)
  obtain i where i: "find_sub p s = Some i" "u = take i s" using assms(1) by (auto simp: split_once_def)
  have s: "s = u @ p @ v" using split_once_SomeD [OF assms(1)] .
  have "length a < length u" using ab assms(2) by simp
  also have "\<dots> \<le> i" using i(2) by simp
  finally have "length a < i" .
  moreover have "starts_with p (drop (length a) s)" using s ab by simp
  ultimately show False using find_sub_take [OF i(1)] by blast
qed

lemma contains_sub_trim: "\<not> contains_sub p s \<Longrightarrow> \<not> contains_sub p (trim s)"
  using trim_substring [of s] contains_sub_substring [of p "trim s"] by metis

lemma trim_around: "trimmed u \<Longrightarrow> trimmed v \<Longrightarrow> \<not> is_whitespace m \<Longrightarrow> trimmed (u @ m # v)"
  by (cases u; cases v rule: rev_cases) (auto simp: trimmed_def)

lemma trim_spaces:
  assumes "trimmed s"
  shows "trim (s @ '' '') = s" and "trim ('' '' @ s) = s"
proof -
  have ws: "is_whitespace CHR '' ''" by (simp add: is_whitespace_def)
  have "trim_start (s @ '' '') = (if s = [] then [] else s @ '' '')"
    using assms ws by (cases s) (auto simp: trim_start_def trimmed_def)
  moreover have "trim_end (s @ '' '') = s" using assms ws by (auto simp: trim_end_def trimmed_def intro: trim_end_idem [unfolded trim_end_def])
  ultimately show "trim (s @ '' '') = s" by (auto simp: trim_def trim_end_def)
  have "trim_start ('' '' @ s) = trim_start s" using ws by (simp add: trim_start_def)
  then show "trim ('' '' @ s) = s" using trim_trimmed [OF assms] by (simp add: trim_def)
qed

definition connection_clean :: "ConnectionSpec \<Rightarrow> bool" where
  "connection_clean c \<longleftrightarrow>
    trimmed (cn_from_node c) \<and> trimmed (cn_from_port c) \<and> trimmed (cn_to_node c) \<and> trimmed (cn_to_port c) \<and>
    CHR ''.'' \<notin> set (cn_from_node c) \<and> CHR ''.'' \<notin> set (cn_to_node c) \<and>
    \<not> contains_sub ''->'' (cn_from_node c) \<and> \<not> contains_sub ''->'' (cn_from_port c)"

lemma connection_parse_clean:
  assumes "connection_parse s = Inr c"
  shows "connection_clean c"
proof -
  obtain from0 to0 a b a' b' where s: "split_once ''->'' s = Some (from0, to0)"
    and f: "split_once ''.'' (trim from0) = Some (a, b)" and t: "split_once ''.'' (trim to0) = Some (a', b')"
    and c: "c = \<lparr> cn_from_node = trim a, cn_from_port = trim b, cn_to_node = trim a', cn_to_port = trim b' \<rparr>"
    using assms by (auto simp: connection_parse_def Let_def result_simps split: prod.splits)
  have "\<not> contains_sub ''->'' (trim from0)" using split_once_no_earlier [OF s] contains_sub_trim by simp
  then have "\<not> contains_sub ''->'' a" "\<not> contains_sub ''->'' b"
    using split_once_SomeD [OF f] contains_pair_middle [of "CHR ''.''" "CHR ''-''" "CHR ''>''" a b] by simp_all
  moreover have "CHR ''.'' \<notin> set (trim a)" "CHR ''.'' \<notin> set (trim a')"
    using split_once_char_SomeD [OF f] split_once_char_SomeD [OF t] set_trim by blast+
  ultimately show ?thesis by (simp add: connection_clean_def c contains_sub_trim)
qed

lemma connection_parse_display:
  assumes "connection_clean c"
  shows "connection_parse (connection_display c) = Inr c"
proof -
  let ?F = "cn_from_node c @ CHR ''.'' # cn_from_port c" and ?T = "cn_to_node c @ CHR ''.'' # cn_to_port c"
  have d: "connection_display c = ?F @ CHR '' '' # CHR ''-'' # CHR ''>'' # ('' '' @ ?T)" by (simp add: connection_display_def)
  have "\<not> contains_sub ''->'' ?F" using assms by (simp add: connection_clean_def contains_pair_middle)
  then have "split_once ''->'' (connection_display c) = Some (?F @ '' '', '' '' @ ?T)"
    unfolding d by (subst split_pair_after) simp_all
  moreover have "trimmed ?F" "trimmed ?T"
    using assms by (auto simp: connection_clean_def is_whitespace_def intro!: trim_around)
  then have "trim (?F @ '' '') = ?F" "trim ('' '' @ ?T) = ?T" using trim_spaces by blast+
  moreover have "split_once ''.'' ?F = Some (cn_from_node c, cn_from_port c)"
    "split_once ''.'' ?T = Some (cn_to_node c, cn_to_port c)"
    using assms by (auto simp: connection_clean_def split_once_char)
  ultimately show ?thesis using assms by (simp add: connection_parse_def connection_clean_def)
qed

text \<open>Printing a parsed connection gives a text that parses to the same connection, whatever
  white space the original text had around its arrow, dots and names.\<close>

lemma connection_round_trip:
  assumes "connection_parse s = Inr c"
  shows "connection_parse (connection_display c) = Inr c"
  by (rule connection_parse_display [OF connection_parse_clean [OF assms]])

end
