(* ===== verification/Packets.thy ===== *)
theory Packets
  imports Tensors MediaInfo GraphTypes
begin

text \<open>
  What flows between elements: the detection results of \<open>dg-core/src/detection.rs\<close>, the packets of
  \<open>dg-graph/src/packet.rs\<close>, the bounded collector of a sink (\<open>element.rs\<close>) and the counters of an
  element (\<open>metrics.rs\<close>).  An \<open>f32\<close> is its bit pattern.  Packets share their payload through an
  \<open>Arc\<close>; since a payload is never changed, a packet is its value and \<open>into_*\<close> and \<open>*_ref\<close> agree.
  The sizes the compiler gives the result structs are a parameter.
\<close>

section \<open>Detection results\<close>

type_synonym f32 = "32 word"

record BBox =
  bb_x :: f32
  bb_y :: f32
  bb_w :: f32
  bb_h :: f32

record Detection =
  dt_bbox :: BBox
  dt_score :: f32
  dt_class_id :: "32 word"
  dt_label :: "string option"

definition detection_new :: "BBox \<Rightarrow> f32 \<Rightarrow> 32 word \<Rightarrow> Detection" where
  "detection_new bbox score class_id = \<lparr> dt_bbox = bbox, dt_score = score, dt_class_id = class_id, dt_label = None \<rparr>"

record Point =
  pt_x :: f32
  pt_y :: f32

record FaceDetection =
  fd_bbox :: BBox
  fd_score :: f32
  fd_landmarks :: "Point list"

record Classification =
  cl_class_id :: "32 word"
  cl_score :: f32
  cl_label :: "string option"

datatype TrackState = New_track | Tracked | Lost

record Track =
  tk_track_id :: "64 word"
  tk_detection :: Detection
  tk_state :: TrackState

record OcrText =
  oc_text :: string
  oc_score :: f32
  oc_bbox :: "BBox option"

section \<open>Packets\<close>

record PacketMeta =
  pm_sequence :: nat
  pm_stream_id :: "string option"
  pm_tags :: "(string \<times> string) list"
  pm_media_info :: "MediaInfo option"

definition packet_meta_default :: PacketMeta where
  "packet_meta_default = \<lparr> pm_sequence = 0, pm_stream_id = None, pm_tags = [], pm_media_info = None \<rparr>"

datatype PacketPayload =
  TensorPayload tensor
| DetectionsPayload "Detection list"
| ClassificationsPayload "Classification list"
| FacesPayload "FaceDetection list"
| TracksPayload "Track list"
| OcrPayload "OcrText list"
| EndOfStream

record Packet =
  pk_meta :: PacketMeta
  pk_payload :: PacketPayload

definition packet_of :: "PacketPayload \<Rightarrow> Packet" where
  "packet_of payload = \<lparr> pk_meta = packet_meta_default, pk_payload = payload \<rparr>"

definition packet_tensor :: "tensor \<Rightarrow> Packet" where "packet_tensor t = packet_of (TensorPayload t)"
definition packet_eos :: Packet where "packet_eos = packet_of EndOfStream"
definition packet_detections :: "Detection list \<Rightarrow> Packet" where "packet_detections ds = packet_of (DetectionsPayload ds)"
definition packet_classifications :: "Classification list \<Rightarrow> Packet" where
  "packet_classifications cs = packet_of (ClassificationsPayload cs)"
definition packet_faces :: "FaceDetection list \<Rightarrow> Packet" where "packet_faces fs = packet_of (FacesPayload fs)"
definition packet_tracks :: "Track list \<Rightarrow> Packet" where "packet_tracks ts = packet_of (TracksPayload ts)"
definition packet_ocr :: "OcrText list \<Rightarrow> Packet" where "packet_ocr os = packet_of (OcrPayload os)"

definition with_meta :: "Packet \<Rightarrow> PacketMeta \<Rightarrow> Packet" where
  "with_meta p meta = p\<lparr> pk_meta := meta \<rparr>"

definition is_eos :: "Packet \<Rightarrow> bool" where
  "is_eos p \<longleftrightarrow> pk_payload p = EndOfStream"

definition tensor_ref :: "Packet \<Rightarrow> tensor option" where
  "tensor_ref p = (case pk_payload p of TensorPayload t \<Rightarrow> Some t | _ \<Rightarrow> None)"
definition detections_ref :: "Packet \<Rightarrow> Detection list option" where
  "detections_ref p = (case pk_payload p of DetectionsPayload ds \<Rightarrow> Some ds | _ \<Rightarrow> None)"
definition classifications_ref :: "Packet \<Rightarrow> Classification list option" where
  "classifications_ref p = (case pk_payload p of ClassificationsPayload cs \<Rightarrow> Some cs | _ \<Rightarrow> None)"
definition faces_ref :: "Packet \<Rightarrow> FaceDetection list option" where
  "faces_ref p = (case pk_payload p of FacesPayload fs \<Rightarrow> Some fs | _ \<Rightarrow> None)"
definition tracks_ref :: "Packet \<Rightarrow> Track list option" where
  "tracks_ref p = (case pk_payload p of TracksPayload ts \<Rightarrow> Some ts | _ \<Rightarrow> None)"
definition ocr_ref :: "Packet \<Rightarrow> OcrText list option" where
  "ocr_ref p = (case pk_payload p of OcrPayload os \<Rightarrow> Some os | _ \<Rightarrow> None)"

text \<open>\<open>size_of\<close> of the result structs.\<close>

record layout_sizes =
  size_detection :: nat
  size_classification :: nat
  size_face :: nat
  size_track :: nat
  size_ocr :: nat

definition owned_bytes_estimate :: "layout_sizes \<Rightarrow> Packet \<Rightarrow> usize graph_result" where
  "owned_bytes_estimate sz p =
    (case pk_payload p of
       TensorPayload t \<Rightarrow> map_err GCore (storage_bytes (t_desc t))
     | DetectionsPayload ds \<Rightarrow> Inr (length ds * size_detection sz)
     | ClassificationsPayload cs \<Rightarrow> Inr (length cs * size_classification sz)
     | FacesPayload fs \<Rightarrow> Inr (length fs * size_face sz)
     | TracksPayload ts \<Rightarrow> Inr (length ts * size_track sz)
     | OcrPayload os \<Rightarrow> Inr (length os * size_ocr sz)
     | EndOfStream \<Rightarrow> Inr 0)"

section \<open>Sink collectors\<close>

record SinkCollector =
  sk_tensors :: "tensor list"
  sk_detections :: "Detection list list"
  sk_classifications :: "Classification list list"
  sk_faces :: "FaceDetection list list"
  sk_tracks :: "Track list list"
  sk_ocr :: "OcrText list list"
  sk_max_packets :: usize
  sk_max_bytes :: usize
  sk_current_bytes :: usize

definition sink_default :: SinkCollector where
  "sink_default = \<lparr> sk_tensors = [], sk_detections = [], sk_classifications = [], sk_faces = [], sk_tracks = [],
    sk_ocr = [], sk_max_packets = 0, sk_max_bytes = 0, sk_current_bytes = 0 \<rparr>"

definition set_budget :: "usize \<Rightarrow> usize \<Rightarrow> SinkCollector \<Rightarrow> SinkCollector" where
  "set_budget max_packets max_bytes s = s\<lparr> sk_max_packets := max_packets, sk_max_bytes := max_bytes \<rparr>"

definition total_packets :: "SinkCollector \<Rightarrow> usize" where
  "total_packets s = length (sk_tensors s) + length (sk_detections s) + length (sk_classifications s) +
    length (sk_faces s) + length (sk_tracks s) + length (sk_ocr s)"

text \<open>\<open>try_push\<close> works in place: the bytes are charged before the payload is stored.\<close>

definition try_push :: "layout_sizes \<Rightarrow> Packet \<Rightarrow> SinkCollector \<Rightarrow> unit graph_result \<times> SinkCollector" where
  "try_push sz p s =
    (if total_packets s \<ge> sk_max_packets s
     then (Inl (GResourceLimit ''sink packet count'' (saturating_add (total_packets s) 1) (sk_max_packets s)), s)
     else case owned_bytes_estimate sz p of
       Inl e \<Rightarrow> (Inl e, s)
     | Inr bytes \<Rightarrow>
        let new_bytes = saturating_add (sk_current_bytes s) bytes in
        if new_bytes > sk_max_bytes s
        then (Inl (GResourceLimit ''sink bytes'' new_bytes (sk_max_bytes s)), s)
        else let s1 = s\<lparr> sk_current_bytes := new_bytes \<rparr> in
          (case tensor_ref p of Some t \<Rightarrow> (Inr (), s1\<lparr> sk_tensors := sk_tensors s1 @ [t] \<rparr>) | None \<Rightarrow>
          (case detections_ref p of Some ds \<Rightarrow> (Inr (), s1\<lparr> sk_detections := sk_detections s1 @ [ds] \<rparr>) | None \<Rightarrow>
          (case classifications_ref p of Some cs \<Rightarrow> (Inr (), s1\<lparr> sk_classifications := sk_classifications s1 @ [cs] \<rparr>) | None \<Rightarrow>
          (case faces_ref p of Some fs \<Rightarrow> (Inr (), s1\<lparr> sk_faces := sk_faces s1 @ [fs] \<rparr>) | None \<Rightarrow>
          (case tracks_ref p of Some ts \<Rightarrow> (Inr (), s1\<lparr> sk_tracks := sk_tracks s1 @ [ts] \<rparr>) | None \<Rightarrow>
          (case ocr_ref p of Some os \<Rightarrow> (Inr (), s1\<lparr> sk_ocr := sk_ocr s1 @ [os] \<rparr>) | None \<Rightarrow>
            (Inl (GRuntime ''expected tensor or detections payload''), s1))))))))"

definition release_tensor_bytes :: "tensor \<Rightarrow> usize \<Rightarrow> usize" where
  "release_tensor_bytes t bytes = (case storage_bytes (t_desc t) of Inl _ \<Rightarrow> bytes | Inr n \<Rightarrow> saturating_sub bytes n)"

definition drain_tensors :: "SinkCollector \<Rightarrow> tensor list \<times> SinkCollector" where
  "drain_tensors s = (sk_tensors s,
    s\<lparr> sk_tensors := [], sk_current_bytes := fold release_tensor_bytes (sk_tensors s) (sk_current_bytes s) \<rparr>)"

section \<open>Element metrics\<close>

text \<open>Counters are \<open>u64\<close>; \<open>'b\<close> is the handle of the backend counters, shared with the runtime.\<close>

record 'b ElementMetrics =
  em_packets_processed :: nat
  em_packets_received :: nat
  em_packets_sent :: nat
  em_processing_latency_ns :: nat
  em_processing_latency_max_ns :: nat
  em_queue_depth :: usize
  em_max_queue_depth :: usize
  em_drop_count :: nat
  em_backpressure_count :: nat
  em_state_reset_total :: nat
  em_reconnecting :: bool
  em_reconnect_total :: nat
  em_overflow_count :: nat
  em_backend_metrics :: "'b option"

definition metrics_default :: "'b ElementMetrics" where
  "metrics_default = \<lparr> em_packets_processed = 0, em_packets_received = 0, em_packets_sent = 0,
    em_processing_latency_ns = 0, em_processing_latency_max_ns = 0, em_queue_depth = 0, em_max_queue_depth = 0,
    em_drop_count = 0, em_backpressure_count = 0, em_state_reset_total = 0, em_reconnecting = False,
    em_reconnect_total = 0, em_overflow_count = 0, em_backend_metrics = None \<rparr>"

text \<open>\<open>ElementMetrics::saturating_add\<close>: the counter after the addition, and whether it overflowed;
  an overflow is counted with wrap-around.\<close>

definition overflowing_add :: "nat \<Rightarrow> nat \<Rightarrow> nat \<times> bool" where
  "overflowing_add current v =
    (if current + v > usize_max then (usize_max, True) else (current + v, False))"

definition count_overflow :: "bool \<Rightarrow> 'b ElementMetrics \<Rightarrow> 'b ElementMetrics" where
  "count_overflow overflow m = (if overflow then m\<lparr> em_overflow_count := wrapping_add (em_overflow_count m) 1 \<rparr> else m)"

definition record_source_packet :: "'b ElementMetrics \<Rightarrow> 'b ElementMetrics" where
  "record_source_packet m = (let (c, o1) = overflowing_add (em_packets_processed m) 1 in
    count_overflow o1 (m\<lparr> em_packets_processed := c \<rparr>))"

definition record_received :: "'b ElementMetrics \<Rightarrow> 'b ElementMetrics" where
  "record_received m = (let (c, o1) = overflowing_add (em_packets_received m) 1 in
    record_source_packet (count_overflow o1 (m\<lparr> em_packets_received := c \<rparr>)))"

definition record_sent :: "'b ElementMetrics \<Rightarrow> 'b ElementMetrics" where
  "record_sent m = (let (c, o1) = overflowing_add (em_packets_sent m) 1 in
    count_overflow o1 (m\<lparr> em_packets_sent := c \<rparr>))"

definition record_latency :: "nat \<Rightarrow> 'b ElementMetrics \<Rightarrow> 'b ElementMetrics" where
  "record_latency duration m =
    (let nanos = min duration usize_max; (c, o1) = overflowing_add (em_processing_latency_ns m) nanos;
         m1 = count_overflow o1 (m\<lparr> em_processing_latency_ns := c \<rparr>)
     in m1\<lparr> em_processing_latency_max_ns := max (em_processing_latency_max_ns m1) nanos \<rparr>)"

definition record_queue_depth :: "usize \<Rightarrow> 'b ElementMetrics \<Rightarrow> 'b ElementMetrics" where
  "record_queue_depth depth m = m\<lparr> em_queue_depth := depth, em_max_queue_depth := max (em_max_queue_depth m) depth \<rparr>"

definition record_drop :: "'b ElementMetrics \<Rightarrow> 'b ElementMetrics" where
  "record_drop m = (let (c, o1) = overflowing_add (em_drop_count m) 1 in count_overflow o1 (m\<lparr> em_drop_count := c \<rparr>))"

definition record_backpressure :: "'b ElementMetrics \<Rightarrow> 'b ElementMetrics" where
  "record_backpressure m = (let (c, o1) = overflowing_add (em_backpressure_count m) 1 in
    count_overflow o1 (m\<lparr> em_backpressure_count := c \<rparr>))"

definition record_state_reset :: "'b ElementMetrics \<Rightarrow> 'b ElementMetrics" where
  "record_state_reset m = (let (c, o1) = overflowing_add (em_state_reset_total m) 1 in
    count_overflow o1 (m\<lparr> em_state_reset_total := c \<rparr>))"

definition set_reconnecting :: "bool \<Rightarrow> 'b ElementMetrics \<Rightarrow> 'b ElementMetrics" where
  "set_reconnecting v m = m\<lparr> em_reconnecting := v \<rparr>"

definition clear_reconnecting :: "'b ElementMetrics \<Rightarrow> 'b ElementMetrics" where
  "clear_reconnecting m = m\<lparr> em_reconnecting := False \<rparr>"

definition record_reconnect :: "'b ElementMetrics \<Rightarrow> 'b ElementMetrics" where
  "record_reconnect m = (let (c, o1) = overflowing_add (em_reconnect_total m) 1 in
    (count_overflow o1 (m\<lparr> em_reconnect_total := c \<rparr>))\<lparr> em_reconnecting := False \<rparr>)"

definition attach_backend_metrics :: "'b \<Rightarrow> 'b ElementMetrics \<Rightarrow> 'b ElementMetrics" where
  "attach_backend_metrics b m = m\<lparr> em_backend_metrics := Some b \<rparr>"

text \<open>A snapshot copies the counters; the only computed field is the average latency.\<close>

definition latency_avg :: "'b ElementMetrics \<Rightarrow> nat" where
  "latency_avg m = (if em_packets_processed m = 0 then 0 else em_processing_latency_ns m div em_packets_processed m)"

section \<open>The budget of a sink\<close>

definition tensor_bytes :: "tensor \<Rightarrow> nat" where
  "tensor_bytes t = (case storage_bytes (t_desc t) of Inl _ \<Rightarrow> 0 | Inr n \<Rightarrow> n)"

definition held_bytes :: "layout_sizes \<Rightarrow> SinkCollector \<Rightarrow> nat" where
  "held_bytes sz s = sum_list (map tensor_bytes (sk_tensors s)) +
    sum_list (map length (sk_detections s)) * size_detection sz +
    sum_list (map length (sk_classifications s)) * size_classification sz +
    sum_list (map length (sk_faces s)) * size_face sz + sum_list (map length (sk_tracks s)) * size_track sz +
    sum_list (map length (sk_ocr s)) * size_ocr sz"

definition sink_ok :: "layout_sizes \<Rightarrow> SinkCollector \<Rightarrow> bool" where
  "sink_ok sz s \<longleftrightarrow> total_packets s \<le> sk_max_packets s \<and> sk_current_bytes s = held_bytes sz s \<and>
    held_bytes sz s \<le> sk_max_bytes s \<and> sk_max_bytes s < usize_max"

datatype sink_cmd = Push Packet | Drain

fun exec_sink :: "layout_sizes \<Rightarrow> sink_cmd \<Rightarrow> SinkCollector \<Rightarrow> SinkCollector" where
  "exec_sink sz (Push p) s = snd (try_push sz p s)"
| "exec_sink sz Drain s = snd (drain_tensors s)"

lemma fold_release: "fold release_tensor_bytes ts bytes = bytes - sum_list (map tensor_bytes ts)"
  by (induction ts arbitrary: bytes)
     (auto simp: release_tensor_bytes_def tensor_bytes_def saturating_sub_def split: sum.splits)

lemma drain_sink_ok: "sink_ok sz s \<Longrightarrow> sink_ok sz (snd (drain_tensors s))"
  by (simp add: drain_tensors_def sink_ok_def held_bytes_def total_packets_def fold_release)

lemmas packet_refs = tensor_ref_def detections_ref_def classifications_ref_def faces_ref_def tracks_ref_def ocr_ref_def

text \<open>What a push does: a packet that fits is stored with its bytes charged; any other leaves the
  collector as it is, an end of stream included, which is charged nothing and refused.\<close>

lemma try_push_cases:
  assumes "sk_max_bytes s < usize_max"
  obtains (refused) e where "try_push sz p s = (Inl e, s)"
  | (stored) bytes s' where "owned_bytes_estimate sz p = Inr bytes" "sk_current_bytes s + bytes \<le> sk_max_bytes s"
      "total_packets s < sk_max_packets s" "\<not> is_eos p" "try_push sz p s = (Inr (), s')"
proof (cases "total_packets s \<ge> sk_max_packets s")
  case True
  then show ?thesis using refused by (simp add: try_push_def)
next
  case room: False
  show ?thesis
  proof (cases "owned_bytes_estimate sz p")
    case (Inl e)
    then show ?thesis using refused room by (simp add: try_push_def)
  next
    case (Inr bytes)
    show ?thesis
    proof (cases "saturating_add (sk_current_bytes s) bytes > sk_max_bytes s")
      case True
      then show ?thesis using refused room Inr by (simp add: try_push_def Let_def)
    next
      case fits: False
      then have le: "sk_current_bytes s + bytes \<le> sk_max_bytes s" using assms by (simp add: saturating_add_def min_def split: if_splits)
      show ?thesis
      proof (cases "is_eos p")
        case True
        then have "bytes = 0" "saturating_add (sk_current_bytes s) 0 = sk_current_bytes s"
          using Inr le assms by (simp_all add: is_eos_def owned_bytes_estimate_def saturating_add_def min_def)
        then have "try_push sz p s = (Inl (GRuntime ''expected tensor or detections payload''), s)"
          using room Inr fits True by (simp add: try_push_def Let_def is_eos_def packet_refs)
        then show ?thesis by (rule refused)
      next
        case False
        then have "\<exists>s'. try_push sz p s = (Inr (), s')"
          using room Inr fits by (cases "pk_payload p") (simp_all add: try_push_def Let_def is_eos_def packet_refs)
        then show ?thesis using stored Inr le room False by (metis not_le)
      qed
    qed
  qed
qed

lemma try_push_stored:
  assumes "try_push sz p s = (Inr (), s')" and "owned_bytes_estimate sz p = Inr bytes"
    and "sk_current_bytes s + bytes \<le> usize_max"
  shows "total_packets s' = Suc (total_packets s)" and "held_bytes sz s' = held_bytes sz s + bytes"
    and "sk_current_bytes s' = sk_current_bytes s + bytes"
    and "sk_max_packets s' = sk_max_packets s" and "sk_max_bytes s' = sk_max_bytes s"
proof -
  have new: "saturating_add (sk_current_bytes s) bytes = sk_current_bytes s + bytes"
    using assms(3) by (simp add: saturating_add_def)
  have "total_packets s' = Suc (total_packets s) \<and> held_bytes sz s' = held_bytes sz s + bytes \<and>
      sk_current_bytes s' = sk_current_bytes s + bytes \<and> sk_max_packets s' = sk_max_packets s \<and> sk_max_bytes s' = sk_max_bytes s"
    using assms(1,2) new
    by (cases "pk_payload p")
       (auto simp: try_push_def Let_def packet_refs owned_bytes_estimate_def total_packets_def held_bytes_def
          tensor_bytes_def add_mult_distrib result_simps split: if_splits)
  then show "total_packets s' = Suc (total_packets s)" and "held_bytes sz s' = held_bytes sz s + bytes"
    and "sk_current_bytes s' = sk_current_bytes s + bytes"
    and "sk_max_packets s' = sk_max_packets s" and "sk_max_bytes s' = sk_max_bytes s" by simp_all
qed

lemma push_sink_ok:
  assumes "sink_ok sz s"
  shows "sink_ok sz (snd (try_push sz p s))"
proof -
  have "sk_max_bytes s < usize_max" using assms by (simp add: sink_ok_def)
  then show ?thesis
  proof (cases rule: try_push_cases [where sz = sz and p = p])
    case refused
    then show ?thesis using assms by simp
  next
    case (stored bytes s')
    then have "sk_current_bytes s + bytes \<le> usize_max" using assms by (simp add: sink_ok_def)
    from try_push_stored [OF stored(5,1) this] show ?thesis using assms stored by (simp add: sink_ok_def)
  qed
qed

lemma exec_sink_ok: "sink_ok sz s \<Longrightarrow> sink_ok sz (exec_sink sz c s)"
  by (cases c) (simp_all add: push_sink_ok drain_sink_ok)

lemma exec_sink_budget:
  "sk_max_packets (exec_sink sz c s) = sk_max_packets s \<and> sk_max_bytes (exec_sink sz c s) = sk_max_bytes s"
  by (cases c) (auto simp: try_push_def drain_tensors_def Let_def split: sum.splits option.splits)

text \<open>A sink stays within its budget and accounts exactly: after any pushes and drains it holds at
  most the allowed number of packets, the bytes it charges are those of the results it holds, and
  they are within the allowed bytes.\<close>

lemma sink_accounting:
  assumes "max_bytes < usize_max"
    and "s = fold (exec_sink sz) cmds (set_budget max_packets max_bytes sink_default)"
  shows "total_packets s \<le> max_packets \<and> sk_current_bytes s = held_bytes sz s \<and> held_bytes sz s \<le> max_bytes"
proof -
  have "sink_ok sz s0 \<Longrightarrow> sink_ok sz (fold (exec_sink sz) cmds s0) \<and>
      sk_max_packets (fold (exec_sink sz) cmds s0) = sk_max_packets s0 \<and> sk_max_bytes (fold (exec_sink sz) cmds s0) = sk_max_bytes s0" for s0
    by (induction cmds arbitrary: s0) (simp_all add: exec_sink_ok exec_sink_budget)
  moreover have "sink_ok sz (set_budget max_packets max_bytes sink_default)"
    using assms(1) by (simp add: sink_ok_def set_budget_def sink_default_def total_packets_def held_bytes_def)
  ultimately show ?thesis unfolding assms(2) sink_ok_def by (fastforce simp: set_budget_def)
qed

end
