(* ===== verification/Pipes.thy ===== *)
theory Pipes
  imports Packets
begin

text \<open>
  The packet queues of \<open>dg-graph/src/pipe.rs\<close>.  A pipe is the channel of the standard library (its
  queue, its capacity and which ends are alive) together with the shared depth counter.  The
  operations come twice: as the functions a single caller sees, and as the atomic steps the threads
  of a graph interleave, since the counter and the channel are updated one after the other.
  A capacity of zero, for which \<open>sync_channel\<close> is a rendezvous, is refused by validation.
\<close>

section \<open>Pipes\<close>

record 'p DataPipe =
  dp_queue :: "'p list"
  dp_capacity :: "usize option"
  dp_depth :: usize
  dp_senders :: nat
  dp_receiver :: bool

definition bounded :: "usize \<Rightarrow> 'p DataPipe" where
  "bounded capacity = \<lparr> dp_queue = [], dp_capacity = Some capacity, dp_depth = 0, dp_senders = 1, dp_receiver = True \<rparr>"

definition unbounded :: "'p DataPipe" where
  "unbounded = \<lparr> dp_queue = [], dp_capacity = None, dp_depth = 0, dp_senders = 1, dp_receiver = True \<rparr>"

definition wrapping_sub :: "usize \<Rightarrow> usize \<Rightarrow> usize" where
  "wrapping_sub a b = (a + (usize_max + 1) - b) mod (usize_max + 1)"

definition depth_up :: "'p DataPipe \<Rightarrow> 'p DataPipe" where
  "depth_up pipe = pipe\<lparr> dp_depth := wrapping_add (dp_depth pipe) 1 \<rparr>"

definition depth_down :: "'p DataPipe \<Rightarrow> 'p DataPipe" where
  "depth_down pipe = pipe\<lparr> dp_depth := wrapping_sub (dp_depth pipe) 1 \<rparr>"

datatype TrySendError = Full | Disconnected
datatype RecvError = Timeout | RecvDisconnected

text \<open>\<open>SyncSender::try_send\<close> and \<open>Sender::send\<close>.\<close>

definition channel_send :: "'p \<Rightarrow> 'p DataPipe \<Rightarrow> TrySendError + 'p DataPipe" where
  "channel_send packet pipe =
    (if \<not> dp_receiver pipe then Inl Disconnected
     else case dp_capacity pipe of
       Some capacity \<Rightarrow>
         if length (dp_queue pipe) \<ge> capacity then Inl Full else Inr (pipe\<lparr> dp_queue := dp_queue pipe @ [packet] \<rparr>)
     | None \<Rightarrow> Inr (pipe\<lparr> dp_queue := dp_queue pipe @ [packet] \<rparr>))"

definition try_send :: "'p \<Rightarrow> 'p DataPipe \<Rightarrow> (TrySendError + unit) \<times> 'p DataPipe" where
  "try_send packet pipe =
    (let pipe1 = depth_up pipe in
     case channel_send packet pipe1 of
       Inl e \<Rightarrow> (Inl e, depth_down pipe1)
     | Inr pipe2 \<Rightarrow> (Inr (), pipe2))"

text \<open>\<open>Receiver::recv_timeout\<close> and \<open>Receiver::try_recv\<close> at the moment they return.\<close>

definition channel_recv :: "'p DataPipe \<Rightarrow> (RecvError + 'p) \<times> 'p DataPipe" where
  "channel_recv pipe =
    (case dp_queue pipe of
       packet # rest \<Rightarrow> (Inr packet, pipe\<lparr> dp_queue := rest \<rparr>)
     | [] \<Rightarrow> (Inl (if dp_senders pipe = 0 then RecvDisconnected else Timeout), pipe))"

definition recv_timeout :: "'p DataPipe \<Rightarrow> (RecvError + 'p) \<times> 'p DataPipe" where
  "recv_timeout pipe =
    (case channel_recv pipe of
       (Inr packet, pipe1) \<Rightarrow> (Inr packet, depth_down pipe1)
     | (Inl e, pipe1) \<Rightarrow> (Inl e, pipe1))"

definition try_recv :: "'p DataPipe \<Rightarrow> (RecvError + 'p) \<times> 'p DataPipe" where
  "try_recv pipe =
    (case channel_recv pipe of
       (Inr packet, pipe1) \<Rightarrow> (Inr packet, depth_down pipe1)
     | (Inl e, pipe1) \<Rightarrow> (Inl e, pipe1))"

definition sender_depth :: "'p DataPipe \<Rightarrow> usize" where
  "sender_depth pipe = (case dp_capacity pipe of None \<Rightarrow> dp_depth pipe | Some capacity \<Rightarrow> min (dp_depth pipe) capacity)"

definition receiver_depth :: "'p DataPipe \<Rightarrow> usize" where
  "receiver_depth pipe = dp_depth pipe"

section \<open>One caller at a time\<close>

lemma wrapping_sub_Suc: "0 < a \<Longrightarrow> a \<le> usize_max \<Longrightarrow> wrapping_sub a 1 = a - 1"
proof -
  assume "0 < a" "a \<le> usize_max"
  then have "a + (usize_max + 1) - 1 = (a - 1) + (usize_max + 1)" by simp
  then show ?thesis using \<open>a \<le> usize_max\<close> unfolding wrapping_sub_def by (simp only: mod_add_self2) simp
qed

lemma wrapping_down_up: "d \<le> usize_max \<Longrightarrow> wrapping_sub (wrapping_add d 1) 1 = d"
proof (cases "d = usize_max")
  case True
  then show ?thesis by (simp add: wrapping_add_def wrapping_sub_def)
next
  case False
  assume "d \<le> usize_max"
  then have "wrapping_add d 1 = d + 1" using False by (simp add: wrapping_add_def)
  then show ?thesis using False \<open>d \<le> usize_max\<close> by (simp add: wrapping_sub_Suc [of "d + 1", simplified])
qed

lemma try_send_error: "dp_depth pipe \<le> usize_max \<Longrightarrow> try_send packet pipe = (Inl e, pipe') \<Longrightarrow> pipe' = pipe"
  by (auto simp: try_send_def Let_def depth_up_def depth_down_def wrapping_down_up [simplified] split: sum.splits)

lemma try_send_ok:
  "try_send packet pipe = (Inr (), pipe') \<Longrightarrow>
    dp_queue pipe' = dp_queue pipe @ [packet] \<and> dp_capacity pipe' = dp_capacity pipe \<and> dp_receiver pipe' \<and>
    dp_senders pipe' = dp_senders pipe"
  by (auto simp: try_send_def Let_def depth_up_def channel_send_def split: sum.splits if_splits option.splits)

section \<open>Interleaved callers\<close>

text \<open>
  The state the threads share: the pipe, how many senders have announced a packet and not yet handed
  it to the channel (\<open>announced\<close>), how many have been refused and not yet taken the announcement
  back (\<open>refused\<close>), how many receivers have taken a packet and not yet counted it (\<open>taken\<close>), and the
  packets accepted and delivered so far.
\<close>

record 'p pipe_state =
  ps_pipe :: "'p DataPipe"
  ps_announced :: nat
  ps_refused :: nat
  ps_taken :: nat
  ps_accepted :: "'p list"
  ps_delivered :: "'p list"

definition pipe_start :: "'p DataPipe \<Rightarrow> 'p pipe_state" where
  "pipe_start pipe = \<lparr> ps_pipe = pipe, ps_announced = 0, ps_refused = 0, ps_taken = 0, ps_accepted = [], ps_delivered = [] \<rparr>"

inductive pipe_step :: "'p pipe_state \<Rightarrow> 'p pipe_state \<Rightarrow> bool" where
  announce: "pipe_step s (s\<lparr> ps_pipe := depth_up (ps_pipe s), ps_announced := Suc (ps_announced s) \<rparr>)"
| accept: "ps_announced s = Suc n \<Longrightarrow> channel_send packet (ps_pipe s) = Inr pipe \<Longrightarrow>
    pipe_step s (s\<lparr> ps_pipe := pipe, ps_announced := n, ps_accepted := ps_accepted s @ [packet] \<rparr>)"
| refuse: "ps_announced s = Suc n \<Longrightarrow> channel_send packet (ps_pipe s) = Inl e \<Longrightarrow>
    pipe_step s (s\<lparr> ps_announced := n, ps_refused := Suc (ps_refused s) \<rparr>)"
| take_back: "ps_refused s = Suc n \<Longrightarrow>
    pipe_step s (s\<lparr> ps_pipe := depth_down (ps_pipe s), ps_refused := n \<rparr>)"
| take_packet: "channel_recv (ps_pipe s) = (Inr packet, pipe) \<Longrightarrow>
    pipe_step s (s\<lparr> ps_pipe := pipe, ps_taken := Suc (ps_taken s), ps_delivered := ps_delivered s @ [packet] \<rparr>)"
| count_taken: "ps_taken s = Suc n \<Longrightarrow>
    pipe_step s (s\<lparr> ps_pipe := depth_down (ps_pipe s), ps_taken := n \<rparr>)"
| clone_sender: "pipe_step s (s\<lparr> ps_pipe := (ps_pipe s)\<lparr> dp_senders := Suc (dp_senders (ps_pipe s)) \<rparr> \<rparr>)"
| drop_sender: "dp_senders (ps_pipe s) = Suc n \<Longrightarrow> pipe_step s (s\<lparr> ps_pipe := (ps_pipe s)\<lparr> dp_senders := n \<rparr> \<rparr>)"
| drop_receiver: "pipe_step s (s\<lparr> ps_pipe := (ps_pipe s)\<lparr> dp_receiver := False \<rparr> \<rparr>)"

definition in_flight :: "'p pipe_state \<Rightarrow> nat" where
  "in_flight s = ps_announced s + ps_refused s + ps_taken s"

definition pipe_inv :: "usize option \<Rightarrow> 'p pipe_state \<Rightarrow> bool" where
  "pipe_inv capacity s \<longleftrightarrow>
    dp_capacity (ps_pipe s) = capacity \<and>
    dp_depth (ps_pipe s) = (length (dp_queue (ps_pipe s)) + in_flight s) mod (usize_max + 1) \<and>
    ps_accepted s = ps_delivered s @ dp_queue (ps_pipe s) \<and>
    (\<forall>c. capacity = Some c \<longrightarrow> length (dp_queue (ps_pipe s)) \<le> c)"

lemma depth_up_inv: "a = n mod (usize_max + 1) \<Longrightarrow> wrapping_add a 1 = Suc n mod (usize_max + 1)"
  by (simp add: wrapping_add_def mod_Suc_eq)

lemma depth_down_inv: "a = Suc n mod (usize_max + 1) \<Longrightarrow> wrapping_sub a 1 = n mod (usize_max + 1)"
proof -
  assume a: "a = Suc n mod (usize_max + 1)"
  have "wrapping_sub a 1 = (a + usize_max) mod (usize_max + 1)" by (simp add: wrapping_sub_def)
  also have "\<dots> = (Suc n + usize_max) mod (usize_max + 1)" unfolding a by (rule mod_add_left_eq)
  also have "\<dots> = (n + (usize_max + 1)) mod (usize_max + 1)" by simp
  also have "\<dots> = n mod (usize_max + 1)" by (rule mod_add_self2)
  finally show ?thesis .
qed

lemma channel_send_ok:
  "channel_send packet pipe = Inr pipe' \<Longrightarrow> pipe' = pipe\<lparr> dp_queue := dp_queue pipe @ [packet] \<rparr> \<and>
    (\<forall>c. dp_capacity pipe = Some c \<longrightarrow> length (dp_queue pipe) < c)"
  by (auto simp: channel_send_def split: if_splits option.splits)

lemma channel_recv_ok:
  "channel_recv pipe = (Inr packet, pipe') \<Longrightarrow>
    dp_queue pipe = packet # dp_queue pipe' \<and> pipe' = pipe\<lparr> dp_queue := dp_queue pipe' \<rparr>"
  by (auto simp: channel_recv_def split: list.splits)

lemma pipe_step_inv: "pipe_step s s' \<Longrightarrow> pipe_inv capacity s \<Longrightarrow> pipe_inv capacity s'"
proof (induction rule: pipe_step.induct)
  case (announce s)
  then show ?case by (simp add: pipe_inv_def in_flight_def depth_up_def depth_up_inv [simplified])
next
  case (accept s n packet pipe)
  then show ?case using channel_send_ok [OF accept(2)] by (fastforce simp: pipe_inv_def in_flight_def)
next
  case (take_back s n)
  then show ?case by (simp add: pipe_inv_def in_flight_def depth_down_def depth_down_inv [simplified])
next
  case (take_packet s packet pipe)
  then show ?case using channel_recv_ok [OF take_packet(1)]
    by (cases "ps_pipe s", cases pipe) (auto simp: pipe_inv_def in_flight_def)
next
  case (count_taken s n)
  then show ?case by (simp add: pipe_inv_def in_flight_def depth_down_def depth_down_inv [simplified])
qed (simp_all add: pipe_inv_def in_flight_def)

interpretation pipe_system: invariant_system pipe_step "pipe_inv capacity" for capacity
  by unfold_locales (rule pipe_step_inv)

lemma pipe_start_inv: "pipe_inv capacity (pipe_start (case capacity of None \<Rightarrow> unbounded | Some c \<Rightarrow> bounded c))"
  by (auto simp: pipe_inv_def pipe_start_def in_flight_def bounded_def unbounded_def split: option.splits)

text \<open>C22. However the senders and receivers of a pipe interleave, it delivers the accepted packets in
  order and without loss, never holds more than its capacity, and its depth counter does not
  underflow: it is the number of queued packets plus the number of operations still under way, so
  it is exact whenever none is, and the depth a sender reports never exceeds the capacity.\<close>

theorem pipe_interleavings:
  assumes "pipe_step\<^sup>*\<^sup>* (pipe_start (case capacity of None \<Rightarrow> unbounded | Some c \<Rightarrow> bounded c)) s"
    and "length (dp_queue (ps_pipe s)) + in_flight s \<le> usize_max"
  shows "ps_accepted s = ps_delivered s @ dp_queue (ps_pipe s) \<and>
    (case capacity of None \<Rightarrow> True | Some c \<Rightarrow> length (dp_queue (ps_pipe s)) \<le> c \<and> sender_depth (ps_pipe s) \<le> c) \<and>
    dp_depth (ps_pipe s) = length (dp_queue (ps_pipe s)) + in_flight s"
proof -
  have "pipe_inv capacity s" using pipe_system.reachable [OF assms(1) pipe_start_inv] by blast
  then show ?thesis using assms(2) by (auto simp: pipe_inv_def sender_depth_def split: option.splits)
qed

theorem pipe_interleavings_witness:
  "\<exists>s :: nat pipe_state. pipe_step\<^sup>*\<^sup>* (pipe_start (bounded 1)) s \<and> ps_announced s = 1 \<and> dp_queue (ps_pipe s) = [7] \<and>
    dp_depth (ps_pipe s) = 2 \<and> sender_depth (ps_pipe s) \<le> 1"
proof -
  let ?s1 = "(pipe_start (bounded 1))\<lparr> ps_pipe := depth_up (bounded 1), ps_announced := 1 \<rparr> :: nat pipe_state"
  let ?s2 = "?s1\<lparr> ps_pipe := (depth_up (bounded 1))\<lparr> dp_queue := [7] \<rparr>, ps_announced := 0, ps_accepted := [7] \<rparr>"
  let ?s3 = "?s2\<lparr> ps_pipe := depth_up (ps_pipe ?s2), ps_announced := 1 \<rparr>"
  have "pipe_step (pipe_start (bounded 1)) ?s1"
    using pipe_step.announce [of "pipe_start (bounded 1)"] by (simp add: pipe_start_def)
  moreover have "pipe_step ?s1 ?s2"
    using pipe_step.accept [of ?s1 0 7 "(depth_up (bounded 1))\<lparr> dp_queue := [7] \<rparr>"]
    by (simp add: pipe_start_def channel_send_def depth_up_def bounded_def)
  moreover have "pipe_step ?s2 ?s3" using pipe_step.announce [of ?s2] by simp
  ultimately have reach: "pipe_step\<^sup>*\<^sup>* (pipe_start (bounded 1)) ?s3" by (meson r_into_rtranclp rtranclp_trans)
  have bound: "length (dp_queue (ps_pipe ?s3)) + in_flight ?s3 \<le> usize_max"
    by (simp add: in_flight_def depth_up_def bounded_def usize_max_def pipe_start_def)
  have "pipe_step\<^sup>*\<^sup>* (pipe_start (case Some 1 of None \<Rightarrow> unbounded | Some c \<Rightarrow> bounded c)) ?s3" using reach by simp
  from pipe_interleavings [OF this bound] have "dp_depth (ps_pipe ?s3) = 2 \<and> sender_depth (ps_pipe ?s3) \<le> 1"
    by (simp add: in_flight_def depth_up_def bounded_def pipe_start_def sender_depth_def)
  moreover have "ps_announced ?s3 = 1 \<and> dp_queue (ps_pipe ?s3) = [7]" by (simp add: depth_up_def)
  ultimately show ?thesis using reach by blast
qed

end
