(* ===== verification/ElementIo.thy ===== *)
theory ElementIo
  imports Pipes Resource
begin

text \<open>
  The interface an element works through, \<open>ElementIo\<close> of \<open>dg-graph/src/element.rs\<close>.  What is shared
  with other threads (pipes, sender tables, stop flags, end-of-stream state, counters) lives in a
  world and is reached by address, as the \<open>Arc\<close>s of the source are.  Other threads act between two
  attempts to send: \<open>others k\<close> is what they do to the world during the k-th pause.  Locks are not
  poisoned: no code that holds one of them can panic.  The order of a \<open>HashMap\<close>'s keys is the order
  of the list that stands for it.
\<close>

record EosState =
  es_seen :: bool
  es_broadcasts :: usize
  es_instances :: usize

record 'b io_world =
  iw_pipes :: "nat \<Rightarrow> Packet DataPipe"
  iw_tables :: "nat \<Rightarrow> nat list"
  iw_stop :: bool
  iw_control_stop :: "nat \<Rightarrow> bool"
  iw_eos :: "nat \<Rightarrow> EosState"
  iw_metrics :: "nat \<Rightarrow> 'b ElementMetrics"

record ElementIo =
  io_name :: string
  io_inputs :: "(string \<times> nat) list"
  io_outputs :: "(string \<times> nat) list"
  io_control :: nat
  io_eos :: nat
  io_metrics :: nat
  io_packet_starts :: "nat list"
  io_max_packet_starts :: usize
  io_policy :: resource_policy

definition should_stop :: "ElementIo \<Rightarrow> 'b io_world \<Rightarrow> bool" where
  "should_stop io w \<longleftrightarrow> iw_stop w \<or> iw_control_stop w (io_control io)"

definition on_metrics :: "ElementIo \<Rightarrow> ('b ElementMetrics \<Rightarrow> 'b ElementMetrics) \<Rightarrow> 'b io_world \<Rightarrow> 'b io_world" where
  "on_metrics io f w = w\<lparr> iw_metrics := (iw_metrics w)(io_metrics io := f (iw_metrics w (io_metrics io))) \<rparr>"

definition set_pipe :: "nat \<Rightarrow> Packet DataPipe \<Rightarrow> 'b io_world \<Rightarrow> 'b io_world" where
  "set_pipe a pipe w = w\<lparr> iw_pipes := (iw_pipes w)(a := pipe) \<rparr>"

definition absorb_frame_result :: "ElementIo \<Rightarrow> 'a graph_result \<Rightarrow> 'b io_world \<Rightarrow> 'a option graph_result \<times> 'b io_world" where
  "absorb_frame_result io result w =
    (case result of
       Inr v \<Rightarrow> (Inr (Some v), w)
     | Inl error \<Rightarrow>
        if error_scope error = FrameLocal \<and> \<not> is_cancellation error
        then (Inr None, on_metrics io record_drop w)
        else (Inl error, w))"

definition complete_packet :: "nat \<Rightarrow> ElementIo \<Rightarrow> 'b io_world \<Rightarrow> ElementIo \<times> 'b io_world" where
  "complete_packet now io w =
    (case io_packet_starts io of
       started # rest \<Rightarrow> (io\<lparr> io_packet_starts := rest \<rparr>, on_metrics io (record_latency (now - started)) w)
     | [] \<Rightarrow> (io, w))"

definition drop_packet :: "nat \<Rightarrow> ElementIo \<Rightarrow> 'b io_world \<Rightarrow> ElementIo \<times> 'b io_world" where
  "drop_packet now io w = complete_packet now io (on_metrics io record_drop w)"

section \<open>Receiving\<close>

definition mark_seen :: "ElementIo \<Rightarrow> 'b io_world \<Rightarrow> 'b io_world" where
  "mark_seen io w = w\<lparr> iw_eos := (iw_eos w)(io_eos io := (iw_eos w (io_eos io))\<lparr> es_seen := True \<rparr>) \<rparr>"

definition recv :: "nat \<Rightarrow> ElementIo \<Rightarrow> string \<Rightarrow> 'b io_world \<Rightarrow> Packet option graph_result \<times> ElementIo \<times> 'b io_world" where
  "recv now io port w =
    (case map_of (io_inputs io) port of
       None \<Rightarrow> (Inl (GUnknownPort (io_name io) port), io, w)
     | Some a \<Rightarrow>
        let (result, pipe) = recv_timeout (iw_pipes w a);
            w1 = on_metrics io (record_queue_depth (receiver_depth pipe)) (set_pipe a pipe w)
        in case result of
             Inr packet \<Rightarrow>
               if is_eos packet then (Inr (Some packet), io, mark_seen io w1)
               else
                 let w2 = on_metrics io record_received w1;
                     io2 = io\<lparr> io_packet_starts := io_packet_starts io @ [now] \<rparr>
                 in if length (io_packet_starts io2) > io_max_packet_starts io2
                    then (Inl (GResourceLimit (io_name io @ ''/packet_starts'') (length (io_packet_starts io2)) (io_max_packet_starts io2)), io2, w2)
                    else (Inr (Some packet), io2, w2)
           | Inl Timeout \<Rightarrow>
               if should_stop io w1 then (Inl GNotRunning, io, w1)
               else if es_seen (iw_eos w1 (io_eos io)) then (Inr (Some packet_eos), io, w1)
               else (Inr None, io, w1)
           | Inl RecvDisconnected \<Rightarrow>
               if should_stop io w1 then (Inl GNotRunning, io, w1)
               else if es_seen (iw_eos w1 (io_eos io)) then (Inr (Some packet_eos), io, w1)
               else (Inl (GRuntime (''receive failed on '' @ port @ '': disconnected'')), io, w1))"

section \<open>Sending\<close>

text \<open>The inner loop: one sender, attempt \<open>k\<close>.  \<open>None\<close> means that the fuel ran out.\<close>

fun send_one ::
  "nat \<Rightarrow> nat \<Rightarrow> (nat \<Rightarrow> 'b io_world \<Rightarrow> 'b io_world) \<Rightarrow> nat \<Rightarrow> ElementIo \<Rightarrow> string \<Rightarrow> Packet \<Rightarrow> nat \<Rightarrow> 'b io_world \<Rightarrow>
    (unit graph_result \<times> ElementIo \<times> nat \<times> 'b io_world) option"
where
  "send_one 0 now others k io port packet a w = None"
| "send_one (Suc fuel) now others k io port packet a w =
    (if should_stop io w then Some (Inl GNotRunning, io, k, w)
     else case try_send packet (iw_pipes w a) of
       (Inr _, pipe) \<Rightarrow> Some (Inr (), io, k, on_metrics io (record_queue_depth (sender_depth pipe)) (set_pipe a pipe w))
     | (Inl Full, pipe) \<Rightarrow>
         send_one fuel now others (Suc k) io port packet a (others k (on_metrics io record_backpressure (set_pipe a pipe w)))
     | (Inl Disconnected, pipe) \<Rightarrow>
         let (io1, w1) = complete_packet now io (on_metrics io record_drop (set_pipe a pipe w))
         in Some (Inl (GRuntime (io_name io @ '' downstream disconnected on '' @ port)), io1, k, w1))"

fun send_all ::
  "nat \<Rightarrow> nat \<Rightarrow> (nat \<Rightarrow> 'b io_world \<Rightarrow> 'b io_world) \<Rightarrow> nat \<Rightarrow> ElementIo \<Rightarrow> string \<Rightarrow> Packet \<Rightarrow> nat list \<Rightarrow> 'b io_world \<Rightarrow>
    (unit graph_result \<times> ElementIo \<times> nat \<times> 'b io_world) option"
where
  "send_all fuel now others k io port packet [] w = Some (Inr (), io, k, w)"
| "send_all fuel now others k io port packet (a # as) w =
    (case send_one fuel now others k io port packet a w of
       None \<Rightarrow> None
     | Some (Inl e, io1, k1, w1) \<Rightarrow> Some (Inl e, io1, k1, w1)
     | Some (Inr _, io1, k1, w1) \<Rightarrow> send_all fuel now others k1 io1 port packet as w1)"

definition send ::
  "nat \<Rightarrow> nat \<Rightarrow> (nat \<Rightarrow> 'b io_world \<Rightarrow> 'b io_world) \<Rightarrow> nat \<Rightarrow> ElementIo \<Rightarrow> string \<Rightarrow> Packet \<Rightarrow> 'b io_world \<Rightarrow>
    (unit graph_result \<times> ElementIo \<times> nat \<times> 'b io_world) option"
where
  "send fuel now others k io port packet w =
    (case map_of (io_outputs io) port of
       None \<Rightarrow> Some (Inl (GUnknownPort (io_name io) port), io, k, w)
     | Some table \<Rightarrow>
        (case send_all fuel now others k io port packet (iw_tables w table) w of
           None \<Rightarrow> None
         | Some (Inl e, io1, k1, w1) \<Rightarrow> Some (Inl e, io1, k1, w1)
         | Some (Inr _, io1, k1, w1) \<Rightarrow>
             if is_eos packet then Some (Inr (), io1, k1, w1)
             else
               let w2 = on_metrics io1 record_sent w1 in
               if io_inputs io1 = [] then Some (Inr (), io1, k1, on_metrics io1 record_source_packet w2)
               else let (io3, w3) = complete_packet now io1 w2 in Some (Inr (), io3, k1, w3)))"

fun send_ports ::
  "nat \<Rightarrow> nat \<Rightarrow> (nat \<Rightarrow> 'b io_world \<Rightarrow> 'b io_world) \<Rightarrow> nat \<Rightarrow> ElementIo \<Rightarrow> string list \<Rightarrow> Packet \<Rightarrow> 'b io_world \<Rightarrow>
    (unit graph_result \<times> ElementIo \<times> nat \<times> 'b io_world) option"
where
  "send_ports fuel now others k io [] packet w = Some (Inr (), io, k, w)"
| "send_ports fuel now others k io (port # ports) packet w =
    (case send fuel now others k io port packet w of
       None \<Rightarrow> None
     | Some (Inl e, io1, k1, w1) \<Rightarrow> Some (Inl e, io1, k1, w1)
     | Some (Inr _, io1, k1, w1) \<Rightarrow> send_ports fuel now others k1 io1 ports packet w1)"

text \<open>The shared count of broadcasts decides which instance of a node forwards the end of stream.\<close>

definition count_broadcast :: "ElementIo \<Rightarrow> 'b io_world \<Rightarrow> bool \<times> 'b io_world" where
  "count_broadcast io w =
    (let eos = iw_eos w (io_eos io); eos1 = eos\<lparr> es_broadcasts := es_broadcasts eos + 1 \<rparr>
     in (es_broadcasts eos1 = es_instances eos1, w\<lparr> iw_eos := (iw_eos w)(io_eos io := eos1) \<rparr>))"

definition broadcast_eos ::
  "nat \<Rightarrow> nat \<Rightarrow> (nat \<Rightarrow> 'b io_world \<Rightarrow> 'b io_world) \<Rightarrow> nat \<Rightarrow> ElementIo \<Rightarrow> 'b io_world \<Rightarrow>
    (unit graph_result \<times> ElementIo \<times> nat \<times> 'b io_world) option"
where
  "broadcast_eos fuel now others k io w =
    (let (should_broadcast, w1) = count_broadcast io w in
     if \<not> should_broadcast then Some (Inr (), io, k, w1)
     else send_ports fuel now others k io (map fst (io_outputs io)) packet_eos w1)"

section \<open>Backpressure ends\<close>

lemma complete_packet_io [simp]:
  "io_control (fst (complete_packet now io w)) = io_control io"
  "io_inputs (fst (complete_packet now io w)) = io_inputs io"
  "io_outputs (fst (complete_packet now io w)) = io_outputs io"
  "io_eos (fst (complete_packet now io w)) = io_eos io"
  by (simp_all add: complete_packet_def split: list.splits)

lemma send_one_io:
  "send_one fuel now others k io port packet a w = Some (r, io1, k1, w1) \<Longrightarrow> io_control io1 = io_control io \<and> k \<le> k1"
proof (induction fuel arbitrary: k w)
  case (Suc fuel)
  obtain r0 pipe where sent: "try_send packet (iw_pipes w a) = (r0, pipe)" by fastforce
  consider (stop) "should_stop io w" | (ok) "\<not> should_stop io w" "r0 = Inr ()" | (full) "\<not> should_stop io w" "r0 = Inl Full"
    | (gone) "\<not> should_stop io w" "r0 = Inl Disconnected"
    by (cases r0) (metis old.unit.exhaust TrySendError.exhaust)+
  then show ?case
  proof cases
    case full
    let ?w1 = "others k (on_metrics io record_backpressure (set_pipe a pipe w))"
    have "send_one fuel now others (Suc k) io port packet a ?w1 = Some (r, io1, k1, w1)" using Suc.prems sent full by simp
    then show ?thesis using Suc.IH [of "Suc k" ?w1] by simp
  next
    case gone
    then have "io1 = fst (complete_packet now io (on_metrics io record_drop (set_pipe a pipe w)))" "k1 = k"
      using Suc.prems sent by (simp_all add: Let_def split: prod.splits)
    then show ?thesis by simp
  qed (use Suc.prems sent in auto)
qed simp

text \<open>A stop request that the other threads have made by pause \<open>K\<close> ends the loop.\<close>

definition stopped_by :: "nat \<Rightarrow> (nat \<Rightarrow> 'b io_world \<Rightarrow> 'b io_world) \<Rightarrow> nat \<Rightarrow> bool" where
  "stopped_by K others control \<longleftrightarrow> (\<forall>k w. K \<le> k \<longrightarrow> iw_stop (others k w) \<or> iw_control_stop (others k w) control)"

lemma send_one_returns:
  assumes "stopped_by K others (io_control io)"
  shows "(K - k) + 2 \<le> fuel \<Longrightarrow> send_one fuel now others k io port packet a w \<noteq> None"
proof (induction fuel arbitrary: k w)
  case (Suc fuel)
  show ?case
  proof (cases "try_send packet (iw_pipes w a)")
    case (Pair r pipe)
    let ?w1 = "others k (on_metrics io record_backpressure (set_pipe a pipe w))"
    have "send_one fuel now others (Suc k) io port packet a ?w1 \<noteq> None"
    proof (cases "k < K")
      case True
      then show ?thesis using Suc by simp
    next
      case False
      then have "should_stop io ?w1" using assms by (simp add: stopped_by_def should_stop_def)
      moreover obtain f where "fuel = Suc f" using Suc.prems by (cases fuel) auto
      ultimately show ?thesis by simp
    qed
    then show ?thesis using Pair by (auto split: sum.splits TrySendError.splits prod.splits)
  qed
qed simp

lemma send_all_returns:
  "stopped_by K others (io_control io) \<Longrightarrow> K + 2 \<le> fuel \<Longrightarrow> send_all fuel now others k io port packet as w \<noteq> None"
proof (induction as arbitrary: k io w)
  case (Cons a as)
  have "(K - k) + 2 \<le> fuel" using Cons.prems(2) by simp
  from send_one_returns [OF Cons.prems(1) this] obtain r io1 k1 w1
    where one: "send_one fuel now others k io port packet a w = Some (r, io1, k1, w1)" by fastforce
  then have "io_control io1 = io_control io" using send_one_io by blast
  then have "send_all fuel now others k1 io1 port packet as w1 \<noteq> None" using Cons by simp
  then show ?case using one by (cases r) auto
qed simp

text \<open>A blocked sender is released by a stop request: if the other threads have asked the graph or the
  node to stop by their K-th turn, \<open>send\<close> returns after at most K + 2 attempts per pipe, however full
  the pipes are.\<close>

lemma send_returns_when_stopped:
  assumes "stopped_by K others (io_control io)"
  shows "\<exists>result. send (K + 2) now others k io port packet w = Some result"
proof (cases "map_of (io_outputs io) port")
  case (Some table)
  have "send_all (K + 2) now others k io port packet (iw_tables w table) w \<noteq> None"
    using assms by (rule send_all_returns) simp
  then obtain r io1 k1 w1 where "send_all (K + 2) now others k io port packet (iw_tables w table) w = Some (r, io1, k1, w1)"
    by fastforce
  then show ?thesis using Some by (cases r) (simp_all add: send_def Let_def split: prod.splits)
qed (simp add: send_def)

section \<open>Fan-out\<close>

definition ready :: "Packet DataPipe \<Rightarrow> bool" where
  "ready pipe \<longleftrightarrow> dp_receiver pipe \<and> (\<forall>c. dp_capacity pipe = Some c \<longrightarrow> length (dp_queue pipe) < c)"

lemma try_send_ready: "ready pipe \<Longrightarrow> try_send packet pipe = (Inr (), (depth_up pipe)\<lparr> dp_queue := dp_queue pipe @ [packet] \<rparr>)"
  by (auto simp: ready_def try_send_def channel_send_def depth_up_def Let_def not_le split: option.splits)

lemma on_metrics_simps [simp]:
  "iw_pipes (on_metrics io f w) = iw_pipes w" "iw_tables (on_metrics io f w) = iw_tables w"
  "iw_stop (on_metrics io f w) = iw_stop w" "iw_control_stop (on_metrics io f w) = iw_control_stop w"
  "iw_eos (on_metrics io f w) = iw_eos w"
  by (simp_all add: on_metrics_def)

lemma set_pipe_simps [simp]:
  "iw_pipes (set_pipe a pipe w) = (iw_pipes w)(a := pipe)" "iw_tables (set_pipe a pipe w) = iw_tables w"
  "iw_stop (set_pipe a pipe w) = iw_stop w" "iw_control_stop (set_pipe a pipe w) = iw_control_stop w"
  "iw_eos (set_pipe a pipe w) = iw_eos w" "iw_metrics (set_pipe a pipe w) = iw_metrics w"
  by (simp_all add: set_pipe_def)

lemma should_stop_simps [simp]:
  "should_stop io (on_metrics io' f w) = should_stop io w" "should_stop io (set_pipe a pipe w) = should_stop io w"
  by (simp_all add: should_stop_def)

definition pushed :: "Packet \<Rightarrow> nat list \<Rightarrow> 'b io_world \<Rightarrow> 'b io_world \<Rightarrow> bool" where
  "pushed packet as w w' \<longleftrightarrow> (\<forall>a. if a \<in> set as then dp_queue (iw_pipes w' a) = dp_queue (iw_pipes w a) @ [packet]
    else iw_pipes w' a = iw_pipes w a)"

lemma pushed_append:
  assumes "pushed packet as w w1" and "pushed packet bs w1 w2" and "set as \<inter> set bs = {}"
  shows "pushed packet (as @ bs) w w2"
  unfolding pushed_def
proof
  fix a
  have "if a \<in> set as then dp_queue (iw_pipes w1 a) = dp_queue (iw_pipes w a) @ [packet] else iw_pipes w1 a = iw_pipes w a"
    "if a \<in> set bs then dp_queue (iw_pipes w2 a) = dp_queue (iw_pipes w1 a) @ [packet] else iw_pipes w2 a = iw_pipes w1 a"
    using assms(1,2) unfolding pushed_def by blast+
  then show "if a \<in> set (as @ bs) then dp_queue (iw_pipes w2 a) = dp_queue (iw_pipes w a) @ [packet] else iw_pipes w2 a = iw_pipes w a"
    using assms(3) by (cases "a \<in> set as"; cases "a \<in> set bs") auto
qed

definition same_control :: "'b io_world \<Rightarrow> 'b io_world \<Rightarrow> bool" where
  "same_control w w' \<longleftrightarrow> iw_tables w' = iw_tables w \<and> iw_stop w' = iw_stop w \<and>
    iw_control_stop w' = iw_control_stop w \<and> iw_eos w' = iw_eos w"

lemma send_all_ready:
  "\<not> should_stop io w \<Longrightarrow> distinct as \<Longrightarrow> \<forall>a \<in> set as. ready (iw_pipes w a) \<Longrightarrow>
    \<exists>w'. send_all (Suc fuel) now others k io port packet as w = Some (Inr (), io, k, w') \<and> pushed packet as w w' \<and>
      same_control w w' \<and>
      em_packets_sent (iw_metrics w' (io_metrics io)) = em_packets_sent (iw_metrics w (io_metrics io))"
proof (induction as arbitrary: w)
  case (Cons a as)
  let ?pipe = "(depth_up (iw_pipes w a))\<lparr> dp_queue := dp_queue (iw_pipes w a) @ [packet] \<rparr>"
  let ?w1 = "on_metrics io (record_queue_depth (sender_depth ?pipe)) (set_pipe a ?pipe w)"
  have one: "send_one (Suc fuel) now others k io port packet a w = Some (Inr (), io, k, ?w1)"
    using Cons.prems by (simp add: try_send_ready)
  have "\<forall>b \<in> set as. ready (iw_pipes ?w1 b)" using Cons.prems by auto
  then obtain w' where w': "send_all (Suc fuel) now others k io port packet as ?w1 = Some (Inr (), io, k, w')"
    "pushed packet as ?w1 w'" "same_control ?w1 w'" "em_packets_sent (iw_metrics w' (io_metrics io)) = em_packets_sent (iw_metrics ?w1 (io_metrics io))"
    using Cons.IH [of ?w1] Cons.prems by (auto simp del: send_one.simps)
  moreover have "pushed packet (a # as) w w'" using w'(2) Cons.prems(2) by (auto simp: pushed_def)
  moreover have "same_control w w'" using w'(3) by (simp add: same_control_def)
  moreover have "em_packets_sent (iw_metrics ?w1 (io_metrics io)) = em_packets_sent (iw_metrics w (io_metrics io))"
    by (simp add: on_metrics_def record_queue_depth_def)
  ultimately show ?case using one by (simp del: send_one.simps)
qed (simp add: pushed_def same_control_def)

lemma complete_packet_keeps:
  "complete_packet now io w = (io', w') \<Longrightarrow> iw_pipes w' = iw_pipes w \<and>
    em_packets_sent (iw_metrics w' (io_metrics io)) = em_packets_sent (iw_metrics w (io_metrics io)) \<and>
    io_packet_starts io' = tl (io_packet_starts io)"
  by (auto simp: complete_packet_def on_metrics_def record_latency_def count_overflow_def Let_def split: list.splits prod.splits)

text \<open>C12. A packet sent on a port reaches every pipe connected to it exactly once and no other: when the
  pipes have room and nobody asks to stop, \<open>send\<close> succeeds at the first attempt, appends the packet
  to each of them, counts it once however many pipes there are, and closes the received packet it
  answers.\<close>

theorem send_fans_out:
  assumes "map_of (io_outputs io) port = Some table" and "\<not> should_stop io w" and "distinct (iw_tables w table)"
    and "\<forall>a \<in> set (iw_tables w table). ready (iw_pipes w a)" and "\<not> is_eos packet"
    and "em_packets_sent (iw_metrics w (io_metrics io)) < usize_max"
  shows "\<exists>io' w'. send (Suc fuel) now others k io port packet w = Some (Inr (), io', k, w') \<and>
    pushed packet (iw_tables w table) w w' \<and>
    em_packets_sent (iw_metrics w' (io_metrics io)) = em_packets_sent (iw_metrics w (io_metrics io)) + 1 \<and>
    (io_inputs io \<noteq> [] \<longrightarrow> io_packet_starts io' = tl (io_packet_starts io))"
proof -
  obtain w1 where w1: "send_all (Suc fuel) now others k io port packet (iw_tables w table) w = Some (Inr (), io, k, w1)"
    "pushed packet (iw_tables w table) w w1"
    "em_packets_sent (iw_metrics w1 (io_metrics io)) = em_packets_sent (iw_metrics w (io_metrics io))"
    using send_all_ready [OF assms(2,3,4)] by blast
  define w2 where "w2 = on_metrics io record_sent w1"
  have sent: "em_packets_sent (iw_metrics w2 (io_metrics io)) = em_packets_sent (iw_metrics w (io_metrics io)) + 1"
    "iw_pipes w2 = iw_pipes w1"
    using w1(3) assms(6) by (simp_all add: w2_def on_metrics_def record_sent_def overflowing_add_def count_overflow_def Let_def)
  show ?thesis
  proof (cases "io_inputs io = []")
    case True
    then have "send (Suc fuel) now others k io port packet w = Some (Inr (), io, k, on_metrics io record_source_packet w2)"
      using assms w1(1) by (simp add: send_def Let_def w2_def)
    moreover have "em_packets_sent (iw_metrics (on_metrics io record_source_packet w2) (io_metrics io)) = em_packets_sent (iw_metrics w2 (io_metrics io))"
      by (simp add: on_metrics_def record_source_packet_def count_overflow_def Let_def split: prod.splits)
    ultimately show ?thesis using True sent w1(2) by (auto simp: pushed_def)
  next
    case False
    obtain io3 w3 where c: "complete_packet now io w2 = (io3, w3)" by fastforce
    then have "send (Suc fuel) now others k io port packet w = Some (Inr (), io3, k, w3)"
      using False assms w1(1) by (simp add: send_def Let_def w2_def)
    then show ?thesis using complete_packet_keeps [OF c] sent w1(2) by (auto simp: pushed_def)
  qed
qed

theorem send_fans_out_witness:
  "\<exists>io' w'. send (Suc 0) 0 (\<lambda>k w. w) 0
    \<lparr> io_name = ''a'', io_inputs = [], io_outputs = [(''out'', 0)], io_control = 0, io_eos = 0, io_metrics = 0,
      io_packet_starts = [], io_max_packet_starts = 1, io_policy = resource_policy_default \<rparr> ''out'' (packet_ocr [])
    (\<lparr> iw_pipes = (\<lambda>_. unbounded), iw_tables = (\<lambda>_. [4, 5]), iw_stop = False,
       iw_control_stop = (\<lambda>_. False), iw_eos = (\<lambda>_. \<lparr> es_seen = False, es_broadcasts = 0, es_instances = 1 \<rparr>),
       iw_metrics = (\<lambda>_. metrics_default) \<rparr> :: unit io_world) = Some (Inr (), io', 0, w') \<and>
    dp_queue (iw_pipes w' 4) = [packet_ocr []] \<and> dp_queue (iw_pipes w' 6) = []"
proof -
  let ?io = "\<lparr> io_name = ''a'', io_inputs = [], io_outputs = [(''out'', 0)], io_control = 0, io_eos = 0, io_metrics = 0,
      io_packet_starts = [], io_max_packet_starts = 1, io_policy = resource_policy_default \<rparr>"
  let ?w = "\<lparr> iw_pipes = (\<lambda>_. unbounded), iw_tables = (\<lambda>_. [4, 5]), iw_stop = False,
       iw_control_stop = (\<lambda>_. False), iw_eos = (\<lambda>_. \<lparr> es_seen = False, es_broadcasts = 0, es_instances = 1 \<rparr>),
       iw_metrics = (\<lambda>_. metrics_default) \<rparr> :: unit io_world"
  have "\<exists>io' w'. send (Suc 0) 0 (\<lambda>k w. w) 0 ?io ''out'' (packet_ocr []) ?w = Some (Inr (), io', 0, w') \<and>
      pushed (packet_ocr []) (iw_tables ?w 0) ?w w' \<and>
      em_packets_sent (iw_metrics w' (io_metrics ?io)) = em_packets_sent (iw_metrics ?w (io_metrics ?io)) + 1 \<and>
      (io_inputs ?io \<noteq> [] \<longrightarrow> io_packet_starts io' = tl (io_packet_starts ?io))"
    by (rule send_fans_out)
       (simp_all add: should_stop_def ready_def unbounded_def is_eos_def packet_ocr_def packet_of_def metrics_default_def usize_max_def)
  then obtain io' w' where "send (Suc 0) 0 (\<lambda>k w. w) 0 ?io ''out'' (packet_ocr []) ?w = Some (Inr (), io', 0, w')"
    and "pushed (packet_ocr []) (iw_tables ?w 0) ?w w'" by blast
  moreover from this(2) have "dp_queue (iw_pipes w' 4) = [packet_ocr []]" "dp_queue (iw_pipes w' 6) = []"
    by (simp_all add: pushed_def unbounded_def)
  ultimately show ?thesis by blast
qed

section \<open>End of stream\<close>

text \<open>The pipes behind the ports of an element.\<close>

definition targets :: "(string \<times> nat) list \<Rightarrow> (nat \<Rightarrow> nat list) \<Rightarrow> string list \<Rightarrow> nat list" where
  "targets outs tables ports = concat (map (\<lambda>port. case map_of outs port of None \<Rightarrow> [] | Some table \<Rightarrow> tables table) ports)"

lemma send_ports_ready:
  "\<not> should_stop io w \<Longrightarrow> is_eos packet \<Longrightarrow> set ports \<subseteq> fst ` set (io_outputs io) \<Longrightarrow> distinct (targets (io_outputs io) (iw_tables w) ports) \<Longrightarrow>
    \<forall>a \<in> set (targets (io_outputs io) (iw_tables w) ports). ready (iw_pipes w a) \<Longrightarrow>
    \<exists>w'. send_ports (Suc fuel) now others k io ports packet w = Some (Inr (), io, k, w') \<and>
      pushed packet (targets (io_outputs io) (iw_tables w) ports) w w' \<and> same_control w w'"
proof (induction ports arbitrary: w)
  case (Cons port ports)
  obtain table where table: "map_of (io_outputs io) port = Some table"
    using Cons.prems(3) by (cases "map_of (io_outputs io) port") (auto simp: map_of_eq_None_iff)
  have split: "targets (io_outputs io) (iw_tables w) (port # ports) = iw_tables w table @ targets (io_outputs io) (iw_tables w) ports" by (simp add: targets_def table)
  obtain w1 where w1: "send_all (Suc fuel) now others k io port packet (iw_tables w table) w = Some (Inr (), io, k, w1)"
    "pushed packet (iw_tables w table) w w1" "same_control w w1"
    using send_all_ready [of io w "iw_tables w table" fuel now others k port packet] Cons.prems split by auto
  have one: "send (Suc fuel) now others k io port packet w = Some (Inr (), io, k, w1)"
    using table w1(1) Cons.prems(2) by (simp add: send_def)
  have same: "targets (io_outputs io) (iw_tables w1) ports = targets (io_outputs io) (iw_tables w) ports" using w1(3) by (simp add: same_control_def)
  have others_kept: "ready (iw_pipes w1 a)" if "a \<in> set (targets (io_outputs io) (iw_tables w) ports)" for a
  proof -
    have "a \<notin> set (iw_tables w table)" using that Cons.prems(4) split by auto
    then have "iw_pipes w1 a = iw_pipes w a" using w1(2) unfolding pushed_def by (metis (full_types))
    then show ?thesis using Cons.prems(5) split that by auto
  qed
  have "\<not> should_stop io w1" using Cons.prems(1) w1(3) by (simp add: should_stop_def same_control_def)
  from Cons.IH [OF this Cons.prems(2)] obtain w' where
    w': "send_ports (Suc fuel) now others k io ports packet w1 = Some (Inr (), io, k, w')"
    "pushed packet (targets (io_outputs io) (iw_tables w) ports) w1 w'" "same_control w1 w'"
    using Cons.prems split others_kept unfolding same by auto
  have "pushed packet (targets (io_outputs io) (iw_tables w) (port # ports)) w w'"
    using pushed_append [OF w1(2) w'(2)] Cons.prems(4) unfolding split by simp
  moreover have "same_control w w'" using w1(3) w'(3) by (simp add: same_control_def)
  ultimately show ?case using one w'(1) by auto
qed (simp add: targets_def pushed_def same_control_def)

text \<open>One call of \<open>broadcast_eos\<close> per instance of a node, in turn.\<close>

fun broadcast_each ::
  "nat \<Rightarrow> nat \<Rightarrow> (nat \<Rightarrow> 'b io_world \<Rightarrow> 'b io_world) \<Rightarrow> nat \<Rightarrow> ElementIo list \<Rightarrow> 'b io_world \<Rightarrow> 'b io_world option"
where
  "broadcast_each fuel now others k [] w = Some w"
| "broadcast_each fuel now others k (io # ios) w =
    (case broadcast_eos fuel now others k io w of
       Some (Inr _, _, k1, w1) \<Rightarrow> broadcast_each fuel now others k1 ios w1
     | _ \<Rightarrow> None)"

definition instances_left :: "nat \<Rightarrow> nat \<Rightarrow> 'b io_world \<Rightarrow> bool" where
  "instances_left e n w \<longleftrightarrow> es_broadcasts (iw_eos w e) + n = es_instances (iw_eos w e)"

lemma count_broadcast_left:
  assumes "instances_left (io_eos io) (Suc n) w" and "count_broadcast io w = (final, w1)"
  shows "final \<longleftrightarrow> n = 0" and "instances_left (io_eos io) n w1" and "iw_pipes w1 = iw_pipes w"
    and "iw_tables w1 = iw_tables w" and "iw_stop w1 = iw_stop w" and "iw_control_stop w1 = iw_control_stop w"
  using assms by (auto simp: count_broadcast_def instances_left_def Let_def)

lemma broadcast_each_once:
  assumes "\<forall>io \<in> set ios. io_eos io = e \<and> io_control io = c \<and> io_outputs io = outs"
  shows "ios \<noteq> [] \<Longrightarrow> instances_left e (length ios) w \<Longrightarrow> \<not> iw_stop w \<and> \<not> iw_control_stop w c \<Longrightarrow>
    as = targets outs (iw_tables w) (map fst outs) \<Longrightarrow>
    distinct as \<Longrightarrow> \<forall>a \<in> set as. ready (iw_pipes w a) \<Longrightarrow>
    \<exists>w'. broadcast_each (Suc fuel) now others k ios w = Some w' \<and> pushed packet_eos as w w'"
  using assms
proof (induction ios arbitrary: w)
  case (Cons io ios)
  obtain final w1 where cb: "count_broadcast io w = (final, w1)" by fastforce
  have io: "io_eos io = e" "io_control io = c" "io_outputs io = outs" using Cons.prems(7) by auto
  have left: "instances_left (io_eos io) (Suc (length ios)) w" using Cons.prems(2) io by simp
  note counted = count_broadcast_left [OF left cb]
  show ?case
  proof (cases "ios = []")
    case True
    have stop: "\<not> should_stop io w1" using Cons.prems(3) counted io by (simp add: should_stop_def)
    have tg: "targets (io_outputs io) (iw_tables w1) (map fst outs) = as" using Cons.prems(4) counted io by simp
    have "is_eos packet_eos" by (simp add: is_eos_def packet_eos_def packet_of_def)
    from send_ports_ready [OF stop this, of "map fst outs" fuel now others k] obtain w' where
      w': "send_ports (Suc fuel) now others k io (map fst outs) packet_eos w1 = Some (Inr (), io, k, w')" "pushed packet_eos as w1 w'"
      using Cons.prems(5,6) io counted(3) unfolding tg by auto
    have "broadcast_eos (Suc fuel) now others k io w = Some (Inr (), io, k, w')"
      using cb counted(1) True w'(1) io by (simp add: broadcast_eos_def)
    then show ?thesis using True w'(2) counted(3) by (simp add: pushed_def)
  next
    case False
    have "broadcast_eos (Suc fuel) now others k io w = Some (Inr (), io, k, w1)"
      using cb counted(1) False by (simp add: broadcast_eos_def)
    moreover have "\<exists>w'. broadcast_each (Suc fuel) now others k ios w1 = Some w' \<and> pushed packet_eos as w1 w'"
      using Cons.prems False counted io by (intro Cons.IH) auto
    ultimately show ?thesis using counted(3) by (auto simp: pushed_def)
  qed
qed simp

lemma broadcasts_before_last:
  "\<forall>io \<in> set ios. io_eos io = e \<Longrightarrow> instances_left e n w \<Longrightarrow> length ios < n \<Longrightarrow>
    \<exists>w'. broadcast_each fuel now others k ios w = Some w' \<and> iw_pipes w' = iw_pipes w \<and> instances_left e (n - length ios) w'"
proof (induction ios arbitrary: w n)
  case (Cons io ios)
  obtain n' where n: "n = Suc n'" using Cons.prems(3) by (cases n) auto
  obtain final w1 where cb: "count_broadcast io w = (final, w1)" by fastforce
  have left: "instances_left (io_eos io) (Suc n') w" using Cons.prems(1,2) n by simp
  note counted = count_broadcast_left [OF left cb]
  have "broadcast_eos fuel now others k io w = Some (Inr (), io, k, w1)"
    using cb counted(1) Cons.prems(3) n by (simp add: broadcast_eos_def)
  then show ?case using Cons.IH [of n' w1] Cons.prems n counted by auto
qed simp

lemma count_after_last:
  assumes "es_instances (iw_eos w (io_eos io)) \<le> es_broadcasts (iw_eos w (io_eos io))"
  shows "broadcast_eos fuel now others k io w = Some (Inr (), io, k, snd (count_broadcast io w)) \<and> iw_pipes (snd (count_broadcast io w)) = iw_pipes w"
  using assms by (auto simp: broadcast_eos_def count_broadcast_def Let_def)

text \<open>C16. A node with several instances forwards the end of its stream once.  Announcements are counted under a lock; they are taken one after another here, in that order.  The
  announcements before the last succeed and touch no pipe, and so does any announcement beyond the number of instances, whatever the state of the pipes and the stop flags.  If no stop is
  requested and the connected pipes are distinct, have a receiver and have room, then every one of them holds one end-of-stream packet more, and no other pipe changes.  (With a
  stop request or a lost receiver the last announcement can fail instead; see \<open>send_one\<close>.)\<close>

theorem eos_forwarded_once:
  assumes "\<forall>io \<in> set ios. io_eos io = e \<and> io_control io = c \<and> io_outputs io = outs" and "ios \<noteq> []"
    and "iw_eos w e = \<lparr> es_seen = seen, es_broadcasts = 0, es_instances = length ios \<rparr>"
  shows "(\<forall>n < length ios. \<exists>w'. broadcast_each fuel now others k (take n ios) w = Some w' \<and> iw_pipes w' = iw_pipes w) \<and>
    (\<forall>io v. es_instances (iw_eos v (io_eos io)) \<le> es_broadcasts (iw_eos v (io_eos io)) \<longrightarrow>
      (\<exists>v'. broadcast_eos fuel now others k io v = Some (Inr (), io, k, v') \<and> iw_pipes v' = iw_pipes v)) \<and>
    (\<not> iw_stop w \<and> \<not> iw_control_stop w c \<and> distinct (targets outs (iw_tables w) (map fst outs)) \<and>
      (\<forall>a \<in> set (targets outs (iw_tables w) (map fst outs)). ready (iw_pipes w a)) \<longrightarrow>
      (\<exists>w'. broadcast_each (Suc fuel) now others k ios w = Some w' \<and> pushed packet_eos (targets outs (iw_tables w) (map fst outs)) w w'))"
proof (intro conjI allI impI)
  have left: "instances_left e (length ios) w" using assms(3) by (simp add: instances_left_def)
  show "\<exists>w'. broadcast_each fuel now others k (take n ios) w = Some w' \<and> iw_pipes w' = iw_pipes w" if "n < length ios" for n
  proof -
    have "\<forall>io \<in> set (take n ios). io_eos io = e" using assms(1) by (auto dest: in_set_takeD)
    then show ?thesis using broadcasts_before_last [OF _ left] that by fastforce
  qed
  show "\<exists>v'. broadcast_eos fuel now others k io v = Some (Inr (), io, k, v') \<and> iw_pipes v' = iw_pipes v"
    if "es_instances (iw_eos v (io_eos io)) \<le> es_broadcasts (iw_eos v (io_eos io))" for io v
    using count_after_last [OF that] by blast
  show "\<exists>w'. broadcast_each (Suc fuel) now others k ios w = Some w' \<and> pushed packet_eos (targets outs (iw_tables w) (map fst outs)) w w'"
    if "\<not> iw_stop w \<and> \<not> iw_control_stop w c \<and> distinct (targets outs (iw_tables w) (map fst outs)) \<and>
      (\<forall>a \<in> set (targets outs (iw_tables w) (map fst outs)). ready (iw_pipes w a))"
    using broadcast_each_once [OF assms(1,2) left _ refl] that by blast
qed

text \<open>The end of a stream reaches every instance of a node though only one of them receives the packet:
  after an instance has received it, any other instance that finds its pipe empty receives an end
  of stream too, unless it is asked to stop.\<close>

lemma eos_reaches_siblings:
  assumes "map_of (io_inputs io1) port1 = Some a" and "dp_queue (iw_pipes w a) = packet # rest" and "is_eos packet"
    and "recv now io1 port1 w = (r, io1', w1)"
    and "io_eos io2 = io_eos io1" and "\<not> should_stop io2 w1"
    and "map_of (io_inputs io2) port2 = Some b" and "dp_queue (iw_pipes w1 b) = []"
  shows "\<exists>io2' w2. recv now2 io2 port2 w1 = (Inr (Some packet_eos), io2', w2)"
proof -
  have "w1 = mark_seen io1 (on_metrics io1 (record_queue_depth (receiver_depth (depth_down ((iw_pipes w a)\<lparr> dp_queue := rest \<rparr>))))
      (set_pipe a (depth_down ((iw_pipes w a)\<lparr> dp_queue := rest \<rparr>)) w))"
    using assms(1-4) by (auto simp: recv_def recv_timeout_def channel_recv_def Let_def)
  then have "es_seen (iw_eos w1 (io_eos io2))" using assms(5) by (simp add: mark_seen_def)
  then show ?thesis using assms(6-8)
    by (simp add: recv_def recv_timeout_def channel_recv_def Let_def)
qed

definition sample_io :: ElementIo where
  "sample_io = \<lparr> io_name = ''a'', io_inputs = [(''in'', 1)], io_outputs = [(''out'', 0)], io_control = 0, io_eos = 0, io_metrics = 0,
    io_packet_starts = [], io_max_packet_starts = 1, io_policy = resource_policy_default \<rparr>"

definition sample_world :: "unit io_world" where
  "sample_world = \<lparr> iw_pipes = (\<lambda>a. if a = 1 then unbounded\<lparr> dp_queue := [packet_eos], dp_depth := 1 \<rparr> else unbounded),
    iw_tables = (\<lambda>_. [4, 5]), iw_stop = False, iw_control_stop = (\<lambda>_. False),
    iw_eos = (\<lambda>_. \<lparr> es_seen = False, es_broadcasts = 0, es_instances = 2 \<rparr>), iw_metrics = (\<lambda>_. metrics_default) \<rparr>"

theorem eos_forwarded_once_witness:
  "\<exists>w'. broadcast_each (Suc 0) 0 (\<lambda>k w. w) 0 [sample_io, sample_io] sample_world = Some w' \<and> dp_queue (iw_pipes w' 4) = [packet_eos]"
proof -
  have tg: "targets [(''out'', 0)] (iw_tables sample_world) (map fst [(''out'', 0)]) = [4, 5]" by (simp add: targets_def sample_world_def)
  have "\<exists>w'. broadcast_each (Suc 0) 0 (\<lambda>k w. w) 0 [sample_io, sample_io] sample_world = Some w' \<and> pushed packet_eos [4, 5] sample_world w'"
    using eos_forwarded_once [of "[sample_io, sample_io]" 0 0 "[(''out'', 0)]" sample_world False 0 0 "\<lambda>k w. w" 0, unfolded tg]
    by (simp add: sample_io_def sample_world_def ready_def unbounded_def)
  then obtain w' where w': "broadcast_each (Suc 0) 0 (\<lambda>k w. w) 0 [sample_io, sample_io] sample_world = Some w'"
    "pushed packet_eos [4, 5] sample_world w'" by blast
  from w'(2) have "dp_queue (iw_pipes w' 4) = [packet_eos]"
    unfolding pushed_def by (auto simp: sample_world_def unbounded_def dest: spec [of _ "4"])
  with w'(1) show ?thesis by blast
qed

end
