(* ===== verification/Values.thy ===== *)
theory Values
  imports GraphTypes
begin

text \<open>
  Parameter values of \<open>spec.rs\<close>: deep merging of template and node parameters
  (\<open>merge_values\<close>), substitution of variables (\<open>substitute_variables\<close>,
  \<open>substitute_string\<close>) and the search for placeholders that were not resolved.
  The textual form of a value that is not a string is that of \<open>serde_json\<close>; it is the
  parameter \<open>display\<close>.
\<close>

section \<open>Merging\<close>

fun merge_values :: "Value \<Rightarrow> Value \<Rightarrow> Value"
  and merge_into :: "(string \<times> Value) list \<Rightarrow> (string \<times> Value) list \<Rightarrow> (string \<times> Value) list"
where
  "merge_values (Object base) (Object overlay) = Object (merge_into base overlay)"
| "merge_values base overlay = overlay"
| "merge_into base [] = base"
| "merge_into base ((key, v) # overlay) =
    (let merged = (case map_of base key of Some existing \<Rightarrow> merge_values existing v | None \<Rightarrow> v)
     in merge_into (bt_insert key merged (bt_remove key base)) overlay)"

section \<open>Variables\<close>

definition placeholder_of :: "string \<Rightarrow> string" where
  "placeholder_of key = ''${'' @ key @ ''}''"

definition replacement_text :: "(Value \<Rightarrow> string) \<Rightarrow> Value \<Rightarrow> string" where
  "replacement_text display v = (case v of String s \<Rightarrow> s | other \<Rightarrow> display other)"

definition substitute_string :: "(Value \<Rightarrow> string) \<Rightarrow> (string \<times> Value) list \<Rightarrow> string \<Rightarrow> string" where
  "substitute_string display vars s =
    fold (\<lambda>(key, v) out. replace (placeholder_of key) (replacement_text display v) out) vars s"

definition variable_key :: "string \<Rightarrow> string" where
  "variable_key s = trim_end_matches (CHR ''}'') (trim_start_matches ''${'' (trim s))"

definition is_placeholder :: "string \<Rightarrow> bool" where
  "is_placeholder s \<longleftrightarrow> starts_with ''${'' s \<and> ends_with ''}'' s \<and> count_matches ''${'' s = 1"

fun substitute_variables :: "(Value \<Rightarrow> string) \<Rightarrow> (string \<times> Value) list \<Rightarrow> Value \<Rightarrow> Value" where
  "substitute_variables display vars (String s) =
    (case map_of vars (variable_key s) of
       Some replacement \<Rightarrow> if is_placeholder s then replacement else String (substitute_string display vars s)
     | None \<Rightarrow> String (substitute_string display vars s))"
| "substitute_variables display vars (Array vs) = Array (map (substitute_variables display vars) vs)"
| "substitute_variables display vars (Object m) = Object (map (\<lambda>(k, v). (k, substitute_variables display vars v)) m)"
| "substitute_variables display vars other = other"

section \<open>Unresolved placeholders\<close>

definition find_unresolved_placeholder_in_string :: "string \<Rightarrow> string option" where
  "find_unresolved_placeholder_in_string s =
    (case find_sub ''${'' s of
       None \<Rightarrow> None
     | Some start \<Rightarrow>
        let remainder = drop (start + 2) s;
            end_pos = (case find_sub ''}'' remainder of None \<Rightarrow> length s | Some e \<Rightarrow> start + 3 + e)
        in Some (take (end_pos - start) (drop start s)))"

text \<open>\<open>Iterator::find_map\<close>.\<close>

fun find_map :: "('a \<Rightarrow> 'b option) \<Rightarrow> 'a list \<Rightarrow> 'b option" where
  "find_map f [] = None"
| "find_map f (x # xs) = (case f x of Some y \<Rightarrow> Some y | None \<Rightarrow> find_map f xs)"

lemma find_map_cong [fundef_cong]:
  "xs = ys \<Longrightarrow> (\<And>x. x \<in> set ys \<Longrightarrow> f x = g x) \<Longrightarrow> find_map f xs = find_map g ys"
  by (induction xs arbitrary: ys) (auto split: option.splits)

fun find_unresolved_placeholder :: "Value \<Rightarrow> string option" where
  "find_unresolved_placeholder (String s) = find_unresolved_placeholder_in_string s"
| "find_unresolved_placeholder (Array vs) = find_map find_unresolved_placeholder vs"
| "find_unresolved_placeholder (Object m) = find_map (\<lambda>(k, v). find_unresolved_placeholder v) m"
| "find_unresolved_placeholder _ = None"

section \<open>Lookup in merged values\<close>

text \<open>The value at a path of keys.\<close>

fun get_path :: "string list \<Rightarrow> Value \<Rightarrow> Value option" where
  "get_path [] v = Some v"
| "get_path (k # ks) (Object m) = (case map_of m k of None \<Rightarrow> None | Some v \<Rightarrow> get_path ks v)"
| "get_path (k # ks) _ = None"

text \<open>The overlay says nothing about a path: it has objects down to a key that is missing.\<close>

fun silent_at :: "string list \<Rightarrow> Value \<Rightarrow> bool" where
  "silent_at (k # ks) (Object m) = (case map_of m k of None \<Rightarrow> True | Some v \<Rightarrow> silent_at ks v)"
| "silent_at _ _ = False"

fun is_object :: "Value \<Rightarrow> bool" where
  "is_object (Object m) = True"
| "is_object _ = False"

lemma merge_into_lookup:
  "bt_wf base \<Longrightarrow> distinct (map fst overlay) \<Longrightarrow>
    bt_wf (merge_into base overlay) \<and>
    map_of (merge_into base overlay) k =
      (case map_of overlay k of
         None \<Rightarrow> map_of base k
       | Some v \<Rightarrow> Some (case map_of base k of Some e \<Rightarrow> merge_values e v | None \<Rightarrow> v))"
proof (induction overlay arbitrary: base)
  case (Cons kv overlay)
  obtain key v where kv: "kv = (key, v)" by fastforce
  let ?merged = "case map_of base key of Some e \<Rightarrow> merge_values e v | None \<Rightarrow> v"
  let ?base = "bt_insert key ?merged (bt_remove key base)"
  have wf: "bt_wf ?base" using Cons.prems(1) by simp
  have look: "map_of ?base = (map_of base)(key \<mapsto> ?merged)"
    using Cons.prems(1) by (simp add: map_of_bt_insert map_of_bt_remove)
  have key: "map_of overlay key = None" using Cons.prems(2) by (simp add: kv map_of_eq_None_iff)
  from Cons.IH [OF wf] Cons.prems(2) show ?case
    by (auto simp: kv Let_def look key split: option.splits)
qed simp

lemma merge_values_overlay:
  assumes "value_wf base" and "value_wf overlay" and "get_path ks overlay = Some v" and "\<not> is_object v"
  shows "get_path ks (merge_values base overlay) = Some v"
  using assms
proof (induction ks arbitrary: base overlay)
  case Nil
  then show ?case by (cases base; cases overlay) auto
next
  case (Cons k ks)
  obtain m w where m: "overlay = Object m" "map_of m k = Some w" "get_path ks w = Some v"
    using Cons.prems(3) by (cases overlay) (auto split: option.splits)
  have w: "value_wf w" using Cons.prems(2) m map_of_SomeD [OF m(2)] by (auto simp: list_all_iff)
  show ?case
  proof (cases base)
    case (Object b)
    have wf: "bt_wf b" "distinct (map fst m)" using Cons.prems Object m by (auto intro: bt_wf_distinct)
    show ?thesis
    proof (cases "map_of b k")
      case None
      then show ?thesis using merge_into_lookup [OF wf, of k] m Object by simp
    next
      case (Some e)
      have "value_wf e" using Cons.prems(1) Object map_of_SomeD [OF Some] by (auto simp: list_all_iff)
      from Cons.IH [OF this w m(3) Cons.prems(4)] show ?thesis
        using merge_into_lookup [OF wf, of k] m Object Some by simp
    qed
  qed (use m in auto)
qed

lemma merge_values_base:
  assumes "value_wf base" and "value_wf overlay" and "get_path ks base = Some v" and "silent_at ks overlay"
  shows "get_path ks (merge_values base overlay) = Some v"
  using assms
proof (induction ks arbitrary: base overlay)
  case (Cons k ks)
  obtain m where m: "overlay = Object m" using Cons.prems(4) by (cases overlay) auto
  obtain b e where b: "base = Object b" "map_of b k = Some e" "get_path ks e = Some v"
    using Cons.prems(3) by (cases base) (auto split: option.splits)
  have wf: "bt_wf b" "distinct (map fst m)" using Cons.prems b m by (auto intro: bt_wf_distinct)
  have e: "value_wf e" using Cons.prems(1) b map_of_SomeD [OF b(2)] by (auto simp: list_all_iff)
  show ?case
  proof (cases "map_of m k")
    case None
    then show ?thesis using merge_into_lookup [OF wf, of k] m b by simp
  next
    case (Some w)
    have "value_wf w" using Cons.prems(2) m map_of_SomeD [OF Some] by (auto simp: list_all_iff)
    moreover have "silent_at ks w" using Cons.prems(4) m Some by simp
    ultimately show ?thesis using Cons.IH [OF e _ b(3)] merge_into_lookup [OF wf, of k] m b Some by simp
  qed
qed simp

text \<open>Merging template and node parameters is a deep override: every non-object value of the node is
  at its path in the result, and what the template sets on a path where the node says nothing
  survives.\<close>

lemma merge_values_override:
  assumes "value_wf base" and "value_wf overlay"
  shows "(\<forall>ks v. get_path ks overlay = Some v \<and> \<not> is_object v \<longrightarrow> get_path ks (merge_values base overlay) = Some v) \<and>
    (\<forall>ks v. get_path ks base = Some v \<and> silent_at ks overlay \<longrightarrow> get_path ks (merge_values base overlay) = Some v)"
  using merge_values_overlay [OF assms] merge_values_base [OF assms] by blast

section \<open>Placeholders\<close>

text \<open>All strings of a value.\<close>

fun strings_of :: "Value \<Rightarrow> string set" where
  "strings_of (String s) = {s}"
| "strings_of (Array vs) = (\<Union>v \<in> set vs. strings_of v)"
| "strings_of (Object m) = (\<Union>kv \<in> set m. strings_of (snd kv))"
| "strings_of _ = {}"

lemma find_map_None: "find_map f xs = None \<longleftrightarrow> (\<forall>x \<in> set xs. f x = None)"
  by (induction xs) (auto split: option.splits)

lemma unresolved_in_string_None:
  "find_unresolved_placeholder_in_string s = None \<longleftrightarrow> \<not> contains_sub ''${'' s"
  by (simp add: find_unresolved_placeholder_in_string_def Let_def find_sub_None [symmetric] split: option.splits)

lemma find_unresolved_None:
  "find_unresolved_placeholder v = None \<longleftrightarrow> (\<forall>s \<in> strings_of v. \<not> contains_sub ''${'' s)"
  by (induction v rule: find_unresolved_placeholder.induct)
     (auto simp: unresolved_in_string_None find_map_None split: prod.splits)

end
