(* ===== verification/Builtins.thy ===== *)
theory Builtins
  imports Values Shapes
begin

text \<open>
  The built-in elements of \<open>builtin.rs\<close> as the registry and the validation see them: the
  readers of their parameters, the descriptors of \<open>input\<close>, \<open>source\<close>, \<open>mock_inference\<close>
  and \<open>sink\<close>, and the tensor sizes their nodes produce.  Narrowing a JSON number to \<open>f32\<close>
  is the parameter \<open>narrow\<close>, which stands for \<open>as_f64\<close> followed by \<open>f64_to_exact_f32\<close>.
\<close>

section \<open>Reading parameters\<close>

fun as_u64 :: "Value \<Rightarrow> nat option" where
  "as_u64 (Number (PosInt n)) = Some (unat n)"
| "as_u64 _ = None"

fun as_bool :: "Value \<Rightarrow> bool option" where
  "as_bool (Bool b) = Some b"
| "as_bool _ = None"

fun as_str :: "Value \<Rightarrow> string option" where
  "as_str (String s) = Some s"
| "as_str _ = None"

fun as_array :: "Value \<Rightarrow> Value list option" where
  "as_array (Array vs) = Some vs"
| "as_array _ = None"

fun as_object :: "Value \<Rightarrow> (string \<times> Value) list option" where
  "as_object (Object m) = Some m"
| "as_object _ = None"

definition params_object :: "NodeSpec \<Rightarrow> (string \<times> Value) list graph_result" where
  "params_object node =
    ok_or (as_object (nd_params node)) (GConfig (''node '' @ nd_name node @ '' params must be an object''))"

fun reject_unknown_keys :: "string list \<Rightarrow> string list \<Rightarrow> unit graph_result" where
  "reject_unknown_keys [] allowed = Inr ()"
| "reject_unknown_keys (key # keys) allowed =
    (if key \<notin> set allowed
     then Inl (GConfig (if allowed = []
            then ''unknown field `'' @ key @ ''`; no parameters are supported''
            else ''unknown field `'' @ key @ ''`; expected one of '' @ join '', '' allowed))
     else reject_unknown_keys keys allowed)"

definition reject_unknown_fields :: "(string \<times> Value) list \<Rightarrow> string list \<Rightarrow> unit graph_result" where
  "reject_unknown_fields params allowed = reject_unknown_keys (bt_keys params) allowed"

text \<open>A \<open>u64\<close> always fits a \<open>usize\<close> on the 64-bit targets.\<close>

definition read_usize :: "(string \<times> Value) list \<Rightarrow> string \<Rightarrow> usize \<Rightarrow> usize graph_result" where
  "read_usize params key dflt =
    (case map_of params key of
       Some v \<Rightarrow> ok_or (as_u64 v) (GConfig (''field '' @ key @ '' must be a non-negative integer''))
     | None \<Rightarrow> Inr dflt)"

definition read_u8 :: "(string \<times> Value) list \<Rightarrow> string \<Rightarrow> 8 word \<Rightarrow> 8 word graph_result" where
  "read_u8 params key dflt =
    (case map_of params key of
       Some v \<Rightarrow> and_then (ok_or (as_u64 v) (GConfig (''field '' @ key @ '' must be an integer'')))
         (\<lambda>n. if n \<le> 255 then Inr (of_nat n) else Inl (GConfig (''field '' @ key @ '' overflow'')))
     | None \<Rightarrow> Inr dflt)"

definition read_f32 :: "(Number \<Rightarrow> string \<Rightarrow> 32 word graph_result) \<Rightarrow>
    (string \<times> Value) list \<Rightarrow> string \<Rightarrow> 32 word \<Rightarrow> 32 word graph_result" where
  "read_f32 narrow params key dflt =
    (case map_of params key of
       Some (Number n) \<Rightarrow> narrow n key
     | Some _ \<Rightarrow> Inl (GConfig (''field '' @ key @ '' must be a number''))
     | None \<Rightarrow> Inr dflt)"

definition read_bool :: "(string \<times> Value) list \<Rightarrow> string \<Rightarrow> bool \<Rightarrow> bool graph_result" where
  "read_bool params key dflt =
    (case map_of params key of
       Some v \<Rightarrow> ok_or (as_bool v) (GConfig (''field '' @ key @ '' must be a boolean''))
     | None \<Rightarrow> Inr dflt)"

text \<open>\<open>Iterator::map(..).collect::<Result<Vec<_>>>()\<close>.\<close>

fun try_map :: "('a \<Rightarrow> 'e + 'b) \<Rightarrow> 'a list \<Rightarrow> 'e + 'b list" where
  "try_map f [] = Inr []"
| "try_map f (x # xs) = and_then (f x) (\<lambda>y. and_then (try_map f xs) (\<lambda>ys. Inr (y # ys)))"

definition read_shape :: "(string \<times> Value) list \<Rightarrow> string \<Rightarrow> usize list \<Rightarrow> shape graph_result" where
  "read_shape params key dflt =
    (case map_of params key of
       Some v \<Rightarrow>
         and_then (ok_or (as_array v) (GConfig (''field '' @ key @ '' must be an array''))) (\<lambda>arr.
         and_then (try_map (\<lambda>d. ok_or (as_u64 d) (GConfig (''field '' @ key @ '' must contain integers''))) arr) (\<lambda>dims.
         Inr (shape_new dims)))
     | None \<Rightarrow> Inr (shape_new dflt))"

definition dtype_of_name :: "string \<Rightarrow> data_type option" where
  "dtype_of_name name = map_of
    [(''f32'', dt_F32), (''f16'', dt_F16), (''bf16'', dt_BF16), (''u8'', dt_U8),
     (''i8'', dt_I8), (''u16'', dt_U16), (''i16'', dt_I16)] name"

definition read_dtype :: "(string \<times> Value) list \<Rightarrow> string \<Rightarrow> data_type option graph_result" where
  "read_dtype params key =
    (case map_of params key of
       None \<Rightarrow> Inr None
     | Some v \<Rightarrow>
         and_then (ok_or (as_str v) (GConfig (''field '' @ key @ '' must be a string''))) (\<lambda>name.
         and_then (ok_or (dtype_of_name name) (GConfig (''unsupported dtype: '' @ name))) (\<lambda>d. Inr (Some d))))"

definition format_of_name :: "string \<Rightarrow> DataFormat option" where
  "format_of_name name = map_of
    [(''auto'', Auto_format), (''nchw'', NCHW), (''nhwc'', NHWC), (''nc'', NC), (''n'', N),
     (''nc4hw'', NC4HW), (''nc8hw'', NC8HW), (''ncdhw'', NCDHW), (''oihw'', OIHW)] name"

definition read_format :: "(string \<times> Value) list \<Rightarrow> string \<Rightarrow> DataFormat option graph_result" where
  "read_format params key =
    (case map_of params key of
       None \<Rightarrow> Inr None
     | Some v \<Rightarrow>
         and_then (ok_or (as_str v) (GConfig (''field '' @ key @ '' must be a string''))) (\<lambda>name.
         and_then (ok_or (format_of_name name) (GConfig (''unsupported format: '' @ name))) (\<lambda>f. Inr (Some f))))"

definition unwrap_or :: "'a option \<Rightarrow> 'a \<Rightarrow> 'a" where
  "unwrap_or x d = (case x of Some v \<Rightarrow> v | None \<Rightarrow> d)"

section \<open>The built-in elements\<close>

definition SOURCE_PARAM_FIELDS :: "string list" where
  "SOURCE_PARAM_FIELDS = [''count'', ''shape'', ''dtype'', ''format'', ''start'']"

definition MOCK_INFERENCE_PARAM_FIELDS :: "string list" where
  "MOCK_INFERENCE_PARAM_FIELDS =
    [''shape'', ''output_shape'', ''dtype'', ''output_dtype'', ''echo_inputs'', ''fill_value'']"

record SourceElement =
  so_count :: usize
  so_shape :: shape
  so_dtype :: data_type
  so_format :: DataFormat
  so_start :: "32 word"

definition parse_source :: "(Number \<Rightarrow> string \<Rightarrow> 32 word graph_result) \<Rightarrow> NodeSpec \<Rightarrow> SourceElement graph_result" where
  "parse_source narrow node =
    and_then (params_object node) (\<lambda>params.
    and_then (reject_unknown_fields params SOURCE_PARAM_FIELDS) (\<lambda>_.
    and_then (read_usize params ''count'' 1) (\<lambda>count.
    and_then (read_shape params ''shape'' [1, 4]) (\<lambda>shape.
    and_then (read_dtype params ''dtype'') (\<lambda>dtype.
    and_then (read_format params ''format'') (\<lambda>format.
    and_then (read_f32 narrow params ''start'' 0) (\<lambda>start.
    Inr \<lparr> so_count = count, so_shape = shape, so_dtype = unwrap_or dtype dt_F32,
          so_format = unwrap_or format NC, so_start = start \<rparr>)))))))"

definition validate_source :: "(Number \<Rightarrow> string \<Rightarrow> 32 word graph_result) \<Rightarrow> NodeSpec \<Rightarrow> unit graph_result" where
  "validate_source narrow node = and_then (parse_source narrow node) (\<lambda>_. Inr ())"

definition source_output_tensor_bytes :: "NodeSpec \<Rightarrow> usize graph_result" where
  "source_output_tensor_bytes node =
    and_then (params_object node) (\<lambda>params.
    and_then (read_shape params ''shape'' [1, 4]) (\<lambda>shape.
    and_then (read_dtype params ''dtype'') (\<lambda>dtype.
    map_err GCore (storage_bytes_for_shape (unwrap_or dtype dt_F32) shape))))"

text \<open>The configuration \<open>parse_mock_inference\<close> reads; the runtime option it builds from it is the
  runtime's business.\<close>

record MockInferenceConfig =
  mi_shape :: shape
  mi_output_shape :: shape
  mi_dtype :: data_type
  mi_output_dtype :: data_type
  mi_echo_inputs :: bool
  mi_fill_value :: "8 word"

definition parse_mock_inference :: "NodeSpec \<Rightarrow> MockInferenceConfig graph_result" where
  "parse_mock_inference node =
    and_then (params_object node) (\<lambda>params.
    and_then (reject_unknown_fields params MOCK_INFERENCE_PARAM_FIELDS) (\<lambda>_.
    and_then (read_shape params ''shape'' [1, 4]) (\<lambda>shape.
    and_then (read_shape params ''output_shape'' (dims shape)) (\<lambda>output_shape.
    and_then (read_dtype params ''dtype'') (\<lambda>dtype0.
    let dtype = unwrap_or dtype0 dt_F32 in
    and_then (read_dtype params ''output_dtype'') (\<lambda>output_dtype.
    and_then (read_bool params ''echo_inputs'' True) (\<lambda>echo_inputs.
    and_then (read_u8 params ''fill_value'' 0) (\<lambda>fill_value.
    Inr \<lparr> mi_shape = shape, mi_output_shape = output_shape, mi_dtype = dtype,
          mi_output_dtype = unwrap_or output_dtype dtype, mi_echo_inputs = echo_inputs,
          mi_fill_value = fill_value \<rparr>))))))))"

definition validate_mock_inference :: "NodeSpec \<Rightarrow> unit graph_result" where
  "validate_mock_inference node = and_then (parse_mock_inference node) (\<lambda>_. Inr ())"

definition mock_inference_output_tensor_bytes :: "NodeSpec \<Rightarrow> usize graph_result" where
  "mock_inference_output_tensor_bytes node =
    and_then (params_object node) (\<lambda>params.
    and_then (read_shape params ''shape'' [1, 4]) (\<lambda>shape.
    and_then (read_shape params ''output_shape'' (dims shape)) (\<lambda>output_shape.
    and_then (read_dtype params ''dtype'') (\<lambda>dtype0.
    let dtype = unwrap_or dtype0 dt_F32 in
    and_then (read_dtype params ''output_dtype'') (\<lambda>output_dtype.
    and_then (read_bool params ''echo_inputs'' True) (\<lambda>echo.
    if echo then Inr 0
    else map_err GCore (storage_bytes_for_shape (unwrap_or output_dtype dtype) output_shape)))))))"

definition validate_empty_params :: "NodeSpec \<Rightarrow> unit graph_result" where
  "validate_empty_params node =
    (if nd_params node = Null then Inr ()
     else and_then (params_object node) (\<lambda>params. reject_unknown_fields params []))"

text \<open>The descriptors the module registers.\<close>

definition DTYPE_VALUES :: "string list" where
  "DTYPE_VALUES = [''f32'', ''f16'', ''bf16'', ''u8'', ''i8'', ''u16'', ''i16'']"

definition FORMAT_VALUES :: "string list" where
  "FORMAT_VALUES = [''auto'', ''nchw'', ''nhwc'', ''nc'', ''n'', ''nc4hw'', ''nc8hw'', ''ncdhw'', ''oihw'']"

definition SOURCE_PARAMS :: "ParamField list" where
  "SOURCE_PARAMS =
    [\<lparr> pf_name = ''count'', pf_ty = PUint, pf_required = False \<rparr>,
     \<lparr> pf_name = ''shape'', pf_ty = PArray PUint, pf_required = False \<rparr>,
     \<lparr> pf_name = ''dtype'', pf_ty = PEnum DTYPE_VALUES, pf_required = False \<rparr>,
     \<lparr> pf_name = ''format'', pf_ty = PEnum FORMAT_VALUES, pf_required = False \<rparr>,
     \<lparr> pf_name = ''start'', pf_ty = PFloat, pf_required = False \<rparr>]"

definition MOCK_INFERENCE_PARAMS :: "ParamField list" where
  "MOCK_INFERENCE_PARAMS =
    [\<lparr> pf_name = ''shape'', pf_ty = PArray PUint, pf_required = False \<rparr>,
     \<lparr> pf_name = ''output_shape'', pf_ty = PArray PUint, pf_required = False \<rparr>,
     \<lparr> pf_name = ''dtype'', pf_ty = PEnum DTYPE_VALUES, pf_required = False \<rparr>,
     \<lparr> pf_name = ''output_dtype'', pf_ty = PEnum DTYPE_VALUES, pf_required = False \<rparr>,
     \<lparr> pf_name = ''echo_inputs'', pf_ty = PBool, pf_required = False \<rparr>,
     \<lparr> pf_name = ''fill_value'', pf_ty = PUint, pf_required = False \<rparr>]"

definition out_f32_port :: PortSchema where
  "out_f32_port = \<lparr> ps_name = ''out'', ps_dtype = Some dt_F32, ps_required = False \<rparr>"

definition input_descriptor :: ElementDescriptor where
  "input_descriptor =
    \<lparr> ed_kind = ''input'', ed_input_ports = [], ed_output_ports = [out_f32_port], ed_params = [],
      ed_validate = Some validate_empty_params \<rparr>"

definition source_descriptor :: "(Number \<Rightarrow> string \<Rightarrow> 32 word graph_result) \<Rightarrow> ElementDescriptor" where
  "source_descriptor narrow =
    \<lparr> ed_kind = ''source'', ed_input_ports = [], ed_output_ports = [out_f32_port], ed_params = SOURCE_PARAMS,
      ed_validate = Some (validate_source narrow) \<rparr>"

definition mock_inference_descriptor :: ElementDescriptor where
  "mock_inference_descriptor =
    \<lparr> ed_kind = ''mock_inference'',
      ed_input_ports = [\<lparr> ps_name = ''in'', ps_dtype = Some dt_F32, ps_required = True \<rparr>],
      ed_output_ports = [out_f32_port], ed_params = MOCK_INFERENCE_PARAMS,
      ed_validate = Some validate_mock_inference \<rparr>"

definition sink_descriptor :: ElementDescriptor where
  "sink_descriptor =
    \<lparr> ed_kind = ''sink'',
      ed_input_ports = [\<lparr> ps_name = ''in'', ps_dtype = None, ps_required = True \<rparr>],
      ed_output_ports = [], ed_params = [], ed_validate = Some validate_empty_params \<rparr>"

definition builtin_elements :: "(Number \<Rightarrow> string \<Rightarrow> 32 word graph_result) \<Rightarrow> ElementDescriptor list" where
  "builtin_elements narrow = [input_descriptor, source_descriptor narrow, mock_inference_descriptor, sink_descriptor]"

section \<open>Properties\<close>

lemma reject_unknown_keys_ok: "reject_unknown_keys keys allowed = Inr () \<longleftrightarrow> set keys \<subseteq> set allowed"
  by (induction keys allowed rule: reject_unknown_keys.induct) auto

text \<open>The fields a built-in element accepts are those its parameter schema lists.\<close>

lemma schema_fields:
  "map pf_name SOURCE_PARAMS = SOURCE_PARAM_FIELDS"
  "map pf_name MOCK_INFERENCE_PARAMS = MOCK_INFERENCE_PARAM_FIELDS"
  by (simp_all add: SOURCE_PARAMS_def SOURCE_PARAM_FIELDS_def MOCK_INFERENCE_PARAMS_def MOCK_INFERENCE_PARAM_FIELDS_def)

lemma dtype_values_readable: "name \<in> set DTYPE_VALUES \<longleftrightarrow> dtype_of_name name \<noteq> None"
  by (auto simp: DTYPE_VALUES_def dtype_of_name_def split: if_splits)

lemma format_values_readable: "name \<in> set FORMAT_VALUES \<longleftrightarrow> format_of_name name \<noteq> None"
  by (auto simp: FORMAT_VALUES_def format_of_name_def split: if_splits)

text \<open>A source node that validates has the tensor size the element will allocate.\<close>

lemma source_bytes_of_parsed:
  assumes "parse_source narrow node = Inr e"
  shows "source_output_tensor_bytes node = map_err GCore (storage_bytes_for_shape (so_dtype e) (so_shape e))"
  using assms by (auto simp: parse_source_def source_output_tensor_bytes_def result_simps)

end
