(* ===== verification/Cycles.thy ===== *)
theory Cycles
  imports GraphTypes
begin

text \<open>
  Cycle detection of \<open>spec.rs\<close> (\<open>has_cycle\<close>): a depth-first search with three colours over
  the adjacency map of the connections.  The recursion of the source is modelled with
  fuel; the fuel handed out by \<open>has_cycle\<close> is one more than the number of adjacency keys,
  and the search is shown never to run out of it.
\<close>

section \<open>The search\<close>

datatype Color = White | Gray | Black

type_synonym adjacency = "(string \<times> string list) list"
type_synonym colors = "string \<rightharpoonup> Color"

definition add_key :: "string \<Rightarrow> adjacency \<Rightarrow> adjacency" where
  "add_key k m = (case map_of m k of None \<Rightarrow> bt_insert k [] m | Some _ \<Rightarrow> m)"

definition push_edge :: "string \<times> string \<Rightarrow> adjacency \<Rightarrow> adjacency" where
  "push_edge e m =
    (case e of (from, to) \<Rightarrow>
      bt_insert from ((case map_of m from of None \<Rightarrow> [] | Some vs \<Rightarrow> vs) @ [to]) m)"

definition adjacency_of :: "NodeSpec list \<Rightarrow> (string \<times> string) list \<Rightarrow> adjacency" where
  "adjacency_of nodes edges = fold push_edge edges (fold (\<lambda>n. add_key (nd_name n)) nodes [])"

definition color_of :: "colors \<Rightarrow> string \<Rightarrow> Color" where
  "color_of c n = (case c n of None \<Rightarrow> White | Some k \<Rightarrow> k)"

text \<open>The loop over the neighbours, with the recursive call as an argument.\<close>

fun visit_neighbors :: "(string \<Rightarrow> colors \<Rightarrow> (bool \<times> colors) option) \<Rightarrow> string list \<Rightarrow> colors \<Rightarrow> (bool \<times> colors) option" where
  "visit_neighbors rec [] c = Some (False, c)"
| "visit_neighbors rec (v # vs) c =
    (case color_of c v of
       Gray \<Rightarrow> Some (True, c)
     | White \<Rightarrow>
         (case rec v c of
            None \<Rightarrow> None
          | Some (True, c') \<Rightarrow> Some (True, c')
          | Some (False, c') \<Rightarrow> visit_neighbors rec vs c')
     | Black \<Rightarrow> visit_neighbors rec vs c)"

fun dfs :: "nat \<Rightarrow> adjacency \<Rightarrow> string \<Rightarrow> colors \<Rightarrow> (bool \<times> colors) option" where
  "dfs 0 adj node c = None"
| "dfs (Suc fuel) adj node c =
    (let c1 = c(node \<mapsto> Gray);
         r = (case map_of adj node of
                None \<Rightarrow> Some (False, c1)
              | Some neighbors \<Rightarrow> visit_neighbors (dfs fuel adj) neighbors c1)
     in case r of
          None \<Rightarrow> None
        | Some (True, c2) \<Rightarrow> Some (True, c2)
        | Some (False, c2) \<Rightarrow> Some (False, c2(node \<mapsto> Black)))"

fun search_roots :: "nat \<Rightarrow> adjacency \<Rightarrow> string list \<Rightarrow> colors \<Rightarrow> bool option" where
  "search_roots fuel adj [] c = Some False"
| "search_roots fuel adj (k # ks) c =
    (if color_of c k = White
     then (case dfs fuel adj k c of
             None \<Rightarrow> None
           | Some (True, _) \<Rightarrow> Some True
           | Some (False, c') \<Rightarrow> search_roots fuel adj ks c')
     else search_roots fuel adj ks c)"

definition has_cycle :: "NodeSpec list \<Rightarrow> (string \<times> string) list \<Rightarrow> bool option" where
  "has_cycle nodes edges =
    (let adj = adjacency_of nodes edges in search_roots (Suc (length adj)) adj (bt_keys adj) Map.empty)"

section \<open>Correctness\<close>

definition edges_of :: "adjacency \<Rightarrow> (string \<times> string) set" where
  "edges_of adj = {(u, v). \<exists>vs. map_of adj u = Some vs \<and> v \<in> set vs}"

definition colored :: "Color \<Rightarrow> colors \<Rightarrow> string set" where
  "colored k c = {u. color_of c u = k}"

text \<open>Finished nodes only lead to finished nodes, and none of them lies on a cycle.\<close>

definition finished_ok :: "adjacency \<Rightarrow> colors \<Rightarrow> bool" where
  "finished_ok adj c \<longleftrightarrow>
    edges_of adj `` colored Black c \<subseteq> colored Black c \<and> (\<forall>u \<in> colored Black c. (u, u) \<notin> (edges_of adj)\<^sup>+)"

lemma color_of_upd: "color_of (c(n \<mapsto> k)) u = (if u = n then k else color_of c u)"
  by (simp add: color_of_def)

lemma colored_upd: "colored k (c(n \<mapsto> k')) = (if k = k' then insert n (colored k c) else colored k c - {n})"
  by (auto simp: colored_def color_of_upd)

lemma closed_trancl:
  assumes "(x, y) \<in> R\<^sup>+" and "R `` B \<subseteq> B" and "x \<in> B"
  shows "y \<in> B"
  using assms by (induction rule: trancl_induct) auto

text \<open>A node whose successors are all finished can be finished.\<close>

lemma finished_ok_insert:
  assumes "finished_ok adj c" and "edges_of adj `` {n} \<subseteq> colored Black c" and "n \<notin> colored Black c"
  shows "finished_ok adj (c(n \<mapsto> Black))"
proof -
  let ?R = "edges_of adj" and ?B = "colored Black c"
  have B: "?R `` ?B \<subseteq> ?B" "\<forall>u \<in> ?B. (u, u) \<notin> ?R\<^sup>+" using assms(1) by (auto simp: finished_ok_def)
  have "(n, n) \<notin> ?R\<^sup>+"
  proof
    assume "(n, n) \<in> ?R\<^sup>+"
    then obtain m where m: "(n, m) \<in> ?R" "(m, n) \<in> ?R\<^sup>*" by (meson tranclD)
    then have "m \<in> ?B" using assms(2) by blast
    then show False using m(2) closed_trancl [OF _ B(1)] assms(3) by (metis rtranclD)
  qed
  then show ?thesis using B assms(2) by (auto simp: finished_ok_def colored_upd)
qed

text \<open>What a search from a white node promises, when every grey node leads to it.\<close>

definition dfs_spec :: "adjacency \<Rightarrow> (string \<Rightarrow> colors \<Rightarrow> (bool \<times> colors) option) \<Rightarrow> bool" where
  "dfs_spec adj rec \<longleftrightarrow> (\<forall>node c b c'.
    rec node c = Some (b, c') \<longrightarrow> color_of c node = White \<longrightarrow> finished_ok adj c \<longrightarrow>
    (\<forall>g \<in> colored Gray c. (g, node) \<in> (edges_of adj)\<^sup>+) \<longrightarrow>
    (if b then \<exists>x. (x, x) \<in> (edges_of adj)\<^sup>+
     else finished_ok adj c' \<and> colored Gray c' = colored Gray c \<and>
          insert node (colored Black c) \<subseteq> colored Black c'))"

lemma dfs_specD:
  assumes "dfs_spec adj rec" and "rec node c = Some (b, c')" and "color_of c node = White" and "finished_ok adj c"
    and "\<forall>g \<in> colored Gray c. (g, node) \<in> (edges_of adj)\<^sup>+"
  shows "if b then \<exists>x. (x, x) \<in> (edges_of adj)\<^sup>+
     else finished_ok adj c' \<and> colored Gray c' = colored Gray c \<and> insert node (colored Black c) \<subseteq> colored Black c'"
  using assms unfolding dfs_spec_def by blast

lemma visit_neighbors_spec:
  assumes rec: "dfs_spec adj rec"
  shows "visit_neighbors rec vs c = Some (b, c') \<Longrightarrow> finished_ok adj c \<Longrightarrow>
    (\<forall>v \<in> set vs. \<forall>g \<in> colored Gray c. (g, v) \<in> (edges_of adj)\<^sup>+) \<Longrightarrow>
    (if b then \<exists>x. (x, x) \<in> (edges_of adj)\<^sup>+
     else finished_ok adj c' \<and> colored Gray c' = colored Gray c \<and> set vs \<union> colored Black c \<subseteq> colored Black c')"
proof (induction vs arbitrary: c)
  case (Cons v vs)
  show ?case
  proof (cases "color_of c v")
    case Gray
    then have "b" "v \<in> colored Gray c" using Cons.prems(1) by (auto simp: colored_def)
    then show ?thesis using Cons.prems(3) by auto
  next
    case Black
    then have "visit_neighbors rec vs c = Some (b, c')" using Cons.prems(1) by simp
    from Cons.IH [OF this Cons.prems(2)] Cons.prems(3) Black show ?thesis by (auto simp: colored_def split: if_splits)
  next
    case White
    then obtain b1 c1 where r: "rec v c = Some (b1, c1)" using Cons.prems(1) by (auto split: option.splits)
    have S: "if b1 then \<exists>x. (x, x) \<in> (edges_of adj)\<^sup>+
      else finished_ok adj c1 \<and> colored Gray c1 = colored Gray c \<and> insert v (colored Black c) \<subseteq> colored Black c1"
      using dfs_specD [OF rec r White Cons.prems(2)] Cons.prems(3) by simp
    show ?thesis
    proof (cases b1)
      case True
      then show ?thesis using S Cons.prems(1) White r by auto
    next
      case False
      then have "visit_neighbors rec vs c1 = Some (b, c')" using Cons.prems(1) White r by simp
      moreover have "finished_ok adj c1" "colored Gray c1 = colored Gray c" "insert v (colored Black c) \<subseteq> colored Black c1"
        using S False by auto
      ultimately show ?thesis using Cons.IH [of c1] Cons.prems(3) by (auto split: if_splits)
    qed
  qed
qed simp

lemma dfs_satisfies_spec: "dfs_spec adj (dfs fuel adj)"
proof (induction fuel)
  case (Suc fuel)
  show ?case unfolding dfs_spec_def
  proof (intro allI impI)
    fix node c b c'
    assume run: "dfs (Suc fuel) adj node c = Some (b, c')" and white: "color_of c node = White"
      and ok: "finished_ok adj c" and gray: "\<forall>g \<in> colored Gray c. (g, node) \<in> (edges_of adj)\<^sup>+"
    let ?c1 = "c(node \<mapsto> Gray)"
    define vs where "vs = (case map_of adj node of None \<Rightarrow> [] | Some vs \<Rightarrow> vs)"
    have succs: "edges_of adj `` {node} = set vs" by (cases "map_of adj node") (auto simp: edges_of_def vs_def)
    have gray1: "colored Gray ?c1 = insert node (colored Gray c)" by (simp add: colored_upd)
    have black1: "colored Black ?c1 = colored Black c" using white by (auto simp: colored_def color_of_upd)
    have ok1: "finished_ok adj ?c1" using ok by (simp add: finished_ok_def black1)
    obtain b2 c2 where v: "visit_neighbors (dfs fuel adj) vs ?c1 = Some (b2, c2)"
      and res: "b = b2" "c' = (if b2 then c2 else c2(node \<mapsto> Black))"
      using run by (cases "map_of adj node") (auto simp: vs_def Let_def split: option.splits bool.splits)
    have "\<forall>w \<in> set vs. \<forall>g \<in> colored Gray ?c1. (g, w) \<in> (edges_of adj)\<^sup>+"
      using gray succs by (auto simp: colored_upd intro: trancl_into_trancl)
    from visit_neighbors_spec [OF Suc.IH v ok1 this]
    have S: "if b then \<exists>x. (x, x) \<in> (edges_of adj)\<^sup>+
      else finished_ok adj c2 \<and> colored Gray c2 = insert node (colored Gray c) \<and> set vs \<union> colored Black c \<subseteq> colored Black c2"
      unfolding res(1) black1 gray1 .
    show "if b then \<exists>x. (x, x) \<in> (edges_of adj)\<^sup>+
      else finished_ok adj c' \<and> colored Gray c' = colored Gray c \<and> insert node (colored Black c) \<subseteq> colored Black c'"
    proof (cases b)
      case True
      then show ?thesis using S by simp
    next
      case False
      have g2: "colored Gray c2 = insert node (colored Gray c)" and b2: "set vs \<union> colored Black c \<subseteq> colored Black c2"
        and ok2: "finished_ok adj c2" using S False by auto
      have "node \<in> colored Gray c2" using g2 by simp
      then have "node \<notin> colored Black c2" by (auto simp: colored_def)
      then have "finished_ok adj c'" using finished_ok_insert [OF ok2] succs b2 res False by simp
      moreover have "node \<notin> colored Gray c" using white by (auto simp: colored_def)
      ultimately show ?thesis using False g2 b2 res by (auto simp: colored_upd)
    qed
  qed
qed (simp add: dfs_spec_def)

subsection \<open>The fuel is enough\<close>

definition white_keys :: "adjacency \<Rightarrow> colors \<Rightarrow> string set" where
  "white_keys adj c = {k \<in> fst ` set adj. color_of c k = White}"

lemma finite_white_keys [simp]: "finite (white_keys adj c)"
  by (simp add: white_keys_def)

definition total_below :: "adjacency \<Rightarrow> nat \<Rightarrow> (string \<Rightarrow> colors \<Rightarrow> (bool \<times> colors) option) \<Rightarrow> bool" where
  "total_below adj n rec \<longleftrightarrow> (\<forall>node c. color_of c node = White \<longrightarrow> card (white_keys adj c) < n \<longrightarrow>
    (\<exists>b c'. rec node c = Some (b, c') \<and> white_keys adj c' \<subseteq> white_keys adj c))"

lemma total_belowD:
  assumes "total_below adj n rec" and "color_of c node = White" and "card (white_keys adj c) < n"
  obtains b c' where "rec node c = Some (b, c')" and "white_keys adj c' \<subseteq> white_keys adj c"
  using assms unfolding total_below_def by blast

lemma visit_neighbors_total:
  assumes "total_below adj n rec"
  shows "card (white_keys adj c) < n \<Longrightarrow>
    \<exists>b c'. visit_neighbors rec vs c = Some (b, c') \<and> white_keys adj c' \<subseteq> white_keys adj c"
proof (induction vs arbitrary: c)
  case (Cons v vs)
  show ?case
  proof (cases "color_of c v")
    case White
    obtain b1 c1 where r: "rec v c = Some (b1, c1)" "white_keys adj c1 \<subseteq> white_keys adj c"
      using total_belowD [OF assms White Cons.prems] .
    have "card (white_keys adj c1) < n" using card_mono [OF _ r(2)] Cons.prems by simp
    from Cons.IH [OF this] r White show ?thesis by (cases b1) auto
  qed (use Cons in auto)
qed auto

lemma dfs_total: "total_below adj n (dfs n adj)"
proof (induction n)
  case (Suc n)
  show ?case unfolding total_below_def
  proof (intro allI impI)
    fix node c
    assume white: "color_of c node = White" and card: "card (white_keys adj c) < Suc n"
    let ?c1 = "c(node \<mapsto> Gray)"
    have w1: "white_keys adj ?c1 = white_keys adj c - {node}" by (auto simp: white_keys_def color_of_upd)
    have "\<exists>b c2. (case map_of adj node of None \<Rightarrow> Some (False, ?c1)
        | Some vs \<Rightarrow> visit_neighbors (dfs n adj) vs ?c1) = Some (b, c2) \<and> white_keys adj c2 \<subseteq> white_keys adj c - {node}"
    proof (cases "map_of adj node")
      case None
      then show ?thesis using w1 by auto
    next
      case (Some vs)
      then have "node \<in> fst ` set adj" by (metis map_of_SomeD rev_image_eqI fst_conv)
      then have "node \<in> white_keys adj c" using white by (simp add: white_keys_def)
      then have "card (white_keys adj c - {node}) = card (white_keys adj c) - 1" "0 < card (white_keys adj c)"
        by (auto simp: card_gt_0_iff)
      then have "card (white_keys adj ?c1) < n" using card unfolding w1 by linarith
      from visit_neighbors_total [OF Suc.IH this, of vs] Some show ?thesis by (simp add: w1)
    qed
    then obtain b c2 where r: "(case map_of adj node of None \<Rightarrow> Some (False, ?c1)
        | Some vs \<Rightarrow> visit_neighbors (dfs n adj) vs ?c1) = Some (b, c2)" "white_keys adj c2 \<subseteq> white_keys adj c - {node}" by blast
    have "white_keys adj (c2(node \<mapsto> Black)) \<subseteq> white_keys adj c2" by (auto simp: white_keys_def color_of_upd)
    then show "\<exists>b c'. dfs (Suc n) adj node c = Some (b, c') \<and> white_keys adj c' \<subseteq> white_keys adj c"
      using r by (cases b) (auto simp: Let_def)
  qed
qed (simp add: total_below_def)

subsection \<open>The whole search\<close>

lemma search_roots_correct:
  "finished_ok adj c \<Longrightarrow> colored Gray c = {} \<Longrightarrow> card (white_keys adj c) < fuel \<Longrightarrow>
    \<exists>b. search_roots fuel adj ks c = Some b \<and>
      (if b then \<exists>x. (x, x) \<in> (edges_of adj)\<^sup>+ else \<forall>k \<in> set ks. (k, k) \<notin> (edges_of adj)\<^sup>+)"
proof (induction ks arbitrary: c)
  case (Cons k ks)
  show ?case
  proof (cases "color_of c k = White")
    case True
    obtain b c' where r: "dfs fuel adj k c = Some (b, c')" "white_keys adj c' \<subseteq> white_keys adj c"
      using total_belowD [OF dfs_total True Cons.prems(3)] .
    have S: "if b then \<exists>x. (x, x) \<in> (edges_of adj)\<^sup>+
      else finished_ok adj c' \<and> colored Gray c' = {} \<and> insert k (colored Black c) \<subseteq> colored Black c'"
      using dfs_specD [OF dfs_satisfies_spec r(1) True Cons.prems(1)] Cons.prems(2) by (simp split: if_splits)
    show ?thesis
    proof (cases b)
      case True
      then show ?thesis using S r \<open>color_of c k = White\<close> by auto
    next
      case False
      have "card (white_keys adj c') < fuel" using card_mono [OF _ r(2)] Cons.prems(3) by simp
      moreover have "finished_ok adj c'" "colored Gray c' = {}" "k \<in> colored Black c'" using S False by auto
      moreover from this have "(k, k) \<notin> (edges_of adj)\<^sup>+" by (auto simp: finished_ok_def)
      ultimately show ?thesis using Cons.IH [of c'] r False True by (auto split: if_splits)
    qed
  next
    case False
    then have "k \<in> colored Black c" using Cons.prems(2) by (cases "color_of c k") (auto simp: colored_def)
    then have "(k, k) \<notin> (edges_of adj)\<^sup>+" using Cons.prems(1) by (auto simp: finished_ok_def)
    moreover obtain b where "search_roots fuel adj ks c = Some b"
      "if b then \<exists>x. (x, x) \<in> (edges_of adj)\<^sup>+ else \<forall>k \<in> set ks. (k, k) \<notin> (edges_of adj)\<^sup>+"
      using Cons.IH [OF Cons.prems] by blast
    ultimately show ?thesis using False by (intro exI [of _ b]) (simp split: if_splits)
  qed
qed auto

subsection \<open>The adjacency map\<close>

lemma add_key_ok: "bt_wf m \<Longrightarrow> bt_wf (add_key k m) \<and> edges_of (add_key k m) = edges_of m"
  by (auto simp: add_key_def edges_of_def map_of_bt_insert split: option.splits if_splits)

lemma push_edge_ok: "bt_wf m \<Longrightarrow> bt_wf (push_edge e m) \<and> edges_of (push_edge e m) = insert e (edges_of m)"
  by (cases e) (auto simp: push_edge_def edges_of_def map_of_bt_insert split: option.splits if_splits)

lemma fold_add_key_ok:
  "bt_wf m \<Longrightarrow> bt_wf (fold (\<lambda>n. add_key (nd_name n)) ns m) \<and> edges_of (fold (\<lambda>n. add_key (nd_name n)) ns m) = edges_of m"
  by (induction ns arbitrary: m) (auto simp: add_key_ok)

lemma fold_push_edge_ok:
  "bt_wf m \<Longrightarrow> bt_wf (fold push_edge es m) \<and> edges_of (fold push_edge es m) = set es \<union> edges_of m"
  by (induction es arbitrary: m) (auto simp: push_edge_ok)

lemma adjacency_of_ok: "bt_wf (adjacency_of nodes edges) \<and> edges_of (adjacency_of nodes edges) = set edges"
proof -
  have e: "bt_wf ([] :: adjacency)" "edges_of [] = {}" by (simp_all add: bt_wf_def edges_of_def)
  show ?thesis
    using fold_push_edge_ok [of _ edges] fold_add_key_ok [OF e(1), of nodes] e(2) by (simp add: adjacency_of_def)
qed

lemma has_cycle_correct: "has_cycle nodes edges = Some (\<exists>x. (x, x) \<in> (set edges)\<^sup>+)"
proof -
  let ?adj = "adjacency_of nodes edges"
  have E: "edges_of ?adj = set edges" using adjacency_of_ok by blast
  have "card (white_keys ?adj Map.empty) \<le> card (fst ` set ?adj)" by (intro card_mono) (auto simp: white_keys_def)
  also have "\<dots> \<le> length ?adj" using card_image_le [of "set ?adj" fst] card_length [of ?adj] by (meson List.finite_set le_trans)
  finally have "card (white_keys ?adj Map.empty) < Suc (length ?adj)" by simp
  moreover have "finished_ok ?adj Map.empty" "colored Gray Map.empty = {}"
    by (auto simp: finished_ok_def colored_def color_of_def)
  ultimately obtain b where b: "search_roots (Suc (length ?adj)) ?adj (bt_keys ?adj) Map.empty = Some b"
    "if b then \<exists>x. (x, x) \<in> (edges_of ?adj)\<^sup>+ else \<forall>k \<in> set (bt_keys ?adj). (k, k) \<notin> (edges_of ?adj)\<^sup>+"
    using search_roots_correct by blast
  have "x \<in> set (bt_keys ?adj)" if cyc: "(x, x) \<in> (edges_of ?adj)\<^sup>+" for x
  proof -
    obtain y where "(x, y) \<in> edges_of ?adj" using tranclD [OF cyc] by blast
    then obtain vs where "map_of ?adj x = Some vs" by (auto simp: edges_of_def)
    then show ?thesis unfolding bt_keys_def set_map by (metis map_of_SomeD rev_image_eqI fst_conv)
  qed
  then have "b \<longleftrightarrow> (\<exists>x. (x, x) \<in> (edges_of ?adj)\<^sup>+)" using b(2) by (cases b) auto
  then show ?thesis using b(1) unfolding has_cycle_def E Let_def by simp
qed

text \<open>C11. Cycle detection is exact and always ends: the search returns, and it reports a cycle
  precisely when the connections have one.\<close>

theorem has_cycle_exact: "has_cycle nodes edges = Some (\<exists>x. (x, x) \<in> (set edges)\<^sup>+)"
  by (rule has_cycle_correct)

end
