(* ===== verification/GraphSpecs.thy ===== *)
theory GraphSpecs
  imports Builtins Cycles
begin

text \<open>
  The operations on graph configurations of \<open>spec.rs\<close>: merging included graphs, applying
  templates, node overrides, defaults and variables, and validation.  The registered
  elements, the size check of an inference model (\<open>inference.rs\<close> with the file system
  behind it), the textual form of JSON values and the allocator's answer to a
  reservation are parameters, collected in \<open>graph_env\<close>.
\<close>

record graph_env =
  ge_registered :: "ElementDescriptor list"
  ge_model_check :: "Value \<Rightarrow> resource_policy \<Rightarrow> unit graph_result"
  ge_display :: "Value \<Rightarrow> string"
  ge_alloc :: "nat \<Rightarrow> bool"

section \<open>Merging and rewriting\<close>

definition option_or :: "'a option \<Rightarrow> 'a option \<Rightarrow> 'a option" where
  "option_or a b = (case a of Some x \<Rightarrow> Some x | None \<Rightarrow> b)"

definition merge_included :: "GraphSpec \<Rightarrow> GraphSpec \<Rightarrow> GraphSpec" where
  "merge_included self other = self\<lparr>
    gs_variables := bt_extend (gs_variables self) (gs_variables other),
    gs_defaults := \<lparr> df_backend = option_or (df_backend (gs_defaults other)) (df_backend (gs_defaults self)),
                     df_device = option_or (df_device (gs_defaults other)) (df_device (gs_defaults self)),
                     df_precision = option_or (df_precision (gs_defaults other)) (df_precision (gs_defaults self)) \<rparr>,
    gs_templates := bt_extend (gs_templates self) (gs_templates other),
    gs_nodes := gs_nodes self @ gs_nodes other,
    gs_connections := gs_connections self @ gs_connections other,
    gs_allow_cycles := (gs_allow_cycles self \<or> gs_allow_cycles other),
    gs_execution := gs_execution other,
    gs_limits := gs_limits other,
    gs_api_version := gs_api_version other,
    gs_kind := gs_kind other \<rparr>"

definition apply_template :: "(string \<times> NodeTemplate) list \<Rightarrow> NodeSpec \<Rightarrow> NodeSpec graph_result" where
  "apply_template templates node =
    (case nd_template node of
       None \<Rightarrow> Inr node
     | Some name \<Rightarrow>
        and_then (ok_or (map_of templates name)
          (GValidation (''nodes['' @ nd_name node @ ''].template'') (''unknown template `'' @ name @ ''`''))) (\<lambda>t.
        Inr (node\<lparr> nd_kind := nt_kind t, nd_params := merge_values (nt_params t) (nd_params node) \<rparr>)))"

definition apply_templates :: "GraphSpec \<Rightarrow> GraphSpec graph_result" where
  "apply_templates g =
    and_then (try_map (apply_template (gs_templates g)) (gs_nodes g)) (\<lambda>nodes. Inr (g\<lparr> gs_nodes := nodes \<rparr>))"

definition allowed_param :: "ElementDescriptor \<Rightarrow> string \<Rightarrow> bool" where
  "allowed_param d name \<longleftrightarrow> list_ex (\<lambda>f. pf_name f = name) (ed_params d)"

definition override_node :: "ElementDescriptor list \<Rightarrow> NodeSpec \<Rightarrow> string list \<Rightarrow> NodeSpec" where
  "override_node registered node explicit_keys =
    (case find_element registered (nd_kind node) of
       None \<Rightarrow> node
     | Some d \<Rightarrow>
        let vals = [(''backend'', nd_backend node), (''device'', nd_device node), (''precision'', nd_precision node)] in
        if list_all (\<lambda>(_, v). v = None) vals then node
        else
          (case (if nd_params node = Null then Object [] else nd_params node) of
             Object params \<Rightarrow>
               node\<lparr> nd_params := Object (fold (\<lambda>(name, v) m.
                 if allowed_param d name \<and> name \<notin> set explicit_keys
                 then (case v of Some s \<Rightarrow> bt_insert name (String s) m | None \<Rightarrow> m)
                 else m) vals params) \<rparr>
           | _ \<Rightarrow> node))"

definition explicit_param_keys :: "NodeSpec \<Rightarrow> string list" where
  "explicit_param_keys node = (case nd_params node of Object m \<Rightarrow> bt_keys m | _ \<Rightarrow> [])"

definition apply_node_overrides :: "ElementDescriptor list \<Rightarrow> string list list \<Rightarrow> GraphSpec \<Rightarrow> GraphSpec" where
  "apply_node_overrides registered keys g =
    g\<lparr> gs_nodes := map (\<lambda>(node, ks). override_node registered node ks) (zip (gs_nodes g) keys) @
         drop (length keys) (gs_nodes g) \<rparr>"

definition default_node :: "ElementDescriptor list \<Rightarrow> DefaultsSpec \<Rightarrow> NodeSpec \<Rightarrow> NodeSpec" where
  "default_node registered defaults node =
    (case find_element registered (nd_kind node) of
       None \<Rightarrow> node
     | Some d \<Rightarrow>
        let vals = [(''backend'', df_backend defaults), (''precision'', df_precision defaults)];
            has_named_device = (case df_device defaults of Some (Named _) \<Rightarrow> True | _ \<Rightarrow> False)
        in
        if list_all (\<lambda>(_, v). v = None) vals \<and> \<not> has_named_device then node
        else
          (case (if nd_params node = Null then Object [] else nd_params node) of
             Object params \<Rightarrow>
               let m1 = fold (\<lambda>(name, v) m.
                     (case v of Some s \<Rightarrow> if allowed_param d name \<and> map_of m name = None
                                          then bt_insert name (String s) m else m
                              | None \<Rightarrow> m)) vals params;
                   m2 = (if allowed_param d ''device'' \<and> map_of m1 ''device'' = None
                         then (case df_device defaults of Some (Named s) \<Rightarrow> bt_insert ''device'' (String s) m1 | _ \<Rightarrow> m1)
                         else m1)
               in node\<lparr> nd_params := Object m2 \<rparr>
           | _ \<Rightarrow> node))"

definition apply_defaults :: "ElementDescriptor list \<Rightarrow> GraphSpec \<Rightarrow> GraphSpec" where
  "apply_defaults registered g = g\<lparr> gs_nodes := map (default_node registered (gs_defaults g)) (gs_nodes g) \<rparr>"

definition apply_variables :: "(Value \<Rightarrow> string) \<Rightarrow> GraphSpec \<Rightarrow> GraphSpec" where
  "apply_variables display g = g\<lparr>
    gs_nodes := map (\<lambda>n. n\<lparr> nd_params := substitute_variables display (gs_variables g) (nd_params n) \<rparr>) (gs_nodes g),
    gs_templates := map (\<lambda>(name, t). (name, t\<lparr> nt_params := substitute_variables display (gs_variables g) (nt_params t) \<rparr>))
      (gs_templates g),
    gs_connections := map (substitute_string display (gs_variables g)) (gs_connections g) \<rparr>"

definition no_placeholder :: "string \<Rightarrow> string option \<Rightarrow> unit graph_result" where
  "no_placeholder path found =
    (case found of
       Some p \<Rightarrow> Inl (GValidation path (''unresolved variable placeholder `'' @ p @ ''`''))
     | None \<Rightarrow> Inr ())"

definition validate_references :: "GraphSpec \<Rightarrow> unit graph_result" where
  "validate_references g = run_checks
    (map (\<lambda>n. no_placeholder (''nodes['' @ nd_name n @ ''].params'') (find_unresolved_placeholder (nd_params n))) (gs_nodes g) @
     map (\<lambda>(name, t). no_placeholder (''templates['' @ name @ ''].params'') (find_unresolved_placeholder (nt_params t)))
       (gs_templates g) @
     map (\<lambda>(i, c). no_placeholder (''connections['' @ show_nat i @ '']'') (find_unresolved_placeholder_in_string c))
       (enumerate 0 (gs_connections g)))"

lemma no_placeholder_ok [result_simps]: "no_placeholder path found = Inr () \<longleftrightarrow> found = None"
  by (simp add: no_placeholder_def split: option.splits)

section \<open>Validation\<close>

definition total_workers :: "NodeSpec list \<Rightarrow> usize" where
  "total_workers nodes = fold (\<lambda>n acc. saturating_add acc (unwrap_or (nd_threads n) 1)) nodes 0"

definition validate_sizes :: "resource_policy \<Rightarrow> GraphSpec \<Rightarrow> unit graph_result" where
  "validate_sizes p g = run_checks
    [fail_if (length (gs_nodes g) > max_nodes p)
       (GValidation ''nodes'' (''node count '' @ show_nat (length (gs_nodes g)) @ '' exceeds limit '' @ show_nat (max_nodes p))),
     fail_if (length (gs_connections g) > max_connections p)
       (GValidation ''connections'' (''connection count '' @ show_nat (length (gs_connections g)) @
          '' exceeds limit '' @ show_nat (max_connections p))),
     fail_if (total_workers (gs_nodes g) > max_nodes p)
       (GValidation ''nodes'' (''total worker threads '' @ show_nat (total_workers (gs_nodes g)) @
          '' exceeds node limit '' @ show_nat (max_nodes p)))]"

definition validate_execution :: "resource_policy \<Rightarrow> ExecutionSpec \<Rightarrow> unit graph_result" where
  "validate_execution p ex =
    (if ex_queue_capacity ex = 0
     then Inl (GValidation ''execution.queue_capacity'' ''queue_capacity must be at least 1'')
     else if ex_queue_capacity ex > max_connections p
     then Inl (GValidation ''execution.queue_capacity'' (''queue_capacity '' @ show_nat (ex_queue_capacity ex) @
                 '' exceeds connection limit '' @ show_nat (max_connections p)))
     else case ex_workers ex of
       None \<Rightarrow> Inr ()
     | Some workers \<Rightarrow>
         if workers = 0 then Inl (GValidation ''execution.workers'' ''workers must be at least 1'')
         else if ex_parallel ex \<noteq> Task
         then Inl (GValidation ''execution.workers'' ''workers is only supported with task parallelism'')
         else if workers > max_nodes p
         then Inl (GValidation ''execution.workers'' (''workers '' @ show_nat workers @ '' exceeds node limit '' @ show_nat (max_nodes p)))
         else Inr ())"

text \<open>The checks of one node, apart from the uniqueness of its name.\<close>

definition validate_node :: "graph_env \<Rightarrow> resource_policy \<Rightarrow> ParallelType \<Rightarrow> NodeSpec \<Rightarrow> unit graph_result" where
  "validate_node env p parallel node =
    (let at_threads = ''nodes['' @ nd_name node @ ''].threads'';
         at_params = ''nodes['' @ nd_name node @ ''].params'';
         wrap = map_err (\<lambda>e. GValidation at_params (display_graph_error e))
     in
     and_then (fail_if (nd_threads node = Some 0) (GValidation at_threads ''threads must be >= 1'')) (\<lambda>_.
     and_then (case nd_threads node of
         Some t \<Rightarrow> fail_if (t > max_nodes p)
           (GValidation at_threads (''threads '' @ show_nat t @ '' exceeds node limit '' @ show_nat (max_nodes p)))
       | None \<Rightarrow> Inr ()) (\<lambda>_.
     and_then (fail_if (parallel \<noteq> Pipeline \<and> (case nd_threads node of Some t \<Rightarrow> t > 1 | None \<Rightarrow> False))
         (GValidation at_threads ''threads > 1 requires Pipeline execution'')) (\<lambda>_.
     and_then (element_ports (ge_registered env) (nd_kind node)) (\<lambda>_.
     and_then (wrap (validate_element (ge_registered env) node)) (\<lambda>_.
     if nd_kind node = ''inference'' then wrap (ge_model_check env (nd_params node) p) else Inr ()))))))"

fun validate_nodes :: "graph_env \<Rightarrow> resource_policy \<Rightarrow> ParallelType \<Rightarrow> NodeSpec list \<Rightarrow> string list \<Rightarrow> unit graph_result" where
  "validate_nodes env p parallel [] seen = Inr ()"
| "validate_nodes env p parallel (node # nodes) seen =
    (if nd_name node \<in> set seen then Inl (GDuplicateNode (nd_name node))
     else and_then (validate_node env p parallel node) (\<lambda>_.
       validate_nodes env p parallel nodes (nd_name node # seen)))"

definition output_tensor_bytes :: "NodeSpec \<Rightarrow> usize graph_result option" where
  "output_tensor_bytes node =
    (if nd_kind node = ''source'' then Some (source_output_tensor_bytes node)
     else if nd_kind node = ''mock_inference'' then Some (mock_inference_output_tensor_bytes node)
     else None)"

definition validate_tensor_bytes :: "resource_policy \<Rightarrow> NodeSpec \<Rightarrow> unit graph_result" where
  "validate_tensor_bytes p node =
    (let at_params = ''nodes['' @ nd_name node @ ''].params'' in
     case output_tensor_bytes node of
       None \<Rightarrow> Inr ()
     | Some r \<Rightarrow>
         and_then (map_err (\<lambda>e. GValidation at_params (display_graph_error e)) r) (\<lambda>bytes.
         map_err (\<lambda>e. GValidation at_params (display_core_error e)) (check_tensor_bytes p bytes)))"

definition node_kinds :: "NodeSpec list \<Rightarrow> (string \<times> string) list" where
  "node_kinds nodes = fold (\<lambda>n m. bt_insert (nd_name n) (nd_kind n) m) nodes []"

record connection_state =
  co_seen :: "ConnectionSpec list"
  co_inputs :: "(string \<times> string) list"
  co_edges :: "(string \<times> string) list"

definition dtypes_match :: "PortSchema \<Rightarrow> PortSchema \<Rightarrow> bool" where
  "dtypes_match out_schema in_schema =
    (case (ps_dtype out_schema, ps_dtype in_schema) of (Some o_type, Some i_type) \<Rightarrow> o_type = i_type | _ \<Rightarrow> True)"

definition is_sink_node :: "NodeSpec list \<Rightarrow> string \<Rightarrow> bool" where
  "is_sink_node nodes name \<longleftrightarrow> list_ex (\<lambda>n. nd_name n = name \<and> nd_sink n) nodes"

definition check_connection ::
  "ElementDescriptor list \<Rightarrow> NodeSpec list \<Rightarrow> connection_state \<Rightarrow> nat \<times> string \<Rightarrow> connection_state graph_result"
where
  "check_connection registered nodes st it =
    (case it of (i, text) \<Rightarrow>
     let at_index = ''connections['' @ show_nat i @ '']''; at_text = ''connections['' @ text @ '']'' in
     and_then (connection_parse text) (\<lambda>c.
     and_then (ok_or (map_of (node_kinds nodes) (cn_from_node c))
         (GValidation at_text (''unknown source node '' @ cn_from_node c))) (\<lambda>from_kind.
     and_then (fail_if (is_sink_node nodes (cn_from_node c))
         (GValidation at_index (''sink node '' @ cn_from_node c @ '' cannot have outgoing connection '' @ text))) (\<lambda>_.
     and_then (ok_or (map_of (node_kinds nodes) (cn_to_node c))
         (GValidation at_text (''unknown destination node '' @ cn_to_node c))) (\<lambda>to_kind.
     and_then (element_ports registered from_kind) (\<lambda>(_, out_ports).
     and_then (element_ports registered to_kind) (\<lambda>(in_ports, _).
     and_then (ok_or (find_port out_ports (cn_from_port c)) (GUnknownPort (cn_from_node c) (cn_from_port c))) (\<lambda>out_schema.
     and_then (ok_or (find_port in_ports (cn_to_port c)) (GUnknownPort (cn_to_node c) (cn_to_port c))) (\<lambda>in_schema.
     and_then (fail_if (\<not> dtypes_match out_schema in_schema)
         (GPortTypeMismatch (cn_from_node c) (cn_from_port c) (cn_to_node c) (cn_to_port c))) (\<lambda>_.
     and_then (fail_if (c \<in> set (co_seen st))
         (GValidation at_index (''duplicate connection: '' @ connection_display c))) (\<lambda>_.
     and_then (fail_if ((cn_to_node c, cn_to_port c) \<in> set (co_inputs st))
         (GValidation at_index (''input port '' @ cn_to_node c @ ''.'' @ cn_to_port c @ '' already has an incoming connection''))) (\<lambda>_.
     Inr \<lparr> co_seen = c # co_seen st, co_inputs = (cn_to_node c, cn_to_port c) # co_inputs st,
           co_edges = co_edges st @ [(cn_from_node c, cn_to_node c)] \<rparr>))))))))))))"

definition check_required_ports ::
  "ElementDescriptor list \<Rightarrow> (string \<times> string) list \<Rightarrow> NodeSpec \<Rightarrow> unit graph_result"
where
  "check_required_ports registered inputs node =
    and_then (element_ports registered (nd_kind node)) (\<lambda>(in_ports, _).
    run_checks (map (\<lambda>port. fail_if ((nd_name node, ps_name port) \<notin> set inputs)
      (GValidation (''nodes['' @ nd_name node @ ''].ports['' @ ps_name port @ '']'')
        (''required input port '' @ nd_name node @ ''.'' @ ps_name port @ '' has no incoming connection'')))
      (filter ps_required in_ports)))"

definition validate_with_policy :: "graph_env \<Rightarrow> resource_policy \<Rightarrow> GraphSpec \<Rightarrow> unit graph_result" where
  "validate_with_policy env p g =
    and_then (validate_sizes p g) (\<lambda>_.
    and_then (validate_execution p (gs_execution g)) (\<lambda>_.
    and_then (validate_nodes env p (ex_parallel (gs_execution g)) (gs_nodes g) []) (\<lambda>_.
    and_then (run_checks (map (validate_tensor_bytes p) (gs_nodes g))) (\<lambda>_.
    and_then (try_reserve_exact (ge_alloc env) (length (gs_connections g))
        (GConfig (''failed to allocate edge validation vector for '' @ show_nat (length (gs_connections g)) @ '' connections''))) (\<lambda>_.
    and_then (try_fold (check_connection (ge_registered env) (gs_nodes g))
        \<lparr> co_seen = [], co_inputs = [], co_edges = [] \<rparr> (enumerate 0 (gs_connections g))) (\<lambda>st.
    and_then (run_checks (map (check_required_ports (ge_registered env) (co_inputs st)) (gs_nodes g))) (\<lambda>_.
    fail_if (\<not> gs_allow_cycles g \<and> has_cycle (gs_nodes g) (co_edges st) \<noteq> Some False) GCycleDetected)))))))"

definition graph_validate :: "graph_env \<Rightarrow> GraphSpec \<Rightarrow> unit graph_result" where
  "graph_validate env g = validate_with_policy env resource_policy_default g"

section \<open>What validation guarantees\<close>

text \<open>A connection between declared ports of existing nodes.\<close>

definition connection_ok :: "ElementDescriptor list \<Rightarrow> NodeSpec list \<Rightarrow> ConnectionSpec \<Rightarrow> bool" where
  "connection_ok registered nodes c \<longleftrightarrow>
    (\<exists>src dst sd dd out_schema in_schema.
      src \<in> set nodes \<and> nd_name src = cn_from_node c \<and> dst \<in> set nodes \<and> nd_name dst = cn_to_node c \<and> \<not> nd_sink src \<and>
      find_element registered (nd_kind src) = Some sd \<and> find_element registered (nd_kind dst) = Some dd \<and>
      find_port (ed_output_ports sd) (cn_from_port c) = Some out_schema \<and>
      find_port (ed_input_ports dd) (cn_to_port c) = Some in_schema \<and> dtypes_match out_schema in_schema)"

definition node_ok :: "graph_env \<Rightarrow> resource_policy \<Rightarrow> ParallelType \<Rightarrow> NodeSpec \<Rightarrow> bool" where
  "node_ok env p parallel node \<longleftrightarrow>
    (case nd_threads node of None \<Rightarrow> True | Some t \<Rightarrow> 0 < t \<and> t \<le> max_nodes p \<and> (parallel = Pipeline \<or> t = 1)) \<and>
    find_element (ge_registered env) (nd_kind node) \<noteq> None \<and> validate_element (ge_registered env) node = Inr () \<and>
    (nd_kind node = ''inference'' \<longrightarrow> ge_model_check env (nd_params node) p = Inr ()) \<and>
    (case output_tensor_bytes node of None \<Rightarrow> True | Some r \<Rightarrow> \<exists>bytes. r = Inr bytes \<and> bytes \<le> max_tensor_bytes p)"

definition execution_ok :: "resource_policy \<Rightarrow> ExecutionSpec \<Rightarrow> bool" where
  "execution_ok p ex \<longleftrightarrow> 0 < ex_queue_capacity ex \<and> ex_queue_capacity ex \<le> max_connections p \<and>
    (case ex_workers ex of None \<Rightarrow> True | Some w \<Rightarrow> 0 < w \<and> w \<le> max_nodes p \<and> ex_parallel ex = Task)"

definition graph_valid :: "graph_env \<Rightarrow> resource_policy \<Rightarrow> GraphSpec \<Rightarrow> bool" where
  "graph_valid env p g \<longleftrightarrow>
    length (gs_nodes g) \<le> max_nodes p \<and> length (gs_connections g) \<le> max_connections p \<and>
    total_workers (gs_nodes g) \<le> max_nodes p \<and> ge_alloc env (length (gs_connections g)) \<and>
    execution_ok p (gs_execution g) \<and> distinct (map nd_name (gs_nodes g)) \<and>
    list_all (node_ok env p (ex_parallel (gs_execution g))) (gs_nodes g) \<and>
    (\<exists>cs. map connection_parse (gs_connections g) = map Inr cs \<and>
      list_all (connection_ok (ge_registered env) (gs_nodes g)) cs \<and>
      distinct (map (\<lambda>c. (cn_to_node c, cn_to_port c)) cs) \<and>
      (\<forall>node \<in> set (gs_nodes g). \<forall>d. find_element (ge_registered env) (nd_kind node) = Some d \<longrightarrow>
        (\<forall>port \<in> set (ed_input_ports d). ps_required port \<longrightarrow>
          (nd_name node, ps_name port) \<in> (\<lambda>c. (cn_to_node c, cn_to_port c)) ` set cs)) \<and>
      (\<not> gs_allow_cycles g \<longrightarrow> acyclic ((\<lambda>c. (cn_from_node c, cn_to_node c)) ` set cs)))"

lemma validate_sizes_ok:
  "validate_sizes p g = Inr () \<longleftrightarrow> length (gs_nodes g) \<le> max_nodes p \<and>
    length (gs_connections g) \<le> max_connections p \<and> total_workers (gs_nodes g) \<le> max_nodes p"
  by (auto simp: validate_sizes_def result_simps)

lemma validate_execution_ok: "validate_execution p ex = Inr () \<longleftrightarrow> execution_ok p ex"
  by (auto simp: validate_execution_def execution_ok_def split: option.splits)

lemma element_ports_ok:
  "element_ports registered kind = Inr ps \<longleftrightarrow>
    (\<exists>d. find_element registered kind = Some d \<and> ps = (ed_input_ports d, ed_output_ports d))"
  by (auto simp: element_ports_def result_simps)

lemma validate_node_ok:
  "validate_node env p parallel node = Inr () \<and> validate_tensor_bytes p node = Inr () \<longleftrightarrow> node_ok env p parallel node"
proof -
  have "validate_tensor_bytes p node = Inr () \<longleftrightarrow>
      (case output_tensor_bytes node of None \<Rightarrow> True | Some r \<Rightarrow> \<exists>bytes. r = Inr bytes \<and> bytes \<le> max_tensor_bytes p)"
    by (auto simp: validate_tensor_bytes_def check_tensor_bytes_def Let_def result_simps split: option.splits)
  moreover have "validate_node env p parallel node = Inr () \<longleftrightarrow>
      (case nd_threads node of None \<Rightarrow> True | Some t \<Rightarrow> 0 < t \<and> t \<le> max_nodes p \<and> (parallel = Pipeline \<or> t = 1)) \<and>
      find_element (ge_registered env) (nd_kind node) \<noteq> None \<and> validate_element (ge_registered env) node = Inr () \<and>
      (nd_kind node = ''inference'' \<longrightarrow> ge_model_check env (nd_params node) p = Inr ())"
    by (cases "nd_threads node") (auto simp: validate_node_def Let_def result_simps element_ports_ok)
  ultimately show ?thesis by (simp add: node_ok_def)
qed

lemma validate_nodes_ok:
  "validate_nodes env p parallel nodes seen = Inr () \<longleftrightarrow>
    distinct (map nd_name nodes) \<and> nd_name ` set nodes \<inter> set seen = {} \<and>
    list_all (\<lambda>n. validate_node env p parallel n = Inr ()) nodes"
  by (induction nodes arbitrary: seen) (auto simp: result_simps)

lemma node_kinds_lookup:
  assumes "distinct (map nd_name nodes)"
  shows "map_of (node_kinds nodes) name = Some kind \<longleftrightarrow> (\<exists>n \<in> set nodes. nd_name n = name \<and> nd_kind n = kind)"
proof -
  have "bt_wf m \<Longrightarrow> distinct (map nd_name ns) \<Longrightarrow>
      map_of (fold (\<lambda>n m. bt_insert (nd_name n) (nd_kind n) m) ns m) = map_of m ++ map_of (map (\<lambda>n. (nd_name n, nd_kind n)) ns)" for m ns
  proof (induction ns arbitrary: m)
    case (Cons n ns)
    then show ?case
      by (simp add: map_of_bt_insert map_add_upd_left dom_map_of_conv_image_fst image_image)
         (simp add: fun_eq_iff map_add_def)
  qed simp
  from this [of "[]" nodes] assms have "map_of (node_kinds nodes) = map_of (map (\<lambda>n. (nd_name n, nd_kind n)) nodes)"
    by (simp add: node_kinds_def bt_wf_def)
  moreover have "distinct (map fst (map (\<lambda>n. (nd_name n, nd_kind n)) nodes))" using assms by (simp add: comp_def)
  ultimately show ?thesis by (auto simp: map_of_eq_Some_iff image_iff)
qed


lemma node_kinds_kind:
  assumes "distinct (map nd_name nodes)" and "n \<in> set nodes"
  shows "map_of (node_kinds nodes) (nd_name n) = Some (nd_kind n)"
  using node_kinds_lookup [OF assms(1)] assms(2) by blast

lemma is_sink_node_iff:
  assumes "distinct (map nd_name nodes)" and "n \<in> set nodes"
  shows "is_sink_node nodes (nd_name n) \<longleftrightarrow> nd_sink n"
proof -
  have "m = n" if "m \<in> set nodes" "nd_name m = nd_name n" for m
    using assms that by (auto simp: distinct_map dest: inj_onD)
  then show ?thesis using assms(2) by (auto simp: is_sink_node_def list_ex_iff)
qed

lemma check_connection_ok:
  assumes "distinct (map nd_name nodes)"
  shows "check_connection registered nodes st (i, text) = Inr st' \<longleftrightarrow>
    (\<exists>c. connection_parse text = Inr c \<and> connection_ok registered nodes c \<and> c \<notin> set (co_seen st) \<and>
      (cn_to_node c, cn_to_port c) \<notin> set (co_inputs st) \<and>
      st' = \<lparr> co_seen = c # co_seen st, co_inputs = (cn_to_node c, cn_to_port c) # co_inputs st,
              co_edges = co_edges st @ [(cn_from_node c, cn_to_node c)] \<rparr>)"
  (is "?L \<longleftrightarrow> ?R")
proof
  assume ?L
  then obtain c from_kind to_kind sd dd out_schema in_schema where
    c: "connection_parse text = Inr c" and kinds: "map_of (node_kinds nodes) (cn_from_node c) = Some from_kind"
      "map_of (node_kinds nodes) (cn_to_node c) = Some to_kind" and sink: "\<not> is_sink_node nodes (cn_from_node c)"
    and elems: "find_element registered from_kind = Some sd" "find_element registered to_kind = Some dd"
    and ports: "find_port (ed_output_ports sd) (cn_from_port c) = Some out_schema"
      "find_port (ed_input_ports dd) (cn_to_port c) = Some in_schema" "dtypes_match out_schema in_schema"
    and st: "c \<notin> set (co_seen st)" "(cn_to_node c, cn_to_port c) \<notin> set (co_inputs st)"
      "st' = \<lparr> co_seen = c # co_seen st, co_inputs = (cn_to_node c, cn_to_port c) # co_inputs st,
              co_edges = co_edges st @ [(cn_from_node c, cn_to_node c)] \<rparr>"
    unfolding check_connection_def by (auto simp: Let_def result_simps element_ports_ok)
  obtain src dst where n: "src \<in> set nodes" "nd_name src = cn_from_node c" "nd_kind src = from_kind"
    "dst \<in> set nodes" "nd_name dst = cn_to_node c" "nd_kind dst = to_kind"
    using kinds unfolding node_kinds_lookup [OF assms] by blast
  have "\<not> nd_sink src" using is_sink_node_iff [OF assms n(1)] n(2) sink by simp
  then have "connection_ok registered nodes c"
    unfolding connection_ok_def using n elems ports by (intro exI [of _ src] exI [of _ dst] exI [of _ sd] exI [of _ dd]) auto
  then show ?R using c st by blast
next
  assume ?R
  then obtain c where c: "connection_parse text = Inr c" "connection_ok registered nodes c" "c \<notin> set (co_seen st)"
    "(cn_to_node c, cn_to_port c) \<notin> set (co_inputs st)"
    and st': "st' = \<lparr> co_seen = c # co_seen st, co_inputs = (cn_to_node c, cn_to_port c) # co_inputs st,
              co_edges = co_edges st @ [(cn_from_node c, cn_to_node c)] \<rparr>" by blast
  then obtain src dst sd dd out_schema in_schema where
    n: "src \<in> set nodes" "nd_name src = cn_from_node c" "dst \<in> set nodes" "nd_name dst = cn_to_node c" "\<not> nd_sink src"
    and elems: "find_element registered (nd_kind src) = Some sd" "find_element registered (nd_kind dst) = Some dd"
    and ports: "find_port (ed_output_ports sd) (cn_from_port c) = Some out_schema"
      "find_port (ed_input_ports dd) (cn_to_port c) = Some in_schema" "dtypes_match out_schema in_schema"
    unfolding connection_ok_def by blast
  have "map_of (node_kinds nodes) (cn_from_node c) = Some (nd_kind src)"
    "map_of (node_kinds nodes) (cn_to_node c) = Some (nd_kind dst)" "\<not> is_sink_node nodes (cn_from_node c)"
    using node_kinds_kind [OF assms n(1)] node_kinds_kind [OF assms n(3)] is_sink_node_iff [OF assms n(1)] n by simp_all
  then show ?L using c elems ports by (simp add: check_connection_def Let_def element_ports_def st')
qed

text \<open>The whole loop over the connections.\<close>

lemma check_connections_ok:
  assumes "distinct (map nd_name nodes)"
  shows "try_fold (check_connection registered nodes) st (enumerate i conns) = Inr st' \<longleftrightarrow>
    (\<exists>cs. map connection_parse conns = map Inr cs \<and> list_all (connection_ok registered nodes) cs \<and>
      distinct cs \<and> set cs \<inter> set (co_seen st) = {} \<and>
      distinct (map (\<lambda>c. (cn_to_node c, cn_to_port c)) cs) \<and>
      (\<lambda>c. (cn_to_node c, cn_to_port c)) ` set cs \<inter> set (co_inputs st) = {} \<and>
      st' = \<lparr> co_seen = rev cs @ co_seen st, co_inputs = rev (map (\<lambda>c. (cn_to_node c, cn_to_port c)) cs) @ co_inputs st,
              co_edges = co_edges st @ map (\<lambda>c. (cn_from_node c, cn_to_node c)) cs \<rparr>)"
proof (induction conns arbitrary: st i)
  case Nil
  then show ?case by auto
next
  case (Cons t conns)
  let ?inp = "\<lambda>c. (cn_to_node c, cn_to_port c)"
  let ?nxt = "\<lambda>c. \<lparr> co_seen = c # co_seen st, co_inputs = ?inp c # co_inputs st,
              co_edges = co_edges st @ [(cn_from_node c, cn_to_node c)] \<rparr>"
  have "try_fold (check_connection registered nodes) st (enumerate i (t # conns)) = Inr st' \<longleftrightarrow>
      (\<exists>c. connection_parse t = Inr c \<and> connection_ok registered nodes c \<and> c \<notin> set (co_seen st) \<and>
        ?inp c \<notin> set (co_inputs st) \<and>
        try_fold (check_connection registered nodes) (?nxt c) (enumerate (Suc i) conns) = Inr st')"
    by (simp add: result_simps check_connection_ok [OF assms]) blast
  also have "\<dots> \<longleftrightarrow> (\<exists>cs'. map connection_parse (t # conns) = map Inr cs' \<and>
      list_all (connection_ok registered nodes) cs' \<and> distinct cs' \<and> set cs' \<inter> set (co_seen st) = {} \<and>
      distinct (map ?inp cs') \<and> ?inp ` set cs' \<inter> set (co_inputs st) = {} \<and>
      st' = \<lparr> co_seen = rev cs' @ co_seen st, co_inputs = rev (map ?inp cs') @ co_inputs st,
              co_edges = co_edges st @ map (\<lambda>c. (cn_from_node c, cn_to_node c)) cs' \<rparr>)"
    (is "?L \<longleftrightarrow> ?R")
  proof
    assume ?L
    then obtain c cs where c: "connection_parse t = Inr c" "connection_ok registered nodes c" "c \<notin> set (co_seen st)"
        "?inp c \<notin> set (co_inputs st)"
      and cs: "map connection_parse conns = map Inr cs" "list_all (connection_ok registered nodes) cs" "distinct cs"
        "set cs \<inter> set (c # co_seen st) = {}" "distinct (map ?inp cs)" "?inp ` set cs \<inter> set (?inp c # co_inputs st) = {}"
        "st' = \<lparr> co_seen = rev cs @ c # co_seen st, co_inputs = rev (map ?inp cs) @ ?inp c # co_inputs st,
           co_edges = (co_edges st @ [(cn_from_node c, cn_to_node c)]) @ map (\<lambda>c. (cn_from_node c, cn_to_node c)) cs \<rparr>"
      unfolding Cons.IH by auto
    show ?R by (rule exI [of _ "c # cs"]) (use c cs in auto)
  next
    assume ?R
    then obtain cs' where R: "map connection_parse (t # conns) = map Inr cs'"
      "list_all (connection_ok registered nodes) cs'" "distinct cs'" "set cs' \<inter> set (co_seen st) = {}"
      "distinct (map ?inp cs')" "?inp ` set cs' \<inter> set (co_inputs st) = {}"
      "st' = \<lparr> co_seen = rev cs' @ co_seen st, co_inputs = rev (map ?inp cs') @ co_inputs st,
              co_edges = co_edges st @ map (\<lambda>c. (cn_from_node c, cn_to_node c)) cs' \<rparr>" by blast
    obtain c cs where cs': "cs' = c # cs" using R(1) by (cases cs') auto
    show ?L
      by (rule exI [of _ c], unfold Cons.IH, intro conjI exI [of _ cs]) (use R cs' in auto)
  qed
  finally show ?case .
qed


lemma check_required_ports_ok:
  assumes "find_element registered (nd_kind node) \<noteq> None"
  shows "check_required_ports registered inputs node = Inr () \<longleftrightarrow>
    (\<forall>d. find_element registered (nd_kind node) = Some d \<longrightarrow>
      (\<forall>port \<in> set (ed_input_ports d). ps_required port \<longrightarrow> (nd_name node, ps_name port) \<in> set inputs))"
  using assms by (auto simp: check_required_ports_def element_ports_def result_simps)

lemma acyclic_of_has_cycle: "has_cycle nodes (map f cs) = Some False \<longleftrightarrow> acyclic (f ` set cs)"
  by (simp add: has_cycle_correct acyclic_def)

lemma validate_with_policy_ok: "validate_with_policy env p g = Inr () \<longleftrightarrow> graph_valid env p g"
proof -
  let ?ns = "gs_nodes g" and ?reg = "ge_registered env" and ?inp = "\<lambda>c. (cn_to_node c, cn_to_port c)"
  let ?nodes = "distinct (map nd_name ?ns) \<and> list_all (node_ok env p (ex_parallel (gs_execution g))) ?ns"
  let ?req = "\<lambda>inputs. \<forall>node \<in> set ?ns. \<forall>d. find_element ?reg (nd_kind node) = Some d \<longrightarrow>
    (\<forall>port \<in> set (ed_input_ports d). ps_required port \<longrightarrow> (nd_name node, ps_name port) \<in> inputs)"
  let ?conns = "\<lambda>st. try_fold (check_connection ?reg ?ns) \<lparr> co_seen = [], co_inputs = [], co_edges = [] \<rparr>
    (enumerate 0 (gs_connections g)) = Inr st"
  have nodes: "validate_nodes env p (ex_parallel (gs_execution g)) ?ns [] = Inr () \<and>
      run_checks (map (validate_tensor_bytes p) ?ns) = Inr () \<longleftrightarrow> ?nodes"
    unfolding validate_node_ok [symmetric] by (auto simp: validate_nodes_ok run_checks_ok list_all_iff)
  have reqs: "run_checks (map (check_required_ports ?reg inputs) ?ns) = Inr () \<longleftrightarrow> ?req (set inputs)" if ?nodes for inputs
  proof -
    have "find_element ?reg (nd_kind node) \<noteq> None" if "node \<in> set ?ns" for node
      using \<open>?nodes\<close> that by (auto simp: list_all_iff node_ok_def)
    then show ?thesis using check_required_ports_ok by (simp add: run_checks_ok)
  qed
  have "validate_with_policy env p g = Inr () \<longleftrightarrow>
    validate_sizes p g = Inr () \<and> validate_execution p (gs_execution g) = Inr () \<and> ?nodes \<and>
    ge_alloc env (length (gs_connections g)) \<and>
    (\<exists>st. ?conns st \<and> ?req (set (co_inputs st)) \<and>
      (\<not> gs_allow_cycles g \<longrightarrow> has_cycle ?ns (co_edges st) = Some False))"
    unfolding nodes [symmetric] validate_with_policy_def using nodes reqs
    by (auto simp: result_simps try_reserve_exact_def)
  moreover have "(\<exists>st. ?conns st \<and> ?req (set (co_inputs st)) \<and>
      (\<not> gs_allow_cycles g \<longrightarrow> has_cycle ?ns (co_edges st) = Some False)) \<longleftrightarrow>
    (\<exists>cs. map connection_parse (gs_connections g) = map Inr cs \<and> list_all (connection_ok ?reg ?ns) cs \<and>
      distinct (map ?inp cs) \<and> ?req (?inp ` set cs) \<and>
      (\<not> gs_allow_cycles g \<longrightarrow> acyclic ((\<lambda>c. (cn_from_node c, cn_to_node c)) ` set cs)))" if "?nodes"
    using that by (auto simp: check_connections_ok acyclic_of_has_cycle distinct_map)
  ultimately show ?thesis
    unfolding graph_valid_def validate_sizes_ok validate_execution_ok by blast
qed

text \<open>C3. Validation accepts exactly the well-formed graphs: limits respected, node names distinct, every
  node of a registered kind with parameters its element accepts and outputs within the tensor
  limit, every connection from an output port to an input port of a matching type, no input port
  connected twice, no required input left open, no connection out of a sink, and no cycle unless
  cycles are allowed.\<close>

theorem validate_exact: "validate_with_policy env p g = Inr () \<longleftrightarrow> graph_valid env p g"
  by (rule validate_with_policy_ok)

end
