(* ===== verification/GraphLoad.thy ===== *)
theory GraphLoad
  imports GraphSpecs "HOL-Library.Sublist"
begin

text \<open>
  Loading graph configurations (\<open>spec.rs\<close>): parsing under a policy, normalization, and the
  recursive resolution of includes with its limits on depth, count and bytes.  The file
  system (canonical paths and file contents) and the parsers are parameters.  A
  canonical path is the list of its components.  The recursion through includes takes
  fuel; \<open>load_fuel\<close> is what the depth limit of the policy makes sufficient.
\<close>

type_synonym canonical = "string list"

record file_system =
  fs_canonicalize :: "string \<Rightarrow> canonical graph_result"
  fs_contents :: "canonical \<Rightarrow> string graph_result"
  fs_parse :: "GraphFormat \<Rightarrow> string \<Rightarrow> GraphSpec graph_result"

section \<open>Paths\<close>

definition render :: "canonical \<Rightarrow> string" where
  "render cs = (if cs = [] then ''/'' else concat (map (\<lambda>c. ''/'' @ c) cs))"

definition path_join :: "canonical \<Rightarrow> string \<Rightarrow> string" where
  "path_join base p = (if starts_with ''/'' p then p else render base @ ''/'' @ p)"

definition path_parent :: "canonical \<Rightarrow> canonical option" where
  "path_parent c = (if c = [] then None else Some (butlast c))"

definition read_limited :: "graph_env \<Rightarrow> file_system \<Rightarrow> canonical \<Rightarrow> usize \<Rightarrow> string graph_result" where
  "read_limited env fs path limit =
    and_then (fs_contents fs path) (\<lambda>content.
    if ge_alloc env (min (length content) limit) then Inr (take limit content)
    else Inl (GIo (''failed to allocate config read buffer for '' @ [CHR 0x22] @ render path @ [CHR 0x22])))"

section \<open>Parsing under a policy\<close>

definition effective_limits :: "resource_policy \<Rightarrow> GraphSpec \<Rightarrow> resource_policy graph_result" where
  "effective_limits policy spec =
    map_err (\<lambda>e. GValidation ''limits'' (display_core_error e)) (effective_for policy (policy_of_limits (gs_limits spec)))"

definition from_str_with_policy :: "file_system \<Rightarrow> string \<Rightarrow> GraphFormat \<Rightarrow> resource_policy \<Rightarrow> GraphSpec graph_result" where
  "from_str_with_policy fs input format policy =
    and_then (fail_if (length input > max_config_bytes policy)
      (GValidation ''limits.max_config_bytes'' (''config string size '' @ show_nat (length input) @
        '' exceeds maximum '' @ show_nat (max_config_bytes policy)))) (\<lambda>_.
    and_then (fs_parse fs format input) (\<lambda>spec.
    and_then (effective_limits policy spec) (\<lambda>effective.
    and_then (fail_if (length input > max_config_bytes effective)
      (GValidation ''limits.max_config_bytes'' (''config string size '' @ show_nat (length input) @
        '' exceeds effective maximum '' @ show_nat (max_config_bytes effective)))) (\<lambda>_.
    Inr spec))))"

section \<open>Normalization\<close>

definition finish_normalize :: "graph_env \<Rightarrow> resource_policy \<Rightarrow> GraphSpec \<Rightarrow> GraphSpec \<Rightarrow> GraphSpec graph_result" where
  "finish_normalize env policy merged self =
    (let m1 = (merge_included merged self)\<lparr> gs_includes := [] \<rparr>;
         keys = map explicit_param_keys (gs_nodes m1)
     in
     and_then (apply_templates m1) (\<lambda>m2.
     let m3 = apply_node_overrides (ge_registered env) keys m2;
         m4 = apply_defaults (ge_registered env) m3;
         m5 = apply_variables (ge_display env) m4
     in
     and_then (validate_references m5) (\<lambda>_.
     and_then (validate_with_policy env policy m5) (\<lambda>_.
     Inr m5))))"

text \<open>A computation that may run out of fuel (\<open>None\<close>) or fail.\<close>

type_synonym 'a loading = "'a graph_result option"

definition bind_load :: "'a loading \<Rightarrow> ('a \<Rightarrow> 'b loading) \<Rightarrow> 'b loading" where
  "bind_load m f = (case m of None \<Rightarrow> None | Some (Inl e) \<Rightarrow> Some (Inl e) | Some (Inr x) \<Rightarrow> f x)"

text \<open>The files pushed to \<open>included\<close> and the bytes read so far.\<close>

type_synonym load_state = "canonical list \<times> usize"

type_synonym loader = "string \<Rightarrow> resource_policy \<Rightarrow> canonical list \<Rightarrow> load_state \<Rightarrow> (GraphSpec \<times> load_state) loading"

fun load_includes ::
  "loader \<Rightarrow> file_system \<Rightarrow> resource_policy \<Rightarrow> canonical list \<Rightarrow> canonical \<Rightarrow> string list \<Rightarrow> GraphSpec \<Rightarrow> load_state \<Rightarrow>
    (GraphSpec \<times> load_state) loading"
where
  "load_includes load fs policy resolving base [] merged st = Some (Inr (merged, st))"
| "load_includes load fs policy resolving base (inc # incs) merged st =
    (case st of (included, bytes) \<Rightarrow>
     let included_path = path_join base inc in
     bind_load (Some (fs_canonicalize fs included_path)) (\<lambda>canonical_included.
     bind_load (Some (fail_if (\<not> prefix base canonical_included)
       (GValidation ''includes'' (''include '' @ inc @ '' resolves outside the graph base directory'')))) (\<lambda>_.
     let included' = (if base \<noteq> canonical_included then included @ [canonical_included] else included) in
     bind_load (Some (fail_if (length included' > saturating_add (max_include_count policy) 1)
       (GValidation ''includes'' (''include count exceeds maximum '' @ show_nat (max_include_count policy))))) (\<lambda>_.
     bind_load (load included_path policy resolving (included', bytes)) (\<lambda>(g, st').
     load_includes load fs policy resolving base incs (merge_included merged g) st')))))"

definition check_header :: "GraphSpec \<Rightarrow> canonical option \<Rightarrow> unit graph_result" where
  "check_header self base_dir = run_checks
    [fail_if (\<not> (gs_api_version self = ''dg/v1'' \<or> gs_api_version self = ''v1''))
       (GValidation ''apiVersion'' (''unsupported apiVersion: '' @ gs_api_version self)),
     fail_if (gs_kind self \<noteq> ''Graph'') (GValidation ''kind'' (''unsupported kind: '' @ gs_kind self)),
     fail_if (base_dir = None \<and> gs_includes self \<noteq> [])
       (GValidation ''includes'' ''includes require loading from a file path with a base directory'')]"

definition normalize_tracked ::
  "loader \<Rightarrow> graph_env \<Rightarrow> file_system \<Rightarrow> GraphSpec \<Rightarrow> canonical option \<Rightarrow> resource_policy \<Rightarrow> canonical list \<Rightarrow> load_state \<Rightarrow>
    (GraphSpec \<times> load_state) loading"
where
  "normalize_tracked load env fs self base_dir policy resolving st =
    bind_load (Some (check_header self base_dir)) (\<lambda>_.
    bind_load (case base_dir of
        None \<Rightarrow> Some (Inr (graph_spec_default, st))
      | Some dir \<Rightarrow>
         bind_load (Some (fs_canonicalize fs (render dir))) (\<lambda>base.
         load_includes load fs policy resolving base (gs_includes self) graph_spec_default st)) (\<lambda>(merged, st').
    bind_load (Some (finish_normalize env policy merged self)) (\<lambda>g.
    Some (Inr (g, st')))))"

definition normalize_with_base_dir :: "loader \<Rightarrow> graph_env \<Rightarrow> file_system \<Rightarrow> GraphSpec \<Rightarrow> canonical option \<Rightarrow> GraphSpec loading" where
  "normalize_with_base_dir load env fs self base_dir =
    bind_load (normalize_tracked load env fs self base_dir resource_policy_default [] ([], 0)) (\<lambda>(g, _). Some (Inr g))"

section \<open>Loading files\<close>

text \<open>\<open>resolving\<close> already holds the file itself.\<close>

definition load_tracked_inner ::
  "loader \<Rightarrow> graph_env \<Rightarrow> file_system \<Rightarrow> string \<Rightarrow> canonical \<Rightarrow> resource_policy \<Rightarrow> canonical list \<Rightarrow> load_state \<Rightarrow>
    (GraphSpec \<times> load_state) loading"
where
  "load_tracked_inner load env fs path canonical_path policy resolving st =
    (case st of (included, bytes) \<Rightarrow>
     bind_load (Some (format_from_path path)) (\<lambda>format.
     bind_load (Some (read_limited env fs canonical_path (saturating_add (max_config_bytes policy) 1))) (\<lambda>content.
     bind_load (Some (fail_if (length content > max_config_bytes policy)
       (GValidation path (''config file size '' @ show_nat (length content) @
          '' exceeds effective maximum '' @ show_nat (max_config_bytes policy))))) (\<lambda>_.
     let bytes' = saturating_add bytes (length content) in
     bind_load (Some (fail_if (bytes' > max_config_bytes policy)
       (GValidation path (''cumulative config bytes '' @ show_nat bytes' @
          '' exceeds effective maximum '' @ show_nat (max_config_bytes policy))))) (\<lambda>_.
     bind_load (Some (from_str_with_policy fs content format policy)) (\<lambda>spec.
     bind_load (Some (effective_limits policy spec)) (\<lambda>effective.
     bind_load (Some (fail_if (length resolving > saturating_add (max_include_depth effective) 1)
       (GValidation ''includes'' (''include depth exceeds maximum '' @ show_nat (max_include_depth effective))))) (\<lambda>_.
     normalize_tracked load env fs spec (path_parent canonical_path) effective resolving (included, bytes')))))))))"

fun load_from_path_tracked :: "nat \<Rightarrow> graph_env \<Rightarrow> file_system \<Rightarrow> loader" where
  "load_from_path_tracked 0 env fs path policy resolving st = None"
| "load_from_path_tracked (Suc fuel) env fs path policy resolving st =
    bind_load (Some (fs_canonicalize fs path)) (\<lambda>canonical_path.
    bind_load (Some (fail_if (canonical_path \<in> set resolving)
      (GValidation ''includes'' (''include cycle detected at '' @ path)))) (\<lambda>_.
    load_tracked_inner (load_from_path_tracked fuel env fs) env fs path canonical_path policy
      (canonical_path # resolving) st))"

definition load_fuel :: "resource_policy \<Rightarrow> nat" where
  "load_fuel policy = max_include_depth policy + 2"

definition load_from_path_with_includes_and_policy ::
  "graph_env \<Rightarrow> file_system \<Rightarrow> string \<Rightarrow> resource_policy \<Rightarrow> (GraphSpec \<times> canonical list) loading"
where
  "load_from_path_with_includes_and_policy env fs path policy =
    bind_load (Some (fs_canonicalize fs path)) (\<lambda>canonical_path.
    bind_load (load_from_path_tracked (load_fuel policy) env fs path policy [] ([canonical_path], 0)) (\<lambda>(g, included, bytes).
    Some (Inr (g, included))))"

definition load_from_path_with_policy ::
  "graph_env \<Rightarrow> file_system \<Rightarrow> string \<Rightarrow> resource_policy \<Rightarrow> GraphSpec loading"
where
  "load_from_path_with_policy env fs path policy =
    bind_load (Some (fs_canonicalize fs path)) (\<lambda>canonical_path.
    bind_load (load_from_path_tracked (load_fuel policy) env fs path policy [] ([canonical_path], 0)) (\<lambda>(g, _).
    Some (Inr g)))"

definition load_from_path :: "graph_env \<Rightarrow> file_system \<Rightarrow> string \<Rightarrow> GraphSpec loading" where
  "load_from_path env fs path = load_from_path_with_policy env fs path resource_policy_default"

section \<open>Bind\<close>

lemma bind_load_simps [simp]:
  "bind_load None f = None"
  "bind_load (Some (Inl e)) f = Some (Inl e)"
  "bind_load (Some (Inr x)) f = f x"
  by (simp_all add: bind_load_def)

lemma bind_load_eq_Inr [result_simps]:
  "bind_load m f = Some (Inr y) \<longleftrightarrow> (\<exists>x. m = Some (Inr x) \<and> f x = Some (Inr y))"
  by (auto simp: bind_load_def split: option.splits sum.splits)

lemma bind_load_eq_None: "bind_load m f = None \<longleftrightarrow> m = None \<or> (\<exists>x. m = Some (Inr x) \<and> f x = None)"
  by (auto simp: bind_load_def split: option.splits sum.splits)

lemma bind_load_total:
  "m \<noteq> None \<Longrightarrow> (\<And>x. m = Some (Inr x) \<Longrightarrow> f x \<noteq> None) \<Longrightarrow> bind_load m f \<noteq> None"
  by (simp add: bind_load_eq_None)

section \<open>Termination\<close>

lemma effective_limits_tighter:
  assumes "effective_limits policy spec = Inr e"
  shows "max_include_depth e \<le> max_include_depth policy" and "max_config_bytes e \<le> max_config_bytes policy"
    and "max_include_count e \<le> max_include_count policy"
proof -
  have "effective_for policy (policy_of_limits (gs_limits spec)) = Inr e"
    using assms by (simp add: effective_limits_def result_simps)
  then have "e = policy_min policy (policy_of_limits (gs_limits spec))"
    by (auto simp: effective_for_def Let_def result_simps split: if_splits)
  then show "max_include_depth e \<le> max_include_depth policy" "max_config_bytes e \<le> max_config_bytes policy"
    "max_include_count e \<le> max_include_count policy" by (simp_all add: policy_min_def)
qed

lemma load_includes_total:
  assumes "\<And>path st. load path policy resolving st \<noteq> None"
  shows "load_includes load fs policy resolving base incs merged st \<noteq> None"
proof (induction incs arbitrary: merged st)
  case (Cons inc incs)
  obtain included bytes where st: "st = (included, bytes)" by fastforce
  show ?case
    unfolding st load_includes.simps prod.case Let_def
    by (intro bind_load_total) (simp_all add: assms Cons.IH split: prod.split del: not_None_eq)
qed simp

lemma normalize_tracked_total:
  assumes "\<And>path st. load path e resolving st \<noteq> None"
  shows "normalize_tracked load env fs spec base_dir e resolving st \<noteq> None"
proof -
  have "(case base_dir of None \<Rightarrow> Some (Inr (graph_spec_default, st))
      | Some dir \<Rightarrow> bind_load (Some (fs_canonicalize fs (render dir))) (\<lambda>base.
         load_includes load fs e resolving base (gs_includes spec) graph_spec_default st)) \<noteq> None"
  proof (cases base_dir)
    case (Some dir)
    show ?thesis unfolding Some option.case by (intro bind_load_total load_includes_total assms) simp
  qed simp
  moreover have "bind_load (Some (finish_normalize env e merged spec)) (\<lambda>g. Some (Inr (g, st'))) \<noteq> None" for merged st'
    by (intro bind_load_total) simp_all
  ultimately show ?thesis
    unfolding normalize_tracked_def case_prod_beta by (intro bind_load_total) (simp_all del: not_None_eq)
qed

lemma load_tracked_total:
  "length resolving + fuel \<ge> max_include_depth policy + 2 \<Longrightarrow> length resolving \<le> max_include_depth policy + 1 \<Longrightarrow>
    load_from_path_tracked fuel env fs path policy resolving st \<noteq> None"
proof (induction fuel arbitrary: path policy resolving st)
  case (Suc fuel)
  have "load_from_path_tracked fuel env fs path' e (c # resolving) st' \<noteq> None"
    if "max_include_depth e \<le> max_include_depth policy" "length (c # resolving) \<le> saturating_add (max_include_depth e) 1"
    for e c path' st'
    using that Suc.prems by (intro Suc.IH) (auto simp: saturating_add_def)
  then have norm: "normalize_tracked (load_from_path_tracked fuel env fs) env fs spec base_dir e (c # resolving) st' \<noteq> None"
    if "effective_limits policy spec = Inr e" "\<not> length (c # resolving) > saturating_add (max_include_depth e) 1"
    for spec e c base_dir st'
    using effective_limits_tighter(1) [OF that(1)] that(2) by (intro normalize_tracked_total) (simp del: not_None_eq)
  obtain included bytes where st: "st = (included, bytes)" by fastforce
  show ?case
    unfolding st load_from_path_tracked.simps load_tracked_inner_def prod.case Let_def
    by (intro bind_load_total) (use norm in \<open>auto simp del: not_None_eq simp: result_simps\<close>)
qed simp


section \<open>What a successful load guarantees\<close>

text \<open>Every file that a run of the loader adds to \<open>included\<close> passes the count check, and every
  cumulative byte count passes the byte check, of policies at most as wide as the first.\<close>

definition within_limits :: "resource_policy \<Rightarrow> load_state \<Rightarrow> load_state \<Rightarrow> bool" where
  "within_limits policy st st' \<longleftrightarrow>
    (\<exists>added. fst st' = fst st @ added \<and> (added = [] \<or> length (fst st') \<le> max_include_count policy + 1)) \<and>
    (snd st' = snd st \<or> snd st' \<le> max_config_bytes policy)"

lemma within_limits_refl [simp]: "within_limits policy st st"
  by (simp add: within_limits_def)

lemma within_limits_trans: "within_limits p st st1 \<Longrightarrow> within_limits p st1 st2 \<Longrightarrow> within_limits p st st2"
  by (auto simp: within_limits_def)

lemma within_limits_tighter:
  "within_limits e st st' \<Longrightarrow> max_include_count e \<le> max_include_count p \<Longrightarrow> max_config_bytes e \<le> max_config_bytes p \<Longrightarrow>
    within_limits p st st'"
  by (auto simp: within_limits_def)

lemma load_includes_within:
  assumes "\<And>path st g st'. load path policy resolving st = Some (Inr (g, st')) \<Longrightarrow> within_limits policy st st'"
  shows "load_includes load fs policy resolving base incs merged st = Some (Inr (m, st')) \<Longrightarrow> within_limits policy st st'"
proof (induction incs arbitrary: merged st)
  case (Cons inc incs)
  obtain included bytes where st: "st = (included, bytes)" by fastforce
  obtain c g st1 where c: "fs_canonicalize fs (path_join base inc) = Inr c"
    and cnt: "length (if base \<noteq> c then included @ [c] else included) \<le> saturating_add (max_include_count policy) 1"
    and ld: "load (path_join base inc) policy resolving (if base \<noteq> c then included @ [c] else included, bytes) = Some (Inr (g, st1))"
    and rest: "load_includes load fs policy resolving base incs (merge_included merged g) st1 = Some (Inr (m, st'))"
    using Cons.prems by (auto simp: st Let_def result_simps)
  have "within_limits policy st (if base \<noteq> c then included @ [c] else included, bytes)"
    using cnt by (auto simp: within_limits_def st saturating_add_def)
  then show ?case using assms [OF ld] Cons.IH [OF rest] within_limits_trans by blast
qed simp

lemma load_inner_cases:
  assumes "load_tracked_inner load env fs path c policy resolving (included, bytes) = Some (Inr (g, st'))"
  obtains bytes' spec e where "\<exists>content. fs_contents fs c = Inr content" and "bytes' \<le> max_config_bytes policy"
    and "effective_limits policy spec = Inr e"
    and "normalize_tracked load env fs spec (path_parent c) e resolving (included, bytes') = Some (Inr (g, st'))"
proof -
  obtain content spec e where
    read: "read_limited env fs c (saturating_add (max_config_bytes policy) 1) = Inr content"
    and b: "\<not> saturating_add bytes (length content) > max_config_bytes policy" and e: "effective_limits policy spec = Inr e"
    and n: "normalize_tracked load env fs spec (path_parent c) e resolving
      (included, saturating_add bytes (length content)) = Some (Inr (g, st'))"
    using assms unfolding load_tracked_inner_def prod.case Let_def bind_load_eq_Inr by (auto simp: fail_if_eq_Inr)
  have "\<exists>full. fs_contents fs c = Inr full" using read by (auto simp: read_limited_def result_simps)
  then show ?thesis using that b e n by (meson not_less)
qed

lemma normalize_tracked_cases:
  assumes "normalize_tracked load env fs spec base_dir policy resolving st = Some (Inr (g, st'))"
  obtains merged where "finish_normalize env policy merged spec = Inr g"
    and "case base_dir of None \<Rightarrow> st' = st
      | Some dir \<Rightarrow> \<exists>base. fs_canonicalize fs (render dir) = Inr base \<and>
          load_includes load fs policy resolving base (gs_includes spec) graph_spec_default st = Some (Inr (merged, st'))"
  using assms by (cases base_dir) (auto simp: normalize_tracked_def result_simps)

lemma load_tracked_cases:
  assumes "load_from_path_tracked fuel env fs path policy resolving (included, bytes) = Some (Inr (g, st'))"
  obtains f c bytes' spec e merged where "fuel = Suc f" and "fs_canonicalize fs path = Inr c" and "c \<notin> set resolving"
    and "\<exists>content. fs_contents fs c = Inr content" and "bytes' \<le> max_config_bytes policy"
    and "effective_limits policy spec = Inr e" and "finish_normalize env e merged spec = Inr g"
    and "case path_parent c of None \<Rightarrow> st' = (included, bytes')
      | Some dir \<Rightarrow> \<exists>base. fs_canonicalize fs (render dir) = Inr base \<and>
          load_includes (load_from_path_tracked f env fs) fs e (c # resolving) base (gs_includes spec) graph_spec_default
            (included, bytes') = Some (Inr (merged, st'))"
proof -
  obtain f where f: "fuel = Suc f" using assms by (cases fuel) auto
  obtain c where c: "fs_canonicalize fs path = Inr c" "c \<notin> set resolving"
    and inner: "load_tracked_inner (load_from_path_tracked f env fs) env fs path c policy (c # resolving) (included, bytes) = Some (Inr (g, st'))"
    using assms by (auto simp: f result_simps)
  from inner obtain bytes' spec e where i: "\<exists>content. fs_contents fs c = Inr content" "bytes' \<le> max_config_bytes policy"
    "effective_limits policy spec = Inr e"
    and n: "normalize_tracked (load_from_path_tracked f env fs) env fs spec (path_parent c) e (c # resolving) (included, bytes') = Some (Inr (g, st'))"
    by (rule load_inner_cases)
  from n obtain merged where "finish_normalize env e merged spec = Inr g"
    "case path_parent c of None \<Rightarrow> st' = (included, bytes')
      | Some dir \<Rightarrow> \<exists>base. fs_canonicalize fs (render dir) = Inr base \<and>
          load_includes (load_from_path_tracked f env fs) fs e (c # resolving) base (gs_includes spec) graph_spec_default
            (included, bytes') = Some (Inr (merged, st'))"
    by (rule normalize_tracked_cases)
  with f c i show ?thesis by (rule that)
qed

lemma load_tracked_within:
  "load_from_path_tracked fuel env fs path policy resolving st = Some (Inr (g, st')) \<Longrightarrow> within_limits policy st st'"
proof (induction fuel arbitrary: path policy resolving st g st')
  case (Suc fuel)
  obtain included bytes where st: "st = (included, bytes)" by fastforce
  from Suc.prems [unfolded st] obtain f c bytes' spec e merged where
    f: "Suc fuel = Suc f" and b: "bytes' \<le> max_config_bytes policy" and e: "effective_limits policy spec = Inr e"
    and r: "case path_parent c of None \<Rightarrow> st' = (included, bytes')
      | Some dir \<Rightarrow> \<exists>base. fs_canonicalize fs (render dir) = Inr base \<and>
          load_includes (load_from_path_tracked f env fs) fs e (c # resolving) base (gs_includes spec) graph_spec_default
            (included, bytes') = Some (Inr (merged, st'))"
    by (rule load_tracked_cases) blast
  have first: "within_limits policy st (included, bytes')" using b by (simp add: within_limits_def st)
  show ?case
  proof (cases "path_parent c")
    case None
    then show ?thesis using r first by simp
  next
    case (Some dir)
    then obtain base where "load_includes (load_from_path_tracked f env fs) fs e (c # resolving) base (gs_includes spec)
        graph_spec_default (included, bytes') = Some (Inr (merged, st'))" using r by auto
    then have "within_limits e (included, bytes') st'"
      unfolding Suc_inject [OF f, symmetric] by (rule load_includes_within [rotated]) (rule Suc.IH)
    then show ?thesis
      using first effective_limits_tighter [OF e] within_limits_tighter within_limits_trans by blast
  qed
qed simp

subsection \<open>Containment\<close>

text \<open>
  What the program relies on about the file system: the parent directory of a canonical
  path is canonical, and a directory cannot be read as a file.
\<close>

definition canonical_parents :: "file_system \<Rightarrow> bool" where
  "canonical_parents fs \<longleftrightarrow> (\<forall>path c b. fs_canonicalize fs path = Inr c \<longrightarrow> fs_canonicalize fs (render (butlast c)) = Inr b \<longrightarrow>
    b = butlast c)"

definition directories_unreadable :: "file_system \<Rightarrow> bool" where
  "directories_unreadable fs \<longleftrightarrow> (\<forall>c content. c \<noteq> [] \<longrightarrow> fs_contents fs c = Inr content \<longrightarrow> \<not> is_ok (fs_contents fs (butlast c)))"

definition added_under :: "canonical \<Rightarrow> load_state \<Rightarrow> load_state \<Rightarrow> bool" where
  "added_under root st st' \<longleftrightarrow> (\<exists>added. fst st' = fst st @ added \<and> list_all (prefix root) added)"

lemma added_under_trans: "added_under r st st1 \<Longrightarrow> added_under r st1 st2 \<Longrightarrow> added_under r st st2"
  by (auto simp: added_under_def)

lemma prefix_butlast: "prefix root c \<Longrightarrow> c \<noteq> root \<Longrightarrow> prefix root (butlast c)"
  by (metis append_Nil2 butlast_append prefix_def)

text \<open>The includes of a file in directory \<open>base\<close>, given that loading a file below \<open>base\<close> only adds files below it.\<close>

lemma load_includes_under:
  assumes load: "\<And>path st g st' c. load path policy resolving st = Some (Inr (g, st')) \<Longrightarrow>
      fs_canonicalize fs path = Inr c \<Longrightarrow> prefix root c \<Longrightarrow> added_under root st st'"
    and "prefix root base"
  shows "load_includes load fs policy resolving base incs merged st = Some (Inr (m, st')) \<Longrightarrow> added_under root st st'"
proof (induction incs arbitrary: merged st)
  case (Cons inc incs)
  obtain included bytes where st: "st = (included, bytes)" by fastforce
  obtain c g st1 where c: "fs_canonicalize fs (path_join base inc) = Inr c" "prefix base c"
    and ld: "load (path_join base inc) policy resolving (if base \<noteq> c then included @ [c] else included, bytes) = Some (Inr (g, st1))"
    and rest: "load_includes load fs policy resolving base incs (merge_included merged g) st1 = Some (Inr (m, st'))"
    using Cons.prems by (auto simp: st Let_def result_simps)
  have under: "prefix root c" using assms(2) c(2) prefix_order.trans by blast
  then have "added_under root st (if base \<noteq> c then included @ [c] else included, bytes)"
    by (auto simp: added_under_def st)
  then show ?case using load [OF ld c(1) under] Cons.IH [OF rest] added_under_trans by blast
qed (auto simp: added_under_def)

lemma load_tracked_under:
  assumes "canonical_parents fs" and "directories_unreadable fs" and "\<not> is_ok (fs_contents fs root)"
  shows "load_from_path_tracked fuel env fs path policy resolving st = Some (Inr (g, st')) \<Longrightarrow>
    fs_canonicalize fs path = Inr c \<Longrightarrow> prefix root c \<Longrightarrow> added_under root st st'"
proof (induction fuel arbitrary: path policy resolving st g st' c)
  case (Suc fuel)
  obtain included bytes where st: "st = (included, bytes)" by fastforce
  from Suc.prems(1) [unfolded st] obtain f c' bytes' spec e merged where
    f: "Suc fuel = Suc f" and c': "fs_canonicalize fs path = Inr c'" and content: "\<exists>content. fs_contents fs c' = Inr content"
    and "effective_limits policy spec = Inr e"
    and r: "case path_parent c' of None \<Rightarrow> st' = (included, bytes')
      | Some dir \<Rightarrow> \<exists>base. fs_canonicalize fs (render dir) = Inr base \<and>
          load_includes (load_from_path_tracked f env fs) fs e (c' # resolving) base (gs_includes spec) graph_spec_default
            (included, bytes') = Some (Inr (merged, st'))"
    by (rule load_tracked_cases) blast
  have c: "c' = c" using c' Suc.prems(2) by simp
  show ?case
  proof (cases "c = []")
    case True
    then show ?thesis using r by (auto simp: c path_parent_def added_under_def st)
  next
    case False
    then obtain base where base: "fs_canonicalize fs (render (butlast c)) = Inr base"
      "load_includes (load_from_path_tracked f env fs) fs e (c # resolving) base (gs_includes spec) graph_spec_default
        (included, bytes') = Some (Inr (merged, st'))" using r by (auto simp: c path_parent_def)
    have "base = butlast c" using assms(1) Suc.prems(2) base(1) unfolding canonical_parents_def by blast
    moreover have "c \<noteq> root" using content assms(3) c by (auto simp: is_ok_iff)
    ultimately have under: "prefix root base" using prefix_butlast [OF Suc.prems(3)] by simp
    have "added_under root (included, bytes') st'"
      by (rule load_includes_under [OF _ under base(2) [unfolded Suc_inject [OF f, symmetric]]]) (rule Suc.IH)
    then show ?thesis by (simp add: added_under_def st)
  qed
qed simp


subsection \<open>Validity of the result\<close>

lemma validate_references_ok:
  "validate_references g = Inr () \<Longrightarrow>
    (\<forall>n \<in> set (gs_nodes g). \<forall>s \<in> strings_of (nd_params n). \<not> contains_sub ''${'' s) \<and>
    (\<forall>c \<in> set (gs_connections g). \<not> contains_sub ''${'' c)"
proof -
  assume "validate_references g = Inr ()"
  then have n: "\<forall>n \<in> set (gs_nodes g). find_unresolved_placeholder (nd_params n) = None"
    and c: "\<forall>(i, c) \<in> set (enumerate 0 (gs_connections g)). find_unresolved_placeholder_in_string c = None"
    by (simp_all add: validate_references_def result_simps ball_Un case_prod_beta)
  have "find_unresolved_placeholder_in_string x = None" if "x \<in> set (gs_connections g)" for x
  proof -
    obtain i where "i < length (gs_connections g)" "x = gs_connections g ! i" using \<open>x \<in> _\<close> by (auto simp: in_set_conv_nth)
    then have "(i, x) \<in> set (enumerate 0 (gs_connections g))" by (simp add: in_set_enumerate_eq)
    then show ?thesis using c by blast
  qed
  then show ?thesis using n by (simp add: find_unresolved_None unresolved_in_string_None)
qed

lemma finish_normalize_ok:
  assumes "finish_normalize env policy merged self = Inr g"
  shows "graph_valid env policy g \<and> gs_includes g = [] \<and>
    (\<forall>n \<in> set (gs_nodes g). \<forall>s \<in> strings_of (nd_params n). \<not> contains_sub ''${'' s) \<and>
    (\<forall>c \<in> set (gs_connections g). \<not> contains_sub ''${'' c)"
proof -
  obtain m2 where m2: "apply_templates ((merge_included merged self)\<lparr> gs_includes := [] \<rparr>) = Inr m2"
    and refs: "validate_references g = Inr ()" and valid: "validate_with_policy env policy g = Inr ()"
    and g: "gs_includes g = gs_includes m2"
    using assms by (auto simp: finish_normalize_def Let_def result_simps apply_node_overrides_def apply_defaults_def apply_variables_def)
  have "gs_includes m2 = []" using m2 by (auto simp: apply_templates_def result_simps)
  then show ?thesis using validate_references_ok [OF refs] valid g by (simp add: validate_with_policy_ok)
qed

section \<open>Properties\<close>

text \<open>C27. Loading a graph always ends: whatever the files include, the depth limit of the policy bounds the
  recursion, so the loader returns a graph or an error.\<close>

theorem load_terminates: "load_from_path_with_includes_and_policy env fs path policy \<noteq> None"
  unfolding load_from_path_with_includes_and_policy_def load_fuel_def case_prod_beta
  by (intro bind_load_total load_tracked_total) simp_all

text \<open>A graph that loads is well-formed under the limits in effect for its file, has no includes left, and
  no placeholder of a variable is left in the parameters of its nodes or in its connections.\<close>

lemma loaded_graph_valid:
  assumes "load_from_path_with_includes_and_policy env fs path policy = Some (Inr (g, included))"
  shows "\<exists>spec e. effective_limits policy spec = Inr e \<and> graph_valid env e g \<and> gs_includes g = [] \<and>
    (\<forall>n \<in> set (gs_nodes g). \<forall>s \<in> strings_of (nd_params n). \<not> contains_sub ''${'' s) \<and>
    (\<forall>c \<in> set (gs_connections g). \<not> contains_sub ''${'' c)"
proof -
  obtain c bytes where "load_from_path_tracked (load_fuel policy) env fs path policy [] ([c], 0) = Some (Inr (g, (included, bytes)))"
    using assms by (auto simp: load_from_path_with_includes_and_policy_def result_simps)
  then obtain spec e merged where "effective_limits policy spec = Inr e" "finish_normalize env e merged spec = Inr g"
    by (rule load_tracked_cases)
  with finish_normalize_ok show ?thesis by blast
qed

text \<open>The limits on includes hold over the whole recursion: the bytes of all configuration files read are
  within the limit, and so is the number of included files.\<close>

lemma load_within_limits:
  assumes "load_from_path_tracked (load_fuel policy) env fs path policy [] ([c], 0) = Some (Inr (g, (included, bytes)))"
  shows "bytes \<le> max_config_bytes policy \<and> length included \<le> max_include_count policy + 1"
  using load_tracked_within [OF assms] by (auto simp: within_limits_def)

text \<open>C10. Includes cannot escape: on a file system where parents of canonical paths are canonical and
  directories cannot be read, every included file lies below the directory of the first file.\<close>

theorem includes_contained:
  assumes "canonical_parents fs" and "directories_unreadable fs"
    and "load_from_path_with_includes_and_policy env fs path policy = Some (Inr (g, included))"
    and "fs_canonicalize fs path = Inr c"
  shows "list_all (prefix (butlast c)) included"
proof -
  obtain bytes where ld: "load_from_path_tracked (load_fuel policy) env fs path policy [] ([c], 0) = Some (Inr (g, (included, bytes)))"
    using assms(3,4) by (auto simp: load_from_path_with_includes_and_policy_def result_simps)
  from ld obtain c' content where "fs_canonicalize fs path = Inr c'" "fs_contents fs c' = Inr content"
    by (rule load_tracked_cases) blast
  then have content: "fs_contents fs c = Inr content" using assms(4) by simp
  show ?thesis
  proof (cases "c = []")
    case True
    then show ?thesis by (simp add: list_all_iff)
  next
    case False
    then have "\<not> is_ok (fs_contents fs (butlast c))" using assms(2) content unfolding directories_unreadable_def by blast
    from load_tracked_under [OF assms(1,2) this ld assms(4)] have "added_under (butlast c) ([c], 0) (included, bytes)"
      by (simp add: prefixeq_butlast)
    then show ?thesis by (auto simp: added_under_def prefixeq_butlast)
  qed
qed


subsection \<open>Examples\<close>

text \<open>A main file that includes a file of a subdirectory.\<close>

definition sample_fs :: file_system where
  "sample_fs =
    \<lparr> fs_canonicalize = (\<lambda>p. if p = ''/g/m.yaml'' then Inr [''g'', ''m.yaml''] else if p = ''/g'' then Inr [''g'']
         else if p = ''/g/s/a.yaml'' then Inr [''g'', ''s'', ''a.yaml''] else if p = ''/g/s'' then Inr [''g'', ''s'']
         else Inl (GIo ''not found'')),
      fs_contents = (\<lambda>c. if c = [''g'', ''m.yaml''] then Inr ''m'' else if c = [''g'', ''s'', ''a.yaml''] then Inr ''a''
         else Inl (GIo ''not found'')),
      fs_parse = (\<lambda>_ t. Inr (if t = ''m'' then graph_spec_default\<lparr> gs_includes := [''s/a.yaml''] \<rparr> else graph_spec_default)) \<rparr>"

definition sample_env :: graph_env where
  "sample_env = \<lparr> ge_registered = [], ge_model_check = (\<lambda>_ _. Inr ()), ge_display = (\<lambda>_. []), ge_alloc = (\<lambda>_. True) \<rparr>"

lemma sample_format: "format_from_path ''/g/m.yaml'' = Inr Yaml" "format_from_path ''/g/s/a.yaml'' = Inr Yaml"
  by code_simp+

lemma sample_policy: "effective_limits resource_policy_default (graph_spec_default\<lparr> gs_includes := is \<rparr>) = Inr resource_policy_default"
proof -
  have "policy_of_limits limits_default = resource_policy_default"
    by (simp add: policy_of_limits_def limits_default_def)
  moreover have "policy_validate resource_policy_default = Inr ()"
    by (simp add: policy_validate_ok policy_valid_def policy_limits_def resource_policy_default_def u32_max_def)
  then have "effective_for resource_policy_default resource_policy_default = Inr resource_policy_default"
    by (simp add: effective_for_eq tighter_refl)
  ultimately show ?thesis by (simp add: effective_limits_def graph_spec_default_def)
qed

lemma sample_default: "graph_spec_default\<lparr> gs_includes := [] \<rparr> = graph_spec_default"
  by (simp add: graph_spec_default_def)

lemma sample_merge: "merge_included graph_spec_default (graph_spec_default\<lparr> gs_includes := is \<rparr>) = graph_spec_default"
  by (simp add: merge_included_def graph_spec_default_def bt_extend_def option_or_def defaults_default_def)

lemma sample_validate: "validate_with_policy sample_env resource_policy_default graph_spec_default = Inr ()"
  unfolding validate_with_policy_ok
  by (simp add: graph_valid_def graph_spec_default_def sample_env_def execution_ok_def execution_default_def
      DEFAULT_QUEUE_CAPACITY_def resource_policy_default_def total_workers_def acyclic_def)

lemma sample_finish:
  "finish_normalize sample_env resource_policy_default graph_spec_default (graph_spec_default\<lparr> gs_includes := is \<rparr>) = Inr graph_spec_default"
proof -
  have "apply_templates graph_spec_default = Inr graph_spec_default"
    by (simp add: apply_templates_def graph_spec_default_def)
  moreover have "apply_node_overrides [] [] graph_spec_default = graph_spec_default"
    "apply_defaults [] graph_spec_default = graph_spec_default" "apply_variables d graph_spec_default = graph_spec_default" for d
    by (simp_all add: apply_node_overrides_def apply_defaults_def apply_variables_def graph_spec_default_def)
  moreover have "validate_references graph_spec_default = Inr ()" by (simp add: validate_references_def graph_spec_default_def)
  moreover have "gs_nodes graph_spec_default = []" by (simp add: graph_spec_default_def)
  ultimately show ?thesis
    using sample_validate by (simp add: finish_normalize_def sample_merge sample_default sample_env_def)
qed


lemmas sample_load = load_tracked_inner_def read_limited_def from_str_with_policy_def normalize_tracked_def check_header_def
  path_parent_def path_join_def render_def starts_with_def saturating_add_def usize_max_def sample_format sample_policy
  sample_policy [of "[]", unfolded sample_default] sample_finish sample_finish [of "[]", unfolded sample_default] Let_def

lemma sample_limits: "max_config_bytes resource_policy_default = 8388608" "max_include_depth resource_policy_default = 16"
  "max_include_count resource_policy_default = 64"
  by (simp_all add: resource_policy_default_def)

lemma sample_header: "gs_api_version graph_spec_default = ''dg/v1''" "gs_kind graph_spec_default = ''Graph''"
  "gs_includes graph_spec_default = []"
  by (simp_all add: graph_spec_default_def)

lemma sample_load_included:
  "load_from_path_tracked (Suc fuel) sample_env sample_fs ''/g/s/a.yaml'' resource_policy_default [[''g'', ''m.yaml'']] (inc, 1) =
    Some (Inr (graph_spec_default, (inc, 2)))"
  by (simp add: sample_load sample_limits sample_header sample_fs_def sample_env_def [THEN arg_cong, of ge_alloc])


lemma sample_load_main:
  "load_from_path_tracked (load_fuel resource_policy_default) sample_env sample_fs ''/g/m.yaml'' resource_policy_default []
     ([[''g'', ''m.yaml'']], 0) =
    Some (Inr (graph_spec_default, ([[''g'', ''m.yaml''], [''g'', ''s'', ''a.yaml'']], 2)))"
proof -
  have fuel: "load_fuel resource_policy_default = Suc (Suc 16)" by (simp add: load_fuel_def sample_limits)
  have inc: "load_from_path_tracked (Suc 16) sample_env sample_fs ''/g/s/a.yaml'' resource_policy_default [[''g'', ''m.yaml'']]
      ([[''g'', ''m.yaml''], [''g'', ''s'', ''a.yaml'']], 1) =
    Some (Inr (graph_spec_default, ([[''g'', ''m.yaml''], [''g'', ''s'', ''a.yaml'']], 2)))"
    by (rule sample_load_included)
  show ?thesis
    unfolding fuel using inc
    by (subst load_from_path_tracked.simps)
       (simp del: load_from_path_tracked.simps add: sample_load sample_limits sample_header sample_fs_def
         sample_env_def [THEN arg_cong, of ge_alloc] sample_merge [of "[]", unfolded sample_default])
qed

lemma sample_load_result:
  "load_from_path_with_includes_and_policy sample_env sample_fs ''/g/m.yaml'' resource_policy_default =
    Some (Inr (graph_spec_default, [[''g'', ''m.yaml''], [''g'', ''s'', ''a.yaml'']]))"
proof -
  have "fs_canonicalize sample_fs ''/g/m.yaml'' = Inr [''g'', ''m.yaml'']" by (simp add: sample_fs_def)
  then show ?thesis by (simp add: load_from_path_with_includes_and_policy_def sample_load_main del: load_from_path_tracked.simps)
qed

theorem includes_contained_witness:
  "list_all (prefix [''g'']) [[''g'', ''m.yaml''], [''g'', ''s'', ''a.yaml'']]"
proof -
  have "canonical_parents sample_fs"
    by (auto simp: canonical_parents_def sample_fs_def render_def split: if_splits)
  moreover have "directories_unreadable sample_fs"
    by (auto simp: directories_unreadable_def sample_fs_def split: if_splits)
  moreover have "fs_canonicalize sample_fs ''/g/m.yaml'' = Inr [''g'', ''m.yaml'']" by (simp add: sample_fs_def)
  ultimately show ?thesis using includes_contained [OF _ _ sample_load_result] by simp
qed

end
