(* ===== verification/GraphDiffs.thy ===== *)
theory GraphDiffs
  imports GraphLoad ProcessPolicy
begin

text \<open>
  The part of \<open>dg-graph/src/engine.rs\<close> that works on configurations: \<open>Graph\<close> with its
  constructors and \<open>reload\<close>, the difference of two configurations, and merging a
  difference into a configuration.
\<close>

section \<open>Differences\<close>

record GraphDiff =
  gd_added_nodes :: "NodeSpec list"
  gd_removed_nodes :: "string list"
  gd_updated_nodes :: "NodeSpec list"
  gd_added_connections :: "string list"
  gd_removed_connections :: "string list"

definition diff_is_empty :: "GraphDiff \<Rightarrow> bool" where
  "diff_is_empty d \<longleftrightarrow> gd_added_nodes d = [] \<and> gd_removed_nodes d = [] \<and> gd_updated_nodes d = [] \<and>
    gd_added_connections d = [] \<and> gd_removed_connections d = []"

text \<open>The nodes collected into a \<open>BTreeMap\<close> by name; a \<open>BTreeSet\<close> of connections is its
  sorted list of elements.\<close>

definition node_map :: "NodeSpec list \<Rightarrow> (string \<times> NodeSpec) list" where
  "node_map nodes = fold (\<lambda>node m. bt_insert (nd_name node) node m) nodes []"

definition bt_set :: "'a::linorder list \<Rightarrow> 'a list" where
  "bt_set xs = sort (remdups xs)"

definition graph_diff :: "GraphSpec \<Rightarrow> GraphSpec \<Rightarrow> GraphDiff" where
  "graph_diff old new =
    (let old_nodes = node_map (gs_nodes old); new_nodes = node_map (gs_nodes new);
         old_connections = bt_set (gs_connections old); new_connections = bt_set (gs_connections new)
     in \<lparr> gd_added_nodes = map snd (filter (\<lambda>(name, node). map_of old_nodes name = None) new_nodes),
          gd_removed_nodes = filter (\<lambda>name. map_of new_nodes name = None) (bt_keys old_nodes),
          gd_updated_nodes = map snd (filter (\<lambda>(name, node).
            case map_of old_nodes name of None \<Rightarrow> False | Some existing \<Rightarrow> existing \<noteq> node) new_nodes),
          gd_added_connections = filter (\<lambda>c. c \<notin> set old_connections) new_connections,
          gd_removed_connections = filter (\<lambda>c. c \<notin> set new_connections) old_connections \<rparr>)"

definition retain_other :: "string \<Rightarrow> NodeSpec list \<Rightarrow> NodeSpec list" where
  "retain_other name nodes = filter (\<lambda>existing. nd_name existing \<noteq> name) nodes"

definition merge_for_diff :: "GraphSpec \<Rightarrow> GraphDiff \<Rightarrow> GraphSpec graph_result" where
  "merge_for_diff self d =
    (if diff_is_empty d then Inr self
     else
      let nodes1 = fold retain_other (gd_removed_nodes d) (gs_nodes self);
          nodes2 = nodes1 @ gd_added_nodes d;
          nodes3 = fold (\<lambda>node nodes. retain_other (nd_name node) nodes @ [node]) (gd_updated_nodes d) nodes2;
          kept = fold (\<lambda>c cs. filter (\<lambda>existing. existing \<noteq> c) cs) (gd_removed_connections d) (gs_connections self)
      in Inr (self\<lparr> gs_nodes := nodes3, gs_connections := kept @ gd_added_connections d \<rparr>))"

section \<open>Graphs\<close>

record Graph =
  gr_spec :: GraphSpec
  gr_policy :: ProcessRuntimePolicy

definition new_with_process_policy :: "graph_env \<Rightarrow> GraphSpec \<Rightarrow> ProcessRuntimePolicy \<Rightarrow> Graph graph_result" where
  "new_with_process_policy env spec policy =
    and_then (effective_limits (pp_resource policy) spec) (\<lambda>effective.
    and_then (validate_with_policy env effective spec) (\<lambda>_.
    Inr \<lparr> gr_spec = spec, gr_policy = policy \<rparr>))"

text \<open>\<open>reload\<close> works in place: the result comes with the graph as it is left.\<close>

definition reload :: "graph_env \<Rightarrow> Graph \<Rightarrow> GraphSpec \<Rightarrow> GraphDiff graph_result \<times> Graph" where
  "reload env g spec =
    (let d = graph_diff (gr_spec g) spec in
     case and_then (effective_limits (pp_resource (gr_policy g)) spec) (\<lambda>effective. validate_with_policy env effective spec) of
       Inl e \<Rightarrow> (Inl e, g)
     | Inr _ \<Rightarrow> (Inr d, g\<lparr> gr_spec := spec \<rparr>))"

definition diff_apply :: "graph_env \<Rightarrow> GraphDiff \<Rightarrow> Graph \<Rightarrow> unit graph_result \<times> Graph" where
  "diff_apply env d g =
    (case merge_for_diff (gr_spec g) d of
       Inl e \<Rightarrow> (Inl e, g)
     | Inr new_spec \<Rightarrow>
        (case reload env g new_spec of
           (Inl e, g') \<Rightarrow> (Inl e, g')
         | (Inr _, g') \<Rightarrow> (Inr (), g')))"

section \<open>Differences and merging are inverse\<close>

lemma set_bt_set [simp]: "set (bt_set xs) = set xs"
  by (simp add: bt_set_def)

lemma node_map_wf [simp]: "bt_wf (node_map nodes)"
proof -
  have "bt_wf m \<Longrightarrow> bt_wf (fold (\<lambda>node m. bt_insert (nd_name node) node m) nodes m)" for m
    by (induction nodes arbitrary: m) simp_all
  then show ?thesis by (simp add: node_map_def bt_wf_def)
qed

lemma node_map_lookup:
  assumes "distinct (map nd_name nodes)"
  shows "map_of (node_map nodes) name = Some node \<longleftrightarrow> node \<in> set nodes \<and> nd_name node = name"
proof -
  have "bt_wf m \<Longrightarrow> distinct (map nd_name ns) \<Longrightarrow>
      map_of (fold (\<lambda>node m. bt_insert (nd_name node) node m) ns m) =
        map_of m ++ map_of (map (\<lambda>n. (nd_name n, n)) ns)" for ns m
  proof (induction ns arbitrary: m)
    case (Cons n ns)
    have "map_of (fold (\<lambda>node m. bt_insert (nd_name node) node m) (n # ns) m) =
        map_of (bt_insert (nd_name n) n m) ++ map_of (map (\<lambda>n. (nd_name n, n)) ns)"
      using Cons.prems by (simp add: Cons.IH)
    moreover have "nd_name n \<notin> dom (map_of (map (\<lambda>n. (nd_name n, n)) ns))"
      using Cons.prems(2) by (auto simp: dom_map_of_conv_image_fst)
    ultimately show ?case using Cons.prems(1) by (auto simp: map_of_bt_insert map_add_def fun_eq_iff dom_def split: option.splits)
  qed simp
  from this [of "[]" nodes] have eq: "map_of (node_map nodes) = map_of (map (\<lambda>n. (nd_name n, n)) nodes)"
    using assms by (simp add: node_map_def bt_wf_def)
  have "distinct (map fst (map (\<lambda>n. (nd_name n, n)) nodes))" using assms by (simp add: comp_def)
  then show ?thesis unfolding eq by (auto simp: map_of_eq_Some_iff)
qed

lemma node_map_entries:
  assumes "distinct (map nd_name nodes)"
  shows "(name, node) \<in> set (node_map nodes) \<longleftrightarrow> node \<in> set nodes \<and> nd_name node = name"
  using node_map_lookup [OF assms] map_of_eq_Some_iff [OF bt_wf_distinct [OF node_map_wf [of nodes]]] by metis

lemma node_map_absent:
  assumes "distinct (map nd_name nodes)"
  shows "map_of (node_map nodes) name = None \<longleftrightarrow> name \<notin> nd_name ` set nodes"
proof (cases "map_of (node_map nodes) name")
  case None
  then show ?thesis using node_map_lookup [OF assms, of name] by auto
next
  case (Some n)
  then have "n \<in> set nodes \<and> nd_name n = name" using node_map_lookup [OF assms, of name n] by simp
  then show ?thesis using Some by auto
qed

lemma node_map_filter:
  assumes "distinct (map nd_name nodes)"
  shows "snd ` {entry \<in> set (node_map nodes). P entry} = {n \<in> set nodes. P (nd_name n, n)}"
proof (intro equalityI subsetI)
  fix n assume "n \<in> {n \<in> set nodes. P (nd_name n, n)}"
  then have "(nd_name n, n) \<in> {entry \<in> set (node_map nodes). P entry}" by (simp add: node_map_entries [OF assms])
  then show "n \<in> snd ` {entry \<in> set (node_map nodes). P entry}" by (metis imageI snd_conv)
qed (auto simp: node_map_entries [OF assms])

text \<open>What a difference lists, over configurations with distinct node names.\<close>

lemma graph_diff_contents:
  assumes "distinct (map nd_name (gs_nodes old))" and "distinct (map nd_name (gs_nodes new))"
  shows "set (gd_added_nodes (graph_diff old new)) = {n \<in> set (gs_nodes new). nd_name n \<notin> nd_name ` set (gs_nodes old)}"
    and "set (gd_updated_nodes (graph_diff old new)) =
      {n \<in> set (gs_nodes new). nd_name n \<in> nd_name ` set (gs_nodes old) \<and> n \<notin> set (gs_nodes old)}"
    and "set (gd_removed_nodes (graph_diff old new)) = nd_name ` set (gs_nodes old) - nd_name ` set (gs_nodes new)"
    and "set (gd_added_connections (graph_diff old new)) = set (gs_connections new) - set (gs_connections old)"
    and "set (gd_removed_connections (graph_diff old new)) = set (gs_connections old) - set (gs_connections new)"
proof -
  note entries = node_map_entries [OF assms(1)] node_map_entries [OF assms(2)]
  note absent = node_map_absent [OF assms(1)] node_map_absent [OF assms(2)]
  show "set (gd_added_nodes (graph_diff old new)) = {n \<in> set (gs_nodes new). nd_name n \<notin> nd_name ` set (gs_nodes old)}"
    by (auto simp: graph_diff_def Let_def entries absent image_iff split: prod.splits)
  have "(case map_of (node_map (gs_nodes old)) (nd_name n) of None \<Rightarrow> False | Some e \<Rightarrow> e \<noteq> n) \<longleftrightarrow>
      nd_name n \<in> nd_name ` set (gs_nodes old) \<and> n \<notin> set (gs_nodes old)" for n
  proof (cases "map_of (node_map (gs_nodes old)) (nd_name n)")
    case None
    then have "nd_name n \<notin> nd_name ` set (gs_nodes old)" by (simp add: absent(1))
    then show ?thesis using None by simp
  next
    case (Some e)
    then have e: "e \<in> set (gs_nodes old)" "nd_name e = nd_name n" using node_map_lookup [OF assms(1), of "nd_name n" e] by simp_all
    then have "n \<in> set (gs_nodes old) \<longleftrightarrow> e = n" using assms(1) unfolding distinct_map by (metis inj_onD)
    moreover have "nd_name n \<in> nd_name ` set (gs_nodes old)" using e by (metis imageI)
    ultimately show ?thesis using Some by simp
  qed
  note changed = this
  have "n \<in> set (gd_updated_nodes (graph_diff old new)) \<longleftrightarrow> n \<in> set (gs_nodes new) \<and>
      (case map_of (node_map (gs_nodes old)) (nd_name n) of None \<Rightarrow> False | Some e \<Rightarrow> e \<noteq> n)" for n
    by (simp add: graph_diff_def Let_def node_map_filter [OF assms(2)])
  then show "set (gd_updated_nodes (graph_diff old new)) =
      {n \<in> set (gs_nodes new). nd_name n \<in> nd_name ` set (gs_nodes old) \<and> n \<notin> set (gs_nodes old)}"
    unfolding changed by blast
  have "set (bt_keys (node_map (gs_nodes old))) = nd_name ` set (gs_nodes old)"
    unfolding bt_keys_def set_map dom_map_of_conv_image_fst [symmetric]
    using absent(1) by (auto simp: dom_def)
  then show "set (gd_removed_nodes (graph_diff old new)) = nd_name ` set (gs_nodes old) - nd_name ` set (gs_nodes new)"
    by (auto simp: graph_diff_def Let_def absent)
qed (auto simp: graph_diff_def Let_def)

lemma graph_diff_distinct:
  assumes "distinct (map nd_name (gs_nodes new))"
  shows "distinct (map nd_name (gd_added_nodes (graph_diff old new)))"
    and "distinct (map nd_name (gd_updated_nodes (graph_diff old new)))"
proof -
  have "map nd_name (map snd m) = map fst m" if "\<forall>(k, n) \<in> set m. nd_name n = k" for m :: "(string \<times> NodeSpec) list"
    using that by (auto simp: case_prod_beta)
  moreover have "\<forall>(k, n) \<in> set (node_map (gs_nodes new)). nd_name n = k"
    using node_map_entries [OF assms] by auto
  ultimately have names: "map nd_name (map snd (filter P (node_map (gs_nodes new)))) = map fst (filter P (node_map (gs_nodes new)))" for P
    by simp
  have "distinct (map fst (filter P (node_map (gs_nodes new))))" for P
    using bt_wf_distinct [OF node_map_wf [of "gs_nodes new"]] by (rule distinct_map_filter)
  then show "distinct (map nd_name (gd_added_nodes (graph_diff old new)))"
    and "distinct (map nd_name (gd_updated_nodes (graph_diff old new)))"
    by (simp_all add: graph_diff_def Let_def names del: map_map)
qed

lemma fold_retain_other: "fold retain_other names nodes = filter (\<lambda>n. nd_name n \<notin> set names) nodes"
  by (induction names arbitrary: nodes) (auto simp: retain_other_def intro: filter_cong)

lemma fold_replace:
  assumes "distinct (map nd_name updates)"
  shows "fold (\<lambda>node nodes. retain_other (nd_name node) nodes @ [node]) updates nodes =
    filter (\<lambda>n. nd_name n \<notin> nd_name ` set updates) nodes @ updates"
  using assms
proof (induction updates arbitrary: nodes)
  case (Cons u updates)
  then have "nd_name u \<notin> nd_name ` set updates" by auto
  then show ?case using Cons by (auto simp: retain_other_def intro: filter_cong)
qed simp

lemma fold_remove_connections:
  "fold (\<lambda>c cs. filter (\<lambda>existing. existing \<noteq> c) cs) removed cs = filter (\<lambda>c. c \<notin> set removed) cs"
  by (induction removed arbitrary: cs) (auto intro: filter_cong)

lemma merge_for_diff_total: "\<exists>m. merge_for_diff self d = Inr m"
  by (cases "diff_is_empty d") (simp_all add: merge_for_diff_def Let_def)

lemma diff_empty_iff:
  assumes "distinct (map nd_name (gs_nodes old))" and "distinct (map nd_name (gs_nodes new))"
  shows "diff_is_empty (graph_diff old new) \<longleftrightarrow>
    set (gs_nodes old) = set (gs_nodes new) \<and> set (gs_connections old) = set (gs_connections new)"
proof
  note contents = graph_diff_contents [OF assms]
  assume "diff_is_empty (graph_diff old new)"
  then have added: "{n \<in> set (gs_nodes new). nd_name n \<notin> nd_name ` set (gs_nodes old)} = {}"
    and updated: "{n \<in> set (gs_nodes new). nd_name n \<in> nd_name ` set (gs_nodes old) \<and> n \<notin> set (gs_nodes old)} = {}"
    and removed: "nd_name ` set (gs_nodes old) - nd_name ` set (gs_nodes new) = {}"
    and conns: "set (gs_connections old) = set (gs_connections new)"
    unfolding diff_is_empty_def contents(1) [symmetric] contents(2) [symmetric] contents(3) [symmetric]
    using contents(4,5) by auto
  have sub: "set (gs_nodes new) \<subseteq> set (gs_nodes old)" using added updated by blast
  have "set (gs_nodes old) \<subseteq> set (gs_nodes new)"
  proof
    fix n assume n: "n \<in> set (gs_nodes old)"
    then obtain n' where n': "n' \<in> set (gs_nodes new)" "nd_name n' = nd_name n" using removed by force
    then have "n' = n" using n sub assms(1) by (auto simp: distinct_map inj_on_def)
    then show "n \<in> set (gs_nodes new)" using n' by simp
  qed
  then show "set (gs_nodes old) = set (gs_nodes new) \<and> set (gs_connections old) = set (gs_connections new)"
    using sub conns by blast
next
  assume "set (gs_nodes old) = set (gs_nodes new) \<and> set (gs_connections old) = set (gs_connections new)"
  then show "diff_is_empty (graph_diff old new)"
    using graph_diff_contents [OF assms] by (auto simp: diff_is_empty_def simp flip: set_empty)
qed

lemma merge_diff_nodes:
  assumes "distinct (map nd_name (gs_nodes old))" and "distinct (map nd_name (gs_nodes new))"
    and "merge_for_diff old (graph_diff old new) = Inr m"
  shows "set (gs_nodes m) = set (gs_nodes new)" and "distinct (map nd_name (gs_nodes m))"
    and "set (gs_connections m) = set (gs_connections new)"
    and "m = old\<lparr> gs_nodes := gs_nodes m, gs_connections := gs_connections m \<rparr>"
proof -
  let ?d = "graph_diff old new"
  note contents = graph_diff_contents [OF assms(1,2)]
  note dist = graph_diff_distinct [OF assms(2), of old]
  have goal: "set (gs_nodes m) = set (gs_nodes new) \<and> distinct (map nd_name (gs_nodes m)) \<and>
    set (gs_connections m) = set (gs_connections new) \<and> m = old\<lparr> gs_nodes := gs_nodes m, gs_connections := gs_connections m \<rparr>"
  proof (cases "diff_is_empty ?d")
    case True
    then show ?thesis using diff_empty_iff [OF assms(1,2)] assms by (simp add: merge_for_diff_def)
  next
    case False
    define kept where "kept = filter (\<lambda>n. nd_name n \<notin> set (gd_removed_nodes ?d)) (gs_nodes old)"
    have m: "m = old\<lparr> gs_nodes := filter (\<lambda>n. nd_name n \<notin> nd_name ` set (gd_updated_nodes ?d)) (kept @ gd_added_nodes ?d) @ gd_updated_nodes ?d,
        gs_connections := filter (\<lambda>c. c \<notin> set (gd_removed_connections ?d)) (gs_connections old) @ gd_added_connections ?d \<rparr>"
      using assms(3) False
      by (simp add: merge_for_diff_def Let_def fold_retain_other fold_replace [OF dist(2)] fold_remove_connections kept_def)
    have not_old: "nd_name n \<notin> nd_name ` set (gd_updated_nodes ?d)" if "n \<in> set (gd_added_nodes ?d)" for n
    proof
      assume "nd_name n \<in> nd_name ` set (gd_updated_nodes ?d)"
      then have "nd_name n \<in> nd_name ` set (gs_nodes old)" using contents(2) by auto
      then show False using that contents(1) by simp
    qed
    have "set (gs_nodes m) = {n \<in> set (gs_nodes old). nd_name n \<in> nd_name ` set (gs_nodes new) \<and> nd_name n \<notin> nd_name ` set (gd_updated_nodes ?d)}
        \<union> set (gd_added_nodes ?d) \<union> set (gd_updated_nodes ?d)"
      using not_old by (auto simp: m kept_def contents(3))
    also have "\<dots> = set (gs_nodes new)"
    proof (intro equalityI subsetI)
      fix n assume "n \<in> {n \<in> set (gs_nodes old). nd_name n \<in> nd_name ` set (gs_nodes new) \<and> nd_name n \<notin> nd_name ` set (gd_updated_nodes ?d)}
        \<union> set (gd_added_nodes ?d) \<union> set (gd_updated_nodes ?d)"
      then consider "n \<in> set (gs_nodes old)" "nd_name n \<in> nd_name ` set (gs_nodes new)" "nd_name n \<notin> nd_name ` set (gd_updated_nodes ?d)"
        | "n \<in> set (gs_nodes new)" using contents(1,2) by blast
      then show "n \<in> set (gs_nodes new)"
      proof cases
        case 1
        then obtain n' where n': "n' \<in> set (gs_nodes new)" "nd_name n' = nd_name n" by force
        then have "n' \<notin> set (gd_updated_nodes ?d)" using 1(3) by (metis imageI)
        then have "n' \<in> set (gs_nodes old)" using n' 1(1) contents(2) by (metis (mono_tags, lifting) imageI mem_Collect_eq)
        then have "n' = n" using 1(1) n'(2) assms(1) unfolding distinct_map by (metis inj_onD)
        then show ?thesis using n' by simp
      qed simp
    next
      fix n assume n: "n \<in> set (gs_nodes new)"
      have "nd_name n \<notin> nd_name ` set (gd_updated_nodes ?d)" if "n \<in> set (gs_nodes old)"
      proof
        assume "nd_name n \<in> nd_name ` set (gd_updated_nodes ?d)"
        then obtain u where u: "u \<in> set (gd_updated_nodes ?d)" "nd_name u = nd_name n" by force
        then have "u \<in> set (gs_nodes new)" "u \<notin> set (gs_nodes old)" using contents(2) by blast+
        then show False using u n that assms(2) unfolding distinct_map by (metis inj_onD)
      qed
      then show "n \<in> {n \<in> set (gs_nodes old). nd_name n \<in> nd_name ` set (gs_nodes new) \<and> nd_name n \<notin> nd_name ` set (gd_updated_nodes ?d)}
        \<union> set (gd_added_nodes ?d) \<union> set (gd_updated_nodes ?d)" using n contents(1,2) by blast
    qed
    finally have nodes: "set (gs_nodes m) = set (gs_nodes new)" .
    have "distinct (map nd_name kept)" unfolding kept_def using assms(1) by (rule distinct_map_filter)
    moreover have "nd_name ` set kept \<subseteq> nd_name ` set (gs_nodes old)" by (auto simp: kept_def)
    then have "nd_name n \<notin> nd_name ` set kept" if "n \<in> set (gd_added_nodes ?d)" for n
      using that unfolding contents(1) by auto
    then have "nd_name ` set kept \<inter> nd_name ` set (gd_added_nodes ?d) = {}" by (intro equals0I) (metis IntE imageE)
    ultimately have "distinct (map nd_name (kept @ gd_added_nodes ?d))" using dist(1) by simp
    then have "distinct (map nd_name (filter (\<lambda>n. nd_name n \<notin> nd_name ` set (gd_updated_nodes ?d)) (kept @ gd_added_nodes ?d)))"
      by (rule distinct_map_filter)
    then have "distinct (map nd_name (gs_nodes m))" using dist(2) by (auto simp: m)
    moreover have "set (gs_connections m) = set (gs_connections new)" by (auto simp: m contents)
    ultimately show ?thesis using nodes by (simp add: m)
  qed
  from goal show "set (gs_nodes m) = set (gs_nodes new)" and "distinct (map nd_name (gs_nodes m))"
    and "set (gs_connections m) = set (gs_connections new)"
    and "m = old\<lparr> gs_nodes := gs_nodes m, gs_connections := gs_connections m \<rparr>" by blast+
qed

section \<open>Properties\<close>

text \<open>C19. The difference of two configurations is complete: merged into the old configuration it
  gives one with exactly the nodes and connections of the new one, every other section as in the
  old one, and nothing is left to update.\<close>

theorem diff_merge_round_trip:
  assumes "distinct (map nd_name (gs_nodes old))" and "distinct (map nd_name (gs_nodes new))"
  shows "\<exists>m. merge_for_diff old (graph_diff old new) = Inr m \<and>
    set (gs_nodes m) = set (gs_nodes new) \<and> set (gs_connections m) = set (gs_connections new) \<and>
    distinct (map nd_name (gs_nodes m)) \<and>
    m = old\<lparr> gs_nodes := gs_nodes m, gs_connections := gs_connections m \<rparr> \<and>
    diff_is_empty (graph_diff m new)"
proof -
  obtain m where m: "merge_for_diff old (graph_diff old new) = Inr m" using merge_for_diff_total by blast
  note facts = merge_diff_nodes [OF assms m]
  then have "diff_is_empty (graph_diff m new)" using diff_empty_iff assms(2) by blast
  with m facts show ?thesis by blast
qed

definition sample_node :: "string \<Rightarrow> string \<Rightarrow> NodeSpec" where
  "sample_node name kind = \<lparr> nd_name = name, nd_kind = kind, nd_threads = None, nd_sink = False, nd_backend = None,
    nd_device = None, nd_precision = None, nd_template = None, nd_params = Null \<rparr>"

theorem diff_merge_round_trip_witness:
  "\<exists>m. merge_for_diff (graph_spec_default\<lparr> gs_nodes := [sample_node ''a'' ''source'', sample_node ''b'' ''sink''] \<rparr>)
      (graph_diff (graph_spec_default\<lparr> gs_nodes := [sample_node ''a'' ''source'', sample_node ''b'' ''sink''] \<rparr>)
        (graph_spec_default\<lparr> gs_nodes := [sample_node ''a'' ''input'', sample_node ''c'' ''sink''] \<rparr>)) = Inr m \<and>
    set (gs_nodes m) = {sample_node ''a'' ''input'', sample_node ''c'' ''sink''}"
  using diff_merge_round_trip
    [of "graph_spec_default\<lparr> gs_nodes := [sample_node ''a'' ''source'', sample_node ''b'' ''sink''] \<rparr>"
        "graph_spec_default\<lparr> gs_nodes := [sample_node ''a'' ''input'', sample_node ''c'' ''sink''] \<rparr>"]
  by (fastforce simp: sample_node_def)

text \<open>The requests a graph accepts after its construction.\<close>

datatype graph_cmd = Reload GraphSpec | Apply GraphDiff

fun exec_graph :: "graph_env \<Rightarrow> graph_cmd \<Rightarrow> Graph \<Rightarrow> Graph" where
  "exec_graph env (Reload spec) g = snd (reload env g spec)"
| "exec_graph env (Apply d) g = snd (diff_apply env d g)"

definition graph_ok :: "graph_env \<Rightarrow> Graph \<Rightarrow> bool" where
  "graph_ok env g \<longleftrightarrow> (\<exists>e. effective_limits (pp_resource (gr_policy g)) (gr_spec g) = Inr e \<and> graph_valid env e (gr_spec g))"

lemma validate_iff_valid: "validate_with_policy env p g = Inr () \<longleftrightarrow> graph_valid env p g"
  by (rule validate_with_policy_ok)

lemma reload_ok:
  "reload env g spec = (r, g') \<Longrightarrow> graph_ok env g \<Longrightarrow> graph_ok env g' \<and> gr_policy g' = gr_policy g"
  by (auto simp: reload_def graph_ok_def Let_def result_simps validate_iff_valid split: sum.splits)

lemma diff_apply_ok:
  "diff_apply env d g = (r, g') \<Longrightarrow> graph_ok env g \<Longrightarrow> graph_ok env g' \<and> gr_policy g' = gr_policy g"
  by (auto simp: diff_apply_def dest: reload_ok split: sum.splits prod.splits)

lemma exec_graph_ok: "graph_ok env g \<Longrightarrow> graph_ok env (exec_graph env c g) \<and> gr_policy (exec_graph env c g) = gr_policy g"
  using reload_ok [OF surjective_pairing] diff_apply_ok [OF surjective_pairing] by (cases c) auto

text \<open>C32. A graph stays valid: a graph built under a process policy holds, after any sequence of
  reloads and applied differences, a configuration that is well-formed under the limits that
  policy leaves it.\<close>

theorem graph_stays_valid:
  assumes "new_with_process_policy env spec policy = Inr g"
  shows "graph_ok env (fold (exec_graph env) cmds g) \<and> gr_policy (fold (exec_graph env) cmds g) = policy"
proof -
  have "graph_ok env g \<and> gr_policy g = policy"
    using assms by (auto simp: new_with_process_policy_def graph_ok_def result_simps validate_iff_valid)
  then show ?thesis by (induction cmds arbitrary: g) (auto simp: exec_graph_ok)
qed

lemma empty_graph_accepted: "\<exists>g. new_with_process_policy sample_env graph_spec_default process_policy_default = Inr g"
proof -
  have "effective_limits (pp_resource process_policy_default) graph_spec_default = Inr resource_policy_default"
    using sample_policy [of "[]"] by (simp add: sample_default process_policy_default_def)
  moreover note sample_validate
  ultimately show ?thesis by (simp add: new_with_process_policy_def)
qed

theorem graph_stays_valid_witness:
  "\<exists>g. new_with_process_policy sample_env graph_spec_default process_policy_default = Inr g \<and>
    graph_ok sample_env (exec_graph sample_env (Reload graph_spec_default) g)"
proof -
  obtain g where g: "new_with_process_policy sample_env graph_spec_default process_policy_default = Inr g"
    using empty_graph_accepted by blast
  from graph_stays_valid [OF g, of "[Reload graph_spec_default]"] g show ?thesis by auto
qed

end
