(* ===== verification/Lifecycle.thy ===== *)
theory Lifecycle
  imports GraphDiffs Packets
begin

text \<open>
  The life of a running graph, \<open>RunningGraph\<close> of \<open>dg-graph/src/engine.rs\<close>: its status, its workers and
  how they are joined, and the root cause of a failure.  A worker is a thread that is running or
  has finished with a result; threads finish on their own, so the time a call waits for them is
  an argument: \<open>ends name i\<close> is the result of worker \<open>i\<close> of a node if it ends before the deadline.
  Pipes and sender tables are addresses; a worker keeps the ones it was given.
\<close>

section \<open>State\<close>

datatype GraphStatus = Starting | Running | Draining | Stopped | Failed | Reloading

fun status_code :: "GraphStatus \<Rightarrow> 8 word" where
  "status_code Starting = 0"
| "status_code Running = 1"
| "status_code Draining = 2"
| "status_code Stopped = 3"
| "status_code Failed = 4"
| "status_code Reloading = 5"

definition status_from_u8 :: "8 word \<Rightarrow> GraphStatus" where
  "status_from_u8 v =
    (if v = 0 then Starting else if v = 1 then Running else if v = 2 then Draining else if v = 3 then Stopped
     else if v = 5 then Reloading else Failed)"

datatype thread_result = ThreadOk | ThreadErr graph_error | ThreadPanic

record worker =
  wk_inputs :: "(string \<times> nat) list"
  wk_outputs :: "(string \<times> nat) list"
  wk_finished :: "thread_result option"

record LiveNode =
  ln_stop :: bool
  ln_workers :: "worker list"

record EdgeRoute =
  er_sender :: nat
  er_receiver :: nat

record RuntimeRoutes =
  rr_edges :: "(string \<times> EdgeRoute) list"
  rr_inputs :: "((string \<times> string) \<times> nat) list"
  rr_outputs :: "((string \<times> string) \<times> nat) list"

record 'b RunningGraph =
  rg_spec :: GraphSpec
  rg_policy :: ProcessRuntimePolicy
  rg_stop :: bool
  rg_workers :: "(string \<times> LiveNode) list"
  rg_routes :: RuntimeRoutes
  rg_sinks :: "(string \<times> SinkCollector) list"
  rg_metrics :: "(string \<times> 'b ElementMetrics) list"
  rg_status :: "8 word"
  rg_root_cause :: "string option"

section \<open>Status\<close>

definition set_status :: "GraphStatus \<Rightarrow> 'b RunningGraph \<Rightarrow> 'b RunningGraph" where
  "set_status s rg = rg\<lparr> rg_status := status_code s \<rparr>"

definition set_root_cause :: "graph_error \<Rightarrow> 'b RunningGraph \<Rightarrow> 'b RunningGraph" where
  "set_root_cause e rg =
    (if rg_root_cause rg = None then rg\<lparr> rg_root_cause := Some (display_graph_error e) \<rparr> else rg)"

definition status :: "'b RunningGraph \<Rightarrow> GraphStatus \<times> string option" where
  "status rg = (status_from_u8 (rg_status rg), rg_root_cause rg)"

fun drain_sink_list :: "(string \<times> SinkCollector) list \<Rightarrow> tensor list \<times> (string \<times> SinkCollector) list" where
  "drain_sink_list [] = ([], [])"
| "drain_sink_list ((name, sink) # sinks) =
    (let (tensors, sink') = drain_tensors sink; (more, sinks') = drain_sink_list sinks
     in (tensors @ more, (name, sink') # sinks'))"

definition drain_sinks :: "'b RunningGraph \<Rightarrow> tensor list \<times> 'b RunningGraph" where
  "drain_sinks rg = (let (tensors, sinks) = drain_sink_list (rg_sinks rg) in (tensors, rg\<lparr> rg_sinks := sinks \<rparr>))"

definition stop_node :: "LiveNode \<Rightarrow> LiveNode" where
  "stop_node node = node\<lparr> ln_stop := True \<rparr>"

definition request_stop :: "'b RunningGraph \<Rightarrow> 'b RunningGraph" where
  "request_stop rg =
    (let rg1 = (if status_from_u8 (rg_status rg) \<in> {Starting, Running, Reloading} then set_status Draining rg else rg)
     in rg1\<lparr> rg_stop := True, rg_workers := map (\<lambda>(name, node). (name, stop_node node)) (rg_workers rg1) \<rparr>)"

section \<open>Joining workers\<close>

text \<open>\<open>ErrorScope\<close> derives its order from the order of its variants.\<close>

fun scope_rank :: "ErrorScope \<Rightarrow> nat" where
  "scope_rank FrameLocal = 0"
| "scope_rank StreamLocal = 1"
| "scope_rank NodeFatal = 2"
| "scope_rank GraphFatal = 3"

instantiation ErrorScope :: linorder
begin

definition less_eq_ErrorScope :: "ErrorScope \<Rightarrow> ErrorScope \<Rightarrow> bool" where
  "less_eq_ErrorScope a b \<longleftrightarrow> scope_rank a \<le> scope_rank b"

definition less_ErrorScope :: "ErrorScope \<Rightarrow> ErrorScope \<Rightarrow> bool" where
  "less_ErrorScope a b \<longleftrightarrow> scope_rank a < scope_rank b"

instance
proof
  fix x y :: ErrorScope
  assume "x \<le> y" "y \<le> x"
  then show "x = y" by (cases x; cases y) (simp_all add: less_eq_ErrorScope_def)
qed (auto simp: less_eq_ErrorScope_def less_ErrorScope_def)

end

definition select_error :: "graph_error option \<Rightarrow> graph_error \<Rightarrow> graph_error option" where
  "select_error current candidate =
    (case current of
       Some existing \<Rightarrow> if error_scope existing \<ge> error_scope candidate then Some existing else Some candidate
     | None \<Rightarrow> Some candidate)"

text \<open>What a joined worker adds to the error found so far; \<open>cancelled\<close> says that a cancellation is
  not an error.\<close>

fun absorb_result :: "bool \<Rightarrow> string \<Rightarrow> graph_error option \<Rightarrow> thread_result \<Rightarrow> graph_error option" where
  "absorb_result cancelled name first_error ThreadOk = first_error"
| "absorb_result cancelled name first_error (ThreadErr e) =
    (if cancelled \<and> is_cancellation e then first_error else select_error first_error e)"
| "absorb_result cancelled name first_error ThreadPanic = select_error first_error (GElement name ''worker panicked'')"

text \<open>\<open>join_workers\<close> pops workers from the end; \<open>outcome\<close> is the result a running worker ends with.\<close>

definition join_workers :: "(worker \<Rightarrow> thread_result) \<Rightarrow> bool \<Rightarrow> string \<Rightarrow> worker list \<Rightarrow> unit graph_result" where
  "join_workers outcome cancelled name workers =
    (case fold (\<lambda>w first_error. absorb_result cancelled name first_error
             (case wk_finished w of Some r \<Rightarrow> r | None \<Rightarrow> outcome w)) (rev workers) None of
       None \<Rightarrow> Inr ()
     | Some e \<Rightarrow> Inl e)"

text \<open>\<open>run_element\<close>: what the thread of an element returns, and whether it stops the graph.\<close>

datatype element_run = RunOk | RunErr graph_error | RunPanic "string option"

fun run_element :: "string \<Rightarrow> element_run \<Rightarrow> bool \<Rightarrow> unit graph_result \<times> bool" where
  "run_element name RunOk stop = (Inr (), stop)"
| "run_element name (RunErr e) stop = (Inl e, stop \<or> is_fatal (error_scope e))"
| "run_element name (RunPanic message) stop =
    (Inl (GElement name (case message of Some m \<Rightarrow> m | None \<Rightarrow> ''element worker panicked'')), True)"

section \<open>Polling\<close>

fun poll_workers :: "string \<Rightarrow> worker list \<Rightarrow> graph_error option \<Rightarrow> graph_error option \<times> worker list" where
  "poll_workers name [] first_error = (first_error, [])"
| "poll_workers name (w # ws) first_error =
    (case wk_finished w of
       Some r \<Rightarrow> poll_workers name ws (absorb_result True name first_error r)
     | None \<Rightarrow> (let (e, still_running) = poll_workers name ws first_error in (e, w # still_running)))"

fun poll_nodes :: "(string \<times> LiveNode) list \<Rightarrow> graph_error option \<Rightarrow> graph_error option \<times> (string \<times> LiveNode) list" where
  "poll_nodes [] first_error = (first_error, [])"
| "poll_nodes ((name, node) # nodes) first_error =
    (let (e, ws) = poll_workers name (ln_workers node) first_error; (e', nodes') = poll_nodes nodes e
     in (e', (name, node\<lparr> ln_workers := ws \<rparr>) # nodes'))"

definition poll :: "'b RunningGraph \<Rightarrow> unit graph_result \<times> 'b RunningGraph" where
  "poll rg =
    (if status_from_u8 (rg_status rg) = Failed
     then (Inl (GRuntime (case rg_root_cause rg of Some cause \<Rightarrow> cause | None \<Rightarrow> ''graph failed'')), rg)
     else
       let (first_error, nodes) = poll_nodes (rg_workers rg) None; rg1 = rg\<lparr> rg_workers := nodes \<rparr> in
       case first_error of
         Some e \<Rightarrow> (Inl e, set_status Failed (set_root_cause e rg1))
       | None \<Rightarrow>
          if list_all (\<lambda>(name, node). ln_workers node = []) nodes then (Inr (), set_status Stopped rg1)
          else (Inr (), rg1))"

section \<open>Shutting down\<close>

text \<open>Workers are popped from the end: the list is walked in reverse, and the worker popped has the
  number of those before it as its index.  The result says whether the deadline passed; a worker that
  did not end in time is pushed back.\<close>

fun shutdown_popped ::
  "(string \<Rightarrow> nat \<Rightarrow> thread_result option) \<Rightarrow> string \<Rightarrow> worker list \<Rightarrow> graph_error option \<Rightarrow>
    bool \<times> graph_error option \<times> worker list"
where
  "shutdown_popped ends name [] first_error = (False, first_error, [])"
| "shutdown_popped ends name (w # ws) first_error =
    (case (case wk_finished w of Some r \<Rightarrow> Some r | None \<Rightarrow> ends name (length ws)) of
       None \<Rightarrow> (True, first_error, w # ws)
     | Some r \<Rightarrow> shutdown_popped ends name ws (absorb_result True name first_error r))"

definition shutdown_workers ::
  "(string \<Rightarrow> nat \<Rightarrow> thread_result option) \<Rightarrow> string \<Rightarrow> worker list \<Rightarrow> graph_error option \<Rightarrow>
    bool \<times> graph_error option \<times> worker list"
where
  "shutdown_workers ends name ws first_error =
    (case shutdown_popped ends name (rev ws) first_error of (timeout, e, rest) \<Rightarrow> (timeout, e, rev rest))"

fun shutdown_nodes ::
  "(string \<Rightarrow> nat \<Rightarrow> thread_result option) \<Rightarrow> (string \<times> LiveNode) list \<Rightarrow> graph_error option \<Rightarrow>
    bool \<times> graph_error option \<times> (string \<times> LiveNode) list"
where
  "shutdown_nodes ends [] first_error = (False, first_error, [])"
| "shutdown_nodes ends ((name, node) # nodes) first_error =
    (case shutdown_workers ends name (ln_workers node) first_error of
       (True, e, ws) \<Rightarrow> (True, e, (name, node\<lparr> ln_workers := ws \<rparr>) # nodes)
     | (False, e, ws) \<Rightarrow>
        (case shutdown_nodes ends nodes e of
           (timeout, e', nodes') \<Rightarrow> (timeout, e', (name, node\<lparr> ln_workers := ws \<rparr>) # nodes')))"

text \<open>\<open>deadline_fits\<close> is whether the deadline is representable as an \<open>Instant\<close>.\<close>

definition shutdown :: "bool \<Rightarrow> (string \<Rightarrow> nat \<Rightarrow> thread_result option) \<Rightarrow> 'b RunningGraph \<Rightarrow> unit graph_result \<times> 'b RunningGraph" where
  "shutdown deadline_fits ends rg =
    (let rg1 = request_stop rg in
     if \<not> deadline_fits then (Inl (GTimeout ''shutdown timeout overflowed''), rg1)
     else case shutdown_nodes ends (rg_workers rg1) None of
       (True, _, nodes) \<Rightarrow> (Inl (GTimeout ''shutdown timed out''), rg1\<lparr> rg_workers := nodes \<rparr>)
     | (False, Some e, nodes) \<Rightarrow> (Inl e, set_status Failed (set_root_cause e (rg1\<lparr> rg_workers := nodes \<rparr>)))
     | (False, None, nodes) \<Rightarrow> (Inr (), set_status Stopped (rg1\<lparr> rg_workers := nodes \<rparr>)))"

section \<open>Finishing\<close>

record 'b GraphReport =
  rp_sinks :: "(string \<times> tensor list) list"
  rp_detections :: "(string \<times> Detection list) list"
  rp_classifications :: "(string \<times> Classification list) list"
  rp_faces :: "(string \<times> FaceDetection list) list"
  rp_tracks :: "(string \<times> Track list) list"
  rp_ocr :: "(string \<times> OcrText list) list"
  rp_element_metrics :: "(string \<times> 'b ElementMetrics) list"

definition collect_report :: "(string \<times> SinkCollector) list \<Rightarrow> (string \<times> 'b ElementMetrics) list \<Rightarrow> 'b GraphReport" where
  "collect_report sinks metrics =
    \<lparr> rp_sinks = map (\<lambda>(name, s). (name, sk_tensors s)) sinks,
      rp_detections = map (\<lambda>(name, s). (name, concat (sk_detections s))) sinks,
      rp_classifications = map (\<lambda>(name, s). (name, concat (sk_classifications s))) sinks,
      rp_faces = map (\<lambda>(name, s). (name, concat (sk_faces s))) sinks,
      rp_tracks = map (\<lambda>(name, s). (name, concat (sk_tracks s))) sinks,
      rp_ocr = map (\<lambda>(name, s). (name, concat (sk_ocr s))) sinks,
      rp_element_metrics = metrics \<rparr>"

definition finish :: "(worker \<Rightarrow> thread_result) \<Rightarrow> 'b RunningGraph \<Rightarrow> 'b GraphReport graph_result" where
  "finish outcome rg =
    (case fold (\<lambda>(name, node) first_error.
             case join_workers outcome False name (ln_workers node) of
               Inl e \<Rightarrow> select_error first_error e | Inr _ \<Rightarrow> first_error) (rg_workers rg) None of
       Some e \<Rightarrow> Inl e
     | None \<Rightarrow> Inr (collect_report (rg_sinks rg) (rg_metrics rg)))"

section \<open>The most severe error\<close>

text \<open>The first error among those of the widest scope.\<close>

definition most_severe :: "graph_error list \<Rightarrow> graph_error option" where
  "most_severe es = find (\<lambda>e. \<forall>e' \<in> set es. error_scope e' \<le> error_scope e) es"

lemma find_append: "find P (xs @ ys) = (case find P xs of None \<Rightarrow> find P ys | Some x \<Rightarrow> Some x)"
  by (induction xs) auto

lemma most_severe_snoc:
  "most_severe (es @ [x]) = select_error (most_severe es) x"
proof (cases "most_severe es")
  case None
  have "es = []"
  proof (rule ccontr)
    assume "es \<noteq> []"
    then have "finite (error_scope ` set es)" "error_scope ` set es \<noteq> {}" by auto
    then have "Max (error_scope ` set es) \<in> error_scope ` set es" by (rule Max_in)
    then obtain e where e: "e \<in> set es" "error_scope e = Max (error_scope ` set es)" by (metis imageE)
    then have "\<forall>e' \<in> set es. error_scope e' \<le> error_scope e" by simp
    then show False using None e(1) by (auto simp: most_severe_def find_None_iff)
  qed
  then show ?thesis by (simp add: most_severe_def select_error_def)
next
  case (Some m)
  then obtain i where i: "i < length es" "m = es ! i" "\<forall>e' \<in> set es. error_scope e' \<le> error_scope m"
    "\<forall>j < i. \<not> (\<forall>e' \<in> set es. error_scope e' \<le> error_scope (es ! j))"
    by (auto simp: most_severe_def find_Some_iff)
  let ?P = "\<lambda>e. \<forall>e' \<in> set (es @ [x]). error_scope e' \<le> error_scope e"
  show ?thesis
  proof (cases "error_scope x \<le> error_scope m")
    case True
    have "find ?P (es @ [x]) = Some m"
      unfolding find_Some_iff using i True by (intro exI [of _ i]) (auto simp: nth_append)
    then show ?thesis using Some True by (simp add: most_severe_def select_error_def)
  next
    case False
    have "\<not> ?P e" if "e \<in> set es" for e
    proof
      assume "?P e"
      then have "error_scope x \<le> error_scope e" by simp
      also have "\<dots> \<le> error_scope m" using i(3) that by blast
      finally show False using False by simp
    qed
    then have "find ?P es = None" by (simp add: find_None_iff)
    moreover have "?P x" using i(3) False by (auto intro: order_trans [OF _ less_imp_le])
    ultimately have "find ?P (es @ [x]) = Some x" by (simp add: find_append)
    then show ?thesis using Some False by (simp add: most_severe_def select_error_def)
  qed
qed

lemma fold_select_error: "fold (\<lambda>e acc. select_error acc e) es None = most_severe es"
  by (induction es rule: rev_induct) (simp_all add: most_severe_snoc, simp add: most_severe_def)

section \<open>What polling reports\<close>

lemma status_round_trip [simp]: "status_from_u8 (status_code s) = s"
  by (cases s) (simp_all add: status_from_u8_def)

lemma status_set_status [simp]: "status_from_u8 (rg_status (set_status s rg)) = s"
  by (simp add: set_status_def)

lemma set_status_fields [simp]:
  "rg_workers (set_status s rg) = rg_workers rg" "rg_root_cause (set_status s rg) = rg_root_cause rg"
  "rg_workers (set_root_cause e rg) = rg_workers rg" "rg_status (set_root_cause e rg) = rg_status rg"
  by (simp_all add: set_status_def set_root_cause_def)

text \<open>The error a worker's result stands for when a cancellation is not one.\<close>

fun result_errors :: "string \<Rightarrow> thread_result \<Rightarrow> graph_error list" where
  "result_errors name ThreadOk = []"
| "result_errors name (ThreadErr e) = (if is_cancellation e then [] else [e])"
| "result_errors name ThreadPanic = [GElement name ''worker panicked'']"

definition finished_errors :: "string \<Rightarrow> worker list \<Rightarrow> graph_error list" where
  "finished_errors name ws = concat (map (\<lambda>w. case wk_finished w of None \<Rightarrow> [] | Some r \<Rightarrow> result_errors name r) ws)"

definition reported_errors :: "'b RunningGraph \<Rightarrow> graph_error list" where
  "reported_errors rg = concat (map (\<lambda>(name, node). finished_errors name (ln_workers node)) (rg_workers rg))"

abbreviation select_all :: "graph_error list \<Rightarrow> graph_error option \<Rightarrow> graph_error option" where
  "select_all es acc \<equiv> fold (\<lambda>e acc. select_error acc e) es acc"

lemma absorb_result_errors: "absorb_result True name acc r = select_all (result_errors name r) acc"
  by (cases r) auto

lemma poll_workers_eq:
  "poll_workers name ws acc = (select_all (finished_errors name ws) acc, filter (\<lambda>w. wk_finished w = None) ws)"
  by (induction ws arbitrary: acc) (auto simp: finished_errors_def absorb_result_errors split: option.splits)

lemma poll_nodes_eq:
  "poll_nodes nodes acc =
    (select_all (concat (map (\<lambda>(name, node). finished_errors name (ln_workers node)) nodes)) acc,
     map (\<lambda>(name, node). (name, node\<lparr> ln_workers := filter (\<lambda>w. wk_finished w = None) (ln_workers node) \<rparr>)) nodes)"
  by (induction nodes arbitrary: acc) (auto simp: poll_workers_eq split: prod.splits)

definition all_finished :: "'b RunningGraph \<Rightarrow> bool" where
  "all_finished rg \<longleftrightarrow> list_all (\<lambda>(name, node). list_all (\<lambda>w. wk_finished w \<noteq> None) (ln_workers node)) (rg_workers rg)"

definition no_workers :: "'b RunningGraph \<Rightarrow> bool" where
  "no_workers rg \<longleftrightarrow> list_all (\<lambda>(name, node). ln_workers node = []) (rg_workers rg)"

lemma poll_cases:
  assumes "status_from_u8 (rg_status rg) \<noteq> Failed" and "poll rg = (r, rg')"
  shows "r = (case most_severe (reported_errors rg) of None \<Rightarrow> Inr () | Some e \<Rightarrow> Inl e)"
    and "status_from_u8 (rg_status rg') =
      (if most_severe (reported_errors rg) \<noteq> None then Failed
       else if all_finished rg then Stopped else status_from_u8 (rg_status rg))"
    and "most_severe (reported_errors rg) = Some e \<Longrightarrow>
      rg_root_cause rg' = Some (case rg_root_cause rg of None \<Rightarrow> display_graph_error e | Some c \<Rightarrow> c)"
    and "most_severe (reported_errors rg) = None \<Longrightarrow> rg_root_cause rg' = rg_root_cause rg"
    and "all_finished rg \<Longrightarrow> no_workers rg'"
proof -
  define nodes where "nodes = map (\<lambda>(name, node). (name, node\<lparr> ln_workers := filter (\<lambda>w. wk_finished w = None) (ln_workers node) \<rparr>)) (rg_workers rg)"
  have pn: "poll_nodes (rg_workers rg) None = (most_severe (reported_errors rg), nodes)"
    by (simp add: poll_nodes_eq nodes_def reported_errors_def fold_select_error)
  have empty: "list_all (\<lambda>(name, node). ln_workers node = []) nodes \<longleftrightarrow> all_finished rg"
    by (auto simp: nodes_def all_finished_def list_all_iff filter_empty_conv split_beta)
  note p = assms(2) [unfolded poll_def, simplified assms(1) pn Let_def if_False prod.case, symmetric]
  show "r = (case most_severe (reported_errors rg) of None \<Rightarrow> Inr () | Some e \<Rightarrow> Inl e)"
    using p by (simp split: option.splits if_splits)
  show "status_from_u8 (rg_status rg') = (if most_severe (reported_errors rg) \<noteq> None then Failed
       else if all_finished rg then Stopped else status_from_u8 (rg_status rg))"
    using p empty by (simp split: option.splits if_splits)
  show "most_severe (reported_errors rg) = Some e \<Longrightarrow>
      rg_root_cause rg' = Some (case rg_root_cause rg of None \<Rightarrow> display_graph_error e | Some c \<Rightarrow> c)"
    using p by (auto simp: set_root_cause_def split: option.splits if_splits)
  show "most_severe (reported_errors rg) = None \<Longrightarrow> rg_root_cause rg' = rg_root_cause rg"
    using p by (simp split: option.splits if_splits)
  have "rg_workers rg' = nodes" using p by (simp split: option.splits if_splits)
  then show "all_finished rg \<Longrightarrow> no_workers rg'" using empty by (simp add: no_workers_def)
qed

text \<open>C28. Polling a graph that has not failed yet reports the most severe failure: the result is the first error of the widest scope among
  the finished workers, cancellations aside, and it fails the graph; without one, a graph whose
  workers have all finished becomes stopped, so polling settles every such graph whose workers have
  ended.\<close>

theorem poll_settles:
  assumes "fst (status rg) \<noteq> Failed" and "poll rg = (r, rg')"
  shows "r = (case most_severe (reported_errors rg) of None \<Rightarrow> Inr () | Some e \<Rightarrow> Inl e) \<and>
    (r = Inr () \<longrightarrow> fst (status rg') = (if all_finished rg then Stopped else fst (status rg))) \<and>
    (r \<noteq> Inr () \<longrightarrow> fst (status rg') = Failed \<and> snd (status rg') \<noteq> None) \<and>
    (all_finished rg \<longrightarrow> fst (status rg') \<in> {Stopped, Failed} \<and> no_workers rg')"
proof -
  have nf: "status_from_u8 (rg_status rg) \<noteq> Failed" using assms(1) by (simp add: status_def)
  note facts = poll_cases [OF nf assms(2)]
  show ?thesis
    by (cases "most_severe (reported_errors rg)") (auto simp: status_def facts)
qed

definition sample_worker :: "thread_result option \<Rightarrow> worker" where
  "sample_worker r = \<lparr> wk_inputs = [], wk_outputs = [], wk_finished = r \<rparr>"

definition sample_running :: "(string \<times> LiveNode) list \<Rightarrow> unit RunningGraph" where
  "sample_running workers = \<lparr> rg_spec = graph_spec_default, rg_policy = process_policy_default, rg_stop = False,
    rg_workers = workers, rg_routes = \<lparr> rr_edges = [], rr_inputs = [], rr_outputs = [] \<rparr>, rg_sinks = [], rg_metrics = [],
    rg_status = status_code Running, rg_root_cause = None \<rparr>"

theorem poll_settles_witness:
  "fst (poll (sample_running [(''a'', \<lparr> ln_stop = False, ln_workers = [sample_worker (Some (ThreadErr GNotRunning)), sample_worker (Some ThreadPanic)] \<rparr>)]))
    = Inl (GElement ''a'' ''worker panicked'')"
proof -
  let ?rg = "sample_running [(''a'', \<lparr> ln_stop = False, ln_workers = [sample_worker (Some (ThreadErr GNotRunning)), sample_worker (Some ThreadPanic)] \<rparr>)]"
  obtain r rg' where p: "poll ?rg = (r, rg')" by fastforce
  have "fst (status ?rg) \<noteq> Failed" by (simp add: status_def sample_running_def status_from_u8_def)
  from poll_settles [OF this p] have "r = (case most_severe (reported_errors ?rg) of None \<Rightarrow> Inr () | Some e \<Rightarrow> Inl e)" by blast
  moreover have "reported_errors ?rg = [GElement ''a'' ''worker panicked'']"
    by (simp add: reported_errors_def sample_running_def finished_errors_def sample_worker_def)
  ultimately show ?thesis using p by (simp add: most_severe_def)
qed

section \<open>The life of a graph\<close>

text \<open>The steps of a running graph: a worker of some node ends, and the owner polls, drains, asks to stop
  or shuts down.  A worker that fails fatally sets the stop flag.\<close>

definition end_worker :: "nat \<Rightarrow> nat \<Rightarrow> thread_result \<Rightarrow> 'b RunningGraph \<Rightarrow> 'b RunningGraph" where
  "end_worker n i r rg =
    (let (name, node) = rg_workers rg ! n in
     rg\<lparr> rg_workers := (rg_workers rg)[n := (name, node\<lparr> ln_workers := (ln_workers node)[i := (ln_workers node ! i)\<lparr> wk_finished := Some r \<rparr>] \<rparr>)],
         rg_stop := rg_stop rg \<or> (case r of ThreadOk \<Rightarrow> False | ThreadErr e \<Rightarrow> is_fatal (error_scope e) | ThreadPanic \<Rightarrow> True) \<rparr>)"

inductive life_step :: "'b RunningGraph \<Rightarrow> 'b RunningGraph \<Rightarrow> bool" where
  worker_ends: "n < length (rg_workers rg) \<Longrightarrow> i < length (ln_workers (snd (rg_workers rg ! n))) \<Longrightarrow>
    wk_finished (ln_workers (snd (rg_workers rg ! n)) ! i) = None \<Longrightarrow> life_step rg (end_worker n i r rg)"
| polls: "poll rg = (result, rg') \<Longrightarrow> life_step rg rg'"
| drains: "drain_sinks rg = (tensors, rg') \<Longrightarrow> life_step rg rg'"
| asks_stop: "life_step rg (request_stop rg)"
| shuts_down: "shutdown fits ends rg = (result, rg') \<Longrightarrow> life_step rg rg'"

definition life_inv :: "'b RunningGraph \<Rightarrow> bool" where
  "life_inv rg \<longleftrightarrow>
    (status_from_u8 (rg_status rg) = Failed \<longrightarrow> rg_root_cause rg \<noteq> None) \<and>
    (status_from_u8 (rg_status rg) = Stopped \<longrightarrow> no_workers rg) \<and>
    status_from_u8 (rg_status rg) \<noteq> Reloading"

text \<open>What never changes back: a recorded root cause, and the end of the workers.\<close>

definition keeps :: "'b RunningGraph \<Rightarrow> 'b RunningGraph \<Rightarrow> bool" where
  "keeps rg rg' \<longleftrightarrow> (rg_root_cause rg \<noteq> None \<longrightarrow> rg_root_cause rg' = rg_root_cause rg) \<and> (no_workers rg \<longrightarrow> no_workers rg')"

lemma shutdown_popped_ends: "shutdown_popped ends name ws acc = (False, e, rest) \<Longrightarrow> rest = []"
  by (induction ws arbitrary: acc) (auto split: option.splits)

lemma shutdown_popped_none: "shutdown_popped ends name [] acc = (False, acc, [])" by simp

lemma shutdown_nodes_ends:
  "shutdown_nodes ends nodes acc = (False, e, nodes') \<Longrightarrow> list_all (\<lambda>(name, node). ln_workers node = []) nodes'"
proof (induction nodes arbitrary: acc e nodes')
  case (Cons nn nodes)
  obtain name node where nn: "nn = (name, node)" by fastforce
  obtain t e1 ws where sw: "shutdown_workers ends name (ln_workers node) acc = (t, e1, ws)" by (rule prod_cases3)
  have t: "\<not> t" using Cons.prems sw nn by (cases t) simp_all
  then have ws: "ws = []" using sw shutdown_popped_ends by (fastforce simp: shutdown_workers_def split: prod.splits)
  obtain t2 e2 ns where sn: "shutdown_nodes ends nodes e1 = (t2, e2, ns)" by (rule prod_cases3)
  have eqs: "\<not> t2" "nodes' = (name, node\<lparr> ln_workers := ws \<rparr>) # ns" using Cons.prems sw sn t nn by simp_all
  then have "list_all (\<lambda>(name, node). ln_workers node = []) ns" using Cons.IH sn by (cases t2) auto
  then show ?case using eqs ws by simp
qed simp

lemma shutdown_nodes_none:
  "list_all (\<lambda>(name, node). ln_workers node = []) nodes \<Longrightarrow> shutdown_nodes ends nodes acc = (False, acc, nodes)"
  by (induction nodes arbitrary: acc) (auto simp: shutdown_workers_def)

lemma request_stop_facts:
  "rg_root_cause (request_stop rg) = rg_root_cause rg" "no_workers (request_stop rg) \<longleftrightarrow> no_workers rg"
  "status_from_u8 (rg_status (request_stop rg)) =
    (if status_from_u8 (rg_status rg) \<in> {Starting, Running, Reloading} then Draining else status_from_u8 (rg_status rg))"
  by (auto simp: request_stop_def Let_def no_workers_def stop_node_def list_all_iff)

lemma poll_step:
  assumes "poll rg = (result, rg')" and "life_inv rg"
  shows "life_inv rg'" and "keeps rg rg'"
proof -
  have "life_inv rg' \<and> keeps rg rg'"
  proof (cases "status_from_u8 (rg_status rg) = Failed")
    case True
    then show ?thesis using assms by (simp add: poll_def keeps_def)
  next
    case False
    note facts = poll_cases [OF False assms(1)]
    have "no_workers rg \<Longrightarrow> all_finished rg" by (auto simp: no_workers_def all_finished_def list_all_iff)
    moreover have "status_from_u8 (rg_status rg) = Stopped \<Longrightarrow> all_finished rg"
      using assms(2) by (auto simp: life_inv_def no_workers_def all_finished_def list_all_iff)
    ultimately show ?thesis
      using facts assms(2) by (cases "most_severe (reported_errors rg)") (auto simp: life_inv_def keeps_def)
  qed
  then show "life_inv rg'" and "keeps rg rg'" by blast+
qed

lemma shutdown_step:
  assumes "shutdown fits ends rg = (result, rg')" and "life_inv rg"
  shows "life_inv rg'" and "keeps rg rg'"
proof -
  let ?rg1 = "request_stop rg"
  obtain t e nodes where sn: "shutdown_nodes ends (rg_workers ?rg1) None = (t, e, nodes)" by (rule prod_cases3)
  have inv1: "life_inv ?rg1" and keep1: "rg_root_cause ?rg1 = rg_root_cause rg" "no_workers ?rg1 = no_workers rg"
    using assms(2) by (auto simp: life_inv_def request_stop_facts)
  have idle: "(t, e, nodes) = (False, None, rg_workers ?rg1)" if "no_workers rg"
    using that keep1(2) sn shutdown_nodes_none [of "rg_workers ?rg1" ends None] by (simp add: no_workers_def)
  have joined: "list_all (\<lambda>(name, node). ln_workers node = []) nodes" if "\<not> t" using that sn shutdown_nodes_ends by (cases t) auto
  consider (overflow) "\<not> fits" "rg' = ?rg1" | (late) fits t "rg' = ?rg1\<lparr> rg_workers := nodes \<rparr>"
    | (failed) err where fits "\<not> t" "e = Some err" "rg' = set_status Failed (set_root_cause err (?rg1\<lparr> rg_workers := nodes \<rparr>))"
    | (stopped) fits "\<not> t" "e = None" "rg' = set_status Stopped (?rg1\<lparr> rg_workers := nodes \<rparr>)"
    using assms(1) sn by (cases fits; cases t; cases e) (auto simp: shutdown_def Let_def)
  then have "life_inv rg' \<and> keeps rg rg'"
  proof cases
    case overflow
    then show ?thesis using inv1 keep1 by (simp add: keeps_def)
  next
    case late
    then have "\<not> no_workers rg" using idle by auto
    then show ?thesis using inv1 keep1 late by (auto simp: life_inv_def keeps_def)
  next
    case failed
    then show ?thesis using keep1 joined by (auto simp: life_inv_def keeps_def no_workers_def set_root_cause_def)
  next
    case stopped
    then show ?thesis using keep1 joined by (auto simp: life_inv_def keeps_def no_workers_def)
  qed
  then show "life_inv rg'" and "keeps rg rg'" by blast+
qed

lemma life_step_inv: "life_step rg rg' \<Longrightarrow> life_inv rg \<Longrightarrow> life_inv rg' \<and> keeps rg rg'"
proof (induction rule: life_step.induct)
  case (worker_ends n rg i r)
  have "\<not> no_workers rg"
    using worker_ends(1,2) by (auto simp: no_workers_def list_all_length split_beta)
  then show ?case using worker_ends(4) by (simp add: life_inv_def keeps_def end_worker_def Let_def split_beta)
next
  case (drains rg tensors rg')
  then show ?case by (auto simp: drain_sinks_def life_inv_def keeps_def no_workers_def Let_def split: prod.splits)
next
  case (asks_stop rg)
  then show ?case by (auto simp: life_inv_def keeps_def request_stop_facts)
qed (blast intro: poll_step shutdown_step)+

interpretation life: step_system life_step life_inv keeps
proof unfold_locales
  show "keeps rg rg''" if "keeps rg rg'" "keeps rg' rg''" for rg rg' rg'' :: "'b RunningGraph" using that by (auto simp: keeps_def)
qed (use life_step_inv in \<open>auto simp: keeps_def\<close>)

text \<open>C7. Over the life of a graph, whatever its workers do and however its owner polls, drains, stops and
  shuts down: a failed graph always names a root cause, a stopped graph has no worker left, the
  first root cause is never replaced, and joined workers do not come back.\<close>

theorem lifecycle_safe:
  assumes "fst (status start) = Running" and "life_step\<^sup>*\<^sup>* start rg" and "life_step\<^sup>*\<^sup>* rg rg'"
  shows "(fst (status rg) = Failed \<longrightarrow> snd (status rg) \<noteq> None) \<and> (fst (status rg) = Stopped \<longrightarrow> no_workers rg) \<and>
    (snd (status rg) \<noteq> None \<longrightarrow> snd (status rg') = snd (status rg)) \<and> (no_workers rg \<longrightarrow> no_workers rg')"
proof -
  have "life_inv start" using assms(1) by (simp add: life_inv_def status_def)
  then have "life_inv rg" using life.reachable [OF assms(2)] by blast
  moreover from this have "keeps rg rg'" using life.reachable [OF assms(3)] by blast
  ultimately show ?thesis by (simp add: life_inv_def keeps_def status_def)
qed

theorem lifecycle_safe_witness:
  "snd (status (snd (poll (sample_running [(''a'', \<lparr> ln_stop = False, ln_workers = [sample_worker (Some ThreadPanic)] \<rparr>)])))) \<noteq> None"
proof -
  let ?rg = "sample_running [(''a'', \<lparr> ln_stop = False, ln_workers = [sample_worker (Some ThreadPanic)] \<rparr>)]"
  have start: "fst (status ?rg) = Running" by (simp add: status_def sample_running_def status_from_u8_def)
  have step: "life_step\<^sup>*\<^sup>* ?rg (snd (poll ?rg))" by (metis life_step.polls prod.collapse r_into_rtranclp)
  have "fst (status (snd (poll ?rg))) = Failed"
    by (simp add: poll_def sample_running_def sample_worker_def select_error_def status_def Let_def set_status_def
        set_root_cause_def status_from_u8_def)
  with lifecycle_safe [OF start step rtranclp.rtrancl_refl] show ?thesis by blast
qed

text \<open>A shutdown that times out forgets the failures it has seen: the errors of the workers joined before
  the time-out are dropped, so the retry the documentation invites reports success and the graph
  ends as stopped without a root cause, though a worker failed.\<close>

lemma shutdown_retry_forgets_failure:
  "let rg = sample_running [(''a'', \<lparr> ln_stop = False, ln_workers = [sample_worker (Some (ThreadErr (GInvariant ''broken'')))] \<rparr>),
                           (''b'', \<lparr> ln_stop = False, ln_workers = [sample_worker None] \<rparr>)];
       (first, rg1) = shutdown True (\<lambda>_ _. None) rg;
       (second, rg2) = shutdown True (\<lambda>_ _. Some ThreadOk) rg1
   in reported_errors rg = [GInvariant ''broken''] \<and> first = Inl (GTimeout ''shutdown timed out'') \<and>
      second = Inr () \<and> status rg2 = (Stopped, None)"
  by (simp add: sample_running_def sample_worker_def shutdown_def request_stop_def shutdown_workers_def select_error_def
      stop_node_def set_status_def status_def status_from_u8_def reported_errors_def finished_errors_def Let_def)

end
