(* ===== verification/HotUpdate.thy ===== *)
theory HotUpdate
  imports Lifecycle "HOL-Library.Product_Lexorder"
begin

text \<open>
  Building the routes of a graph and updating a running graph, from \<open>dg-graph/src/engine.rs\<close> and
  \<open>fault.rs\<close>.  Pipes and sender tables are addresses handed out by a heap; a table holds the pipes
  its port sends to.  Creating an element, the end of a thread and the success of spawning one
  are parameters, collected in \<open>engine_env\<close>; so is the outcome of moving the packets of the replaced
  pipes, which depends on what they hold and on time.
\<close>

section \<open>Parameters and heap\<close>

datatype ElementHandle = NoHandle | InputHandle "tensor list" | SinkHandle SinkCollector

record engine_env =
  ee_graph :: graph_env
  ee_create :: "NodeSpec \<Rightarrow> nat \<Rightarrow> ElementHandle graph_result"
  ee_outcome :: "worker \<Rightarrow> thread_result"
  ee_spawn :: "string \<Rightarrow> nat \<Rightarrow> string option"
  ee_drain :: "(nat \<times> nat \<times> bool) list \<Rightarrow> bool \<Rightarrow> unit graph_result"

record route_heap =
  rh_tables :: "nat \<Rightarrow> nat list"
  rh_next_table :: nat
  rh_capacity :: "nat \<Rightarrow> usize option"
  rh_next_pipe :: nat

definition new_pipe :: "ExecutionSpec \<Rightarrow> route_heap \<Rightarrow> nat \<times> route_heap" where
  "new_pipe ex h =
    (let capacity = (case ex_parallel ex of Pipeline \<Rightarrow> Some (ex_queue_capacity ex) | Sequential \<Rightarrow> None | Task \<Rightarrow> None)
     in (rh_next_pipe h, h\<lparr> rh_capacity := (rh_capacity h)(rh_next_pipe h := capacity), rh_next_pipe := Suc (rh_next_pipe h) \<rparr>))"

section \<open>Fault injection\<close>

datatype HotUpdateFaultPoint = AfterPrepare | AfterQuiesce | AfterSwitch | DrainTimeout

fun debug_fault_point :: "HotUpdateFaultPoint \<Rightarrow> string" where
  "debug_fault_point AfterPrepare = ''AfterPrepare''"
| "debug_fault_point AfterQuiesce = ''AfterQuiesce''"
| "debug_fault_point AfterSwitch = ''AfterSwitch''"
| "debug_fault_point DrainTimeout = ''DrainTimeout''"

definition fault_take :: "HotUpdateFaultPoint \<Rightarrow> HotUpdateFaultPoint option \<Rightarrow> bool \<times> HotUpdateFaultPoint option" where
  "fault_take point armed = (if armed = Some point then (True, None) else (False, armed))"

definition fault_error :: "HotUpdateFaultPoint \<Rightarrow> graph_error" where
  "fault_error point = GRuntime (''injected hot-update fault at '' @ debug_fault_point point)"

section \<open>Preparing nodes\<close>

definition single_instance_error :: "NodeSpec \<Rightarrow> graph_error" where
  "single_instance_error node = GConfig (''node '' @ nd_name node @
    '' cannot be multi-instanced because source elements and elements with special handles are single-instance'')"

text \<open>The further instances of a node, from index \<open>i\<close> on.\<close>

fun create_instances :: "engine_env \<Rightarrow> NodeSpec \<Rightarrow> nat \<Rightarrow> nat \<Rightarrow> unit graph_result" where
  "create_instances env node i 0 = Inr ()"
| "create_instances env node i (Suc n) =
    and_then (ee_create env node i) (\<lambda>handle.
    and_then (fail_if (nd_kind node = ''source'' \<or> handle \<noteq> NoHandle) (single_instance_error node)) (\<lambda>_.
    create_instances env node (Suc i) n))"

text \<open>\<open>PreparedNode::new\<close>: the handle and the number of element instances.\<close>

definition prepare_node :: "engine_env \<Rightarrow> NodeSpec \<Rightarrow> (ElementHandle \<times> nat) graph_result" where
  "prepare_node env node =
    (let threads = unwrap_or (nd_threads node) 1 in
     and_then (fail_if (\<not> ge_alloc (ee_graph env) threads)
       (GConfig (''failed to allocate '' @ show_nat threads @ '' element instances for node '' @ nd_name node))) (\<lambda>_.
     and_then (ee_create env node 0) (\<lambda>handle.
     and_then (fail_if (threads > 1 \<and> (nd_kind node = ''source'' \<or> handle \<noteq> NoHandle)) (single_instance_error node)) (\<lambda>_.
     and_then (create_instances env node 1 (threads - 1)) (\<lambda>_.
     Inr (handle, max 1 threads))))))"

section \<open>Routes\<close>

text \<open>The receivers by input port and the senders by output port, collected connection by connection.\<close>

definition add_input :: "ConnectionSpec \<Rightarrow> EdgeRoute \<Rightarrow> ((string \<times> string) \<times> nat) list \<Rightarrow> ((string \<times> string) \<times> nat) list" where
  "add_input p r inputs = bt_insert (cn_to_node p, cn_to_port p) (er_receiver r) inputs"

definition add_sender :: "ConnectionSpec \<Rightarrow> EdgeRoute \<Rightarrow> ((string \<times> string) \<times> nat list) list \<Rightarrow> ((string \<times> string) \<times> nat list) list" where
  "add_sender p r senders =
    (let key = (cn_from_node p, cn_from_port p)
     in bt_insert key (unwrap_or (map_of senders key) [] @ [er_sender r]) senders)"

fun route_maps ::
  "(string \<times> EdgeRoute) list \<Rightarrow> string list \<Rightarrow> ((string \<times> string) \<times> nat) list \<Rightarrow> ((string \<times> string) \<times> nat list) list \<Rightarrow>
    (((string \<times> string) \<times> nat) list \<times> ((string \<times> string) \<times> nat list) list) graph_result"
where
  "route_maps edges [] inputs senders = Inr (inputs, senders)"
| "route_maps edges (c # cs) inputs senders =
    and_then (connection_parse c) (\<lambda>p.
    and_then (ok_or (map_of edges c) (GRuntime (''missing route for connection '' @ c))) (\<lambda>r.
    route_maps edges cs (add_input p r inputs) (add_sender p r senders)))"

text \<open>Each output port keeps its table if it has one; the table is overwritten in place.\<close>

fun update_tables ::
  "((string \<times> string) \<times> nat) list \<Rightarrow> ((string \<times> string) \<times> nat list) list \<Rightarrow> route_heap \<Rightarrow>
    ((string \<times> string) \<times> nat) list \<times> route_heap"
where
  "update_tables old [] h = ([], h)"
| "update_tables old ((key, senders) # rest) h =
    (let (t, h1) = (case map_of old key of
           Some t \<Rightarrow> (t, h)
         | None \<Rightarrow> (rh_next_table h, h\<lparr> rh_next_table := Suc (rh_next_table h) \<rparr>));
         (outs, h2) = update_tables old rest (h1\<lparr> rh_tables := (rh_tables h1)(t := senders) \<rparr>)
     in ((key, t) # outs, h2))"

text \<open>The edges of the updated graph: an edge into a node that stays keeps its route; any other gets a new
  pipe, and its old receiver, if it had one, is to be drained into it.  The old edges are removed as
  they are visited.\<close>

fun switch_edges ::
  "string list \<Rightarrow> ExecutionSpec \<Rightarrow> string list \<Rightarrow> (string \<times> EdgeRoute) list \<Rightarrow> (string \<times> EdgeRoute) list \<Rightarrow>
    (nat \<times> nat \<times> bool) list \<Rightarrow> route_heap \<Rightarrow>
    ((string \<times> EdgeRoute) list \<times> (nat \<times> nat \<times> bool) list) graph_result \<times> (string \<times> EdgeRoute) list \<times> route_heap"
where
  "switch_edges affected ex [] old next drains h = (Inr (next, drains), old, h)"
| "switch_edges affected ex (c # cs) old next drains h =
    (case connection_parse c of
       Inl e \<Rightarrow> (Inl e, old, h)
     | Inr p \<Rightarrow>
        let old_route = map_of old c; old' = bt_remove c old in
        if cn_to_node p \<notin> set affected
        then case old_route of
               None \<Rightarrow> (Inl (GRuntime (''missing route for connection '' @ c)), old', h)
             | Some r \<Rightarrow> switch_edges affected ex cs old' (bt_insert c r next) drains h
        else
          let (pipe, h1) = new_pipe ex h;
              drains' = (case old_route of
                  None \<Rightarrow> drains
                | Some r \<Rightarrow> drains @ [(er_receiver r, pipe, cn_from_node p \<notin> set affected)])
          in switch_edges affected ex cs old' (bt_insert c \<lparr> er_sender = pipe, er_receiver = pipe \<rparr> next) drains' h1)"

section \<open>Spawning\<close>

text \<open>The routes an element instance is given.\<close>

fun node_routes ::
  "RuntimeRoutes \<Rightarrow> string \<Rightarrow> string list \<Rightarrow> (string \<times> nat) list \<Rightarrow> (string \<times> nat) list \<Rightarrow>
    ((string \<times> nat) list \<times> (string \<times> nat) list) graph_result"
where
  "node_routes routes name [] ins outs = Inr (ins, outs)"
| "node_routes routes name (c # cs) ins outs =
    and_then (connection_parse c) (\<lambda>p.
    and_then (if cn_to_node p = name
              then map_sum id (\<lambda>r. bt_insert (cn_to_port p) r ins)
                (ok_or (map_of (rr_inputs routes) (name, cn_to_port p)) (GRuntime ''missing input route''))
              else Inr ins) (\<lambda>ins'.
    and_then (if cn_from_node p = name
              then map_sum id (\<lambda>r. bt_insert (cn_from_port p) r outs)
                (ok_or (map_of (rr_outputs routes) (name, cn_from_port p)) (GRuntime ''missing output route''))
              else Inr outs) (\<lambda>outs'.
    node_routes routes name cs ins' outs')))"

text \<open>The first instance of a node that cannot be spawned, if any.\<close>

definition spawn_failure :: "engine_env \<Rightarrow> string \<Rightarrow> nat \<Rightarrow> string option" where
  "spawn_failure env name n = find_map (ee_spawn env name) [0..<n]"

definition abort_spawns :: "'b RunningGraph \<Rightarrow> 'b RunningGraph" where
  "abort_spawns rg = rg\<lparr> rg_stop := True,
    rg_workers := map (\<lambda>(name, node). (name, node\<lparr> ln_stop := True, ln_workers := [] \<rparr>)) (rg_workers rg) \<rparr>"

text \<open>One node of \<open>spawn_hot_update_workers\<close> or \<open>respawn_nodes_from_spec\<close>.\<close>

definition spawn_node ::
  "engine_env \<Rightarrow> resource_policy \<Rightarrow> string list \<Rightarrow> 'b ElementMetrics \<Rightarrow> string \<Rightarrow> ElementHandle \<times> nat \<Rightarrow>
    'b RunningGraph \<Rightarrow> unit graph_result \<times> 'b RunningGraph"
where
  "spawn_node env effective connections metrics name prepared rg =
    (case prepared of (handle, n) \<Rightarrow>
     case node_routes (rg_routes rg) name connections [] [] of
       Inl e \<Rightarrow> (Inl e, rg)
     | Inr (ins, outs) \<Rightarrow>
        if \<not> ge_alloc (ee_graph env) n
        then (Inl (GConfig (''failed to allocate worker handle vector for node '' @ name @ '' elements'')), rg)
        else case spawn_failure env name n of
          Some err \<Rightarrow> (Inl (GRuntime (''failed to spawn worker for node '' @ name @ '': '' @ err)), abort_spawns rg)
        | None \<Rightarrow>
           let w = \<lparr> wk_inputs = ins, wk_outputs = outs, wk_finished = None \<rparr>;
               rg1 = rg\<lparr> rg_workers := bt_insert name \<lparr> ln_stop = False, ln_workers = replicate n w \<rparr> (rg_workers rg),
                          rg_metrics := bt_insert name metrics (rg_metrics rg) \<rparr>
           in (Inr (), case handle of
                 SinkHandle collector \<Rightarrow>
                   rg1\<lparr> rg_sinks := bt_insert name (set_budget (max_buffer_packets effective) (max_buffer_bytes effective) collector) (rg_sinks rg1) \<rparr>
               | _ \<Rightarrow> rg1))"

text \<open>\<open>spawn_hot_update_workers\<close> over the nodes of the candidate.\<close>

fun spawn_hot_update_workers ::
  "engine_env \<Rightarrow> resource_policy \<Rightarrow> string list \<Rightarrow> (string \<times> ElementHandle \<times> nat) list \<Rightarrow> NodeSpec list \<Rightarrow>
    'b RunningGraph \<Rightarrow> unit graph_result \<times> 'b RunningGraph"
where
  "spawn_hot_update_workers env effective connections prepared [] rg = (Inr (), rg)"
| "spawn_hot_update_workers env effective connections prepared (node # nodes) rg =
    (case map_of prepared (nd_name node) of
       None \<Rightarrow> spawn_hot_update_workers env effective connections prepared nodes rg
     | Some pn \<Rightarrow>
        (case spawn_node env effective connections (record_state_reset metrics_default) (nd_name node) pn rg of
           (Inl e, rg') \<Rightarrow> (Inl e, rg')
         | (Inr _, rg') \<Rightarrow> spawn_hot_update_workers env effective connections (bt_remove (nd_name node) prepared) nodes rg'))"

fun respawn_nodes :: "engine_env \<Rightarrow> resource_policy \<Rightarrow> GraphSpec \<Rightarrow> string list \<Rightarrow> 'b RunningGraph \<Rightarrow> unit graph_result \<times> 'b RunningGraph" where
  "respawn_nodes env effective spec [] rg = (Inr (), rg)"
| "respawn_nodes env effective spec (name # names) rg =
    (case find (\<lambda>node. nd_name node = name) (gs_nodes spec) of
       None \<Rightarrow> respawn_nodes env effective spec names rg
     | Some node \<Rightarrow>
        if map_of (rg_workers rg) name \<noteq> None then respawn_nodes env effective spec names rg
        else case prepare_node env node of
          Inl e \<Rightarrow> (Inl e, rg)
        | Inr pn \<Rightarrow>
           (case spawn_node env effective (gs_connections spec) metrics_default name pn rg of
              (Inl e, rg') \<Rightarrow> (Inl e, rg')
            | (Inr _, rg') \<Rightarrow> respawn_nodes env effective spec names rg'))"

definition respawn_nodes_from_spec :: "engine_env \<Rightarrow> GraphSpec \<Rightarrow> string list \<Rightarrow> 'b RunningGraph \<Rightarrow> unit graph_result \<times> 'b RunningGraph" where
  "respawn_nodes_from_spec env spec names rg =
    (case effective_limits (pp_resource (rg_policy rg)) spec of
       Inl e \<Rightarrow> (Inl e, rg)
     | Inr effective \<Rightarrow> respawn_nodes env effective spec names rg)"

section \<open>Updating a running graph\<close>

definition affected_by :: "GraphDiff \<Rightarrow> string list graph_result" where
  "affected_by d =
    and_then (try_map connection_parse (gd_added_connections d @ gd_removed_connections d)) (\<lambda>ps.
    Inr (bt_set (gd_removed_nodes d @ map nd_name (gd_updated_nodes d) @ map nd_name (gd_added_nodes d) @
      concat (map (\<lambda>p. [cn_from_node p, cn_to_node p]) ps))))"

fun prepare_nodes :: "engine_env \<Rightarrow> string list \<Rightarrow> NodeSpec list \<Rightarrow> (string \<times> ElementHandle \<times> nat) list \<Rightarrow>
    (string \<times> ElementHandle \<times> nat) list graph_result"
where
  "prepare_nodes env affected [] prepared = Inr prepared"
| "prepare_nodes env affected (node # nodes) prepared =
    (if nd_name node \<in> set affected
     then and_then (prepare_node env node) (\<lambda>pn. prepare_nodes env affected nodes (bt_insert (nd_name node) pn prepared))
     else prepare_nodes env affected nodes prepared)"

definition stop_affected :: "string list \<Rightarrow> 'b RunningGraph \<Rightarrow> 'b RunningGraph" where
  "stop_affected affected rg = rg\<lparr> rg_workers :=
    map (\<lambda>(name, node). (name, if name \<in> set affected then stop_node node else node)) (rg_workers rg) \<rparr>"

definition forget_node :: "string list \<Rightarrow> string \<Rightarrow> 'b RunningGraph \<Rightarrow> 'b RunningGraph" where
  "forget_node removed name rg =
    (if name \<in> set removed
     then rg\<lparr> rg_metrics := bt_remove name (rg_metrics rg), rg_sinks := bt_remove name (rg_sinks rg) \<rparr>
     else rg)"

text \<open>Joining the affected workers, in order.  When one of them fails, the nodes joined before it are
  spawned again from the previous configuration; the failing node and those after it are not.\<close>

fun quiesce ::
  "engine_env \<Rightarrow> GraphSpec \<Rightarrow> string list \<Rightarrow> string list \<Rightarrow> string list \<Rightarrow> 'b RunningGraph \<Rightarrow>
    string list graph_result \<times> 'b RunningGraph"
where
  "quiesce env previous removed [] joined rg = (Inr joined, rg)"
| "quiesce env previous removed (name # names) joined rg =
    (case map_of (rg_workers rg) name of
       None \<Rightarrow> quiesce env previous removed names joined (forget_node removed name rg)
     | Some node \<Rightarrow>
        let rg1 = rg\<lparr> rg_workers := bt_remove name (rg_workers rg) \<rparr> in
        (case join_workers (ee_outcome env) True name (ln_workers node) of
           Inl e \<Rightarrow>
             (case respawn_nodes_from_spec env previous joined rg1 of
                (Inl re, rg2) \<Rightarrow> (Inl e, set_status Failed (set_root_cause re rg2))
              | (Inr _, rg2) \<Rightarrow> (Inl e, rg2))
         | Inr _ \<Rightarrow> quiesce env previous removed names (joined @ [name]) (forget_node removed name rg1)))"

definition fail_graph :: "graph_error \<Rightarrow> 'b RunningGraph \<Rightarrow> unit graph_result \<times> 'b RunningGraph" where
  "fail_graph e rg = (Inl e, set_status Failed (set_root_cause e rg))"

text \<open>The part of \<open>apply_hot_update_candidate\<close> after the workers are quiet: the routes are switched, the
  replacements spawned, the replaced pipes drained, and the configuration taken over.\<close>

definition switch_routes ::
  "engine_env \<Rightarrow> string list \<Rightarrow> GraphSpec \<Rightarrow> 'b RunningGraph \<times> route_heap \<Rightarrow>
    (nat \<times> nat \<times> bool) list graph_result \<times> 'b RunningGraph \<times> route_heap"
where
  "switch_routes env affected candidate = (\<lambda>(rg, h).
    (case switch_edges affected (gs_execution candidate) (gs_connections candidate) (rr_edges (rg_routes rg)) [] [] h of
       (Inl e, old, h1) \<Rightarrow> (Inl e, rg\<lparr> rg_routes := (rg_routes rg)\<lparr> rr_edges := old \<rparr> \<rparr>, h1)
     | (Inr (edges, drains), old, h1) \<Rightarrow>
        (case route_maps edges (gs_connections candidate) [] [] of
           Inl e \<Rightarrow> (Inl e, rg\<lparr> rg_routes := (rg_routes rg)\<lparr> rr_edges := old \<rparr> \<rparr>, h1)
         | Inr (inputs, senders) \<Rightarrow>
            let (outputs, h2) = update_tables (rr_outputs (rg_routes rg)) senders h1
            in (Inr drains, rg\<lparr> rg_routes := \<lparr> rr_edges = edges, rr_inputs = inputs, rr_outputs = outputs \<rparr> \<rparr>, h2))))"

definition finish_update ::
  "engine_env \<Rightarrow> resource_policy \<Rightarrow> GraphSpec \<Rightarrow> (string \<times> ElementHandle \<times> nat) list \<Rightarrow> (nat \<times> nat \<times> bool) list \<Rightarrow>
    HotUpdateFaultPoint option \<Rightarrow> 'b RunningGraph \<Rightarrow> unit graph_result \<times> 'b RunningGraph"
where
  "finish_update env effective candidate prepared drains armed rg =
    (let (switch_fault, armed1) = fault_take AfterSwitch armed in
     if switch_fault then fail_graph (fault_error AfterSwitch) rg
     else case spawn_hot_update_workers env effective (gs_connections candidate) prepared (gs_nodes candidate) rg of
       (Inl e, rg1) \<Rightarrow> fail_graph e rg1
     | (Inr _, rg1) \<Rightarrow>
        (case ee_drain env drains (fst (fault_take DrainTimeout armed1)) of
           Inl e \<Rightarrow> fail_graph e rg1
         | Inr _ \<Rightarrow> (Inr (), rg1\<lparr> rg_spec := candidate \<rparr>)))"

definition apply_hot_update_candidate ::
  "engine_env \<Rightarrow> HotUpdateFaultPoint option \<Rightarrow> GraphDiff \<Rightarrow> GraphSpec \<Rightarrow> 'b RunningGraph \<times> route_heap \<Rightarrow>
    unit graph_result \<times> 'b RunningGraph \<times> route_heap"
where
  "apply_hot_update_candidate env armed d candidate = (\<lambda>(rg, h).
    (case and_then (effective_limits (pp_resource (rg_policy rg)) candidate) (\<lambda>effective.
          and_then (validate_with_policy (ee_graph env) effective candidate) (\<lambda>_.
          and_then (affected_by d) (\<lambda>affected.
          and_then (prepare_nodes env affected (gs_nodes candidate) []) (\<lambda>prepared.
          and_then (fail_if (fst (fault_take AfterPrepare armed)) (fault_error AfterPrepare)) (\<lambda>_.
          Inr (effective, affected, prepared)))))) of
       Inl e \<Rightarrow> (Inl e, rg, h)
     | Inr (effective, affected, prepared) \<Rightarrow>
        (case quiesce env (rg_spec rg) (gd_removed_nodes d) affected [] (stop_affected affected rg) of
           (Inl e, rg1) \<Rightarrow> (Inl e, rg1, h)
         | (Inr joined, rg1) \<Rightarrow>
            if fst (fault_take AfterQuiesce armed)
            then (case respawn_nodes_from_spec env (rg_spec rg) joined rg1 of
                    (Inl re, rg2) \<Rightarrow>
                      (Inl (GRuntime ''injected hot-update fault at AfterQuiesce; restore failed''), set_status Failed (set_root_cause re rg2), h)
                  | (Inr _, rg2) \<Rightarrow> (Inl (fault_error AfterQuiesce), rg2, h))
            else (case switch_routes env affected candidate (rg1, h) of
                    (Inl e, rg2, h2) \<Rightarrow> (Inl e, rg2, h2)
                  | (Inr drains, rg2, h2) \<Rightarrow>
                     (case finish_update env effective candidate prepared drains armed rg2 of
                        (r, rg3) \<Rightarrow> (r, rg3, h2))))))"

definition config_changed :: "GraphSpec \<Rightarrow> GraphSpec \<Rightarrow> bool" where
  "config_changed old new \<longleftrightarrow> gs_limits old \<noteq> gs_limits new \<or> gs_execution old \<noteq> gs_execution new \<or>
    gs_defaults old \<noteq> gs_defaults new \<or> gs_variables old \<noteq> gs_variables new \<or>
    gs_allow_cycles old \<noteq> gs_allow_cycles new \<or> gs_templates old \<noteq> gs_templates new"

text \<open>The status around an update: \<open>Reloading\<close> during it, and \<open>Running\<close> after it unless it has failed the
  graph.\<close>

definition with_reloading ::
  "('b RunningGraph \<times> route_heap \<Rightarrow> unit graph_result \<times> 'b RunningGraph \<times> route_heap) \<Rightarrow>
    'b RunningGraph \<times> route_heap \<Rightarrow> unit graph_result \<times> 'b RunningGraph \<times> route_heap"
where
  "with_reloading update = (\<lambda>(rg, h).
    (case update (set_status Reloading rg, h) of
       (Inr _, rg1, h1) \<Rightarrow> (Inr (), set_status Running rg1, h1)
     | (Inl e, rg1, h1) \<Rightarrow>
        if fst (status rg1) \<noteq> Failed then (Inl e, set_status Running rg1, h1) else (Inl e, rg1, h1)))"

definition apply_hot_update ::
  "engine_env \<Rightarrow> HotUpdateFaultPoint option \<Rightarrow> GraphDiff \<Rightarrow> 'b RunningGraph \<times> route_heap \<Rightarrow>
    unit graph_result \<times> 'b RunningGraph \<times> route_heap"
where
  "apply_hot_update env armed d = (\<lambda>(rg, h).
    (if diff_is_empty d then (Inr (), rg, h)
     else case merge_for_diff (rg_spec rg) d of
       Inl e \<Rightarrow> (Inl e, rg, h)
     | Inr candidate \<Rightarrow> with_reloading (apply_hot_update_candidate env armed d candidate) (rg, h)))"

definition apply_hot_update_spec ::
  "engine_env \<Rightarrow> HotUpdateFaultPoint option \<Rightarrow> GraphSpec \<Rightarrow> 'b RunningGraph \<times> route_heap \<Rightarrow>
    GraphDiff graph_result \<times> 'b RunningGraph \<times> route_heap"
where
  "apply_hot_update_spec env armed new_spec = (\<lambda>(rg, h).
    (let d = graph_diff (rg_spec rg) new_spec in
     if diff_is_empty d \<and> \<not> config_changed (rg_spec rg) new_spec then (Inr d, rg, h)
     else case and_then (effective_limits (pp_resource (rg_policy rg)) new_spec) (\<lambda>effective.
                 validate_with_policy (ee_graph env) effective new_spec) of
       Inl e \<Rightarrow> (Inl e, rg, h)
     | Inr _ \<Rightarrow>
        if diff_is_empty d then (Inr d, rg\<lparr> rg_spec := new_spec \<rparr>, h)
        else (case with_reloading (apply_hot_update_candidate env armed d new_spec) (rg, h) of
                (Inr _, rg1, h1) \<Rightarrow> (Inr d, rg1, h1)
              | (Inl e, rg1, h1) \<Rightarrow> (Inl e, rg1, h1))))"

end
