(* ===== verification/Rewiring.thy ===== *)
theory Rewiring
  imports HotUpdate
begin

text \<open>
  What a hot update guarantees.  The routes of a graph implement its configuration when every
  connection has a pipe of its own, the receiver of that pipe serves the connection's input port,
  and the table of every output port lists exactly the pipes of its connections; the running
  workers are wired when each of them holds the routes of its node.  A successful update takes a
  wired graph to one that is wired for the new configuration, although the workers of unaffected
  nodes keep running with the addresses they were given before.
\<close>

declare split_paired_All [simp del] split_paired_Ex [simp del]

section \<open>Routes that implement connections\<close>

definition conn :: "string \<Rightarrow> ConnectionSpec" where
  "conn c = projr (connection_parse c)"

definition source_of :: "string \<Rightarrow> string \<times> string" where
  "source_of c = (cn_from_node (conn c), cn_from_port (conn c))"

definition target_of :: "string \<Rightarrow> string \<times> string" where
  "target_of c = (cn_to_node (conn c), cn_to_port (conn c))"

definition pipe_of :: "(string \<times> EdgeRoute) list \<Rightarrow> string \<Rightarrow> nat" where
  "pipe_of edges c = er_receiver (the (map_of edges c))"

definition conns_ok :: "string set \<Rightarrow> bool" where
  "conns_ok C \<longleftrightarrow> (\<forall>c \<in> C. is_ok (connection_parse c)) \<and> inj_on target_of C"

definition edges_ok :: "string set \<Rightarrow> (string \<times> EdgeRoute) list \<Rightarrow> nat \<Rightarrow> bool" where
  "edges_ok C edges bound \<longleftrightarrow> dom (map_of edges) = C \<and>
    (\<forall>c \<in> C. \<exists>a < bound. map_of edges c = Some \<lparr> er_sender = a, er_receiver = a \<rparr>) \<and> inj_on (pipe_of edges) C"

definition inputs_ok :: "string set \<Rightarrow> (string \<times> EdgeRoute) list \<Rightarrow> ((string \<times> string) \<times> nat) list \<Rightarrow> bool" where
  "inputs_ok C edges inputs \<longleftrightarrow>
    (\<forall>k a. map_of inputs k = Some a \<longleftrightarrow> (\<exists>c \<in> C. target_of c = k \<and> pipe_of edges c = a))"

definition outputs_ok ::
  "string set \<Rightarrow> (string \<times> EdgeRoute) list \<Rightarrow> ((string \<times> string) \<times> nat) list \<Rightarrow> route_heap \<Rightarrow> bool"
where
  "outputs_ok C edges outputs h \<longleftrightarrow> dom (map_of outputs) = source_of ` C \<and>
    (\<forall>k t. map_of outputs k = Some t \<longrightarrow> t < rh_next_table h \<and> distinct (rh_tables h t) \<and>
      set (rh_tables h t) = pipe_of edges ` {c \<in> C. source_of c = k}) \<and>
    (\<forall>k k' t. map_of outputs k = Some t \<longrightarrow> map_of outputs k' = Some t \<longrightarrow> k = k')"

definition routes_ok :: "string set \<Rightarrow> RuntimeRoutes \<Rightarrow> route_heap \<Rightarrow> bool" where
  "routes_ok C routes h \<longleftrightarrow> conns_ok C \<and> edges_ok C (rr_edges routes) (rh_next_pipe h) \<and>
    inputs_ok C (rr_edges routes) (rr_inputs routes) \<and> outputs_ok C (rr_edges routes) (rr_outputs routes) h"

text \<open>The routes of a node, as its workers hold them.\<close>

definition worker_wired :: "RuntimeRoutes \<Rightarrow> string \<Rightarrow> worker \<Rightarrow> bool" where
  "worker_wired routes name w \<longleftrightarrow>
    (\<forall>port. map_of (wk_inputs w) port = map_of (rr_inputs routes) (name, port) \<and>
            map_of (wk_outputs w) port = map_of (rr_outputs routes) (name, port))"

definition workers_wired :: "RuntimeRoutes \<Rightarrow> (string \<times> LiveNode) list \<Rightarrow> bool" where
  "workers_wired routes workers \<longleftrightarrow>
    (\<forall>name node. map_of workers name = Some node \<longrightarrow> list_all (worker_wired routes name) (ln_workers node))"

definition wired :: "'b RunningGraph \<Rightarrow> route_heap \<Rightarrow> bool" where
  "wired rg h \<longleftrightarrow> routes_ok (set (gs_connections (rg_spec rg))) (rg_routes rg) h \<and>
    workers_wired (rg_routes rg) (rg_workers rg) \<and> bt_wf (rg_workers rg) \<and>
    dom (map_of (rg_workers rg)) = nd_name ` set (gs_nodes (rg_spec rg))"

lemma conn_parsed: "connection_parse c = Inr p \<Longrightarrow> conn c = p"
  by (simp add: conn_def)

section \<open>Switching the edges\<close>

text \<open>One connection: the route it gets, and the heap after it.\<close>

lemma switch_edges_Cons:
  assumes "switch_edges affected ex (c # cs) old new drains h = (Inr (edges, ds), old', h')"
  obtains r h1 drains1 where "is_ok (connection_parse c)"
    "switch_edges affected ex cs (bt_remove c old) (bt_insert c r new) drains1 h1 = (Inr (edges, ds), old', h')"
    "rh_tables h1 = rh_tables h" "rh_next_table h1 = rh_next_table h"
    "if fst (target_of c) \<in> set affected
     then r = \<lparr> er_sender = rh_next_pipe h, er_receiver = rh_next_pipe h \<rparr> \<and> rh_next_pipe h1 = Suc (rh_next_pipe h)
     else map_of old c = Some r \<and> h1 = h"
proof -
  obtain p where p: "connection_parse c = Inr p"
    using assms by (cases "connection_parse c") (simp_all add: Let_def)
  have tgt: "fst (target_of c) = cn_to_node p" using p by (simp add: target_of_def conn_parsed)
  show thesis
  proof (cases "cn_to_node p \<in> set affected")
    case False
    then obtain r where r: "map_of old c = Some r"
      using assms p by (cases "map_of old c") (simp_all add: Let_def)
    then show thesis using that [of r drains h] assms p False tgt by (simp add: Let_def)
  next
    case True
    obtain h1 where np: "new_pipe ex h = (rh_next_pipe h, h1)" "rh_next_pipe h1 = Suc (rh_next_pipe h)"
      "rh_tables h1 = rh_tables h" "rh_next_table h1 = rh_next_table h"
      by (simp add: new_pipe_def Let_def)
    let ?r = "\<lparr> er_sender = rh_next_pipe h, er_receiver = rh_next_pipe h \<rparr>"
    let ?drains = "case map_of old c of None \<Rightarrow> drains | Some r \<Rightarrow> drains @ [(er_receiver r, rh_next_pipe h, cn_from_node p \<notin> set affected)]"
    have "switch_edges affected ex cs (bt_remove c old) (bt_insert c ?r new) ?drains h1 = (Inr (edges, ds), old', h')"
      using assms p True np(1) by (simp add: Let_def)
    then show thesis using that [of ?r ?drains h1] p True tgt np by simp
  qed
qed

definition edge_kept :: "string list \<Rightarrow> (string \<times> EdgeRoute) list \<Rightarrow> (string \<times> EdgeRoute) list \<Rightarrow> nat \<Rightarrow> nat \<Rightarrow> string \<Rightarrow> bool" where
  "edge_kept affected old edges lo hi c \<longleftrightarrow>
    (if fst (target_of c) \<in> set affected
     then \<exists>a. lo \<le> a \<and> a < hi \<and> map_of edges c = Some \<lparr> er_sender = a, er_receiver = a \<rparr>
     else map_of edges c = map_of old c \<and> map_of old c \<noteq> None)"

lemma switch_edges_result:
  assumes "switch_edges affected ex cs old new drains h = (Inr (edges, ds), old', h')"
    and "distinct cs" and "bt_wf new" and "set cs \<inter> dom (map_of new) = {}"
  shows "(\<forall>c. c \<notin> set cs \<longrightarrow> map_of edges c = map_of new c) \<and>
    (\<forall>c \<in> set cs. is_ok (connection_parse c) \<and> edge_kept affected old edges (rh_next_pipe h) (rh_next_pipe h') c) \<and>
    inj_on (map_of edges) {c \<in> set cs. fst (target_of c) \<in> set affected} \<and>
    rh_next_pipe h \<le> rh_next_pipe h' \<and> rh_tables h' = rh_tables h \<and> rh_next_table h' = rh_next_table h"
  using assms
proof (induction cs arbitrary: old new drains h)
  case (Cons c cs)
  from Cons.prems(1) obtain r h1 drains1 where step: "is_ok (connection_parse c)"
    "switch_edges affected ex cs (bt_remove c old) (bt_insert c r new) drains1 h1 = (Inr (edges, ds), old', h')"
    "rh_tables h1 = rh_tables h" "rh_next_table h1 = rh_next_table h"
    "if fst (target_of c) \<in> set affected
     then r = \<lparr> er_sender = rh_next_pipe h, er_receiver = rh_next_pipe h \<rparr> \<and> rh_next_pipe h1 = Suc (rh_next_pipe h)
     else map_of old c = Some r \<and> h1 = h"
    by (rule switch_edges_Cons)
  have new': "map_of (bt_insert c r new) = (map_of new)(c \<mapsto> r)" using Cons.prems(3) by (rule map_of_bt_insert)
  have disj: "set cs \<inter> dom (map_of (bt_insert c r new)) = {}"
    unfolding new' using Cons.prems(2,4) by auto
  have IH: "(\<forall>d. d \<notin> set cs \<longrightarrow> map_of edges d = map_of (bt_insert c r new) d) \<and>
    (\<forall>d \<in> set cs. is_ok (connection_parse d) \<and> edge_kept affected (bt_remove c old) edges (rh_next_pipe h1) (rh_next_pipe h') d) \<and>
    inj_on (map_of edges) {d \<in> set cs. fst (target_of d) \<in> set affected} \<and>
    rh_next_pipe h1 \<le> rh_next_pipe h' \<and> rh_tables h' = rh_tables h1 \<and> rh_next_table h' = rh_next_table h1"
    using Cons.IH [OF step(2) _ _ disj] Cons.prems(2,3) by simp
  have le: "rh_next_pipe h \<le> rh_next_pipe h1" using step(5) by (auto split: if_splits)
  have c: "map_of edges c = Some r" using IH Cons.prems(2) new' by simp
  have kept: "edge_kept affected old edges (rh_next_pipe h) (rh_next_pipe h') d" if "d \<in> set cs" for d
  proof -
    have "d \<noteq> c" using that Cons.prems(2) by auto
    moreover have "edge_kept affected (bt_remove c old) edges (rh_next_pipe h1) (rh_next_pipe h') d" using IH that by blast
    ultimately show ?thesis using le by (auto simp: edge_kept_def map_of_bt_remove split: if_splits)
  qed
  have kept_c: "edge_kept affected old edges (rh_next_pipe h) (rh_next_pipe h') c"
    using step(5) c IH by (auto simp: edge_kept_def split: if_splits)
  have "map_of edges d \<noteq> map_of edges c" if "d \<in> set cs" "fst (target_of d) \<in> set affected" "fst (target_of c) \<in> set affected" for d
    using IH that step(5) c unfolding edge_kept_def by fastforce
  then have "inj_on (map_of edges) {d \<in> set (c # cs). fst (target_of d) \<in> set affected}"
    using IH unfolding inj_on_def by (metis (mono_tags, lifting) mem_Collect_eq set_ConsD)
  moreover have "\<forall>d. d \<notin> set (c # cs) \<longrightarrow> map_of edges d = map_of new d" using IH new' by simp
  ultimately show ?case using IH kept kept_c step le by auto
qed (simp add: edge_kept_def)

lemma pipe_of_eq: "map_of edges c = Some \<lparr> er_sender = a, er_receiver = a \<rparr> \<Longrightarrow> pipe_of edges c = a"
  by (simp add: pipe_of_def)

lemma edges_okD:
  assumes "edges_ok C edges bound" and "c \<in> C"
  shows "map_of edges c = Some \<lparr> er_sender = pipe_of edges c, er_receiver = pipe_of edges c \<rparr>" and "pipe_of edges c < bound"
proof -
  obtain a where a: "a < bound" "map_of edges c = Some \<lparr> er_sender = a, er_receiver = a \<rparr>"
    using assms unfolding edges_ok_def by blast
  then have "pipe_of edges c = a" by (simp add: pipe_of_eq)
  with a show "map_of edges c = Some \<lparr> er_sender = pipe_of edges c, er_receiver = pipe_of edges c \<rparr>" and "pipe_of edges c < bound"
    by simp_all
qed

text \<open>The switched edges serve the new connections, with the old pipes into unaffected nodes.\<close>

lemma switch_edges_ok:
  assumes old: "edges_ok C old (rh_next_pipe h)"
    and sw: "switch_edges affected ex cs old [] [] h = (Inr (edges, ds), old', h')" and cs: "distinct cs"
  shows "edges_ok (set cs) edges (rh_next_pipe h')"
    and "\<And>c. c \<in> set cs \<Longrightarrow> fst (target_of c) \<notin> set affected \<Longrightarrow> c \<in> C \<and> pipe_of edges c = pipe_of old c"
    and "rh_tables h' = rh_tables h" and "rh_next_table h' = rh_next_table h"
    and "\<And>c. c \<in> set cs \<Longrightarrow> is_ok (connection_parse c)"
proof -
  have r: "(\<forall>c. c \<notin> set cs \<longrightarrow> map_of edges c = None)"
    "\<And>c. c \<in> set cs \<Longrightarrow> is_ok (connection_parse c) \<and> edge_kept affected old edges (rh_next_pipe h) (rh_next_pipe h') c"
    "inj_on (map_of edges) {c \<in> set cs. fst (target_of c) \<in> set affected}"
    "rh_next_pipe h \<le> rh_next_pipe h'" "rh_tables h' = rh_tables h" "rh_next_table h' = rh_next_table h"
    using switch_edges_result [OF sw cs] by (simp_all add: bt_wf_def)
  show "rh_tables h' = rh_tables h" and "rh_next_table h' = rh_next_table h" by fact+
  show "is_ok (connection_parse c)" if "c \<in> set cs" for c using r(2) that by blast
  have stays: "c \<in> C \<and> map_of edges c = map_of old c" if "c \<in> set cs" "fst (target_of c) \<notin> set affected" for c
    using r(2) [OF that(1)] that(2) old by (auto simp: edge_kept_def edges_ok_def)
  then show "c \<in> C \<and> pipe_of edges c = pipe_of old c" if "c \<in> set cs" "fst (target_of c) \<notin> set affected" for c
    using that by (simp add: pipe_of_def)
  have route: "\<exists>a < rh_next_pipe h'. map_of edges c = Some \<lparr> er_sender = a, er_receiver = a \<rparr> \<and>
      (rh_next_pipe h \<le> a \<longleftrightarrow> fst (target_of c) \<in> set affected)" if "c \<in> set cs" for c
  proof (cases "fst (target_of c) \<in> set affected")
    case True
    then show ?thesis using r(2) [OF that] by (auto simp: edge_kept_def)
  next
    case False
    then have "c \<in> C" "map_of edges c = map_of old c" using stays that by blast+
    moreover from this(1) have "pipe_of old c < rh_next_pipe h" "map_of old c = Some \<lparr> er_sender = pipe_of old c, er_receiver = pipe_of old c \<rparr>"
      using edges_okD [OF old] by blast+
    ultimately show ?thesis using False r(4) by (intro exI [of _ "pipe_of old c"]) auto
  qed
  have "inj_on (pipe_of edges) (set cs)"
  proof (rule inj_onI)
    fix c d assume cd: "c \<in> set cs" "d \<in> set cs" "pipe_of edges c = pipe_of edges d"
    have same: "map_of edges c = map_of edges d" and aff: "fst (target_of c) \<in> set affected \<longleftrightarrow> fst (target_of d) \<in> set affected"
      using route [OF cd(1)] route [OF cd(2)] cd(3) by (auto simp: pipe_of_eq)
    show "c = d"
    proof (cases "fst (target_of c) \<in> set affected")
      case True
      then show ?thesis using r(3) same aff cd(1,2) by (auto simp: inj_on_def)
    next
      case False
      then have "c \<in> C" "d \<in> C" "pipe_of old c = pipe_of old d" using stays cd aff by (auto simp: pipe_of_def)
      then show ?thesis using old by (auto simp: edges_ok_def inj_on_def)
    qed
  qed
  moreover have "dom (map_of edges) = set cs"
  proof (intro equalityI subsetI)
    fix c assume "c \<in> dom (map_of edges)"
    then show "c \<in> set cs" using r(1) by (metis domIff)
  next
    fix c assume "c \<in> set cs"
    then show "c \<in> dom (map_of edges)" using route by blast
  qed
  ultimately show "edges_ok (set cs) edges (rh_next_pipe h')" using route unfolding edges_ok_def by blast
qed

section \<open>Inputs and outputs\<close>

lemma route_maps_result:
  assumes "route_maps edges cs inputs senders = Inr (inputs', senders')" and "bt_wf inputs" and "bt_wf senders"
    and "inj_on target_of (set cs)" and "distinct cs"
    and "\<And>c. c \<in> set cs \<Longrightarrow> map_of edges c = Some \<lparr> er_sender = pipe_of edges c, er_receiver = pipe_of edges c \<rparr>"
  shows "bt_wf senders' \<and>
    (\<forall>k. map_of inputs' k = (case find (\<lambda>c. target_of c = k) cs of None \<Rightarrow> map_of inputs k | Some c \<Rightarrow> Some (pipe_of edges c))) \<and>
    (\<forall>k. map_of senders' k = (if k \<in> source_of ` set cs
      then Some (unwrap_or (map_of senders k) [] @ map (pipe_of edges) (filter (\<lambda>c. source_of c = k) cs)) else map_of senders k))"
  using assms
proof (induction cs arbitrary: inputs senders)
  case (Cons c cs)
  let ?r = "\<lparr> er_sender = pipe_of edges c, er_receiver = pipe_of edges c \<rparr>"
  obtain p where p: "connection_parse c = Inr p" and
    rest: "route_maps edges cs (add_input p ?r inputs) (add_sender p ?r senders) = Inr (inputs', senders')"
    using Cons.prems(1) Cons.prems(6) [of c] by (auto simp: result_simps)
  have key: "source_of c = (cn_from_node p, cn_from_port p)" "target_of c = (cn_to_node p, cn_to_port p)"
    using p by (simp_all add: source_of_def target_of_def conn_parsed)
  have ins: "map_of (add_input p ?r inputs) = (map_of inputs)(target_of c \<mapsto> pipe_of edges c)" "bt_wf (add_input p ?r inputs)"
    using Cons.prems(2) by (simp_all add: add_input_def map_of_bt_insert key)
  have outs: "map_of (add_sender p ?r senders) = (map_of senders)(source_of c \<mapsto> unwrap_or (map_of senders (source_of c)) [] @ [pipe_of edges c])"
    "bt_wf (add_sender p ?r senders)"
    using Cons.prems(3) by (simp_all add: add_sender_def map_of_bt_insert key Let_def)
  have fresh: "target_of d \<noteq> target_of c" if "d \<in> set cs" for d
    using that Cons.prems(4,5) by (auto simp: inj_on_def)
  have IH: "bt_wf senders' \<and>
    (\<forall>k. map_of inputs' k = (case find (\<lambda>c. target_of c = k) cs of None \<Rightarrow> map_of (add_input p ?r inputs) k | Some c \<Rightarrow> Some (pipe_of edges c))) \<and>
    (\<forall>k. map_of senders' k = (if k \<in> source_of ` set cs
      then Some (unwrap_or (map_of (add_sender p ?r senders) k) [] @ map (pipe_of edges) (filter (\<lambda>c. source_of c = k) cs)) else map_of (add_sender p ?r senders) k))"
    using Cons.prems by (intro Cons.IH [OF rest ins(2) outs(2)]) (auto intro: inj_on_subset)
  have "find (\<lambda>d. target_of d = target_of c) cs = None" using fresh by (auto simp: find_None_iff)
  then have "map_of inputs' k = (case find (\<lambda>c. target_of c = k) (c # cs) of None \<Rightarrow> map_of inputs k | Some c \<Rightarrow> Some (pipe_of edges c))" for k
    using IH by (cases "k = target_of c") (simp_all add: ins(1) cong: option.case_cong)
  moreover have "map_of senders' k = (if k \<in> source_of ` set (c # cs)
      then Some (unwrap_or (map_of senders k) [] @ map (pipe_of edges) (filter (\<lambda>c. source_of c = k) (c # cs))) else map_of senders k)" for k
  proof (cases "k = source_of c")
    case True
    have "k \<notin> source_of ` set cs \<Longrightarrow> filter (\<lambda>c. source_of c = k) cs = []" by (auto simp: filter_empty_conv)
    then show ?thesis
      unfolding conjunct2 [OF conjunct2 [OF IH], rule_format, of k] outs(1) by (simp add: True unwrap_or_def)
  next
    case False
    then show ?thesis using IH by (simp add: outs(1))
  qed
  ultimately show ?case using IH by blast
qed simp

lemma route_maps_ok:
  assumes "route_maps edges cs [] [] = Inr (inputs, senders)" and "edges_ok (set cs) edges bound"
    and "inj_on target_of (set cs)" and "distinct cs"
  shows "inputs_ok (set cs) edges inputs" and "bt_wf senders" and "dom (map_of senders) = source_of ` set cs"
    and "\<And>k s. map_of senders k = Some s \<Longrightarrow> distinct s \<and> set s = pipe_of edges ` {c \<in> set cs. source_of c = k}"
proof -
  have r: "bt_wf senders"
    "\<And>k. map_of inputs k = (case find (\<lambda>c. target_of c = k) cs of None \<Rightarrow> None | Some c \<Rightarrow> Some (pipe_of edges c))"
    "\<And>k. map_of senders k = (if k \<in> source_of ` set cs then Some (map (pipe_of edges) (filter (\<lambda>c. source_of c = k) cs)) else None)"
    using route_maps_result [OF assms(1) _ _ assms(3,4)] edges_okD [OF assms(2)]
    by (simp_all add: bt_wf_def unwrap_or_def cong: option.case_cong)
  show "bt_wf senders" by fact
  show "dom (map_of senders) = source_of ` set cs" by (auto simp: r(3) dom_def)
  show "inputs_ok (set cs) edges inputs"
    unfolding inputs_ok_def
  proof (intro allI)
    fix k a
    show "map_of inputs k = Some a \<longleftrightarrow> (\<exists>c \<in> set cs. target_of c = k \<and> pipe_of edges c = a)"
    proof (cases "find (\<lambda>c. target_of c = k) cs")
      case None
      then have "map_of inputs k = None" by (simp add: r(2))
      moreover have "\<forall>c \<in> set cs. target_of c \<noteq> k" using None by (auto simp: find_None_iff)
      ultimately show ?thesis by auto
    next
      case (Some c)
      then have "c \<in> set cs" "target_of c = k" by (auto simp: find_Some_iff)
      then show ?thesis using Some assms(3) by (auto simp: r(2) inj_on_def)
    qed
  qed
  fix k s assume "map_of senders k = Some s"
  then have s: "s = map (pipe_of edges) (filter (\<lambda>c. source_of c = k) cs)" by (simp add: r(3) split: if_splits)
  have "inj_on (pipe_of edges) (set cs)" using assms(2) by (simp add: edges_ok_def)
  then show "distinct s \<and> set s = pipe_of edges ` {c \<in> set cs. source_of c = k}"
    unfolding s using assms(4) by (auto simp: distinct_map intro: inj_on_subset)
qed

text \<open>The table an output port gets, and the heap it is written to.\<close>

definition table_for :: "((string \<times> string) \<times> nat) list \<Rightarrow> string \<times> string \<Rightarrow> route_heap \<Rightarrow> nat" where
  "table_for old key h = (case map_of old key of Some t \<Rightarrow> t | None \<Rightarrow> rh_next_table h)"

definition tables_known :: "((string \<times> string) \<times> nat) list \<Rightarrow> route_heap \<Rightarrow> bool" where
  "tables_known old h \<longleftrightarrow> (\<forall>k t. map_of old k = Some t \<longrightarrow> t < rh_next_table h)"

definition tables_apart :: "((string \<times> string) \<times> nat) list \<Rightarrow> bool" where
  "tables_apart outs \<longleftrightarrow> (\<forall>k k' t. map_of outs k = Some t \<longrightarrow> map_of outs k' = Some t \<longrightarrow> k = k')"

lemma update_tables_Cons:
  assumes "update_tables old ((key, s) # rest) h = (outs, h')"
  obtains outs' h1 where "outs = (key, table_for old key h) # outs'" "update_tables old rest h1 = (outs', h')"
    "rh_tables h1 = (rh_tables h)(table_for old key h := s)" "rh_next_pipe h1 = rh_next_pipe h"
    "rh_next_table h1 = (if map_of old key = None then Suc (rh_next_table h) else rh_next_table h)"
proof (cases "map_of old key")
  case None
  let ?h1 = "h\<lparr> rh_next_table := Suc (rh_next_table h), rh_tables := (rh_tables h)(rh_next_table h := s) \<rparr>"
  obtain outs' where "update_tables old rest ?h1 = (outs', h')" "outs = (key, rh_next_table h) # outs'"
    using assms None by (auto simp: Let_def split: prod.splits)
  then show thesis using that [of outs' ?h1] None by (simp add: table_for_def)
next
  case (Some t)
  let ?h1 = "h\<lparr> rh_tables := (rh_tables h)(t := s) \<rparr>"
  obtain outs' where "update_tables old rest ?h1 = (outs', h')" "outs = (key, t) # outs'"
    using assms Some by (auto simp: Let_def split: prod.splits)
  then show thesis using that [of outs' ?h1] Some by (simp add: table_for_def)
qed

lemma update_tables_result:
  assumes "update_tables old senders h = (outs, h')" and "distinct (map fst senders)"
    and "tables_known old h" and "tables_apart old"
  shows "dom (map_of outs) = fst ` set senders \<and>
    (\<forall>k s. map_of senders k = Some s \<longrightarrow> (\<exists>t. map_of outs k = Some t \<and> t < rh_next_table h' \<and> rh_tables h' t = s \<and>
      (case map_of old k of Some t' \<Rightarrow> t = t' | None \<Rightarrow> rh_next_table h \<le> t))) \<and>
    tables_apart outs \<and>
    (\<forall>t < rh_next_table h. (\<forall>k \<in> fst ` set senders. map_of old k \<noteq> Some t) \<longrightarrow> rh_tables h' t = rh_tables h t) \<and>
    rh_next_table h \<le> rh_next_table h' \<and> rh_next_pipe h' = rh_next_pipe h"
  using assms
proof (induction senders arbitrary: h outs)
  case (Cons ks rest)
  obtain key s where ks: "ks = (key, s)" by fastforce
  define t where "t = table_for old key h"
  from Cons.prems(1) obtain outs' h1 where step: "outs = (key, t) # outs'" "update_tables old rest h1 = (outs', h')"
    "rh_tables h1 = (rh_tables h)(t := s)" "rh_next_pipe h1 = rh_next_pipe h"
    "rh_next_table h1 = (if map_of old key = None then Suc (rh_next_table h) else rh_next_table h)"
    unfolding ks t_def by (rule update_tables_Cons)
  have known1: "tables_known old h1" using Cons.prems(3) step(5) unfolding tables_known_def by (auto simp: less_Suc_eq split: if_splits)
  have "distinct (map fst rest)" using Cons.prems(2) by simp
  note IH = Cons.IH [OF step(2) this known1 Cons.prems(4)]
  have key: "key \<notin> fst ` set rest" using Cons.prems(2) ks by simp
  have t: "t < rh_next_table h1" "rh_next_table h \<le> rh_next_table h1"
    using Cons.prems(3) step(5) by (auto simp: t_def table_for_def tables_known_def split: option.splits)
  have other: "map_of old k \<noteq> Some t" if "k \<in> fst ` set rest" for k
  proof
    assume k: "map_of old k = Some t"
    then have "t < rh_next_table h" using Cons.prems(3) by (simp add: tables_known_def)
    then have "map_of old key \<noteq> None" by (cases "map_of old key") (simp_all add: t_def table_for_def)
    then have "map_of old key = Some t" by (cases "map_of old key") (simp_all add: t_def table_for_def)
    then have "k = key" using k Cons.prems(4) unfolding tables_apart_def by blast
    then show False using that key by simp
  qed
  have written: "rh_tables h' t = s" using IH t(1) other step(3) by simp
  have fresh: "map_of outs' k \<noteq> Some t" for k
  proof
    assume k: "map_of outs' k = Some t"
    then have kr: "k \<in> fst ` set rest" using IH by blast
    then obtain s' where "map_of rest k = Some s'" by (metis map_of_eq_None_iff option.exhaust)
    then have "(case map_of old k of Some t' \<Rightarrow> t = t' | None \<Rightarrow> rh_next_table h1 \<le> t)" using IH k by fastforce
    then show False using other [OF kr] t(1) by (cases "map_of old k") auto
  qed
  have new_key: "case map_of old key of Some t' \<Rightarrow> t = t' | None \<Rightarrow> rh_next_table h \<le> t"
    by (simp add: t_def table_for_def split: option.splits)
  have others: "\<exists>t. map_of outs k = Some t \<and> t < rh_next_table h' \<and> rh_tables h' t = s' \<and>
      (case map_of old k of Some t' \<Rightarrow> t = t' | None \<Rightarrow> rh_next_table h \<le> t)" if "map_of (ks # rest) k = Some s'" for k s'
  proof (cases "k = key")
    case True
    then show ?thesis using that ks written new_key step(1) t IH by auto
  next
    case False
    then have "map_of rest k = Some s'" using that ks by simp
    then obtain u where "map_of outs' k = Some u" "u < rh_next_table h'" "rh_tables h' u = s'"
      "case map_of old k of Some t' \<Rightarrow> u = t' | None \<Rightarrow> rh_next_table h1 \<le> u" using IH by blast
    then show ?thesis using False step(1) t(2) by (intro exI [of _ u]) (auto split: option.splits)
  qed
  have "tables_apart outs" using IH fresh step(1) unfolding tables_apart_def by (metis (no_types, lifting) fun_upd_apply map_of.simps(2) option.sel fst_conv snd_conv)
  moreover have "rh_tables h' u = rh_tables h u" if "u < rh_next_table h" "\<forall>k \<in> fst ` set (ks # rest). map_of old k \<noteq> Some u" for u
  proof -
    have "u \<noteq> t" using that ks by (auto simp: t_def table_for_def split: option.splits)
    then show ?thesis using IH that t(2) step(3) by auto
  qed
  moreover have "dom (map_of outs) = fst ` set (ks # rest)" using IH step(1) ks by simp
  ultimately show ?case using others IH t(2) step(4) by auto
qed (simp add: tables_apart_def)

section \<open>The switched routes\<close>

text \<open>What decides which nodes are affected: a connection that is not in both configurations has both
  its nodes affected.\<close>

definition covers :: "string list \<Rightarrow> string set \<Rightarrow> string set \<Rightarrow> bool" where
  "covers affected C D \<longleftrightarrow>
    (\<forall>c \<in> (C - D) \<union> (D - C). fst (source_of c) \<in> set affected \<and> fst (target_of c) \<in> set affected)"

lemma switch_routes_ok:
  assumes sw: "switch_routes env affected candidate (rg, h) = (Inr drains, rg', h')"
    and old: "routes_ok C (rg_routes rg) h" and cs: "distinct (gs_connections candidate)"
    and inj: "inj_on target_of (set (gs_connections candidate))"
  shows "routes_ok (set (gs_connections candidate)) (rg_routes rg') h'"
    and "rg' = rg\<lparr> rg_routes := rg_routes rg' \<rparr>"
    and "\<And>c. c \<in> set (gs_connections candidate) \<Longrightarrow> fst (target_of c) \<notin> set affected \<Longrightarrow>
      c \<in> C \<and> pipe_of (rr_edges (rg_routes rg')) c = pipe_of (rr_edges (rg_routes rg)) c"
    and "\<And>k t. map_of (rr_outputs (rg_routes rg)) k = Some t \<Longrightarrow> k \<in> source_of ` set (gs_connections candidate) \<Longrightarrow>
      map_of (rr_outputs (rg_routes rg')) k = Some t"
proof -
  let ?cs = "gs_connections candidate"
  let ?r = "rg_routes rg"
  obtain x old' h1 where se: "switch_edges affected (gs_execution candidate) ?cs (rr_edges ?r) [] [] h = (x, old', h1)"
    by (rule prod_cases3)
  obtain edges ds where x: "x = Inr (edges, ds)" using sw se by (cases x) (auto simp: switch_routes_def)
  obtain inputs senders where rm: "route_maps edges ?cs [] [] = Inr (inputs, senders)"
    using sw se x by (cases "route_maps edges ?cs [] []") (auto simp: switch_routes_def)
  obtain outs h2 where ut: "update_tables (rr_outputs ?r) senders h1 = (outs, h2)" by fastforce
  have rg': "rg' = rg\<lparr> rg_routes := \<lparr> rr_edges = edges, rr_inputs = inputs, rr_outputs = outs \<rparr> \<rparr>" and h': "h' = h2"
    using sw se x rm ut by (simp_all add: switch_routes_def Let_def)
  have eo: "edges_ok C (rr_edges ?r) (rh_next_pipe h)" and oo: "outputs_ok C (rr_edges ?r) (rr_outputs ?r) h"
    using old by (simp_all add: routes_ok_def)
  note edge = switch_edges_ok [OF eo se [unfolded x] cs]
  note maps = route_maps_ok [OF rm edge(1) inj cs]
  have apart: "tables_apart (rr_outputs ?r)" using oo unfolding outputs_ok_def tables_apart_def by blast
  have known: "tables_known (rr_outputs ?r) h1" using oo edge(4) unfolding outputs_ok_def tables_known_def by simp
  note tables = update_tables_result [OF ut bt_wf_distinct [OF maps(2)] known apart]
  have dom: "dom (map_of outs) = source_of ` set ?cs" using tables maps(3) by (simp add: dom_map_of_conv_image_fst)
  have "outputs_ok (set ?cs) edges outs h2"
    unfolding outputs_ok_def
  proof (intro conjI allI impI)
    fix k t assume k: "map_of outs k = Some t"
    then have "k \<in> dom (map_of senders)" using dom maps(3) by blast
    then obtain s where s: "map_of senders k = Some s" by blast
    then have "rh_tables h2 t = s" "t < rh_next_table h2" using tables k by fastforce+
    then show "t < rh_next_table h2" "distinct (rh_tables h2 t)" "set (rh_tables h2 t) = pipe_of edges ` {c \<in> set ?cs. source_of c = k}"
      using maps(4) [OF s] by simp_all
  next
    fix k k' t assume "map_of outs k = Some t" "map_of outs k' = Some t"
    then show "k = k'" using tables unfolding tables_apart_def by blast
  qed (fact dom)
  moreover have "conns_ok (set ?cs)" using edge(5) inj by (simp add: conns_ok_def)
  moreover have "rh_next_pipe h2 = rh_next_pipe h1" using tables by blast
  ultimately show "routes_ok (set ?cs) (rg_routes rg') h'"
    using edge(1) maps(1) unfolding routes_ok_def rg' h' by simp
  show "rg' = rg\<lparr> rg_routes := rg_routes rg' \<rparr>" by (simp add: rg')
  show "c \<in> C \<and> pipe_of (rr_edges (rg_routes rg')) c = pipe_of (rr_edges ?r) c" if "c \<in> set ?cs" "fst (target_of c) \<notin> set affected" for c
    using edge(2) [OF that] by (simp add: rg')
  fix k t assume t: "map_of (rr_outputs ?r) k = Some t" and "k \<in> source_of ` set ?cs"
  then obtain s where "map_of senders k = Some s" using maps(3) by blast
  then have "\<exists>u. map_of outs k = Some u \<and> u = t" using tables t by fastforce
  then show "map_of (rr_outputs (rg_routes rg')) k = Some t" by (simp add: rg')
qed

text \<open>The routes of an unaffected node are the addresses it had.\<close>

lemma unaffected_routes:
  assumes sw: "switch_routes env affected candidate (rg, h) = (Inr drains, rg', h')"
    and old: "routes_ok C (rg_routes rg) h" and cs: "distinct (gs_connections candidate)"
    and inj: "inj_on target_of (set (gs_connections candidate))"
    and cov: "covers affected C (set (gs_connections candidate))" and name: "name \<notin> set affected"
  shows "map_of (rr_inputs (rg_routes rg')) (name, port) = map_of (rr_inputs (rg_routes rg)) (name, port)"
    and "map_of (rr_outputs (rg_routes rg')) (name, port) = map_of (rr_outputs (rg_routes rg)) (name, port)"
proof -
  let ?D = "set (gs_connections candidate)"
  note new = switch_routes_ok [OF sw old cs inj]
  have io: "inputs_ok C (rr_edges (rg_routes rg)) (rr_inputs (rg_routes rg))"
    "inputs_ok ?D (rr_edges (rg_routes rg')) (rr_inputs (rg_routes rg'))"
    and oo: "outputs_ok C (rr_edges (rg_routes rg)) (rr_outputs (rg_routes rg)) h"
    "outputs_ok ?D (rr_edges (rg_routes rg')) (rr_outputs (rg_routes rg')) h'"
    using old new(1) by (simp_all add: routes_ok_def)
  have both: "c \<in> C \<longleftrightarrow> c \<in> ?D" if "fst (target_of c) = name \<or> fst (source_of c) = name" for c
    using that cov name unfolding covers_def by (cases "c \<in> C"; cases "c \<in> ?D") auto
  have "map_of (rr_inputs (rg_routes rg')) (name, port) = Some a \<longleftrightarrow> map_of (rr_inputs (rg_routes rg)) (name, port) = Some a" for a
  proof -
    have "c \<in> ?D \<and> pipe_of (rr_edges (rg_routes rg')) c = a \<longleftrightarrow> c \<in> C \<and> pipe_of (rr_edges (rg_routes rg)) c = a"
      if "target_of c = (name, port)" for c
      using both [of c] new(3) [of c] that name by auto
    then show ?thesis using io unfolding inputs_ok_def by blast
  qed
  then show "map_of (rr_inputs (rg_routes rg')) (name, port) = map_of (rr_inputs (rg_routes rg)) (name, port)"
    by (metis not_Some_eq)
  have src: "(name, port) \<in> source_of ` ?D \<longleftrightarrow> (name, port) \<in> source_of ` C"
    using both by (metis (mono_tags, lifting) fst_conv image_iff)
  show "map_of (rr_outputs (rg_routes rg')) (name, port) = map_of (rr_outputs (rg_routes rg)) (name, port)"
  proof (cases "(name, port) \<in> source_of ` ?D")
    case True
    then have "(name, port) \<in> dom (map_of (rr_outputs (rg_routes rg)))" using src oo(1) by (simp add: outputs_ok_def)
    then obtain t where "map_of (rr_outputs (rg_routes rg)) (name, port) = Some t" by blast
    then show ?thesis using new(4) True by simp
  next
    case False
    then have "(name, port) \<notin> dom (map_of (rr_outputs (rg_routes rg')))" "(name, port) \<notin> dom (map_of (rr_outputs (rg_routes rg)))"
      using src oo by (simp_all add: outputs_ok_def)
    then show ?thesis by (metis domIff)
  qed
qed

section \<open>Workers\<close>

lemma node_routes_result:
  assumes "node_routes routes name cs ins outs = Inr (ins', outs')" and "bt_wf ins" and "bt_wf outs"
  shows "\<forall>port. map_of ins' port = (if (name, port) \<in> target_of ` set cs then map_of (rr_inputs routes) (name, port) else map_of ins port) \<and>
    map_of outs' port = (if (name, port) \<in> source_of ` set cs then map_of (rr_outputs routes) (name, port) else map_of outs port)"
  using assms
proof (induction cs arbitrary: ins outs)
  case (Cons c cs)
  obtain p ins1 outs1 where p: "connection_parse c = Inr p"
    and i: "(if cn_to_node p = name then map_sum id (\<lambda>r. bt_insert (cn_to_port p) r ins)
        (ok_or (map_of (rr_inputs routes) (name, cn_to_port p)) (GRuntime ''missing input route'')) else Inr ins) = Inr ins1"
    and o: "(if cn_from_node p = name then map_sum id (\<lambda>r. bt_insert (cn_from_port p) r outs)
        (ok_or (map_of (rr_outputs routes) (name, cn_from_port p)) (GRuntime ''missing output route'')) else Inr outs) = Inr outs1"
    and rest: "node_routes routes name cs ins1 outs1 = Inr (ins', outs')"
    using Cons.prems(1) by (auto simp: result_simps)
  have key: "target_of c = (cn_to_node p, cn_to_port p)" "source_of c = (cn_from_node p, cn_from_port p)"
    using p by (simp_all add: target_of_def source_of_def conn_parsed)
  have ins1: "bt_wf ins1 \<and> map_of ins1 port = (if (name, port) = target_of c then map_of (rr_inputs routes) (name, port) else map_of ins port)" for port
    using i Cons.prems(2) by (cases "map_of (rr_inputs routes) (name, cn_to_port p)") (auto simp: key map_of_bt_insert split: if_splits)
  have outs1: "bt_wf outs1 \<and> map_of outs1 port = (if (name, port) = source_of c then map_of (rr_outputs routes) (name, port) else map_of outs port)" for port
    using o Cons.prems(3) by (cases "map_of (rr_outputs routes) (name, cn_from_port p)") (auto simp: key map_of_bt_insert split: if_splits)
  note IH = Cons.IH [OF rest, rule_format]
  show ?case
  proof
    fix port
    show "map_of ins' port = (if (name, port) \<in> target_of ` set (c # cs) then map_of (rr_inputs routes) (name, port) else map_of ins port) \<and>
      map_of outs' port = (if (name, port) \<in> source_of ` set (c # cs) then map_of (rr_outputs routes) (name, port) else map_of outs port)"
      using IH [of port] ins1 [of port] outs1 [of port] by (simp add: image_iff)
  qed
qed simp

lemma spawned_wired:
  assumes "node_routes routes name cs [] [] = Inr (ins, outs)" and "routes_ok (set cs) routes h"
  shows "worker_wired routes name \<lparr> wk_inputs = ins, wk_outputs = outs, wk_finished = None \<rparr>"
proof -
  have absent: "map_of (rr_inputs routes) k = None" if "k \<notin> target_of ` set cs" for k
  proof (cases "map_of (rr_inputs routes) k")
    case (Some a)
    then have "\<exists>c \<in> set cs. target_of c = k" using assms(2) unfolding routes_ok_def inputs_ok_def by blast
    then show ?thesis using that by blast
  qed simp
  have "map_of (rr_outputs routes) k = None" if "k \<notin> source_of ` set cs" for k
    using assms(2) that unfolding routes_ok_def outputs_ok_def by (metis domIff)
  then show ?thesis
    using node_routes_result [OF assms(1)] absent by (simp add: worker_wired_def bt_wf_def)
qed

text \<open>A node with workers that run and hold its routes.\<close>

definition live :: "RuntimeRoutes \<Rightarrow> string \<Rightarrow> LiveNode option \<Rightarrow> bool" where
  "live routes name node \<longleftrightarrow> (\<exists>n. node = Some n \<and> \<not> ln_stop n \<and> ln_workers n \<noteq> [] \<and> list_all (worker_wired routes name) (ln_workers n))"

lemma spawn_node_result:
  assumes "spawn_node env effective cs metrics name (handle, n) rg = (Inr (), rg')" and "0 < n"
    and "bt_wf (rg_workers rg)" and "routes_ok (set cs) (rg_routes rg) h"
  shows "rg_routes rg' = rg_routes rg \<and> rg_spec rg' = rg_spec rg \<and> rg_policy rg' = rg_policy rg \<and> bt_wf (rg_workers rg') \<and>
    live (rg_routes rg) name (map_of (rg_workers rg') name) \<and>
    (\<forall>m. m \<noteq> name \<longrightarrow> map_of (rg_workers rg') m = map_of (rg_workers rg) m)"
proof -
  obtain ins outs where nr: "node_routes (rg_routes rg) name cs [] [] = Inr (ins, outs)"
    using assms(1) by (cases "node_routes (rg_routes rg) name cs [] []") (auto simp: spawn_node_def)
  let ?w = "\<lparr> wk_inputs = ins, wk_outputs = outs, wk_finished = None \<rparr>"
  have fields: "rg_routes rg' = rg_routes rg \<and> rg_spec rg' = rg_spec rg \<and> rg_policy rg' = rg_policy rg \<and>
      rg_workers rg' = bt_insert name \<lparr> ln_stop = False, ln_workers = replicate n ?w \<rparr> (rg_workers rg)"
    using assms(1) nr by (auto simp: spawn_node_def Let_def split: if_splits option.splits ElementHandle.splits)
  have "list_all (worker_wired (rg_routes rg) name) (replicate n ?w)"
    using spawned_wired [OF nr assms(4)] by (simp add: list_all_iff)
  then show ?thesis using fields assms(2,3) by (simp add: map_of_bt_insert live_def)
qed

definition counts_positive :: "(string \<times> ElementHandle \<times> nat) list \<Rightarrow> bool" where
  "counts_positive prepared \<longleftrightarrow> (\<forall>name handle n. map_of prepared name = Some (handle, n) \<longrightarrow> 0 < n)"

lemma spawn_workers_result:
  assumes "spawn_hot_update_workers env effective cs prepared nodes rg = (Inr (), rg')"
    and "counts_positive prepared" and "distinct (map nd_name nodes)"
    and "bt_wf (rg_workers rg)" and "routes_ok (set cs) (rg_routes rg) h"
  shows "rg_routes rg' = rg_routes rg \<and> rg_spec rg' = rg_spec rg \<and> rg_policy rg' = rg_policy rg \<and> bt_wf (rg_workers rg') \<and>
    (\<forall>m. if m \<in> nd_name ` set nodes \<and> map_of prepared m \<noteq> None
         then live (rg_routes rg) m (map_of (rg_workers rg') m)
         else map_of (rg_workers rg') m = map_of (rg_workers rg) m)"
  using assms
proof (induction nodes arbitrary: prepared rg)
  case (Cons node nodes)
  let ?n = "nd_name node"
  show ?case
  proof (cases "map_of prepared ?n")
    case None
    have "rg_routes rg' = rg_routes rg \<and> rg_spec rg' = rg_spec rg \<and> rg_policy rg' = rg_policy rg \<and> bt_wf (rg_workers rg') \<and>
      (\<forall>m. if m \<in> nd_name ` set nodes \<and> map_of prepared m \<noteq> None then live (rg_routes rg) m (map_of (rg_workers rg') m)
           else map_of (rg_workers rg') m = map_of (rg_workers rg) m)"
      using Cons.prems None by (intro Cons.IH) simp_all
    then show ?thesis using None by auto
  next
    case (Some pn)
    obtain handle k where pn: "pn = (handle, k)" by fastforce
    have k: "0 < k" using Cons.prems(2) Some pn unfolding counts_positive_def by blast
    obtain r rg1 where sn: "spawn_node env effective cs (record_state_reset metrics_default) ?n (handle, k) rg = (r, rg1)" by fastforce
    have r: "r = Inr ()" using Cons.prems(1) Some pn sn by (cases r) simp_all
    note one = spawn_node_result [OF sn [unfolded r] k Cons.prems(4,5)]
    have rest: "spawn_hot_update_workers env effective cs (bt_remove ?n prepared) nodes rg1 = (Inr (), rg')"
      using Cons.prems(1) Some pn sn r by simp
    have pos: "counts_positive (bt_remove ?n prepared)"
      using Cons.prems(2) unfolding counts_positive_def map_of_bt_remove by (auto split: if_splits)
    have ro: "routes_ok (set cs) (rg_routes rg1) h" using one Cons.prems(5) by simp
    note IH = Cons.IH [OF rest pos _ _ ro]
    have ih: "rg_routes rg' = rg_routes rg1 \<and> rg_spec rg' = rg_spec rg1 \<and> rg_policy rg' = rg_policy rg1 \<and> bt_wf (rg_workers rg') \<and>
      (\<forall>m. if m \<in> nd_name ` set nodes \<and> map_of (bt_remove ?n prepared) m \<noteq> None then live (rg_routes rg1) m (map_of (rg_workers rg') m)
           else map_of (rg_workers rg') m = map_of (rg_workers rg1) m)"
      using Cons.prems(3) one by (intro IH) simp_all
    have "if m \<in> nd_name ` set (node # nodes) \<and> map_of prepared m \<noteq> None then live (rg_routes rg) m (map_of (rg_workers rg') m)
         else map_of (rg_workers rg') m = map_of (rg_workers rg) m" for m
    proof (cases "m = ?n")
      case True
      then have "map_of (rg_workers rg') m = map_of (rg_workers rg1) m" using ih by (simp add: map_of_bt_remove)
      then show ?thesis using True one Some by simp
    next
      case False
      have "if m \<in> nd_name ` set nodes \<and> map_of (bt_remove ?n prepared) m \<noteq> None then live (rg_routes rg1) m (map_of (rg_workers rg') m)
           else map_of (rg_workers rg') m = map_of (rg_workers rg1) m" using ih by blast
      then show ?thesis using False one by (auto simp: map_of_bt_remove split: if_splits)
    qed
    then show ?thesis using ih one by simp
  qed
qed simp

lemma quiesce_result:
  assumes "quiesce env previous removed names joined rg = (Inr j, rg')" and "bt_wf (rg_workers rg)"
  shows "rg_routes rg' = rg_routes rg \<and> rg_spec rg' = rg_spec rg \<and> rg_policy rg' = rg_policy rg \<and> bt_wf (rg_workers rg') \<and>
    (\<forall>m. map_of (rg_workers rg') m = (if m \<in> set names then None else map_of (rg_workers rg) m))"
  using assms
proof (induction names arbitrary: joined rg)
  case (Cons name names)
  have forget: "rg_routes (forget_node removed name r) = rg_routes r" "rg_spec (forget_node removed name r) = rg_spec r"
    "rg_policy (forget_node removed name r) = rg_policy r" "rg_workers (forget_node removed name r) = rg_workers r"
    for r :: "'a RunningGraph" by (simp_all add: forget_node_def)
  show ?case
  proof (cases "map_of (rg_workers rg) name")
    case None
    then have q: "quiesce env previous removed names joined (forget_node removed name rg) = (Inr j, rg')" using Cons.prems(1) by simp
    from Cons.IH [OF q] Cons.prems(2) None show ?thesis by (auto simp: forget)
  next
    case (Some node)
    let ?rg1 = "rg\<lparr> rg_workers := bt_remove name (rg_workers rg) \<rparr>"
    have q: "quiesce env previous removed names (joined @ [name]) (forget_node removed name ?rg1) = (Inr j, rg')"
      using Cons.prems(1) Some
      by (cases "join_workers (ee_outcome env) True name (ln_workers node)") (auto simp: Let_def split: prod.splits sum.splits)
    from Cons.IH [OF q] Cons.prems(2) show ?thesis by (auto simp: forget map_of_bt_remove)
  qed
qed simp

section \<open>The whole update\<close>

lemma try_map_ok: "try_map f xs = Inr ys \<Longrightarrow> map f xs = map Inr ys"
  by (induction xs arbitrary: ys) (auto simp: result_simps)

lemma affected_by_result:
  assumes "affected_by (graph_diff old new) = Inr affected"
    and "distinct (map nd_name (gs_nodes old))" and "distinct (map nd_name (gs_nodes new))"
  shows "covers affected (set (gs_connections old)) (set (gs_connections new))"
    and "nd_name ` set (gs_nodes old) - nd_name ` set (gs_nodes new) \<subseteq> set affected"
    and "nd_name ` set (gs_nodes new) - nd_name ` set (gs_nodes old) \<subseteq> set affected"
proof -
  let ?d = "graph_diff old new"
  note contents = graph_diff_contents [OF assms(2,3)]
  obtain ps where ps: "try_map connection_parse (gd_added_connections ?d @ gd_removed_connections ?d) = Inr ps"
    and eq: "affected = bt_set (gd_removed_nodes ?d @ map nd_name (gd_updated_nodes ?d) @ map nd_name (gd_added_nodes ?d) @
      concat (map (\<lambda>p. [cn_from_node p, cn_to_node p]) ps))"
    using assms(1) by (auto simp: affected_by_def result_simps)
  have aff: "set affected = set (gd_removed_nodes ?d) \<union> nd_name ` set (gd_updated_nodes ?d) \<union> nd_name ` set (gd_added_nodes ?d) \<union>
      (\<Union>p \<in> set ps. {cn_from_node p, cn_to_node p})"
    unfolding eq by (simp add: Un_assoc)
  have ends: "fst (source_of c) \<in> set affected \<and> fst (target_of c) \<in> set affected"
    if "c \<in> set (gd_added_connections ?d @ gd_removed_connections ?d)" for c
  proof -
    have "connection_parse c \<in> set (map connection_parse (gd_added_connections ?d @ gd_removed_connections ?d))"
      using that unfolding set_map by (rule imageI)
    then obtain p where "p \<in> set ps" "connection_parse c = Inr p" unfolding try_map_ok [OF ps] by auto
    then show ?thesis by (auto simp: aff source_of_def target_of_def conn_parsed)
  qed
  then show "covers affected (set (gs_connections old)) (set (gs_connections new))"
    using contents(4,5) unfolding covers_def by auto
  show "nd_name ` set (gs_nodes old) - nd_name ` set (gs_nodes new) \<subseteq> set affected" using aff contents(3) by blast
  show "nd_name ` set (gs_nodes new) - nd_name ` set (gs_nodes old) \<subseteq> set affected"
  proof
    fix n assume "n \<in> nd_name ` set (gs_nodes new) - nd_name ` set (gs_nodes old)"
    then obtain node where "node \<in> set (gs_nodes new)" "nd_name node = n" "nd_name node \<notin> nd_name ` set (gs_nodes old)" by blast
    then have "node \<in> set (gd_added_nodes ?d)" using contents(1) by blast
    then show "n \<in> set affected" using aff \<open>nd_name node = n\<close> by blast
  qed
qed

lemma prepare_nodes_result:
  "prepare_nodes env affected nodes prepared = Inr prepared' \<Longrightarrow> bt_wf prepared \<Longrightarrow> counts_positive prepared \<Longrightarrow>
    counts_positive prepared' \<and> dom (map_of prepared') = dom (map_of prepared) \<union> (nd_name ` set nodes \<inter> set affected)"
proof (induction nodes arbitrary: prepared)
  case (Cons node nodes)
  show ?case
  proof (cases "nd_name node \<in> set affected")
    case True
    then obtain handle n where pn: "prepare_node env node = Inr (handle, n)"
      and rest: "prepare_nodes env affected nodes (bt_insert (nd_name node) (handle, n) prepared) = Inr prepared'"
      using Cons.prems(1) by (auto simp: result_simps)
    have "0 < n" using pn by (auto simp: prepare_node_def Let_def result_simps)
    then have "counts_positive (bt_insert (nd_name node) (handle, n) prepared)"
      using Cons.prems(2,3) by (auto simp: counts_positive_def map_of_bt_insert)
    moreover have "dom (map_of (bt_insert (nd_name node) (handle, n) prepared)) = insert (nd_name node) (dom (map_of prepared))"
      using Cons.prems(2) by (simp add: map_of_bt_insert)
    ultimately show ?thesis using Cons.IH [OF rest] Cons.prems(2) True by auto
  next
    case False
    then show ?thesis using Cons by auto
  qed
qed simp

lemma valid_connections:
  assumes "graph_valid env p g"
  shows "distinct (gs_connections g)" and "inj_on target_of (set (gs_connections g))" and "distinct (map nd_name (gs_nodes g))"
proof -
  obtain cs where cs: "map connection_parse (gs_connections g) = map Inr cs" "distinct (map (\<lambda>c. (cn_to_node c, cn_to_port c)) cs)"
    using assms unfolding graph_valid_def by blast
  have "map conn (gs_connections g) = map (projr \<circ> connection_parse) (gs_connections g)" by (simp add: conn_def comp_def)
  also have "\<dots> = map projr (map connection_parse (gs_connections g))" by simp
  also have "\<dots> = cs" unfolding cs(1) by (simp add: comp_def)
  finally have "map target_of (gs_connections g) = map (\<lambda>c. (cn_to_node c, cn_to_port c)) cs"
    by (auto simp: target_of_def)
  then have "distinct (map target_of (gs_connections g))" using cs(2) by simp
  then show "distinct (gs_connections g)" and "inj_on target_of (set (gs_connections g))" by (simp_all add: distinct_map)
  show "distinct (map nd_name (gs_nodes g))" using assms by (simp add: graph_valid_def)
qed

lemma stop_affected_result:
  "rg_routes (stop_affected affected rg) = rg_routes rg" "rg_spec (stop_affected affected rg) = rg_spec rg"
  "rg_policy (stop_affected affected rg) = rg_policy rg"
  "bt_wf (rg_workers (stop_affected affected rg)) = bt_wf (rg_workers rg)"
  "name \<notin> set affected \<Longrightarrow> map_of (rg_workers (stop_affected affected rg)) name = map_of (rg_workers rg) name"
proof -
  have "map fst (rg_workers (stop_affected affected rg)) = map fst (rg_workers rg)" by (auto simp: stop_affected_def)
  then show "bt_wf (rg_workers (stop_affected affected rg)) = bt_wf (rg_workers rg)" by (simp add: bt_wf_def)
  show "name \<notin> set affected \<Longrightarrow> map_of (rg_workers (stop_affected affected rg)) name = map_of (rg_workers rg) name"
  proof -
    assume name: "name \<notin> set affected"
    have "map_of (map (\<lambda>(name, node). (name, if name \<in> set affected then stop_node node else node)) ws) name = map_of ws name" for ws
      using name by (induction ws) auto
    then show ?thesis by (simp add: stop_affected_def)
  qed
qed (simp_all add: stop_affected_def)

text \<open>A candidate that is applied: the graph is wired for it.\<close>

lemma candidate_steps:
  assumes "apply_hot_update_candidate env armed d candidate (rg, h) = (Inr (), rg', h')"
  obtains effective affected prepared joined rg1 drains rg2 rg3 where
    "effective_limits (pp_resource (rg_policy rg)) candidate = Inr effective" "graph_valid (ee_graph env) effective candidate"
    "affected_by d = Inr affected" "prepare_nodes env affected (gs_nodes candidate) [] = Inr prepared"
    "quiesce env (rg_spec rg) (gd_removed_nodes d) affected [] (stop_affected affected rg) = (Inr joined, rg1)"
    "switch_routes env affected candidate (rg1, h) = (Inr drains, rg2, h')"
    "spawn_hot_update_workers env effective (gs_connections candidate) prepared (gs_nodes candidate) rg2 = (Inr (), rg3)"
    "rg' = rg3\<lparr> rg_spec := candidate \<rparr>"
proof -
  obtain effective affected prepared where prep: "effective_limits (pp_resource (rg_policy rg)) candidate = Inr effective"
    "validate_with_policy (ee_graph env) effective candidate = Inr ()" "affected_by d = Inr affected"
    "prepare_nodes env affected (gs_nodes candidate) [] = Inr prepared" "\<not> fst (fault_take AfterPrepare armed)"
    using assms unfolding apply_hot_update_candidate_def prod.case
    by (auto simp: result_simps split: sum.splits)
  obtain q rg1 where q: "quiesce env (rg_spec rg) (gd_removed_nodes d) affected [] (stop_affected affected rg) = (q, rg1)" by fastforce
  obtain joined where joined: "q = Inr joined"
    using assms prep q unfolding apply_hot_update_candidate_def by (cases q) auto
  have nofault: "\<not> fst (fault_take AfterQuiesce armed)"
    using assms prep q joined unfolding apply_hot_update_candidate_def by (auto split: if_splits prod.splits sum.splits)
  obtain x rg2 h2 where sw: "switch_routes env affected candidate (rg1, h) = (x, rg2, h2)" by (rule prod_cases3)
  obtain drains where x: "x = Inr drains"
    using assms prep q joined nofault sw unfolding apply_hot_update_candidate_def by (cases x) auto
  have fin: "finish_update env effective candidate prepared drains armed rg2 = (Inr (), rg')" "h2 = h'"
    using assms prep q joined nofault sw x unfolding apply_hot_update_candidate_def by (auto split: prod.splits)
  obtain y rg3 where sp: "spawn_hot_update_workers env effective (gs_connections candidate) prepared (gs_nodes candidate) rg2 = (y, rg3)" by fastforce
  have "y = Inr ()" "rg' = rg3\<lparr> rg_spec := candidate \<rparr>"
    using fin(1) sp by (auto simp: finish_update_def fail_graph_def Let_def split: prod.splits if_splits sum.splits)
  then show thesis using that prep q joined sw x fin(2) sp validate_with_policy_ok by simp
qed

lemma candidate_rewires:
  assumes ap: "apply_hot_update_candidate env armed (graph_diff (rg_spec rg) new) new (rg, h) = (Inr (), rg', h')"
    and w: "wired rg h" and dist: "distinct (map nd_name (gs_nodes (rg_spec rg)))"
  shows "wired rg' h' \<and> rg_spec rg' = new"
proof -
  obtain effective affected prepared joined rg1 drains rg2 rg3 where
    valid: "graph_valid (ee_graph env) effective new"
    and aff: "affected_by (graph_diff (rg_spec rg) new) = Inr affected"
    and prep: "prepare_nodes env affected (gs_nodes new) [] = Inr prepared"
    and q: "quiesce env (rg_spec rg) (gd_removed_nodes (graph_diff (rg_spec rg) new)) affected [] (stop_affected affected rg) = (Inr joined, rg1)"
    and sw: "switch_routes env affected new (rg1, h) = (Inr drains, rg2, h')"
    and sp: "spawn_hot_update_workers env effective (gs_connections new) prepared (gs_nodes new) rg2 = (Inr (), rg3)"
    and rg': "rg' = rg3\<lparr> rg_spec := new \<rparr>"
    by (rule candidate_steps [OF ap]) blast
  note conns = valid_connections [OF valid]
  note af = affected_by_result [OF aff dist conns(3)]
  let ?C = "set (gs_connections (rg_spec rg))"
  have wf: "bt_wf (rg_workers rg)" and ro: "routes_ok ?C (rg_routes rg) h" and ww: "workers_wired (rg_routes rg) (rg_workers rg)"
    and names: "dom (map_of (rg_workers rg)) = nd_name ` set (gs_nodes (rg_spec rg))" using w by (simp_all add: wired_def)
  have quiet: "rg_routes rg1 = rg_routes rg" "bt_wf (rg_workers rg1)"
    "\<And>m. map_of (rg_workers rg1) m = (if m \<in> set affected then None else map_of (rg_workers rg) m)"
    using quiesce_result [OF q] wf by (simp_all add: stop_affected_result)
  have ro1: "routes_ok ?C (rg_routes rg1) h" using ro quiet(1) by simp
  note new = switch_routes_ok [OF sw ro1 conns(1,2)]
  note keep = unaffected_routes [OF sw ro1 conns(1,2) af(1)]
  have ws2: "rg_workers rg2 = rg_workers rg1" using new(2) by (metis RunningGraph.select_convs(4) RunningGraph.surjective RunningGraph.update_convs(5))
  have pos: "counts_positive prepared" and domp: "dom (map_of prepared) = nd_name ` set (gs_nodes new) \<inter> set affected"
    using prepare_nodes_result [OF prep] by (simp_all add: bt_wf_def counts_positive_def)
  have wf2: "bt_wf (rg_workers rg2)" using ws2 quiet(2) by simp
  note spawned = spawn_workers_result [OF sp pos conns(3) wf2 new(1)]
  have dec: "(m \<in> nd_name ` set (gs_nodes new) \<and> map_of prepared m \<noteq> None) \<longleftrightarrow> m \<in> nd_name ` set (gs_nodes new) \<inter> set affected" for m
    using domp by (auto simp: domIff)
  have entry: "if m \<in> nd_name ` set (gs_nodes new) \<inter> set affected then live (rg_routes rg2) m (map_of (rg_workers rg3) m)
      else map_of (rg_workers rg3) m = (if m \<in> set affected then None else map_of (rg_workers rg) m)" for m
    using spawned quiet(3) [of m] ws2 unfolding dec by simp
  have "list_all (worker_wired (rg_routes rg2) name) (ln_workers node)" if "map_of (rg_workers rg3) name = Some node" for name node
  proof (cases "name \<in> set affected")
    case True
    then have "live (rg_routes rg2) name (Some node)" using entry [of name] that by (simp split: if_splits)
    then show ?thesis by (auto simp: live_def)
  next
    case False
    then have "map_of (rg_workers rg) name = Some node" using entry [of name] that by simp
    then have "list_all (worker_wired (rg_routes rg) name) (ln_workers node)" using ww unfolding workers_wired_def by blast
    then show ?thesis using keep [OF False] quiet(1) by (auto simp: worker_wired_def list_all_iff)
  qed
  then have "workers_wired (rg_routes rg2) (rg_workers rg3)" by (simp add: workers_wired_def)
  moreover have "m \<in> dom (map_of (rg_workers rg3)) \<longleftrightarrow> m \<in> nd_name ` set (gs_nodes new)" for m
  proof (cases "m \<in> set affected")
    case True
    then show ?thesis using entry [of m] by (auto simp: live_def split: if_splits)
  next
    case False
    then have "m \<in> dom (map_of (rg_workers rg3)) \<longleftrightarrow> m \<in> dom (map_of (rg_workers rg))" using entry [of m] by (simp add: domIff)
    also have "\<dots> \<longleftrightarrow> m \<in> nd_name ` set (gs_nodes new)" unfolding names using af(2,3) False by blast
    finally show ?thesis .
  qed
  ultimately show ?thesis using new(1) spawned by (simp add: wired_def rg' set_eq_iff)
qed

section \<open>Updates that fail while joining\<close>

lemma forget_node_fields [simp]:
  "rg_workers (forget_node removed name rg) = rg_workers rg" "rg_status (forget_node removed name rg) = rg_status rg"
  by (simp_all add: forget_node_def)

lemma spawn_node_frame:
  assumes "spawn_node env effective cs metrics name pn rg = (Inr (), rg')" and "bt_wf (rg_workers rg)" and "m \<noteq> name"
  shows "bt_wf (rg_workers rg')" "map_of (rg_workers rg') m = map_of (rg_workers rg) m"
  using assms by (auto simp: spawn_node_def Let_def map_of_bt_insert split: prod.splits sum.splits if_splits option.splits ElementHandle.splits)

text \<open>Respawning touches only the entries of the nodes it is asked for.\<close>

lemma respawn_nodes_frame:
  assumes "respawn_nodes env effective spec names rg = (Inr (), rg')" and "bt_wf (rg_workers rg)" and "m \<notin> set names"
  shows "map_of (rg_workers rg') m = map_of (rg_workers rg) m"
  using assms
proof (induction names arbitrary: rg)
  case (Cons name names)
  show ?case
  proof (cases "find (\<lambda>node. nd_name node = name) (gs_nodes spec) = None \<or> map_of (rg_workers rg) name \<noteq> None")
    case True
    then have "respawn_nodes env effective spec names rg = (Inr (), rg')" using Cons.prems(1) by (auto split: option.splits)
    then show ?thesis using Cons by simp
  next
    case False
    then obtain node pn rg1 where
      "spawn_node env effective (gs_connections spec) metrics_default name pn rg = (Inr (), rg1)"
      "respawn_nodes env effective spec names rg1 = (Inr (), rg')"
      using Cons.prems(1) by (auto split: sum.splits prod.splits)
    then show ?thesis using Cons.IH spawn_node_frame [of env effective "gs_connections spec" metrics_default name pn rg rg1 m] Cons.prems(2,3)
      by simp
  qed
qed simp

text \<open>The node whose workers fail to join is gone, and the affected nodes after it are as they were.\<close>

lemma quiesce_gap:
  assumes "quiesce env previous removed names joined rg = (Inl e, rg')" and "bt_wf (rg_workers rg)" and "distinct (joined @ names)"
    and "fst (status rg') \<noteq> Failed"
  shows "\<exists>before name after. names = before @ name # after \<and> map_of (rg_workers rg) name \<noteq> None \<and>
    map_of (rg_workers rg') name = None \<and> (\<forall>m \<in> set after. map_of (rg_workers rg') m = map_of (rg_workers rg) m)"
  using assms
proof (induction names arbitrary: joined rg)
  case (Cons name names)
  let ?rg1 = "rg\<lparr> rg_workers := bt_remove name (rg_workers rg) \<rparr>"
  have later: ?case if q: "quiesce env previous removed names joined' (forget_node removed name rg1) = (Inl e, rg')"
      and ws: "bt_wf (rg_workers rg1)" "\<And>m. m \<in> set names \<Longrightarrow> map_of (rg_workers rg1) m = map_of (rg_workers rg) m"
      and dist: "distinct (joined' @ names)" for rg1 joined'
  proof -
    obtain before n after where "names = before @ n # after" "map_of (rg_workers rg1) n \<noteq> None"
        "map_of (rg_workers rg') n = None" "\<forall>m \<in> set after. map_of (rg_workers rg') m = map_of (rg_workers rg1) m"
      using Cons.IH [OF q _ dist Cons.prems(4)] ws(1) by auto
    then show ?thesis using ws(2) by (intro exI [of _ "name # before"] exI [of _ n] exI [of _ after]) simp
  qed
  show ?case
  proof (cases "map_of (rg_workers rg) name")
    case None
    then show ?thesis using later [of joined rg] Cons.prems by simp
  next
    case (Some node)
    show ?thesis
    proof (cases "join_workers (ee_outcome env) True name (ln_workers node)")
      case (Inr u)
      then have q: "quiesce env previous removed names (joined @ [name]) (forget_node removed name ?rg1) = (Inl e, rg')"
        using Cons.prems(1) Some by (simp add: Let_def)
      have "map_of (rg_workers ?rg1) m = map_of (rg_workers rg) m" if "m \<in> set names" for m
        using that Cons.prems(3) by (auto simp: map_of_bt_remove)
      then show ?thesis using later [OF q] Cons.prems(2,3) by simp
    next
      case (Inl e')
      then have "respawn_nodes_from_spec env previous joined ?rg1 = (Inr (), rg')"
        using Cons.prems(1,4) Some by (auto simp: Let_def status_def set_status_def status_from_u8_def split: prod.splits sum.splits)
      then obtain effective where r: "respawn_nodes env effective previous joined ?rg1 = (Inr (), rg')"
        by (auto simp: respawn_nodes_from_spec_def split: sum.splits)
      have "map_of (rg_workers rg') m = map_of (rg_workers ?rg1) m" if "m \<in> set (name # names)" for m
        using respawn_nodes_frame [OF r, of m] that Cons.prems(2,3) by auto
      then have "map_of (rg_workers rg') name = None" "\<forall>m \<in> set names. map_of (rg_workers rg') m = map_of (rg_workers rg) m"
        using Cons.prems(3) by (auto simp: map_of_bt_remove)
      then show ?thesis using Some by (intro exI [of _ "[]"] exI [of _ name] exI [of _ names]) simp
    qed
  qed
qed simp

lemma map_of_stop_affected:
  "map_of (rg_workers (stop_affected affected rg)) m =
    map_option (\<lambda>node. if m \<in> set affected then stop_node node else node) (map_of (rg_workers rg) m)"
proof -
  have "map_of (map (\<lambda>(name, node). (name, if name \<in> A then stop_node node else node)) ws) m =
    map_option (\<lambda>node. if m \<in> A then stop_node node else node) (map_of ws m)" for A and ws :: "(string \<times> LiveNode) list"
    by (induction ws) auto
  then show ?thesis by (simp add: stop_affected_def)
qed

section \<open>Properties\<close>

text \<open>A hot update keeps the running graph and its configuration in agreement: if the routes of the
  graph implement its connections and every worker holds the routes of its node, then after a
  successful update the same holds for the new configuration, for the workers that were replaced
  and for those that kept running, and every node of the new configuration has its entry.\<close>

lemma hot_update_rewires:
  assumes "wired rg h" and "distinct (map nd_name (gs_nodes (rg_spec rg)))"
    and "apply_hot_update_spec env armed new (rg, h) = (Inr d, rg', h')"
  shows "wired rg' h' \<and> (rg_spec rg' = new \<or> rg' = rg \<and> h' = h \<and> diff_is_empty d)"
proof (cases "diff_is_empty (graph_diff (rg_spec rg) new)")
  case False
  have "\<exists>r rg1 h1. with_reloading (apply_hot_update_candidate env armed (graph_diff (rg_spec rg) new) new) (rg, h) = (r, rg1, h1)"
    by (metis prod_cases3)
  then obtain rg1 h1 where wr: "with_reloading (apply_hot_update_candidate env armed (graph_diff (rg_spec rg) new) new) (rg, h) = (Inr (), rg1, h1)"
    and eqs: "rg' = rg1" "h' = h1"
    using assms(3) False by (auto simp: apply_hot_update_spec_def Let_def split: if_splits sum.splits prod.splits)
  obtain r rg2 h2 where ap: "apply_hot_update_candidate env armed (graph_diff (rg_spec rg) new) new (set_status Reloading rg, h) = (r, rg2, h2)"
    by (rule prod_cases3)
  have r: "r = Inr ()" "rg1 = set_status Running rg2" "h1 = h2"
    using wr ap by (auto simp: with_reloading_def split: sum.splits if_splits)
  have start: "wired (set_status Reloading rg) h" "rg_spec (set_status Reloading rg) = rg_spec rg"
    using assms(1) by (simp_all add: wired_def set_status_def)
  have "wired rg2 h2 \<and> rg_spec rg2 = new"
    using candidate_rewires [of env armed "set_status Reloading rg" new h rg2 h2] ap r(1) start assms(2) by simp
  then show ?thesis using r eqs by (auto simp: wired_def set_status_def)
next
  case True
  then consider (none) "rg' = rg" "h' = h" "d = graph_diff (rg_spec rg) new"
    | (config) effective where "rg' = rg\<lparr> rg_spec := new \<rparr>" "h' = h" "graph_valid (ee_graph env) effective new"
    using assms(3) validate_with_policy_ok
    by (auto simp: apply_hot_update_spec_def Let_def result_simps split: if_splits sum.splits)
  then show ?thesis
  proof cases
    case none
    then show ?thesis using assms(1) True by simp
  next
    case config
    have "distinct (map nd_name (gs_nodes new))" using valid_connections(3) [OF config(3)] .
    then have "set (gs_nodes (rg_spec rg)) = set (gs_nodes new)" "set (gs_connections (rg_spec rg)) = set (gs_connections new)"
      using True diff_empty_iff [OF assms(2)] by blast+
    then show ?thesis using assms(1) config by (simp add: wired_def)
  qed
qed

lemma hot_update_names:
  assumes "apply_hot_update_spec env armed new (rg, h) = (Inr d, rg', h')"
  shows "rg' = rg \<or> distinct (map nd_name (gs_nodes new))"
proof (rule ccontr)
  assume neg: "\<not> (rg' = rg \<or> distinct (map nd_name (gs_nodes new)))"
  have "validate_with_policy (ee_graph env) effective new \<noteq> Inr ()" for effective
    using neg valid_connections(3) validate_with_policy_ok by blast
  then have "and_then (effective_limits (pp_resource (rg_policy rg)) new) (\<lambda>e. validate_with_policy (ee_graph env) e new) \<noteq> Inr u" for u
    by (simp add: result_simps)
  then show False using assms neg by (auto simp: apply_hot_update_spec_def Let_def split: if_splits sum.splits)
qed
text \<open>An update whose candidate is refused touches neither workers nor routes nor configuration, but
  it does overwrite the status: the graph reports that it is running, even if it had been stopped or
  had failed before.\<close>

lemma refused_update_sets_running:
  assumes "\<not> diff_is_empty d" and "merge_for_diff (rg_spec rg) d = Inr candidate"
    and "effective_limits (pp_resource (rg_policy rg)) candidate = Inr effective"
    and "validate_with_policy (ee_graph env) effective candidate = Inl e"
  shows "apply_hot_update env armed d (rg, h) = (Inl e, rg\<lparr> rg_status := status_code Running \<rparr>, h)"
  using assms by (simp add: apply_hot_update_def with_reloading_def apply_hot_update_candidate_def set_status_def status_def status_from_u8_def)

text \<open>C33. An update that fails because workers of some node do not end cleanly leaves a gap: unless the graph
  is marked failed, its status goes back to running although the node that failed has no entry any
  more, and the affected nodes after it keep the stop flag they were given.\<close>

theorem failed_join_leaves_gap:
  assumes "\<not> diff_is_empty d" and "merge_for_diff (rg_spec rg) d = Inr candidate"
    and "effective_limits (pp_resource (rg_policy rg)) candidate = Inr effective"
    and "validate_with_policy (ee_graph env) effective candidate = Inr ()"
    and "affected_by d = Inr affected" and "prepare_nodes env affected (gs_nodes candidate) [] = Inr prepared"
    and "quiesce env (rg_spec rg) (gd_removed_nodes d) affected [] (stop_affected affected (set_status Reloading rg)) = (Inl e, rg1)"
    and "fst (status rg1) \<noteq> Failed" and "bt_wf (rg_workers rg)"
  shows "\<exists>rg' before name after. apply_hot_update env None d (rg, h) = (Inl e, rg', h) \<and> fst (status rg') = Running \<and>
    affected = before @ name # after \<and> map_of (rg_workers rg) name \<noteq> None \<and> map_of (rg_workers rg') name = None \<and>
    (\<forall>m \<in> set after. map_of (rg_workers rg') m = map_option stop_node (map_of (rg_workers rg) m))"
proof -
  have "distinct affected" using assms(5) by (auto simp: affected_by_def result_simps bt_set_def)
  then obtain before name after where gap: "affected = before @ name # after"
      "map_of (rg_workers (stop_affected affected (set_status Reloading rg))) name \<noteq> None"
      "map_of (rg_workers rg1) name = None"
      "\<forall>m \<in> set after. map_of (rg_workers rg1) m = map_of (rg_workers (stop_affected affected (set_status Reloading rg))) m"
    using quiesce_gap [OF assms(7) _ _ assms(8)] assms(9) by (auto simp: stop_affected_result set_status_def)
  have "apply_hot_update env None d (rg, h) = (Inl e, set_status Running rg1, h)"
    using assms by (simp add: apply_hot_update_def with_reloading_def apply_hot_update_candidate_def set_status_def fault_take_def)
  moreover have "fst (status (set_status Running rg1)) = Running" by (simp add: status_def set_status_def status_from_u8_def)
  ultimately show ?thesis using gap by (auto simp: map_of_stop_affected set_status_def)
qed

section \<open>Examples\<close>

text \<open>A registry with one element kind without ports, and graphs of such nodes.\<close>

definition plain_descriptor :: ElementDescriptor where
  "plain_descriptor = \<lparr> ed_kind = ''k'', ed_input_ports = [], ed_output_ports = [], ed_params = [], ed_validate = None \<rparr>"

definition plain_env :: "(worker \<Rightarrow> thread_result) \<Rightarrow> engine_env" where
  "plain_env outcome = \<lparr> ee_graph = sample_env\<lparr> ge_registered := [plain_descriptor] \<rparr>, ee_create = (\<lambda>_ _. Inr NoHandle),
    ee_outcome = outcome, ee_spawn = (\<lambda>_ _. None), ee_drain = (\<lambda>_ _. Inr ()) \<rparr>"

definition plain_node :: "string \<Rightarrow> string \<Rightarrow> NodeSpec" where
  "plain_node kind name = \<lparr> nd_name = name, nd_kind = kind, nd_threads = None, nd_sink = False, nd_backend = None, nd_device = None,
    nd_precision = None, nd_template = None, nd_params = Null \<rparr>"

definition plain_spec :: "NodeSpec list \<Rightarrow> GraphSpec" where
  "plain_spec nodes = graph_spec_default\<lparr> gs_nodes := nodes \<rparr>"

definition plain_running :: "NodeSpec list \<Rightarrow> GraphStatus \<Rightarrow> unit RunningGraph" where
  "plain_running nodes s = (sample_running (map (\<lambda>n. (nd_name n, \<lparr> ln_stop = False,
      ln_workers = [\<lparr> wk_inputs = [], wk_outputs = [], wk_finished = None \<rparr>] \<rparr>)) nodes))
    \<lparr> rg_spec := plain_spec nodes, rg_status := status_code s \<rparr>"

definition empty_heap :: route_heap where
  "empty_heap = \<lparr> rh_tables = (\<lambda>_. []), rh_next_table = 0, rh_capacity = (\<lambda>_. None), rh_next_pipe = 0 \<rparr>"

lemma plain_effective: "effective_limits resource_policy_default (plain_spec nodes) = Inr resource_policy_default"
  using sample_policy [of "[]"] by (simp add: effective_limits_def plain_spec_def graph_spec_default_def)

lemma plain_valid:
  "validate_with_policy (ee_graph (plain_env outcome)) resource_policy_default (plain_spec nodes) = Inr () \<longleftrightarrow>
    nodes = [] \<or> nd_kind (hd nodes) = ''k''"
  if "nodes = [] \<or> nodes = [plain_node kind name]"
  using that unfolding validate_with_policy_ok
  by (auto simp: graph_valid_def plain_spec_def plain_node_def plain_env_def plain_descriptor_def graph_spec_default_def sample_env_def
      execution_ok_def execution_default_def node_ok_def find_element_def validate_element_def output_tensor_bytes_def
      saturating_add_def usize_max_def unwrap_or_def DEFAULT_QUEUE_CAPACITY_def resource_policy_default_def total_workers_def acyclic_def)

lemma plain_fields [simp]:
  "rg_spec (plain_running nodes s) = plain_spec nodes" "gs_nodes (plain_spec nodes) = nodes" "gs_connections (plain_spec nodes) = []"
  "rg_routes (plain_running nodes s) = \<lparr> rr_edges = [], rr_inputs = [], rr_outputs = [] \<rparr>"
  "pp_resource (rg_policy (plain_running nodes s)) = resource_policy_default"
  by (simp_all add: plain_running_def plain_spec_def graph_spec_default_def sample_running_def process_policy_default_def)

definition plain_diff :: "NodeSpec list \<Rightarrow> string list \<Rightarrow> GraphDiff" where
  "plain_diff added removed = \<lparr> gd_added_nodes = added, gd_removed_nodes = removed, gd_updated_nodes = [],
    gd_added_connections = [], gd_removed_connections = [] \<rparr>"

lemma plain_diff_facts:
  "graph_diff (plain_spec []) (plain_spec [plain_node kind name]) = plain_diff [plain_node kind name] []"
  "diff_is_empty (plain_diff added removed) \<longleftrightarrow> added = [] \<and> removed = []"
  "affected_by (plain_diff [] [name]) = Inr [name]" "affected_by (plain_diff [plain_node kind name] []) = Inr [name]"
  by (auto simp: graph_diff_def plain_diff_def plain_node_def node_map_def bt_set_def bt_keys_def diff_is_empty_def affected_by_def)

lemma plain_status:
  "rg_policy (set_status s rg) = rg_policy rg" "rg_spec (set_status s rg) = rg_spec rg"
  by (simp_all add: set_status_def)

lemma plain_removed: "gd_removed_nodes (plain_diff added removed) = removed"
  by (simp add: plain_diff_def)

theorem failed_join_leaves_gap_witness:
  "\<exists>e rg'. apply_hot_update (plain_env (\<lambda>_. ThreadPanic)) None (plain_diff [] [''a''])
      (plain_running [plain_node ''k'' ''a''] Running, empty_heap) = (Inl e, rg', empty_heap) \<and>
    fst (status rg') = Running \<and> map_of (rg_workers rg') ''a'' = None"
proof -
  let ?rg = "plain_running [plain_node ''k'' ''a''] Running" and ?env = "plain_env (\<lambda>_. ThreadPanic)"
  have merge: "merge_for_diff (rg_spec ?rg) (plain_diff [] [''a'']) = Inr (plain_spec [])"
    by (simp add: merge_for_diff_def plain_diff_def diff_is_empty_def plain_spec_def graph_spec_default_def plain_node_def retain_other_def)
  have valid: "validate_with_policy (ee_graph ?env) resource_policy_default (plain_spec []) = Inr ()" by (subst plain_valid) auto
  let ?rg1 = "(set_status Reloading ?rg)\<lparr> rg_workers := [] \<rparr>"
  have join: "join_workers (ee_outcome ?env) True ''a'' [\<lparr> wk_inputs = [], wk_outputs = [], wk_finished = None \<rparr>] =
      Inl (GElement ''a'' ''worker panicked'')"
    by (simp add: join_workers_def plain_env_def select_error_def)
  have respawn: "respawn_nodes_from_spec ?env (plain_spec nodes) [] ?rg1 = (Inr (), ?rg1)" for nodes
    by (simp add: respawn_nodes_from_spec_def plain_effective plain_status)
  have stopped: "rg_workers (stop_affected [''a''] (set_status Reloading ?rg)) =
      [(''a'', \<lparr> ln_stop = True, ln_workers = [\<lparr> wk_inputs = [], wk_outputs = [], wk_finished = None \<rparr>] \<rparr>)]"
    "(stop_affected [''a''] (set_status Reloading ?rg))\<lparr> rg_workers := [] \<rparr> = ?rg1"
    by (simp_all add: stop_affected_def plain_running_def sample_running_def plain_node_def set_status_def stop_node_def)
  have "quiesce ?env (rg_spec ?rg) (gd_removed_nodes (plain_diff [] [''a''])) [''a''] [] (stop_affected [''a''] (set_status Reloading ?rg)) =
      (Inl (GElement ''a'' ''worker panicked''), ?rg1)"
    by (simp add: stopped join respawn bt_remove_def)
  moreover have "fst (status ?rg1) \<noteq> Failed" by (simp add: status_def set_status_def status_from_u8_def)
  ultimately obtain e rg1 where "quiesce ?env (rg_spec ?rg) (gd_removed_nodes (plain_diff [] [''a''])) [''a''] [] (stop_affected [''a''] (set_status Reloading ?rg)) = (Inl e, rg1)"
      "fst (status rg1) \<noteq> Failed" by blast
  from failed_join_leaves_gap [OF _ merge _ valid plain_diff_facts(3) _ this, of "[]" empty_heap]
  obtain rg' before name after where "apply_hot_update ?env None (plain_diff [] [''a'']) (?rg, empty_heap) = (Inl e, rg', empty_heap)"
      "fst (status rg') = Running" "[''a''] = before @ name # after" "map_of (rg_workers rg') name = None"
    by (auto simp: plain_effective plain_diff_facts bt_wf_def plain_running_def sample_running_def process_policy_default_def)
  then show ?thesis by (auto simp: Cons_eq_append_conv)
qed

end
