(* ===== verification/Startup.thy ===== *)
theory Startup
  imports Rewiring
begin

text \<open>
  Starting a graph, from \<open>RuntimeGraph::build\<close>, \<open>RuntimeGraph::start\<close> and \<open>Graph::start\<close> of
  \<open>dg-graph/src/engine.rs\<close>: the elements are created, the injected tensors queued, a pipe is made for every
  connection, the tables of the output ports are filled, and the workers are spawned.  The lemmas
  show that what is started satisfies the wiring invariant that hot updates keep.  The iteration
  order of the hash map of injected tensors is the order of the list that represents it.
\<close>

section \<open>Building\<close>

record NodeRuntime =
  nr_name :: string
  nr_elements :: nat
  nr_handle :: ElementHandle
  nr_inputs :: "(string \<times> nat) list"
  nr_outputs :: "(string \<times> nat list) list"

type_synonym runtime_nodes = "(string \<times> NodeRuntime) list"

definition build_node :: "engine_env \<Rightarrow> NodeSpec \<Rightarrow> NodeRuntime graph_result" where
  "build_node env node =
    (let threads = unwrap_or (nd_threads node) 1 in
     and_then (ee_create env node 0) (\<lambda>handle.
     and_then (fail_if (threads > 1 \<and> (nd_kind node = ''source'' \<or> handle \<noteq> NoHandle)) (single_instance_error node)) (\<lambda>_.
     and_then (fail_if (\<not> ge_alloc (ee_graph env) threads)
       (GConfig (''failed to allocate element vector for node '' @ nd_name node @ '' with '' @ show_nat threads @ '' threads''))) (\<lambda>_.
     and_then (create_instances env node 1 (threads - 1)) (\<lambda>_.
     Inr \<lparr> nr_name = nd_name node, nr_elements = max 1 threads, nr_handle = handle, nr_inputs = [], nr_outputs = [] \<rparr>)))))"

fun build_nodes :: "engine_env \<Rightarrow> NodeSpec list \<Rightarrow> runtime_nodes \<Rightarrow> runtime_nodes graph_result" where
  "build_nodes env [] nodes = Inr nodes"
| "build_nodes env (node # rest) nodes =
    and_then (build_node env node) (\<lambda>n. build_nodes env rest (bt_insert (nd_name node) n nodes))"

definition sinks_of :: "runtime_nodes \<Rightarrow> (string \<times> SinkCollector) list" where
  "sinks_of nodes = concat (map (\<lambda>(name, n). case nr_handle n of SinkHandle collector \<Rightarrow> [(name, collector)] | _ \<Rightarrow> []) nodes)"

text \<open>The tensors injected into an input node: each within the limit, and all of them within the buffer
  limits.\<close>

fun input_bytes_loop :: "resource_policy \<Rightarrow> tensor list \<Rightarrow> usize \<Rightarrow> usize graph_result" where
  "input_bytes_loop p [] input_bytes = Inr input_bytes"
| "input_bytes_loop p (t # ts) input_bytes =
    and_then (map_err GCore (storage_bytes (t_desc t))) (\<lambda>tensor_bytes.
    and_then (map_err GCore (check_tensor_bytes p tensor_bytes)) (\<lambda>_.
    input_bytes_loop p ts (saturating_add input_bytes tensor_bytes)))"

fun inject_inputs :: "resource_policy \<Rightarrow> (string \<times> tensor list) list \<Rightarrow> runtime_nodes \<Rightarrow> runtime_nodes graph_result" where
  "inject_inputs p [] nodes = Inr nodes"
| "inject_inputs p ((name, tensors) # rest) nodes =
    (case map_of nodes name of
       Some n \<Rightarrow>
        (case nr_handle n of
           InputHandle queue \<Rightarrow>
             and_then (input_bytes_loop p tensors 0) (\<lambda>input_bytes.
             and_then (map_err GCore (check_buffer_packets p (saturating_add (length queue) (length tensors)))) (\<lambda>_.
             and_then (map_err GCore (check_buffer_bytes p input_bytes)) (\<lambda>_.
             inject_inputs p rest (bt_insert name (n\<lparr> nr_handle := InputHandle (queue @ tensors) \<rparr>) nodes))))
         | _ \<Rightarrow> Inl (GConfig (''unknown input node '' @ name @ '' for injected tensors'')))
     | None \<Rightarrow> Inl (GConfig (''unknown input node '' @ name @ '' for injected tensors'')))"

definition push_output :: "string \<Rightarrow> nat \<Rightarrow> NodeRuntime \<Rightarrow> NodeRuntime" where
  "push_output port pipe n = n\<lparr> nr_outputs := bt_insert port (unwrap_or (map_of (nr_outputs n) port) [] @ [pipe]) (nr_outputs n) \<rparr>"

definition set_input :: "string \<Rightarrow> nat \<Rightarrow> NodeRuntime \<Rightarrow> NodeRuntime" where
  "set_input port pipe n = n\<lparr> nr_inputs := bt_insert port pipe (nr_inputs n) \<rparr>"

fun build_edges ::
  "ExecutionSpec \<Rightarrow> string list \<Rightarrow> runtime_nodes \<Rightarrow> (string \<times> EdgeRoute) list \<Rightarrow> route_heap \<Rightarrow>
    (runtime_nodes \<times> (string \<times> EdgeRoute) list \<times> route_heap) graph_result"
where
  "build_edges ex [] nodes edges h = Inr (nodes, edges, h)"
| "build_edges ex (c # cs) nodes edges h =
    and_then (connection_parse c) (\<lambda>p.
    let (pipe, h1) = new_pipe ex h in
    and_then (ok_or (map_of nodes (cn_from_node p)) (GConfig (''missing source node '' @ cn_from_node p))) (\<lambda>src.
    let nodes1 = bt_insert (cn_from_node p) (push_output (cn_from_port p) pipe src) nodes in
    and_then (ok_or (map_of nodes1 (cn_to_node p)) (GConfig (''missing destination node '' @ cn_to_node p))) (\<lambda>dst.
    and_then (fail_if (map_of (nr_inputs dst) (cn_to_port p) \<noteq> None)
      (GConfig (''multiple inbound edges to '' @ cn_to_node p @ ''.'' @ cn_to_port p @ '' are not supported''))) (\<lambda>_.
    build_edges ex cs (bt_insert (cn_to_node p) (set_input (cn_to_port p) pipe dst) nodes1)
      (bt_insert c \<lparr> er_sender = pipe, er_receiver = pipe \<rparr> edges) h1))))"

text \<open>The routes by node and port.  Every output port gets a table of its own.\<close>

definition node_inputs :: "runtime_nodes \<Rightarrow> ((string \<times> string) \<times> nat) list" where
  "node_inputs nodes = concat (map (\<lambda>(_, n). map (\<lambda>(port, receiver). ((nr_name n, port), receiver)) (nr_inputs n)) nodes)"

definition node_outputs :: "runtime_nodes \<Rightarrow> ((string \<times> string) \<times> nat list) list" where
  "node_outputs nodes = concat (map (\<lambda>(_, n). map (\<lambda>(port, senders). ((nr_name n, port), senders)) (nr_outputs n)) nodes)"

definition new_table :: "nat list \<Rightarrow> route_heap \<Rightarrow> nat \<times> route_heap" where
  "new_table senders h = (rh_next_table h,
    h\<lparr> rh_tables := (rh_tables h)(rh_next_table h := senders), rh_next_table := Suc (rh_next_table h) \<rparr>)"

fun output_tables ::
  "((string \<times> string) \<times> nat list) list \<Rightarrow> ((string \<times> string) \<times> nat) list \<Rightarrow> route_heap \<Rightarrow> ((string \<times> string) \<times> nat) list \<times> route_heap"
where
  "output_tables [] outs h = (outs, h)"
| "output_tables ((key, senders) # rest) outs h =
    (let (t, h1) = new_table senders h in output_tables rest (bt_insert key t outs) h1)"

text \<open>An input port without a connection to it.\<close>

definition reaches_port :: "string \<Rightarrow> string \<Rightarrow> string \<Rightarrow> bool" where
  "reaches_port name port c \<longleftrightarrow>
    (case connection_parse c of Inl _ \<Rightarrow> False | Inr p \<Rightarrow> cn_to_node p = name \<and> cn_to_port p = port)"

definition check_upstream :: "string list \<Rightarrow> runtime_nodes \<Rightarrow> unit graph_result" where
  "check_upstream connections nodes =
    (case find (\<lambda>((name, port), _). \<not> list_ex (reaches_port name port) connections) (node_inputs nodes) of
       None \<Rightarrow> Inr ()
     | Some ((name, port), _) \<Rightarrow> Inl (GConfig (''input port '' @ name @ ''.'' @ port @ '' has no upstream connection'')))"

text \<open>The routes of one instance; a port that had no table would get one of its own.\<close>

fun instance_outputs ::
  "string \<Rightarrow> ((string \<times> string) \<times> nat) list \<Rightarrow> (string \<times> nat list) list \<Rightarrow> route_heap \<Rightarrow> (string \<times> nat) list \<times> route_heap"
where
  "instance_outputs name outputs [] h = ([], h)"
| "instance_outputs name outputs ((port, senders) # rest) h =
    (let (t, h1) = (case map_of outputs (name, port) of Some t \<Rightarrow> (t, h) | None \<Rightarrow> new_table senders h);
         (outs, h2) = instance_outputs name outputs rest h1
     in ((port, t) # outs, h2))"

fun node_instances ::
  "NodeRuntime \<Rightarrow> ((string \<times> string) \<times> nat) list \<Rightarrow> nat \<Rightarrow> route_heap \<Rightarrow> (string \<times> worker) list \<times> route_heap"
where
  "node_instances n outputs 0 h = ([], h)"
| "node_instances n outputs (Suc k) h =
    (let (outs, h1) = instance_outputs (nr_name n) outputs (nr_outputs n) h;
         (rest, h2) = node_instances n outputs k h1
     in ((nr_name n, \<lparr> wk_inputs = nr_inputs n, wk_outputs = outs, wk_finished = None \<rparr>) # rest, h2))"

fun exec_nodes ::
  "((string \<times> string) \<times> nat) list \<Rightarrow> runtime_nodes \<Rightarrow> route_heap \<Rightarrow> (string \<times> worker) list \<times> route_heap"
where
  "exec_nodes outputs [] h = ([], h)"
| "exec_nodes outputs ((_, n) # nodes) h =
    (let (ws, h1) = node_instances n outputs (nr_elements n) h; (rest, h2) = exec_nodes outputs nodes h1
     in (ws @ rest, h2))"

record RuntimeGraph =
  rt_nodes :: "(string \<times> worker) list"
  rt_routes :: RuntimeRoutes
  rt_spec :: GraphSpec
  rt_policy :: ProcessRuntimePolicy
  rt_stop :: bool

text \<open>The last part of \<open>build\<close>, once the pipes are made.\<close>

definition assemble ::
  "engine_env \<Rightarrow> resource_policy \<Rightarrow> GraphSpec \<Rightarrow> ProcessRuntimePolicy \<Rightarrow> (string \<times> SinkCollector) list \<Rightarrow>
    runtime_nodes \<times> (string \<times> EdgeRoute) list \<times> route_heap \<Rightarrow>
    (RuntimeGraph \<times> (string \<times> SinkCollector) list \<times> (string \<times> 'b ElementMetrics) list \<times> route_heap) graph_result"
where
  "assemble env effective spec policy sinks = (\<lambda>(nodes, edges, h1).
    let input_routes = bt_extend [] (node_inputs nodes);
        (output_routes, h2) = output_tables (node_outputs nodes) [] h1;
        total_elements = sum_list (map (\<lambda>(_, n). nr_elements n) nodes) in
    and_then (check_upstream (gs_connections spec) nodes) (\<lambda>_.
    and_then (fail_if (\<not> ge_alloc (ee_graph env) total_elements)
      (GConfig (''failed to allocate exec node vector for '' @ show_nat total_elements @ '' elements''))) (\<lambda>_.
    let budgeted = map (\<lambda>(name, collector). (name, set_budget (max_buffer_packets effective) (max_buffer_bytes effective) collector)) sinks;
        metrics = fold (\<lambda>(_, n). bt_insert (nr_name n) metrics_default) nodes [];
        (workers, h3) = exec_nodes output_routes nodes h2
    in Inr (\<lparr> rt_nodes = workers, rt_routes = \<lparr> rr_edges = edges, rr_inputs = input_routes, rr_outputs = output_routes \<rparr>,
              rt_spec = spec, rt_policy = policy, rt_stop = False \<rparr>, budgeted, metrics, h3))))"

definition runtime_build ::
  "engine_env \<Rightarrow> GraphSpec \<Rightarrow> (string \<times> tensor list) list \<Rightarrow> ProcessRuntimePolicy \<Rightarrow> route_heap \<Rightarrow>
    (RuntimeGraph \<times> (string \<times> SinkCollector) list \<times> (string \<times> 'b ElementMetrics) list \<times> route_heap) graph_result"
where
  "runtime_build env spec inputs policy h =
    and_then (map_err GCore (effective_for (pp_resource policy) (policy_of_limits (gs_limits spec)))) (\<lambda>effective.
    and_then (build_nodes env (gs_nodes spec) []) (\<lambda>nodes0.
    and_then (inject_inputs effective inputs nodes0) (\<lambda>nodes1.
    and_then (build_edges (gs_execution spec) (gs_connections spec) nodes1 [] h) (\<lambda>built.
    assemble env effective spec policy (sinks_of nodes0) built))))"

section \<open>Starting\<close>

definition group_nodes :: "(string \<times> worker) list \<Rightarrow> (string \<times> worker list) list" where
  "group_nodes nodes = fold (\<lambda>(name, w) m. bt_insert name (unwrap_or (map_of m name) [] @ [w]) m) nodes []"

fun start_nodes ::
  "engine_env \<Rightarrow> NodeSpec list \<Rightarrow> (string \<times> worker list) list \<Rightarrow> 'b RunningGraph \<Rightarrow> unit graph_result \<times> 'b RunningGraph"
where
  "start_nodes env [] grouped rg =
    (if grouped \<noteq> [] then (Inl (GRuntime ''runtime contains unknown nodes''), abort_spawns rg)
     else (Inr (), set_status Running rg))"
| "start_nodes env (node # rest) grouped rg =
    (let name = nd_name node in
     case map_of grouped name of
       None \<Rightarrow> (Inl (GRuntime (''missing runtime node '' @ name)), abort_spawns rg)
     | Some ws \<Rightarrow>
        if ws = [] then (Inl (GRuntime (''node '' @ name @ '' has no executable workers'')), abort_spawns rg)
        else if \<not> ge_alloc (ee_graph env) (length ws)
        then (Inl (GConfig (''failed to allocate worker handle vector for '' @ show_nat (length ws) @ '' nodes'')), rg)
        else case spawn_failure env name (length ws) of
          Some err \<Rightarrow> (Inl (GRuntime (''failed to spawn worker for node '' @ name @ '': '' @ err)), abort_spawns rg)
        | None \<Rightarrow>
           start_nodes env rest (bt_remove name grouped)
             (rg\<lparr> rg_workers := bt_insert name \<lparr> ln_stop = False, ln_workers = ws \<rparr> (rg_workers rg) \<rparr>))"

definition runtime_start ::
  "engine_env \<Rightarrow> RuntimeGraph \<Rightarrow> (string \<times> SinkCollector) list \<Rightarrow> (string \<times> 'b ElementMetrics) list \<Rightarrow>
    unit graph_result \<times> 'b RunningGraph"
where
  "runtime_start env rt sinks metrics =
    start_nodes env (gs_nodes (rt_spec rt)) (group_nodes (rt_nodes rt))
      \<lparr> rg_spec = rt_spec rt, rg_policy = rt_policy rt, rg_stop = rt_stop rt, rg_workers = [], rg_routes = rt_routes rt,
        rg_sinks = sinks, rg_metrics = metrics, rg_status = status_code Starting, rg_root_cause = None \<rparr>"

definition start :: "engine_env \<Rightarrow> Graph \<Rightarrow> (string \<times> tensor list) list \<Rightarrow> route_heap \<Rightarrow> ('b RunningGraph \<times> route_heap) graph_result" where
  "start env g inputs h =
    and_then (runtime_build env (gr_spec g) inputs (gr_policy g) h) (\<lambda>(rt, sinks, metrics, h').
    (case runtime_start env rt sinks metrics of
       (Inl e, _) \<Rightarrow> Inl e
     | (Inr _, rg) \<Rightarrow> Inr (rg, h')))"

definition run_with_inputs :: "engine_env \<Rightarrow> Graph \<Rightarrow> (string \<times> tensor list) list \<Rightarrow> route_heap \<Rightarrow> 'b GraphReport graph_result" where
  "run_with_inputs env g inputs h =
    and_then (start env g inputs h) (\<lambda>(rg, _). finish (ee_outcome env) rg)"

definition graph_run :: "engine_env \<Rightarrow> Graph \<Rightarrow> route_heap \<Rightarrow> 'b GraphReport graph_result" where
  "graph_run env g h = run_with_inputs env g [] h"

section \<open>Routes by node and port\<close>

definition in_at :: "runtime_nodes \<Rightarrow> string \<times> string \<Rightarrow> nat option" where
  "in_at nodes k = (case map_of nodes (fst k) of None \<Rightarrow> None | Some n \<Rightarrow> map_of (nr_inputs n) (snd k))"

definition out_at :: "runtime_nodes \<Rightarrow> string \<times> string \<Rightarrow> nat list option" where
  "out_at nodes k = (case map_of nodes (fst k) of None \<Rightarrow> None | Some n \<Rightarrow> map_of (nr_outputs n) (snd k))"

definition nodes_wf :: "runtime_nodes \<Rightarrow> bool" where
  "nodes_wf nodes \<longleftrightarrow> bt_wf nodes \<and>
    (\<forall>name n. map_of nodes name = Some n \<longrightarrow> nr_name n = name \<and> bt_wf (nr_inputs n) \<and> bt_wf (nr_outputs n))"

definition same_nodes :: "runtime_nodes \<Rightarrow> runtime_nodes \<Rightarrow> bool" where
  "same_nodes nodes nodes' \<longleftrightarrow> (\<forall>name. map_option nr_elements (map_of nodes' name) = map_option nr_elements (map_of nodes name))"

lemma nodes_wf_insert:
  assumes "nodes_wf nodes" and "nr_name n = name" and "bt_wf (nr_inputs n)" and "bt_wf (nr_outputs n)"
  shows "nodes_wf (bt_insert name n nodes)"
  using assms by (auto simp: nodes_wf_def map_of_bt_insert)

lemma connected_nodes:
  assumes "nodes_wf nodes" and "map_of nodes x = Some src"
    and "map_of (bt_insert x (push_output a pipe src) nodes) y = Some dst"
    and nodes'_def: "nodes' = bt_insert y (set_input b pipe dst) (bt_insert x (push_output a pipe src) nodes)"
  shows "nodes_wf nodes' \<and> in_at nodes (y, b) = map_of (nr_inputs dst) b \<and> same_nodes nodes nodes' \<and> in_at nodes' = (in_at nodes)((y, b) \<mapsto> pipe) \<and>
    out_at nodes' = (out_at nodes)((x, a) \<mapsto> unwrap_or (out_at nodes (x, a)) [] @ [pipe])"
proof -
  let ?nodes1 = "bt_insert x (push_output a pipe src) nodes"
  have wf1: "nodes_wf ?nodes1"
    using assms(1,2) by (intro nodes_wf_insert) (auto simp: nodes_wf_def push_output_def)
  have wf': "nodes_wf nodes'"
    using wf1 assms(3) unfolding nodes'_def by (intro nodes_wf_insert [OF wf1]) (auto simp: nodes_wf_def set_input_def)
  have bt: "bt_wf nodes" "bt_wf ?nodes1" "bt_wf (nr_inputs dst)" "bt_wf (nr_outputs src)" "bt_wf (nr_inputs src)" "bt_wf (nr_outputs dst)"
    using assms(1-3) wf1 by (auto simp: nodes_wf_def)
  have m': "map_of nodes' = (map_of nodes)(x \<mapsto> push_output a pipe src, y \<mapsto> set_input b pipe dst)"
    unfolding nodes'_def map_of_bt_insert [OF bt(2)] map_of_bt_insert [OF bt(1)] ..
  note maps = m' map_of_bt_insert [OF bt(1)] map_of_bt_insert [OF bt(3)] map_of_bt_insert [OF bt(4)] map_of_bt_insert [OF bt(5)] map_of_bt_insert [OF bt(6)]
  have dst: "dst = (if y = x then push_output a pipe src else dst)" "y \<noteq> x \<Longrightarrow> map_of nodes y = Some dst"
    using assms(3) by (auto simp: maps)
  have "in_at nodes' k = ((in_at nodes)((y, b) \<mapsto> pipe)) k" for k
    using assms(2) dst
    by (cases k; cases "y = x") (auto simp: in_at_def maps set_input_def push_output_def)
  moreover have "out_at nodes' k = ((out_at nodes)((x, a) \<mapsto> unwrap_or (out_at nodes (x, a)) [] @ [pipe])) k" for k
    using assms(2) dst
    by (cases k; cases "y = x") (auto simp: out_at_def maps set_input_def push_output_def)
  moreover have "same_nodes nodes nodes'"
    using assms(2) dst unfolding same_nodes_def
    by (cases "y = x") (auto simp: maps set_input_def push_output_def)
  moreover have "in_at nodes (y, b) = map_of (nr_inputs dst) b"
    using assms(2) dst by (cases "y = x") (auto simp: in_at_def push_output_def)
  ultimately show ?thesis using wf' by (simp add: fun_eq_iff)
qed

text \<open>The pipes are numbered in the order of the connections.\<close>

lemma build_edges_result:
  assumes "build_edges ex cs nodes edges h = Inr (nodes', edges', h')" and "nodes_wf nodes" and "bt_wf edges"
    and "distinct cs" and "set cs \<inter> dom (map_of edges) = {}"
  shows "nodes_wf nodes' \<and> same_nodes nodes nodes' \<and> bt_wf edges' \<and> rh_tables h' = rh_tables h \<and> rh_next_table h' = rh_next_table h \<and>
    rh_next_pipe h' = rh_next_pipe h + length cs \<and> (\<forall>c \<in> set cs. is_ok (connection_parse c)) \<and>
    inj_on target_of (set cs) \<and> (\<forall>c \<in> set cs. in_at nodes (target_of c) = None) \<and>
    (\<forall>i < length cs. map_of edges' (cs ! i) = Some \<lparr> er_sender = rh_next_pipe h + i, er_receiver = rh_next_pipe h + i \<rparr>) \<and>
    (\<forall>c. c \<notin> set cs \<longrightarrow> map_of edges' c = map_of edges c) \<and>
    (\<forall>k. in_at nodes' k = (case find (\<lambda>c. target_of c = k) cs of None \<Rightarrow> in_at nodes k | Some c \<Rightarrow> Some (pipe_of edges' c))) \<and>
    (\<forall>k. out_at nodes' k = (if k \<in> source_of ` set cs
      then Some (unwrap_or (out_at nodes k) [] @ map (pipe_of edges') (filter (\<lambda>c. source_of c = k) cs)) else out_at nodes k))"
  using assms
proof (induction cs arbitrary: nodes edges h)
  case Nil
  then show ?case by (simp add: same_nodes_def)
next
  case (Cons c cs)
  let ?pipe = "rh_next_pipe h"
  obtain p src dst where p: "connection_parse c = Inr p" and src: "map_of nodes (cn_from_node p) = Some src"
    and dst: "map_of (bt_insert (cn_from_node p) (push_output (cn_from_port p) ?pipe src) nodes) (cn_to_node p) = Some dst"
    and fresh: "map_of (nr_inputs dst) (cn_to_port p) = None"
    and rest: "build_edges ex cs (bt_insert (cn_to_node p) (set_input (cn_to_port p) ?pipe dst)
          (bt_insert (cn_from_node p) (push_output (cn_from_port p) ?pipe src) nodes))
        (bt_insert c \<lparr> er_sender = ?pipe, er_receiver = ?pipe \<rparr> edges) (snd (new_pipe ex h)) = Inr (nodes', edges', h')"
    using Cons.prems(1) by (auto simp: result_simps new_pipe_def Let_def split: prod.splits)
  let ?nodes1 = "bt_insert (cn_to_node p) (set_input (cn_to_port p) ?pipe dst)
      (bt_insert (cn_from_node p) (push_output (cn_from_port p) ?pipe src) nodes)"
  let ?edges1 = "bt_insert c \<lparr> er_sender = ?pipe, er_receiver = ?pipe \<rparr> edges" and ?h1 = "snd (new_pipe ex h)"
  have key: "source_of c = (cn_from_node p, cn_from_port p)" "target_of c = (cn_to_node p, cn_to_port p)"
    using p by (simp_all add: source_of_def target_of_def conn_parsed)
  have step: "nodes_wf ?nodes1" "same_nodes nodes ?nodes1" "in_at nodes (target_of c) = None"
    "in_at ?nodes1 = (in_at nodes)(target_of c \<mapsto> ?pipe)"
    "out_at ?nodes1 = (out_at nodes)(source_of c \<mapsto> unwrap_or (out_at nodes (source_of c)) [] @ [?pipe])"
    using connected_nodes [OF Cons.prems(2) src dst refl, of "cn_to_port p"] fresh by (simp_all add: key)
  have e1: "bt_wf ?edges1" "map_of ?edges1 = (map_of edges)(c \<mapsto> \<lparr> er_sender = ?pipe, er_receiver = ?pipe \<rparr>)"
    using Cons.prems(3) by (simp_all add: map_of_bt_insert)
  have h1: "rh_tables ?h1 = rh_tables h" "rh_next_table ?h1 = rh_next_table h" "rh_next_pipe ?h1 = Suc ?pipe"
    by (simp_all add: new_pipe_def Let_def)
  have disj: "distinct cs" "set cs \<inter> dom (map_of ?edges1) = {}" using Cons.prems(4,5) by (auto simp: e1(2))
  note IH = Cons.IH [OF rest step(1) e1(1) disj]
  have apart: "target_of d \<noteq> target_of c" "in_at nodes (target_of d) = None" if "d \<in> set cs" for d
    using IH that by (auto simp: step(4) split: if_splits)
  have edge: "map_of edges' c = Some \<lparr> er_sender = ?pipe, er_receiver = ?pipe \<rparr>" using IH Cons.prems(4) by (simp add: e1(2))
  then have pipe: "pipe_of edges' c = ?pipe" by (simp add: pipe_of_def)
  have "same_nodes nodes nodes'" using IH step(2) by (simp add: same_nodes_def)
  moreover have "target_of c \<notin> target_of ` (set cs - {c})" "inj_on target_of (set cs)" using IH apart(1) by fastforce+
  then have "inj_on target_of (set (c # cs))" by (simp add: inj_on_insert)
  moreover have "map_of edges' ((c # cs) ! i) = Some \<lparr> er_sender = ?pipe + i, er_receiver = ?pipe + i \<rparr>" if "i < length (c # cs)" for i
    using that IH edge h1 by (cases i) simp_all
  moreover have "map_of edges' d = map_of edges d" if "d \<notin> set (c # cs)" for d using IH that by (simp add: e1(2))
  moreover have "in_at nodes' k = (case find (\<lambda>c. target_of c = k) (c # cs) of None \<Rightarrow> in_at nodes k | Some c \<Rightarrow> Some (pipe_of edges' c))" for k
  proof -
    have "find (\<lambda>d. target_of d = target_of c) cs = None" using apart(1) by (auto simp: find_None_iff)
    then show ?thesis using IH by (cases "k = target_of c") (simp_all add: step(4) pipe cong: option.case_cong)
  qed
  moreover have "out_at nodes' k = (if k \<in> source_of ` set (c # cs)
      then Some (unwrap_or (out_at nodes k) [] @ map (pipe_of edges') (filter (\<lambda>c. source_of c = k) (c # cs))) else out_at nodes k)" for k
  proof (cases "k = source_of c")
    case True
    have "out_at nodes' k = (if k \<in> source_of ` set cs
      then Some (unwrap_or (out_at ?nodes1 k) [] @ map (pipe_of edges') (filter (\<lambda>c. source_of c = k) cs)) else out_at ?nodes1 k)"
      using IH by blast
    moreover have "k \<notin> source_of ` set cs \<Longrightarrow> filter (\<lambda>c. source_of c = k) cs = []" by (auto simp: filter_empty_conv)
    ultimately show ?thesis by (simp add: True step(5) pipe unwrap_or_def)
  next
    case False
    then show ?thesis using IH by (simp add: step(5))
  qed
  ultimately show ?case using IH p step(3) apart(2) h1 by simp
qed

section \<open>Flattened routes and tables\<close>

lemma map_of_flatten:
  assumes "distinct (map fst nodes)" and "\<And>name n. (name, n) \<in> set nodes \<Longrightarrow> f n = name"
  shows "map_of (concat (map (\<lambda>(_, n). map (\<lambda>(port, v). ((f n, port), v)) (g n)) nodes)) k =
    (case map_of nodes (fst k) of None \<Rightarrow> None | Some n \<Rightarrow> map_of (g n) (snd k))"
  using assms
proof (induction nodes)
  case (Cons x nodes)
  obtain name n where x: "x = (name, n)" by fastforce
  have fn: "f n = name" using Cons.prems(2) x by simp
  have own: "map_of (map (\<lambda>(port, v). ((name, port), v)) kvs) k = (if fst k = name then map_of kvs (snd k) else None)" for kvs
    by (cases k, induction kvs) auto
  have rest: "fst k = name \<Longrightarrow> map_of nodes (fst k) = None" using Cons.prems(1) x by (simp add: map_of_eq_None_iff)
  have IH: "map_of (concat (map (\<lambda>(_, n). map (\<lambda>(port, v). ((f n, port), v)) (g n)) nodes)) k =
    (case map_of nodes (fst k) of None \<Rightarrow> None | Some n \<Rightarrow> map_of (g n) (snd k))"
    using Cons by simp
  show ?case unfolding x using rest by (auto simp: map_add_def own fn IH split: option.splits)
qed simp

lemma distinct_flatten:
  assumes "distinct (map fst nodes)" and "\<And>name n. (name, n) \<in> set nodes \<Longrightarrow> f n = name \<and> distinct (map fst (g n))"
  shows "distinct (map fst (concat (map (\<lambda>(_, n). map (\<lambda>(port, v). ((f n, port), v)) (g n)) nodes)))"
  using assms
proof (induction nodes)
  case (Cons x nodes)
  obtain name n where x: "x = (name, n)" by fastforce
  have "map fst (map (\<lambda>(port, v). ((f n, port), v)) (g n)) = map (Pair (f n)) (map fst (g n))" by (simp add: case_prod_beta comp_def)
  moreover have "distinct (map (Pair (f n)) (map fst (g n)))"
    using Cons.prems(2) x by (subst distinct_map) (auto intro: inj_onI)
  moreover have "fst (fst y) \<in> fst ` set nodes" if y: "y \<in> set (concat (map (\<lambda>(_, n). map (\<lambda>(port, v). ((f n, port), v)) (g n)) nodes))" for y
  proof -
    obtain m n' port v where mn: "(m, n') \<in> set nodes" "y = ((f n', port), v)" using y by auto
    then have "fst (fst y) = m" using Cons.prems(2) [of m n'] by simp
    then show ?thesis using mn(1) by force
  qed
  then have "name \<notin> fst ` fst ` set (concat (map (\<lambda>(_, n). map (\<lambda>(port, v). ((f n, port), v)) (g n)) nodes))"
    using Cons.prems(1) x by force
  then have "set (map (Pair (f n)) (map fst (g n))) \<inter> fst ` set (concat (map (\<lambda>(_, n). map (\<lambda>(port, v). ((f n, port), v)) (g n)) nodes)) = {}"
    using Cons.prems(2) x by force
  moreover have "distinct (map fst (concat (map (\<lambda>(_, n). map (\<lambda>(port, v). ((f n, port), v)) (g n)) nodes)))"
    by (rule Cons.IH) (use Cons.prems in auto)
  ultimately show ?case unfolding x list.map concat.simps map_append distinct_append prod.case by (simp only: set_map)
qed simp

lemma nodes_wf_entries:
  assumes "nodes_wf nodes"
  shows "distinct (map fst nodes)" and "\<And>name n. (name, n) \<in> set nodes \<Longrightarrow>
    nr_name n = name \<and> distinct (map fst (nr_inputs n)) \<and> distinct (map fst (nr_outputs n))"
proof -
  show d: "distinct (map fst nodes)" using assms by (simp add: nodes_wf_def bt_wf_distinct)
  fix name n assume "(name, n) \<in> set nodes"
  then have "map_of nodes name = Some n" using d by simp
  then show "nr_name n = name \<and> distinct (map fst (nr_inputs n)) \<and> distinct (map fst (nr_outputs n))"
    using assms by (simp add: nodes_wf_def bt_wf_distinct)
qed

lemma flat_routes:
  assumes "nodes_wf nodes"
  shows "map_of (bt_extend [] (node_inputs nodes)) k = in_at nodes k" and "map_of (node_outputs nodes) k = out_at nodes k"
    and "distinct (map fst (node_outputs nodes))" and "map_of (node_inputs nodes) k = in_at nodes k"
proof -
  note e = nodes_wf_entries [OF assms]
  have "distinct (map fst (node_inputs nodes))" unfolding node_inputs_def using e by (intro distinct_flatten) auto
  then have "map_of (bt_extend [] (node_inputs nodes)) = map_of (node_inputs nodes)" by (simp add: map_of_bt_extend bt_wf_def)
  then show "map_of (bt_extend [] (node_inputs nodes)) k = in_at nodes k"
    unfolding node_inputs_def in_at_def using e by (simp add: map_of_flatten)
  show "map_of (node_inputs nodes) k = in_at nodes k" unfolding node_inputs_def in_at_def using e by (simp add: map_of_flatten)
  show "map_of (node_outputs nodes) k = out_at nodes k" unfolding node_outputs_def out_at_def using e by (simp add: map_of_flatten)
  show "distinct (map fst (node_outputs nodes))" unfolding node_outputs_def using e by (intro distinct_flatten) auto
qed

lemma output_tables_result:
  assumes "output_tables entries outs h = (outs', h')" and "bt_wf outs" and "distinct (map fst entries)"
    and "\<And>k. k \<in> fst ` set entries \<Longrightarrow> map_of outs k = None"
  shows "rh_next_pipe h' = rh_next_pipe h \<and> rh_next_table h' = rh_next_table h + length entries \<and>
    (\<forall>t < rh_next_table h. rh_tables h' t = rh_tables h t) \<and>
    (\<forall>k. k \<notin> fst ` set entries \<longrightarrow> map_of outs' k = map_of outs k) \<and>
    (\<forall>i < length entries. map_of outs' (fst (entries ! i)) = Some (rh_next_table h + i) \<and>
      rh_tables h' (rh_next_table h + i) = snd (entries ! i))"
  using assms
proof (induction entries arbitrary: outs h)
  case (Cons e entries)
  obtain key senders where e: "e = (key, senders)" by fastforce
  let ?h1 = "snd (new_table senders h)" and ?outs1 = "bt_insert key (rh_next_table h) outs"
  have rest: "output_tables entries ?outs1 ?h1 = (outs', h')" using Cons.prems(1) e by (simp add: new_table_def)
  have h1: "rh_next_pipe ?h1 = rh_next_pipe h" "rh_next_table ?h1 = Suc (rh_next_table h)"
    "rh_tables ?h1 = (rh_tables h)(rh_next_table h := senders)" by (simp_all add: new_table_def)
  have o1: "bt_wf ?outs1" "map_of ?outs1 = (map_of outs)(key \<mapsto> rh_next_table h)" using Cons.prems(2) by (simp_all add: map_of_bt_insert)
  have key: "key \<notin> fst ` set entries" and dist: "distinct (map fst entries)" using Cons.prems(3) e by auto
  have IH: "rh_next_pipe h' = rh_next_pipe ?h1 \<and> rh_next_table h' = rh_next_table ?h1 + length entries \<and>
    (\<forall>t < rh_next_table ?h1. rh_tables h' t = rh_tables ?h1 t) \<and>
    (\<forall>k. k \<notin> fst ` set entries \<longrightarrow> map_of outs' k = map_of ?outs1 k) \<and>
    (\<forall>i < length entries. map_of outs' (fst (entries ! i)) = Some (rh_next_table ?h1 + i) \<and>
      rh_tables h' (rh_next_table ?h1 + i) = snd (entries ! i))"
    using key Cons.prems(4) by (intro Cons.IH [OF rest o1(1) dist]) (auto simp: o1(2) e)
  have "map_of outs' (fst ((e # entries) ! i)) = Some (rh_next_table h + i) \<and>
      rh_tables h' (rh_next_table h + i) = snd ((e # entries) ! i)" if "i < length (e # entries)" for i
    using that IH key by (cases i) (simp_all add: e o1(2) h1)
  then show ?case using IH by (auto simp: e o1(2) h1)
qed simp

lemma output_tables_ok:
  assumes "output_tables entries [] h = (outs, h')" and "distinct (map fst entries)"
  shows "rh_next_pipe h' = rh_next_pipe h" and "dom (map_of outs) = fst ` set entries"
    and "\<And>k t. map_of outs k = Some t \<Longrightarrow> t < rh_next_table h' \<and> map_of entries k = Some (rh_tables h' t)"
    and "\<And>k k' t. map_of outs k = Some t \<Longrightarrow> map_of outs k' = Some t \<Longrightarrow> k = k'"
proof -
  note r = output_tables_result [OF assms(1) _ assms(2), simplified bt_wf_def, simplified]
  show "rh_next_pipe h' = rh_next_pipe h" using r by blast
  have pos: "\<exists>i < length entries. k = fst (entries ! i) \<and> t = rh_next_table h + i \<and> rh_tables h' t = snd (entries ! i)"
    if "map_of outs k = Some t" for k t
  proof -
    have "k \<in> fst ` set entries" using r that by (cases "k \<in> fst ` set entries") auto
    then obtain i where "i < length entries" "k = fst (entries ! i)" by (auto simp: in_set_conv_nth)
    then show ?thesis using r that by auto
  qed
  show "dom (map_of outs) = fst ` set entries"
  proof (intro set_eqI iffI)
    fix k assume "k \<in> fst ` set entries"
    then obtain i where "i < length entries" "k = fst (entries ! i)" by (auto simp: in_set_conv_nth)
    then show "k \<in> dom (map_of outs)" using r by auto
  qed (use pos in fastforce)
  show "t < rh_next_table h' \<and> map_of entries k = Some (rh_tables h' t)" if kt: "map_of outs k = Some t" for k t
  proof -
    obtain i where i: "i < length entries" "k = fst (entries ! i)" "t = rh_next_table h + i" "rh_tables h' t = snd (entries ! i)"
      using pos [OF kt] by blast
    have "(k, rh_tables h' t) \<in> set entries" unfolding i(2,4) using i(1) by simp
    then show ?thesis using i r assms(2) by simp
  qed
  show "k = k'" if "map_of outs k = Some t" "map_of outs k' = Some t" for k k' t
    using pos [OF that(1)] pos [OF that(2)] by auto
qed

section \<open>Workers of a started graph\<close>

definition instance_of :: "((string \<times> string) \<times> nat) list \<Rightarrow> NodeRuntime \<Rightarrow> worker" where
  "instance_of outputs n = \<lparr> wk_inputs = nr_inputs n,
    wk_outputs = map (\<lambda>(port, _). (port, the (map_of outputs (nr_name n, port)))) (nr_outputs n), wk_finished = None \<rparr>"

lemma instance_outputs_known:
  assumes "\<And>port senders. (port, senders) \<in> set ports \<Longrightarrow> map_of outputs (name, port) \<noteq> None"
  shows "instance_outputs name outputs ports h = (map (\<lambda>(port, _). (port, the (map_of outputs (name, port)))) ports, h)"
  using assms
proof (induction ports)
  case (Cons x ports)
  then obtain t where "map_of outputs (name, fst x) = Some t" by (cases x) fastforce
  moreover have "instance_outputs name outputs ports h = (map (\<lambda>(port, _). (port, the (map_of outputs (name, port)))) ports, h)"
    by (rule Cons.IH) (erule Cons.prems [OF list.set_intros(2)])
  ultimately show ?case by (cases x) simp
qed simp

lemma exec_nodes_known:
  assumes "\<And>x n port senders. (x, n) \<in> set nodes \<Longrightarrow> (port, senders) \<in> set (nr_outputs n) \<Longrightarrow> map_of outputs (nr_name n, port) \<noteq> None"
  shows "exec_nodes outputs nodes h = (concat (map (\<lambda>(_, n). replicate (nr_elements n) (nr_name n, instance_of outputs n)) nodes), h)"
  using assms
proof (induction nodes)
  case (Cons x nodes)
  obtain name n where x: "x = (name, n)" by fastforce
  have "instance_outputs (nr_name n) outputs (nr_outputs n) h =
      (map (\<lambda>(port, _). (port, the (map_of outputs (nr_name n, port)))) (nr_outputs n), h)"
    using Cons.prems [of name n] x by (intro instance_outputs_known) auto
  then have "node_instances n outputs k h = (replicate k (nr_name n, instance_of outputs n), h)" for k
    by (induction k) (simp_all add: instance_of_def)
  moreover have "exec_nodes outputs nodes h = (concat (map (\<lambda>(_, n). replicate (nr_elements n) (nr_name n, instance_of outputs n)) nodes), h)"
    by (rule Cons.IH) (erule (1) Cons.prems [OF list.set_intros(2)])
  ultimately show ?case by (simp add: x)
qed simp

lemma group_nodes_lookup:
  "bt_wf (group_nodes nodes) \<and> map_of (group_nodes nodes) x =
    (if x \<in> fst ` set nodes then Some (map snd (filter (\<lambda>(name, _). name = x) nodes)) else None)"
proof -
  have "bt_wf m \<Longrightarrow> bt_wf (fold (\<lambda>(name, w) m. bt_insert name (unwrap_or (map_of m name) [] @ [w]) m) nodes m) \<and>
    map_of (fold (\<lambda>(name, w) m. bt_insert name (unwrap_or (map_of m name) [] @ [w]) m) nodes m) x =
    (if x \<in> fst ` set nodes then Some (unwrap_or (map_of m x) [] @ map snd (filter (\<lambda>(name, _). name = x) nodes)) else map_of m x)" for m
  proof (induction nodes arbitrary: m)
    case (Cons y nodes)
    obtain name w where y: "y = (name, w)" by fastforce
    have m1: "bt_wf (bt_insert name (unwrap_or (map_of m name) [] @ [w]) m)" using Cons.prems by simp
    have none: "filter (\<lambda>(name, _). name = x) nodes = []" if "x \<notin> fst ` set nodes"
      using that by (force simp: filter_empty_conv)
    show ?case using Cons.IH [OF m1] none Cons.prems by (auto simp: y map_of_bt_insert unwrap_or_def)
  qed simp
  from this [of "[]"] show ?thesis by (simp add: group_nodes_def bt_wf_def unwrap_or_def)
qed

lemma group_instances:
  assumes "distinct (map fst nodes)" and "\<And>name n. (name, n) \<in> set nodes \<Longrightarrow> nr_name n = name \<and> 0 < nr_elements n"
  shows "map_of (group_nodes (concat (map (\<lambda>(_, n). replicate (nr_elements n) (nr_name n, w n)) nodes))) x =
    map_option (\<lambda>n. replicate (nr_elements n) (w n)) (map_of nodes x)"
proof -
  let ?l = "\<lambda>nodes. concat (map (\<lambda>(_, n). replicate (nr_elements n) (nr_name n, w n)) nodes)"
  have "x \<in> fst ` set (?l nodes) \<longleftrightarrow> x \<in> fst ` set nodes" using assms(2) by force
  moreover have "map snd (filter (\<lambda>(name, _). name = x) (?l nodes)) = (case map_of nodes x of None \<Rightarrow> [] | Some n \<Rightarrow> replicate (nr_elements n) (w n))"
    using assms
  proof (induction nodes)
    case (Cons y nodes)
    obtain name n where y: "y = (name, n)" by fastforce
    have IH: "map snd (filter (\<lambda>(name, _). name = x) (?l nodes)) = (case map_of nodes x of None \<Rightarrow> [] | Some n \<Rightarrow> replicate (nr_elements n) (w n))"
      by (rule Cons.IH) (use Cons.prems in auto)
    have "nr_name n = name" using Cons.prems(2) y by simp
    moreover have "map_of nodes name = None" using Cons.prems(1) y by (simp add: map_of_eq_None_iff)
    ultimately show ?case using IH by (auto simp: y)
  qed simp
  ultimately show ?thesis
    unfolding conjunct2 [OF group_nodes_lookup] by (auto simp: map_of_eq_None_iff split: option.splits dest: map_of_SomeD)
qed

lemma start_nodes_result:
  assumes "start_nodes env nodes grouped rg = (Inr (), rg')" and "bt_wf grouped" and "bt_wf (rg_workers rg)" and "distinct (map nd_name nodes)"
  shows "rg_routes rg' = rg_routes rg \<and> rg_spec rg' = rg_spec rg \<and> rg_policy rg' = rg_policy rg \<and> rg_status rg' = status_code Running \<and>
    bt_wf (rg_workers rg') \<and> (\<forall>x. map_of (rg_workers rg') x = (if x \<in> nd_name ` set nodes
      then map_option (\<lambda>ws. \<lparr> ln_stop = False, ln_workers = ws \<rparr>) (map_of grouped x) else map_of (rg_workers rg) x)) \<and>
    nd_name ` set nodes \<subseteq> dom (map_of grouped)"
  using assms
proof (induction nodes arbitrary: grouped rg)
  case Nil
  then show ?case by (auto simp: set_status_def split: if_splits)
next
  case (Cons node nodes)
  let ?name = "nd_name node"
  obtain ws where ws: "map_of grouped ?name = Some ws" and
    rest: "start_nodes env nodes (bt_remove ?name grouped)
      (rg\<lparr> rg_workers := bt_insert ?name \<lparr> ln_stop = False, ln_workers = ws \<rparr> (rg_workers rg) \<rparr>) = (Inr (), rg')"
    using Cons.prems(1) by (auto simp: Let_def split: option.splits if_splits)
  note IH = Cons.IH [OF rest]
  show ?case
    using IH Cons.prems ws by (auto simp: map_of_bt_remove map_of_bt_insert image_iff split: if_splits)
qed

section \<open>Building a valid graph\<close>

definition fresh_nodes :: "runtime_nodes \<Rightarrow> bool" where
  "fresh_nodes nodes \<longleftrightarrow> bt_wf nodes \<and> (\<forall>name n. map_of nodes name = Some n \<longrightarrow>
    nr_name n = name \<and> 0 < nr_elements n \<and> nr_inputs n = [] \<and> nr_outputs n = [])"

lemma fresh_nodes_insert:
  assumes "fresh_nodes nodes" and "nr_name n = name" and "0 < nr_elements n" and "nr_inputs n = []" and "nr_outputs n = []"
  shows "fresh_nodes (bt_insert name n nodes)"
  using assms by (simp add: fresh_nodes_def map_of_bt_insert)

lemma build_nodes_result:
  assumes "build_nodes env specs nodes = Inr nodes'" and "fresh_nodes nodes"
  shows "fresh_nodes nodes' \<and> dom (map_of nodes') = nd_name ` set specs \<union> dom (map_of nodes)"
  using assms
proof (induction specs arbitrary: nodes)
  case (Cons node specs)
  obtain n where n: "build_node env node = Inr n" and rest: "build_nodes env specs (bt_insert (nd_name node) n nodes) = Inr nodes'"
    using Cons.prems(1) by (auto simp: result_simps)
  have "nr_name n = nd_name node" "0 < nr_elements n" "nr_inputs n = []" "nr_outputs n = []"
    using n by (auto simp: build_node_def result_simps Let_def)
  then have "fresh_nodes (bt_insert (nd_name node) n nodes)" using fresh_nodes_insert Cons.prems(2) by simp
  moreover have "dom (map_of (bt_insert (nd_name node) n nodes)) = insert (nd_name node) (dom (map_of nodes))"
    using Cons.prems(2) by (simp add: fresh_nodes_def map_of_bt_insert)
  ultimately show ?case using Cons.IH [OF rest] by simp
qed simp

lemma inject_inputs_result:
  assumes "inject_inputs p inputs nodes = Inr nodes'" and "fresh_nodes nodes"
  shows "fresh_nodes nodes' \<and> dom (map_of nodes') = dom (map_of nodes)"
  using assms
proof (induction inputs arbitrary: nodes)
  case (Cons x inputs)
  obtain name tensors where x: "x = (name, tensors)" by fastforce
  obtain n queue where n: "map_of nodes name = Some n" "nr_handle n = InputHandle queue"
    using Cons.prems(1) x by (auto split: option.splits ElementHandle.splits)
  let ?nodes1 = "bt_insert name (n\<lparr> nr_handle := InputHandle (queue @ tensors) \<rparr>) nodes"
  have rest: "inject_inputs p inputs ?nodes1 = Inr nodes'" using Cons.prems(1) x n by (auto simp: result_simps)
  have own: "nr_name n = name" "0 < nr_elements n" "nr_inputs n = []" "nr_outputs n = []"
    using Cons.prems(2) n(1) unfolding fresh_nodes_def by blast+
  then have "fresh_nodes ?nodes1" by (intro fresh_nodes_insert [OF Cons.prems(2)]) simp_all
  moreover have "dom (map_of ?nodes1) = dom (map_of nodes)"
    using Cons.prems(2) n(1) by (simp add: fresh_nodes_def map_of_bt_insert insert_absorb domIff)
  ultimately show ?case using Cons.IH [OF rest] by simp
qed simp

lemma fresh_nodes_routes:
  assumes "fresh_nodes nodes"
  shows "nodes_wf nodes" and "in_at nodes k = None" and "out_at nodes k = None"
  using assms by (auto simp: fresh_nodes_def nodes_wf_def in_at_def out_at_def bt_wf_def split: option.splits)

lemma route_maps_total:
  assumes "\<And>c. c \<in> set cs \<Longrightarrow> is_ok (connection_parse c) \<and> map_of edges c \<noteq> None"
  shows "\<exists>r. route_maps edges cs inputs senders = Inr r"
  using assms
proof (induction cs arbitrary: inputs senders)
  case (Cons c cs)
  obtain p r where "connection_parse c = Inr p" "map_of edges c = Some r"
    using Cons.prems [of c] by (auto simp: is_ok_iff)
  then show ?case using Cons.IH Cons.prems by simp
qed simp

text \<open>The edges of a graph under construction serve its connections, and its nodes hold the routes that
  a hot update would compute.\<close>

lemma built_edges_ok:
  assumes "build_edges ex cs nodes [] h = Inr (nodes', edges, h')" and "fresh_nodes nodes" and "distinct cs"
  shows "edges_ok (set cs) edges (rh_next_pipe h')" and "conns_ok (set cs)"
    and "\<And>k a. in_at nodes' k = Some a \<longleftrightarrow> (\<exists>c \<in> set cs. target_of c = k \<and> pipe_of edges c = a)"
    and "{k. out_at nodes' k \<noteq> None} = source_of ` set cs"
    and "\<And>k s. out_at nodes' k = Some s \<Longrightarrow> distinct s \<and> set s = pipe_of edges ` {c \<in> set cs. source_of c = k}"
proof -
  note fresh = fresh_nodes_routes [OF assms(2)]
  have r: "\<forall>c \<in> set cs. is_ok (connection_parse c)" "inj_on target_of (set cs)" "rh_next_pipe h' = rh_next_pipe h + length cs"
    "\<And>i. i < length cs \<Longrightarrow> map_of edges (cs ! i) = Some \<lparr> er_sender = rh_next_pipe h + i, er_receiver = rh_next_pipe h + i \<rparr>"
    "\<And>c. c \<notin> set cs \<Longrightarrow> map_of edges c = None"
    "\<And>k. in_at nodes' k = (case find (\<lambda>c. target_of c = k) cs of None \<Rightarrow> None | Some c \<Rightarrow> Some (pipe_of edges c))"
    "\<And>k. out_at nodes' k = (if k \<in> source_of ` set cs then Some (map (pipe_of edges) (filter (\<lambda>c. source_of c = k) cs)) else None)"
    using build_edges_result [OF assms(1) fresh(1) _ assms(3)] by (auto simp: bt_wf_def fresh unwrap_or_def cong: option.case_cong)
  have pos: "\<exists>i < length cs. c = cs ! i \<and> map_of edges c = Some \<lparr> er_sender = rh_next_pipe h + i, er_receiver = rh_next_pipe h + i \<rparr>
      \<and> pipe_of edges c = rh_next_pipe h + i" if "c \<in> set cs" for c
    using that r(4) by (auto simp: in_set_conv_nth pipe_of_def)
  show eo: "edges_ok (set cs) edges (rh_next_pipe h')"
    unfolding edges_ok_def
  proof (intro conjI ballI)
    show "dom (map_of edges) = set cs" using r(5) pos by (fastforce simp: dom_def)
    show "inj_on (pipe_of edges) (set cs)" using pos by (intro inj_onI) (metis add_left_cancel)
    show "\<exists>a < rh_next_pipe h'. map_of edges c = Some \<lparr> er_sender = a, er_receiver = a \<rparr>" if "c \<in> set cs" for c
      using pos [OF that] by (auto simp: r(3))
  qed
  show "conns_ok (set cs)" using r(1,2) by (simp add: conns_ok_def)
  obtain inputs senders where rm: "route_maps edges cs [] [] = Inr (inputs, senders)"
    using route_maps_total [of cs edges "[]" "[]"] r(1) pos by fastforce
  note maps = route_maps_ok [OF rm eo r(2) assms(3)]
  have same: "map_of inputs k = in_at nodes' k" "map_of senders k = out_at nodes' k" for k
    using route_maps_result [OF rm _ _ r(2) assms(3) edges_okD(1) [OF eo]]
    by (simp_all add: r(6,7) bt_wf_def unwrap_or_def cong: option.case_cong)
  show "in_at nodes' k = Some a \<longleftrightarrow> (\<exists>c \<in> set cs. target_of c = k \<and> pipe_of edges c = a)" for k a
    using maps(1) unfolding inputs_ok_def same by blast
  show "{k. out_at nodes' k \<noteq> None} = source_of ` set cs" using maps(3) unfolding dom_def same by blast
  show "distinct s \<and> set s = pipe_of edges ` {c \<in> set cs. source_of c = k}" if "out_at nodes' k = Some s" for k s
    using maps(4) [of k s] that unfolding same by blast
qed

lemma same_nodes_elements:
  assumes "same_nodes nodes nodes'" and "map_of nodes' name = Some n'"
  shows "\<exists>n. map_of nodes name = Some n \<and> nr_elements n' = nr_elements n"
  using assms unfolding same_nodes_def by (cases "map_of nodes name") (auto dest!: spec [of _ name])

lemma same_nodes_dom: "same_nodes nodes nodes' \<Longrightarrow> dom (map_of nodes') = dom (map_of nodes)"
  unfolding same_nodes_def dom_def by (intro Collect_cong) (metis option.map_disc_iff)

lemma assembled:
  assumes "assemble env effective spec policy sinks0 (nodes, edges, h1) = Inr (rt, sinks, metrics, h')"
    and "output_tables (node_outputs nodes) [] h1 = (outputs, h2)" and "exec_nodes outputs nodes h2 = (workers, h3)"
  shows "rt = \<lparr> rt_nodes = workers, rt_routes = \<lparr> rr_edges = edges, rr_inputs = bt_extend [] (node_inputs nodes), rr_outputs = outputs \<rparr>,
    rt_spec = spec, rt_policy = policy, rt_stop = False \<rparr>" and "h' = h3"
  using assms by (auto simp: assemble_def result_simps Let_def)

text \<open>The parts of a successful build.\<close>

lemma runtime_build_parts:
  assumes "runtime_build env spec inputs policy h = Inr (rt, sinks, metrics, h')" and "distinct (gs_connections spec)"
  obtains nodes edges h1 h2 outputs where
    "nodes_wf nodes" "\<And>name n. map_of nodes name = Some n \<Longrightarrow> 0 < nr_elements n" "dom (map_of nodes) = nd_name ` set (gs_nodes spec)"
    "\<exists>nodes1. fresh_nodes nodes1 \<and> build_edges (gs_execution spec) (gs_connections spec) nodes1 [] h = Inr (nodes, edges, h1)"
    "output_tables (node_outputs nodes) [] h1 = (outputs, h2)" "h' = h2"
    "rt_nodes rt = concat (map (\<lambda>(_, n). replicate (nr_elements n) (nr_name n, instance_of outputs n)) nodes)"
    "rt_routes rt = \<lparr> rr_edges = edges, rr_inputs = bt_extend [] (node_inputs nodes), rr_outputs = outputs \<rparr>"
    "rt_spec rt = spec" "rt_policy rt = policy"
proof -
  obtain effective nodes0 nodes1 nodes edges h1 where b: "build_nodes env (gs_nodes spec) [] = Inr nodes0"
      "inject_inputs effective inputs nodes0 = Inr nodes1"
      "build_edges (gs_execution spec) (gs_connections spec) nodes1 [] h = Inr (nodes, edges, h1)"
    and as: "assemble env effective spec policy (sinks_of nodes0) (nodes, edges, h1) = Inr (rt, sinks, metrics, h')"
    using assms(1) unfolding runtime_build_def by (auto simp: result_simps)
  obtain outputs h2 where ot: "output_tables (node_outputs nodes) [] h1 = (outputs, h2)" by fastforce
  have f0: "fresh_nodes nodes0" "dom (map_of nodes0) = nd_name ` set (gs_nodes spec)"
    using build_nodes_result [OF b(1)] by (simp_all add: fresh_nodes_def bt_wf_def)
  have f1: "fresh_nodes nodes1" "dom (map_of nodes1) = nd_name ` set (gs_nodes spec)" using inject_inputs_result [OF b(2) f0(1)] f0(2) by simp_all
  have wf: "nodes_wf nodes" "same_nodes nodes1 nodes"
    using build_edges_result [OF b(3) fresh_nodes_routes(1) [OF f1(1)] _ assms(2)] by (simp_all add: bt_wf_def)
  have pos: "0 < nr_elements n" if "map_of nodes name = Some n" for name n
    using same_nodes_elements [OF wf(2) that] f1(1) by (auto simp: fresh_nodes_def)
  have "map_of outputs (nr_name n, port) \<noteq> None" if "(x, n) \<in> set nodes" "(port, senders) \<in> set (nr_outputs n)" for x n port senders
  proof -
    have n: "nr_name n = x" "map_of nodes x = Some n" "(port, senders) \<in> set (nr_outputs n)" using nodes_wf_entries [OF wf(1)] that by auto
    then have "out_at nodes (x, port) \<noteq> None" by (auto simp: out_at_def map_of_eq_None_iff rev_image_eqI)
    then have "(x, port) \<in> fst ` set (node_outputs nodes)" using flat_routes(2) [OF wf(1)] by (metis map_of_eq_None_iff)
    then show ?thesis using output_tables_ok(2) [OF ot flat_routes(3) [OF wf(1)]] n(1) by blast
  qed
  then have ex: "exec_nodes outputs nodes h2 = (concat (map (\<lambda>(_, n). replicate (nr_elements n) (nr_name n, instance_of outputs n)) nodes), h2)"
    by (intro exec_nodes_known)
  show thesis
    by (rule that [OF wf(1) pos _ _ ot]) (use assembled [OF as ot ex] f1 b(3) same_nodes_dom [OF wf(2)] in auto)
qed

lemma map_of_ports:
  "map_of (map (\<lambda>(port, _). (port, f port)) ports) port = (case map_of ports port of None \<Rightarrow> None | Some _ \<Rightarrow> Some (f port))"
  by (induction ports) auto

lemma start_parts:
  assumes "start env g inputs h = Inr (rg, h')"
  obtains rt sinks metrics where "runtime_build env (gr_spec g) inputs (gr_policy g) h = Inr (rt, sinks, metrics, h')"
    "runtime_start env rt sinks metrics = (Inr (), rg)"
proof -
  obtain rt sinks and metrics :: "(string \<times> 'a ElementMetrics) list" and h1 where
    b: "runtime_build env (gr_spec g) inputs (gr_policy g) h = Inr (rt, sinks, metrics, h1)"
      "(case runtime_start env rt sinks metrics of (Inl e, _) \<Rightarrow> Inl e | (Inr _, rg) \<Rightarrow> Inr (rg, h1)) = Inr (rg, h')"
    using assms unfolding start_def by (fastforce simp: result_simps)
  obtain r rg1 where "runtime_start env rt sinks metrics = (r, rg1)" by fastforce
  then show thesis using b that by (cases r) auto
qed

lemma built_groups:
  assumes "runtime_build env spec inputs policy h = Inr (rt, sinks, metrics, h')" and "distinct (gs_connections spec)"
  shows "\<forall>x. x \<in> nd_name ` set (gs_nodes spec) \<longleftrightarrow> map_of (group_nodes (rt_nodes rt)) x \<noteq> None" and "rt_spec rt = spec"
    and "\<forall>x ws. map_of (group_nodes (rt_nodes rt)) x = Some ws \<longrightarrow> ws \<noteq> []"
proof -
  obtain nodes outputs where wf: "nodes_wf nodes" and pos: "\<And>name n. map_of nodes name = Some n \<Longrightarrow> 0 < nr_elements n"
    and dom: "dom (map_of nodes) = nd_name ` set (gs_nodes spec)" and spec: "rt_spec rt = spec"
    and rtn: "rt_nodes rt = concat (map (\<lambda>(_, n). replicate (nr_elements n) (nr_name n, instance_of outputs n)) nodes)"
    by (rule runtime_build_parts [OF assms]) blast
  have "map_of (group_nodes (rt_nodes rt)) x = map_option (\<lambda>n. replicate (nr_elements n) (instance_of outputs n)) (map_of nodes x)" for x
    unfolding rtn using nodes_wf_entries [OF wf] pos by (intro group_instances) auto
  then show "\<forall>x. x \<in> nd_name ` set (gs_nodes spec) \<longleftrightarrow> map_of (group_nodes (rt_nodes rt)) x \<noteq> None"
    and "\<forall>x ws. map_of (group_nodes (rt_nodes rt)) x = Some ws \<longrightarrow> ws \<noteq> []"
    unfolding dom [symmetric] by (auto simp: domIff dest!: pos)
  show "rt_spec rt = spec" by (fact spec)
qed

text \<open>A graph that has been started is wired.\<close>

lemma start_wired:
  assumes st: "start env g inputs h = Inr (rg, h')" and ok: "graph_ok (ee_graph env) g"
  shows "wired rg h' \<and> rg_spec rg = gr_spec g \<and> rg_policy rg = gr_policy g \<and> fst (status rg) = Running \<and>
    (\<forall>name \<in> nd_name ` set (gs_nodes (gr_spec g)). live (rg_routes rg) name (map_of (rg_workers rg) name))"
proof -
  let ?spec = "gr_spec g"
  obtain e where "graph_valid (ee_graph env) e ?spec" using ok by (auto simp: graph_ok_def)
  note conns = valid_connections [OF this]
  obtain rt sinks and metrics :: "(string \<times> 'a ElementMetrics) list" where build: "runtime_build env ?spec inputs (gr_policy g) h = Inr (rt, sinks, metrics, h')"
    and start: "runtime_start env rt sinks metrics = (Inr (), rg)"
    by (rule start_parts [OF st])
  obtain nodes edges h1 h2 outputs nodes1 where
    wf: "nodes_wf nodes" and pos: "\<And>name n. map_of nodes name = Some n \<Longrightarrow> 0 < nr_elements n" and dom: "dom (map_of nodes) = nd_name ` set (gs_nodes ?spec)"
    and fresh: "fresh_nodes nodes1" and be: "build_edges (gs_execution ?spec) (gs_connections ?spec) nodes1 [] h = Inr (nodes, edges, h1)"
    and ot: "output_tables (node_outputs nodes) [] h1 = (outputs, h2)" and h': "h' = h2"
    and rtn: "rt_nodes rt = concat (map (\<lambda>(_, n). replicate (nr_elements n) (nr_name n, instance_of outputs n)) nodes)"
    and rtr: "rt_routes rt = \<lparr> rr_edges = edges, rr_inputs = bt_extend [] (node_inputs nodes), rr_outputs = outputs \<rparr>"
    and rts: "rt_spec rt = ?spec" "rt_policy rt = gr_policy g"
    by (rule runtime_build_parts [OF build conns(1)]) blast
  note edges = built_edges_ok [OF be fresh conns(1)] and flat = flat_routes [OF wf]
  note tables = output_tables_ok [OF ot flat(3)]
  have outs: "dom (map_of outputs) = source_of ` set (gs_connections ?spec)"
    unfolding tables(2) edges(4) [symmetric] flat(2) [symmetric] by (metis (mono_tags, lifting) Collect_cong map_of_eq_None_iff mem_Collect_eq set_eqI)
  have table: "t < rh_next_table h2 \<and> distinct (rh_tables h2 t) \<and> set (rh_tables h2 t) = pipe_of edges ` {c \<in> set (gs_connections ?spec). source_of c = k}"
    if "map_of outputs k = Some t" for k t
    using tables(3) [OF that] edges(5) [of k "rh_tables h2 t"] flat(2) [of k] by simp
  have routes: "routes_ok (set (gs_connections ?spec)) (rt_routes rt) h'"
    unfolding routes_ok_def inputs_ok_def outputs_ok_def rtr h' RuntimeRoutes.select_convs tables(1) flat(1)
    using edges(1-3) table outs tables(4) by blast
  have grouped: "map_of (group_nodes (rt_nodes rt)) x = map_option (\<lambda>n. replicate (nr_elements n) (instance_of outputs n)) (map_of nodes x)" for x
    unfolding rtn using nodes_wf_entries [OF wf] pos by (intro group_instances) auto
  have inst: "worker_wired (rt_routes rt) name (instance_of outputs n)" if "map_of nodes name = Some n" for name n
    unfolding worker_wired_def
  proof (intro allI conjI)
    fix port
    have n: "nr_name n = name" using wf that by (simp add: nodes_wf_def)
    show "map_of (wk_inputs (instance_of outputs n)) port = map_of (rr_inputs (rt_routes rt)) (name, port)"
      using that by (simp add: instance_of_def rtr flat(1) in_at_def)
    have "map_of (wk_outputs (instance_of outputs n)) port =
        (case map_of (nr_outputs n) port of None \<Rightarrow> None | Some _ \<Rightarrow> Some (the (map_of outputs (name, port))))"
      unfolding instance_of_def n by (simp add: map_of_ports)
    moreover have "map_of (nr_outputs n) port = None \<longleftrightarrow> map_of outputs (name, port) = None"
      using flat(2) [of "(name, port)"] map_of_eq_None_iff [of "node_outputs nodes" "(name, port)"] that
      unfolding tables(2) [symmetric] domIff by (simp add: out_at_def)
    ultimately show "map_of (wk_outputs (instance_of outputs n)) port = map_of (rr_outputs (rt_routes rt)) (name, port)"
      by (auto simp: rtr split: option.splits)
  qed
  let ?rg0 = "\<lparr> rg_spec = ?spec, rg_policy = gr_policy g, rg_stop = rt_stop rt, rg_workers = [], rg_routes = rt_routes rt,
      rg_sinks = sinks, rg_metrics = metrics, rg_status = status_code Starting, rg_root_cause = None \<rparr>"
  have "start_nodes env (gs_nodes ?spec) (group_nodes (rt_nodes rt)) ?rg0 = (Inr (), rg)"
    using start by (simp add: runtime_start_def rts)
  note started = start_nodes_result [OF this conjunct1 [OF group_nodes_lookup] _ conns(3)]
  have entry: "map_of (rg_workers rg) x = map_option (\<lambda>n. \<lparr> ln_stop = False, ln_workers = replicate (nr_elements n) (instance_of outputs n) \<rparr>) (map_of nodes x)" for x
  proof (cases "x \<in> nd_name ` set (gs_nodes ?spec)")
    case True
    then show ?thesis using started by (simp add: grouped bt_wf_def option.map_comp comp_def)
  next
    case False
    then have "map_of nodes x = None" using dom by blast
    then show ?thesis using False started by (simp add: bt_wf_def)
  qed
  have same: "rg_routes rg = rt_routes rt" "rg_spec rg = ?spec" "rg_policy rg = gr_policy g" "bt_wf (rg_workers rg)" "rg_status rg = status_code Running"
    using started by (simp_all add: bt_wf_def)
  have "workers_wired (rt_routes rt) (rg_workers rg)"
    using inst by (auto simp: workers_wired_def entry list_all_iff)
  moreover have "live (rt_routes rt) name (map_of (rg_workers rg) name)" if name: "name \<in> nd_name ` set (gs_nodes ?spec)" for name
  proof -
    obtain n where "map_of nodes name = Some n" using name dom by blast
    then show ?thesis using inst pos by (auto simp: live_def entry list_all_iff)
  qed
  moreover have "dom (map_of (rg_workers rg)) = nd_name ` set (gs_nodes ?spec)" using dom by (auto simp: entry dom_def)
  ultimately show ?thesis using routes same by (simp add: wired_def status_def status_from_u8_def)
qed

section \<open>Validation is enough to build\<close>

text \<open>A node may have several instances unless it is a source or one of its elements has a handle to the outside.\<close>

definition instances_allowed :: "engine_env \<Rightarrow> NodeSpec \<Rightarrow> bool" where
  "instances_allowed env node \<longleftrightarrow>
    (let threads = unwrap_or (nd_threads node) 1 in
     threads \<le> 1 \<or> nd_kind node \<noteq> ''source'' \<and> (\<forall>i < threads. ee_create env node i = Inr NoHandle))"

lemma create_instances_outcome:
  assumes "\<And>i. is_ok (ee_create env node i)"
  shows "create_instances env node k n =
    (if n = 0 \<or> nd_kind node \<noteq> ''source'' \<and> (\<forall>i. k \<le> i \<and> i < k + n \<longrightarrow> ee_create env node i = Inr NoHandle) then Inr () else Inl (single_instance_error node))"
proof (induction n arbitrary: k)
  case (Suc n)
  obtain handle where handle: "ee_create env node k = Inr handle" using assms [of k] by (auto simp: is_ok_iff)
  have range: "(\<forall>i. k \<le> i \<and> i < k + Suc n \<longrightarrow> P i) \<longleftrightarrow> P k \<and> (\<forall>i. Suc k \<le> i \<and> i < Suc k + n \<longrightarrow> P i)" for P
    by (auto simp: Suc_le_eq) (metis le_neq_implies_less)
  show ?case unfolding range using handle by (auto simp: Suc.IH fail_if_def)
qed simp

lemma build_node_outcome:
  assumes "\<And>i. is_ok (ee_create env node i)" and "\<And>n. ge_alloc (ee_graph env) n"
  shows "if instances_allowed env node then is_ok (build_node env node) else build_node env node = Inl (single_instance_error node)"
proof -
  obtain handle where handle: "ee_create env node 0 = Inr handle" using assms(1) [of 0] by (auto simp: is_ok_iff)
  have first: "(\<forall>i < n. P i) \<longleftrightarrow> P 0 \<and> (\<forall>i. 1 \<le> i \<and> i < 1 + (n - 1) \<longrightarrow> P i)" if "1 < n" for n :: nat and P
    using that by (auto simp: Suc_le_eq) (metis neq0_conv)
  show ?thesis
    using handle assms(2) first [of "unwrap_or (nd_threads node) 1"]
    by (auto simp: build_node_def instances_allowed_def create_instances_outcome [OF assms(1)] fail_if_def is_ok_iff Let_def)
qed

lemma build_nodes_refused:
  assumes "\<And>node i. node \<in> set specs \<Longrightarrow> is_ok (ee_create env node i)" and "\<And>n. ge_alloc (ee_graph env) n"
    and "\<exists>node \<in> set specs. \<not> instances_allowed env node"
  shows "\<exists>node \<in> set specs. \<not> instances_allowed env node \<and> build_nodes env specs nodes = Inl (single_instance_error node)"
  using assms(1,3)
proof (induction specs arbitrary: nodes)
  case (Cons node specs)
  have out: "if instances_allowed env node then is_ok (build_node env node) else build_node env node = Inl (single_instance_error node)"
    using build_node_outcome assms(2) Cons.prems(1) by simp
  show ?case
  proof (cases "instances_allowed env node")
    case True
    then obtain n where "build_node env node = Inr n" using out by (auto simp: is_ok_iff)
    then show ?thesis using Cons.IH [of "bt_insert (nd_name node) n nodes"] Cons.prems True by auto
  next
    case False
    then show ?thesis using out by auto
  qed
qed simp

lemma build_nodes_total:
  assumes "\<And>node. node \<in> set specs \<Longrightarrow> is_ok (build_node env node)"
  shows "\<exists>nodes'. build_nodes env specs nodes = Inr nodes'"
  using assms
proof (induction specs arbitrary: nodes)
  case (Cons node specs)
  obtain n where "build_node env node = Inr n" using Cons.prems [of node] by (auto simp: is_ok_iff)
  then show ?case using Cons by simp
qed simp

lemma build_edges_total:
  assumes "\<And>c. c \<in> set cs \<Longrightarrow> is_ok (connection_parse c) \<and> fst (source_of c) \<in> dom (map_of nodes) \<and>
      fst (target_of c) \<in> dom (map_of nodes) \<and> in_at nodes (target_of c) = None"
    and "distinct (map target_of cs)" and "nodes_wf nodes"
  shows "\<exists>r. build_edges ex cs nodes edges h = Inr r"
  using assms
proof (induction cs arbitrary: nodes edges h)
  case (Cons c cs)
  obtain p where p: "connection_parse c = Inr p" using Cons.prems(1) [of c] by (auto simp: is_ok_iff)
  have key: "source_of c = (cn_from_node p, cn_from_port p)" "target_of c = (cn_to_node p, cn_to_port p)"
    using p by (simp_all add: source_of_def target_of_def conn_parsed)
  let ?pipe = "rh_next_pipe h"
  obtain src where src: "map_of nodes (cn_from_node p) = Some src" using Cons.prems(1) [of c] key by auto
  let ?nodes1 = "bt_insert (cn_from_node p) (push_output (cn_from_port p) ?pipe src) nodes"
  have m1: "map_of ?nodes1 = (map_of nodes)(cn_from_node p \<mapsto> push_output (cn_from_port p) ?pipe src)"
    using Cons.prems(3) by (simp add: nodes_wf_def map_of_bt_insert)
  have "map_of ?nodes1 (cn_to_node p) \<noteq> None" using Cons.prems(1) [of c] key by (auto simp: m1)
  then obtain dst where dst: "map_of ?nodes1 (cn_to_node p) = Some dst" by blast
  let ?nodes2 = "bt_insert (cn_to_node p) (set_input (cn_to_port p) ?pipe dst) ?nodes1"
  have step: "nodes_wf ?nodes2" "same_nodes nodes ?nodes2" "map_of (nr_inputs dst) (cn_to_port p) = None"
    "in_at ?nodes2 = (in_at nodes)(target_of c \<mapsto> ?pipe)"
    using connected_nodes [OF Cons.prems(3) src dst refl, of "cn_to_port p"] Cons.prems(1) [of c] by (simp_all add: key)
  have "\<exists>r. build_edges ex cs ?nodes2 edges1 h1 = Inr r" for edges1 h1
    using Cons.prems(1,2) by (intro Cons.IH step(1)) (auto simp: step(4) same_nodes_dom [OF step(2)] image_iff)
  then show ?case using p src dst step(3) by (simp add: new_pipe_def Let_def)
qed simp

lemma valid_targets:
  assumes "graph_valid env p g" and "c \<in> set (gs_connections g)"
  shows "is_ok (connection_parse c)" and "fst (source_of c) \<in> nd_name ` set (gs_nodes g)" and "fst (target_of c) \<in> nd_name ` set (gs_nodes g)"
proof -
  obtain cs where cs: "map connection_parse (gs_connections g) = map Inr cs" "list_all (connection_ok (ge_registered env) (gs_nodes g)) cs"
    using assms(1) unfolding graph_valid_def by blast
  have "connection_parse c \<in> set (map connection_parse (gs_connections g))" using assms(2) by simp
  then obtain p where p: "connection_parse c = Inr p" "p \<in> set cs" unfolding cs(1) by auto
  then have "connection_ok (ge_registered env) (gs_nodes g) p" using cs(2) by (simp add: list_all_iff)
  then show "is_ok (connection_parse c)" and "fst (source_of c) \<in> nd_name ` set (gs_nodes g)" and "fst (target_of c) \<in> nd_name ` set (gs_nodes g)"
    using p(1) by (auto simp: is_ok_iff source_of_def target_of_def conn_parsed connection_ok_def image_iff intro: sym)
qed

lemma check_upstream_ok:
  assumes "nodes_wf nodes" and "\<And>k. in_at nodes k \<noteq> None \<Longrightarrow> \<exists>c \<in> set cs. target_of c = k \<and> is_ok (connection_parse c)"
  shows "check_upstream cs nodes = Inr ()"
proof -
  have "list_ex (reaches_port name port) cs" if "((name, port), v) \<in> set (node_inputs nodes)" for name port v
  proof -
    have "in_at nodes (name, port) \<noteq> None"
      using that flat_routes(4) [OF assms(1), of "(name, port)"] map_of_eq_None_iff [of "node_inputs nodes" "(name, port)"] by force
    then obtain c where c: "c \<in> set cs" "target_of c = (name, port)" "is_ok (connection_parse c)" using assms(2) by blast
    then have "reaches_port name port c" by (auto simp: reaches_port_def target_of_def conn_def is_ok_iff)
    then show ?thesis using c(1) by (auto simp: list_ex_iff)
  qed
  then have "find (\<lambda>((name, port), _). \<not> list_ex (reaches_port name port) cs) (node_inputs nodes) = None"
    by (fastforce simp: find_None_iff)
  then show ?thesis by (simp add: check_upstream_def)
qed

lemma start_nodes_total:
  assumes "\<And>n. ge_alloc (ee_graph env) n" and "\<And>name i. ee_spawn env name i = None"
    and "distinct (map nd_name nodes)" and "dom (map_of grouped) = nd_name ` set nodes" and "\<And>x ws. map_of grouped x = Some ws \<Longrightarrow> ws \<noteq> []"
  shows "\<exists>rg'. start_nodes env nodes grouped rg = (Inr (), rg')"
  using assms(3-5)
proof (induction nodes arbitrary: grouped rg)
  case (Cons node nodes)
  have "nd_name node \<in> dom (map_of grouped)" unfolding Cons.prems(2) by simp
  then obtain ws where ws: "map_of grouped (nd_name node) = Some ws" "ws \<noteq> []" using Cons.prems(3) by blast
  have "spawn_failure env name n = None" for name n
    unfolding spawn_failure_def using assms(2) by (induction n) (auto simp: find_map_None)
  moreover have "\<exists>rg'. start_nodes env nodes (bt_remove (nd_name node) grouped) rg1 = (Inr (), rg')" for rg1 :: "'a RunningGraph"
  proof (rule Cons.IH)
    show "dom (map_of (bt_remove (nd_name node) grouped)) = nd_name ` set nodes"
      using Cons.prems(1,2) by (simp add: map_of_bt_remove)
    show "ws \<noteq> []" if "map_of (bt_remove (nd_name node) grouped) x = Some ws" for x ws
      using that Cons.prems(3) by (simp add: map_of_bt_remove split: if_splits)
  qed (use Cons.prems(1) in simp)
  ultimately show ?case using ws assms(1) by (simp add: Let_def)
qed simp

lemma valid_start:
  assumes "graph_ok (ee_graph env) g" and "\<forall>node \<in> set (gs_nodes (gr_spec g)). is_ok (build_node env node)"
    and "\<And>n. ge_alloc (ee_graph env) n" and "\<And>name i. ee_spawn env name i = None"
  shows "\<exists>rg h'. start env g [] h = Inr (rg, h') \<and> wired rg h' \<and> rg_spec rg = gr_spec g \<and> fst (status rg) = Running \<and>
    (\<forall>name \<in> nd_name ` set (gs_nodes (gr_spec g)). live (rg_routes rg) name (map_of (rg_workers rg) name))"
proof -
  let ?spec = "gr_spec g"
  obtain e where e: "effective_limits (pp_resource (gr_policy g)) ?spec = Inr e" "graph_valid (ee_graph env) e ?spec"
    using assms(1) by (auto simp: graph_ok_def)
  note conns = valid_connections [OF e(2)] and targets = valid_targets [OF e(2)]
  obtain nodes0 where nodes0: "build_nodes env (gs_nodes ?spec) [] = Inr nodes0" using build_nodes_total assms(2) by blast
  have f0: "fresh_nodes nodes0" "dom (map_of nodes0) = nd_name ` set (gs_nodes ?spec)"
    using build_nodes_result [OF nodes0] by (simp_all add: fresh_nodes_def bt_wf_def)
  have "distinct (map target_of (gs_connections ?spec))" using conns(1,2) by (simp add: distinct_map)
  then obtain nodes edges h1 where be: "build_edges (gs_execution ?spec) (gs_connections ?spec) nodes0 [] h = Inr (nodes, edges, h1)"
    using build_edges_total [of "gs_connections ?spec" nodes0 "gs_execution ?spec" "[]" h] targets f0 fresh_nodes_routes [OF f0(1)] by fastforce
  have "nodes_wf nodes" using build_edges_result [OF be fresh_nodes_routes(1) [OF f0(1)] _ conns(1)] by (simp add: bt_wf_def)
  then have "check_upstream (gs_connections ?spec) nodes = Inr ()"
    using built_edges_ok(3) [OF be f0(1) conns(1)] targets(1) by (intro check_upstream_ok) blast+
  moreover obtain outputs h2 where "output_tables (node_outputs nodes) [] h1 = (outputs, h2)" by fastforce
  moreover obtain workers h3 where "exec_nodes outputs nodes h2 = (workers, h3)" by fastforce
  ultimately have "\<exists>rt sinks (metrics :: (string \<times> 'a ElementMetrics) list) h'. runtime_build env ?spec [] (gr_policy g) h = Inr (rt, sinks, metrics, h')"
    using e(1) nodes0 be assms(3) by (auto simp: runtime_build_def assemble_def effective_limits_def result_simps Let_def)
  then obtain rt sinks and metrics :: "(string \<times> 'a ElementMetrics) list" and h' where
    build: "runtime_build env ?spec [] (gr_policy g) h = Inr (rt, sinks, metrics, h')" by blast
  have grouped: "dom (map_of (group_nodes (rt_nodes rt))) = nd_name ` set (gs_nodes ?spec)"
    "\<And>x ws. map_of (group_nodes (rt_nodes rt)) x = Some ws \<Longrightarrow> ws \<noteq> []" and spec: "rt_spec rt = ?spec"
    using built_groups [OF build conns(1)] by (auto simp: dom_def)
  have "\<exists>rg. runtime_start env rt sinks metrics = (Inr (), rg)"
    unfolding runtime_start_def spec using assms(3,4) conns(3) grouped by (intro start_nodes_total)
  then obtain rg :: "'a RunningGraph" where "start env g [] h = Inr (rg, h')" using build by (auto simp: start_def)
  then show ?thesis using start_wired [OF _ assms(1)] by blast
qed

text \<open>A graph that runs: it has been started from a valid configuration and perhaps updated.\<close>

inductive running_graph :: "engine_env \<Rightarrow> 'b RunningGraph \<Rightarrow> route_heap \<Rightarrow> bool" for env where
  started: "graph_ok (ee_graph env) g \<Longrightarrow> start env g inputs h = Inr (rg, h') \<Longrightarrow> running_graph env rg h'"
| updated: "running_graph env rg h \<Longrightarrow> apply_hot_update_spec env armed new (rg, h) = (Inr d, rg', h') \<Longrightarrow> running_graph env rg' h'"

lemma running_graph_inv:
  "running_graph env rg h \<Longrightarrow> wired rg h \<and> distinct (map nd_name (gs_nodes (rg_spec rg)))"
proof (induction rule: running_graph.induct)
  case (started g inputs h rg h')
  then obtain e where "graph_valid (ee_graph env) e (gr_spec g)" by (auto simp: graph_ok_def)
  then show ?case using start_wired [OF started(2,1)] valid_connections(3) by auto
next
  case (updated rg h armed new d rg' h')
  then show ?case using hot_update_rewires [of rg h env armed new d rg' h'] hot_update_names [OF updated(2)] by metis
qed

section \<open>Properties\<close>

text \<open>C15. What it takes for a valid graph to start.  If the elements of all nodes can be created and neither memory nor threads run out, then a valid graph without injected tensors starts
  exactly when no source and no element with a special handle is asked for in several instances: it starts, every node has at least one worker, the workers hold
  the pipes of the connections of their node, and the status is running; or building returns the error that names such a node.  No other error return of building or starting is met.\<close>

theorem valid_graph_starts:
  assumes "graph_ok (ee_graph env) g" and "\<forall>node \<in> set (gs_nodes (gr_spec g)). \<forall>i. is_ok (ee_create env node i)"
    and "\<And>n. ge_alloc (ee_graph env) n" and "\<And>name i. ee_spawn env name i = None"
  shows "if \<forall>node \<in> set (gs_nodes (gr_spec g)). instances_allowed env node
    then \<exists>rg h'. start env g [] h = Inr (rg, h') \<and> wired rg h' \<and> rg_spec rg = gr_spec g \<and> fst (status rg) = Running \<and>
      (\<forall>name \<in> nd_name ` set (gs_nodes (gr_spec g)). live (rg_routes rg) name (map_of (rg_workers rg) name))
    else \<exists>node \<in> set (gs_nodes (gr_spec g)). \<not> instances_allowed env node \<and> start env g [] h = Inl (single_instance_error node)"
proof (cases "\<forall>node \<in> set (gs_nodes (gr_spec g)). instances_allowed env node")
  case True
  then have "\<forall>node \<in> set (gs_nodes (gr_spec g)). is_ok (build_node env node)" using build_node_outcome assms(2,3) by metis
  then show ?thesis using valid_start [OF assms(1) _ assms(3,4)] True by simp
next
  case False
  obtain e where e: "effective_limits (pp_resource (gr_policy g)) (gr_spec g) = Inr e" using assms(1) by (auto simp: graph_ok_def)
  obtain node where node: "node \<in> set (gs_nodes (gr_spec g))" "\<not> instances_allowed env node"
    "build_nodes env (gs_nodes (gr_spec g)) [] = Inl (single_instance_error node)"
    using build_nodes_refused [of "gs_nodes (gr_spec g)" env "[]"] assms(2,3) False by blast
  moreover obtain eff where "effective_for (pp_resource (gr_policy g)) (policy_of_limits (gs_limits (gr_spec g))) = Inr eff"
    using e by (auto simp: effective_limits_def result_simps)
  ultimately have "start env g [] h = Inl (single_instance_error node)" by (simp add: start_def runtime_build_def)
  then show ?thesis using False node by auto
qed

text \<open>C1. A running graph and its configuration agree: however a graph is started and then updated to whole new
  configurations by \<open>apply_hot_update_spec\<close>, as long as the updates succeed, every connection of its configuration has a pipe of its own, every input port
  reads the pipe of the connection into it, the table of every output port holds exactly the pipes
  of the connections out of it, and every worker, whether it was replaced or kept running, holds the
  routes of its node.\<close>

theorem running_graph_wired:
  assumes "running_graph env rg h"
  shows "wired rg h"
  using running_graph_inv [OF assms] by blast

section \<open>Examples\<close>

definition plain_graph :: Graph where
  "plain_graph = \<lparr> gr_spec = plain_spec [plain_node ''k'' ''a''], gr_policy = process_policy_default \<rparr>"

lemma plain_graph_ok: "graph_ok (ee_graph (plain_env outcome)) plain_graph"
proof -
  have "validate_with_policy (ee_graph (plain_env outcome)) resource_policy_default (plain_spec [plain_node ''k'' ''a'']) = Inr ()"
    by (subst plain_valid) (auto simp: plain_node_def)
  then show ?thesis by (simp add: graph_ok_def plain_graph_def validate_with_policy_ok process_policy_default_def plain_effective)
qed

lemma plain_create: "is_ok (build_node (plain_env outcome) (plain_node kind name))"
  by (simp add: build_node_def plain_env_def plain_node_def sample_env_def unwrap_or_def is_ok_iff)

lemma plain_resources: "ge_alloc (ee_graph (plain_env outcome)) n" "ee_spawn (plain_env outcome) name i = None"
  by (simp_all add: plain_env_def sample_env_def)

theorem valid_graph_starts_witness:
  "\<exists>(rg :: unit RunningGraph) h'. start (plain_env (\<lambda>_. ThreadOk)) plain_graph [] empty_heap = Inr (rg, h') \<and> wired rg h'"
proof -
  let ?env = "plain_env (\<lambda>_. ThreadOk)"
  have "\<forall>node \<in> set (gs_nodes (gr_spec plain_graph)). \<forall>i. is_ok (ee_create ?env node i)" by (simp add: plain_env_def is_ok_iff)
  moreover have "\<forall>node \<in> set (gs_nodes (gr_spec plain_graph)). instances_allowed ?env node"
    by (simp add: plain_graph_def plain_spec_def plain_node_def instances_allowed_def unwrap_or_def)
  ultimately show ?thesis using valid_graph_starts [OF plain_graph_ok _ plain_resources, of "\<lambda>_. ThreadOk" empty_heap] by auto
qed

theorem running_graph_wired_witness:
  "\<exists>(rg :: unit RunningGraph) h. running_graph (plain_env (\<lambda>_. ThreadOk)) rg h \<and> wired rg h"
proof -
  have "\<forall>node \<in> set (gs_nodes (gr_spec plain_graph)). is_ok (build_node (plain_env (\<lambda>_. ThreadOk)) node)"
    using plain_create by (simp add: plain_graph_def)
  then obtain rg :: "unit RunningGraph" and h' where "start (plain_env (\<lambda>_. ThreadOk)) plain_graph [] empty_heap = Inr (rg, h')"
    using valid_start [OF plain_graph_ok _ plain_resources] by blast
  from running_graph.started [OF plain_graph_ok this] show ?thesis using running_graph_wired by blast
qed

end
