(* ===== verification/Draining.thy ===== *)
theory Draining
  imports Pipes
begin

text \<open>
  Moving the packets of a replaced pipe to its successor, from \<open>RunningGraph::drain_routes\<close> of
  \<open>dg-graph/src/engine.rs\<close>.  The loop for one route is a step relation, because three threads take part:
  the thread that drains, the node upstream, which sends to the new pipe (it keeps running, or, when it is
  affected itself, has been spawned again before the draining starts), and the replaced node, which has been
  spawned before and receives from the new pipe.  A send of a node that keeps running and that was under way when the
  routes were switched may still use the old pipe.  A packet the loop holds when it gives up is dropped.
\<close>

section \<open>Draining one route\<close>

text \<open>The draining thread is at the head of its loop, is about to send a packet, or sleeps because the new pipe was full.\<close>

datatype drain_phase = Polling | Moving Packet | Stalled Packet

record drain_state =
  dr_old :: "Packet DataPipe"
  dr_new :: "Packet DataPipe"
  dr_phase :: drain_phase
  dr_result :: "unit graph_result option"
  dr_upstream :: "Packet list"
  dr_received :: "Packet list"
  dr_dropped :: "Packet list"

definition receive_old :: "bool \<Rightarrow> Packet DataPipe \<Rightarrow> (RecvError + Packet) \<times> Packet DataPipe" where
  "receive_old upstream_stays_live old = (if upstream_stays_live then recv_timeout old else try_recv old)"

text \<open>The stop flag and the deadline may end the loop at each of its checks.\<close>

definition gives_up :: "graph_error \<Rightarrow> bool" where
  "gives_up e \<longleftrightarrow> e \<in> {GNotRunning, GTimeout ''drain route timed out''}"

inductive drain_step :: "bool \<Rightarrow> drain_state \<Rightarrow> drain_state \<Rightarrow> bool" for live where
  interrupted: "dr_result s = None \<Longrightarrow> dr_phase s = Polling \<Longrightarrow> gives_up e \<Longrightarrow>
    drain_step live s (s\<lparr> dr_result := Some (Inl e) \<rparr>)"
| taken: "dr_result s = None \<Longrightarrow> dr_phase s = Polling \<Longrightarrow> receive_old live (dr_old s) = (Inr packet, old) \<Longrightarrow>
    drain_step live s (s\<lparr> dr_old := old, dr_phase := Moving packet \<rparr>)"
| empty: "dr_result s = None \<Longrightarrow> dr_phase s = Polling \<Longrightarrow> \<not> live \<Longrightarrow> receive_old live (dr_old s) = (Inl Timeout, old) \<Longrightarrow>
    drain_step live s (s\<lparr> dr_old := old, dr_result := Some (Inr ()) \<rparr>)"
| disconnected: "dr_result s = None \<Longrightarrow> dr_phase s = Polling \<Longrightarrow> receive_old live (dr_old s) = (Inl RecvDisconnected, old) \<Longrightarrow>
    drain_step live s (s\<lparr> dr_old := old, dr_result := Some (Inr ()) \<rparr>)"
| moved: "dr_result s = None \<Longrightarrow> dr_phase s = Moving packet \<Longrightarrow> try_send packet (dr_new s) = (Inr (), new) \<Longrightarrow>
    drain_step live s (s\<lparr> dr_new := new, dr_phase := Polling, dr_result := (if is_eos packet then Some (Inr ()) else None) \<rparr>)"
| stalled: "dr_result s = None \<Longrightarrow> dr_phase s = Moving packet \<Longrightarrow> try_send packet (dr_new s) = (Inl Full, new) \<Longrightarrow>
    drain_step live s (s\<lparr> dr_new := new, dr_phase := Stalled packet \<rparr>)"
| retried: "dr_result s = None \<Longrightarrow> dr_phase s = Stalled packet \<Longrightarrow> drain_step live s (s\<lparr> dr_phase := Moving packet \<rparr>)"
| gave_up: "dr_result s = None \<Longrightarrow> dr_phase s = Stalled packet \<Longrightarrow> gives_up e \<Longrightarrow>
    drain_step live s (s\<lparr> dr_phase := Polling, dr_dropped := dr_dropped s @ [packet], dr_result := Some (Inl e) \<rparr>)"
| refused: "dr_result s = None \<Longrightarrow> dr_phase s = Moving packet \<Longrightarrow> try_send packet (dr_new s) = (Inl Disconnected, new) \<Longrightarrow>
    drain_step live s (s\<lparr> dr_new := new, dr_phase := Polling, dr_dropped := dr_dropped s @ [packet],
      dr_result := Some (Inl (GRuntime ''drain route disconnected'')) \<rparr>)"
| upstream_sends: "dr_upstream s = packet # rest \<Longrightarrow> try_send packet (dr_new s) = (Inr (), new) \<Longrightarrow>
    drain_step live s (s\<lparr> dr_new := new, dr_upstream := rest \<rparr>)"
| upstream_finishes: "live \<Longrightarrow> dr_upstream s = packet # rest \<Longrightarrow> 0 < dp_senders (dr_old s) \<Longrightarrow> try_send packet (dr_old s) = (Inr (), old) \<Longrightarrow>
    drain_step live s (s\<lparr> dr_old := old, dr_upstream := rest \<rparr>)"
| old_dropped: "0 < dp_senders (dr_old s) \<Longrightarrow>
    drain_step live s (s\<lparr> dr_old := (dr_old s)\<lparr> dp_senders := dp_senders (dr_old s) - 1 \<rparr> \<rparr>)"
| consumed: "recv_timeout (dr_new s) = (Inr packet, new) \<Longrightarrow>
    drain_step live s (s\<lparr> dr_new := new, dr_received := dr_received s @ [packet] \<rparr>)"

definition drain_start :: "Packet DataPipe \<Rightarrow> Packet DataPipe \<Rightarrow> Packet list \<Rightarrow> drain_state" where
  "drain_start old new upstream =
    \<lparr> dr_old = old, dr_new = new, dr_phase = Polling, dr_result = None, dr_upstream = upstream, dr_received = [], dr_dropped = [] \<rparr>"

section \<open>What is kept\<close>

fun carried :: "drain_phase \<Rightarrow> Packet list" where
  "carried Polling = []"
| "carried (Moving packet) = [packet]"
| "carried (Stalled packet) = [packet]"

lemma receive_old_cases:
  assumes "receive_old live old = (r, old')"
  shows "(case r of Inr packet \<Rightarrow> dp_queue old = packet # dp_queue old' | Inl e \<Rightarrow> dp_queue old = [] \<and> old' = old) \<and>
    dp_senders old' = dp_senders old \<and> (r = Inl RecvDisconnected \<longrightarrow> dp_senders old = 0)"
  using assms
  by (auto simp: receive_old_def recv_timeout_def try_recv_def channel_recv_def depth_down_def split: if_splits list.splits)

lemma recv_timeout_packet: "recv_timeout new = (Inr packet, new') \<Longrightarrow> dp_queue new = packet # dp_queue new'"
  by (auto simp: recv_timeout_def channel_recv_def depth_down_def split: list.splits)

lemma try_send_queue: "try_send packet pipe = (Inl e, pipe') \<Longrightarrow> dp_queue pipe' = dp_queue pipe"
  by (auto simp: try_send_def Let_def depth_up_def depth_down_def split: sum.splits)

lemma shuffles_snoc:
  "zs \<in> shuffles xs ys \<Longrightarrow> zs @ [x] \<in> shuffles (xs @ [x]) ys"
  "zs \<in> shuffles xs ys \<Longrightarrow> zs @ [x] \<in> shuffles xs (ys @ [x])"
proof -
  have "ys @ [x] \<in> shuffles [x] ys" for ys :: "'a list" by (induction ys) (auto simp: Cons_in_shuffles_iff)
  note one = this this [unfolded shuffles_commutes [of "[x]"]]
  show "zs \<in> shuffles xs ys \<Longrightarrow> zs @ [x] \<in> shuffles (xs @ [x]) ys" "zs \<in> shuffles xs ys \<Longrightarrow> zs @ [x] \<in> shuffles xs (ys @ [x])"
    by (induction xs ys arbitrary: zs rule: shuffles.induct) (auto simp: Cons_in_shuffles_iff one)
qed

text \<open>Where the packets have gone.  The upstream node has sent those of \<open>late\<close> to the old pipe and those of \<open>sent\<close> to the new one; the packets \<open>moved\<close> were taken from the
  old pipe and put into the new one; what the new pipe was given beyond its first contents is an interleaving of \<open>moved\<close> and \<open>sent\<close>.\<close>

definition drain_ledger :: "bool \<Rightarrow> Packet list \<Rightarrow> Packet list \<Rightarrow> Packet list \<Rightarrow> drain_state \<Rightarrow> Packet list \<Rightarrow> Packet list \<Rightarrow> Packet list \<Rightarrow> Packet list \<Rightarrow> Packet list \<Rightarrow> bool" where
  "drain_ledger live old new upstream s late sent moved used mix \<longleftrightarrow>
    used \<in> shuffles late sent \<and> upstream = used @ dr_upstream s \<and> (live \<or> late = []) \<and>
    old @ late = moved @ carried (dr_phase s) @ dr_dropped s @ dp_queue (dr_old s) \<and>
    mix \<in> shuffles moved sent \<and> dr_received s @ dp_queue (dr_new s) = new @ mix"

text \<open>Only a loop that fails has dropped a packet, and only one; a loop that succeeds has left nothing in the old pipe, unless it ended at an end of stream.\<close>

definition drain_outcome :: "bool \<Rightarrow> drain_state \<Rightarrow> Packet list \<Rightarrow> bool" where
  "drain_outcome live s moved \<longleftrightarrow>
    (case dr_result s of
       None \<Rightarrow> dr_dropped s = [] \<and> \<not> list_ex is_eos moved
     | Some (Inl _) \<Rightarrow> dr_phase s = Polling \<and> length (dr_dropped s) \<le> 1
     | Some (Inr _) \<Rightarrow> dr_phase s = Polling \<and> dr_dropped s = [] \<and>
         (list_ex is_eos moved \<or> dp_queue (dr_old s) = [] \<and> (live \<longrightarrow> dp_senders (dr_old s) = 0)))"

definition drain_inv :: "bool \<Rightarrow> Packet list \<Rightarrow> Packet list \<Rightarrow> Packet list \<Rightarrow> drain_state \<Rightarrow> bool" where
  "drain_inv live old new upstream s \<longleftrightarrow>
    (\<exists>late sent moved used mix. drain_ledger live old new upstream s late sent moved used mix \<and> drain_outcome live s moved)"

lemmas drain_unfold = drain_ledger_def drain_outcome_def

lemma drain_invI: "drain_ledger live old new upstream s late sent moved used mix \<Longrightarrow> drain_outcome live s moved \<Longrightarrow> drain_inv live old new upstream s"
  unfolding drain_inv_def by blast

lemma drain_step_inv:
  assumes "drain_inv live old new upstream s" and "drain_step live s t"
  shows "drain_inv live old new upstream t"
proof -
  obtain late sent moved used mix where l: "drain_ledger live old new upstream s late sent moved used mix" and o: "drain_outcome live s moved"
    using assms(1) by (auto simp: drain_inv_def)
  have shuffled: "used \<in> shuffles late sent" "mix \<in> shuffles moved sent" using l by (auto simp: drain_ledger_def)
  from assms(2) show ?thesis
  proof cases
    case (moved packet new')
    have "drain_ledger live old new upstream t late sent (moved @ [packet]) used (mix @ [packet])"
      using l moved shuffles_snoc(1) [OF shuffled(2)] try_send_ok [OF moved(4)] by (auto simp: drain_ledger_def)
    then show ?thesis by (rule drain_invI) (use o moved in \<open>auto simp: drain_outcome_def\<close>)
  next
    case (upstream_sends packet rest new')
    have "drain_ledger live old new upstream t late (sent @ [packet]) moved (used @ [packet]) (mix @ [packet])"
      using l upstream_sends shuffles_snoc(2) [OF shuffled(1)] shuffles_snoc(2) [OF shuffled(2)] try_send_ok [OF upstream_sends(3)]
      by (auto simp: drain_ledger_def simp del: shuffles.simps)
    then show ?thesis by (rule drain_invI) (use o upstream_sends in \<open>auto simp: drain_outcome_def split: option.splits sum.splits\<close>)
  next
    case (upstream_finishes packet rest old')
    have "drain_ledger live old new upstream t (late @ [packet]) sent moved (used @ [packet]) mix"
      using l upstream_finishes shuffles_snoc(1) [OF shuffled(1)] try_send_ok [OF upstream_finishes(5)] by (auto simp: drain_ledger_def)
    then show ?thesis by (rule drain_invI) (use o upstream_finishes in \<open>auto simp: drain_outcome_def split: option.splits sum.splits\<close>)
  qed (rule drain_invI [of _ _ _ _ _ late sent moved used mix]; use l o in \<open>auto simp: drain_unfold dest!: receive_old_cases try_send_queue recv_timeout_packet split: option.splits sum.splits\<close>)+
qed

interpretation drain: invariant_system "drain_step live" "drain_inv live old new upstream" for live old new upstream
  by unfold_locales (rule drain_step_inv)

section \<open>Properties\<close>

text \<open>C14. Draining accounts for every packet.  The packets of the old pipe and those the upstream node still sent to it are, in their order, those moved to the new pipe, the one the
  draining thread holds, the one it dropped, and the rest of the old pipe; what the new pipe is given is an interleaving of the moved packets and the packets the upstream node sent to it,
  each in their order.  A packet is dropped only by a drain that fails, and then at most one; a drain that succeeds leaves nothing in the old pipe, unless it has moved an end of stream.\<close>

theorem drain_keeps_packets:
  assumes "(drain_step live)\<^sup>*\<^sup>* (drain_start old new upstream) s"
  shows "\<exists>late sent moved used mix. used \<in> shuffles late sent \<and> upstream = used @ dr_upstream s \<and> (\<not> live \<longrightarrow> late = []) \<and>
    dp_queue old @ late = moved @ carried (dr_phase s) @ dr_dropped s @ dp_queue (dr_old s) \<and>
    mix \<in> shuffles moved sent \<and> dr_received s @ dp_queue (dr_new s) = dp_queue new @ mix \<and>
    (dr_dropped s \<noteq> [] \<longrightarrow> length (dr_dropped s) = 1 \<and> (\<exists>e. dr_result s = Some (Inl e))) \<and>
    (dr_result s = Some (Inr ()) \<and> \<not> list_ex is_eos moved \<longrightarrow> dp_queue (dr_old s) = [])"
proof -
  have "drain_ledger live (dp_queue old) (dp_queue new) upstream (drain_start old new upstream) [] [] [] [] []"
    "drain_outcome live (drain_start old new upstream) []"
    by (simp_all add: drain_unfold drain_start_def)
  then have "drain_inv live (dp_queue old) (dp_queue new) upstream (drain_start old new upstream)" by (rule drain_invI)
  then have "drain_inv live (dp_queue old) (dp_queue new) upstream s" using drain.reachable [OF assms] by blast
  then obtain late sent moved used mix where l: "drain_ledger live (dp_queue old) (dp_queue new) upstream s late sent moved used mix" and o: "drain_outcome live s moved"
    by (auto simp: drain_inv_def)
  have "dr_dropped s \<noteq> [] \<longrightarrow> length (dr_dropped s) = 1 \<and> (\<exists>e. dr_result s = Some (Inl e))"
    "dr_result s = Some (Inr ()) \<and> \<not> list_ex is_eos moved \<longrightarrow> dp_queue (dr_old s) = []"
    using o by (auto simp: drain_outcome_def le_Suc_eq split: option.splits sum.splits)
  with l show ?thesis unfolding drain_ledger_def by blast
qed

definition queued :: "Packet list \<Rightarrow> Packet DataPipe" where
  "queued packets = unbounded\<lparr> dp_queue := packets, dp_depth := length packets \<rparr>"

text \<open>C34. With a live upstream node the order is not kept: a packet it sends after the routes were switched,
  even the end of the stream, can reach the replaced node before a packet that was waiting in the
  old pipe.\<close>

theorem live_drain_overtakes:
  "\<exists>s. (drain_step True)\<^sup>*\<^sup>* (drain_start (queued [a]) unbounded [b]) s \<and> dr_received s = [b, a]"
proof -
  let ?s0 = "drain_start (queued [a]) unbounded [b]"
  let ?new1 = "unbounded\<lparr> dp_queue := [b], dp_depth := 1 \<rparr>" and ?new2 = "unbounded\<lparr> dp_queue := [b, a], dp_depth := 2 \<rparr>"
  let ?s1 = "?s0\<lparr> dr_new := ?new1, dr_upstream := [] \<rparr>"
  let ?s2 = "?s1\<lparr> dr_old := queued [], dr_phase := Moving a \<rparr>"
  let ?s3 = "?s2\<lparr> dr_new := ?new2, dr_phase := Polling, dr_result := (if is_eos a then Some (Inr ()) else None) \<rparr>"
  let ?s4 = "?s3\<lparr> dr_new := queued [a], dr_received := [b] \<rparr>"
  let ?s5 = "?s4\<lparr> dr_new := queued [], dr_received := [b, a] \<rparr>"
  have "drain_step True ?s0 ?s1"
    by (rule drain_step.upstream_sends [of _ b "[]"]) (simp_all add: drain_start_def try_send_def unbounded_def depth_up_def channel_send_def wrapping_add_def usize_max_def)
  moreover have "drain_step True ?s1 ?s2"
    by (rule drain_step.taken) (simp_all add: drain_start_def receive_old_def recv_timeout_def queued_def unbounded_def depth_down_def channel_recv_def wrapping_sub_def usize_max_def)
  moreover have "drain_step True ?s2 ?s3"
    by (rule drain_step.moved) (simp_all add: drain_start_def try_send_def unbounded_def depth_up_def channel_send_def wrapping_add_def usize_max_def)
  moreover have "drain_step True ?s3 ?s4"
    using drain_step.consumed [of ?s3 b "queued [a]" True]
    by (simp add: drain_start_def recv_timeout_def queued_def unbounded_def depth_down_def channel_recv_def wrapping_sub_def usize_max_def)
  moreover have "drain_step True ?s4 ?s5"
    using drain_step.consumed [of ?s4 a "queued []" True]
    by (simp add: drain_start_def recv_timeout_def queued_def unbounded_def depth_down_def channel_recv_def wrapping_sub_def usize_max_def)
  ultimately have "(drain_step True)\<^sup>*\<^sup>* ?s0 ?s5" by (meson converse_rtranclp_into_rtranclp rtranclp.rtrancl_refl)
  then show ?thesis by (intro exI [of _ ?s5]) simp
qed

theorem drain_keeps_packets_witness:
  "\<exists>s. (drain_step False)\<^sup>*\<^sup>* (drain_start (queued [packet_ocr []]) unbounded []) s \<and> dr_phase s = Moving (packet_ocr []) \<and> dp_queue (dr_old s) = [] \<and>
    dr_dropped s = []"
proof -
  let ?s0 = "drain_start (queued [packet_ocr []]) unbounded []"
  let ?s1 = "?s0\<lparr> dr_old := queued [], dr_phase := Moving (packet_ocr []) \<rparr>"
  have run: "(drain_step False)\<^sup>*\<^sup>* ?s0 ?s1"
    by (rule r_into_rtranclp, rule drain_step.taken)
       (simp_all add: drain_start_def receive_old_def try_recv_def queued_def unbounded_def depth_down_def channel_recv_def wrapping_sub_def usize_max_def)
  from drain_keeps_packets [OF run] have "dr_dropped ?s1 = [] \<and> dp_queue (dr_old ?s1) = []" by (auto simp: queued_def unbounded_def drain_start_def)
  with run show ?thesis by (intro exI [of _ ?s1]) simp
qed

end
