(* ===== verification/StreamTypes.thy ===== *)
theory StreamTypes
  imports RustStr Resource "HOL-Library.Word"
begin

text \<open>
  The types of \<open>dg-stream\<close>: tracks and their codec configuration (\<open>track.rs\<close>), retry and endpoint
  options (\<open>stream.rs\<close>), identifiers (\<open>ids.rs\<close>), errors and the redaction of URLs (\<open>error.rs\<close>), and
  the check of endpoint URLs (\<open>connector.rs\<close>).  The random number of a backoff is an argument.
\<close>

section \<open>Tracks\<close>

type_synonym bytes = "8 word list"

datatype TrackMediaKind = Video | Audio | Data | Subtitle

datatype CodecId = H264 | H265 | H266 | AV1 | VP8 | VP9 | MJPEG | AAC | ADPCM | Opus | G711A | G711U | MP2 | MP3 | Unknown

record Rational32 =
  rat_num :: nat
  rat_den :: nat

datatype AacRtpPacketization = Mpeg4Generic | Latm

datatype TrackReadiness = NotReady | PendingConfig | Ready

datatype CodecExtradata =
  NoExtradata
| H264Extradata "bytes list" "bytes list" "bytes option"
| H265Extradata "bytes list" "bytes list" "bytes list" "bytes option"
| H266Extradata "bytes list" "bytes list" "bytes list"
| AACExtradata bytes
| AV1Extradata "bytes option" "bytes option"
| VP8Extradata "bytes option"
| VP9Extradata "bytes option"
| MP3Extradata "bytes option"
| OpusExtradata "string option" "bytes option"
| RawExtradata bytes

datatype CodecConfigRequirement = Required | Optional | NotRequired

datatype CodecConfigPayload =
  NoPayload
| H264Payload "bytes list" "bytes list" "bytes option"
| H265Payload "bytes list" "bytes list" "bytes list" "bytes option"
| H266Payload "bytes list" "bytes list" "bytes list"
| AACPayload bytes
| AV1Payload "bytes option" "bytes option"
| VP8Payload "bytes option"
| VP9Payload "bytes option"
| MP3Payload "bytes option"
| OpusPayload "string option" "bytes option"

record CodecConfigView =
  cv_requirement :: CodecConfigRequirement
  cv_payload :: CodecConfigPayload

datatype CodecConfigError = MissingRequiredConfig nat CodecId string

fun config_requirement :: "CodecId \<Rightarrow> CodecConfigRequirement" where
  "config_requirement codec =
    (if codec \<in> {H264, H265, H266, AAC} then Required
     else if codec \<in> {AV1, VP8, VP9, MP3, Opus} then Optional
     else NotRequired)"

fun to_config_payload :: "CodecExtradata \<Rightarrow> CodecConfigPayload" where
  "to_config_payload NoExtradata = NoPayload"
| "to_config_payload (RawExtradata _) = NoPayload"
| "to_config_payload (H264Extradata sps pps avcc) = H264Payload sps pps avcc"
| "to_config_payload (H265Extradata vps sps pps hvcc) = H265Payload vps sps pps hvcc"
| "to_config_payload (H266Extradata vps sps pps) = H266Payload vps sps pps"
| "to_config_payload (AACExtradata asc) = AACPayload asc"
| "to_config_payload (AV1Extradata sequence_header codec_config) = AV1Payload sequence_header codec_config"
| "to_config_payload (VP8Extradata config) = VP8Payload config"
| "to_config_payload (VP9Extradata config) = VP9Payload config"
| "to_config_payload (MP3Extradata side_info) = MP3Payload side_info"
| "to_config_payload (OpusExtradata fmtp channel_mapping) = OpusPayload fmtp channel_mapping"

definition missing_detail :: "CodecExtradata \<Rightarrow> CodecId \<Rightarrow> string option" where
  "missing_detail extradata codec =
    (case codec of
       H264 \<Rightarrow>
        (case extradata of
           H264Extradata sps pps avcc \<Rightarrow>
             if avcc \<noteq> None \<or> sps \<noteq> [] \<and> pps \<noteq> [] then None else Some ''H264 requires sps+pps or avcc''
         | _ \<Rightarrow> Some ''H264 requires sps/pps extradata'')
     | H265 \<Rightarrow>
        (case extradata of
           H265Extradata vps sps pps hvcc \<Rightarrow>
             if hvcc \<noteq> None \<or> vps \<noteq> [] \<and> sps \<noteq> [] \<and> pps \<noteq> [] then None else Some ''H265 requires vps+sps+pps or hvcc''
         | _ \<Rightarrow> Some ''H265 requires vps/sps/pps extradata'')
     | H266 \<Rightarrow>
        (case extradata of
           H266Extradata vps sps pps \<Rightarrow>
             if vps \<noteq> [] \<and> sps \<noteq> [] \<and> pps \<noteq> [] then None else Some ''H266 requires vps+sps+pps''
         | _ \<Rightarrow> Some ''H266 requires vps/sps/pps extradata'')
     | AAC \<Rightarrow>
        (case extradata of
           AACExtradata asc \<Rightarrow> if asc \<noteq> [] then None else Some ''AAC requires a non-empty AudioSpecificConfig''
         | _ \<Rightarrow> Some ''AAC requires a non-empty AudioSpecificConfig'')
     | _ \<Rightarrow> None)"

record TrackInfo =
  ti_track_id :: nat
  ti_media_kind :: TrackMediaKind
  ti_codec :: CodecId
  ti_aac_rtp_packetization :: AacRtpPacketization
  ti_aac_latm_config_in_band :: bool
  ti_payload_type :: "nat option"
  ti_clock_rate :: nat
  ti_sample_rate :: "nat option"
  ti_channels :: "nat option"
  ti_width :: "nat option"
  ti_height :: "nat option"
  ti_fps :: "Rational32 option"
  ti_bitrate :: "nat option"
  ti_extradata :: CodecExtradata
  ti_readiness :: TrackReadiness

definition track_info_new :: "nat \<Rightarrow> TrackMediaKind \<Rightarrow> CodecId \<Rightarrow> nat \<Rightarrow> TrackInfo" where
  "track_info_new track_id media_kind codec clock_rate =
    \<lparr> ti_track_id = track_id, ti_media_kind = media_kind, ti_codec = codec, ti_aac_rtp_packetization = Mpeg4Generic,
      ti_aac_latm_config_in_band = False, ti_payload_type = None, ti_clock_rate = clock_rate, ti_sample_rate = None,
      ti_channels = None, ti_width = None, ti_height = None, ti_fps = None, ti_bitrate = None,
      ti_extradata = NoExtradata, ti_readiness = NotReady \<rparr>"

definition codec_config_view :: "TrackInfo \<Rightarrow> CodecConfigView" where
  "codec_config_view track =
    \<lparr> cv_requirement = config_requirement (ti_codec track), cv_payload = to_config_payload (ti_extradata track) \<rparr>"

definition validate_codec_config :: "TrackInfo \<Rightarrow> CodecConfigError + unit" where
  "validate_codec_config track =
    (if config_requirement (ti_codec track) \<noteq> Required then Inr ()
     else case missing_detail (ti_extradata track) (ti_codec track) of
       None \<Rightarrow> Inr ()
     | Some detail \<Rightarrow> Inl (MissingRequiredConfig (ti_track_id track) (ti_codec track) detail))"

definition is_streamable :: "TrackInfo \<Rightarrow> bool" where
  "is_streamable track \<longleftrightarrow> ti_readiness track = Ready \<and> validate_codec_config track = Inr ()"

section \<open>Identifiers and options\<close>

record StreamKey =
  sk_namespace :: string
  sk_path :: string

record PublishLease =
  pl_stream_id :: nat
  pl_stream_key :: StreamKey
  pl_lease_id :: nat

definition MAX_RETRY_BACKOFF_MS :: nat where
  "MAX_RETRY_BACKOFF_MS = 24 * 60 * 60 * 1000"

record RetryConfig =
  rc_initial_backoff_ms :: nat
  rc_max_backoff_ms :: nat
  rc_multiplier :: nat
  rc_jitter_percent :: nat
  rc_max_attempts :: nat

definition retry_default :: RetryConfig where
  "retry_default = \<lparr> rc_initial_backoff_ms = 250, rc_max_backoff_ms = 30000, rc_multiplier = 2, rc_jitter_percent = 20, rc_max_attempts = 0 \<rparr>"

definition should_retry :: "RetryConfig \<Rightarrow> nat \<Rightarrow> bool" where
  "should_retry c attempt \<longleftrightarrow> rc_max_attempts c = 0 \<or> attempt \<le> rc_max_attempts c"

text \<open>\<open>u64::saturating_pow\<close>; from the 64th power on every base but 0 and 1 has reached the limit.\<close>

definition saturating_pow :: "nat \<Rightarrow> nat \<Rightarrow> nat" where
  "saturating_pow m e = (if m \<le> 1 then (if e = 0 then 1 else m) else if 64 \<le> e then usize_max else min (m ^ e) usize_max)"

definition clamped_backoff :: "RetryConfig \<Rightarrow> nat \<Rightarrow> nat" where
  "clamped_backoff c attempt =
    (let exponent = (if saturating_sub attempt 1 \<le> u32_max then saturating_sub attempt 1 else u32_max);
         initial_backoff_ms = min (rc_initial_backoff_ms c) MAX_RETRY_BACKOFF_MS;
         max_backoff_ms = min (rc_max_backoff_ms c) MAX_RETRY_BACKOFF_MS
     in min (saturating_mul initial_backoff_ms (saturating_pow (rc_multiplier c) exponent)) max_backoff_ms)"

definition backoff :: "nat \<Rightarrow> RetryConfig \<Rightarrow> nat \<Rightarrow> nat" where
  "backoff random c attempt =
    (let clamped = clamped_backoff c attempt;
         max_delta = saturating_mul clamped (rc_jitter_percent c) div 100;
         jitter = (if rc_jitter_percent c = 0 then 0 else if max_delta = 0 then 0 else random mod max_delta)
     in min (saturating_add clamped jitter) MAX_RETRY_BACKOFF_MS)"

datatype BackpressurePolicy = DropDroppableFirst | DropUntilNextKeyframe | DisconnectOnOverflow

datatype BootstrapMode = NoBootstrap | LiveTail | FullGop

record BootstrapPolicy =
  bp_mode :: BootstrapMode
  bp_max_bootstrap_age_ms :: "nat option"
  bp_max_bootstrap_frames :: nat
  bp_wait_for_next_random_access_point :: bool

definition bootstrap_none :: BootstrapPolicy where
  "bootstrap_none = \<lparr> bp_mode = NoBootstrap, bp_max_bootstrap_age_ms = None, bp_max_bootstrap_frames = 0,
    bp_wait_for_next_random_access_point = False \<rparr>"

definition bootstrap_live_tail :: "nat \<Rightarrow> nat option \<Rightarrow> BootstrapPolicy" where
  "bootstrap_live_tail frames age = \<lparr> bp_mode = LiveTail, bp_max_bootstrap_age_ms = age, bp_max_bootstrap_frames = frames,
    bp_wait_for_next_random_access_point = True \<rparr>"

definition bootstrap_full_gop :: "nat \<Rightarrow> nat option \<Rightarrow> BootstrapPolicy" where
  "bootstrap_full_gop frames age = \<lparr> bp_mode = FullGop, bp_max_bootstrap_age_ms = age, bp_max_bootstrap_frames = frames,
    bp_wait_for_next_random_access_point = True \<rparr>"

definition bootstrap_default :: BootstrapPolicy where
  "bootstrap_default = \<lparr> bp_mode = LiveTail, bp_max_bootstrap_age_ms = Some 1500, bp_max_bootstrap_frames = 150,
    bp_wait_for_next_random_access_point = True \<rparr>"

datatype DispatchResult = Accepted | DroppedByPolicy | RejectedClosed

record MediaFilter =
  enable_video :: bool
  enable_audio :: bool

definition media_filter_default :: MediaFilter where
  "media_filter_default = \<lparr> enable_video = True, enable_audio = True \<rparr>"

record PublisherOptions =
  po_announce_tracks :: bool
  po_retry :: RetryConfig
  po_connect_timeout_ms :: nat
  po_io_timeout_ms :: nat

definition publisher_options_default :: PublisherOptions where
  "publisher_options_default = \<lparr> po_announce_tracks = True, po_retry = retry_default, po_connect_timeout_ms = 10000,
    po_io_timeout_ms = 30000 \<rparr>"

record SubscriberOptions =
  so_queue_capacity :: usize
  so_backpressure :: BackpressurePolicy
  so_bootstrap_policy :: BootstrapPolicy
  so_media_filter :: MediaFilter
  so_retry :: RetryConfig
  so_connect_timeout_ms :: nat
  so_io_timeout_ms :: nat

definition subscriber_options_default :: SubscriberOptions where
  "subscriber_options_default = \<lparr> so_queue_capacity = 150, so_backpressure = DropDroppableFirst,
    so_bootstrap_policy = bootstrap_default, so_media_filter = media_filter_default, so_retry = retry_default,
    so_connect_timeout_ms = 10000, so_io_timeout_ms = 30000 \<rparr>"

section \<open>Errors\<close>

datatype EndpointClass = Pull | Push

fun display_endpoint_class :: "EndpointClass \<Rightarrow> string" where
  "display_endpoint_class Pull = ''pull''"
| "display_endpoint_class Push = ''push''"

datatype stream_error =
  SInvalidArgument string
| SClosed
| SEndOfStream
| SOverflow string
| SBuffer string
| SMedia string
| SSdk string
| SRuntime string
| SConnector string string bool EndpointClass "string option" string
| SAlreadyInstalled
| SConflict string

type_synonym 'a stream_result = "stream_error + 'a"

fun display_stream_error :: "stream_error \<Rightarrow> string" where
  "display_stream_error (SInvalidArgument m) = ''invalid argument: '' @ m"
| "display_stream_error SClosed = ''stream closed''"
| "display_stream_error SEndOfStream = ''end of stream''"
| "display_stream_error (SOverflow m) = ''backpressure overflow: '' @ m"
| "display_stream_error (SBuffer m) = ''buffer error: '' @ m"
| "display_stream_error (SMedia m) = ''media error: '' @ m"
| "display_stream_error (SSdk m) = ''sdk error: '' @ m"
| "display_stream_error (SRuntime m) = ''runtime error: '' @ m"
| "display_stream_error (SConnector protocol operation retryable class status message) =
    ''connector '' @ operation @ '' failed for '' @ display_endpoint_class class @ '' '' @ protocol @ '': '' @ message"
| "display_stream_error SAlreadyInstalled = ''stream connector already installed''"
| "display_stream_error (SConflict m) = ''configuration conflict: '' @ m"

fun retryable :: "stream_error \<Rightarrow> bool" where
  "retryable (SConnector _ _ r _ _ _) = r"
| "retryable _ = False"

fun endpoint_class :: "stream_error \<Rightarrow> EndpointClass option" where
  "endpoint_class (SConnector _ _ _ class _ _) = Some class"
| "endpoint_class _ = None"

fun protocol_label :: "stream_error \<Rightarrow> string option" where
  "protocol_label (SConnector protocol _ _ _ _ _) = (if protocol \<noteq> ''unknown'' then Some protocol else None)"
| "protocol_label _ = None"

definition strip_query_fragment :: "string \<Rightarrow> string" where
  "strip_query_fragment s =
    (let s1 = (case split_once ''?'' s of Some (left, _) \<Rightarrow> left | None \<Rightarrow> s)
     in case split_once ''#'' s1 of Some (left, _) \<Rightarrow> left | None \<Rightarrow> s1)"

definition known_schemes :: "string list" where
  "known_schemes = [''rtsp'', ''rtsps'', ''rtmp'', ''rtmps'', ''http'', ''https'', ''webrtc'', ''whip'', ''mock'']"

definition redact_url :: "string \<Rightarrow> string" where
  "redact_url url =
    (case split_once ''://'' url of
       None \<Rightarrow> strip_query_fragment url
     | Some (scheme, after_scheme) \<Rightarrow>
        if to_lowercase scheme \<notin> set known_schemes then strip_query_fragment url
        else
          let (authority, path_query) =
                (case split_once ''/'' after_scheme of Some (auth, rest) \<Rightarrow> (auth, Some rest) | None \<Rightarrow> (after_scheme, None));
              host = (case split_once ''@'' authority of Some (_, after_at) \<Rightarrow> after_at | None \<Rightarrow> authority);
              out = scheme @ ''://'' @ host
          in case path_query of
               None \<Rightarrow> out
             | Some path \<Rightarrow>
                let path_only = strip_query_fragment path
                in if path_only \<noteq> [] then out @ ''/'' @ path_only else out)"

fun redacted :: "stream_error \<Rightarrow> string" where
  "redacted (SConnector protocol operation r class status message) =
    ''connector '' @ operation @ '' failed for '' @ display_endpoint_class class @ '' '' @ protocol @ '': '' @ redact_url message @
    '' (status='' @ (case status of Some s \<Rightarrow> s | None \<Rightarrow> ''-'') @ '')''"
| "redacted e = display_stream_error e"

section \<open>Endpoint URLs\<close>

datatype StreamProtocol = RtspPull | HttpFlvPull | RtmpPush | WebRtcPush

fun is_pull :: "StreamProtocol \<Rightarrow> bool" where
  "is_pull RtspPull = True"
| "is_pull HttpFlvPull = True"
| "is_pull RtmpPush = False"
| "is_pull WebRtcPush = False"

fun label :: "StreamProtocol \<Rightarrow> string" where
  "label RtspPull = ''rtsp''"
| "label HttpFlvPull = ''http-flv''"
| "label RtmpPush = ''rtmp''"
| "label WebRtcPush = ''webrtc''"

fun network_schemes :: "StreamProtocol \<Rightarrow> string list" where
  "network_schemes RtspPull = [''rtsp'', ''rtsps'']"
| "network_schemes HttpFlvPull = [''http'', ''https'']"
| "network_schemes RtmpPush = [''rtmp'', ''rtmps'']"
| "network_schemes WebRtcPush = [''webrtc'', ''whip'']"

definition scheme_of :: "string \<Rightarrow> string stream_result" where
  "scheme_of url =
    (case split_once ''://'' url of
       Some (scheme, rest) \<Rightarrow>
         if scheme \<noteq> [] \<and> rest \<noteq> [] then Inr scheme
         else Inl (SInvalidArgument (''url `'' @ redact_url url @ ''` must be of the form scheme://path''))
     | None \<Rightarrow> Inl (SInvalidArgument (''url `'' @ redact_url url @ ''` must be of the form scheme://path'')))"

definition unsupported_scheme :: "StreamProtocol \<Rightarrow> string \<Rightarrow> stream_error" where
  "unsupported_scheme protocol scheme =
    SInvalidArgument (''scheme `'' @ scheme @ ''` is not supported by the '' @ label protocol @ '' protocol'')"

definition validate_endpoint_url :: "StreamProtocol \<Rightarrow> string \<Rightarrow> unit stream_result" where
  "validate_endpoint_url protocol url =
    and_then (scheme_of url) (\<lambda>scheme.
    if scheme = ''mock'' \<or> scheme \<in> set (network_schemes protocol) then Inr () else Inl (unsupported_scheme protocol scheme))"

section \<open>Lemmas\<close>

lemma saturating_pow_eq: "saturating_pow m e = min (m ^ e) usize_max"
proof (cases "m \<le> 1")
  case True
  then have "m = 0 \<or> m = 1" by linarith
  then show ?thesis by (auto simp: saturating_pow_def usize_max_def zero_power)
next
  case False
  have "usize_max \<le> m ^ e" if "64 \<le> e"
  proof -
    have "(2::nat) ^ 64 \<le> 2 ^ e" using that by (intro power_increasing) auto
    also have "\<dots> \<le> m ^ e" using False by (intro power_mono) auto
    finally show ?thesis by (simp add: usize_max_def)
  qed
  then show ?thesis using False by (auto simp: saturating_pow_def)
qed

lemma clamped_backoff_le: "clamped_backoff c attempt \<le> min (rc_max_backoff_ms c) MAX_RETRY_BACKOFF_MS"
  unfolding clamped_backoff_def Let_def by (rule min.cobounded2)

lemma clamped_backoff_mono:
  assumes "1 \<le> rc_multiplier c" and "attempt \<le> attempt'"
  shows "clamped_backoff c attempt \<le> clamped_backoff c attempt'"
proof -
  have "saturating_pow (rc_multiplier c) e \<le> saturating_pow (rc_multiplier c) e'" if "e \<le> e'" for e e'
    unfolding saturating_pow_eq using power_increasing [OF that assms(1)] by simp
  then show ?thesis
    using assms(2) unfolding clamped_backoff_def Let_def saturating_mul_def saturating_sub_def
    by (intro min.mono mult_left_mono order_refl) auto
qed

lemma split_scheme:
  assumes "CHR '':'' \<notin> set scheme"
  shows "split_once ''://'' (scheme @ ''://'' @ rest) = Some (scheme, rest)"
proof -
  have "find_sub ''://'' (scheme @ ''://'' @ rest) = Some (length scheme)"
  proof (rule find_sub_first)
    fix i assume "i < length scheme"
    then have "drop i scheme = scheme ! i # drop (Suc i) scheme" "scheme ! i \<in> set scheme" by (auto simp: Cons_nth_drop_Suc)
    then show "\<not> starts_with ''://'' (drop i (scheme @ ''://'' @ rest))"
      using assms by (auto simp: starts_with_iff)
  qed
  then show ?thesis by (simp add: split_once_def)
qed

lemma split_once_absent: "c \<notin> set s \<Longrightarrow> split_once [c] s = None"
  unfolding split_once_def by (auto simp: find_sub_None contains_sub_def)

lemma strip_query_clean: "CHR ''?'' \<notin> set path \<Longrightarrow> CHR ''#'' \<notin> set path \<Longrightarrow> strip_query_fragment path = path"
  by (simp add: strip_query_fragment_def split_once_absent)

lemma strip_query_question:
  "CHR ''?'' \<notin> set path \<Longrightarrow> CHR ''#'' \<notin> set path \<Longrightarrow> strip_query_fragment (path @ CHR ''?'' # rest) = path"
  by (simp add: strip_query_fragment_def split_once_char split_once_absent)

text \<open>A redacted string has neither question mark nor hash after the authority.\<close>

lemma strip_query_no_marks: "CHR ''?'' \<notin> set (strip_query_fragment s) \<and> CHR ''#'' \<notin> set (strip_query_fragment s)"
proof -
  define s1 where "s1 = (case split_once ''?'' s of Some (left, _) \<Rightarrow> left | None \<Rightarrow> s)"
  have s1: "CHR ''?'' \<notin> set s1"
  proof (cases "split_once ''?'' s")
    case None
    then have "\<not> contains_sub ''?'' s" by (simp add: split_once_def find_sub_None)
    then have "CHR ''?'' \<notin> set s" unfolding contains_sub_def by (metis append_Cons append_Nil split_list)
    then show ?thesis using None by (simp add: s1_def)
  next
    case (Some p)
    then show ?thesis using split_once_char_SomeD by (cases p) (auto simp: s1_def)
  qed
  show ?thesis
  proof (cases "split_once ''#'' s1")
    case None
    then have "\<not> contains_sub ''#'' s1" by (simp add: split_once_def find_sub_None)
    then have "CHR ''#'' \<notin> set s1" unfolding contains_sub_def by (metis append_Cons append_Nil split_list)
    then show ?thesis using None s1 by (simp add: strip_query_fragment_def s1_def)
  next
    case (Some p)
    then obtain u v where uv: "split_once ''#'' s1 = Some (u, v)" by (cases p) auto
    then have "CHR ''#'' \<notin> set u" "CHR ''?'' \<notin> set u" using split_once_char_SomeD [OF uv] split_once_SomeD [OF uv] s1 by auto
    then show ?thesis using uv by (simp add: strip_query_fragment_def s1_def)
  qed
qed

section \<open>Properties\<close>

text \<open>Redaction removes the credentials and the query of a URL: if the userinfo has no slash and no at
  sign and the path no question mark and no hash, the redacted URL is the scheme, the host and the
  path.\<close>

lemma redact_url_removes_secrets:
  assumes "to_lowercase scheme \<in> set known_schemes" and "CHR '':'' \<notin> set scheme"
    and "CHR ''/'' \<notin> set userinfo" "CHR ''@'' \<notin> set userinfo" and "CHR ''/'' \<notin> set host" "CHR ''@'' \<notin> set host"
    and "CHR ''?'' \<notin> set path" "CHR ''#'' \<notin> set path" and "path \<noteq> []"
  shows "redact_url (scheme @ ''://'' @ userinfo @ ''@'' @ host @ ''/'' @ path @ ''?'' @ query) = scheme @ ''://'' @ host @ ''/'' @ path"
proof -
  let ?authority = "userinfo @ ''@'' @ host"
  have "split_once ''://'' (scheme @ ''://'' @ ?authority @ ''/'' @ path @ ''?'' @ query) = Some (scheme, ?authority @ ''/'' @ path @ ''?'' @ query)"
    by (rule split_scheme) (fact assms(2))
  moreover have "split_once ''/'' (?authority @ CHR ''/'' # path @ ''?'' @ query) = Some (?authority, path @ ''?'' @ query)"
    using assms(3,5) by (intro split_once_char) simp
  moreover have "split_once ''@'' (userinfo @ CHR ''@'' # host) = Some (userinfo, host)" using assms(4) by (rule split_once_char)
  moreover have "strip_query_fragment (path @ CHR ''?'' # query) = path" using assms(7,8) by (rule strip_query_question)
  ultimately show ?thesis using assms(1,9) by (simp add: redact_url_def Let_def)
qed

text \<open>A URL that has a query and no path keeps its query: with no slash after the host the query is
  taken for a part of the host, so a token in it survives redaction.\<close>

lemma redact_url_keeps_query:
  assumes "to_lowercase scheme \<in> set known_schemes" and "CHR '':'' \<notin> set scheme"
    and "CHR ''/'' \<notin> set host" "CHR ''@'' \<notin> set host" and "CHR ''/'' \<notin> set query" "CHR ''@'' \<notin> set query"
  shows "redact_url (scheme @ ''://'' @ host @ ''?'' @ query) = scheme @ ''://'' @ host @ ''?'' @ query"
proof -
  have "split_once ''://'' (scheme @ ''://'' @ host @ ''?'' @ query) = Some (scheme, host @ ''?'' @ query)"
    by (rule split_scheme) (fact assms(2))
  moreover have "split_once ''/'' (host @ ''?'' @ query) = None" "split_once ''@'' (host @ ''?'' @ query) = None"
    using assms(3-6) by (intro split_once_absent; simp)+
  ultimately show ?thesis using assms(1) by (simp add: redact_url_def Let_def)
qed

text \<open>Backoffs are bounded and grow: whatever the random number, the delay lies between the clamped
  exponential delay and that delay plus its jitter, never exceeds a day, and the exponential delay
  does not decrease from attempt to attempt.\<close>

lemma backoff_bounds:
  assumes "1 \<le> rc_multiplier c" and "attempt \<le> attempt'"
  shows "clamped_backoff c attempt \<le> backoff random c attempt \<and>
    backoff random c attempt \<le> clamped_backoff c attempt + clamped_backoff c attempt * rc_jitter_percent c div 100 \<and>
    backoff random c attempt \<le> MAX_RETRY_BACKOFF_MS \<and> clamped_backoff c attempt \<le> clamped_backoff c attempt'"
proof (intro conjI)
  let ?clamped = "clamped_backoff c attempt"
  let ?delta = "saturating_mul ?clamped (rc_jitter_percent c) div 100"
  let ?jitter = "if rc_jitter_percent c = 0 then 0 else if ?delta = 0 then 0 else random mod ?delta"
  have b: "backoff random c attempt = min (saturating_add ?clamped ?jitter) MAX_RETRY_BACKOFF_MS" by (simp add: backoff_def Let_def)
  have small: "?clamped \<le> MAX_RETRY_BACKOFF_MS" using clamped_backoff_le [of c attempt] by simp
  then have "?clamped \<le> usize_max" by (simp add: MAX_RETRY_BACKOFF_MS_def usize_max_def)
  then show "?clamped \<le> backoff random c attempt" using small by (simp add: b saturating_add_def)
  have "?delta \<le> ?clamped * rc_jitter_percent c div 100" by (simp add: saturating_mul_def div_le_mono)
  moreover have "?jitter \<le> ?delta" by (simp add: less_imp_le)
  ultimately show "backoff random c attempt \<le> ?clamped + ?clamped * rc_jitter_percent c div 100"
    by (simp only: b) (auto simp: saturating_add_def min_def)
  show "backoff random c attempt \<le> MAX_RETRY_BACKOFF_MS" by (simp add: b)
  show "?clamped \<le> clamped_backoff c attempt'" using assms by (rule clamped_backoff_mono)
qed

section \<open>Examples\<close>

end
