(* ===== verification/StreamHub.thy ===== *)
theory StreamHub
  imports StreamTypes "HOL-Library.Sublist"
begin

text \<open>
  The in-process stream hub of \<open>dg-stream/src/hub.rs\<close>: a registry of streams, each with its publishers,
  the bounded queues of its subscribers and the backpressure policy of each queue, and the opening of
  \<open>mock://\<close> endpoints (\<open>connector.rs\<close>).  A stream is an address, since the registry compares streams by
  identity when it drops one.  Of a media frame the hub looks at the tags only; the rest is \<open>'f\<close>.
  Operations that hold a lock are atomic; opening a publisher takes two locks one after the other
  and is modelled a second time as a step relation.  Blocking receives are modelled at the
  moment they return.
\<close>

section \<open>State\<close>

record 'f MediaFrame =
  mf_tags :: "(string \<times> string) list"
  mf_payload :: 'f

definition frame_is_keyframe :: "'f MediaFrame \<Rightarrow> bool" where
  "frame_is_keyframe frame \<longleftrightarrow> map_of (mf_tags frame) ''keyframe'' = Some ''true''"

definition passes_filter :: "'f MediaFrame \<Rightarrow> MediaFilter \<Rightarrow> bool" where
  "passes_filter frame wanted =
    (case map_of (mf_tags frame) ''media'' of
       Some media \<Rightarrow> if media = ''video'' then enable_video wanted else if media = ''audio'' then enable_audio wanted else True
     | None \<Rightarrow> True)"

record 'f SubscriberQueue =
  sq_queue :: "'f MediaFrame list"
  sq_capacity :: usize
  sq_policy :: BackpressurePolicy
  sq_filter :: MediaFilter
  sq_overflowed :: bool
  sq_dropping_until_keyframe :: bool

record 'f StreamState =
  st_tracks :: "TrackInfo list"
  st_subscribers :: "(nat \<times> 'f SubscriberQueue) list"
  st_publishers :: usize
  st_publisher_closed :: bool
  st_keyframe_requests :: nat

definition stream_state_default :: "'f StreamState" where
  "stream_state_default = \<lparr> st_tracks = [], st_subscribers = [], st_publishers = 0, st_publisher_closed = False, st_keyframe_requests = 0 \<rparr>"

record 'f hub =
  hb_streams :: "(string \<times> nat) list"
  hb_cores :: "nat \<Rightarrow> 'f StreamState"
  hb_next_core :: nat
  hb_next_subscriber :: nat
  hb_max_streams :: usize
  hb_max_subscribers :: usize

definition with_limits :: "usize \<Rightarrow> usize \<Rightarrow> 'f hub" where
  "with_limits max_streams max_subscribers =
    \<lparr> hb_streams = [], hb_cores = (\<lambda>_. stream_state_default), hb_next_core = 0, hb_next_subscriber = 0,
      hb_max_streams = max_streams, hb_max_subscribers = max_subscribers \<rparr>"

definition hub_default :: "'f hub" where
  "hub_default = with_limits 10000 1000"

definition set_core :: "nat \<Rightarrow> 'f StreamState \<Rightarrow> 'f hub \<Rightarrow> 'f hub" where
  "set_core core state h = h\<lparr> hb_cores := (hb_cores h)(core := state) \<rparr>"

record HubPublisher =
  hp_url :: string
  hp_core :: nat
  hp_closed :: bool

record HubSubscriber =
  hs_url :: string
  hs_core :: nat
  hs_id :: nat
  hs_closed :: bool

section \<open>Registry\<close>

definition stream_count :: "'f hub \<Rightarrow> nat" where
  "stream_count h = length (hb_streams h)"

definition try_get_stream :: "string \<Rightarrow> 'f hub \<Rightarrow> nat option" where
  "try_get_stream url h = map_of (hb_streams h) url"

definition get_or_create_stream :: "string \<Rightarrow> 'f hub \<Rightarrow> nat stream_result \<times> 'f hub" where
  "get_or_create_stream url h =
    (case map_of (hb_streams h) url of
       Some core \<Rightarrow> (Inr core, h)
     | None \<Rightarrow>
        if length (hb_streams h) \<ge> hb_max_streams h
        then (Inl (SOverflow (''stream registry limit '' @ show_nat (hb_max_streams h) @ '' reached'')), h)
        else
          let core = hb_next_core h
          in (Inr core, (set_core core stream_state_default h)\<lparr> hb_streams := bt_insert url core (hb_streams h), hb_next_core := Suc core \<rparr>))"

definition unused :: "'f StreamState \<Rightarrow> bool" where
  "unused state \<longleftrightarrow> st_publishers state = 0 \<and> st_subscribers state = []"

definition try_reap :: "string \<Rightarrow> nat \<Rightarrow> 'f hub \<Rightarrow> 'f hub" where
  "try_reap url core h =
    (if \<not> unused (hb_cores h core) then h
     else if map_of (hb_streams h) url = Some core \<and> unused (hb_cores h core)
     then h\<lparr> hb_streams := bt_remove url (hb_streams h) \<rparr>
     else h)"

section \<open>Opening\<close>

text \<open>The part of \<open>publish\<close> under the lock of the stream.\<close>

definition register_publisher :: "string \<Rightarrow> nat \<Rightarrow> 'f hub \<Rightarrow> HubPublisher \<times> 'f hub" where
  "register_publisher url core h =
    (let state = hb_cores h core in
     (\<lparr> hp_url = url, hp_core = core, hp_closed = False \<rparr>,
      set_core core (state\<lparr> st_publishers := saturating_add (st_publishers state) 1, st_publisher_closed := False \<rparr>) h))"

definition publish :: "string \<Rightarrow> PublisherOptions \<Rightarrow> 'f hub \<Rightarrow> HubPublisher stream_result \<times> 'f hub" where
  "publish url options h =
    (case get_or_create_stream url h of
       (Inl e, h1) \<Rightarrow> (Inl e, h1)
     | (Inr core, h1) \<Rightarrow> (let (publisher, h2) = register_publisher url core h1 in (Inr publisher, h2)))"

definition subscriber_queue :: "SubscriberOptions \<Rightarrow> 'f SubscriberQueue" where
  "subscriber_queue options = \<lparr> sq_queue = [], sq_capacity = so_queue_capacity options, sq_policy = so_backpressure options,
    sq_filter = so_media_filter options, sq_overflowed = False, sq_dropping_until_keyframe = False \<rparr>"

definition subscribe :: "string \<Rightarrow> SubscriberOptions \<Rightarrow> 'f hub \<Rightarrow> HubSubscriber stream_result \<times> 'f hub" where
  "subscribe url options h =
    (if so_queue_capacity options = 0
     then (Inl (SInvalidArgument ''subscriber queue_capacity must be greater than zero''), h)
     else if hb_max_subscribers h = 0 then (Inl (SOverflow ''subscriber limit for stream is zero''), h)
     else case get_or_create_stream url h of
       (Inl e, h1) \<Rightarrow> (Inl e, h1)
     | (Inr core, h1) \<Rightarrow>
        let id = hb_next_subscriber h1;
            h2 = h1\<lparr> hb_next_subscriber := wrapping_add (hb_next_subscriber h1) 1 \<rparr>;
            state = hb_cores h2 core
        in if length (st_subscribers state) \<ge> hb_max_subscribers h2
           then (Inl (SOverflow (''subscriber limit '' @ show_nat (hb_max_subscribers h2) @ '' reached for stream '' @ url)),
                 if unused state then try_reap url core h2 else h2)
           else (Inr \<lparr> hs_url = url, hs_core = core, hs_id = id, hs_closed = False \<rparr>,
                 set_core core (state\<lparr> st_subscribers := bt_insert id (subscriber_queue options) (st_subscribers state) \<rparr>) h2))"

definition tracks :: "string \<Rightarrow> 'f hub \<Rightarrow> TrackInfo list" where
  "tracks url h = (case try_get_stream url h of Some core \<Rightarrow> st_tracks (hb_cores h core) | None \<Rightarrow> [])"

definition subscriber_count :: "string \<Rightarrow> 'f hub \<Rightarrow> nat" where
  "subscriber_count url h = (case try_get_stream url h of Some core \<Rightarrow> length (st_subscribers (hb_cores h core)) | None \<Rightarrow> 0)"

definition request_keyframe :: "string \<Rightarrow> 'f hub \<Rightarrow> unit stream_result \<times> 'f hub" where
  "request_keyframe url h =
    (case get_or_create_stream url h of
       (Inl e, h1) \<Rightarrow> (Inl e, h1)
     | (Inr core, h1) \<Rightarrow>
        let state = hb_cores h1 core
        in (Inr (), set_core core (state\<lparr> st_keyframe_requests := saturating_add (st_keyframe_requests state) 1 \<rparr>) h1))"

section \<open>Publishing\<close>

fun display_codec_config_error :: "(CodecId \<Rightarrow> string) \<Rightarrow> CodecConfigError \<Rightarrow> string" where
  "display_codec_config_error debug_codec (MissingRequiredConfig track_id codec detail) =
    ''track '' @ show_nat track_id @ '' codec '' @ debug_codec codec @ '' missing required codec config: '' @ detail"

text \<open>The name of a codec in a message is the text of its derived \<open>Debug\<close>.\<close>

fun check_tracks :: "(CodecId \<Rightarrow> string) \<Rightarrow> TrackInfo list \<Rightarrow> unit stream_result" where
  "check_tracks debug_codec [] = Inr ()"
| "check_tracks debug_codec (track # ts) =
    (if ti_readiness track = Ready
     then and_then (map_err (\<lambda>e. SMedia (display_codec_config_error debug_codec e)) (validate_codec_config track)) (\<lambda>_. check_tracks debug_codec ts)
     else check_tracks debug_codec ts)"

definition update_tracks :: "(CodecId \<Rightarrow> string) \<Rightarrow> TrackInfo list \<Rightarrow> HubPublisher \<Rightarrow> 'f hub \<Rightarrow> unit stream_result \<times> 'f hub" where
  "update_tracks debug_codec ts p h =
    (case check_tracks debug_codec ts of
       Inl e \<Rightarrow> (Inl e, h)
     | Inr _ \<Rightarrow>
        let state = hb_cores h (hp_core p)
        in if st_publisher_closed state \<or> hp_closed p then (Inl SClosed, h)
           else (Inr (), set_core (hp_core p) (state\<lparr> st_tracks := ts \<rparr>) h))"

text \<open>Removing the oldest frame that is not a keyframe, or the oldest frame.\<close>

fun drop_droppable :: "'f MediaFrame list \<Rightarrow> 'f MediaFrame list option" where
  "drop_droppable [] = None"
| "drop_droppable (f # fs) = (if \<not> frame_is_keyframe f then Some fs else map_option ((#) f) (drop_droppable fs))"

definition make_room :: "'f MediaFrame list \<Rightarrow> 'f MediaFrame list" where
  "make_room queue = (case drop_droppable queue of Some rest \<Rightarrow> rest | None \<Rightarrow> tl queue)"

text \<open>One subscriber in \<open>push_frame\<close>: the new queue, and whether the frame was enqueued and whether one
  was dropped.\<close>

definition offer_full :: "'f MediaFrame \<Rightarrow> 'f SubscriberQueue \<Rightarrow> 'f SubscriberQueue \<times> bool \<times> bool" where
  "offer_full frame s =
    (case sq_policy s of
       DropDroppableFirst \<Rightarrow> (s\<lparr> sq_queue := make_room (sq_queue s) @ [frame] \<rparr>, True, True)
     | DropUntilNextKeyframe \<Rightarrow>
        if frame_is_keyframe frame then (s\<lparr> sq_queue := [frame] \<rparr>, True, True)
        else (s\<lparr> sq_dropping_until_keyframe := True \<rparr>, False, True)
     | DisconnectOnOverflow \<Rightarrow> (s\<lparr> sq_overflowed := True, sq_queue := [] \<rparr>, False, True))"

definition offer :: "'f MediaFrame \<Rightarrow> 'f SubscriberQueue \<Rightarrow> 'f SubscriberQueue \<times> bool \<times> bool" where
  "offer frame s =
    (if sq_overflowed s \<or> \<not> passes_filter frame (sq_filter s) then (s, False, False)
     else if sq_dropping_until_keyframe s \<and> \<not> frame_is_keyframe frame then (s, False, True)
     else
       let s1 = (if sq_dropping_until_keyframe s then s\<lparr> sq_dropping_until_keyframe := False \<rparr> else s)
       in if length (sq_queue s1) \<ge> sq_capacity s1 then offer_full frame s1
          else (s1\<lparr> sq_queue := sq_queue s1 @ [frame] \<rparr>, True, False))"

definition push_frame :: "'f MediaFrame \<Rightarrow> HubPublisher \<Rightarrow> 'f hub \<Rightarrow> DispatchResult \<times> 'f hub" where
  "push_frame frame p h =
    (let state = hb_cores h (hp_core p) in
     if st_publisher_closed state \<or> hp_closed p then (RejectedClosed, h)
     else
       let offers = map (\<lambda>(id, s). (id, offer frame s)) (st_subscribers state);
           enqueued = list_ex (\<lambda>(id, _, e, _). e) offers;
           dropped = list_ex (\<lambda>(id, _, _, d). d) offers;
           h1 = set_core (hp_core p) (state\<lparr> st_subscribers := map (\<lambda>(id, s, _, _). (id, s)) offers \<rparr>) h
       in (if enqueued \<or> \<not> dropped then Accepted else DroppedByPolicy, h1))"

text \<open>The two parts of \<open>HubPublisher::close\<close>, and the whole.\<close>

definition release_publisher :: "nat \<Rightarrow> 'f hub \<Rightarrow> 'f hub" where
  "release_publisher core h =
    (let state = hb_cores h core;
         publishers = (if st_publishers state > 0 then saturating_sub (st_publishers state) 1 else st_publishers state)
     in set_core core (state\<lparr> st_publishers := publishers,
          st_publisher_closed := (if publishers = 0 then True else st_publisher_closed state) \<rparr>) h)"

definition publisher_close :: "HubPublisher \<Rightarrow> 'f hub \<Rightarrow> HubPublisher \<times> 'f hub" where
  "publisher_close p h =
    (if hp_closed p then (p, h)
     else (p\<lparr> hp_closed := True \<rparr>, try_reap (hp_url p) (hp_core p) (release_publisher (hp_core p) h)))"

definition take_keyframe_requests :: "HubPublisher \<Rightarrow> 'f hub \<Rightarrow> nat \<times> 'f hub" where
  "take_keyframe_requests p h =
    (let state = hb_cores h (hp_core p)
     in (st_keyframe_requests state, set_core (hp_core p) (state\<lparr> st_keyframe_requests := 0 \<rparr>) h))"

section \<open>Receiving\<close>

datatype 'f ReceiveOutcome = Frame "'f MediaFrame" | EndOfStream | TimedOut

definition remove_subscriber :: "HubSubscriber \<Rightarrow> 'f hub \<Rightarrow> 'f hub" where
  "remove_subscriber sub h =
    (let state = hb_cores h (hs_core sub)
     in set_core (hs_core sub) (state\<lparr> st_subscribers := bt_remove (hs_id sub) (st_subscribers state) \<rparr>) h)"

text \<open>The pass of \<open>recv_timeout\<close> that returns; \<open>deadline_ok\<close> says that the deadline can be represented.  A wait that
  ends by its time-out returns \<open>TimedOut\<close> without a further look at the queue, and changes nothing.\<close>

definition hub_recv_timeout :: "bool \<Rightarrow> HubSubscriber \<Rightarrow> 'f hub \<Rightarrow> 'f ReceiveOutcome stream_result \<times> HubSubscriber \<times> 'f hub" where
  "hub_recv_timeout deadline_ok sub h =
    (if hs_closed sub then (Inr EndOfStream, sub, h)
     else if \<not> deadline_ok then (Inl (SInvalidArgument ''recv timeout overflowed''), sub, h)
     else
       let state = hb_cores h (hs_core sub) in
       case map_of (st_subscribers state) (hs_id sub) of
         None \<Rightarrow> (Inr EndOfStream, sub\<lparr> hs_closed := True \<rparr>, try_reap (hs_url sub) (hs_core sub) h)
       | Some s \<Rightarrow>
          if sq_overflowed s
          then (Inl (SOverflow ''subscriber disconnected: queue overflow''), sub\<lparr> hs_closed := True \<rparr>,
                try_reap (hs_url sub) (hs_core sub) (remove_subscriber sub h))
          else case sq_queue s of
            frame # rest \<Rightarrow>
              (Inr (Frame frame), sub, set_core (hs_core sub)
                (state\<lparr> st_subscribers := bt_insert (hs_id sub) (s\<lparr> sq_queue := rest \<rparr>) (st_subscribers state) \<rparr>) h)
          | [] \<Rightarrow> if st_publisher_closed state then (Inr EndOfStream, sub, h) else (Inr TimedOut, sub, h))"

definition subscriber_close :: "HubSubscriber \<Rightarrow> 'f hub \<Rightarrow> HubSubscriber \<times> 'f hub" where
  "subscriber_close sub h =
    (if hs_closed sub then (sub, h)
     else (sub\<lparr> hs_closed := True \<rparr>, try_reap (hs_url sub) (hs_core sub) (remove_subscriber sub h)))"

section \<open>Endpoints\<close>

text \<open>Network endpoints are opened by a connector outside of this crate, which is an argument.\<close>

definition open_pull ::
  "(StreamProtocol \<Rightarrow> string \<Rightarrow> SubscriberOptions \<Rightarrow> (TrackInfo list \<times> 'e) stream_result) \<Rightarrow> StreamProtocol \<Rightarrow> string \<Rightarrow>
    SubscriberOptions \<Rightarrow> 'f hub \<Rightarrow> (TrackInfo list \<times> (HubSubscriber + 'e)) stream_result \<times> 'f hub"
where
  "open_pull connect protocol url options h =
    (if \<not> is_pull protocol then (Inl (SInvalidArgument (label protocol @ '' is not a pull protocol'')), h)
     else case and_then (validate_endpoint_url protocol url) (\<lambda>_. scheme_of url) of
       Inl e \<Rightarrow> (Inl e, h)
     | Inr scheme \<Rightarrow>
        if scheme = ''mock''
        then (case subscribe url options h of
                (Inl e, h1) \<Rightarrow> (Inl e, h1)
              | (Inr source, h1) \<Rightarrow> (Inr (tracks url h, Inl source), h1))
        else if scheme \<in> set (network_schemes protocol)
        then (map_sum id (\<lambda>(ts, source). (ts, Inr source)) (connect protocol url options), h)
        else (Inl (unsupported_scheme protocol scheme), h))"

definition open_push ::
  "(StreamProtocol \<Rightarrow> string \<Rightarrow> PublisherOptions \<Rightarrow> 'e stream_result) \<Rightarrow> StreamProtocol \<Rightarrow> string \<Rightarrow>
    PublisherOptions \<Rightarrow> 'f hub \<Rightarrow> (HubPublisher + 'e) stream_result \<times> 'f hub"
where
  "open_push connect protocol url options h =
    (if is_pull protocol then (Inl (SInvalidArgument (label protocol @ '' is not a push protocol'')), h)
     else case and_then (validate_endpoint_url protocol url) (\<lambda>_. scheme_of url) of
       Inl e \<Rightarrow> (Inl e, h)
     | Inr scheme \<Rightarrow>
        if scheme = ''mock''
        then (case publish url options h of
                (Inl e, h1) \<Rightarrow> (Inl e, h1)
              | (Inr sink, h1) \<Rightarrow> (Inr (Inl sink), h1))
        else if scheme \<in> set (network_schemes protocol)
        then (map_sum id Inr (connect protocol url options), h)
        else (Inl (unsupported_scheme protocol scheme), h))"

section \<open>What a queue delivers\<close>

text \<open>The life of one subscriber queue: frames are offered, and the subscriber takes them.\<close>

datatype 'f queue_event = Offer "'f MediaFrame" | Take

fun queue_step :: "'f queue_event \<Rightarrow> 'f SubscriberQueue \<times> 'f MediaFrame list \<Rightarrow> 'f SubscriberQueue \<times> 'f MediaFrame list" where
  "queue_step (Offer frame) (s, received) = (fst (offer frame s), received)"
| "queue_step Take (s, received) =
    (case sq_queue s of [] \<Rightarrow> (s, received) | frame # rest \<Rightarrow> (s\<lparr> sq_queue := rest \<rparr>, received @ [frame]))"

definition queue_life :: "SubscriberOptions \<Rightarrow> 'f queue_event list \<Rightarrow> 'f SubscriberQueue \<times> 'f MediaFrame list" where
  "queue_life options events = fold queue_step events (subscriber_queue options, [])"

text \<open>The frames offered that pass the filter.\<close>

fun offered :: "MediaFilter \<Rightarrow> 'f queue_event list \<Rightarrow> 'f MediaFrame list" where
  "offered wanted [] = []"
| "offered wanted (Offer frame # events) = (if passes_filter frame wanted then [frame] else []) @ offered wanted events"
| "offered wanted (Take # events) = offered wanted events"

lemma offered_append: "offered wanted (xs @ ys) = offered wanted xs @ offered wanted ys"
  by (induction xs rule: offered.induct) simp_all

lemma drop_droppable_subseq: "drop_droppable queue = Some rest \<Longrightarrow> subseq rest queue \<and> Suc (length rest) = length queue"
  by (induction queue arbitrary: rest) (auto split: if_splits)

lemma make_room_subseq: "subseq (make_room queue) queue \<and> length (make_room queue) \<le> length queue - 1"
proof (cases "drop_droppable queue")
  case None
  have "subseq (tl queue) queue" by (cases queue) auto
  then show ?thesis using None by (simp add: make_room_def)
next
  case (Some rest)
  then show ?thesis using drop_droppable_subseq [OF Some] by (auto simp: make_room_def)
qed

lemma offer_parameters:
  "sq_capacity (fst (offer frame s)) = sq_capacity s \<and> sq_policy (fst (offer frame s)) = sq_policy s \<and> sq_filter (fst (offer frame s)) = sq_filter s"
  by (auto simp: offer_def offer_full_def Let_def split: BackpressurePolicy.splits)

lemma offer_bounded:
  assumes "length (sq_queue s) \<le> sq_capacity s" and "0 < sq_capacity s"
  shows "length (sq_queue (fst (offer frame s))) \<le> sq_capacity s"
proof -
  have "length (make_room (sq_queue s)) < sq_capacity s" using make_room_subseq [of "sq_queue s"] assms by linarith
  then show ?thesis using assms by (auto simp: offer_def offer_full_def Let_def split: BackpressurePolicy.splits)
qed

text \<open>What one offer does to the frames on their way, behind those already received.\<close>

lemma offer_subseq:
  assumes "subseq (received @ sq_queue s) frames"
  shows "subseq (received @ sq_queue (fst (offer frame s))) (frames @ (if passes_filter frame (sq_filter s) then [frame] else []))"
proof -
  have keep: "subseq (received @ sq_queue s) (frames @ [frame])" using assms by (metis append_Nil2 list_emb_append_mono list_emb_Nil)
  have add: "subseq ((received @ q) @ [frame]) (frames @ [frame])" if "subseq q (sq_queue s)" for q
  proof -
    have "subseq (received @ q) frames" using that assms by (meson subseq_order.order_trans list_emb_append_mono subseq_order.order_refl)
    then show ?thesis by (rule list_emb_append_mono) simp
  qed
  have none: "subseq received (frames @ [frame])" "subseq (received @ [frame]) (frames @ [frame])"
    using keep add [of "[]"] by (auto intro: subseq_order.order_trans list_emb_append_mono)
  show ?thesis
    using keep add [of "sq_queue s"] add [of "make_room (sq_queue s)"] none make_room_subseq [of "sq_queue s"] assms
    by (auto simp: offer_def offer_full_def Let_def split: BackpressurePolicy.splits)
qed

lemma queue_life_inv:
  assumes "fold queue_step events (subscriber_queue options, []) = (s, received)" and "0 < so_queue_capacity options"
  shows "subseq (received @ sq_queue s) (offered (so_media_filter options) events) \<and>
    length (sq_queue s) \<le> sq_capacity s \<and> sq_capacity s = so_queue_capacity options \<and> sq_filter s = so_media_filter options \<and>
    sq_policy s = so_backpressure options"
  using assms(1)
proof (induction events arbitrary: s received rule: rev_induct)
  case Nil
  then show ?case by (auto simp: subscriber_queue_def)
next
  case (snoc event events)
  obtain s0 received0 where s0: "fold queue_step events (subscriber_queue options, []) = (s0, received0)" by fastforce
  note IH = snoc.IH [OF s0]
  show ?case
  proof (cases event)
    case (Offer frame)
    then have "s = fst (offer frame s0)" "received = received0" using snoc.prems s0 by simp_all
    then show ?thesis
      using IH Offer assms(2) offer_subseq [of received0 s0 "offered (so_media_filter options) events" frame] offer_bounded [of s0 frame] offer_parameters [of frame s0]
      by (simp add: offered_append)
  next
    case Take
    then show ?thesis using IH snoc.prems s0 by (cases "sq_queue s0") (auto simp: offered_append)
  qed
qed

text \<open>The frames of \<open>delivered\<close> are frames of \<open>frames\<close> at increasing positions, and a frame that does
  not directly follow its predecessor is a keyframe.\<close>

definition resumes_at_keyframes :: "'f MediaFrame list \<Rightarrow> nat list \<Rightarrow> 'f MediaFrame list \<Rightarrow> bool" where
  "resumes_at_keyframes frames positions delivered \<longleftrightarrow>
    delivered = map (\<lambda>i. frames ! i) positions \<and> sorted_wrt (<) positions \<and> (\<forall>i \<in> set positions. i < length frames) \<and>
    (\<forall>k < length positions. positions ! k = (if k = 0 then 0 else Suc (positions ! (k - 1))) \<or> frame_is_keyframe (frames ! (positions ! k)))"

lemma resumes_extend: "resumes_at_keyframes frames positions delivered \<Longrightarrow> resumes_at_keyframes (frames @ fs) positions delivered"
  by (auto simp: resumes_at_keyframes_def nth_append)

lemma resumes_prefix:
  assumes "resumes_at_keyframes frames positions (d @ e)"
  shows "resumes_at_keyframes frames (take (length d) positions) d"
proof -
  have "d = take (length d) (d @ e)" by simp
  also have "\<dots> = map (\<lambda>i. frames ! i) (take (length d) positions)"
    using assms by (simp only: resumes_at_keyframes_def take_map)
  finally have "d = map (\<lambda>i. frames ! i) (take (length d) positions)" .
  then show ?thesis using assms unfolding resumes_at_keyframes_def by (auto simp: sorted_wrt_take dest: in_set_takeD)
qed

lemma resumes_add:
  assumes r: "resumes_at_keyframes frames positions delivered"
    and last: "frame_is_keyframe frame \<or> length frames = (if positions = [] then 0 else Suc (last positions))"
  shows "resumes_at_keyframes (frames @ [frame]) (positions @ [length frames]) (delivered @ [frame])"
proof -
  let ?ps = "positions @ [length frames]" and ?fs = "frames @ [frame]"
  have "?ps ! k = (if k = 0 then 0 else Suc (?ps ! (k - 1))) \<or> frame_is_keyframe (?fs ! (?ps ! k))" if k: "k < length ?ps" for k
  proof (cases "k = length positions")
    case True
    then show ?thesis using last by (cases "positions = []") (auto simp: nth_append last_conv_nth)
  next
    case False
    then have "k < length positions" using k by simp
    then show ?thesis using r by (auto simp: resumes_at_keyframes_def nth_append)
  qed
  moreover have "delivered @ [frame] = map (\<lambda>i. ?fs ! i) ?ps" using r by (auto simp: resumes_at_keyframes_def nth_append)
  ultimately show ?thesis using r by (auto simp: resumes_at_keyframes_def sorted_wrt_append)
qed

definition gap_inv :: "'f MediaFrame list \<Rightarrow> 'f SubscriberQueue \<Rightarrow> 'f MediaFrame list \<Rightarrow> bool" where
  "gap_inv frames s received \<longleftrightarrow> \<not> sq_overflowed s \<and> sq_policy s = DropUntilNextKeyframe \<and>
    (\<exists>positions. resumes_at_keyframes frames positions (received @ sq_queue s) \<and>
      (sq_dropping_until_keyframe s \<or> length frames = (if positions = [] then 0 else Suc (last positions))))"

lemma gap_offer:
  assumes "gap_inv frames s received" and pass: "passes_filter frame (sq_filter s)"
  shows "gap_inv (frames @ [frame]) (fst (offer frame s)) received"
proof -
  obtain positions where r: "resumes_at_keyframes frames positions (received @ sq_queue s)"
    and l: "sq_dropping_until_keyframe s \<or> length frames = (if positions = [] then 0 else Suc (last positions))"
    and s: "\<not> sq_overflowed s" "sq_policy s = DropUntilNextKeyframe"
    using assms(1) by (auto simp: gap_inv_def)
  let ?cut = "take (length received) positions @ [length frames]"
  consider (skip) "\<not> frame_is_keyframe frame" "sq_dropping_until_keyframe s"
    | (begin_drop) "\<not> frame_is_keyframe frame" "\<not> sq_dropping_until_keyframe s" "sq_capacity s \<le> length (sq_queue s)"
    | (clear) "frame_is_keyframe frame" "sq_capacity s \<le> length (sq_queue s)"
    | (append) "frame_is_keyframe frame \<or> \<not> sq_dropping_until_keyframe s" "length (sq_queue s) < sq_capacity s" by linarith
  then show ?thesis
  proof cases
    case skip
    then have "fst (offer frame s) = s" using s pass by (simp add: offer_def)
    then show ?thesis using resumes_extend [OF r] s skip(2) by (auto simp: gap_inv_def)
  next
    case begin_drop
    then have "fst (offer frame s) = s\<lparr> sq_dropping_until_keyframe := True \<rparr>" using s pass by (simp add: offer_def offer_full_def)
    then show ?thesis using resumes_extend [OF r] s by (auto simp: gap_inv_def)
  next
    case clear
    then have "fst (offer frame s) = s\<lparr> sq_dropping_until_keyframe := False, sq_queue := [frame] \<rparr>"
      using s pass by (auto simp: offer_def offer_full_def Let_def)
    moreover have "resumes_at_keyframes (frames @ [frame]) ?cut (received @ [frame])"
      using clear by (intro resumes_add resumes_prefix [OF r]) simp
    ultimately show ?thesis using s by (auto simp: gap_inv_def intro!: exI [of _ ?cut])
  next
    case append
    then have "fst (offer frame s) = s\<lparr> sq_dropping_until_keyframe := False, sq_queue := sq_queue s @ [frame] \<rparr>"
      using s pass by (auto simp: offer_def Let_def)
    moreover have "resumes_at_keyframes (frames @ [frame]) (positions @ [length frames]) ((received @ sq_queue s) @ [frame])"
      using append(1) l by (intro resumes_add [OF r]) auto
    ultimately show ?thesis using s by (auto simp: gap_inv_def intro!: exI [of _ "positions @ [length frames]"])
  qed
qed

lemma queue_life_gaps:
  assumes "fold queue_step events (subscriber_queue options, []) = (s, received)" and "so_backpressure options = DropUntilNextKeyframe"
  shows "gap_inv (offered (so_media_filter options) events) s received \<and> sq_filter s = so_media_filter options"
  using assms(1)
proof (induction events arbitrary: s received rule: rev_induct)
  case Nil
  then show ?case using assms(2) by (auto simp: subscriber_queue_def gap_inv_def resumes_at_keyframes_def)
next
  case (snoc event events)
  obtain s0 received0 where s0: "fold queue_step events (subscriber_queue options, []) = (s0, received0)" by fastforce
  note IH = snoc.IH [OF s0]
  show ?case
  proof (cases event)
    case (Offer frame)
    then have now: "s = fst (offer frame s0)" "received = received0" using snoc.prems s0 by simp_all
    show ?thesis
    proof (cases "passes_filter frame (sq_filter s0)")
      case True
      then show ?thesis using IH now gap_offer [OF _ True] Offer offer_parameters [of frame s0] by (simp add: offered_append)
    next
      case False
      then show ?thesis using IH now Offer by (simp add: offered_append offer_def)
    qed
  next
    case Take
    show ?thesis
    proof (cases "sq_queue s0")
      case Nil
      then show ?thesis using IH snoc.prems s0 Take by (simp add: offered_append)
    next
      case (Cons frame rest)
      then have "s = s0\<lparr> sq_queue := rest \<rparr>" "received = received0 @ [frame]" using snoc.prems s0 Take by simp_all
      then show ?thesis using IH Cons Take by (simp add: offered_append gap_inv_def)
    qed
  qed
qed

section \<open>Properties of a queue\<close>

text \<open>A subscriber gets what was published, in order and within its capacity: under every policy the frames
  it has received and those that wait form a subsequence of the frames offered to it, and no more
  than the capacity wait.\<close>

lemma subscriber_sees_subsequence:
  assumes "queue_life options events = (s, received)" and "0 < so_queue_capacity options"
  shows "subseq (received @ sq_queue s) (offered (so_media_filter options) events) \<and> length (sq_queue s) \<le> so_queue_capacity options"
  using queue_life_inv [OF _ assms(2)] assms(1) unfolding queue_life_def by metis

text \<open>C25. With the policy that drops until the next keyframe, a decoder can follow the stream: every frame that
  is delivered either directly follows the frame delivered before it or is a keyframe.\<close>

theorem gaps_end_at_keyframes:
  assumes "queue_life options events = (s, received)" and "so_backpressure options = DropUntilNextKeyframe"
  shows "\<exists>positions. resumes_at_keyframes (offered (so_media_filter options) events) positions (received @ sq_queue s)"
  using queue_life_gaps [OF assms(1) [unfolded queue_life_def] assms(2)] unfolding gap_inv_def by blast

text \<open>A queue of one frame that is offered a keyframe and two more frames, the last of them a keyframe.\<close>

definition sample_frame :: "string \<Rightarrow> nat MediaFrame" where
  "sample_frame keyframe = \<lparr> mf_tags = [(''keyframe'', keyframe)], mf_payload = 0 \<rparr>"

definition sample_options :: SubscriberOptions where
  "sample_options = subscriber_options_default\<lparr> so_queue_capacity := 1, so_backpressure := DropUntilNextKeyframe \<rparr>"

definition sample_life :: "nat SubscriberQueue \<times> nat MediaFrame list" where
  "sample_life = queue_life sample_options [Offer (sample_frame ''true''), Take, Offer (sample_frame ''false''),
    Offer (sample_frame ''false''), Take, Offer (sample_frame ''true'')]"

theorem gaps_end_at_keyframes_witness:
  "\<exists>positions. resumes_at_keyframes [sample_frame ''true'', sample_frame ''false'', sample_frame ''false'', sample_frame ''true''] positions
    [sample_frame ''true'', sample_frame ''false'', sample_frame ''true'']"
proof -
  have "passes_filter (sample_frame k) wanted" for k wanted by (simp add: passes_filter_def sample_frame_def)
  moreover have "frame_is_keyframe (sample_frame ''true'')" "\<not> frame_is_keyframe (sample_frame ''false'')" by (simp_all add: frame_is_keyframe_def sample_frame_def)
  ultimately have life: "queue_life sample_options [Offer (sample_frame ''true''), Take, Offer (sample_frame ''false''),
      Offer (sample_frame ''false''), Take, Offer (sample_frame ''true'')] = (fst sample_life, snd sample_life)"
    "snd sample_life @ sq_queue (fst sample_life) = [sample_frame ''true'', sample_frame ''false'', sample_frame ''true'']"
    "offered (so_media_filter sample_options) [Offer (sample_frame ''true''), Take, Offer (sample_frame ''false''),
      Offer (sample_frame ''false''), Take, Offer (sample_frame ''true'')] =
      [sample_frame ''true'', sample_frame ''false'', sample_frame ''false'', sample_frame ''true'']"
    by (simp_all add: sample_life_def queue_life_def subscriber_queue_def sample_options_def subscriber_options_default_def
        offer_def offer_full_def media_filter_default_def)
  from gaps_end_at_keyframes [OF life(1)] show ?thesis unfolding life(2,3) by (simp add: sample_options_def)
qed

end
