(* ===== verification/HubRegistry.thy ===== *)
theory HubRegistry
  imports StreamHub
begin

text \<open>
  The registry of the stream hub over its life: what holds of the registered streams, the handles and
  the queues after any sequence of operations, what concurrent openings can do, and how requests for
  keyframes fill the registry.  A subscriber handle has one owner here: clones of it, which share its
  entry in the stream, are not made.
\<close>

section \<open>Sequences of operations\<close>

record 'f hub_world =
  hw_hub :: "'f hub"
  hw_publishers :: "HubPublisher list"
  hw_subscribers :: "HubSubscriber list"

datatype 'f hub_cmd =
  Publish string PublisherOptions
| Subscribe string SubscriberOptions
| UpdateTracks nat "TrackInfo list"
| PushFrame nat "'f MediaFrame"
| ClosePublisher nat
| TakeRequests nat
| Receive nat bool
| CloseSubscriber nat
| RequestKeyframe string

text \<open>Publishers and subscribers are named by their position; a command without its handle does nothing.\<close>

fun exec_hub :: "(CodecId \<Rightarrow> string) \<Rightarrow> 'f hub_cmd \<Rightarrow> 'f hub_world \<Rightarrow> 'f hub_world" where
  "exec_hub dbg (Publish url options) w =
    (case publish url options (hw_hub w) of
       (Inl _, h) \<Rightarrow> w\<lparr> hw_hub := h \<rparr>
     | (Inr p, h) \<Rightarrow> w\<lparr> hw_hub := h, hw_publishers := hw_publishers w @ [p] \<rparr>)"
| "exec_hub dbg (Subscribe url options) w =
    (case subscribe url options (hw_hub w) of
       (Inl _, h) \<Rightarrow> w\<lparr> hw_hub := h \<rparr>
     | (Inr s, h) \<Rightarrow> w\<lparr> hw_hub := h, hw_subscribers := hw_subscribers w @ [s] \<rparr>)"
| "exec_hub dbg (UpdateTracks i ts) w =
    (if i < length (hw_publishers w) then w\<lparr> hw_hub := snd (update_tracks dbg ts (hw_publishers w ! i) (hw_hub w)) \<rparr> else w)"
| "exec_hub dbg (PushFrame i frame) w =
    (if i < length (hw_publishers w) then w\<lparr> hw_hub := snd (push_frame frame (hw_publishers w ! i) (hw_hub w)) \<rparr> else w)"
| "exec_hub dbg (ClosePublisher i) w =
    (if i < length (hw_publishers w)
     then let (p, h) = publisher_close (hw_publishers w ! i) (hw_hub w)
          in w\<lparr> hw_hub := h, hw_publishers := (hw_publishers w)[i := p] \<rparr>
     else w)"
| "exec_hub dbg (TakeRequests i) w =
    (if i < length (hw_publishers w) then w\<lparr> hw_hub := snd (take_keyframe_requests (hw_publishers w ! i) (hw_hub w)) \<rparr> else w)"
| "exec_hub dbg (Receive i deadline_ok) w =
    (if i < length (hw_subscribers w)
     then let (_, s, h) = hub_recv_timeout deadline_ok (hw_subscribers w ! i) (hw_hub w)
          in w\<lparr> hw_hub := h, hw_subscribers := (hw_subscribers w)[i := s] \<rparr>
     else w)"
| "exec_hub dbg (CloseSubscriber i) w =
    (if i < length (hw_subscribers w)
     then let (s, h) = subscriber_close (hw_subscribers w ! i) (hw_hub w)
          in w\<lparr> hw_hub := h, hw_subscribers := (hw_subscribers w)[i := s] \<rparr>
     else w)"
| "exec_hub dbg (RequestKeyframe url) w = w\<lparr> hw_hub := snd (request_keyframe url (hw_hub w)) \<rparr>"

definition hub_start :: "usize \<Rightarrow> usize \<Rightarrow> 'f hub_world" where
  "hub_start max_streams max_subscribers =
    \<lparr> hw_hub = with_limits max_streams max_subscribers, hw_publishers = [], hw_subscribers = [] \<rparr>"

section \<open>The invariant\<close>

definition registry_ok :: "'f hub \<Rightarrow> bool" where
  "registry_ok h \<longleftrightarrow> bt_wf (hb_streams h) \<and> length (hb_streams h) \<le> hb_max_streams h \<and>
    (\<forall>url c. map_of (hb_streams h) url = Some c \<longrightarrow> c < hb_next_core h) \<and>
    (\<forall>url url' c. map_of (hb_streams h) url = Some c \<longrightarrow> map_of (hb_streams h) url' = Some c \<longrightarrow> url = url')"

definition core_ok :: "'f hub \<Rightarrow> 'f StreamState \<Rightarrow> bool" where
  "core_ok h state \<longleftrightarrow> (st_publisher_closed state \<longrightarrow> st_publishers state = 0) \<and> bt_wf (st_subscribers state) \<and> length (st_subscribers state) \<le> hb_max_subscribers h \<and>
    (\<forall>id s. map_of (st_subscribers state) id = Some s \<longrightarrow> 0 < sq_capacity s \<and> length (sq_queue s) \<le> sq_capacity s)"

definition open_publishers :: "HubPublisher list \<Rightarrow> nat \<Rightarrow> nat" where
  "open_publishers ps c = length (filter (\<lambda>p. hp_core p = c \<and> \<not> hp_closed p) ps)"

definition publishers_ok :: "'f hub \<Rightarrow> HubPublisher list \<Rightarrow> bool" where
  "publishers_ok h ps \<longleftrightarrow> (\<forall>c. st_publishers (hb_cores h c) = open_publishers ps c) \<and>
    (\<forall>p \<in> set ps. hp_core p < hb_next_core h \<and> (\<not> hp_closed p \<longrightarrow> map_of (hb_streams h) (hp_url p) = Some (hp_core p)))"

definition subscribers_ok :: "'f hub \<Rightarrow> HubSubscriber list \<Rightarrow> bool" where
  "subscribers_ok h ss \<longleftrightarrow> distinct (map hs_id ss) \<and>
    (\<forall>s \<in> set ss. hs_core s < hb_next_core h \<and> hs_id s < hb_next_subscriber h \<and>
      (\<not> hs_closed s \<longrightarrow> map_of (hb_streams h) (hs_url s) = Some (hs_core s) \<and>
        map_of (st_subscribers (hb_cores h (hs_core s))) (hs_id s) \<noteq> None))"

text \<open>A registered stream without publishers and subscribers has been created by a request for a keyframe
  and never had a handle; \<open>except\<close> is a stream that is being opened.\<close>

definition idle_ok :: "nat set \<Rightarrow> 'f hub \<Rightarrow> HubPublisher list \<Rightarrow> HubSubscriber list \<Rightarrow> bool" where
  "idle_ok except h ps ss \<longleftrightarrow> (\<forall>url c. map_of (hb_streams h) url = Some c \<longrightarrow> c \<notin> except \<longrightarrow> unused (hb_cores h c) \<longrightarrow>
    0 < st_keyframe_requests (hb_cores h c) \<and> c \<notin> hp_core ` set ps \<and> c \<notin> hs_core ` set ss)"

definition hub_inv :: "nat set \<Rightarrow> 'f hub_world \<Rightarrow> bool" where
  "hub_inv except w \<longleftrightarrow> registry_ok (hw_hub w) \<and> (\<forall>c. core_ok (hw_hub w) (hb_cores (hw_hub w) c)) \<and>
    publishers_ok (hw_hub w) (hw_publishers w) \<and> subscribers_ok (hw_hub w) (hw_subscribers w) \<and>
    idle_ok except (hw_hub w) (hw_publishers w) (hw_subscribers w)"

lemma hub_world_swap [simp]:
  "w\<lparr> hw_publishers := ps, hw_hub := h \<rparr> = w\<lparr> hw_hub := h, hw_publishers := ps \<rparr>"
  "w\<lparr> hw_subscribers := ss, hw_hub := h \<rparr> = w\<lparr> hw_hub := h, hw_subscribers := ss \<rparr>"
  by simp_all

lemmas hub_inv_defs = hub_inv_def registry_ok_def core_ok_def publishers_ok_def subscribers_ok_def idle_ok_def

lemma hub_start_inv: "hub_inv {} (hub_start max_streams max_subscribers)"
  by (simp add: hub_inv_defs hub_start_def with_limits_def stream_state_default_def open_publishers_def bt_wf_def)

lemma length_bt_remove: "length (bt_remove k m) \<le> length m"
  by (simp add: bt_remove_def)

lemma length_bt_insert_le: "length (bt_insert k v m) \<le> Suc (length m)"
  by (induction k v m rule: bt_insert.induct) auto

lemma length_bt_insert_same: "bt_wf m \<Longrightarrow> map_of m k \<noteq> None \<Longrightarrow> length (bt_insert k v m) = length m"
  by (induction k v m rule: bt_insert.induct) (auto simp: bt_wf_def split: if_splits dest!: map_of_SomeD)

lemma length_bt_insert: "map_of m k = None \<Longrightarrow> length (bt_insert k v m) = Suc (length m)"
  by (induction k v m rule: bt_insert.induct) (auto split: if_splits)

text \<open>Looking a stream up or creating it.\<close>

lemma fresh_publishers: "publishers_ok h ps \<Longrightarrow> hb_next_core h \<le> c \<Longrightarrow> open_publishers ps c = 0"
  by (fastforce simp: publishers_ok_def open_publishers_def filter_empty_conv)

lemma create_inv:
  assumes inv: "hub_inv {} w" and none: "map_of (hb_streams (hw_hub w)) url = None"
    and room: "length (hb_streams (hw_hub w)) < hb_max_streams (hw_hub w)"
  defines "c \<equiv> hb_next_core (hw_hub w)"
  defines "h \<equiv> (set_core c stream_state_default (hw_hub w))\<lparr> hb_streams := bt_insert url c (hb_streams (hw_hub w)), hb_next_core := Suc c \<rparr>"
  shows "hub_inv {c} (w\<lparr> hw_hub := h \<rparr>)" and "map_of (hb_streams h) url = Some c"
proof -
  let ?h = "hw_hub w"
  have wf: "registry_ok ?h" "publishers_ok ?h (hw_publishers w)" "subscribers_ok ?h (hw_subscribers w)"
    "\<And>d. core_ok ?h (hb_cores ?h d)" "idle_ok {} ?h (hw_publishers w) (hw_subscribers w)"
    using inv by (simp_all add: hub_inv_def)
  have m: "map_of (hb_streams h) = (map_of (hb_streams ?h))(url \<mapsto> c)"
    using wf(1) by (simp add: h_def registry_ok_def map_of_bt_insert)
  then show "map_of (hb_streams h) url = Some c" by simp
  have cores: "hb_cores h = (hb_cores ?h)(c := stream_state_default)" "hb_next_core h = Suc c"
    "hb_next_subscriber h = hb_next_subscriber ?h" "hb_max_subscribers h = hb_max_subscribers ?h" "hb_max_streams h = hb_max_streams ?h"
    by (simp_all add: h_def set_core_def)
  have old: "d < c" if "map_of (hb_streams ?h) u = Some d" for u d using wf(1) that by (auto simp: registry_ok_def c_def)
  have "registry_ok h"
    using wf(1) room none length_bt_insert [OF none] old unfolding registry_ok_def m cores
    by (auto simp: h_def set_core_def less_SucI dest: old split: if_splits)
  moreover have "core_ok h (hb_cores h d)" for d
    using wf(4) [of d] by (simp add: core_ok_def cores stream_state_default_def bt_wf_def)
  moreover have "publishers_ok h (hw_publishers w)"
    using wf(2) none fresh_publishers [OF wf(2), of c] unfolding publishers_ok_def m cores
    by (auto simp: stream_state_default_def less_SucI c_def)
  moreover have "subscribers_ok h (hw_subscribers w)"
    using wf(3) none unfolding subscribers_ok_def m cores by (auto simp: less_SucI c_def)
  moreover have "idle_ok {c} h (hw_publishers w) (hw_subscribers w)"
    using wf(5) unfolding idle_ok_def m cores by auto
  ultimately show "hub_inv {c} (w\<lparr> hw_hub := h \<rparr>)" by (simp add: hub_inv_def)
qed

lemma get_or_create_inv:
  assumes inv: "hub_inv {} w" and got: "get_or_create_stream url (hw_hub w) = (Inr c, h)"
  shows "hub_inv {c} (w\<lparr> hw_hub := h \<rparr>) \<and> map_of (hb_streams h) url = Some c \<and>
    hb_next_subscriber h = hb_next_subscriber (hw_hub w) \<and> hb_max_subscribers h = hb_max_subscribers (hw_hub w) \<and> c < hb_next_core h \<and>
    (unused (hb_cores h c) \<longrightarrow> c \<notin> hp_core ` set (hw_publishers w) \<and> c \<notin> hs_core ` set (hw_subscribers w))"
proof (cases "map_of (hb_streams (hw_hub w)) url")
  case (Some core)
  then have "h = hw_hub w" "c = core" using got by (simp_all add: get_or_create_stream_def)
  then show ?thesis using inv Some by (auto simp: hub_inv_def idle_ok_def registry_ok_def)
next
  case None
  then have room: "length (hb_streams (hw_hub w)) < hb_max_streams (hw_hub w)"
    and h: "h = (set_core c stream_state_default (hw_hub w))\<lparr> hb_streams := bt_insert url c (hb_streams (hw_hub w)), hb_next_core := Suc c \<rparr>"
      "c = hb_next_core (hw_hub w)"
    using got by (auto simp: get_or_create_stream_def Let_def split: if_splits)
  have "c \<notin> hp_core ` set (hw_publishers w)" "c \<notin> hs_core ` set (hw_subscribers w)"
    using inv unfolding h(2) by (auto simp: hub_inv_def publishers_ok_def subscribers_ok_def)
  then show ?thesis using create_inv [OF inv None room] unfolding h(1) by (simp add: h(2) set_core_def)
qed

lemma get_or_create_error: "get_or_create_stream url h = (Inl e, h') \<Longrightarrow> h' = h"
  by (auto simp: get_or_create_stream_def Let_def split: option.splits if_splits)

text \<open>Replacing the state of one stream while the registry stays.\<close>

lemma set_core_fields [simp]:
  "hb_streams (set_core c state h) = hb_streams h" "hb_next_core (set_core c state h) = hb_next_core h"
  "hb_next_subscriber (set_core c state h) = hb_next_subscriber h" "hb_max_streams (set_core c state h) = hb_max_streams h"
  "hb_max_subscribers (set_core c state h) = hb_max_subscribers h" "hb_cores (set_core c state h) = (hb_cores h)(c := state)"
  by (simp_all add: set_core_def)

lemma set_core_inv:
  assumes "hub_inv except w" and "core_ok (hw_hub w) state"
    and "publishers_ok (set_core c state (hw_hub w)) ps" and "subscribers_ok (set_core c state (hw_hub w)) ss"
    and "idle_ok except' (set_core c state (hw_hub w)) ps ss"
  shows "hub_inv except' (w\<lparr> hw_hub := set_core c state (hw_hub w), hw_publishers := ps, hw_subscribers := ss \<rparr>)"
  using assms by (auto simp: hub_inv_def registry_ok_def core_ok_def)

text \<open>The handles keep their place when neither publishers nor subscribers are removed.\<close>

lemma keep_publishers:
  assumes "publishers_ok h ps" and "st_publishers state = st_publishers (hb_cores h c)"
  shows "publishers_ok (set_core c state h) ps"
  using assms by (auto simp: publishers_ok_def)

lemma keep_subscribers:
  assumes "subscribers_ok h ss"
    and "\<And>id. map_of (st_subscribers (hb_cores h c)) id \<noteq> None \<Longrightarrow> map_of (st_subscribers state) id \<noteq> None"
  shows "subscribers_ok (set_core c state h) ss"
  using assms unfolding subscribers_ok_def by (metis fun_upd_apply set_core_fields)

lemma hub_inv_used: "hub_inv {c} w \<Longrightarrow> \<not> unused (hb_cores (hw_hub w) c) \<Longrightarrow> hub_inv {} w"
  unfolding hub_inv_def idle_ok_def by blast

lemma hub_inv_weaken: "hub_inv {} w \<Longrightarrow> hub_inv {c} w"
  by (auto simp: hub_inv_def idle_ok_def)

text \<open>A stream that nothing uses is dropped from the registry.\<close>

lemma try_reap_inv:
  assumes inv: "hub_inv {c} w" and reg: "map_of (hb_streams (hw_hub w)) url = Some c"
  shows "hub_inv {} (w\<lparr> hw_hub := try_reap url c (hw_hub w) \<rparr>)"
proof (cases "unused (hb_cores (hw_hub w) c)")
  case False
  then show ?thesis using hub_inv_used [OF inv] by (simp add: try_reap_def)
next
  case True
  let ?h = "hw_hub w" and ?h' = "try_reap url c (hw_hub w)"
  have parts: "registry_ok ?h" "publishers_ok ?h (hw_publishers w)" "subscribers_ok ?h (hw_subscribers w)"
    "\<And>d. core_ok ?h (hb_cores ?h d)" "idle_ok {c} ?h (hw_publishers w) (hw_subscribers w)"
    using inv by (simp_all add: hub_inv_def)
  have h': "?h' = ?h\<lparr> hb_streams := bt_remove url (hb_streams ?h) \<rparr>" using True reg by (simp add: try_reap_def)
  have m: "map_of (hb_streams ?h') = (map_of (hb_streams ?h))(url := None)" by (simp add: h' map_of_bt_remove)
  have only: "u = url" if "map_of (hb_streams ?h) u = Some c" for u using parts(1) reg that by (auto simp: registry_ok_def)
  have no_pub: "hp_core p \<noteq> c" if "p \<in> set (hw_publishers w)" "\<not> hp_closed p" for p
  proof
    assume "hp_core p = c"
    then have "filter (\<lambda>p. hp_core p = c \<and> \<not> hp_closed p) (hw_publishers w) \<noteq> []" using that by (auto simp: filter_empty_conv)
    moreover have "st_publishers (hb_cores ?h c) = length (filter (\<lambda>p. hp_core p = c \<and> \<not> hp_closed p) (hw_publishers w))"
      using parts(2) by (simp add: publishers_ok_def open_publishers_def)
    ultimately show False using True by (simp add: unused_def)
  qed
  have no_sub: "hs_core s \<noteq> c" if "s \<in> set (hw_subscribers w)" "\<not> hs_closed s" for s
    using parts(3) that True by (auto simp: subscribers_ok_def unused_def)
  have "registry_ok ?h'"
    using parts(1) order_trans [OF length_bt_remove] by (auto simp: registry_ok_def h' map_of_bt_remove split: if_splits)
  moreover have "publishers_ok ?h' (hw_publishers w)"
    using parts(2) no_pub reg unfolding publishers_ok_def m by (fastforce simp: h')
  moreover have "subscribers_ok ?h' (hw_subscribers w)"
    using parts(3) no_sub reg unfolding subscribers_ok_def m by (fastforce simp: h')
  moreover have "core_ok ?h' (hb_cores ?h' d)" for d using parts(4) by (simp add: core_ok_def h')
  moreover have "idle_ok {} ?h' (hw_publishers w) (hw_subscribers w)"
    using parts(5) only unfolding idle_ok_def m by (auto simp: h')
  ultimately show ?thesis by (simp add: hub_inv_def)
qed

section \<open>Every operation keeps the invariant\<close>

lemma open_publishers_snoc: "open_publishers (ps @ [p]) c = open_publishers ps c + (if hp_core p = c \<and> \<not> hp_closed p then 1 else 0)"
  by (simp add: open_publishers_def)

lemma open_publishers_le: "open_publishers ps c \<le> length ps"
  by (simp add: open_publishers_def)

lemma publish_inv:
  assumes inv: "hub_inv {} w" and few: "length (hw_publishers w) < usize_max"
  shows "hub_inv {} (exec_hub dbg (Publish url options) w)"
proof (cases "get_or_create_stream url (hw_hub w)")
  case (Pair r h)
  show ?thesis
  proof (cases r)
    case (Inl e)
    then show ?thesis using inv Pair get_or_create_error [of url "hw_hub w"] by (simp add: publish_def)
  next
    case (Inr c)
    note got = get_or_create_inv [OF inv Pair [unfolded Inr]]
    let ?w1 = "w\<lparr> hw_hub := h \<rparr>" and ?state = "hb_cores h c" and ?p = "\<lparr> hp_url = url, hp_core = c, hp_closed = False \<rparr>"
    let ?new = "?state\<lparr> st_publishers := saturating_add (st_publishers ?state) 1, st_publisher_closed := False \<rparr>"
    have parts: "publishers_ok h (hw_publishers w)" "subscribers_ok h (hw_subscribers w)" "core_ok h ?state"
      "idle_ok {c} h (hw_publishers w) (hw_subscribers w)" using got by (simp_all add: hub_inv_def)
    have count: "saturating_add (st_publishers ?state) 1 = Suc (open_publishers (hw_publishers w) c)"
      using parts(1) few open_publishers_le [of "hw_publishers w" c] by (simp add: publishers_ok_def saturating_add_def)
    have "hub_inv {} (?w1\<lparr> hw_hub := set_core c ?new (hw_hub ?w1), hw_publishers := hw_publishers w @ [?p], hw_subscribers := hw_subscribers w \<rparr>)"
    proof (rule set_core_inv [of "{c}"])
      show "publishers_ok (set_core c ?new (hw_hub ?w1)) (hw_publishers w @ [?p])"
        using parts(1) count got by (auto simp: publishers_ok_def open_publishers_snoc)
      show "subscribers_ok (set_core c ?new (hw_hub ?w1)) (hw_subscribers w)" using parts(2) by (intro keep_subscribers) simp_all
      show "idle_ok {} (set_core c ?new (hw_hub ?w1)) (hw_publishers w @ [?p]) (hw_subscribers w)"
        using parts(4) count by (auto simp: idle_ok_def unused_def)
    qed (use got parts in \<open>simp_all add: core_ok_def\<close>)
    then show ?thesis using Pair Inr by (simp add: publish_def register_publisher_def Let_def)
  qed
qed

lemma subscribe_inv:
  assumes inv: "hub_inv {} w" and few: "hb_next_subscriber (hw_hub w) < usize_max"
  shows "hub_inv {} (exec_hub dbg (Subscribe url options) w)"
proof (cases "so_queue_capacity options = 0 \<or> hb_max_subscribers (hw_hub w) = 0")
  case True
  then show ?thesis using inv by (auto simp: subscribe_def)
next
  case False
  obtain r h where g: "get_or_create_stream url (hw_hub w) = (r, h)" by fastforce
  show ?thesis
  proof (cases r)
    case (Inl e)
    then show ?thesis using inv g False get_or_create_error [of url "hw_hub w"] by (simp add: subscribe_def)
  next
    case (Inr c)
    note got = get_or_create_inv [OF inv g [unfolded Inr]]
    let ?id = "hb_next_subscriber h" and ?h2 = "h\<lparr> hb_next_subscriber := Suc (hb_next_subscriber h) \<rparr>" and ?state = "hb_cores h c"
    have next_id: "wrapping_add (hb_next_subscriber h) 1 = Suc (hb_next_subscriber h)" using few got by (simp add: wrapping_add_def)
    have inv2: "hub_inv {c} (w\<lparr> hw_hub := ?h2 \<rparr>)"
      using got by (auto simp: hub_inv_def registry_ok_def core_ok_def publishers_ok_def subscribers_ok_def idle_ok_def less_SucI)
    show ?thesis
    proof (cases "hb_max_subscribers h \<le> length (st_subscribers ?state)")
      case True
      then have "st_subscribers ?state \<noteq> []" using False got by auto
      then have "\<not> unused ?state" by (simp add: unused_def)
      then show ?thesis using hub_inv_used [OF inv2] True False g Inr next_id by (simp add: subscribe_def Let_def)
    next
      case room: False
      let ?new = "?state\<lparr> st_subscribers := bt_insert ?id (subscriber_queue options) (st_subscribers ?state) \<rparr>"
      let ?s = "\<lparr> hs_url = url, hs_core = c, hs_id = ?id, hs_closed = False \<rparr>" and ?w2 = "w\<lparr> hw_hub := ?h2 \<rparr>"
      have parts: "publishers_ok ?h2 (hw_publishers w)" "subscribers_ok h (hw_subscribers w)" "core_ok ?h2 ?state"
        "idle_ok {c} ?h2 (hw_publishers w) (hw_subscribers w)" using inv2 got by (simp_all add: hub_inv_def)
      have m: "map_of (st_subscribers ?new) = (map_of (st_subscribers ?state))(?id \<mapsto> subscriber_queue options)"
        using parts(3) by (simp add: core_ok_def map_of_bt_insert)
      have "hub_inv {} (?w2\<lparr> hw_hub := set_core c ?new (hw_hub ?w2), hw_publishers := hw_publishers w, hw_subscribers := hw_subscribers w @ [?s] \<rparr>)"
      proof (rule set_core_inv [of "{c}"])
        show "core_ok (hw_hub ?w2) ?new"
          unfolding core_ok_def m
        proof (intro conjI allI impI)
          show "length (st_subscribers ?new) \<le> hb_max_subscribers (hw_hub ?w2)"
            using order_trans [OF length_bt_insert_le, of "st_subscribers ?state"] room by simp
        qed (use parts(3) False in \<open>auto simp: core_ok_def subscriber_queue_def split: if_splits\<close>)
        show "publishers_ok (set_core c ?new (hw_hub ?w2)) (hw_publishers w)" using parts(1) by (intro keep_publishers) simp_all
        show "subscribers_ok (set_core c ?new (hw_hub ?w2)) (hw_subscribers w @ [?s])"
          using parts(2) got m by (auto simp: subscribers_ok_def less_SucI)
        have "bt_insert ?id (subscriber_queue options) (st_subscribers ?state) \<noteq> []" using m by (metis StreamState.select_convs(2) StreamState.surjective StreamState.update_convs(2) fun_upd_same map_of.simps(1) option.distinct(1))
        then show "idle_ok {} (set_core c ?new (hw_hub ?w2)) (hw_publishers w) (hw_subscribers w @ [?s])"
          using parts(4) by (auto simp: idle_ok_def unused_def)
      qed (use inv2 in simp)
      then show ?thesis using False room g Inr next_id by (simp add: subscribe_def Let_def)
    qed
  qed
qed

text \<open>An update of a stream that keeps its publishers and its subscribers.\<close>

lemma update_stream_inv:
  assumes inv: "hub_inv {} w" and "core_ok (hw_hub w) state" and "st_publishers state = st_publishers (hb_cores (hw_hub w) c)"
    and subs: "\<And>id. map_of (st_subscribers state) id = None \<longleftrightarrow> map_of (st_subscribers (hb_cores (hw_hub w) c)) id = None"
    and idle: "c \<in> hp_core ` set (hw_publishers w) \<union> hs_core ` set (hw_subscribers w)"
  shows "hub_inv {} (w\<lparr> hw_hub := set_core c state (hw_hub w) \<rparr>)"
proof -
  have parts: "publishers_ok (hw_hub w) (hw_publishers w)" "subscribers_ok (hw_hub w) (hw_subscribers w)"
    "idle_ok {} (hw_hub w) (hw_publishers w) (hw_subscribers w)" using inv by (simp_all add: hub_inv_def)
  have "st_subscribers state = [] \<longleftrightarrow> st_subscribers (hb_cores (hw_hub w) c) = []"
    using subs by (metis list.exhaust map_of.simps(1) map_of_eq_None_iff list.set_intros(1) image_eqI empty_iff image_empty list.set(1) prod.collapse)
  then have "idle_ok {} (set_core c state (hw_hub w)) (hw_publishers w) (hw_subscribers w)"
    using parts(3) idle assms(3) unfolding idle_ok_def by (auto simp: unused_def)
  moreover have "publishers_ok (set_core c state (hw_hub w)) (hw_publishers w)" using parts(1) assms(3) by (rule keep_publishers)
  moreover have "subscribers_ok (set_core c state (hw_hub w)) (hw_subscribers w)" using parts(2) subs by (intro keep_subscribers) auto
  ultimately show ?thesis using set_core_inv [OF inv assms(2), of c "hw_publishers w" "hw_subscribers w" "{}"] by simp
qed

lemma inv_core: "hub_inv except w \<Longrightarrow> core_ok (hw_hub w) (hb_cores (hw_hub w) c)"
  by (simp add: hub_inv_def)

lemma update_tracks_inv:
  assumes "hub_inv {} w"
  shows "hub_inv {} (exec_hub dbg (UpdateTracks i ts) w)"
proof -
  let ?p = "hw_publishers w ! i" and ?h = "hw_hub w"
  have "hub_inv {} (w\<lparr> hw_hub := set_core (hp_core ?p) ((hb_cores ?h (hp_core ?p))\<lparr> st_tracks := ts \<rparr>) ?h \<rparr>)" if "i < length (hw_publishers w)"
    using assms that inv_core [OF assms, of "hp_core ?p"] by (intro update_stream_inv) (auto simp: core_ok_def)
  then show ?thesis using assms by (auto simp: update_tracks_def Let_def split: sum.splits)
qed

lemma take_requests_inv:
  assumes "hub_inv {} w"
  shows "hub_inv {} (exec_hub dbg (TakeRequests i) w)"
proof -
  let ?p = "hw_publishers w ! i" and ?h = "hw_hub w"
  have "hub_inv {} (w\<lparr> hw_hub := set_core (hp_core ?p) ((hb_cores ?h (hp_core ?p))\<lparr> st_keyframe_requests := 0 \<rparr>) ?h \<rparr>)" if "i < length (hw_publishers w)"
    using assms that inv_core [OF assms, of "hp_core ?p"] by (intro update_stream_inv) (auto simp: core_ok_def)
  then show ?thesis using assms by (auto simp: take_keyframe_requests_def Let_def)
qed

lemma map_of_map_values: "map_of (map (\<lambda>(k, s). (k, f s)) m) k' = map_option f (map_of m k')"
  by (induction m) auto

lemma bt_wf_map_values: "bt_wf m \<Longrightarrow> bt_wf (map (\<lambda>(id, s). (id, f s)) m)"
proof -
  have "map fst (map (\<lambda>(id, s). (id, f s)) m) = map fst m" by auto
  then show "bt_wf m \<Longrightarrow> bt_wf (map (\<lambda>(id, s). (id, f s)) m)" by (simp only: bt_wf_def)
qed

lemma offer_ok:
  assumes "0 < sq_capacity s" and "length (sq_queue s) \<le> sq_capacity s"
  shows "0 < sq_capacity (fst (offer frame s))" and "length (sq_queue (fst (offer frame s))) \<le> sq_capacity (fst (offer frame s))"
  using assms offer_bounded [of s frame] offer_parameters [of frame s] by simp_all

lemma offers_fst: "(\<lambda>(id, s, _, _). (id, s)) \<circ> (\<lambda>(id, s). (id, offer frame s)) = (\<lambda>(id, s). (id, fst (offer frame s)))"
  by (auto simp: case_prod_beta)

lemma push_frame_inv:
  assumes inv: "hub_inv {} w"
  shows "hub_inv {} (exec_hub dbg (PushFrame i frame) w)"
proof -
  let ?p = "hw_publishers w ! i" and ?h = "hw_hub w"
  let ?state = "hb_cores ?h (hp_core ?p)"
  let ?subs = "map (\<lambda>(id, s). (id, fst (offer frame s))) (st_subscribers ?state)"
  have core: "core_ok ?h ?state" using inv by (rule inv_core)
  have "core_ok ?h (?state\<lparr> st_subscribers := ?subs \<rparr>)"
    using core unfolding core_ok_def by (auto simp: map_of_map_values bt_wf_map_values offer_ok)
  then have "hub_inv {} (w\<lparr> hw_hub := set_core (hp_core ?p) (?state\<lparr> st_subscribers := ?subs \<rparr>) ?h \<rparr>)" if "i < length (hw_publishers w)"
    using inv that by (intro update_stream_inv) (auto simp: map_of_map_values)
  then show ?thesis using inv by (simp add: push_frame_def Let_def offers_fst)
qed

lemma request_keyframe_inv:
  assumes inv: "hub_inv {} w"
  shows "hub_inv {} (exec_hub dbg (RequestKeyframe url) w)"
proof -
  obtain r h where g: "get_or_create_stream url (hw_hub w) = (r, h)" by fastforce
  show ?thesis
  proof (cases r)
    case (Inl e)
    then show ?thesis using inv g get_or_create_error [of url "hw_hub w"] by (simp add: request_keyframe_def)
  next
    case (Inr c)
    note got = get_or_create_inv [OF inv g [unfolded Inr]]
    let ?w1 = "w\<lparr> hw_hub := h \<rparr>" and ?state = "hb_cores h c"
    let ?new = "?state\<lparr> st_keyframe_requests := saturating_add (st_keyframe_requests ?state) 1 \<rparr>"
    have parts: "publishers_ok h (hw_publishers w)" "subscribers_ok h (hw_subscribers w)" "core_ok h ?state"
      "idle_ok {c} h (hw_publishers w) (hw_subscribers w)" using got by (simp_all add: hub_inv_def)
    have "hub_inv {} (?w1\<lparr> hw_hub := set_core c ?new (hw_hub ?w1), hw_publishers := hw_publishers w, hw_subscribers := hw_subscribers w \<rparr>)"
    proof (rule set_core_inv [of "{c}"])
      show "publishers_ok (set_core c ?new (hw_hub ?w1)) (hw_publishers w)" using parts(1) by (intro keep_publishers) simp_all
      show "subscribers_ok (set_core c ?new (hw_hub ?w1)) (hw_subscribers w)" using parts(2) by (intro keep_subscribers) simp_all
      show "idle_ok {} (set_core c ?new (hw_hub ?w1)) (hw_publishers w) (hw_subscribers w)"
        using parts(4) got by (auto simp: idle_ok_def unused_def saturating_add_def usize_max_def)
    qed (use got parts in \<open>simp_all add: core_ok_def\<close>)
    then show ?thesis using g Inr by (simp add: request_keyframe_def Let_def)
  qed
qed

lemma release_closed:
  assumes "st_publisher_closed (hb_cores h c) \<longrightarrow> st_publishers (hb_cores h c) = 0"
  shows "st_publisher_closed (hb_cores (release_publisher c h) c) \<longrightarrow> st_publishers (hb_cores (release_publisher c h) c) = 0"
proof (cases "st_publisher_closed (hb_cores h c)")
  case True
  then show ?thesis using mp [OF assms] by (simp add: release_publisher_def Let_def saturating_sub_def)
next
  case False
  then show ?thesis by (simp add: release_publisher_def Let_def saturating_sub_def)
qed

lemma close_publisher_inv:
  assumes inv: "hub_inv {} w"
  shows "hub_inv {} (exec_hub dbg (ClosePublisher i) w)"
proof (cases "i < length (hw_publishers w) \<and> \<not> hp_closed (hw_publishers w ! i)")
  case False
  then show ?thesis using inv by (auto simp: publisher_close_def)
next
  case True
  let ?p = "hw_publishers w ! i" and ?h = "hw_hub w"
  let ?c = "hp_core ?p" and ?ps = "(hw_publishers w)[i := ?p\<lparr> hp_closed := True \<rparr>]"
  let ?state = "hb_cores ?h ?c"
  have parts: "publishers_ok ?h (hw_publishers w)" "subscribers_ok ?h (hw_subscribers w)" "core_ok ?h ?state"
    "idle_ok {} ?h (hw_publishers w) (hw_subscribers w)" using inv by (simp_all add: hub_inv_def)
  have p: "?p \<in> set (hw_publishers w)" "\<not> hp_closed ?p" using True by simp_all
  then have reg: "map_of (hb_streams ?h) (hp_url ?p) = Some ?c" using parts(1) by (simp add: publishers_ok_def)
  have split: "hw_publishers w = take i (hw_publishers w) @ ?p # drop (Suc i) (hw_publishers w)" using True by (simp add: id_take_nth_drop)
  have ps: "?ps = take i (hw_publishers w) @ ?p\<lparr> hp_closed := True \<rparr> # drop (Suc i) (hw_publishers w)" using True by (simp add: upd_conv_take_nth_drop)
  have counts: "open_publishers (hw_publishers w) d = open_publishers ?ps d + (if d = ?c then 1 else 0)" for d
    unfolding ps open_publishers_def by (subst split) (use p(2) in simp)
  define new where "new = hb_cores (release_publisher ?c ?h) ?c"
  have rel: "release_publisher ?c ?h = set_core ?c new ?h" by (simp add: new_def release_publisher_def Let_def)
  have new: "st_publishers new = open_publishers ?ps ?c" "st_subscribers new = st_subscribers ?state"
    using parts(1) counts [of ?c] by (simp_all add: new_def release_publisher_def Let_def publishers_ok_def saturating_sub_def)
  have closed: "st_publisher_closed new \<longrightarrow> st_publishers new = 0"
    unfolding new_def using conjunct1 [OF parts(3) [unfolded core_ok_def]] by (rule release_closed)
  have cores: "hp_core ` set ?ps = hp_core ` set (hw_publishers w)" unfolding ps by (subst (2) split) auto
  have "hub_inv {?c} (w\<lparr> hw_hub := set_core ?c new ?h, hw_publishers := ?ps, hw_subscribers := hw_subscribers w \<rparr>)"
  proof (rule set_core_inv [OF inv])
    show "core_ok ?h new" using parts(3) new(2) closed by (simp add: core_ok_def)
    have old: "q \<in> set (hw_publishers w) \<or> q = ?p\<lparr> hp_closed := True \<rparr>" if "q \<in> set ?ps" for q
      using that set_update_subset_insert [of "hw_publishers w" i "?p\<lparr> hp_closed := True \<rparr>"] by blast
    have "hp_core q < hb_next_core ?h \<and> (\<not> hp_closed q \<longrightarrow> map_of (hb_streams ?h) (hp_url q) = Some (hp_core q))" if "q \<in> set ?ps" for q
      using old [OF that] parts(1) p(1) by (auto simp: publishers_ok_def)
    then show "publishers_ok (set_core ?c new ?h) ?ps" using parts(1) new(1) counts by (simp add: publishers_ok_def)
    show "subscribers_ok (set_core ?c new ?h) (hw_subscribers w)" using parts(2) new(2) by (intro keep_subscribers) simp_all
    show "idle_ok {?c} (set_core ?c new ?h) ?ps (hw_subscribers w)" using parts(4) unfolding idle_ok_def cores by auto
  qed
  from try_reap_inv [OF this, of "hp_url ?p"] reg True show ?thesis by (simp add: publisher_close_def rel Let_def)
qed

text \<open>Taking a subscriber away, with its handle closed.\<close>

lemma remove_subscriber_inv:
  assumes inv: "hub_inv {} w" and i: "i < length (hw_subscribers w)" "\<not> hs_closed (hw_subscribers w ! i)"
  defines "s \<equiv> hw_subscribers w ! i"
  shows "hub_inv {} (w\<lparr> hw_hub := try_reap (hs_url s) (hs_core s) (remove_subscriber s (hw_hub w)),
    hw_subscribers := (hw_subscribers w)[i := s\<lparr> hs_closed := True \<rparr>] \<rparr>)"
proof -
  let ?h = "hw_hub w" and ?c = "hs_core s" and ?ss = "(hw_subscribers w)[i := s\<lparr> hs_closed := True \<rparr>]"
  let ?state = "hb_cores ?h ?c"
  let ?new = "?state\<lparr> st_subscribers := bt_remove (hs_id s) (st_subscribers ?state) \<rparr>"
  have parts: "publishers_ok ?h (hw_publishers w)" "subscribers_ok ?h (hw_subscribers w)" "core_ok ?h ?state"
    "idle_ok {} ?h (hw_publishers w) (hw_subscribers w)" using inv by (simp_all add: hub_inv_def)
  have s: "s \<in> set (hw_subscribers w)" "\<not> hs_closed s" using i by (simp_all add: s_def)
  then have reg: "map_of (hb_streams ?h) (hs_url s) = Some ?c" using parts(2) by (simp add: subscribers_ok_def)
  have cores: "map hs_core ?ss = map hs_core (hw_subscribers w)" using i(1) by (simp add: s_def map_update list_update_same_conv)
  have ids: "map hs_id ?ss = map hs_id (hw_subscribers w)" using i(1) by (simp add: s_def map_update list_update_same_conv)
  have same: "hs_core ` set ?ss = hs_core ` set (hw_subscribers w)" using arg_cong [OF cores, of set] by (simp only: set_map)
  have "hub_inv {?c} (w\<lparr> hw_hub := set_core ?c ?new ?h, hw_publishers := hw_publishers w, hw_subscribers := ?ss \<rparr>)"
  proof (rule set_core_inv [OF inv])
    show "core_ok ?h ?new"
      using parts(3) order_trans [OF length_bt_remove] by (auto simp: core_ok_def map_of_bt_remove split: if_splits)
    show "publishers_ok (set_core ?c ?new ?h) (hw_publishers w)" using parts(1) by (intro keep_publishers) simp_all
    have old: "t \<in> set (hw_subscribers w) \<or> t = s\<lparr> hs_closed := True \<rparr>" if "t \<in> set ?ss" for t
      using that set_update_subset_insert [of "hw_subscribers w" i "s\<lparr> hs_closed := True \<rparr>"] by blast
    have other: "hs_id t \<noteq> hs_id s" if t: "t \<in> set ?ss" "\<not> hs_closed t" for t
    proof -
      obtain j where j: "j < length (hw_subscribers w)" "t = ?ss ! j" using t(1) by (auto simp: in_set_conv_nth)
      then have "j \<noteq> i" using t(2) i(1) by auto
      then show ?thesis using j parts(2) i(1) by (auto simp: subscribers_ok_def s_def distinct_conv_nth)
    qed
    have "hs_core t < hb_next_core ?h \<and> hs_id t < hb_next_subscriber ?h \<and>
      (\<not> hs_closed t \<longrightarrow> map_of (hb_streams ?h) (hs_url t) = Some (hs_core t) \<and> map_of (st_subscribers (hb_cores (set_core ?c ?new ?h) (hs_core t))) (hs_id t) \<noteq> None)"
      if "t \<in> set ?ss" for t
      using old [OF that] other [OF that] parts(2) s(1) by (auto simp: subscribers_ok_def map_of_bt_remove)
    then show "subscribers_ok (set_core ?c ?new ?h) ?ss" using parts(2) unfolding subscribers_ok_def ids by simp
    show "idle_ok {?c} (set_core ?c ?new ?h) (hw_publishers w) ?ss" using parts(4) unfolding idle_ok_def same by auto
  qed
  from try_reap_inv [OF this, of "hs_url s"] reg show ?thesis by (simp add: remove_subscriber_def Let_def)
qed

lemma close_subscriber_inv:
  assumes "hub_inv {} w"
  shows "hub_inv {} (exec_hub dbg (CloseSubscriber i) w)"
  using remove_subscriber_inv [OF assms, of i] assms by (auto simp: subscriber_close_def Let_def)

lemma receive_inv:
  assumes inv: "hub_inv {} w"
  shows "hub_inv {} (exec_hub dbg (Receive i deadline_ok) w)"
proof (cases "i < length (hw_subscribers w) \<and> \<not> hs_closed (hw_subscribers w ! i) \<and> deadline_ok")
  case False
  then show ?thesis using inv by (auto simp: hub_recv_timeout_def)
next
  case True
  let ?sub = "hw_subscribers w ! i" and ?h = "hw_hub w"
  let ?state = "hb_cores ?h (hs_core ?sub)"
  have "?sub \<in> set (hw_subscribers w)" using True by simp
  then have "map_of (st_subscribers ?state) (hs_id ?sub) \<noteq> None" using inv True by (simp add: hub_inv_def subscribers_ok_def)
  then obtain s where s: "map_of (st_subscribers ?state) (hs_id ?sub) = Some s" by blast
  show ?thesis
  proof (cases "sq_overflowed s")
    case True
    then show ?thesis using s \<open>i < _ \<and> _\<close> remove_subscriber_inv [OF inv, of i] by (simp add: hub_recv_timeout_def Let_def)
  next
    case False
    show ?thesis
    proof (cases "sq_queue s")
      case Nil
      then show ?thesis using s False True inv by (simp add: hub_recv_timeout_def Let_def)
    next
      case (Cons frame rest)
      let ?new = "?state\<lparr> st_subscribers := bt_insert (hs_id ?sub) (s\<lparr> sq_queue := rest \<rparr>) (st_subscribers ?state) \<rparr>"
      have core: "core_ok ?h ?state" using inv by (rule inv_core)
      then have m: "map_of (st_subscribers ?new) = (map_of (st_subscribers ?state))(hs_id ?sub \<mapsto> s\<lparr> sq_queue := rest \<rparr>)"
        by (simp add: core_ok_def map_of_bt_insert)
      have "length (st_subscribers ?new) = length (st_subscribers ?state)" using s core by (simp add: length_bt_insert_same core_ok_def)
      moreover have "bt_wf (st_subscribers ?new)" using core by (simp add: core_ok_def)
      moreover have "0 < sq_capacity s \<and> Suc (length rest) \<le> sq_capacity s" using core s Cons by (metis core_ok_def length_Cons)
      ultimately have "core_ok ?h ?new" using core unfolding core_ok_def m by (simp add: fun_upd_apply)
      then have "hub_inv {} (w\<lparr> hw_hub := set_core (hs_core ?sub) ?new ?h \<rparr>)"
        using True s m by (intro update_stream_inv [OF inv]) auto
      then show ?thesis using s False True Cons by (simp add: hub_recv_timeout_def Let_def)
    qed
  qed
qed

text \<open>The numbers of handles ever opened.\<close>

lemma wrapping_add_le: "wrapping_add n (Suc 0) \<le> Suc n"
  by (simp add: wrapping_add_def)

lemma exec_hub_counts:
  "length (hw_publishers (exec_hub dbg cmd w)) \<le> Suc (length (hw_publishers w)) \<and>
    hb_next_subscriber (hw_hub (exec_hub dbg cmd w)) \<le> Suc (hb_next_subscriber (hw_hub w)) \<and>
    hb_max_streams (hw_hub (exec_hub dbg cmd w)) = hb_max_streams (hw_hub w) \<and>
    hb_max_subscribers (hw_hub (exec_hub dbg cmd w)) = hb_max_subscribers (hw_hub w)"
proof (cases cmd)
  case (Publish url options)
  then show ?thesis
    by (auto simp: publish_def register_publisher_def Let_def get_or_create_stream_def set_core_def split: sum.splits prod.splits option.splits if_splits)
next
  case (Subscribe url options)
  then show ?thesis
    by (auto simp: subscribe_def Let_def get_or_create_stream_def set_core_def try_reap_def wrapping_add_le split: sum.splits prod.splits option.splits if_splits)
next
  case (Receive i deadline_ok)
  then show ?thesis
    by (auto simp: hub_recv_timeout_def Let_def set_core_def try_reap_def remove_subscriber_def split: option.splits list.splits)
qed (auto simp: update_tracks_def push_frame_def publisher_close_def release_publisher_def take_keyframe_requests_def subscriber_close_def
  request_keyframe_def get_or_create_stream_def remove_subscriber_def try_reap_def set_core_def Let_def split: sum.splits option.splits)

section \<open>The registry after any sequence of operations\<close>

definition hub_run :: "(CodecId \<Rightarrow> string) \<Rightarrow> 'f hub_cmd list \<Rightarrow> usize \<Rightarrow> usize \<Rightarrow> 'f hub_world" where
  "hub_run dbg cmds max_streams max_subscribers = fold (exec_hub dbg) cmds (hub_start max_streams max_subscribers)"

lemma exec_hub_inv:
  assumes "hub_inv {} w" "length (hw_publishers w) < usize_max" "hb_next_subscriber (hw_hub w) < usize_max"
  shows "hub_inv {} (exec_hub dbg cmd w)"
  by (cases cmd) (simp_all only: publish_inv [OF assms(1,2)] subscribe_inv [OF assms(1,3)] update_tracks_inv [OF assms(1)] push_frame_inv [OF assms(1)]
    close_publisher_inv [OF assms(1)] take_requests_inv [OF assms(1)] receive_inv [OF assms(1)] close_subscriber_inv [OF assms(1)]
    request_keyframe_inv [OF assms(1)])

lemma hub_run_inv:
  assumes "length cmds \<le> usize_max"
  shows "hub_inv {} (hub_run dbg cmds max_streams max_subscribers) \<and>
    length (hw_publishers (hub_run dbg cmds max_streams max_subscribers)) \<le> length cmds \<and>
    hb_next_subscriber (hw_hub (hub_run dbg cmds max_streams max_subscribers)) \<le> length cmds \<and>
    hb_max_streams (hw_hub (hub_run dbg cmds max_streams max_subscribers)) = max_streams \<and>
    hb_max_subscribers (hw_hub (hub_run dbg cmds max_streams max_subscribers)) = max_subscribers"
  using assms
proof (induction cmds rule: rev_induct)
  case Nil
  then show ?case using hub_start_inv by (simp add: hub_run_def hub_start_def with_limits_def)
next
  case (snoc cmd cmds)
  let ?w = "hub_run dbg cmds max_streams max_subscribers"
  have "hub_run dbg (cmds @ [cmd]) max_streams max_subscribers = exec_hub dbg cmd ?w" by (simp add: hub_run_def)
  moreover have "hub_inv {} (exec_hub dbg cmd ?w)" using snoc by (intro exec_hub_inv) simp_all
  ultimately show ?case using snoc exec_hub_counts [of dbg cmd ?w] by simp
qed

text \<open>C4. A stream hub keeps its bounds and its books under every sequence of operations.  After any number
  of openings, frames, receives, closings and requests (as long as the counters of handles do not wrap): the
  registry holds at most its limit of streams, and a stream at most its limit of subscribers, each with a
  queue within its capacity; the publisher count of a stream is the number of its open publishers; every open
  publisher and subscriber is connected to the stream that its URL names, and its entry is there; and a
  registered stream that nobody uses is one for which keyframes have been requested and which never had a
  publisher or subscriber.\<close>

theorem hub_registry:
  assumes "length cmds \<le> usize_max" and "hub_run dbg cmds max_streams max_subscribers = w"
  shows "stream_count (hw_hub w) \<le> max_streams \<and> (\<forall>url. subscriber_count url (hw_hub w) \<le> max_subscribers) \<and>
    (\<forall>core sid q. map_of (st_subscribers (hb_cores (hw_hub w) core)) sid = Some q \<longrightarrow> length (sq_queue q) \<le> sq_capacity q) \<and>
    (\<forall>core. st_publishers (hb_cores (hw_hub w) core) = open_publishers (hw_publishers w) core) \<and>
    (\<forall>p \<in> set (hw_publishers w). \<not> hp_closed p \<longrightarrow> try_get_stream (hp_url p) (hw_hub w) = Some (hp_core p)) \<and>
    (\<forall>s \<in> set (hw_subscribers w). \<not> hs_closed s \<longrightarrow> try_get_stream (hs_url s) (hw_hub w) = Some (hs_core s) \<and>
      map_of (st_subscribers (hb_cores (hw_hub w) (hs_core s))) (hs_id s) \<noteq> None) \<and>
    (\<forall>url core. try_get_stream url (hw_hub w) = Some core \<longrightarrow> unused (hb_cores (hw_hub w) core) \<longrightarrow>
      0 < st_keyframe_requests (hb_cores (hw_hub w) core) \<and> core \<notin> hp_core ` set (hw_publishers w) \<and> core \<notin> hs_core ` set (hw_subscribers w))"
proof (intro conjI)
  have inv: "hub_inv {} w" "hb_max_streams (hw_hub w) = max_streams" "hb_max_subscribers (hw_hub w) = max_subscribers"
    using hub_run_inv [OF assms(1), of dbg max_streams max_subscribers] assms(2) by simp_all
  note parts = inv(1) [unfolded hub_inv_def]
  show "stream_count (hw_hub w) \<le> max_streams" using parts inv(2) by (simp add: registry_ok_def stream_count_def)
  show "\<forall>url. subscriber_count url (hw_hub w) \<le> max_subscribers"
    using parts inv(3) by (auto simp: core_ok_def subscriber_count_def split: option.splits)
  show "\<forall>core sid q. map_of (st_subscribers (hb_cores (hw_hub w) core)) sid = Some q \<longrightarrow> length (sq_queue q) \<le> sq_capacity q"
    using parts unfolding core_ok_def by blast
  show "\<forall>core. st_publishers (hb_cores (hw_hub w) core) = open_publishers (hw_publishers w) core" using parts by (simp add: publishers_ok_def)
  show "\<forall>p \<in> set (hw_publishers w). \<not> hp_closed p \<longrightarrow> try_get_stream (hp_url p) (hw_hub w) = Some (hp_core p)"
    using parts by (simp add: publishers_ok_def try_get_stream_def)
  show "\<forall>s \<in> set (hw_subscribers w). \<not> hs_closed s \<longrightarrow> try_get_stream (hs_url s) (hw_hub w) = Some (hs_core s) \<and>
      map_of (st_subscribers (hb_cores (hw_hub w) (hs_core s))) (hs_id s) \<noteq> None"
    using parts unfolding subscribers_ok_def try_get_stream_def by blast
  show "\<forall>url core. try_get_stream url (hw_hub w) = Some core \<longrightarrow> unused (hb_cores (hw_hub w) core) \<longrightarrow>
      0 < st_keyframe_requests (hb_cores (hw_hub w) core) \<and> core \<notin> hp_core ` set (hw_publishers w) \<and> core \<notin> hs_core ` set (hw_subscribers w)"
    using parts unfolding idle_ok_def try_get_stream_def by blast
qed

definition sample_cmds :: "unit hub_cmd list" where
  "sample_cmds = [Publish ''mock://a'' publisher_options_default, Subscribe ''mock://a'' subscriber_options_default,
    PushFrame 0 \<lparr> mf_tags = [], mf_payload = () \<rparr>, RequestKeyframe ''mock://b'', ClosePublisher 0]"

lemmas sample_eval = hub_run_def hub_start_def sample_cmds_def with_limits_def publish_def register_publisher_def subscribe_def push_frame_def
  publisher_close_def release_publisher_def request_keyframe_def get_or_create_stream_def set_core_def try_get_stream_def try_reap_def unused_def
  stream_state_default_def subscriber_queue_def subscriber_options_default_def offer_def passes_filter_def media_filter_default_def
  saturating_add_def saturating_sub_def wrapping_add_def usize_max_def Let_def

theorem hub_registry_witness:
  "stream_count (hw_hub (hub_run (\<lambda>_. []) sample_cmds 4 2)) \<le> 4 \<and>
   st_publishers (hb_cores (hw_hub (hub_run (\<lambda>_. []) sample_cmds 4 2)) 0) = open_publishers (hw_publishers (hub_run (\<lambda>_. []) sample_cmds 4 2)) 0 \<and>
   0 < st_keyframe_requests (hb_cores (hw_hub (hub_run (\<lambda>_. []) sample_cmds 4 2)) 1)"
proof -
  have "length sample_cmds \<le> usize_max" by (simp add: sample_cmds_def usize_max_def)
  note facts = hub_registry [OF this refl [of "hub_run (\<lambda>_. []) sample_cmds 4 2"]]
  have "try_get_stream ''mock://b'' (hw_hub (hub_run (\<lambda>_. []) sample_cmds 4 2)) = Some 1" by (simp add: sample_eval)
  moreover have "unused (hb_cores (hw_hub (hub_run (\<lambda>_. []) sample_cmds 4 2)) 1)" by (simp add: sample_eval)
  ultimately show ?thesis using facts by blast
qed

section \<open>Requests for keyframes hold slots\<close>

lemma request_keyframe_streams:
  assumes "bt_wf (hb_streams h)" "map_of (hb_streams h) url = None" "length (hb_streams h) < hb_max_streams h"
  shows "bt_wf (hb_streams (snd (request_keyframe url h)))"
    and "dom (map_of (hb_streams (snd (request_keyframe url h)))) = insert url (dom (map_of (hb_streams h)))"
    and "length (hb_streams (snd (request_keyframe url h))) = Suc (length (hb_streams h))"
  using assms by (auto simp: request_keyframe_def get_or_create_stream_def Let_def set_core_def map_of_bt_insert length_bt_insert)

lemma requests_streams:
  fixes dbg :: "CodecId \<Rightarrow> string" and max_subscribers :: usize
  assumes "distinct urls" "length urls \<le> max_streams"
  defines "w \<equiv> hub_run dbg (map RequestKeyframe urls) max_streams max_subscribers :: 'f hub_world"
  shows "bt_wf (hb_streams (hw_hub w)) \<and> dom (map_of (hb_streams (hw_hub w))) = set urls \<and> length (hb_streams (hw_hub w)) = length urls \<and>
    hb_max_streams (hw_hub w) = max_streams \<and> hw_publishers w = [] \<and> hw_subscribers w = []"
  using assms(1,2) unfolding w_def
proof (induction urls rule: rev_induct)
  case Nil
  then show ?case by (simp add: hub_run_def hub_start_def with_limits_def bt_wf_def)
next
  case (snoc url urls)
  let ?w = "hub_run dbg (map RequestKeyframe urls) max_streams max_subscribers :: 'f hub_world"
  have IH: "bt_wf (hb_streams (hw_hub ?w))" "dom (map_of (hb_streams (hw_hub ?w))) = set urls" "length (hb_streams (hw_hub ?w)) = length urls"
    "hb_max_streams (hw_hub ?w) = max_streams" "hw_publishers ?w = []" "hw_subscribers ?w = []"
    using snoc by simp_all
  have step: "hub_run dbg (map RequestKeyframe (urls @ [url])) max_streams max_subscribers = exec_hub dbg (RequestKeyframe url) ?w" by (simp add: hub_run_def)
  have "map_of (hb_streams (hw_hub ?w)) url = None" using IH(2) snoc.prems(1) by (auto simp: domIff)
  moreover have "length (hb_streams (hw_hub ?w)) < hb_max_streams (hw_hub ?w)" using IH snoc.prems(2) by simp
  ultimately show ?case
    unfolding step using IH request_keyframe_streams [OF IH(1)] exec_hub_counts [of dbg "RequestKeyframe url" ?w] by simp
qed

text \<open>Requests for keyframes use up the registry.  A request for a URL that nobody has opened creates
  the stream, and only the closing of a handle drops a stream from the registry.  So after requests for
  as many different URLs as the registry has slots, publishing to any further URL fails
  although no publisher and no subscriber has ever been opened, and the slots stay taken.\<close>

lemma keyframe_requests_fill_registry:
  fixes w :: "'f hub_world"
  assumes "distinct urls" and "length urls = max_streams" and "url \<notin> set urls"
    and "hub_run dbg (map RequestKeyframe urls) max_streams max_subscribers = w"
  shows "hw_publishers w = []" and "hw_subscribers w = []" and "stream_count (hw_hub w) = max_streams"
    and "publish url options (hw_hub w) = (Inl (SOverflow (''stream registry limit '' @ show_nat max_streams @ '' reached'')), hw_hub w)"
proof -
  have facts: "dom (map_of (hb_streams (hw_hub w))) = set urls" "length (hb_streams (hw_hub w)) = max_streams"
    "hb_max_streams (hw_hub w) = max_streams" "hw_publishers w = []" "hw_subscribers w = []"
    using requests_streams [where 'f = 'f, OF assms(1), of max_streams dbg max_subscribers] assms(2,4) by simp_all
  then show "hw_publishers w = []" "hw_subscribers w = []" "stream_count (hw_hub w) = max_streams" by (simp_all add: stream_count_def)
  have "map_of (hb_streams (hw_hub w)) url = None" using facts(1) assms(3) by (auto simp: domIff)
  then show "publish url options (hw_hub w) = (Inl (SOverflow (''stream registry limit '' @ show_nat max_streams @ '' reached'')), hw_hub w)"
    using facts by (simp add: publish_def get_or_create_stream_def)
qed

section \<open>Openings that interleave\<close>

text \<open>Publishing looks the stream up under the lock of the registry and registers under the lock of the stream;
  between the two, other operations run.  A pending opening is a URL with the stream found for it.\<close>

type_synonym 'f hub_config = "'f hub_world \<times> (string \<times> nat) list"

inductive hub_step :: "(CodecId \<Rightarrow> string) \<Rightarrow> 'f hub_config \<Rightarrow> 'f hub_config \<Rightarrow> bool" for dbg where
  looked_up: "get_or_create_stream url (hw_hub w) = (Inr core, h) \<Longrightarrow>
    hub_step dbg (w, pending) (w\<lparr> hw_hub := h \<rparr>, pending @ [(url, core)])"
| registered: "register_publisher url core (hw_hub w) = (p, h) \<Longrightarrow>
    hub_step dbg (w, before @ (url, core) # after) (w\<lparr> hw_hub := h, hw_publishers := hw_publishers w @ [p] \<rparr>, before @ after)"
| other: "hub_step dbg (w, pending) (exec_hub dbg cmd w, pending)"

lemma publish_steps:
  assumes "publish url options (hw_hub w) = (Inr p, h)"
  shows "(hub_step dbg)\<^sup>*\<^sup>* (w, []) (w\<lparr> hw_hub := h, hw_publishers := hw_publishers w @ [p] \<rparr>, [])"
proof -
  obtain core h1 where g: "get_or_create_stream url (hw_hub w) = (Inr core, h1)" and r: "register_publisher url core h1 = (p, h)"
    using assms by (auto simp: publish_def split: sum.splits prod.splits)
  have "hub_step dbg (w, []) (w\<lparr> hw_hub := h1 \<rparr>, [] @ [(url, core)])" using g by (rule looked_up)
  moreover have "hub_step dbg (w\<lparr> hw_hub := h1 \<rparr>, [] @ (url, core) # [])
      ((w\<lparr> hw_hub := h1 \<rparr>)\<lparr> hw_hub := h, hw_publishers := hw_publishers (w\<lparr> hw_hub := h1 \<rparr>) @ [p] \<rparr>, [] @ [])"
    using r by (intro registered) simp
  ultimately show ?thesis by (simp add: rtranclp.rtrancl_into_rtrancl)
qed

definition orphaned :: "'f hub_world \<Rightarrow> HubPublisher \<Rightarrow> bool" where
  "orphaned w p \<longleftrightarrow> p \<in> set (hw_publishers w) \<and> \<not> hp_closed p \<and> try_get_stream (hp_url p) (hw_hub w) \<noteq> Some (hp_core p)"

text \<open>The schedule: a publisher is open, a second opening finds its stream, the first publisher closes and takes the
  stream out of the registry, the second opening completes, and a subscriber creates the stream anew.\<close>

definition raced :: "string \<Rightarrow> 'f hub_world" where
  "raced url =
    (let w1 = exec_hub (\<lambda>_. []) (Publish url publisher_options_default) (hub_start 4 4);
         w2 = exec_hub (\<lambda>_. []) (ClosePublisher 0) w1;
         (p, h) = register_publisher url 0 (hw_hub w2)
     in exec_hub (\<lambda>_. []) (Subscribe url subscriber_options_default) (w2\<lparr> hw_hub := h, hw_publishers := hw_publishers w2 @ [p] \<rparr>))"

lemmas raced_eval = sample_eval raced_def orphaned_def bt_remove_def

lemma raced_reachable: "(hub_step (\<lambda>_. []))\<^sup>*\<^sup>* (hub_start 4 4, []) (raced url :: 'f hub_world, [])"
proof -
  let ?step = "hub_step (\<lambda>_. []) :: 'f hub_config \<Rightarrow> _" and ?exec = "exec_hub (\<lambda>_. []) :: 'f hub_cmd \<Rightarrow> _"
  let ?w1 = "?exec (Publish url publisher_options_default) (hub_start 4 4)"
  let ?w2 = "?exec (ClosePublisher 0) ?w1"
  obtain p h where r: "register_publisher url 0 (hw_hub ?w2) = (p, h)" by fastforce
  let ?w3 = "?w2\<lparr> hw_hub := h, hw_publishers := hw_publishers ?w2 @ [p] \<rparr>"
  have "?step (hub_start 4 4, []) (?w1, [])" by (rule other)
  moreover have "get_or_create_stream url (hw_hub ?w1) = (Inr 0, hw_hub ?w1)" by (simp add: raced_eval)
  then have "?step (?w1, []) (?w1\<lparr> hw_hub := hw_hub ?w1 \<rparr>, [] @ [(url, 0)])" by (rule looked_up)
  then have "?step (?w1, []) (?w1, [] @ (url, 0) # [])" by simp
  moreover have "?step (?w1, [] @ (url, 0) # []) (?w2, [] @ (url, 0) # [])" by (rule other)
  moreover have "?step (?w2, [] @ (url, 0) # []) (?w3, [] @ [])" using r by (rule registered)
  moreover have "?step (?w3, [] @ []) (?exec (Subscribe url subscriber_options_default) ?w3, [] @ [])" by (rule other)
  ultimately have "?step\<^sup>*\<^sup>* (hub_start 4 4, []) (?exec (Subscribe url subscriber_options_default) ?w3, [] @ [])"
    by (meson rtranclp.rtrancl_into_rtrancl rtranclp.rtrancl_refl)
  then show ?thesis using r by (simp only: raced_def Let_def case_prod_conv append_Nil)
qed

text \<open>C35. An opening publisher can lose its stream.  Publishing finds the stream of a URL and registers with it in two separate
  critical sections; when the last handle closes between the two, the stream leaves the registry.  So a state is reachable,
  with no opening pending, in which an open publisher's stream is not the one registered for its URL and an
  open subscriber of that URL waits on a stream without publishers: every frame pushed is accepted and the subscriber
  receives none.\<close>

theorem orphaned_publisher:
  "\<exists>w :: 'f hub_world. (hub_step (\<lambda>_. []))\<^sup>*\<^sup>* (hub_start 4 4, []) (w, []) \<and> orphaned w (hw_publishers w ! 1) \<and>
    (\<exists>s \<in> set (hw_subscribers w). \<not> hs_closed s \<and> hs_url s = hp_url (hw_publishers w ! 1) \<and> st_publishers (hb_cores (hw_hub w) (hs_core s)) = 0 \<and>
      (\<forall>frame. fst (push_frame frame (hw_publishers w ! 1) (hw_hub w)) = Accepted \<and>
        hb_cores (snd (push_frame frame (hw_publishers w ! 1) (hw_hub w))) (hs_core s) = hb_cores (hw_hub w) (hs_core s)))"
proof (intro exI conjI)
  show "(hub_step (\<lambda>_. []))\<^sup>*\<^sup>* (hub_start 4 4, []) (raced ''mock://a'' :: 'f hub_world, [])" by (rule raced_reachable)
  show "orphaned (raced ''mock://a'' :: 'f hub_world) (hw_publishers (raced ''mock://a'' :: 'f hub_world) ! 1)" by (simp add: raced_eval)
qed (simp add: raced_eval)

end
