(* ===== verification/HubDelivery.thy ===== *)
theory HubDelivery
  imports HubRegistry
begin

text \<open>
  What a subscriber of the hub receives.  Every open subscriber behaves as a queue of its own that is offered
  the frames pushed at its URL: the registry, the other handles and the identities of the streams do not
  matter.  With the properties of a queue this gives the delivery of frames from end to end.
\<close>

section \<open>The history of a subscriber\<close>

text \<open>What a command means for the queue of the subscriber at position j.\<close>

definition sub_events :: "'f hub_cmd \<Rightarrow> 'f hub_world \<Rightarrow> nat \<Rightarrow> 'f queue_event list" where
  "sub_events cmd w j =
    (if hs_closed (hw_subscribers w ! j) then []
     else case cmd of
       PushFrame i frame \<Rightarrow>
         if i < length (hw_publishers w) \<and> \<not> hp_closed (hw_publishers w ! i) \<and>
            hp_url (hw_publishers w ! i) = hs_url (hw_subscribers w ! j)
         then [Offer frame] else []
     | Receive i deadline_ok \<Rightarrow> if i = j \<and> deadline_ok then [Take] else []
     | _ \<Rightarrow> [])"

definition received_frames :: "'f hub_cmd \<Rightarrow> 'f hub_world \<Rightarrow> nat \<Rightarrow> 'f MediaFrame list" where
  "received_frames cmd w j =
    (case cmd of
       Receive i deadline_ok \<Rightarrow>
         if i = j
         then (case fst (hub_recv_timeout deadline_ok (hw_subscribers w ! i) (hw_hub w)) of Inr (Frame frame) \<Rightarrow> [frame] | _ \<Rightarrow> [])
         else []
     | _ \<Rightarrow> [])"

text \<open>A run that notes for every subscriber its options, its events and the frames that its receives returned.\<close>

type_synonym 'f sub_history = "SubscriberOptions \<times> 'f queue_event list \<times> 'f MediaFrame list"

definition note_command :: "'f hub_cmd \<Rightarrow> 'f hub_world \<Rightarrow> 'f sub_history list \<Rightarrow> 'f sub_history list" where
  "note_command cmd w hist =
    map (\<lambda>(j, options, events, got). (options, events @ sub_events cmd w j, got @ received_frames cmd w j)) (enumerate 0 hist)"

definition noted_exec :: "(CodecId \<Rightarrow> string) \<Rightarrow> 'f hub_cmd \<Rightarrow> 'f hub_world \<times> 'f sub_history list \<Rightarrow> 'f hub_world \<times> 'f sub_history list" where
  "noted_exec dbg cmd c =
    (case c of (w, hist) \<Rightarrow>
     let w' = exec_hub dbg cmd w
     in (w', case cmd of
           Subscribe url options \<Rightarrow> if length (hw_subscribers w) < length (hw_subscribers w') then hist @ [(options, [], [])] else hist
         | _ \<Rightarrow> note_command cmd w hist))"

definition noted_run :: "(CodecId \<Rightarrow> string) \<Rightarrow> 'f hub_cmd list \<Rightarrow> usize \<Rightarrow> usize \<Rightarrow> 'f hub_world \<times> 'f sub_history list" where
  "noted_run dbg cmds max_streams max_subscribers = fold (noted_exec dbg) cmds (hub_start max_streams max_subscribers, [])"

lemma noted_run_world: "fst (noted_run dbg cmds max_streams max_subscribers) = hub_run dbg cmds max_streams max_subscribers"
proof -
  have "fst (fold (noted_exec dbg) cmds (w, hist)) = fold (exec_hub dbg) cmds w" for w hist
    by (induction cmds arbitrary: w hist) (simp_all add: noted_exec_def Let_def)
  then show ?thesis by (simp add: noted_run_def hub_run_def)
qed

section \<open>One command and one queue\<close>

definition queue_at :: "'f hub \<Rightarrow> HubSubscriber \<Rightarrow> 'f SubscriberQueue option" where
  "queue_at h s = map_of (st_subscribers (hb_cores h (hs_core s))) (hs_id s)"

lemmas hub_op_defs = publish_def register_publisher_def get_or_create_stream_def request_keyframe_def update_tracks_def publisher_close_def
  release_publisher_def take_keyframe_requests_def try_reap_def set_core_def Let_def

lemma try_reap_cores [simp]: "hb_cores (try_reap url c h) = hb_cores h"
  by (simp add: try_reap_def)

lemma inv_subscriber:
  assumes "hub_inv {} w" and "j < length (hw_subscribers w)"
  shows "hs_core (hw_subscribers w ! j) < hb_next_core (hw_hub w)" and "hs_id (hw_subscribers w ! j) < hb_next_subscriber (hw_hub w)"
  using assms by (simp_all add: hub_inv_def subscribers_ok_def)

lemma inv_distinct:
  assumes "hub_inv {} w" and "j < length (hw_subscribers w)" and "i < length (hw_subscribers w)" and "i \<noteq> j"
  shows "hs_id (hw_subscribers w ! i) \<noteq> hs_id (hw_subscribers w ! j)"
  using assms by (simp add: hub_inv_def subscribers_ok_def distinct_conv_nth)

text \<open>Commands that leave the queues alone.\<close>

fun quiet :: "'f hub_cmd \<Rightarrow> bool" where
  "quiet (Publish _ _) = True"
| "quiet (UpdateTracks _ _) = True"
| "quiet (ClosePublisher _) = True"
| "quiet (TakeRequests _) = True"
| "quiet (RequestKeyframe _) = True"
| "quiet _ = False"

lemma quiet_subscribers:
  assumes "quiet cmd" and "c < hb_next_core (hw_hub w)"
  shows "st_subscribers (hb_cores (hw_hub (exec_hub dbg cmd w)) c) = st_subscribers (hb_cores (hw_hub w) c)"
    and "hw_subscribers (exec_hub dbg cmd w) = hw_subscribers w"
  using assms by (cases cmd; auto simp: hub_op_defs split: option.splits sum.splits)+

lemma quiet_queue:
  assumes "hub_inv {} w" and "j < length (hw_subscribers w)" and "quiet cmd"
  shows "queue_at (hw_hub (exec_hub dbg cmd w)) (hw_subscribers (exec_hub dbg cmd w) ! j) = queue_at (hw_hub w) (hw_subscribers w ! j)"
  using quiet_subscribers [OF assms(3) inv_subscriber(1) [OF assms(1,2)]] by (simp add: queue_at_def)

text \<open>A push reaches the open subscribers of its URL, and no others.\<close>

lemma same_stream:
  assumes inv: "hub_inv {} w" and j: "j < length (hw_subscribers w)" "\<not> hs_closed (hw_subscribers w ! j)"
    and i: "i < length (hw_publishers w)" "\<not> hp_closed (hw_publishers w ! i)"
  shows "hp_core (hw_publishers w ! i) = hs_core (hw_subscribers w ! j) \<longleftrightarrow> hp_url (hw_publishers w ! i) = hs_url (hw_subscribers w ! j)"
proof -
  let ?p = "hw_publishers w ! i" and ?s = "hw_subscribers w ! j" and ?m = "map_of (hb_streams (hw_hub w))"
  have "?m (hp_url ?p) = Some (hp_core ?p)" using inv i by (simp add: hub_inv_def publishers_ok_def)
  moreover have "?m (hs_url ?s) = Some (hs_core ?s)" using inv j by (simp add: hub_inv_def subscribers_ok_def)
  moreover have "\<forall>url url' c. ?m url = Some c \<longrightarrow> ?m url' = Some c \<longrightarrow> url = url'" using inv by (simp add: hub_inv_def registry_ok_def)
  ultimately show ?thesis by (metis option.inject)
qed

lemma open_publisher_accepts:
  assumes "hub_inv {} w" and "i < length (hw_publishers w)" "\<not> hp_closed (hw_publishers w ! i)"
  shows "\<not> st_publisher_closed (hb_cores (hw_hub w) (hp_core (hw_publishers w ! i)))"
proof -
  let ?p = "hw_publishers w ! i"
  have "?p \<in> set (filter (\<lambda>p. hp_core p = hp_core ?p \<and> \<not> hp_closed p) (hw_publishers w))" using assms(2,3) by simp
  then have "open_publishers (hw_publishers w) (hp_core ?p) \<noteq> 0" by (auto simp: open_publishers_def filter_empty_conv)
  then have "st_publishers (hb_cores (hw_hub w) (hp_core ?p)) \<noteq> 0" using assms(1) by (simp add: hub_inv_def publishers_ok_def)
  moreover note conjunct1 [OF inv_core [OF assms(1), of "hp_core ?p", unfolded core_ok_def]]
  ultimately show ?thesis by (metis (full_types))
qed

lemma push_queue:
  assumes inv: "hub_inv {} w" and j: "j < length (hw_subscribers w)" "\<not> hs_closed (hw_subscribers w ! j)"
    and q: "queue_at (hw_hub w) (hw_subscribers w ! j) = Some q"
  shows "queue_at (hw_hub (exec_hub dbg (PushFrame i frame) w)) (hw_subscribers w ! j) =
    Some (fst (fold queue_step (sub_events (PushFrame i frame) w j) (q, got)))"
proof (cases "i < length (hw_publishers w) \<and> \<not> hp_closed (hw_publishers w ! i)")
  case False
  then show ?thesis using q j by (auto simp: sub_events_def push_frame_def)
next
  case True
  let ?p = "hw_publishers w ! i"
  have accepts: "\<not> st_publisher_closed (hb_cores (hw_hub w) (hp_core ?p))" using True by (intro open_publisher_accepts [OF inv]) simp_all
  have subs: "st_subscribers (hb_cores (snd (push_frame frame ?p (hw_hub w))) (hp_core ?p)) =
      map (\<lambda>(id, s). (id, fst (offer frame s))) (st_subscribers (hb_cores (hw_hub w) (hp_core ?p)))"
    using True accepts by (simp add: push_frame_def Let_def offers_fst)
  have other: "hb_cores (snd (push_frame frame ?p (hw_hub w))) c = hb_cores (hw_hub w) c" if "c \<noteq> hp_core ?p" for c
    using that by (simp add: push_frame_def Let_def)
  show ?thesis
  proof (cases "hp_url ?p = hs_url (hw_subscribers w ! j)")
    case url: True
    then have "hs_core (hw_subscribers w ! j) = hp_core ?p" using same_stream [OF inv j, of i] True by auto
    then show ?thesis using True url j q subs by (simp add: queue_at_def sub_events_def map_of_map_values)
  next
    case url: False
    then have "hs_core (hw_subscribers w ! j) \<noteq> hp_core ?p" using same_stream [OF inv j, of i] True by auto
    then show ?thesis using True url j q other by (simp add: queue_at_def sub_events_def)
  qed
qed

text \<open>Closing and receiving touch the queue of their own subscriber only.\<close>

lemma queue_at_remove:
  assumes "hs_id s \<noteq> hs_id t"
  shows "queue_at (remove_subscriber s h) t = queue_at h t"
  using assms by (simp add: queue_at_def remove_subscriber_def Let_def map_of_bt_remove)

lemma queue_at_reap [simp]: "queue_at (try_reap url c h) t = queue_at h t"
  by (simp add: queue_at_def)

lemma close_queue:
  assumes inv: "hub_inv {} w" and j: "j < length (hw_subscribers w)" and "i \<noteq> j \<or> hs_closed (hw_subscribers w ! j)"
  shows "queue_at (hw_hub (exec_hub dbg (CloseSubscriber i) w)) (hw_subscribers (exec_hub dbg (CloseSubscriber i) w) ! j) = queue_at (hw_hub w) (hw_subscribers w ! j)"
  using assms(3) queue_at_remove [OF inv_distinct [OF inv j, of i]] by (cases "i = j") (auto simp: subscriber_close_def)

lemma queue_at_insert:
  assumes "bt_wf (st_subscribers (hb_cores h c))"
  shows "queue_at (set_core c ((hb_cores h c)\<lparr> st_subscribers := bt_insert k q (st_subscribers (hb_cores h c)) \<rparr>) h) t =
    (if hs_core t = c \<and> hs_id t = k then Some q else queue_at h t)"
  using assms by (simp add: queue_at_def map_of_bt_insert)

lemma receive_other_queue:
  assumes inv: "hub_inv {} w" and j: "j < length (hw_subscribers w)" and "i \<noteq> j"
  shows "queue_at (hw_hub (exec_hub dbg (Receive i deadline_ok) w)) (hw_subscribers (exec_hub dbg (Receive i deadline_ok) w) ! j) = queue_at (hw_hub w) (hw_subscribers w ! j)"
proof (cases "i < length (hw_subscribers w)")
  case False
  then show ?thesis by simp
next
  case True
  let ?s = "hw_subscribers w ! i"
  have wf: "bt_wf (st_subscribers (hb_cores (hw_hub w) c))" for c using inv_core [OF inv] by (simp add: core_ok_def)
  have "hs_id (hw_subscribers w ! j) \<noteq> hs_id ?s" using inv_distinct [OF inv j True assms(3)] by simp
  then have "queue_at (snd (snd (hub_recv_timeout deadline_ok ?s (hw_hub w)))) (hw_subscribers w ! j) = queue_at (hw_hub w) (hw_subscribers w ! j)"
    by (auto simp: hub_recv_timeout_def Let_def queue_at_remove queue_at_insert [OF wf] split: option.splits list.splits)
  then show ?thesis using True assms(3) by (simp add: case_prod_beta Let_def)
qed

lemma receive_queue:
  assumes inv: "hub_inv {} w" and j: "j < length (hw_subscribers w)" "\<not> hs_closed (hw_subscribers w ! j)"
    and q: "queue_at (hw_hub w) (hw_subscribers w ! j) = Some q" and "sq_overflowed q \<longrightarrow> sq_queue q = []"
  shows "\<exists>q'. fold queue_step (sub_events (Receive j deadline_ok) w j) (q, got) = (q', got @ received_frames (Receive j deadline_ok) w j) \<and>
    (\<not> hs_closed (hw_subscribers (exec_hub dbg (Receive j deadline_ok) w) ! j) \<longrightarrow>
      queue_at (hw_hub (exec_hub dbg (Receive j deadline_ok) w)) (hw_subscribers (exec_hub dbg (Receive j deadline_ok) w) ! j) = Some q')"
proof -
  let ?s = "hw_subscribers w ! j"
  have wf: "bt_wf (st_subscribers (hb_cores (hw_hub w) (hs_core ?s)))" using inv_core [OF inv] by (simp add: core_ok_def)
  have m: "map_of (st_subscribers (hb_cores (hw_hub w) (hs_core ?s))) (hs_id ?s) = Some q" using q by (simp add: queue_at_def)
  show ?thesis
    using j q m assms(5)
    by (cases "sq_queue q") (auto simp: sub_events_def received_frames_def hub_recv_timeout_def Let_def queue_at_insert [OF wf])
qed
text \<open>Subscribing leaves the other queues alone and starts with an empty queue.\<close>

lemma open_stream_queue:
  assumes "get_or_create_stream url h = (r, h')" and "hs_core t < hb_next_core h"
  shows "queue_at h' t = queue_at h t"
  using assms by (auto simp: get_or_create_stream_def queue_at_def Let_def split: option.splits if_splits)

lemma subscribe_cases:
  assumes inv: "hub_inv {} w"
  obtains (refused) "hw_subscribers (exec_hub dbg (Subscribe url options) w) = hw_subscribers w"
      "\<And>t. hs_core t < hb_next_core (hw_hub w) \<Longrightarrow> queue_at (hw_hub (exec_hub dbg (Subscribe url options) w)) t = queue_at (hw_hub w) t"
  | (opened) s where "hw_subscribers (exec_hub dbg (Subscribe url options) w) = hw_subscribers w @ [s]"
      "hs_id s = hb_next_subscriber (hw_hub w)" "0 < so_queue_capacity options"
      "queue_at (hw_hub (exec_hub dbg (Subscribe url options) w)) s = Some (subscriber_queue options)"
      "\<And>t. hs_core t < hb_next_core (hw_hub w) \<Longrightarrow> hs_id t \<noteq> hs_id s \<Longrightarrow> queue_at (hw_hub (exec_hub dbg (Subscribe url options) w)) t = queue_at (hw_hub w) t"
proof (cases "so_queue_capacity options = 0 \<or> hb_max_subscribers (hw_hub w) = 0")
  case True
  then show thesis by (intro refused) (auto simp: subscribe_def)
next
  case False
  obtain r h where g: "get_or_create_stream url (hw_hub w) = (r, h)" by fastforce
  note old = open_stream_queue [OF g]
  show thesis
  proof (cases r)
    case (Inl e)
    then show thesis using False g old by (intro refused) (auto simp: subscribe_def)
  next
    case (Inr c)
    note got = get_or_create_inv [OF inv g [unfolded Inr]]
    let ?h2 = "h\<lparr> hb_next_subscriber := wrapping_add (hb_next_subscriber h) 1 \<rparr>"
    have same: "queue_at ?h2 t = queue_at h t" for t by (simp add: queue_at_def)
    have "core_ok h (hb_cores h c)" using got by (simp add: hub_inv_def)
    then have wf: "bt_wf (st_subscribers (hb_cores ?h2 c))" by (simp add: core_ok_def)
    show thesis
    proof (cases "hb_max_subscribers h \<le> length (st_subscribers (hb_cores h c))")
      case True
      then show thesis using False g Inr old same by (intro refused) (auto simp: subscribe_def Let_def)
    next
      case room: False
      let ?s = "\<lparr> hs_url = url, hs_core = c, hs_id = hb_next_subscriber h, hs_closed = False \<rparr>"
      let ?h3 = "set_core c ((hb_cores ?h2 c)\<lparr> st_subscribers := bt_insert (hb_next_subscriber h) (subscriber_queue options) (st_subscribers (hb_cores ?h2 c)) \<rparr>) ?h2"
      have e: "exec_hub dbg (Subscribe url options) w = w\<lparr> hw_hub := ?h3, hw_subscribers := hw_subscribers w @ [?s] \<rparr>"
        using False room g Inr by (simp add: subscribe_def Let_def)
      have w': "hw_hub (exec_hub dbg (Subscribe url options) w) = ?h3" "hw_subscribers (exec_hub dbg (Subscribe url options) w) = hw_subscribers w @ [?s]"
        unfolding e by simp_all
      have ins: "queue_at ?h3 t = (if hs_core t = c \<and> hs_id t = hb_next_subscriber h then Some (subscriber_queue options) else queue_at h t)" for t
        using queue_at_insert [OF wf] same by simp
      show thesis
      proof (rule opened [of ?s], unfold w' ins)
        show "hs_id ?s = hb_next_subscriber (hw_hub w)" using got by simp
        show "0 < so_queue_capacity options" using False by simp
      qed (use old in simp_all)
    qed
  qed
qed

section \<open>Every subscriber is a queue of its own\<close>

lemma life_step: "queue_life options (events @ more_events) = fold queue_step more_events (queue_life options events)"
  by (simp add: queue_life_def)

lemma overflowed_empty: "sq_overflowed (fst (queue_life options events)) \<longrightarrow> sq_queue (fst (queue_life options events)) = []"
proof (induction events rule: rev_induct)
  case Nil
  then show ?case by (simp add: queue_life_def subscriber_queue_def)
next
  case (snoc event events)
  obtain q got where q: "queue_life options events = (q, got)" by fastforce
  show ?case
    using snoc by (cases event) (auto simp: life_step q offer_def offer_full_def Let_def split: list.splits BackpressurePolicy.splits)
qed

definition tracks_queue :: "'f hub_world \<Rightarrow> nat \<Rightarrow> 'f sub_history \<Rightarrow> bool" where
  "tracks_queue w j history \<longleftrightarrow>
    (case history of (options, events, got) \<Rightarrow>
     0 < so_queue_capacity options \<and> got = snd (queue_life options events) \<and>
     (\<not> hs_closed (hw_subscribers w ! j) \<longrightarrow> queue_at (hw_hub w) (hw_subscribers w ! j) = Some (fst (queue_life options events))))"

lemma closed_stays:
  assumes "hs_closed (hw_subscribers w ! j)" and "j < length (hw_subscribers w)"
  shows "hs_closed (hw_subscribers (exec_hub dbg cmd w) ! j)" and "received_frames cmd w j = []"
proof -
  show "hs_closed (hw_subscribers (exec_hub dbg cmd w) ! j)"
    using assms
    by (cases cmd) (auto simp: nth_append nth_list_update subscriber_close_def hub_recv_timeout_def Let_def publisher_close_def split: sum.splits prod.splits)
  show "received_frames cmd w j = []" using assms by (cases cmd) (auto simp: received_frames_def hub_recv_timeout_def)
qed

lemma command_tracks:
  assumes inv: "hub_inv {} w" and j: "j < length (hw_subscribers w)" and cmd: "\<And>url options. cmd \<noteq> Subscribe url options"
    and track: "tracks_queue w j (options, events, got)"
  shows "tracks_queue (exec_hub dbg cmd w) j (options, events @ sub_events cmd w j, got @ received_frames cmd w j)"
proof (cases "hs_closed (hw_subscribers w ! j)")
  case True
  then show ?thesis using track closed_stays [OF True j] by (simp add: tracks_queue_def sub_events_def)
next
  case False
  obtain q where q: "queue_life options events = (q, got)" "queue_at (hw_hub w) (hw_subscribers w ! j) = Some q" "0 < so_queue_capacity options"
    using track False by (auto simp: tracks_queue_def) (metis prod.collapse)
  let ?w' = "exec_hub dbg cmd w"
  have "\<exists>q'. fold queue_step (sub_events cmd w j) (q, got) = (q', got @ received_frames cmd w j) \<and>
      (\<not> hs_closed (hw_subscribers ?w' ! j) \<longrightarrow> queue_at (hw_hub ?w') (hw_subscribers ?w' ! j) = Some q')"
  proof (cases "quiet cmd")
    case True
    then have "sub_events cmd w j = []" "received_frames cmd w j = []" by (cases cmd; simp add: sub_events_def received_frames_def)+
    then show ?thesis using quiet_queue [OF inv j True] q(2) by simp
  next
    case loud: False
    show ?thesis
    proof (cases cmd)
      case (PushFrame i frame)
      have "sub_events cmd w j \<in> {[], [Offer frame]}" by (simp add: PushFrame sub_events_def)
      then have "snd (fold queue_step (sub_events cmd w j) (q, got)) = got" by auto
      moreover have "hw_subscribers ?w' = hw_subscribers w" by (simp add: PushFrame)
      ultimately show ?thesis
        using push_queue [OF inv j False q(2), of dbg i frame got] PushFrame
        by (cases "fold queue_step (sub_events cmd w j) (q, got)") (simp add: received_frames_def)
    next
      case (Receive i deadline_ok)
      have "sq_overflowed q \<longrightarrow> sq_queue q = []" using overflowed_empty [of options events] q(1) by simp
      then show ?thesis
        using Receive receive_queue [OF inv j False q(2)] receive_other_queue [OF inv j, of i] q(2)
        by (cases "i = j") (auto simp: sub_events_def received_frames_def)
    next
      case (CloseSubscriber i)
      have "sub_events cmd w j = []" "received_frames cmd w j = []" by (simp_all add: CloseSubscriber sub_events_def received_frames_def)
      moreover have "hs_closed (hw_subscribers ?w' ! j)" if "i = j" using that j by (simp add: CloseSubscriber subscriber_close_def Let_def)
      ultimately show ?thesis using close_queue [OF inv j, of i dbg] q(2) CloseSubscriber by (cases "i = j") auto
    qed (use loud cmd in auto)
  qed
  then show ?thesis using q by (auto simp: tracks_queue_def life_step)
qed

lemma command_length:
  assumes "\<And>url options. cmd \<noteq> Subscribe url options"
  shows "length (hw_subscribers (exec_hub dbg cmd w)) = length (hw_subscribers w)"
  using assms by (cases cmd) (auto simp: Let_def split: sum.splits prod.splits)

lemma noted_exec_subscribe:
  assumes inv: "hub_inv {} w" and hist: "length hist = length (hw_subscribers w)" "\<forall>j < length hist. tracks_queue w j (hist ! j)"
    and e: "noted_exec dbg (Subscribe url options) (w, hist) = (w', hist')"
  shows "length hist' = length (hw_subscribers w') \<and> (\<forall>j < length hist'. tracks_queue w' j (hist' ! j))"
proof -
  have w': "w' = exec_hub dbg (Subscribe url options) w" using e by (simp add: noted_exec_def Let_def)
  show ?thesis
    using inv
  proof (cases rule: subscribe_cases [where dbg = dbg and url = url and options = options])
    case refused
    then have "hist' = hist" "hw_subscribers w' = hw_subscribers w" using e unfolding w' by (auto simp: noted_exec_def Let_def)
    then show ?thesis using hist refused(2) inv_subscriber(1) [OF inv] unfolding w' [symmetric] by (auto simp: tracks_queue_def)
  next
    case (opened s)
    then have h: "hist' = hist @ [(options, [], [])]" and subs: "hw_subscribers w' = hw_subscribers w @ [s]"
      using e unfolding w' by (auto simp: noted_exec_def Let_def)
    have "tracks_queue w' j (hist' ! j)" if "j < length hist'" for j
    proof (cases "j < length hist")
      case True
      then have "hs_id (hw_subscribers w ! j) \<noteq> hs_id s" using inv_subscriber(2) [OF inv, of j] opened(2) hist(1) by simp
      then show ?thesis
        using True hist opened(5) inv_subscriber(1) [OF inv, of j] unfolding h subs w' [symmetric] by (simp add: tracks_queue_def subs nth_append)
    next
      case False
      then have "j = length hist" using that h by simp
      then show ?thesis using opened(3,4) hist(1) unfolding w' [symmetric] by (simp add: h tracks_queue_def subs nth_append queue_life_def)
    qed
    then show ?thesis using hist(1) by (simp add: h subs)
  qed
qed

lemma note_command_nth:
  assumes "j < length hist" and "hist ! j = (options, events, got)"
  shows "note_command cmd w hist ! j = (options, events @ sub_events cmd w j, got @ received_frames cmd w j)"
  using assms by (simp add: note_command_def nth_enumerate_eq)

lemma noted_exec_other:
  assumes inv: "hub_inv {} w" and hist: "length hist = length (hw_subscribers w)" "\<forall>j < length hist. tracks_queue w j (hist ! j)"
    and cmd: "\<And>url options. cmd \<noteq> Subscribe url options" and e: "noted_exec dbg cmd (w, hist) = (w', hist')"
  shows "length hist' = length (hw_subscribers w') \<and> (\<forall>j < length hist'. tracks_queue w' j (hist' ! j))"
proof -
  have w': "w' = exec_hub dbg cmd w" "hist' = note_command cmd w hist" using e cmd by (cases cmd; simp add: noted_exec_def Let_def)+
  have "tracks_queue w' j (hist' ! j)" if "j < length hist" for j
  proof -
    obtain options events got where t: "hist ! j = (options, events, got)" using prod_cases3 by blast
    then show ?thesis using command_tracks [OF inv _ cmd] hist that unfolding w' note_command_nth [OF that t] by metis
  qed
  then show ?thesis using hist(1) command_length [OF cmd] by (simp add: w' note_command_def)
qed

lemma noted_run_tracks:
  assumes "length cmds \<le> usize_max" and "noted_run dbg cmds max_streams max_subscribers = (w, hist)"
  shows "length hist = length (hw_subscribers w) \<and> (\<forall>j < length hist. tracks_queue w j (hist ! j))"
  using assms
proof (induction cmds arbitrary: w hist rule: rev_induct)
  case Nil
  then show ?case by (auto simp: noted_run_def hub_start_def)
next
  case (snoc cmd cmds)
  obtain w0 hist0 where r: "noted_run dbg cmds max_streams max_subscribers = (w0, hist0)" by fastforce
  then have e: "noted_exec dbg cmd (w0, hist0) = (w, hist)" using snoc.prems(2) by (simp add: noted_run_def)
  have "hub_run dbg cmds max_streams max_subscribers = w0" using noted_run_world [of dbg cmds max_streams max_subscribers] r by simp
  then have inv: "hub_inv {} w0" using hub_run_inv [of cmds dbg max_streams max_subscribers] snoc.prems(1) by simp
  have IH: "length hist0 = length (hw_subscribers w0)" "\<forall>j < length hist0. tracks_queue w0 j (hist0 ! j)" using snoc.IH [OF _ r] snoc.prems(1) by simp_all
  show ?case
  proof (cases "\<exists>url options. cmd = Subscribe url options")
    case True
    then show ?thesis using noted_exec_subscribe [OF inv IH] e by blast
  next
    case False
    then show ?thesis using noted_exec_other [OF inv IH _ e] by blast
  qed
qed

text \<open>C24. The hub implements one queue per subscriber.  Over any sequence of operations, take for each subscriber the events
  since it was opened: the frames that open publishers of its URL pushed, and its receives.  The frames its receives
  returned are those of a queue on its own with these events, and while it is open its entry in the
  hub is that queue; so what it has received and what waits is a subsequence of what was published
  at its URL and passes its filter.  Other URLs, other handles, and streams that come and go do not matter.\<close>

theorem hub_implements_queues:
  assumes "length cmds \<le> usize_max" and "noted_run dbg cmds max_streams max_subscribers = (w, hist)"
    and "j < length (hw_subscribers w)" and "hist ! j = (options, events, got)"
  shows "\<exists>q. queue_life options events = (q, got) \<and> subseq (got @ sq_queue q) (offered (so_media_filter options) events) \<and>
    (\<not> hs_closed (hw_subscribers w ! j) \<longrightarrow> queue_at (hw_hub w) (hw_subscribers w ! j) = Some q)"
proof -
  have t: "tracks_queue w j (options, events, got)" using noted_run_tracks [OF assms(1,2)] assms(3,4) by metis
  have "snd (queue_life options events) = got" using t by (simp add: tracks_queue_def)
  then obtain q where q: "queue_life options events = (q, got)" by (metis prod.collapse)
  then have "subseq (got @ sq_queue q) (offered (so_media_filter options) events)"
    using queue_life_inv [of events options q got] t by (simp add: queue_life_def tracks_queue_def)
  then show ?thesis using q t by (auto simp: tracks_queue_def)
qed

text \<open>Two subscribers, of which one takes a frame; a publisher of another URL pushes in between.\<close>

definition delivery_cmds :: "unit hub_cmd list" where
  "delivery_cmds = [Subscribe ''a'' subscriber_options_default, Publish ''a'' publisher_options_default, Publish ''b'' publisher_options_default,
    PushFrame 0 \<lparr> mf_tags = [], mf_payload = () \<rparr>, PushFrame 1 \<lparr> mf_tags = [], mf_payload = () \<rparr>, Receive 0 True]"

lemmas delivery_eval = sample_eval delivery_cmds_def noted_run_def noted_exec_def note_command_def sub_events_def received_frames_def
  hub_recv_timeout_def enumerate_eq_zip

theorem hub_implements_queues_witness:
  "\<exists>q. queue_life subscriber_options_default [Offer \<lparr> mf_tags = [], mf_payload = () \<rparr>, Take] = (q, [\<lparr> mf_tags = [], mf_payload = () \<rparr>])"
proof -
  let ?frame = "\<lparr> mf_tags = [], mf_payload = () \<rparr>"
  obtain w hist where r: "noted_run (\<lambda>_. []) delivery_cmds 4 4 = (w, hist)" by fastforce
  have "length delivery_cmds \<le> usize_max" by (simp add: delivery_cmds_def usize_max_def)
  moreover have "length (hw_subscribers w) = 1" "hist ! 0 = (subscriber_options_default, [Offer ?frame, Take], [?frame])"
    using r by (auto simp: delivery_eval)
  ultimately show ?thesis using hub_implements_queues [OF _ r, of 0] by auto
qed

end
