(* ===== verification/ThreadPools.thy ===== *)
theory ThreadPools
  imports Pipes "HOL-Library.Multiset"
begin

text \<open>
  The work-stealing thread pool of \<open>dg-graph/src/pool.rs\<close>.  The operations on the shared queues come first as
  functions of one caller; then the workers, the threads that spawn jobs and the thread that drops the pool are
  a step relation whose steps are the atomic actions of the source: one lock of a queue, one load or update
  of the counter, one hold of the signal lock.  The queue locks are held only while a queue is read or changed, which does not panic, so
  no lock is ever poisoned.  A job is an identifier; running it returns or panics.
\<close>

section \<open>Queues\<close>

record 'j Shared =
  sh_queues :: "'j list list"
  sh_pending :: usize
  sh_shutdown :: bool

text \<open>The scan for the shortest queue keeps the best index so far and its length.\<close>

fun scan_shortest :: "'j list list \<Rightarrow> nat \<Rightarrow> nat \<Rightarrow> usize \<Rightarrow> nat" where
  "scan_shortest [] index target shortest = target"
| "scan_shortest (queue # queues) index target shortest =
    (if length queue < shortest then scan_shortest queues (Suc index) index (length queue)
     else scan_shortest queues (Suc index) target shortest)"

definition push_target :: "'j list list \<Rightarrow> nat" where
  "push_target queues = scan_shortest queues 0 0 usize_max"

definition pool_try_push :: "'j \<Rightarrow> 'j Shared \<Rightarrow> 'j Shared" where
  "pool_try_push job sh =
    (let target = push_target (sh_queues sh)
     in sh\<lparr> sh_queues := (sh_queues sh)[target := sh_queues sh ! target @ [job]], sh_pending := wrapping_add (sh_pending sh) 1 \<rparr>)"

definition try_pop :: "nat \<Rightarrow> 'j Shared \<Rightarrow> 'j option \<times> 'j Shared" where
  "try_pop worker sh =
    (case sh_queues sh ! worker of
       [] \<Rightarrow> (None, sh)
     | job # rest \<Rightarrow> (Some job, sh\<lparr> sh_queues := (sh_queues sh)[worker := rest], sh_pending := wrapping_sub (sh_pending sh) 1 \<rparr>))"

fun steal_from :: "nat list \<Rightarrow> nat \<Rightarrow> 'j Shared \<Rightarrow> 'j option \<times> 'j Shared" where
  "steal_from [] worker sh = (None, sh)"
| "steal_from (index # indexes) worker sh =
    (if index = worker \<or> sh_queues sh ! index = [] then steal_from indexes worker sh
     else (Some (last (sh_queues sh ! index)),
           sh\<lparr> sh_queues := (sh_queues sh)[index := butlast (sh_queues sh ! index)], sh_pending := wrapping_sub (sh_pending sh) 1 \<rparr>))"

definition try_steal :: "nat \<Rightarrow> 'j Shared \<Rightarrow> 'j option \<times> 'j Shared" where
  "try_steal worker sh = steal_from [0..<length (sh_queues sh)] worker sh"

text \<open>The pool: its queues and the number of its workers.  \<open>spawn_error index\<close> is the error of spawning a worker, if it fails.\<close>

record 'j ThreadPool =
  tp_shared :: "'j Shared"
  tp_threads :: usize

fun spawn_workers :: "(nat \<Rightarrow> string option) \<Rightarrow> nat \<Rightarrow> nat \<Rightarrow> unit graph_result" where
  "spawn_workers spawn_error index 0 = Inr ()"
| "spawn_workers spawn_error index (Suc n) =
    (case spawn_error index of
       None \<Rightarrow> spawn_workers spawn_error (Suc index) n
     | Some err \<Rightarrow> Inl (GRuntime (''failed to spawn thread pool worker '' @ show_nat index @ '': '' @ err)))"

definition thread_pool_new :: "(nat \<Rightarrow> bool) \<Rightarrow> (nat \<Rightarrow> string option) \<Rightarrow> usize \<Rightarrow> 'j ThreadPool graph_result" where
  "thread_pool_new can_reserve spawn_error threads =
    and_then (fail_if (threads = 0) (GConfig ''thread pool requires at least one worker'')) (\<lambda>_.
    and_then (fail_if (\<not> can_reserve threads) (GConfig (''failed to allocate thread pool queues for '' @ show_nat threads @ '' workers''))) (\<lambda>_.
    and_then (fail_if (\<not> can_reserve threads) (GConfig (''failed to allocate worker handle vector for '' @ show_nat threads @ '' threads''))) (\<lambda>_.
    and_then (spawn_workers spawn_error 0 threads) (\<lambda>_.
    Inr \<lparr> tp_shared = \<lparr> sh_queues = replicate threads [], sh_pending = 0, sh_shutdown = False \<rparr>, tp_threads = threads \<rparr>))))"

section \<open>Workers as steps\<close>

text \<open>Where a worker is in \<open>worker_loop\<close>: before its own queue; before a queue to steal from; with a job in hand that the
  counter still counts; running a job; holding the signal lock between the two loads of the counter; waiting for the
  condition; woken and about to take the lock again; returned; ended by a panicking job.\<close>

datatype 'j pool_worker = Own | Scan nat | Took 'j | Run 'j | Recheck | Waiting | Woken | Exited | Died

record 'j pool_state =
  st_queues :: "'j list list"
  st_pending :: usize
  st_shutdown :: bool
  st_uncounted :: nat
  st_unsignalled :: nat
  st_workers :: "'j pool_worker list"
  st_spawned :: "'j list"
  st_finished :: "'j list"

definition set_worker :: "nat \<Rightarrow> 'j pool_worker \<Rightarrow> 'j pool_state \<Rightarrow> 'j pool_state" where
  "set_worker w pc s = s\<lparr> st_workers := (st_workers s)[w := pc] \<rparr>"

text \<open>The worker \<open>w\<close> is at \<open>pc\<close>; nobody holds the signal lock.\<close>

definition at_pc :: "nat \<Rightarrow> 'j pool_worker \<Rightarrow> 'j pool_state \<Rightarrow> bool" where
  "at_pc w pc s \<longleftrightarrow> w < length (st_workers s) \<and> st_workers s ! w = pc"

definition lock_free :: "'j pool_state \<Rightarrow> bool" where
  "lock_free s \<longleftrightarrow> Recheck \<notin> set (st_workers s)"

definition wake_all :: "'j pool_worker list \<Rightarrow> 'j pool_worker list" where
  "wake_all ws = map (\<lambda>pc. if pc = Waiting then Woken else pc) ws"

text \<open>A job is pushed (the target was chosen by an earlier scan, so it may be any queue), counted and signalled.  A worker looks
  at its own queue, then at the others in order.  Dropping the pool needs exclusive access to it, so no thread is spawning then.\<close>

inductive pool_step :: "'j pool_state \<Rightarrow> 'j pool_state \<Rightarrow> bool" where
  pushed: "\<not> st_shutdown s \<Longrightarrow> i < length (st_queues s) \<Longrightarrow>
    pool_step s (s\<lparr> st_queues := (st_queues s)[i := st_queues s ! i @ [job]], st_uncounted := Suc (st_uncounted s), st_spawned := st_spawned s @ [job] \<rparr>)"
| counted: "st_uncounted s = Suc n \<Longrightarrow>
    pool_step s (s\<lparr> st_pending := wrapping_add (st_pending s) 1, st_uncounted := n, st_unsignalled := Suc (st_unsignalled s) \<rparr>)"
| notified: "st_unsignalled s = Suc n \<Longrightarrow> lock_free s \<Longrightarrow> at_pc w Waiting s \<Longrightarrow>
    pool_step s (set_worker w Woken (s\<lparr> st_unsignalled := n \<rparr>))"
| notified_none: "st_unsignalled s = Suc n \<Longrightarrow> lock_free s \<Longrightarrow> Waiting \<notin> set (st_workers s) \<Longrightarrow> pool_step s (s\<lparr> st_unsignalled := n \<rparr>)"
| pops: "at_pc w Own s \<Longrightarrow> w < length (st_queues s) \<Longrightarrow> st_queues s ! w = job # rest \<Longrightarrow>
    pool_step s (set_worker w (Took job) (s\<lparr> st_queues := (st_queues s)[w := rest] \<rparr>))"
| own_empty: "at_pc w Own s \<Longrightarrow> st_queues s ! w = [] \<Longrightarrow> pool_step s (set_worker w (Scan 0) s)"
| steals: "at_pc w (Scan i) s \<Longrightarrow> i < length (st_queues s) \<Longrightarrow> i \<noteq> w \<Longrightarrow> st_queues s ! i = rest @ [job] \<Longrightarrow>
    pool_step s (set_worker w (Took job) (s\<lparr> st_queues := (st_queues s)[i := rest] \<rparr>))"
| scans: "at_pc w (Scan i) s \<Longrightarrow> i < length (st_queues s) \<Longrightarrow> i = w \<or> st_queues s ! i = [] \<Longrightarrow> pool_step s (set_worker w (Scan (Suc i)) s)"
| takes: "at_pc w (Took job) s \<Longrightarrow> pool_step s (set_worker w (Run job) (s\<lparr> st_pending := wrapping_sub (st_pending s) 1 \<rparr>))"
| runs: "at_pc w (Run job) s \<Longrightarrow> pool_step s (set_worker w Own (s\<lparr> st_finished := st_finished s @ [job] \<rparr>))"
| panics: "at_pc w (Run job) s \<Longrightarrow> pool_step s (set_worker w Died (s\<lparr> st_finished := st_finished s @ [job] \<rparr>))"
| returns: "at_pc w (Scan (length (st_queues s))) s \<Longrightarrow> lock_free s \<Longrightarrow> st_shutdown s \<Longrightarrow> st_pending s = 0 \<Longrightarrow> pool_step s (set_worker w Exited s)"
| rechecks: "at_pc w (Scan (length (st_queues s))) s \<Longrightarrow> lock_free s \<Longrightarrow> \<not> (st_shutdown s \<and> st_pending s = 0) \<Longrightarrow> pool_step s (set_worker w Recheck s)"
| loops: "at_pc w Recheck s \<Longrightarrow> st_pending s \<noteq> 0 \<Longrightarrow> pool_step s (set_worker w Own s)"
| waits: "at_pc w Recheck s \<Longrightarrow> st_pending s = 0 \<Longrightarrow> pool_step s (set_worker w Waiting s)"
| spurious: "at_pc w Waiting s \<Longrightarrow> pool_step s (set_worker w Woken s)"
| woken_returns: "at_pc w Woken s \<Longrightarrow> lock_free s \<Longrightarrow> st_shutdown s \<Longrightarrow> st_pending s = 0 \<Longrightarrow> pool_step s (set_worker w Exited s)"
| woken_loops: "at_pc w Woken s \<Longrightarrow> lock_free s \<Longrightarrow> \<not> (st_shutdown s \<and> st_pending s = 0) \<Longrightarrow> pool_step s (set_worker w Own s)"
| drops: "\<not> st_shutdown s \<Longrightarrow> st_uncounted s = 0 \<Longrightarrow> st_unsignalled s = 0 \<Longrightarrow> lock_free s \<Longrightarrow>
    pool_step s (s\<lparr> st_shutdown := True, st_workers := wake_all (st_workers s) \<rparr>)"

definition pool_start :: "usize \<Rightarrow> 'j pool_state" where
  "pool_start threads = \<lparr> st_queues = replicate threads [], st_pending = 0, st_shutdown = False, st_uncounted = 0, st_unsignalled = 0,
    st_workers = replicate threads Own, st_spawned = [], st_finished = [] \<rparr>"

section \<open>What the steps keep\<close>

lemma mset_concat_update:
  assumes "i < length xs"
  shows "mset (concat (xs[i := ys])) + mset (xs ! i) = mset (concat xs) + mset ys"
proof -
  have "mset (concat xs) = mset (concat (take i xs)) + mset (xs ! i) + mset (concat (drop (Suc i) xs))"
    by (subst id_take_nth_drop [OF assms]) (simp add: ac_simps)
  moreover have "mset (concat (xs[i := ys])) = mset (concat (take i xs)) + mset ys + mset (concat (drop (Suc i) xs))"
    using assms by (simp add: upd_conv_take_nth_drop)
  ultimately show ?thesis by (simp add: ac_simps)
qed

lemma length_concat_update:
  assumes "i < length xs"
  shows "length (concat (xs[i := ys])) + length (xs ! i) = length (concat xs) + length ys"
  using arg_cong [OF mset_concat_update [OF assms, of ys], of size] by simp

fun held :: "'j pool_worker \<Rightarrow> 'j list" where
  "held (Took job) = [job]"
| "held (Run job) = [job]"
| "held _ = []"

fun uncounted_take :: "'j pool_worker \<Rightarrow> bool" where
  "uncounted_take (Took job) = True"
| "uncounted_take _ = False"

text \<open>Workers that will look at the queues again before they wait.\<close>

fun seeking :: "'j pool_worker \<Rightarrow> bool" where
  "seeking Own = True"
| "seeking (Scan _) = True"
| "seeking Recheck = True"
| "seeking Woken = True"
| "seeking _ = False"

abbreviation queued_jobs :: "'j pool_state \<Rightarrow> nat" where
  "queued_jobs s \<equiv> length (concat (st_queues s))"

definition jobs_ok :: "'j pool_state \<Rightarrow> bool" where
  "jobs_ok s \<longleftrightarrow> mset (st_spawned s) = mset (concat (st_queues s)) + mset (concat (map held (st_workers s))) + mset (st_finished s)"

definition counter_ok :: "'j pool_state \<Rightarrow> bool" where
  "counter_ok s \<longleftrightarrow> st_uncounted s \<le> length (st_spawned s) \<and>
    (st_pending s + st_uncounted s) mod (usize_max + 1) = (queued_jobs s + number uncounted_take (st_workers s)) mod (usize_max + 1)"

definition wake_ok :: "'j pool_state \<Rightarrow> bool" where
  "wake_ok s \<longleftrightarrow> (Waiting \<in> set (st_workers s) \<longrightarrow>
    queued_jobs s \<le> number seeking (st_workers s) + st_uncounted s + st_unsignalled s)"

definition exit_ok :: "'j pool_state \<Rightarrow> bool" where
  "exit_ok s \<longleftrightarrow> (st_shutdown s \<longrightarrow> st_uncounted s = 0 \<and> st_unsignalled s = 0) \<and> (Exited \<in> set (st_workers s) \<longrightarrow> st_shutdown s \<and> queued_jobs s = 0)"

text \<open>How a job moves, and how a worker does.\<close>

lemma job_pushed: "i < length qs \<Longrightarrow> mset (concat (qs[i := qs ! i @ [job]])) = add_mset job (mset (concat qs))"
  using mset_concat_update [of i qs "qs ! i @ [job]"] by simp

lemma job_taken:
  assumes "i < length qs" and "mset (qs ! i) = add_mset job (mset rest)"
  shows "mset (concat qs) = add_mset job (mset (concat (qs[i := rest])))"
  using mset_concat_update [OF assms(1), of rest] assms(2) by simp

lemma held_update:
  assumes "w < length ws"
  shows "mset (concat (map held (ws[w := pc]))) + mset (held (ws ! w)) = mset (concat (map held ws)) + mset (held pc)"
  using mset_concat_update [of w "map held ws" "held pc"] assms by (simp add: map_update)

lemma wake_all_held [simp]: "map held (wake_all ws) = map held ws"
  by (simp add: wake_all_def)

lemma wake_all_number: "number seeking (wake_all ws) \<ge> number seeking ws" "number uncounted_take (wake_all ws) = number uncounted_take ws"
  by (induction ws) (auto simp: wake_all_def number_def)

lemma wake_all_set: "Waiting \<notin> set (wake_all ws)" "Exited \<in> set (wake_all ws) \<longleftrightarrow> Exited \<in> set ws"
  by (auto simp: wake_all_def)

lemmas pool_fields = set_worker_def at_pc_def

lemma jobs_step: "pool_step s t \<Longrightarrow> jobs_ok s \<Longrightarrow> jobs_ok t"
proof (induction rule: pool_step.induct)
  case (pushed s i job)
  then show ?case by (simp add: jobs_ok_def job_pushed)
next
  case (pops w s job rest)
  then show ?case
    using held_update [of w "st_workers s" "Took job"] job_taken [of w "st_queues s" job rest] by (simp add: jobs_ok_def pool_fields)
next
  case (steals w i s rest job)
  then show ?case
    using held_update [of w "st_workers s" "Took job"] job_taken [of i "st_queues s" job rest] by (simp add: jobs_ok_def pool_fields)
next
  case (takes w job s)
  then show ?case using held_update [of w "st_workers s" "Run job"] by (simp add: jobs_ok_def pool_fields)
next
  case (runs w job s)
  then show ?case using held_update [of w "st_workers s" Own] by (simp add: jobs_ok_def pool_fields)
next
  case (panics w job s)
  then show ?case using held_update [of w "st_workers s" Died] by (simp add: jobs_ok_def pool_fields)
next
  case (notified s n w)
  then show ?case using held_update [of w "st_workers s" Woken] by (simp add: jobs_ok_def pool_fields)
qed (simp_all add: jobs_ok_def pool_fields, (metis held_update held.simps(3-) mset.simps(1) add.right_neutral)+)

lemma held_count: "number uncounted_take ws \<le> length (concat (map held ws))"
proof (induction ws)
  case (Cons pc ws)
  then show ?case by (cases pc) (simp_all add: number_def)
qed (simp add: number_def)

lemma jobs_bound: "jobs_ok s \<Longrightarrow> queued_jobs s + number uncounted_take (st_workers s) \<le> length (st_spawned s)"
proof -
  assume "jobs_ok s"
  from arg_cong [OF this [unfolded jobs_ok_def], of size]
  have "length (st_spawned s) = queued_jobs s + length (concat (map held (st_workers s))) + length (st_finished s)" by simp
  moreover have "number uncounted_take (st_workers s) \<le> length (concat (map held (st_workers s)))" by (rule held_count)
  ultimately show ?thesis by linarith
qed

text \<open>A counter at zero means that no job is queued, except those that are not counted yet.\<close>

lemma counter_zero:
  assumes "jobs_ok s" "counter_ok s" "length (st_spawned s) \<le> usize_max" "st_pending s = 0"
  shows "queued_jobs s + number uncounted_take (st_workers s) = st_uncounted s"
proof -
  have "queued_jobs s + number uncounted_take (st_workers s) \<le> usize_max" using jobs_bound [OF assms(1)] assms(3) by simp
  moreover have "st_uncounted s \<le> usize_max" using assms(2,3) by (simp add: counter_ok_def)
  ultimately show ?thesis using assms(2,4) by (simp add: counter_ok_def)
qed

lemma wrap_up: "(p + Suc u) mod (usize_max + 1) = n mod (usize_max + 1) \<Longrightarrow> (wrapping_add p 1 + u) mod (usize_max + 1) = n mod (usize_max + 1)"
  by (simp add: wrapping_add_def mod_add_left_eq)

lemma wrap_down:
  assumes "(p + u) mod (usize_max + 1) = Suc n mod (usize_max + 1)"
  shows "(wrapping_sub p 1 + u) mod (usize_max + 1) = n mod (usize_max + 1)"
proof -
  let ?M = "usize_max + 1"
  have "(wrapping_sub p 1 + u) mod ?M = (p + usize_max + u) mod ?M" by (simp add: wrapping_sub_def mod_add_left_eq)
  also have "p + usize_max + u = (p + u) + usize_max" by simp
  also have "((p + u) + usize_max) mod ?M = (Suc n + usize_max) mod ?M" using assms by (metis mod_add_left_eq)
  also have "Suc n + usize_max = n + ?M" by simp
  also have "(n + ?M) mod ?M = n mod ?M" by (rule mod_add_self2)
  finally show ?thesis .
qed

lemma wrap_same: "a mod (usize_max + 1) = b mod (usize_max + 1) \<Longrightarrow> Suc a mod (usize_max + 1) = Suc b mod (usize_max + 1)"
  by (metis mod_Suc_eq)

text \<open>The measures after a step: jobs in the queues, and workers of a kind.\<close>

lemma queued_update:
  assumes "i < length qs"
  shows "length (concat (qs[i := qs ! i @ [job]])) = Suc (length (concat qs))"
    and "qs ! i = job # rest \<Longrightarrow> length (concat qs) = Suc (length (concat (qs[i := rest])))"
    and "qs ! i = rest @ [job] \<Longrightarrow> length (concat qs) = Suc (length (concat (qs[i := rest])))"
  using length_concat_update [OF assms, of "qs ! i @ [job]"] length_concat_update [OF assms, of rest] by simp_all

lemma number_at:
  assumes "w < length ws" and "ws ! w = old"
  shows "P old = P new \<Longrightarrow> number P (ws[w := new]) = number P ws"
    and "\<not> P old \<Longrightarrow> P new \<Longrightarrow> number P (ws[w := new]) = Suc (number P ws)"
    and "P old \<Longrightarrow> \<not> P new \<Longrightarrow> number P ws = Suc (number P (ws[w := new]))"
  using number_update [OF assms(1), of P new] assms(2) by simp_all

lemma in_update: "x \<in> set (ws[w := y]) \<Longrightarrow> x \<noteq> y \<Longrightarrow> x \<in> set ws"
  using set_update_subset_insert [of ws w y] by blast

lemma counter_step:
  assumes "pool_step s t" and "counter_ok s"
  shows "counter_ok t"
  using assms
proof (induction rule: pool_step.induct)
  case (pushed s i job)
  then have "(st_pending s + st_uncounted s) mod (usize_max + 1) = (queued_jobs s + number uncounted_take (st_workers s)) mod (usize_max + 1)"
    by (simp add: counter_ok_def)
  from wrap_same [OF this] show ?case
    using pushed queued_update(1) [of i "st_queues s" job] by (simp add: counter_ok_def del: length_concat)
next
  case (counted s n)
  then show ?case using wrap_up [of "st_pending s" n] by (simp add: counter_ok_def)
next
  case (pops w s job rest)
  then show ?case
    using queued_update(2) [of w "st_queues s" job rest] number_at(2) [of w "st_workers s" Own uncounted_take "Took job"]
    by (simp add: counter_ok_def pool_fields del: length_concat)
next
  case (steals w i s rest job)
  then show ?case
    using queued_update(3) [of i "st_queues s" rest job] number_at(2) [of w "st_workers s" "Scan i" uncounted_take "Took job"]
    by (simp add: counter_ok_def pool_fields del: length_concat)
next
  case (takes w job s)
  then show ?case
    using wrap_down [of "st_pending s" "st_uncounted s"] number_at(3) [of w "st_workers s" "Took job" uncounted_take "Run job"]
    by (simp add: counter_ok_def pool_fields del: length_concat)
next
  case (drops s)
  then show ?case by (simp add: counter_ok_def wake_all_number)
qed (simp_all add: counter_ok_def pool_fields number_at(1))

lemma spawned_step: "pool_step s t \<Longrightarrow> length (st_spawned s) \<le> length (st_spawned t)"
  by (induction rule: pool_step.induct) (simp_all add: pool_fields)

definition pool_base :: "'j pool_state \<Rightarrow> bool" where
  "pool_base s \<longleftrightarrow> length (st_spawned s) \<le> usize_max \<and> jobs_ok s \<and> counter_ok s"

lemma base_zero: "pool_base s \<Longrightarrow> st_pending s = 0 \<Longrightarrow> queued_jobs s \<le> st_uncounted s"
  using counter_zero [of s] by (simp add: pool_base_def del: length_concat)

lemma exit_step:
  assumes "pool_step s t" and "exit_ok s" and "pool_base s"
  shows "exit_ok t"
  using assms
proof (induction rule: pool_step.induct)
  case (pops w s job rest)
  then show ?case using queued_update(2) [of w "st_queues s" job rest] by (auto simp: exit_ok_def pool_fields simp del: length_concat dest: in_update)
next
  case (steals w i s rest job)
  then show ?case using queued_update(3) [of i "st_queues s" rest job] by (auto simp: exit_ok_def pool_fields simp del: length_concat dest: in_update)
next
  case (returns w s)
  then show ?case using base_zero [of s] by (auto simp: exit_ok_def pool_fields simp del: length_concat)
next
  case (woken_returns w s)
  then show ?case using base_zero [of s] by (auto simp: exit_ok_def pool_fields simp del: length_concat)
next
  case (drops s)
  then show ?case by (auto simp: exit_ok_def wake_all_set)
qed (auto simp: exit_ok_def pool_fields simp del: length_concat dest: in_update)

lemma wake_move:
  assumes "wake_ok s" and "w < length (st_workers s)" and "pc \<noteq> Waiting" and "seeking (st_workers s ! w) \<longrightarrow> seeking pc"
  shows "Waiting \<in> set ((st_workers s)[w := pc]) \<longrightarrow>
    queued_jobs s \<le> number seeking ((st_workers s)[w := pc]) + st_uncounted s + st_unsignalled s"
proof
  assume "Waiting \<in> set ((st_workers s)[w := pc])"
  then have "Waiting \<in> set (st_workers s)" using in_update assms(3) by metis
  then have "queued_jobs s \<le> number seeking (st_workers s) + st_uncounted s + st_unsignalled s" using assms(1) by (simp add: wake_ok_def del: length_concat)
  moreover have "number seeking (st_workers s) \<le> number seeking ((st_workers s)[w := pc])"
    using number_update [OF assms(2), of seeking pc] assms(4) by (auto split: if_splits)
  ultimately show "queued_jobs s \<le> number seeking ((st_workers s)[w := pc]) + st_uncounted s + st_unsignalled s" by linarith
qed

lemma wake_take:
  assumes "wake_ok s" and "w < length (st_workers s)" "seeking (st_workers s ! w)" and "queued_jobs s = Suc n"
  shows "Waiting \<in> set ((st_workers s)[w := Took job]) \<longrightarrow>
    n \<le> number seeking ((st_workers s)[w := Took job]) + st_uncounted s + st_unsignalled s"
proof
  assume "Waiting \<in> set ((st_workers s)[w := Took job])"
  then have "Waiting \<in> set (st_workers s)" using in_update by fastforce
  then have "Suc n \<le> number seeking (st_workers s) + st_uncounted s + st_unsignalled s" using assms(1,4) by (simp add: wake_ok_def del: length_concat)
  moreover have "number seeking (st_workers s) = Suc (number seeking ((st_workers s)[w := Took job]))"
    using assms(2,3) by (intro number_at(3)) simp_all
  ultimately show "n \<le> number seeking ((st_workers s)[w := Took job]) + st_uncounted s + st_unsignalled s" by linarith
qed

lemma wake_step:
  assumes "pool_step s t" and "wake_ok s" and "pool_base s"
  shows "wake_ok t"
  using assms
proof (induction rule: pool_step.induct)
  case (pushed s i job)
  then show ?case using queued_update(1) [of i "st_queues s" job] by (auto simp: wake_ok_def simp del: length_concat)
next
  case (counted s n)
  then show ?case by (auto simp: wake_ok_def simp del: length_concat)
next
  case (notified s n w)
  then have "Waiting \<in> set (st_workers s)" by (metis at_pc_def nth_mem)
  then have "queued_jobs s \<le> number seeking (st_workers s) + st_uncounted s + Suc n" using notified by (simp add: wake_ok_def del: length_concat)
  moreover have "number seeking ((st_workers s)[w := Woken]) = Suc (number seeking (st_workers s))"
    using notified number_at(2) [of w "st_workers s" Waiting seeking Woken] by (simp add: at_pc_def)
  ultimately show ?case by (simp add: wake_ok_def pool_fields del: length_concat)
next
  case (pops w s job rest)
  have "queued_jobs s = Suc (length (concat ((st_queues s)[w := rest])))" using pops by (intro queued_update(2))
  then show ?case using pops wake_take [of s w _ job] by (simp add: wake_ok_def pool_fields del: length_concat)
next
  case (steals w i s rest job)
  have "queued_jobs s = Suc (length (concat ((st_queues s)[i := rest])))" using steals by (intro queued_update(3))
  then show ?case using steals wake_take [of s w _ job] by (simp add: wake_ok_def pool_fields del: length_concat)
next
  case (waits w s)
  then show ?case using base_zero [of s] by (simp add: wake_ok_def pool_fields del: length_concat)
next
  case (returns w s)
  then show ?case using base_zero [of s] by (simp add: wake_ok_def pool_fields del: length_concat)
next
  case (woken_returns w s)
  then show ?case using base_zero [of s] by (simp add: wake_ok_def pool_fields del: length_concat)
next
  case (own_empty w s)
  then show ?case using wake_move [of s w "Scan 0"] by (simp add: wake_ok_def pool_fields del: length_concat)
next
  case (scans w i s)
  then show ?case using wake_move [of s w "Scan (Suc i)"] by (simp add: wake_ok_def pool_fields del: length_concat)
next
  case (takes w job s)
  then show ?case using wake_move [of s w "Run job"] by (simp add: wake_ok_def pool_fields del: length_concat)
next
  case (runs w job s)
  then show ?case using wake_move [of s w Own] by (simp add: wake_ok_def pool_fields del: length_concat)
next
  case (panics w job s)
  then show ?case using wake_move [of s w Died] by (simp add: wake_ok_def pool_fields del: length_concat)
next
  case (rechecks w s)
  then show ?case using wake_move [of s w Recheck] by (simp add: wake_ok_def pool_fields del: length_concat)
next
  case (loops w s)
  then show ?case using wake_move [of s w Own] by (simp add: wake_ok_def pool_fields del: length_concat)
next
  case (spurious w s)
  then show ?case using wake_move [of s w Woken] by (simp add: wake_ok_def pool_fields del: length_concat)
next
  case (woken_loops w s)
  then show ?case using wake_move [of s w Own] by (simp add: wake_ok_def pool_fields del: length_concat)
next
  case (drops s)
  then show ?case by (simp add: wake_ok_def wake_all_set)
qed (simp add: wake_ok_def)

definition pool_inv :: "'j pool_state \<Rightarrow> bool" where
  "pool_inv s \<longleftrightarrow> (length (st_spawned s) \<le> usize_max \<longrightarrow> jobs_ok s \<and> counter_ok s \<and> wake_ok s \<and> exit_ok s)"

lemma pool_step_inv: "pool_inv s \<Longrightarrow> pool_step s t \<Longrightarrow> pool_inv t"
  unfolding pool_inv_def
  using spawned_step jobs_step counter_step wake_step exit_step pool_base_def order_trans by metis

interpretation pool_system: invariant_system pool_step pool_inv
  by unfold_locales (rule pool_step_inv)

lemma pool_start_inv: "pool_inv (pool_start threads)"
  by (simp add: pool_inv_def pool_start_def jobs_ok_def counter_ok_def wake_ok_def exit_ok_def number_def)

section \<open>The functions are steps\<close>

text \<open>The shared part of a state, and that the functions of a single caller are the steps of a worker or of a
  spawning thread one after the other.\<close>

definition shared_of :: "'j pool_state \<Rightarrow> 'j Shared" where
  "shared_of s = \<lparr> sh_queues = st_queues s, sh_pending = st_pending s, sh_shutdown = st_shutdown s \<rparr>"

lemma try_pop_steps:
  assumes "try_pop w (shared_of s) = (Some job, sh)" and "at_pc w Own s" and "w < length (st_queues s)"
  shows "\<exists>t. pool_step\<^sup>*\<^sup>* s t \<and> at_pc w (Run job) t \<and> shared_of t = sh"
proof -
  obtain rest where q: "st_queues s ! w = job # rest"
    and sh: "sh = (shared_of s)\<lparr> sh_queues := (st_queues s)[w := rest], sh_pending := wrapping_sub (st_pending s) 1 \<rparr>"
    using assms(1) by (auto simp: try_pop_def shared_of_def split: list.splits)
  let ?s1 = "set_worker w (Took job) (s\<lparr> st_queues := (st_queues s)[w := rest] \<rparr>)"
  have "pool_step s ?s1" using assms(2,3) q by (rule pops)
  moreover have "pool_step ?s1 (set_worker w (Run job) (?s1\<lparr> st_pending := wrapping_sub (st_pending ?s1) 1 \<rparr>))"
    using assms(2) by (intro takes) (simp add: pool_fields)
  ultimately have "pool_step\<^sup>*\<^sup>* s (set_worker w (Run job) (?s1\<lparr> st_pending := wrapping_sub (st_pending ?s1) 1 \<rparr>))" by (meson r_into_rtranclp rtranclp_trans)
  moreover have "at_pc w (Run job) (set_worker w (Run job) (?s1\<lparr> st_pending := wrapping_sub (st_pending ?s1) 1 \<rparr>))"
    using assms(2) by (simp add: pool_fields)
  ultimately show ?thesis using sh by (intro exI conjI) (auto simp: shared_of_def set_worker_def)
qed

lemma scan_shortest_ok:
  assumes "target < index" "\<forall>q \<in> set queues. length q < usize_max" "index = length before" "shortest = length (before ! target)" "\<forall>q \<in> set before. shortest \<le> length q"
  shows "scan_shortest queues index target shortest < length (before @ queues) \<and>
    (\<forall>q \<in> set (before @ queues). length ((before @ queues) ! scan_shortest queues index target shortest) \<le> length q)"
  using assms
proof (induction queues arbitrary: index target shortest before)
  case Nil
  then show ?case by (simp add: nth_append)
next
  case (Cons queue queues)
  show ?case
  proof (cases "length queue < shortest")
    case True
    then show ?thesis using Cons.IH [of index "Suc index" "before @ [queue]" "length queue"] Cons.prems by fastforce
  next
    case False
    then show ?thesis using Cons.IH [of target "Suc index" "before @ [queue]" shortest] Cons.prems by (fastforce simp: nth_append)
  qed
qed

lemma push_target_shortest:
  assumes "queues \<noteq> []" and "\<forall>q \<in> set queues. length q < usize_max"
  shows "push_target queues < length queues \<and> (\<forall>q \<in> set queues. length (queues ! push_target queues) \<le> length q)"
proof -
  obtain queue rest where q: "queues = queue # rest" using assms(1) by (cases queues) auto
  then have "push_target queues = scan_shortest rest 1 0 (length queue)" using assms(2) by (simp add: push_target_def)
  then show ?thesis using scan_shortest_ok [of 0 1 rest "[queue]" "length queue"] assms(2) q by simp
qed

section \<open>Properties\<close>

text \<open>C20. The pool loses no job, whatever the threads do and however many jobs panic: every spawned job is in a queue, in the
  hands of one worker or finished, and none is there twice; a worker returns only after the queues have been
  emptied, so when all workers have ended and one of them regularly, every job is finished; and no
  wake-up is lost: while a job is queued and no spawn is under way, some worker will still look at the queues
  if one waits at all.\<close>

theorem pool_runs_jobs:
  assumes "pool_step\<^sup>*\<^sup>* (pool_start threads) s" and "length (st_spawned s) \<le> usize_max"
  shows "mset (st_spawned s) = mset (concat (st_queues s)) + mset (concat (map held (st_workers s))) + mset (st_finished s) \<and>
    (Exited \<in> set (st_workers s) \<and> set (st_workers s) \<subseteq> {Exited, Died} \<longrightarrow> mset (st_finished s) = mset (st_spawned s)) \<and>
    (Waiting \<in> set (st_workers s) \<and> concat (st_queues s) \<noteq> [] \<and> st_uncounted s = 0 \<and> st_unsignalled s = 0 \<longrightarrow>
      (\<exists>pc \<in> set (st_workers s). seeking pc))"
proof (intro conjI impI)
  have inv: "jobs_ok s" "wake_ok s" "exit_ok s"
    using pool_system.reachable [OF assms(1) pool_start_inv] assms(2) by (simp_all add: pool_inv_def)
  then show jobs: "mset (st_spawned s) = mset (concat (st_queues s)) + mset (concat (map held (st_workers s))) + mset (st_finished s)"
    by (simp only: jobs_ok_def)
  show "mset (st_finished s) = mset (st_spawned s)" if ended: "Exited \<in> set (st_workers s) \<and> set (st_workers s) \<subseteq> {Exited, Died}"
  proof -
    have "concat (st_queues s) = []" using ended inv(3) unfolding exit_ok_def by blast
    moreover have "held pc = []" if "pc \<in> set (st_workers s)" for pc using that ended by (cases pc) auto
    then have "concat (map held (st_workers s)) = []" by simp
    ultimately show ?thesis using jobs by simp
  qed
  assume w: "Waiting \<in> set (st_workers s) \<and> concat (st_queues s) \<noteq> [] \<and> st_uncounted s = 0 \<and> st_unsignalled s = 0"
  then have "0 < queued_jobs s" unfolding length_greater_0_conv by blast
  moreover have "queued_jobs s \<le> number seeking (st_workers s)" using w inv(2) by (simp add: wake_ok_def del: length_concat)
  ultimately have "filter seeking (st_workers s) \<noteq> []" unfolding number_def by auto
  then show "\<exists>pc \<in> set (st_workers s). seeking pc" by (auto simp: filter_empty_conv)
qed

text \<open>A run of two workers and one job in which dropping the pool does not end.\<close>

definition hung :: "'j \<Rightarrow> 'j pool_state" where
  "hung job = \<lparr> st_queues = [[], []], st_pending = 0, st_shutdown = True, st_uncounted = 0, st_unsignalled = 0,
    st_workers = [Waiting, Exited], st_spawned = [job], st_finished = [job] \<rparr>"

definition pool_at :: "'j list \<Rightarrow> usize \<Rightarrow> bool \<Rightarrow> nat \<Rightarrow> nat \<Rightarrow> 'j pool_worker list \<Rightarrow> 'j list \<Rightarrow> 'j list \<Rightarrow> 'j pool_state" where
  "pool_at queue pending shutdown uncounted unsignalled workers spawned finished =
    \<lparr> st_queues = [queue, []], st_pending = pending, st_shutdown = shutdown, st_uncounted = uncounted, st_unsignalled = unsignalled,
      st_workers = workers, st_spawned = spawned, st_finished = finished \<rparr>"

lemmas pool_at_eval = pool_at_def pool_fields lock_free_def wrapping_add_def wrapping_sub_def usize_max_def

lemma hung_reachable: "pool_step\<^sup>*\<^sup>* (pool_start 2) (hung job)"
proof -
  let ?step = "pool_step :: 'a pool_state \<Rightarrow> _"
  have "?step (pool_start 2) (pool_at [] 0 False 0 0 [Scan 0, Own] [] [])"
    using own_empty [of 0 "pool_start 2"] by (simp add: pool_start_def pool_at_eval numeral_2_eq_2)
  moreover have "?step (pool_at [] 0 False 0 0 [Scan 0, Own] [] []) (pool_at [] 0 False 0 0 [Scan 1, Own] [] [])"
    using scans [of 0 0 "pool_at [] 0 False 0 0 [Scan 0, Own] [] []"] by (simp add: pool_at_eval)
  moreover have "?step (pool_at [] 0 False 0 0 [Scan 1, Own] [] []) (pool_at [] 0 False 0 0 [Scan 2, Own] [] [])"
    using scans [of 0 1 "pool_at [] 0 False 0 0 [Scan 1, Own] [] []"] by (simp add: pool_at_eval numeral_2_eq_2)
  moreover have "?step (pool_at [] 0 False 0 0 [Scan 2, Own] [] []) (pool_at [job] 0 False 1 0 [Scan 2, Own] [job] [])"
    using pushed [of "pool_at [] 0 False 0 0 [Scan 2, Own] [] []" 0 job] by (simp add: pool_at_eval)
  moreover have "?step (pool_at [job] 0 False 1 0 [Scan 2, Own] [job] []) (pool_at [job] 1 False 0 1 [Scan 2, Own] [job] [])"
    using counted [of "pool_at [job] 0 False 1 0 [Scan 2, Own] [job] []" 0] by (simp add: pool_at_eval)
  moreover have "?step (pool_at [job] 1 False 0 1 [Scan 2, Own] [job] []) (pool_at [job] 1 False 0 0 [Scan 2, Own] [job] [])"
    using notified_none [of "pool_at [job] 1 False 0 1 [Scan 2, Own] [job] []" 0] by (simp add: pool_at_eval)
  moreover have "?step (pool_at [job] 1 False 0 0 [Scan 2, Own] [job] []) (pool_at [job] 1 True 0 0 [Scan 2, Own] [job] [])"
    using drops [of "pool_at [job] 1 False 0 0 [Scan 2, Own] [job] []"] by (simp add: pool_at_eval wake_all_def)
  moreover have "?step (pool_at [job] 1 True 0 0 [Scan 2, Own] [job] []) (pool_at [job] 1 True 0 0 [Recheck, Own] [job] [])"
    using rechecks [of 0 "pool_at [job] 1 True 0 0 [Scan 2, Own] [job] []"] by (simp add: pool_at_eval numeral_2_eq_2)
  moreover have "?step (pool_at [job] 1 True 0 0 [Recheck, Own] [job] []) (pool_at [job] 1 True 0 0 [Recheck, Scan 0] [job] [])"
    using own_empty [of 1 "pool_at [job] 1 True 0 0 [Recheck, Own] [job] []"] by (simp add: pool_at_eval)
  moreover have "?step (pool_at [job] 1 True 0 0 [Recheck, Scan 0] [job] []) (pool_at [] 1 True 0 0 [Recheck, Took job] [job] [])"
    using steals [of 1 0 "pool_at [job] 1 True 0 0 [Recheck, Scan 0] [job] []" "[]" job] by (simp add: pool_at_eval)
  moreover have "?step (pool_at [] 1 True 0 0 [Recheck, Took job] [job] []) (pool_at [] 0 True 0 0 [Recheck, Run job] [job] [])"
    using takes [of 1 job "pool_at [] 1 True 0 0 [Recheck, Took job] [job] []"] by (simp add: pool_at_eval)
  moreover have "?step (pool_at [] 0 True 0 0 [Recheck, Run job] [job] []) (pool_at [] 0 True 0 0 [Waiting, Run job] [job] [])"
    using waits [of 0 "pool_at [] 0 True 0 0 [Recheck, Run job] [job] []"] by (simp add: pool_at_eval)
  moreover have "?step (pool_at [] 0 True 0 0 [Waiting, Run job] [job] []) (pool_at [] 0 True 0 0 [Waiting, Own] [job] [job])"
    using runs [of 1 job "pool_at [] 0 True 0 0 [Waiting, Run job] [job] []"] by (simp add: pool_at_eval)
  moreover have "?step (pool_at [] 0 True 0 0 [Waiting, Own] [job] [job]) (pool_at [] 0 True 0 0 [Waiting, Scan 0] [job] [job])"
    using own_empty [of 1 "pool_at [] 0 True 0 0 [Waiting, Own] [job] [job]"] by (simp add: pool_at_eval)
  moreover have "?step (pool_at [] 0 True 0 0 [Waiting, Scan 0] [job] [job]) (pool_at [] 0 True 0 0 [Waiting, Scan 1] [job] [job])"
    using scans [of 1 0 "pool_at [] 0 True 0 0 [Waiting, Scan 0] [job] [job]"] by (simp add: pool_at_eval)
  moreover have "?step (pool_at [] 0 True 0 0 [Waiting, Scan 1] [job] [job]) (pool_at [] 0 True 0 0 [Waiting, Scan 2] [job] [job])"
    using scans [of 1 1 "pool_at [] 0 True 0 0 [Waiting, Scan 1] [job] [job]"] by (simp add: pool_at_eval numeral_2_eq_2)
  moreover have "?step (pool_at [] 0 True 0 0 [Waiting, Scan 2] [job] [job]) (hung job)"
    using returns [of 1 "pool_at [] 0 True 0 0 [Waiting, Scan 2] [job] [job]"] by (simp add: pool_at_eval numeral_2_eq_2 hung_def)
  ultimately show ?thesis by (meson converse_rtranclp_into_rtranclp rtranclp.rtrancl_refl)
qed

text \<open>C36. Dropping the pool can hang.  A worker that is about to wait reads the counter twice; if the last job is taken between
  the two reads after the pool was dropped, the first read keeps it from returning and the second lets it wait, and
  nobody is left to signal.  So a state is reachable in which all jobs are finished, one worker waits, the others have returned,
  and the only step is a wake-up without a reason; the drop joins the waiting worker.\<close>

theorem pool_drop_hangs:
  "\<exists>s. pool_step\<^sup>*\<^sup>* (pool_start 2) s \<and> st_shutdown s \<and> st_finished s = st_spawned s \<and> st_workers s = [Waiting, Exited] \<and>
    {t. pool_step s t} \<subseteq> {set_worker 0 Woken s}"
proof (intro exI conjI subsetI)
  show "pool_step\<^sup>*\<^sup>* (pool_start 2) (hung job)" for job :: 'a by (rule hung_reachable)
  fix t :: "'a pool_state" and job
  assume "t \<in> {t. pool_step (hung job) t}"
  then have "pool_step (hung job) t" by simp
  then show "t \<in> {set_worker 0 Woken (hung job)}"
    by (cases rule: pool_step.cases) (auto simp: hung_def at_pc_def less_Suc_eq numeral_2_eq_2)
qed (simp_all add: hung_def)

theorem pool_runs_jobs_witness: "mset (st_spawned (hung (7 :: nat))) = {#7#} \<and> mset (concat (map held (st_workers (hung (7 :: nat))))) = {#}"
  using pool_runs_jobs [OF hung_reachable, of 7] by (simp add: hung_def usize_max_def)

end
