(* ===== verification/RuntimeTypes.thy ===== *)
theory RuntimeTypes
  imports GraphTypes Tensors ProcessPolicy
begin

text \<open>
  The data of \<open>dg-runtime\<close>: its errors (\<open>error.rs\<close>), tensor metadata (\<open>tensor_info.rs\<close>), the static and probed capabilities of
  backends (\<open>capabilities.rs\<close>), runtime options and model sources (\<open>option.rs\<close>), and the registry of backends
  (\<open>backend.rs\<close>).  The files a model is read from are a parameter.  A duration is a number of nanoseconds.
\<close>

section \<open>Errors and tensor metadata\<close>

datatype BackendKind = MockKind | OpenVINO | Rknn | TensorRt | Sophon

datatype runtime_error =
  RCore core_error
| RInvalidOption string
| RUnsupportedBackend BackendKind
| RUnsupportedBackendName string
| RUnsupportedPrecision data_type
| RUnsupportedDevice DeviceKind
| RUnsupportedDeployment DeployMode
| RUnsupportedModelSource string
| RBackendUnavailable string
| RBackend string
| RCapabilityUnsupported string
| RIo string
| RSequenceExhausted

type_synonym 'a runtime_result = "runtime_error + 'a"

record TensorInfo =
  inf_name :: "string option"
  inf_shape :: shape
  inf_dtype :: data_type
  inf_layout :: "DataFormat option"
  inf_device :: DeviceKind
  inf_quant :: quantization
  inf_strides :: "strides option"
  inf_size_with_stride :: "usize option"

definition tensor_info_new :: "shape \<Rightarrow> data_type \<Rightarrow> TensorInfo" where
  "tensor_info_new s dtype = \<lparr> inf_name = None, inf_shape = s, inf_dtype = dtype, inf_layout = None, inf_device = Cpu,
    inf_quant = quantization_none, inf_strides = None, inf_size_with_stride = None \<rparr>"

definition info_with_name :: "string \<Rightarrow> TensorInfo \<Rightarrow> TensorInfo" where
  "info_with_name v info = info\<lparr> inf_name := Some v \<rparr>"

definition info_with_layout :: "DataFormat \<Rightarrow> TensorInfo \<Rightarrow> TensorInfo" where
  "info_with_layout v info = info\<lparr> inf_layout := Some v \<rparr>"

definition info_with_device :: "DeviceKind \<Rightarrow> TensorInfo \<Rightarrow> TensorInfo" where
  "info_with_device v info = info\<lparr> inf_device := v \<rparr>"

definition info_with_shape :: "shape \<Rightarrow> TensorInfo \<Rightarrow> TensorInfo" where
  "info_with_shape v info = info\<lparr> inf_shape := v \<rparr>"

definition info_with_quantization :: "quantization \<Rightarrow> TensorInfo \<Rightarrow> TensorInfo" where
  "info_with_quantization v info = info\<lparr> inf_quant := v \<rparr>"

definition info_with_strides :: "strides \<Rightarrow> TensorInfo \<Rightarrow> TensorInfo" where
  "info_with_strides v info = info\<lparr> inf_strides := Some v \<rparr>"

definition info_with_size_with_stride :: "usize \<Rightarrow> TensorInfo \<Rightarrow> TensorInfo" where
  "info_with_size_with_stride v info = info\<lparr> inf_size_with_stride := Some v \<rparr>"

definition is_quantized :: "TensorInfo \<Rightarrow> bool" where
  "is_quantized info \<longleftrightarrow> q_scheme (inf_quant info) \<noteq> NoneScheme"

definition info_tensor_desc :: "TensorInfo \<Rightarrow> DeviceKind \<Rightarrow> tensor_desc" where
  "info_tensor_desc info device =
    (let desc = tensor_desc_new (inf_shape info) (inf_dtype info) (case inf_layout info of Some layout \<Rightarrow> layout | None \<Rightarrow> Auto_format) device;
         desc1 = (case inf_name info of Some name \<Rightarrow> with_name desc name | None \<Rightarrow> desc);
         desc2 = (case inf_strides info of Some strides \<Rightarrow> with_strides desc1 strides | None \<Rightarrow> desc1)
     in desc2\<lparr> td_quant := inf_quant info \<rparr>)"

definition info_allocate :: "device \<Rightarrow> TensorInfo \<Rightarrow> world \<Rightarrow> tensor core_result \<times> world" where
  "info_allocate dev info w = tensor_allocate dev (info_tensor_desc info (dev_kind dev)) w"

section \<open>Capabilities\<close>

record BackendCapabilities =
  bk_kind :: BackendKind
  bk_precisions :: "data_type list"
  bk_devices :: "DeviceKind list"
  bk_deploy_modes :: "DeployMode list"

datatype ExecutionMode = NativeAsync | BoundedSync | NonInterruptible

record RuntimeDeviceCapabilities =
  rd_kind :: DeviceKind
  rd_logical_id :: string
  rd_runtime_name :: string
  rd_async_capable :: bool
  rd_external_memory :: bool
  rd_remote_tensor :: bool
  rd_execution_mode :: ExecutionMode
  rd_verified_precisions :: "data_type list"

record RuntimeCapabilities =
  rc_sdk_version :: "string option"
  rc_devices :: "DeviceKind list"
  rc_device_count :: usize
  rc_precisions :: "data_type list"
  rc_deploy_modes :: "DeployMode list"
  rc_execution_mode :: ExecutionMode
  rc_device_records :: "RuntimeDeviceCapabilities list"

definition capabilities_from_static :: "BackendCapabilities \<Rightarrow> RuntimeCapabilities" where
  "capabilities_from_static caps = \<lparr> rc_sdk_version = None, rc_devices = bk_devices caps, rc_device_count = length (bk_devices caps),
    rc_precisions = bk_precisions caps, rc_deploy_modes = bk_deploy_modes caps, rc_execution_mode = NonInterruptible, rc_device_records = [] \<rparr>"

definition device_capabilities :: "DeviceKind \<Rightarrow> string option \<Rightarrow> RuntimeCapabilities \<Rightarrow> RuntimeDeviceCapabilities option" where
  "device_capabilities kind logical_id caps =
    find (\<lambda>r. rd_kind r = kind \<and> (case logical_id of None \<Rightarrow> True | Some i \<Rightarrow> rd_logical_id r = i)) (rc_device_records caps)"

definition caps_supports_precision :: "data_type \<Rightarrow> RuntimeCapabilities \<Rightarrow> bool" where
  "caps_supports_precision precision caps \<longleftrightarrow> precision \<in> set (rc_precisions caps)"

definition caps_supports_device :: "DeviceKind \<Rightarrow> RuntimeCapabilities \<Rightarrow> bool" where
  "caps_supports_device device caps \<longleftrightarrow> device \<in> set (rc_devices caps)"

definition caps_supports_deployment :: "DeployMode \<Rightarrow> RuntimeCapabilities \<Rightarrow> bool" where
  "caps_supports_deployment mode caps \<longleftrightarrow> mode \<in> set (rc_deploy_modes caps)"

abbreviation "dt_U32 \<equiv> data_type_new Uint 32 1"
abbreviation "dt_U64 \<equiv> data_type_new Uint 64 1"
abbreviation "dt_I32 \<equiv> data_type_new Int_code 32 1"
abbreviation "dt_I64 \<equiv> data_type_new Int_code 64 1"

definition MOCK_PRECISIONS :: "data_type list" where
  "MOCK_PRECISIONS = [dt_F32, dt_F16, dt_BF16, dt_F8, dt_F4, dt_U8, dt_U16, dt_U32, dt_U64, dt_I4, dt_I8, dt_I16, dt_I32, dt_I64]"

definition OPENVINO_PRECISIONS :: "data_type list" where
  "OPENVINO_PRECISIONS = [dt_F32, dt_F16, dt_BF16, dt_U8, dt_I8, dt_U16, dt_I16, dt_U32, dt_I32, dt_U64, dt_I64]"

definition RKNN_PRECISIONS :: "data_type list" where
  "RKNN_PRECISIONS = [dt_F32, dt_F16, dt_U8, dt_I8, dt_U16, dt_I16, dt_U32, dt_I32]"

definition TENSORRT_PRECISIONS :: "data_type list" where
  "TENSORRT_PRECISIONS = [dt_F32, dt_F16, dt_U8, dt_I8, dt_U32, dt_I32]"

definition SOPHON_PRECISIONS :: "data_type list" where
  "SOPHON_PRECISIONS = [dt_F32, dt_F16, dt_U8, dt_I8, dt_U32, dt_I32]"

fun backend_capabilities :: "BackendKind \<Rightarrow> BackendCapabilities option" where
  "backend_capabilities MockKind = Some \<lparr> bk_kind = MockKind, bk_precisions = MOCK_PRECISIONS,
    bk_devices = [Cpu, IntelGpu, IntelNpu, CudaGpu, RknnNpu, SophonTpu], bk_deploy_modes = [SoC, Host_mode] \<rparr>"
| "backend_capabilities OpenVINO = Some \<lparr> bk_kind = OpenVINO, bk_precisions = OPENVINO_PRECISIONS,
    bk_devices = [Cpu, IntelGpu, IntelNpu], bk_deploy_modes = [Host_mode] \<rparr>"
| "backend_capabilities Rknn = Some \<lparr> bk_kind = Rknn, bk_precisions = RKNN_PRECISIONS, bk_devices = [RknnNpu], bk_deploy_modes = [SoC] \<rparr>"
| "backend_capabilities TensorRt = Some \<lparr> bk_kind = TensorRt, bk_precisions = TENSORRT_PRECISIONS, bk_devices = [CudaGpu], bk_deploy_modes = [Host_mode] \<rparr>"
| "backend_capabilities Sophon = Some \<lparr> bk_kind = Sophon, bk_precisions = SOPHON_PRECISIONS, bk_devices = [SophonTpu], bk_deploy_modes = [SoC, Host_mode] \<rparr>"

definition supports_precision :: "BackendKind \<Rightarrow> data_type \<Rightarrow> bool" where
  "supports_precision kind precision = (case backend_capabilities kind of Some caps \<Rightarrow> precision \<in> set (bk_precisions caps) | None \<Rightarrow> False)"

definition supports_device :: "BackendKind \<Rightarrow> DeviceKind \<Rightarrow> bool" where
  "supports_device kind device = (case backend_capabilities kind of Some caps \<Rightarrow> device \<in> set (bk_devices caps) | None \<Rightarrow> False)"

definition supports_deployment :: "BackendKind \<Rightarrow> DeployMode \<Rightarrow> bool" where
  "supports_deployment kind mode = (case backend_capabilities kind of Some caps \<Rightarrow> mode \<in> set (bk_deploy_modes caps) | None \<Rightarrow> False)"

section \<open>Options\<close>

datatype ModelSource = ModelFile string | ModelBytes bytes

text \<open>Files: opening one, the length its metadata gives, and reading at most a number of bytes of it.\<close>

record model_files =
  mf_open :: "string \<Rightarrow> string + unit"
  mf_len :: "string \<Rightarrow> string + nat"
  mf_read :: "string \<Rightarrow> nat \<Rightarrow> string + bytes"

definition load_bounded :: "(nat \<Rightarrow> bool) \<Rightarrow> model_files \<Rightarrow> ModelSource \<Rightarrow> usize \<Rightarrow> bytes runtime_result" where
  "load_bounded can_reserve files source max_bytes =
    (case source of
       ModelBytes data \<Rightarrow>
         if length data > max_bytes
         then Inl (RCore (Config (''model bytes '' @ show_nat (length data) @ '' exceeds limit '' @ show_nat max_bytes)))
         else Inr data
     | ModelFile path \<Rightarrow>
         and_then (map_err RIo (mf_open files path)) (\<lambda>_.
         let limit = saturating_add max_bytes 1;
             reserve = (case mf_len files path of Inr len \<Rightarrow> min len (saturating_add max_bytes 1) | Inl _ \<Rightarrow> saturating_add max_bytes 1) in
         and_then (fail_if (\<not> can_reserve reserve) (RIo (''failed to allocate model read buffer for '' @ show_nat max_bytes @ ''+1 bytes''))) (\<lambda>_.
         and_then (map_err RIo (mf_read files path limit)) (\<lambda>buf.
         if length buf > max_bytes then Inl (RCore (Config (''model file '' @ path @ '' exceeds limit '' @ show_nat max_bytes)))
         else Inr buf))))"

datatype ModelFormat = AutoFormat | Onnx | Engine | RknnModel | Bmodel | OpenvinoIr

definition model_format_from_source :: "ModelSource \<Rightarrow> ModelFormat" where
  "model_format_from_source source =
    (case source of
       ModelBytes _ \<Rightarrow> AutoFormat
     | ModelFile path \<Rightarrow>
         (case path_extension path of
            None \<Rightarrow> AutoFormat
          | Some extension \<Rightarrow>
              let ext = to_lowercase extension
              in if ext = ''onnx'' then Onnx
                 else if ext = ''engine'' \<or> ext = ''plan'' then Engine
                 else if ext = ''rknn'' then RknnModel
                 else if ext = ''bmodel'' then Bmodel
                 else if ext = ''xml'' then OpenvinoIr
                 else AutoFormat))"

datatype StreamKind = CpuStream

record ExternalStreamHandle =
  es_kind :: StreamKind
  es_raw :: nat

record MockOptions =
  mo_input_infos :: "TensorInfo list"
  mo_output_infos :: "TensorInfo list"
  mo_echo_inputs :: bool
  mo_fill_value :: "8 word"
  mo_delay :: "nat option"
  mo_delays :: "nat list"
  mo_max_in_flight :: usize

record OpenVINOOptions =
  ov_device :: string
  ov_max_in_flight :: usize

definition openvino_default :: OpenVINOOptions where
  "openvino_default = \<lparr> ov_device = ''CPU'', ov_max_in_flight = 2 \<rparr>"

record RknnOptions =
  rk_core_mask :: "32 word option"
  rk_enable_zero_copy :: bool
  rk_dynamic_shape :: bool

definition rknn_default :: RknnOptions where
  "rknn_default = \<lparr> rk_core_mask = None, rk_enable_zero_copy = False, rk_dynamic_shape = False \<rparr>"

record TensorRtOptions =
  tr_device_id :: "32 word option"
  tr_workspace_size_mb :: usize
  tr_enable_fp16 :: bool
  tr_enable_int8 :: bool

definition tensorrt_default :: TensorRtOptions where
  "tensorrt_default = \<lparr> tr_device_id = None, tr_workspace_size_mb = 1024, tr_enable_fp16 = False, tr_enable_int8 = False \<rparr>"

record SophonOptions =
  sp_deploy_mode :: DeployMode
  sp_device_id :: "32 word option"
  sp_core_mask :: "32 word option"

definition sophon_default :: SophonOptions where
  "sophon_default = \<lparr> sp_deploy_mode = Host_mode, sp_device_id = None, sp_core_mask = None \<rparr>"

datatype BackendOptions =
  MockOpts MockOptions | OpenVINOOpts OpenVINOOptions | RknnOpts RknnOptions | TensorRtOpts TensorRtOptions | SophonOpts SophonOptions

definition as_mock :: "BackendOptions \<Rightarrow> MockOptions option" where
  "as_mock opts = (case opts of MockOpts options \<Rightarrow> Some options | _ \<Rightarrow> None)"

definition as_openvino :: "BackendOptions \<Rightarrow> OpenVINOOptions option" where
  "as_openvino opts = (case opts of OpenVINOOpts options \<Rightarrow> Some options | _ \<Rightarrow> None)"

definition as_rknn :: "BackendOptions \<Rightarrow> RknnOptions option" where
  "as_rknn opts = (case opts of RknnOpts options \<Rightarrow> Some options | _ \<Rightarrow> None)"

definition as_tensorrt :: "BackendOptions \<Rightarrow> TensorRtOptions option" where
  "as_tensorrt opts = (case opts of TensorRtOpts options \<Rightarrow> Some options | _ \<Rightarrow> None)"

definition as_sophon :: "BackendOptions \<Rightarrow> SophonOptions option" where
  "as_sophon opts = (case opts of SophonOpts options \<Rightarrow> Some options | _ \<Rightarrow> None)"

record RuntimeOption =
  ro_backend :: BackendKind
  ro_model_source :: ModelSource
  ro_precision :: "data_type option"
  ro_device :: "DeviceKind option"
  ro_deploy_mode :: "DeployMode option"
  ro_core_mask :: "32 word option"
  ro_device_id :: "16 word option"
  ro_core :: CoreSelection
  ro_cpu_threads :: "usize option"
  ro_model_format :: ModelFormat
  ro_zero_copy :: bool
  ro_dynamic_shape :: bool
  ro_external_stream :: "ExternalStreamHandle option"
  ro_backend_options :: BackendOptions
  ro_process_policy :: ProcessRuntimePolicy

definition runtime_option_new :: "BackendKind \<Rightarrow> ModelSource \<Rightarrow> BackendOptions \<Rightarrow> RuntimeOption" where
  "runtime_option_new backend source opts = \<lparr> ro_backend = backend, ro_model_source = source, ro_precision = None, ro_device = None,
    ro_deploy_mode = None, ro_core_mask = None, ro_device_id = None, ro_core = Auto, ro_cpu_threads = None, ro_model_format = AutoFormat,
    ro_zero_copy = False, ro_dynamic_shape = False, ro_external_stream = None, ro_backend_options = opts, ro_process_policy = process_policy_default \<rparr>"

definition option_with_precision :: "data_type \<Rightarrow> RuntimeOption \<Rightarrow> RuntimeOption" where
  "option_with_precision v option = option\<lparr> ro_precision := Some v \<rparr>"

definition option_with_device :: "DeviceKind \<Rightarrow> RuntimeOption \<Rightarrow> RuntimeOption" where
  "option_with_device v option = option\<lparr> ro_device := Some v \<rparr>"

definition option_with_deploy_mode :: "DeployMode \<Rightarrow> RuntimeOption \<Rightarrow> RuntimeOption" where
  "option_with_deploy_mode v option = option\<lparr> ro_deploy_mode := Some v \<rparr>"

definition option_with_core_mask :: "(32 word) \<Rightarrow> RuntimeOption \<Rightarrow> RuntimeOption" where
  "option_with_core_mask v option = option\<lparr> ro_core_mask := Some v \<rparr>"

definition option_with_device_id :: "(16 word) \<Rightarrow> RuntimeOption \<Rightarrow> RuntimeOption" where
  "option_with_device_id v option = option\<lparr> ro_device_id := Some v \<rparr>"

definition option_with_core :: "CoreSelection \<Rightarrow> RuntimeOption \<Rightarrow> RuntimeOption" where
  "option_with_core v option = option\<lparr> ro_core := v \<rparr>"

definition option_with_cpu_threads :: "usize \<Rightarrow> RuntimeOption \<Rightarrow> RuntimeOption" where
  "option_with_cpu_threads v option = option\<lparr> ro_cpu_threads := Some v \<rparr>"

definition option_with_model_format :: "ModelFormat \<Rightarrow> RuntimeOption \<Rightarrow> RuntimeOption" where
  "option_with_model_format v option = option\<lparr> ro_model_format := v \<rparr>"

definition option_with_zero_copy :: "bool \<Rightarrow> RuntimeOption \<Rightarrow> RuntimeOption" where
  "option_with_zero_copy v option = option\<lparr> ro_zero_copy := v \<rparr>"

definition option_with_dynamic_shape :: "bool \<Rightarrow> RuntimeOption \<Rightarrow> RuntimeOption" where
  "option_with_dynamic_shape v option = option\<lparr> ro_dynamic_shape := v \<rparr>"

definition option_with_external_stream :: "ExternalStreamHandle \<Rightarrow> RuntimeOption \<Rightarrow> RuntimeOption" where
  "option_with_external_stream v option = option\<lparr> ro_external_stream := Some v \<rparr>"

definition option_with_process_policy :: "ProcessRuntimePolicy \<Rightarrow> RuntimeOption \<Rightarrow> RuntimeOption" where
  "option_with_process_policy v option = option\<lparr> ro_process_policy := v \<rparr>"

record BackendConfig =
  bc_model :: "string option"
  bc_precision :: "data_type option"
  bc_device :: "DeviceKind option"
  bc_deploy_mode :: "DeployMode option"
  bc_core_mask :: "32 word option"
  bc_options :: Value

definition backend_config_new :: "string option \<Rightarrow> Value \<Rightarrow> BackendConfig" where
  "backend_config_new model options = \<lparr> bc_model = model, bc_precision = None, bc_device = None, bc_deploy_mode = None, bc_core_mask = None, bc_options = options \<rparr>"

definition config_with_precision :: "data_type \<Rightarrow> BackendConfig \<Rightarrow> BackendConfig" where
  "config_with_precision v config = config\<lparr> bc_precision := Some v \<rparr>"

definition config_with_device :: "DeviceKind \<Rightarrow> BackendConfig \<Rightarrow> BackendConfig" where
  "config_with_device v config = config\<lparr> bc_device := Some v \<rparr>"

definition config_with_deploy_mode :: "DeployMode \<Rightarrow> BackendConfig \<Rightarrow> BackendConfig" where
  "config_with_deploy_mode v config = config\<lparr> bc_deploy_mode := Some v \<rparr>"

definition config_with_core_mask :: "(32 word) \<Rightarrow> BackendConfig \<Rightarrow> BackendConfig" where
  "config_with_core_mask v config = config\<lparr> bc_core_mask := Some v \<rparr>"

definition config_with_options :: "Value \<Rightarrow> BackendConfig \<Rightarrow> BackendConfig" where
  "config_with_options v config = config\<lparr> bc_options := v \<rparr>"

text \<open>Deserializing the options is an argument.\<close>

definition parse_options :: "(Value \<Rightarrow> string + 'o) \<Rightarrow> string \<Rightarrow> BackendConfig \<Rightarrow> 'o runtime_result" where
  "parse_options from_value backend config =
    (let value = (if bc_options config = Null then Object [] else bc_options config)
     in map_err (\<lambda>err. RInvalidOption (backend @ '' options: '' @ err)) (from_value value))"

definition require_model_file :: "string \<Rightarrow> BackendConfig \<Rightarrow> ModelSource runtime_result" where
  "require_model_file backend config = ok_or (map_option ModelFile (bc_model config)) (RInvalidOption (backend @ '' requires a model file path''))"

definition into_runtime_option :: "BackendKind \<Rightarrow> ModelSource \<Rightarrow> BackendOptions \<Rightarrow> BackendConfig \<Rightarrow> RuntimeOption" where
  "into_runtime_option backend source opts config = \<lparr> ro_backend = backend, ro_model_source = source, ro_precision = bc_precision config,
    ro_device = bc_device config, ro_deploy_mode = bc_deploy_mode config, ro_core_mask = bc_core_mask config, ro_device_id = None, ro_core = Auto,
    ro_cpu_threads = None, ro_model_format = AutoFormat, ro_zero_copy = False, ro_dynamic_shape = False, ro_external_stream = None,
    ro_backend_options = opts, ro_process_policy = process_policy_default \<rparr>"

section \<open>The registry of backends\<close>

record 'b BackendDescriptor =
  be_kind :: BackendKind
  be_name :: string
  be_create :: 'b
  be_configure :: "BackendConfig \<Rightarrow> RuntimeOption runtime_result"

definition create_backend :: "'b BackendDescriptor list \<Rightarrow> BackendKind \<Rightarrow> 'b runtime_result" where
  "create_backend registered kind = ok_or (map_option be_create (find (\<lambda>d. be_kind d = kind) registered)) (RUnsupportedBackend kind)"

definition configure_backend :: "'b BackendDescriptor list \<Rightarrow> string \<Rightarrow> BackendConfig \<Rightarrow> RuntimeOption runtime_result" where
  "configure_backend registered name config =
    and_then (ok_or (find (\<lambda>d. be_name d = name) registered) (RUnsupportedBackendName name)) (\<lambda>d. be_configure d config)"

section \<open>Lemmas\<close>

text \<open>A model is loaded only within its limit; a file larger than the limit is refused, whatever its metadata says.\<close>

lemma load_bounded_within: "load_bounded can_reserve files source max_bytes = Inr data \<Longrightarrow> length data \<le> max_bytes"
  by (auto simp: load_bounded_def Let_def result_simps split: ModelSource.splits if_splits)

lemma load_bounded_oversize:
  assumes "\<And>n. mf_read files path n = Inr (take n content)" and "max_bytes < length content" and "max_bytes < usize_max"
  shows "\<not> is_ok (load_bounded can_reserve files (ModelFile path) max_bytes)"
proof -
  have "length (take (saturating_add max_bytes 1) content) > max_bytes" using assms(2,3) by (simp add: saturating_add_def)
  then show ?thesis using assms(1) by (auto simp: load_bounded_def Let_def is_ok_iff result_simps)
qed

end
