(* ===== verification/RuntimeMetrics.thy ===== *)
theory RuntimeMetrics
  imports Prelude "HOL-Library.Multiset"
begin

text \<open>
  The counters of an inference backend, \<open>dg-runtime/src/metrics.rs\<close>: saturating counters with overflow and
  underflow diagnostics, and the histogram of latencies with its percentiles.  A counter is an atomic word; an
  update is the compare-and-exchange that succeeds, and a retried one counts its overflow once here.
\<close>

section \<open>Counters\<close>

definition saturating_fetch_add :: "nat \<Rightarrow> nat \<Rightarrow> nat \<Rightarrow> nat \<times> nat" where
  "saturating_fetch_add current value overflow =
    (case checked_add current value of
       Some v \<Rightarrow> (v, overflow)
     | None \<Rightarrow> (usize_max, wrapping_add overflow 1))"

definition checked_fetch_sub :: "nat \<Rightarrow> nat \<Rightarrow> nat \<Rightarrow> nat \<times> nat" where
  "checked_fetch_sub current value underflow =
    (case checked_sub current value of
       Some v \<Rightarrow> (v, underflow)
     | None \<Rightarrow> (0, wrapping_add underflow 1))"

definition BUCKET_COUNT :: nat where
  "BUCKET_COUNT = 16"

definition BUCKET_BOUNDS_NS :: "nat list" where
  "BUCKET_BOUNDS_NS = [100000, 250000, 500000, 1000000, 2500000, 5000000, 10000000, 25000000, 50000000, 100000000,
    250000000, 500000000, 1000000000, 2500000000, 5000000000, usize_max]"

section \<open>Latencies\<close>

record LatencyHistogram =
  lh_buckets :: "nat list"
  lh_sum :: nat
  lh_max :: nat
  lh_count :: nat

definition histogram_default :: LatencyHistogram where
  "histogram_default = \<lparr> lh_buckets = replicate BUCKET_COUNT 0, lh_sum = 0, lh_max = 0, lh_count = 0 \<rparr>"

text \<open>\<open>Iterator::position\<close>.\<close>

fun position :: "('a \<Rightarrow> bool) \<Rightarrow> 'a list \<Rightarrow> nat option" where
  "position P [] = None"
| "position P (x # xs) = (if P x then Some 0 else map_option Suc (position P xs))"

definition bucket_index :: "nat \<Rightarrow> nat" where
  "bucket_index ns = (case position (\<lambda>bound. ns \<le> bound) BUCKET_BOUNDS_NS of Some i \<Rightarrow> i | None \<Rightarrow> BUCKET_COUNT - 1)"

definition histogram_record :: "nat \<Rightarrow> LatencyHistogram \<times> nat \<Rightarrow> LatencyHistogram \<times> nat" where
  "histogram_record ns s =
    (case s of (h, overflow) \<Rightarrow>
     let (counted, overflow1) = saturating_fetch_add (lh_count h) 1 overflow;
         (sum, overflow2) = saturating_fetch_add (lh_sum h) ns overflow1;
         bucket = bucket_index ns;
         (filled, overflow3) = saturating_fetch_add (lh_buckets h ! bucket) 1 overflow2
     in (h\<lparr> lh_count := counted, lh_sum := sum, lh_max := max (lh_max h) ns, lh_buckets := (lh_buckets h)[bucket := filled] \<rparr>, overflow3))"

record LatencyPercentiles =
  lp_count :: nat
  lp_sum_ns :: nat
  lp_max_ns :: nat
  lp_p50_ns :: nat
  lp_p95_ns :: nat
  lp_p99_ns :: nat
  lp_buckets :: "nat list"
  lp_cumulative :: "nat list"

definition percentiles_default :: LatencyPercentiles where
  "percentiles_default = \<lparr> lp_count = 0, lp_sum_ns = 0, lp_max_ns = 0, lp_p50_ns = 0, lp_p95_ns = 0, lp_p99_ns = 0,
    lp_buckets = replicate BUCKET_COUNT 0, lp_cumulative = replicate BUCKET_COUNT 0 \<rparr>"

fun first_reaching :: "nat \<Rightarrow> nat list \<Rightarrow> nat list \<Rightarrow> nat" where
  "first_reaching target (c # cumulative) (bound # bounds) = (if c \<ge> target then bound else first_reaching target cumulative bounds)"
| "first_reaching target _ _ = last BUCKET_BOUNDS_NS"

definition percentile_from_histogram :: "nat list \<Rightarrow> nat \<Rightarrow> nat \<Rightarrow> nat" where
  "percentile_from_histogram cumulative samples percent =
    (let percent1 = min percent 100;
         target = saturating_add (saturating_mul samples percent1) 99 div 100
     in first_reaching (min (max target 1) samples) cumulative BUCKET_BOUNDS_NS)"

text \<open>The running sums of the buckets.\<close>

fun cumulate :: "nat \<Rightarrow> nat list \<Rightarrow> nat list" where
  "cumulate running [] = []"
| "cumulate running (value # values) = (let running1 = saturating_add running value in running1 # cumulate running1 values)"

definition histogram_snapshot :: "LatencyHistogram \<Rightarrow> LatencyPercentiles" where
  "histogram_snapshot h =
    (if lh_count h = 0 then percentiles_default
     else
       let cumulative = cumulate 0 (lh_buckets h)
       in \<lparr> lp_count = lh_count h, lp_sum_ns = lh_sum h, lp_max_ns = lh_max h,
            lp_p50_ns = percentile_from_histogram cumulative (lh_count h) 50,
            lp_p95_ns = percentile_from_histogram cumulative (lh_count h) 95,
            lp_p99_ns = percentile_from_histogram cumulative (lh_count h) 99,
            lp_buckets = lh_buckets h, lp_cumulative = cumulative \<rparr>)"

section \<open>The counters of a backend\<close>

record BackendMetrics =
  bm_submissions :: nat
  bm_in_flight :: nat
  bm_poll_pending :: nat
  bm_backend_errors :: nat
  bm_cancelled :: nat
  bm_queue_wait_ns :: nat
  bm_h2d_count :: nat
  bm_h2d_bytes :: nat
  bm_h2d_ns :: nat
  bm_d2h_count :: nat
  bm_d2h_bytes :: nat
  bm_d2h_ns :: nat
  bm_host_copy_count :: nat
  bm_host_copy_bytes :: nat
  bm_host_copy_ns :: nat
  bm_infer_latencies :: LatencyHistogram
  bm_overflow :: nat
  bm_underflow :: nat

definition backend_metrics_default :: BackendMetrics where
  "backend_metrics_default = \<lparr> bm_submissions = 0, bm_in_flight = 0, bm_poll_pending = 0, bm_backend_errors = 0, bm_cancelled = 0,
    bm_queue_wait_ns = 0, bm_h2d_count = 0, bm_h2d_bytes = 0, bm_h2d_ns = 0, bm_d2h_count = 0, bm_d2h_bytes = 0, bm_d2h_ns = 0,
    bm_host_copy_count = 0, bm_host_copy_bytes = 0, bm_host_copy_ns = 0, bm_infer_latencies = histogram_default,
    bm_overflow = 0, bm_underflow = 0 \<rparr>"

text \<open>\<open>BackendMetrics::saturating_add\<close> on the counter that \<open>get\<close> reads and \<open>set\<close> writes.\<close>

definition add_counter :: "(BackendMetrics \<Rightarrow> nat) \<Rightarrow> (nat \<Rightarrow> BackendMetrics \<Rightarrow> BackendMetrics) \<Rightarrow> nat \<Rightarrow> BackendMetrics \<Rightarrow> BackendMetrics" where
  "add_counter get put value m =
    (let (v, overflow) = saturating_fetch_add (get m) value (bm_overflow m)
     in put v (m\<lparr> bm_overflow := overflow \<rparr>))"

definition record_submission :: "BackendMetrics \<Rightarrow> BackendMetrics" where
  "record_submission m =
    add_counter bm_in_flight (\<lambda>v m. m\<lparr> bm_in_flight := v \<rparr>) 1
      (add_counter bm_submissions (\<lambda>v m. m\<lparr> bm_submissions := v \<rparr>) 1 m)"

definition record_poll_pending :: "BackendMetrics \<Rightarrow> BackendMetrics" where
  "record_poll_pending m = add_counter bm_poll_pending (\<lambda>v m. m\<lparr> bm_poll_pending := v \<rparr>) 1 m"

definition record_backend_error :: "BackendMetrics \<Rightarrow> BackendMetrics" where
  "record_backend_error m = add_counter bm_backend_errors (\<lambda>v m. m\<lparr> bm_backend_errors := v \<rparr>) 1 m"

definition record_cancel :: "BackendMetrics \<Rightarrow> BackendMetrics" where
  "record_cancel m = add_counter bm_cancelled (\<lambda>v m. m\<lparr> bm_cancelled := v \<rparr>) 1 m"

definition record_queue_wait_ns :: "nat \<Rightarrow> BackendMetrics \<Rightarrow> BackendMetrics" where
  "record_queue_wait_ns ns m = add_counter bm_queue_wait_ns (\<lambda>v m. m\<lparr> bm_queue_wait_ns := v \<rparr>) ns m"

definition record_infer_latency_ns :: "nat \<Rightarrow> BackendMetrics \<Rightarrow> BackendMetrics" where
  "record_infer_latency_ns ns m =
    (let (h, overflow) = histogram_record ns (bm_infer_latencies m, bm_overflow m)
     in m\<lparr> bm_infer_latencies := h, bm_overflow := overflow \<rparr>)"

definition record_h2d :: "nat \<Rightarrow> nat \<Rightarrow> BackendMetrics \<Rightarrow> BackendMetrics" where
  "record_h2d bytes ns m =
    add_counter bm_h2d_ns (\<lambda>v m. m\<lparr> bm_h2d_ns := v \<rparr>) ns
      (add_counter bm_h2d_bytes (\<lambda>v m. m\<lparr> bm_h2d_bytes := v \<rparr>) bytes
        (add_counter bm_h2d_count (\<lambda>v m. m\<lparr> bm_h2d_count := v \<rparr>) 1 m))"

definition record_d2h :: "nat \<Rightarrow> nat \<Rightarrow> BackendMetrics \<Rightarrow> BackendMetrics" where
  "record_d2h bytes ns m =
    add_counter bm_d2h_ns (\<lambda>v m. m\<lparr> bm_d2h_ns := v \<rparr>) ns
      (add_counter bm_d2h_bytes (\<lambda>v m. m\<lparr> bm_d2h_bytes := v \<rparr>) bytes
        (add_counter bm_d2h_count (\<lambda>v m. m\<lparr> bm_d2h_count := v \<rparr>) 1 m))"

definition record_host_copy :: "nat \<Rightarrow> nat \<Rightarrow> BackendMetrics \<Rightarrow> BackendMetrics" where
  "record_host_copy bytes ns m =
    add_counter bm_host_copy_ns (\<lambda>v m. m\<lparr> bm_host_copy_ns := v \<rparr>) ns
      (add_counter bm_host_copy_bytes (\<lambda>v m. m\<lparr> bm_host_copy_bytes := v \<rparr>) bytes
        (add_counter bm_host_copy_count (\<lambda>v m. m\<lparr> bm_host_copy_count := v \<rparr>) 1 m))"

definition finish_in_flight :: "BackendMetrics \<Rightarrow> BackendMetrics" where
  "finish_in_flight m =
    (let (v, underflow) = checked_fetch_sub (bm_in_flight m) 1 (bm_underflow m)
     in m\<lparr> bm_in_flight := v, bm_underflow := underflow \<rparr>)"

record BackendMetricsSnapshot =
  bs_submissions :: nat
  bs_in_flight :: nat
  bs_poll_pending :: nat
  bs_backend_errors :: nat
  bs_cancelled :: nat
  bs_queue_wait_ns :: nat
  bs_h2d_count :: nat
  bs_h2d_bytes :: nat
  bs_h2d_ns :: nat
  bs_d2h_count :: nat
  bs_d2h_bytes :: nat
  bs_d2h_ns :: nat
  bs_host_copy_count :: nat
  bs_host_copy_bytes :: nat
  bs_host_copy_ns :: nat
  bs_overflow_count :: nat
  bs_underflow_count :: nat
  bs_infer_latencies :: LatencyPercentiles

definition backend_metrics_snapshot :: "BackendMetrics \<Rightarrow> BackendMetricsSnapshot" where
  "backend_metrics_snapshot m =
    \<lparr> bs_submissions = bm_submissions m, bs_in_flight = bm_in_flight m, bs_poll_pending = bm_poll_pending m, bs_backend_errors = bm_backend_errors m,
      bs_cancelled = bm_cancelled m, bs_queue_wait_ns = bm_queue_wait_ns m, bs_h2d_count = bm_h2d_count m, bs_h2d_bytes = bm_h2d_bytes m,
      bs_h2d_ns = bm_h2d_ns m, bs_d2h_count = bm_d2h_count m, bs_d2h_bytes = bm_d2h_bytes m, bs_d2h_ns = bm_d2h_ns m,
      bs_host_copy_count = bm_host_copy_count m, bs_host_copy_bytes = bm_host_copy_bytes m, bs_host_copy_ns = bm_host_copy_ns m, bs_overflow_count = bm_overflow m,
      bs_underflow_count = bm_underflow m, bs_infer_latencies = histogram_snapshot (bm_infer_latencies m) \<rparr>"

section \<open>Samples in the histogram\<close>

lemma number_simps [simp]:
  "number P [] = 0" "number P (x # xs) = (if P x then Suc (number P xs) else number P xs)" "number P (xs @ ys) = number P xs + number P ys"
  by (simp_all add: number_def)

lemma number_le: "number P xs \<le> length xs"
  by (simp add: number_def)

lemma bounds_facts: "length BUCKET_BOUNDS_NS = BUCKET_COUNT" "sorted BUCKET_BOUNDS_NS" "last BUCKET_BOUNDS_NS = usize_max" "usize_max \<in> set BUCKET_BOUNDS_NS"
  by (simp_all add: BUCKET_BOUNDS_NS_def BUCKET_COUNT_def usize_max_def)

lemma position_first:
  assumes "\<exists>x \<in> set xs. P x"
  shows "\<exists>i. position P xs = Some i \<and> i < length xs \<and> P (xs ! i) \<and> (\<forall>k < i. \<not> P (xs ! k))"
  using assms
proof (induction xs)
  case (Cons x xs)
  show ?case
  proof (cases "P x")
    case False
    then obtain i where i: "position P xs = Some i" "i < length xs" "P (xs ! i)" "\<forall>k < i. \<not> P (xs ! k)" using Cons by auto
    then have "\<not> P ((x # xs) ! k)" if "k < Suc i" for k using that False by (cases k) auto
    then show ?thesis using i False by simp
  qed simp
qed simp

lemma bucket_index_le:
  assumes "ns \<le> usize_max" and "i < BUCKET_COUNT"
  shows "bucket_index ns \<le> i \<longleftrightarrow> ns \<le> BUCKET_BOUNDS_NS ! i"
proof -
  have "\<exists>x \<in> set BUCKET_BOUNDS_NS. ns \<le> x" using assms(1) bounds_facts(4) by blast
  then obtain j where j: "bucket_index ns = j" "j < BUCKET_COUNT" "ns \<le> BUCKET_BOUNDS_NS ! j" "\<forall>k < j. \<not> ns \<le> BUCKET_BOUNDS_NS ! k"
    using position_first [of BUCKET_BOUNDS_NS "\<lambda>bound. ns \<le> bound"] bounds_facts(1) by (auto simp: bucket_index_def)
  show ?thesis
  proof
    assume "bucket_index ns \<le> i"
    then have "BUCKET_BOUNDS_NS ! j \<le> BUCKET_BOUNDS_NS ! i" using j(1) assms(2) bounds_facts(1,2) by (simp add: sorted_nth_mono)
    then show "ns \<le> BUCKET_BOUNDS_NS ! i" using j(3) by simp
  next
    assume "ns \<le> BUCKET_BOUNDS_NS ! i"
    then show "bucket_index ns \<le> i" using j(1,4) not_less by blast
  qed
qed

lemma last_bound: "BUCKET_BOUNDS_NS ! 15 = usize_max"
  by (simp add: BUCKET_BOUNDS_NS_def)

lemma bucket_index_less:
  assumes "ns \<le> usize_max"
  shows "bucket_index ns < BUCKET_COUNT"
proof -
  have "bucket_index ns \<le> 15" using assms by (subst bucket_index_le) (simp_all add: last_bound BUCKET_COUNT_def)
  then show ?thesis by (simp add: BUCKET_COUNT_def)
qed

definition histogram_of :: "nat list \<Rightarrow> LatencyHistogram \<times> nat" where
  "histogram_of samples = fold histogram_record samples (histogram_default, 0)"

text \<open>The buckets count the samples, one each; the number of samples does not overflow a counter.\<close>

lemma histogram_counts:
  assumes "length samples \<le> usize_max" and "\<forall>ns \<in> set samples. ns \<le> usize_max"
  shows "lh_count (fst (histogram_of samples)) = length samples \<and>
    lh_buckets (fst (histogram_of samples)) = map (\<lambda>i. number (\<lambda>ns. bucket_index ns = i) samples) [0..<BUCKET_COUNT] \<and>
    lh_max (fst (histogram_of samples)) = fold max samples 0"
  using assms
proof (induction samples rule: rev_induct)
  case Nil
  then show ?case by (simp add: histogram_of_def histogram_default_def map_replicate_const)
next
  case (snoc ns samples)
  obtain h overflow where h: "histogram_of samples = (h, overflow)" by fastforce
  have IH: "lh_count h = length samples" "lh_buckets h = map (\<lambda>i. number (\<lambda>ns. bucket_index ns = i) samples) [0..<BUCKET_COUNT]"
    "lh_max h = fold max samples 0" using snoc h by simp_all
  let ?b = "bucket_index ns"
  have b: "?b < BUCKET_COUNT" using snoc.prems(2) by (intro bucket_index_less) simp
  then have old: "lh_buckets h ! ?b = number (\<lambda>ns. bucket_index ns = ?b) samples" by (simp add: IH(2))
  then have "lh_buckets h ! ?b + 1 \<le> usize_max" using number_le [of _ samples] snoc.prems(1) by (metis Suc_eq_plus1 Suc_le_mono length_append_singleton order_trans)
  then have r: "lh_count (fst (histogram_record ns (h, overflow))) = Suc (length samples)"
      "lh_buckets (fst (histogram_record ns (h, overflow))) = (lh_buckets h)[?b := Suc (lh_buckets h ! ?b)]"
      "lh_max (fst (histogram_record ns (h, overflow))) = max (lh_max h) ns"
    using snoc.prems(1) by (simp_all add: histogram_record_def saturating_fetch_add_def Let_def IH(1) checked_add_def split: prod.splits)
  moreover have "(lh_buckets h)[?b := Suc (lh_buckets h ! ?b)] = map (\<lambda>i. number (\<lambda>ns. bucket_index ns = i) (samples @ [ns])) [0..<BUCKET_COUNT]"
    using b by (intro nth_equalityI) (auto simp: IH(2) nth_list_update)
  moreover have "histogram_of (samples @ [ns]) = histogram_record ns (h, overflow)" using h by (simp add: histogram_of_def)
  ultimately show ?case using r IH(3) by (simp add: max.commute)
qed

lemma cumulate_number:
  assumes "\<forall>i. f i = number (\<lambda>ns. g ns = i) samples" and "length samples \<le> usize_max"
    and "running = number (\<lambda>ns. g ns < k) samples"
  shows "cumulate running (map f [k..<k + n]) = map (\<lambda>i. number (\<lambda>ns. g ns \<le> i) samples) [k..<k + n]"
  using assms(3)
proof (induction n arbitrary: k running)
  case (Suc n)
  have "number (\<lambda>ns. g ns < k) samples + number (\<lambda>ns. g ns = k) samples = number (\<lambda>ns. g ns \<le> k) samples"
    by (induction samples) auto
  then have "saturating_add running (f k) = number (\<lambda>ns. g ns \<le> k) samples"
    using number_le [of "\<lambda>ns. g ns \<le> k" samples] assms Suc.prems by (simp add: saturating_add_def)
  moreover have "number (\<lambda>ns. g ns \<le> k) samples = number (\<lambda>ns. g ns < Suc k) samples" by (simp add: less_Suc_eq_le)
  ultimately show ?case using Suc.IH [of "number (\<lambda>ns. g ns \<le> k) samples" "Suc k"]
    by (simp add: upt_conv_Cons Let_def del: upt_Suc)
qed simp

text \<open>The nearest rank: a value has at least \<open>target\<close> samples below it or at it if and only if it is at least the sample of that rank.\<close>

lemma sorted_rank:
  fixes b :: nat
  assumes "sorted ys" and "target < length ys"
  shows "Suc target \<le> number (\<lambda>ns. ns \<le> b) ys \<longleftrightarrow> ys ! target \<le> b"
  using assms
proof (induction ys arbitrary: target)
  case (Cons y ys)
  show ?case
  proof (cases "y \<le> b")
    case True
    then show ?thesis using Cons by (cases target) auto
  next
    case False
    then have "\<forall>ns \<in> set (y # ys). \<not> ns \<le> b" using Cons.prems(1) by auto
    then have "number (\<lambda>ns. ns \<le> b) (y # ys) = 0" unfolding number_def by (simp add: filter_empty_conv)
    moreover have "\<not> (y # ys) ! target \<le> b" using \<open>\<forall>ns \<in> set (y # ys). \<not> ns \<le> b\<close> Cons.prems(2) nth_mem by blast
    ultimately show ?thesis by simp
  qed
qed simp

lemma rank_le:
  fixes b :: nat
  assumes "0 < target" and "target \<le> length samples"
  shows "target \<le> number (\<lambda>ns. ns \<le> b) samples \<longleftrightarrow> sort samples ! (target - 1) \<le> b"
proof -
  have "number (\<lambda>ns. ns \<le> b) samples = number (\<lambda>ns. ns \<le> b) (sort samples)" by (metis number_def mset_filter mset_sort size_mset)
  then show ?thesis using sorted_rank [of "sort samples" "target - 1" b] assms by simp
qed

text \<open>The scan returns the first bound that is not below a value.\<close>

lemma first_reaching_bound:
  assumes "\<forall>bound \<in> set bounds. target \<le> f bound \<longleftrightarrow> v \<le> bound" and "\<exists>bound \<in> set bounds. v \<le> bound"
  shows "\<exists>i. position (\<lambda>bound. v \<le> bound) bounds = Some i \<and> first_reaching target (map f bounds) bounds = bounds ! i"
  using assms
proof (induction bounds)
  case (Cons bound bounds)
  show ?case
  proof (cases "v \<le> bound")
    case False
    then obtain i where "position (\<lambda>bound. v \<le> bound) bounds = Some i" "first_reaching target (map f bounds) bounds = bounds ! i"
      using Cons by auto
    then show ?thesis using False Cons.prems(1) by simp
  qed (use Cons.prems(1) in simp)
qed simp

section \<open>Properties\<close>

text \<open>C21. The percentiles of the histogram are those of the recorded latencies.  After recording any latencies, the percentile
  computed from the sixteen counters is the bound of the bucket of the latency with the nearest rank among all that were
  recorded: the smallest bucket bound that is not below the latency at position \<open>\<lceil>p n / 100\<rceil>\<close> of the sorted list.\<close>

definition nearest_rank :: "nat \<Rightarrow> nat \<Rightarrow> nat" where
  "nearest_rank n percent = max 1 ((n * min percent 100 + 99) div 100)"

theorem percentile_exact:
  assumes "samples \<noteq> []" and "length samples * 100 + 99 \<le> usize_max" and "\<forall>ns \<in> set samples. ns \<le> usize_max"
    and hist: "histogram_of samples = (h, overflow)"
  shows "percentile_from_histogram (cumulate 0 (lh_buckets h)) (lh_count h) percent =
    BUCKET_BOUNDS_NS ! bucket_index (sort samples ! (nearest_rank (length samples) percent - 1))"
proof -
  let ?n = "length samples" and ?target = "nearest_rank (length samples) percent"
  have n: "0 < ?n" "?n \<le> usize_max" using assms(1,2) by simp_all
  have h: "lh_count h = ?n" "lh_buckets h = map (\<lambda>i. number (\<lambda>ns. bucket_index ns = i) samples) [0..<BUCKET_COUNT]"
    using histogram_counts [OF n(2) assms(3)] hist by simp_all
  have "number (\<lambda>ns. bucket_index ns \<le> i) samples = number (\<lambda>ns. ns \<le> BUCKET_BOUNDS_NS ! i) samples" if "i < BUCKET_COUNT" for i
    using assms(3) bucket_index_le [OF _ that] unfolding number_def by (metis (mono_tags, lifting) filter_cong)
  then have "cumulate 0 (lh_buckets h) = map (\<lambda>i. number (\<lambda>ns. ns \<le> BUCKET_BOUNDS_NS ! i) samples) [0..<BUCKET_COUNT]"
    using cumulate_number [of "\<lambda>i. number (\<lambda>ns. bucket_index ns = i) samples" bucket_index samples 0 0 BUCKET_COUNT] n(2) by (simp add: h(2) number_def)
  also have "\<dots> = map (\<lambda>b. number (\<lambda>ns. ns \<le> b) samples) BUCKET_BOUNDS_NS" using bounds_facts(1) by (intro nth_equalityI) simp_all
  finally have cumulative: "cumulate 0 (lh_buckets h) = map (\<lambda>b. number (\<lambda>ns. ns \<le> b) samples) BUCKET_BOUNDS_NS" .
  have "?n * min percent 100 \<le> ?n * 100" by simp
  then have small: "?n * min percent 100 + 99 \<le> usize_max" "(?n * min percent 100 + 99) div 100 \<le> ?n" using assms(2) by linarith+
  have target: "0 < ?target" "?target \<le> ?n" using small(2) n(1) by (simp_all add: nearest_rank_def Suc_le_eq)
  have "saturating_add (saturating_mul ?n (min percent 100)) 99 = ?n * min percent 100 + 99" using small(1) by (simp add: saturating_add_def saturating_mul_def)
  then have "percentile_from_histogram (cumulate 0 (lh_buckets h)) (lh_count h) percent =
      first_reaching ?target (map (\<lambda>b. number (\<lambda>ns. ns \<le> b) samples) BUCKET_BOUNDS_NS) BUCKET_BOUNDS_NS"
    using target(2) by (simp add: percentile_from_histogram_def Let_def h(1) cumulative nearest_rank_def max.commute min_absorb1)
  moreover let ?v = "sort samples ! (?target - 1)"
  have "?v \<in> set samples" using target nth_mem [of "?target - 1" "sort samples"] by simp
  then have "?v \<le> usize_max" using assms(3) by blast
  then have "\<exists>bound \<in> set BUCKET_BOUNDS_NS. ?v \<le> bound" using bounds_facts(4) by blast
  from first_reaching_bound [OF _ this, of ?target "\<lambda>b. number (\<lambda>ns. ns \<le> b) samples"] rank_le [OF target]
  have "first_reaching ?target (map (\<lambda>b. number (\<lambda>ns. ns \<le> b) samples) BUCKET_BOUNDS_NS) BUCKET_BOUNDS_NS = BUCKET_BOUNDS_NS ! bucket_index ?v"
    by (auto simp: bucket_index_def)
  ultimately show ?thesis by simp
qed

theorem percentile_exact_witness:
  "percentile_from_histogram (cumulate 0 (lh_buckets (fst (histogram_of [6000000000, 50000, 100001])))) (lh_count (fst (histogram_of [6000000000, 50000, 100001]))) 50 = 250000"
proof -
  let ?samples = "[6000000000, 50000, 100001 :: nat]"
  obtain h overflow where h: "histogram_of ?samples = (h, overflow)" by fastforce
  have "percentile_from_histogram (cumulate 0 (lh_buckets h)) (lh_count h) 50 =
      BUCKET_BOUNDS_NS ! bucket_index (sort ?samples ! (nearest_rank (length ?samples) 50 - 1))"
    by (rule percentile_exact [OF _ _ _ h]) (simp_all add: usize_max_def)
  then show ?thesis by (simp add: h nearest_rank_def bucket_index_def BUCKET_BOUNDS_NS_def)
qed

end
