(* ===== verification/Runtimes.thy ===== *)
theory Runtimes
  imports RuntimeTypes RuntimeMetrics "HOL-Library.Multiset"
begin

text \<open>
  The runtime around a backend, \<open>dg-runtime/src/runtime.rs\<close>, over the backend trait of \<open>backend.rs\<close>.  The trait is a record of
  operations over a backend state.  What a backend and its runtime share is an environment: the buffers, the counters behind
  the \<open>Arc\<close>, and the clock, a sequence of readings.  An operation that may not return is an option.
\<close>

section \<open>Backends\<close>

record env =
  env_store :: store
  env_metrics :: BackendMetrics
  env_clock :: "nat \<Rightarrow> nat"
  env_reads :: nat

text \<open>\<open>Instant::now\<close>, in nanoseconds: the next reading.\<close>

definition instant_now :: "env \<Rightarrow> nat \<times> env" where
  "instant_now e = (env_clock e (env_reads e), e\<lparr> env_reads := Suc (env_reads e) \<rparr>)"

definition with_metrics :: "(BackendMetrics \<Rightarrow> BackendMetrics) \<Rightarrow> env \<Rightarrow> env" where
  "with_metrics f e = e\<lparr> env_metrics := f (env_metrics e) \<rparr>"

text \<open>A vector of tensors goes out of scope, or is copied (\<open>to_vec\<close>).\<close>

definition drop_tensors :: "tensor list \<Rightarrow> env \<Rightarrow> env" where
  "drop_tensors ts e = e\<lparr> env_store := fold (\<lambda>t. drop_buffer (t_buffer t)) ts (env_store e) \<rparr>"

definition clone_tensors :: "tensor list \<Rightarrow> env \<Rightarrow> env" where
  "clone_tensors ts e = e\<lparr> env_store := fold (\<lambda>t st. snd (clone_buffer (t_buffer t) st)) ts (env_store e) \<rparr>"

datatype InferPoll = PollReady "tensor list" nat | PollPending | PollEndOfStream

record CancelReport =
  cr_requested :: nat
  cr_completed :: nat
  cr_abandoned :: nat
  cr_failed :: nat
  cr_unsupported :: nat

definition cancel_report_default :: CancelReport where
  "cancel_report_default = \<lparr> cr_requested = 0, cr_completed = 0, cr_abandoned = 0, cr_failed = 0, cr_unsupported = 0 \<rparr>"

text \<open>A stream argument is the number of its handle.\<close>

record 'b InferBackend =
  ib_kind :: "'b \<Rightarrow> BackendKind"
  ib_init :: "RuntimeOption \<Rightarrow> 'b \<Rightarrow> unit runtime_result \<times> 'b"
  ib_reshape :: "shape list \<Rightarrow> 'b \<Rightarrow> unit runtime_result \<times> 'b"
  ib_input_count :: "'b \<Rightarrow> usize"
  ib_output_count :: "'b \<Rightarrow> usize"
  ib_input_info :: "usize \<Rightarrow> 'b \<Rightarrow> TensorInfo runtime_result"
  ib_output_info :: "usize \<Rightarrow> 'b \<Rightarrow> TensorInfo runtime_result"
  ib_input_infos :: "'b \<Rightarrow> TensorInfo list"
  ib_output_infos :: "'b \<Rightarrow> TensorInfo list"
  ib_run :: "tensor list \<Rightarrow> 'b \<times> env \<Rightarrow> (tensor list runtime_result \<times> 'b \<times> env) option"
  ib_run_with_stream :: "tensor list \<Rightarrow> nat option \<Rightarrow> 'b \<times> env \<Rightarrow> (tensor list runtime_result \<times> 'b \<times> env) option"
  ib_is_async :: "'b \<Rightarrow> bool"
  ib_max_in_flight :: "'b \<Rightarrow> usize"
  ib_in_flight :: "'b \<Rightarrow> usize"
  ib_submit :: "tensor list \<Rightarrow> nat option \<Rightarrow> nat \<Rightarrow> 'b \<times> env \<Rightarrow> unit runtime_result \<times> 'b \<times> env"
  ib_poll :: "'b \<times> env \<Rightarrow> InferPoll runtime_result \<times> 'b \<times> env"
  ib_attach_metrics :: "'b \<Rightarrow> 'b"
  ib_cancel :: "'b \<times> env \<Rightarrow> CancelReport runtime_result \<times> 'b \<times> env"
  ib_probe_capabilities :: "'b \<Rightarrow> RuntimeCapabilities runtime_result"

text \<open>The bodies the trait gives to operations that a backend does not override; all others use them unchanged.\<close>

definition default_submit :: "tensor list \<Rightarrow> nat option \<Rightarrow> nat \<Rightarrow> 'b \<times> env \<Rightarrow> unit runtime_result \<times> 'b \<times> env" where
  "default_submit inputs stream sequence s = (Inl (RBackend ''backend does not support async submit''), s)"

definition default_poll :: "'b \<times> env \<Rightarrow> InferPoll runtime_result \<times> 'b \<times> env" where
  "default_poll s = (Inr PollPending, s)"

definition default_cancel :: "'b \<times> env \<Rightarrow> CancelReport runtime_result \<times> 'b \<times> env" where
  "default_cancel s = (Inr cancel_report_default, s)"

definition no_capabilities :: RuntimeCapabilities where
  "no_capabilities = \<lparr> rc_sdk_version = None, rc_devices = [], rc_device_count = 0, rc_precisions = [], rc_deploy_modes = [],
    rc_execution_mode = NonInterruptible, rc_device_records = [] \<rparr>"

definition default_probe :: "BackendKind \<Rightarrow> RuntimeCapabilities runtime_result" where
  "default_probe kind = Inr (case backend_capabilities kind of Some caps \<Rightarrow> capabilities_from_static caps | None \<Rightarrow> no_capabilities)"

section \<open>Checks of options\<close>

definition model_source_size :: "model_files \<Rightarrow> ModelSource \<Rightarrow> usize runtime_result" where
  "model_source_size files source =
    (case source of
       ModelFile path \<Rightarrow>
         and_then (map_err RIo (mf_len files path)) (\<lambda>len.
         if len \<le> usize_max then Inr len else Inl (RIo ''model file size exceeds usize''))
     | ModelBytes data \<Rightarrow> Inr (length data))"

definition ensure_model_source_fits :: "model_files \<Rightarrow> ModelSource \<Rightarrow> usize \<Rightarrow> unit runtime_result" where
  "ensure_model_source_fits files source max_bytes =
    (case source of
       ModelBytes data \<Rightarrow>
         fail_if (length data > max_bytes) (RCore (Config (''model bytes '' @ show_nat (length data) @ '' exceeds limit '' @ show_nat max_bytes)))
     | ModelFile path \<Rightarrow>
         (case mf_len files path of
            Inl _ \<Rightarrow> Inr ()
          | Inr len \<Rightarrow> fail_if (len > max_bytes) (RCore (Config (''model file '' @ path @ '' exceeds limit '' @ show_nat max_bytes)))))"

text \<open>\<open>if let Some(value) = option { if !supported { return Err(..) } }\<close>.\<close>

definition require_supported :: "'a option \<Rightarrow> ('a \<Rightarrow> bool) \<Rightarrow> ('a \<Rightarrow> runtime_error) \<Rightarrow> unit runtime_result" where
  "require_supported requested supported err =
    (case requested of None \<Rightarrow> Inr () | Some value \<Rightarrow> fail_if (\<not> supported value) (err value))"

definition validate_runtime_option :: "RuntimeOption \<Rightarrow> unit runtime_result" where
  "validate_runtime_option option = run_checks
    [require_supported (ro_precision option) (supports_precision (ro_backend option)) RUnsupportedPrecision,
     require_supported (ro_device option) (supports_device (ro_backend option)) RUnsupportedDevice,
     require_supported (ro_deploy_mode option) (supports_deployment (ro_backend option)) RUnsupportedDeployment]"

text \<open>The derived \<open>Debug\<close> texts of the values in a message; that of device records is an argument.\<close>

fun debug_backend_kind :: "BackendKind \<Rightarrow> string" where
  "debug_backend_kind MockKind = ''Mock''"
| "debug_backend_kind OpenVINO = ''OpenVINO''"
| "debug_backend_kind Rknn = ''Rknn''"
| "debug_backend_kind TensorRt = ''TensorRt''"
| "debug_backend_kind Sophon = ''Sophon''"

fun debug_deploy_mode :: "DeployMode \<Rightarrow> string" where
  "debug_deploy_mode SoC = ''SoC''"
| "debug_deploy_mode Host_mode = ''Host''"

fun debug_type_code :: "TypeCode \<Rightarrow> string" where
  "debug_type_code Uint = ''Uint''"
| "debug_type_code Int_code = ''Int''"
| "debug_type_code Float = ''Float''"
| "debug_type_code Bfloat = ''Bfloat''"
| "debug_type_code Float8 = ''Float8''"
| "debug_type_code Float4 = ''Float4''"
| "debug_type_code OpaqueHandle = ''OpaqueHandle''"

definition debug_data_type :: "data_type \<Rightarrow> string" where
  "debug_data_type d = ''DataType { code: '' @ debug_type_code (dt_code d) @ '', bits: '' @ show_nat (unat (dt_bits d)) @
    '', lanes: '' @ show_nat (unat (dt_lanes d)) @ '' }''"

definition debug_list :: "('a \<Rightarrow> string) \<Rightarrow> 'a list \<Rightarrow> string" where
  "debug_list debug xs = ''['' @ join '', '' (map debug xs) @ '']''"

definition describe_precision :: "data_type \<Rightarrow> string" where
  "describe_precision precision =
    (if precision = dt_F4 then ''F4''
     else if precision = dt_F8 then ''F8''
     else if precision = dt_F16 then ''F16''
     else if precision = dt_BF16 then ''BF16''
     else if precision = dt_F32 then ''F32''
     else if precision = dt_F64 then ''F64''
     else if precision = dt_U8 then ''U8''
     else if precision = dt_U16 then ''U16''
     else if precision = dt_I4 then ''I4''
     else if precision = dt_I8 then ''I8''
     else if precision = dt_I16 then ''I16''
     else debug_data_type precision)"

definition capability_context :: "(RuntimeDeviceCapabilities list \<Rightarrow> string) \<Rightarrow> BackendKind \<Rightarrow> RuntimeCapabilities \<Rightarrow> string" where
  "capability_context debug_records backend caps =
    ''backend='' @ debug_backend_kind backend @
    '', sdk_version='' @ (case rc_sdk_version caps of Some v \<Rightarrow> v | None \<Rightarrow> ''unknown'') @
    '', device_count='' @ show_nat (rc_device_count caps) @
    '', available_devices='' @ debug_list debug_device_kind (rc_devices caps) @
    '', available_precisions='' @ debug_list debug_data_type (rc_precisions caps) @
    '', available_deploy_modes='' @ debug_list debug_deploy_mode (rc_deploy_modes caps) @
    '', device_records='' @ debug_records (rc_device_records caps)"

definition validate_probed_capabilities ::
  "(RuntimeDeviceCapabilities list \<Rightarrow> string) \<Rightarrow> BackendKind \<Rightarrow> RuntimeOption \<Rightarrow> RuntimeCapabilities \<Rightarrow> unit runtime_result"
where
  "validate_probed_capabilities debug_records backend option caps =
    (let context = capability_context debug_records backend caps;
         unsupported = (\<lambda>what. RCapabilityUnsupported
           (''backend '' @ debug_backend_kind backend @ '' does not support requested '' @ what @ ''; '' @ context))
     in run_checks
       [require_supported (ro_precision option) (\<lambda>p. caps_supports_precision p caps) (\<lambda>p. unsupported (''precision '' @ describe_precision p)),
        require_supported (ro_device option) (\<lambda>d. caps_supports_device d caps) (\<lambda>d. unsupported (''device '' @ debug_device_kind d)),
        require_supported (ro_deploy_mode option) (\<lambda>m. caps_supports_deployment m caps) (\<lambda>m. unsupported (''deployment '' @ debug_deploy_mode m))])"

section \<open>The runtime\<close>

text \<open>The counters of a runtime are those of the environment: runtimes that share one handle live in one environment.\<close>

record 'b Runtime =
  rt_backend :: 'b
  rt_capabilities :: RuntimeCapabilities
  rt_next_sequence :: nat
  rt_sync_result :: "(nat \<times> tensor list) option"
  rt_max_in_flight :: usize
  rt_process_policy :: ProcessRuntimePolicy

definition new_with_metrics ::
  "'b InferBackend \<Rightarrow> (RuntimeDeviceCapabilities list \<Rightarrow> string) \<Rightarrow> model_files \<Rightarrow> 'b BackendDescriptor list \<Rightarrow> RuntimeOption \<Rightarrow>
    'b Runtime runtime_result"
where
  "new_with_metrics ops debug_records files registered option =
    and_then (validate_runtime_option option) (\<lambda>_.
    and_then (ensure_model_source_fits files (ro_model_source option) (max_model_bytes (pp_resource (ro_process_policy option)))) (\<lambda>_.
    and_then (create_backend registered (ro_backend option)) (\<lambda>created.
    case ib_init ops option (ib_attach_metrics ops created) of
      (Inl err, _) \<Rightarrow> Inl err
    | (Inr _, backend) \<Rightarrow>
        and_then (ib_probe_capabilities ops backend) (\<lambda>caps.
        and_then (validate_probed_capabilities debug_records (ro_backend option) option caps) (\<lambda>_.
        Inr \<lparr> rt_backend = backend, rt_capabilities = caps, rt_next_sequence = 0, rt_sync_result = None,
          rt_max_in_flight = max (ib_max_in_flight ops backend) 1, rt_process_policy = ro_process_policy option \<rparr>)))))"

text \<open>\<open>Runtime::new\<close> starts from fresh counters.\<close>

definition runtime_new ::
  "'b InferBackend \<Rightarrow> (RuntimeDeviceCapabilities list \<Rightarrow> string) \<Rightarrow> model_files \<Rightarrow> 'b BackendDescriptor list \<Rightarrow> RuntimeOption \<Rightarrow>
    env \<Rightarrow> 'b Runtime runtime_result \<times> env"
where
  "runtime_new ops debug_records files registered option e =
    (new_with_metrics ops debug_records files registered option, e\<lparr> env_metrics := backend_metrics_default \<rparr>)"

definition new_with_policy ::
  "'b InferBackend \<Rightarrow> (RuntimeDeviceCapabilities list \<Rightarrow> string) \<Rightarrow> model_files \<Rightarrow> 'b BackendDescriptor list \<Rightarrow> RuntimeOption \<Rightarrow>
    resource_policy \<Rightarrow> env \<Rightarrow> 'b Runtime runtime_result \<times> env"
where
  "new_with_policy ops debug_records files registered option policy e =
    (case process_policy_new policy pool_config_default stream_limits_default deadlines_default
            (pp_affinity_capacity process_policy_default) (pp_affinity_ttl_seconds process_policy_default)
            (pp_metrics_serialization_bytes process_policy_default) of
       Inl err \<Rightarrow> (Inl (RInvalidOption (''resource policy: '' @ display_core_error err)), e)
     | Inr process_policy \<Rightarrow> runtime_new ops debug_records files registered (option_with_process_policy process_policy option) e)"

definition from_backend_with_metrics :: "'b InferBackend \<Rightarrow> 'b \<Rightarrow> 'b Runtime" where
  "from_backend_with_metrics ops backend =
    (let b = ib_attach_metrics ops backend
     in \<lparr> rt_backend = b, rt_capabilities = no_capabilities, rt_next_sequence = 0, rt_sync_result = None,
          rt_max_in_flight = max (ib_max_in_flight ops b) 1, rt_process_policy = process_policy_default \<rparr>)"

definition from_backend :: "'b InferBackend \<Rightarrow> 'b \<Rightarrow> env \<Rightarrow> 'b Runtime \<times> env" where
  "from_backend ops backend e = (from_backend_with_metrics ops backend, e\<lparr> env_metrics := backend_metrics_default \<rparr>)"

definition runtime_reshape :: "'b InferBackend \<Rightarrow> shape list \<Rightarrow> 'b Runtime \<Rightarrow> unit runtime_result \<times> 'b Runtime" where
  "runtime_reshape ops shapes rt = (case ib_reshape ops shapes (rt_backend rt) of (r, b) \<Rightarrow> (r, rt\<lparr> rt_backend := b \<rparr>))"

definition runtime_run ::
  "'b InferBackend \<Rightarrow> tensor list \<Rightarrow> 'b Runtime \<times> env \<Rightarrow> (tensor list runtime_result \<times> 'b Runtime \<times> env) option"
where
  "runtime_run ops inputs s =
    (case s of (rt, e) \<Rightarrow>
     map_option (\<lambda>(r, b, e1). (r, rt\<lparr> rt_backend := b \<rparr>, e1)) (ib_run ops inputs (rt_backend rt, e)))"

definition runtime_run_with_stream ::
  "'b InferBackend \<Rightarrow> tensor list \<Rightarrow> nat option \<Rightarrow> 'b Runtime \<times> env \<Rightarrow> (tensor list runtime_result \<times> 'b Runtime \<times> env) option"
where
  "runtime_run_with_stream ops inputs stream s =
    (case s of (rt, e) \<Rightarrow>
     map_option (\<lambda>(r, b, e1). (r, rt\<lparr> rt_backend := b \<rparr>, e1)) (ib_run_with_stream ops inputs stream (rt_backend rt, e)))"

definition runtime_in_flight :: "env \<Rightarrow> usize" where
  "runtime_in_flight e = bm_in_flight (env_metrics e)"

definition current_in_flight :: "'b InferBackend \<Rightarrow> 'b Runtime \<Rightarrow> usize" where
  "current_in_flight ops rt =
    (if ib_is_async ops (rt_backend rt) then ib_in_flight ops (rt_backend rt)
     else of_bool (rt_sync_result rt \<noteq> None))"

text \<open>The outputs a result slot holds are dropped when it is overwritten.\<close>

definition drop_result :: "(nat \<times> tensor list) option \<Rightarrow> env \<Rightarrow> env" where
  "drop_result slot e = (case slot of None \<Rightarrow> e | Some (sequence, outputs) \<Rightarrow> drop_tensors outputs e)"

definition runtime_submit ::
  "'b InferBackend \<Rightarrow> tensor list \<Rightarrow> nat option \<Rightarrow> 'b Runtime \<times> env \<Rightarrow> (nat runtime_result \<times> 'b Runtime \<times> env) option"
where
  "runtime_submit ops inputs stream s =
    (case s of (rt, e) \<Rightarrow>
     if current_in_flight ops rt \<ge> rt_max_in_flight rt then Some (Inl (RBackend ''inference in-flight limit reached''), rt, e)
     else
       let sequence = rt_next_sequence rt
       in case checked_add sequence 1 of
            None \<Rightarrow> Some (Inl RSequenceExhausted, rt, e)
          | Some next \<Rightarrow>
              let rt1 = rt\<lparr> rt_next_sequence := next \<rparr>
              in if ib_is_async ops (rt_backend rt)
                 then
                   (case ib_submit ops inputs stream sequence (rt_backend rt, e) of
                      (Inl err, b, e1) \<Rightarrow> Some (Inl err, rt1\<lparr> rt_backend := b \<rparr>, e1)
                    | (Inr _, b, e1) \<Rightarrow> Some (Inr sequence, rt1\<lparr> rt_backend := b \<rparr>, with_metrics record_submission e1))
                 else
                   (case ib_run_with_stream ops inputs stream (rt_backend rt, e) of
                      None \<Rightarrow> None
                    | Some (Inl err, b, e1) \<Rightarrow> Some (Inl err, rt1\<lparr> rt_backend := b \<rparr>, e1)
                    | Some (Inr outputs, b, e1) \<Rightarrow>
                        Some (Inr sequence, rt1\<lparr> rt_backend := b, rt_sync_result := Some (sequence, outputs) \<rparr>,
                          with_metrics record_submission (drop_result (rt_sync_result rt) e1))))"

definition runtime_poll :: "'b InferBackend \<Rightarrow> 'b Runtime \<times> env \<Rightarrow> InferPoll runtime_result \<times> 'b Runtime \<times> env" where
  "runtime_poll ops s =
    (case s of (rt, e) \<Rightarrow>
     if ib_is_async ops (rt_backend rt)
     then
       (case ib_poll ops (rt_backend rt, e) of
          (r, b, e1) \<Rightarrow>
            let rt1 = rt\<lparr> rt_backend := b \<rparr>
            in case r of
                 Inr PollPending \<Rightarrow> (r, rt1, with_metrics record_poll_pending e1)
               | Inr (PollReady outputs sequence) \<Rightarrow> (r, rt1, with_metrics finish_in_flight e1)
               | Inr PollEndOfStream \<Rightarrow> (r, rt1, e1)
               | Inl err \<Rightarrow> (r, rt1, with_metrics (record_backend_error \<circ> finish_in_flight) e1))
     else
       case rt_sync_result rt of
         Some (sequence, outputs) \<Rightarrow> (Inr (PollReady outputs sequence), rt\<lparr> rt_sync_result := None \<rparr>, with_metrics finish_in_flight e)
       | None \<Rightarrow> (Inr PollPending, rt, e))"

definition runtime_cancel :: "'b InferBackend \<Rightarrow> 'b Runtime \<times> env \<Rightarrow> CancelReport runtime_result \<times> 'b Runtime \<times> env" where
  "runtime_cancel ops s =
    (case s of (rt, e) \<Rightarrow>
     if ib_is_async ops (rt_backend rt)
     then
       (case ib_cancel ops (rt_backend rt, e) of
          (Inl err, b, e1) \<Rightarrow> (Inl err, rt\<lparr> rt_backend := b \<rparr>, e1)
        | (Inr report, b, e1) \<Rightarrow>
            let released = saturating_add (cr_completed report) (cr_abandoned report)
            in (Inr report, rt\<lparr> rt_backend := b \<rparr>,
                with_metrics (record_cancel \<circ> (record_backend_error ^^ cr_failed report) \<circ> (finish_in_flight ^^ released)) e1))
     else
       case rt_sync_result rt of
         Some result \<Rightarrow>
           (Inr (cancel_report_default\<lparr> cr_requested := 1, cr_unsupported := 1 \<rparr>), rt\<lparr> rt_sync_result := None \<rparr>,
            with_metrics (record_cancel \<circ> finish_in_flight) (drop_result (Some result) e))
       | None \<Rightarrow> (Inr cancel_report_default, rt, e))"

section \<open>The counters\<close>

lemma in_flight_metrics [simp]:
  "bm_in_flight (record_submission m) = (if bm_in_flight m < usize_max then Suc (bm_in_flight m) else usize_max)"
  "bm_in_flight (finish_in_flight m) = bm_in_flight m - 1"
  "bm_in_flight (record_poll_pending m) = bm_in_flight m"
  "bm_in_flight (record_backend_error m) = bm_in_flight m"
  "bm_in_flight (record_cancel m) = bm_in_flight m"
  "bm_in_flight (record_infer_latency_ns ns m) = bm_in_flight m"
  by (auto simp: record_submission_def finish_in_flight_def record_poll_pending_def record_backend_error_def record_cancel_def
      record_infer_latency_ns_def add_counter_def saturating_fetch_add_def checked_fetch_sub_def checked_add_def checked_sub_def Let_def
      split: prod.splits option.splits if_splits)

lemma in_flight_repeat [simp]:
  "bm_in_flight ((finish_in_flight ^^ n) m) = bm_in_flight m - n"
  "bm_in_flight ((record_backend_error ^^ n) m) = bm_in_flight m"
  by (induction n) auto

lemma env_updates [simp]:
  "env_metrics (with_metrics f e) = f (env_metrics e)" "env_metrics (drop_tensors ts e) = env_metrics e"
  "env_metrics (clone_tensors ts e) = env_metrics e" "env_metrics (drop_result slot e) = env_metrics e"
  "env_metrics (snd (instant_now e)) = env_metrics e"
  by (auto simp: with_metrics_def drop_tensors_def clone_tensors_def drop_result_def instant_now_def split: option.splits)

section \<open>Submissions as a step system\<close>

text \<open>The submissions of a runtime that are still to be answered, by sequence number.\<close>

definition sync_outstanding :: "'b Runtime \<Rightarrow> nat list" where
  "sync_outstanding rt = (case rt_sync_result rt of None \<Rightarrow> [] | Some (sequence, _) \<Rightarrow> [sequence])"

definition rt_outstanding :: "'b InferBackend \<Rightarrow> ('b \<Rightarrow> nat list) \<Rightarrow> 'b Runtime \<Rightarrow> nat list" where
  "rt_outstanding ops outstanding rt =
    (if ib_is_async ops (rt_backend rt) then outstanding (rt_backend rt) else sync_outstanding rt)"

text \<open>What a client has seen: the sequence numbers of accepted submissions and of answers in order, and how many submissions ended
  without an answer, by an error of a poll or by a cancel.\<close>

record 'b session =
  ss_runtime :: "'b Runtime"
  ss_env :: env
  ss_submitted :: "nat list"
  ss_returned :: "nat list"
  ss_lost :: nat

text \<open>Between two calls of a client, and within a call, the clock may go on by any amount: the readings are arbitrary.\<close>

inductive client_step :: "'b InferBackend \<Rightarrow> 'b session \<Rightarrow> 'b session \<Rightarrow> bool" for ops where
  submit_accepted: "runtime_submit ops inputs stream (ss_runtime s, ss_env s) = Some (Inr sequence, rt, e) \<Longrightarrow>
    client_step ops s (s\<lparr> ss_runtime := rt, ss_env := e, ss_submitted := ss_submitted s @ [sequence] \<rparr>)"
| submit_refused: "runtime_submit ops inputs stream (ss_runtime s, ss_env s) = Some (Inl err, rt, e) \<Longrightarrow>
    client_step ops s (s\<lparr> ss_runtime := rt, ss_env := e \<rparr>)"
| poll_answered: "runtime_poll ops (ss_runtime s, ss_env s) = (Inr (PollReady outputs sequence), rt, e) \<Longrightarrow>
    client_step ops s (s\<lparr> ss_runtime := rt, ss_env := e, ss_returned := ss_returned s @ [sequence] \<rparr>)"
| poll_idle: "runtime_poll ops (ss_runtime s, ss_env s) = (Inr r, rt, e) \<Longrightarrow> r \<in> {PollPending, PollEndOfStream} \<Longrightarrow>
    client_step ops s (s\<lparr> ss_runtime := rt, ss_env := e \<rparr>)"
| poll_failed: "runtime_poll ops (ss_runtime s, ss_env s) = (Inl err, rt, e) \<Longrightarrow>
    client_step ops s (s\<lparr> ss_runtime := rt, ss_env := e, ss_lost := Suc (ss_lost s) \<rparr>)"
| cancelled: "runtime_cancel ops (ss_runtime s, ss_env s) = (Inr report, rt, e) \<Longrightarrow>
    client_step ops s (s\<lparr> ss_runtime := rt, ss_env := e,
      ss_lost := ss_lost s + (cr_completed report + cr_abandoned report + cr_unsupported report) \<rparr>)"
| cancel_failed: "runtime_cancel ops (ss_runtime s, ss_env s) = (Inl err, rt, e) \<Longrightarrow>
    client_step ops s (s\<lparr> ss_runtime := rt, ss_env := e \<rparr>)"
| buffers: "client_step ops s (s\<lparr> ss_env := (ss_env s)\<lparr> env_store := st \<rparr> \<rparr>)"

definition session_start :: "'b Runtime \<Rightarrow> env \<Rightarrow> 'b session" where
  "session_start rt e = \<lparr> ss_runtime = rt, ss_env = e, ss_submitted = [], ss_returned = [], ss_lost = 0 \<rparr>"

text \<open>
  What a runtime relies on: an accepted submission becomes outstanding under its number; a ready answer ends an outstanding one,
  and so does an error of a poll; cancelling ends as many as it reports as released; the backend leaves the count in flight to
  the runtime, and answers synchronously or asynchronously once and for all.
\<close>

locale infer_backend =
  fixes ops :: "'b InferBackend" and outstanding :: "'b \<Rightarrow> nat list"
  assumes async_count: "ib_is_async ops b \<Longrightarrow> ib_in_flight ops b = length (outstanding b)"
    and submit_ok: "ib_is_async ops b \<Longrightarrow> ib_submit ops inputs stream sequence (b, e) = (Inr u, b', e') \<Longrightarrow>
      mset (outstanding b') = add_mset sequence (mset (outstanding b)) \<and> ib_is_async ops b' \<and>
      bm_in_flight (env_metrics e') = bm_in_flight (env_metrics e)"
    and submit_err: "ib_is_async ops b \<Longrightarrow> ib_submit ops inputs stream sequence (b, e) = (Inl err, b', e') \<Longrightarrow>
      mset (outstanding b') = mset (outstanding b) \<and> ib_is_async ops b' \<and> bm_in_flight (env_metrics e') = bm_in_flight (env_metrics e)"
    and poll_ready: "ib_is_async ops b \<Longrightarrow> ib_poll ops (b, e) = (Inr (PollReady outputs sequence), b', e') \<Longrightarrow>
      mset (outstanding b) = add_mset sequence (mset (outstanding b')) \<and> ib_is_async ops b' \<and>
      bm_in_flight (env_metrics e') = bm_in_flight (env_metrics e)"
    and poll_idle: "ib_is_async ops b \<Longrightarrow> ib_poll ops (b, e) = (Inr r, b', e') \<Longrightarrow> r \<in> {PollPending, PollEndOfStream} \<Longrightarrow>
      mset (outstanding b') = mset (outstanding b) \<and> ib_is_async ops b' \<and> bm_in_flight (env_metrics e') = bm_in_flight (env_metrics e)"
    and poll_err: "ib_is_async ops b \<Longrightarrow> ib_poll ops (b, e) = (Inl err, b', e') \<Longrightarrow>
      (\<exists>sequence. mset (outstanding b) = add_mset sequence (mset (outstanding b'))) \<and> ib_is_async ops b' \<and>
      bm_in_flight (env_metrics e') = bm_in_flight (env_metrics e)"
    and cancel_ok: "ib_is_async ops b \<Longrightarrow> length (outstanding b) \<le> usize_max \<Longrightarrow> ib_cancel ops (b, e) = (Inr report, b', e') \<Longrightarrow>
      (\<exists>released. mset (outstanding b) = mset (outstanding b') + mset released \<and>
        length released = cr_completed report + cr_abandoned report) \<and> cr_unsupported report = 0 \<and> ib_is_async ops b' \<and>
      bm_in_flight (env_metrics e') = bm_in_flight (env_metrics e)"
    and cancel_err: "ib_is_async ops b \<Longrightarrow> ib_cancel ops (b, e) = (Inl err, b', e') \<Longrightarrow>
      mset (outstanding b') = mset (outstanding b) \<and> ib_is_async ops b' \<and> bm_in_flight (env_metrics e') = bm_in_flight (env_metrics e)"
    and sync_run: "\<not> ib_is_async ops b \<Longrightarrow> ib_run_with_stream ops inputs stream (b, e) = Some (result, b', e') \<Longrightarrow>
      \<not> ib_is_async ops b' \<and> bm_in_flight (env_metrics e') = bm_in_flight (env_metrics e)"
begin

abbreviation waiting :: "'b Runtime \<Rightarrow> nat list" where
  "waiting \<equiv> rt_outstanding ops outstanding"

text \<open>Every number below the next one is used once; an outstanding submission is one that was submitted and not answered; the counter counts them.\<close>

definition session_ok :: "'b session \<Rightarrow> bool" where
  "session_ok s \<longleftrightarrow>
    (\<forall>sequence \<in> set (ss_submitted s). sequence < rt_next_sequence (ss_runtime s)) \<and> sorted_wrt (<) (ss_submitted s) \<and>
    (\<exists>lost. mset (ss_submitted s) = mset (ss_returned s) + mset lost + mset (waiting (ss_runtime s)) \<and> length lost = ss_lost s) \<and>
    bm_in_flight (env_metrics (ss_env s)) = length (waiting (ss_runtime s)) \<and>
    length (waiting (ss_runtime s)) \<le> rt_max_in_flight (ss_runtime s) \<and> rt_max_in_flight (ss_runtime s) \<le> usize_max \<and>
    (ib_is_async ops (rt_backend (ss_runtime s)) \<or> rt_max_in_flight (ss_runtime s) = 1)"

lemma waiting_simps [simp]:
  "ib_is_async ops (rt_backend rt) \<Longrightarrow> waiting rt = outstanding (rt_backend rt)"
  "\<not> ib_is_async ops (rt_backend rt) \<Longrightarrow> waiting rt = sync_outstanding rt"
  by (simp_all add: rt_outstanding_def)

text \<open>What each operation of the runtime does to the outstanding submissions and to the counter.\<close>

lemma submit_accepts:
  assumes "runtime_submit ops inputs stream (rt, e) = Some (Inr sequence, rt', e')"
    and "ib_is_async ops (rt_backend rt) \<or> rt_max_in_flight rt = 1 \<or> rt_sync_result rt = None"
  shows "sequence = rt_next_sequence rt \<and> rt_next_sequence rt' = Suc sequence \<and> mset (waiting rt') = add_mset sequence (mset (waiting rt)) \<and>
    (bm_in_flight (env_metrics e) < usize_max \<longrightarrow> bm_in_flight (env_metrics e') = Suc (bm_in_flight (env_metrics e))) \<and>
    rt_max_in_flight rt' = rt_max_in_flight rt \<and> ib_is_async ops (rt_backend rt') = ib_is_async ops (rt_backend rt) \<and>
    length (waiting rt) < rt_max_in_flight rt"
proof (cases "ib_is_async ops (rt_backend rt)")
  case True
  with assms(1) obtain u b1 e1 where
    "ib_submit ops inputs stream sequence (rt_backend rt, e) = (Inr u, b1, e1)" and rest: "sequence = rt_next_sequence rt"
    "rt' = rt\<lparr> rt_next_sequence := Suc sequence, rt_backend := b1 \<rparr>" "e' = with_metrics record_submission e1"
    "ib_in_flight ops (rt_backend rt) < rt_max_in_flight rt"
    by (auto simp: runtime_submit_def current_in_flight_def checked_add_def Let_def split: if_splits option.splits prod.splits sum.splits)
  with submit_ok [OF True] async_count [OF True] True show ?thesis by auto
next
  case False
  with assms obtain outputs b1 e1 where
    "ib_run_with_stream ops inputs stream (rt_backend rt, e) = Some (Inr outputs, b1, e1)" and rest: "sequence = rt_next_sequence rt"
    "rt' = rt\<lparr> rt_next_sequence := Suc sequence, rt_backend := b1, rt_sync_result := Some (sequence, outputs) \<rparr>"
    "e' = with_metrics record_submission (drop_result (rt_sync_result rt) e1)" "rt_sync_result rt = None" "0 < rt_max_in_flight rt"
    by (auto simp del: not_None_eq simp: runtime_submit_def current_in_flight_def of_bool_def checked_add_def Let_def split: if_splits option.splits prod.splits sum.splits)
  with sync_run [OF False] False show ?thesis by (auto simp: sync_outstanding_def)
qed

lemma submit_refuses:
  assumes "runtime_submit ops inputs stream (rt, e) = Some (Inl err, rt', e')"
  shows "rt_next_sequence rt \<le> rt_next_sequence rt' \<and> mset (waiting rt') = mset (waiting rt) \<and>
    bm_in_flight (env_metrics e') = bm_in_flight (env_metrics e) \<and> rt_max_in_flight rt' = rt_max_in_flight rt \<and>
    ib_is_async ops (rt_backend rt') = ib_is_async ops (rt_backend rt)"
proof (cases "ib_is_async ops (rt_backend rt)")
  case True
  with assms have "rt' = rt \<and> e' = e \<or> (\<exists>b1. ib_submit ops inputs stream (rt_next_sequence rt) (rt_backend rt, e) = (Inl err, b1, e') \<and>
      rt' = rt\<lparr> rt_next_sequence := Suc (rt_next_sequence rt), rt_backend := b1 \<rparr>)"
    by (auto simp: runtime_submit_def checked_add_def Let_def split: if_splits option.splits prod.splits sum.splits)
  with True show ?thesis using submit_err [OF True] by (elim disjE exE conjE) (simp, force)
next
  case False
  with assms have "rt' = rt \<and> e' = e \<or> (\<exists>b1. ib_run_with_stream ops inputs stream (rt_backend rt, e) = Some (Inl err, b1, e') \<and>
      rt' = rt\<lparr> rt_next_sequence := Suc (rt_next_sequence rt), rt_backend := b1 \<rparr>)"
    by (auto simp: runtime_submit_def checked_add_def Let_def split: if_splits option.splits prod.splits sum.splits)
  with False show ?thesis using sync_run [OF False] by (elim disjE exE conjE) (simp, force simp: sync_outstanding_def)
qed

lemma poll_answers:
  assumes "runtime_poll ops (rt, e) = (Inr (PollReady outputs sequence), rt', e')"
  shows "rt_next_sequence rt' = rt_next_sequence rt \<and> mset (waiting rt) = add_mset sequence (mset (waiting rt')) \<and>
    bm_in_flight (env_metrics e') = bm_in_flight (env_metrics e) - 1 \<and> rt_max_in_flight rt' = rt_max_in_flight rt \<and>
    ib_is_async ops (rt_backend rt') = ib_is_async ops (rt_backend rt)"
  using assms poll_ready [of "rt_backend rt"]
  by (auto simp: runtime_poll_def Let_def rt_outstanding_def sync_outstanding_def split: if_splits option.splits prod.splits sum.splits InferPoll.splits)

lemma poll_waits:
  assumes "runtime_poll ops (rt, e) = (Inr r, rt', e')" and "r \<in> {PollPending, PollEndOfStream}"
  shows "rt_next_sequence rt' = rt_next_sequence rt \<and> mset (waiting rt') = mset (waiting rt) \<and>
    bm_in_flight (env_metrics e') = bm_in_flight (env_metrics e) \<and> rt_max_in_flight rt' = rt_max_in_flight rt \<and>
    ib_is_async ops (rt_backend rt') = ib_is_async ops (rt_backend rt)"
  using assms poll_idle [of "rt_backend rt"]
  by (auto simp: runtime_poll_def Let_def rt_outstanding_def sync_outstanding_def split: if_splits option.splits prod.splits sum.splits InferPoll.splits)

lemma poll_fails:
  assumes "runtime_poll ops (rt, e) = (Inl err, rt', e')"
  shows "rt_next_sequence rt' = rt_next_sequence rt \<and> (\<exists>sequence. mset (waiting rt) = add_mset sequence (mset (waiting rt'))) \<and>
    bm_in_flight (env_metrics e') = bm_in_flight (env_metrics e) - 1 \<and> rt_max_in_flight rt' = rt_max_in_flight rt \<and>
    ib_is_async ops (rt_backend rt') = ib_is_async ops (rt_backend rt)"
  using assms poll_err [of "rt_backend rt"]
  by (auto simp: runtime_poll_def Let_def rt_outstanding_def sync_outstanding_def split: if_splits option.splits prod.splits sum.splits InferPoll.splits)

lemma cancel_releases:
  assumes "runtime_cancel ops (rt, e) = (Inr report, rt', e')" and "length (waiting rt) \<le> usize_max"
  shows "\<exists>released. mset (waiting rt) = mset (waiting rt') + mset released \<and>
    length released = cr_completed report + cr_abandoned report + cr_unsupported report \<and>
    bm_in_flight (env_metrics e') = bm_in_flight (env_metrics e) - length released \<and>
    rt_next_sequence rt' = rt_next_sequence rt \<and> rt_max_in_flight rt' = rt_max_in_flight rt \<and>
    ib_is_async ops (rt_backend rt') = ib_is_async ops (rt_backend rt)"
proof (cases "ib_is_async ops (rt_backend rt)")
  case True
  with assms(1) obtain b1 e1 where c: "ib_cancel ops (rt_backend rt, e) = (Inr report, b1, e1)" and rt': "rt' = rt\<lparr> rt_backend := b1 \<rparr>"
    and e': "bm_in_flight (env_metrics e') = bm_in_flight (env_metrics e1) - saturating_add (cr_completed report) (cr_abandoned report)"
    by (auto simp: runtime_cancel_def Let_def split: prod.splits sum.splits)
  from cancel_ok [OF True _ c] assms(2) True obtain released where
    r: "mset (outstanding (rt_backend rt)) = mset (outstanding b1) + mset released" "length released = cr_completed report + cr_abandoned report"
    and rest: "cr_unsupported report = 0" "ib_is_async ops b1" "bm_in_flight (env_metrics e1) = bm_in_flight (env_metrics e)" by auto
  have "length released \<le> length (waiting rt)" using True arg_cong [OF r(1), of size] by simp
  then have "saturating_add (cr_completed report) (cr_abandoned report) = length released"
    using assms(2) r(2) by (simp add: saturating_add_def)
  then show ?thesis using True r rest rt' e' by (intro exI [of _ released]) simp
next
  case False
  then show ?thesis
  proof (cases "rt_sync_result rt")
    case None
    with False assms(1) show ?thesis by (intro exI [of _ "[]"]) (auto simp: runtime_cancel_def cancel_report_default_def)
  next
    case (Some r)
    with False assms(1) show ?thesis
      by (intro exI [of _ "[fst r]"]) (auto simp: runtime_cancel_def sync_outstanding_def cancel_report_default_def split: prod.splits)
  qed
qed

lemma cancel_fails:
  assumes "runtime_cancel ops (rt, e) = (Inl err, rt', e')"
  shows "rt_next_sequence rt' = rt_next_sequence rt \<and> mset (waiting rt') = mset (waiting rt) \<and>
    bm_in_flight (env_metrics e') = bm_in_flight (env_metrics e) \<and> rt_max_in_flight rt' = rt_max_in_flight rt \<and>
    ib_is_async ops (rt_backend rt') = ib_is_async ops (rt_backend rt)"
  using assms cancel_err [of "rt_backend rt"]
  by (auto simp: runtime_cancel_def Let_def rt_outstanding_def split: if_splits option.splits prod.splits sum.splits)

text \<open>The invariant, by what a step does to the outstanding submissions: one more, one less by an answer, some less without one.\<close>

lemma session_okI:
  assumes "session_ok s" and "rt_max_in_flight rt = rt_max_in_flight (ss_runtime s)"
    and "ib_is_async ops (rt_backend rt) = ib_is_async ops (rt_backend (ss_runtime s))" and "rt_next_sequence (ss_runtime s) \<le> rt_next_sequence rt"
    and "mset (waiting (ss_runtime s)) = mset (waiting rt) + mset returned + mset lost"
    and "bm_in_flight (env_metrics e) = bm_in_flight (env_metrics (ss_env s)) - length returned - length lost"
  shows "session_ok (s\<lparr> ss_runtime := rt, ss_env := e, ss_returned := ss_returned s @ returned, ss_lost := ss_lost s + length lost \<rparr>)"
proof -
  from assms(1) obtain lost0 where l: "mset (ss_submitted s) = mset (ss_returned s) + mset lost0 + mset (waiting (ss_runtime s))" "length lost0 = ss_lost s"
    by (auto simp: session_ok_def)
  have len: "length (waiting (ss_runtime s)) = length (waiting rt) + length returned + length lost"
    using arg_cong [OF assms(5), of size] by simp
  have "\<exists>l. mset (ss_submitted s) = mset (ss_returned s @ returned) + mset l + mset (waiting rt) \<and> length l = ss_lost s + length lost"
    using l assms(5) by (intro exI [of _ "lost0 @ lost"]) (simp add: ac_simps)
  then show ?thesis using assms(1-4,6) len by (auto simp: session_ok_def)
qed

lemma session_submit:
  assumes "session_ok s" and "runtime_submit ops inputs stream (ss_runtime s, ss_env s) = Some (Inr sequence, rt, e)"
  shows "session_ok (s\<lparr> ss_runtime := rt, ss_env := e, ss_submitted := ss_submitted s @ [sequence] \<rparr>)"
proof -
  have ok: "sequence = rt_next_sequence (ss_runtime s) \<and> rt_next_sequence rt = Suc sequence \<and>
      mset (waiting rt) = add_mset sequence (mset (waiting (ss_runtime s))) \<and>
      bm_in_flight (env_metrics e) = Suc (bm_in_flight (env_metrics (ss_env s))) \<and> rt_max_in_flight rt = rt_max_in_flight (ss_runtime s) \<and>
      ib_is_async ops (rt_backend rt) = ib_is_async ops (rt_backend (ss_runtime s)) \<and> length (waiting (ss_runtime s)) < rt_max_in_flight (ss_runtime s)"
    using assms(1) submit_accepts [OF assms(2)] by (auto simp: session_ok_def)
  then have m: "mset (waiting rt) = add_mset sequence (mset (waiting (ss_runtime s)))" by blast
  have "length (waiting rt) = Suc (length (waiting (ss_runtime s)))" using arg_cong [OF m, of size] by (simp del: waiting_simps)
  then show ?thesis using ok assms(1) by (auto simp: session_ok_def sorted_wrt_append less_Suc_eq ac_simps)
qed

lemma session_step: "client_step ops s t \<Longrightarrow> session_ok s \<Longrightarrow> session_ok t"
proof (induction rule: client_step.induct)
  case (submit_accepted inputs stream s sequence rt e)
  then show ?case by (simp add: session_submit)
next
  case (submit_refused inputs stream s err rt e)
  then show ?case using session_okI [of s rt "[]" "[]" e] submit_refuses [of inputs stream "ss_runtime s" "ss_env s"] by simp
next
  case (poll_answered s outputs sequence rt e)
  then show ?case using session_okI [of s rt "[sequence]" "[]" e] poll_answers [OF poll_answered(1)] by simp
next
  case (poll_idle s r rt e)
  then show ?case using session_okI [of s rt "[]" "[]" e] poll_waits [OF poll_idle(1,2)] by simp
next
  case (poll_failed s err rt e)
  from poll_fails [OF poll_failed(1)] obtain sequence where "mset (waiting (ss_runtime s)) = add_mset sequence (mset (waiting rt))" by blast
  then show ?case using session_okI [of s rt "[]" "[sequence]" e] poll_fails [OF poll_failed(1)] poll_failed(2) by simp
next
  case (cancelled s report rt e)
  have "length (waiting (ss_runtime s)) \<le> usize_max" using cancelled(2) by (auto simp: session_ok_def)
  from cancel_releases [OF cancelled(1) this] obtain released where
    "mset (waiting (ss_runtime s)) = mset (waiting rt) + mset released" and
    "length released = cr_completed report + cr_abandoned report + cr_unsupported report" and
    "bm_in_flight (env_metrics e) = bm_in_flight (env_metrics (ss_env s)) - length released" and
    "rt_next_sequence rt = rt_next_sequence (ss_runtime s)" "rt_max_in_flight rt = rt_max_in_flight (ss_runtime s)"
    "ib_is_async ops (rt_backend rt) = ib_is_async ops (rt_backend (ss_runtime s))" by blast
  then show ?case using session_okI [of s rt "[]" released e] cancelled(2) by simp
next
  case (cancel_failed s err rt e)
  then show ?case using session_okI [of s rt "[]" "[]" e] cancel_fails [OF cancel_failed(1)] by simp
next
  case (buffers s st)
  then show ?case by (simp add: session_ok_def)
qed

lemma session_start_ok:
  assumes "waiting rt = []" and "bm_in_flight (env_metrics e) = 0" and "rt_max_in_flight rt \<le> usize_max"
    and "ib_is_async ops (rt_backend rt) \<or> rt_max_in_flight rt = 1"
  shows "session_ok (session_start rt e)"
  using assms by (auto simp: session_ok_def session_start_def)

end

lemma client_step_limit:
  assumes "client_step ops s t"
  shows "rt_max_in_flight (ss_runtime t) = rt_max_in_flight (ss_runtime s)"
  using assms
proof (cases rule: client_step.cases)
  case (submit_accepted inputs stream sequence rt e)
  then show ?thesis by (auto simp: runtime_submit_def Let_def split: if_splits option.splits prod.splits sum.splits)
next
  case (submit_refused inputs stream err rt e)
  then show ?thesis by (auto simp: runtime_submit_def Let_def split: if_splits option.splits prod.splits sum.splits)
qed (auto simp: runtime_poll_def runtime_cancel_def Let_def split: if_splits option.splits prod.splits sum.splits InferPoll.splits)

text \<open>Along every run of a client the invariant holds and the limit stays what it was.\<close>

sublocale infer_backend \<subseteq> sessions: step_system "client_step ops" session_ok
    "\<lambda>s t. rt_max_in_flight (ss_runtime t) = rt_max_in_flight (ss_runtime s)"
  by unfold_locales (auto intro: session_step dest: client_step_limit)

end
