(* ===== verification/MockBackends.thy ===== *)
theory MockBackends
  imports Runtimes
begin

text \<open>
  The backend of \<open>dg-runtime/src/mock.rs\<close>: its options, configuration, outputs, delayed answers and capabilities, and
  the runtime over it.  A moment is a number of nanoseconds; \<open>can_reserve\<close> tells which allocations succeed.
\<close>

section \<open>Options and configuration\<close>

definition MAX_MOCK_DELAY_MS :: nat where
  "MAX_MOCK_DELAY_MS = 3600000"

definition from_millis :: "nat \<Rightarrow> nat" where
  "from_millis ms = ms * 1000000"

definition MAX_MOCK_DELAY :: nat where
  "MAX_MOCK_DELAY = from_millis MAX_MOCK_DELAY_MS"

definition mock_options_default :: MockOptions where
  "mock_options_default =
    (let info = info_with_layout NCHW (tensor_info_new (shape_new [1, 3, 224, 224]) dt_F32)
     in \<lparr> mo_input_infos = [info], mo_output_infos = [info], mo_echo_inputs = True, mo_fill_value = 0, mo_delay = None,
          mo_delays = [], mo_max_in_flight = 1 \<rparr>)"

record MockConfig =
  mk_shape :: "usize list option"
  mk_output_shape :: "usize list option"
  mk_dtype :: "string option"
  mk_output_dtype :: "string option"
  mk_layout :: "string option"
  mk_echo_inputs :: "bool option"
  mk_fill_value :: "8 word option"
  mk_delay_ms :: "nat option"
  mk_delays_ms :: "nat list option"
  mk_max_in_flight :: "usize option"

definition parse_delay_ms :: "nat \<Rightarrow> nat runtime_result" where
  "parse_delay_ms ms =
    (if ms > MAX_MOCK_DELAY_MS
     then Inl (RInvalidOption (''mock delay_ms '' @ show_nat ms @ '' exceeds maximum '' @ show_nat MAX_MOCK_DELAY_MS))
     else Inr (from_millis ms))"

definition dtype_names :: "(string \<times> data_type) list" where
  "dtype_names =
    [(''f4'', dt_F4), (''f8'', dt_F8), (''f16'', dt_F16), (''f32'', dt_F32), (''f64'', dt_F64), (''bf16'', dt_BF16), (''u8'', dt_U8),
     (''u16'', dt_U16), (''u32'', dt_U32), (''u64'', dt_U64), (''i4'', dt_I4), (''i8'', dt_I8), (''i16'', dt_I16), (''i32'', dt_I32),
     (''i64'', dt_I64)]"

definition mock_parse_dtype :: "string \<Rightarrow> data_type runtime_result" where
  "mock_parse_dtype value = ok_or (map_of dtype_names value) (RInvalidOption (''unsupported mock precision: '' @ value))"

definition mock_parse_layout :: "string \<Rightarrow> DataFormat runtime_result" where
  "mock_parse_layout value =
    ok_or (map_of [(''auto'', Auto_format), (''n'', N), (''nc'', NC), (''nchw'', NCHW), (''nhwc'', NHWC), (''nc4hw'', NC4HW),
        (''nc8hw'', NC8HW), (''ncdhw'', NCDHW), (''oihw'', OIHW)] value)
      (RInvalidOption (''unsupported mock layout: '' @ value))"

text \<open>\<open>option.map(parse).transpose()?.unwrap_or(default)\<close>, and collecting results.\<close>

definition parse_or :: "('a \<Rightarrow> 'e + 'b) \<Rightarrow> 'b \<Rightarrow> 'a option \<Rightarrow> 'e + 'b" where
  "parse_or parse fallback value = (case value of None \<Rightarrow> Inr fallback | Some v \<Rightarrow> parse v)"

fun parse_delays :: "nat list \<Rightarrow> nat list runtime_result" where
  "parse_delays [] = Inr []"
| "parse_delays (ms # rest) = and_then (parse_delay_ms ms) (\<lambda>d. and_then (parse_delays rest) (\<lambda>ds. Inr (d # ds)))"

definition clamp_in_flight :: "usize \<Rightarrow> usize" where
  "clamp_in_flight n = max 1 (min n 64)"

definition configure_mock :: "(Value \<Rightarrow> string + MockConfig) \<Rightarrow> BackendConfig \<Rightarrow> RuntimeOption runtime_result" where
  "configure_mock from_value config =
    and_then (parse_options from_value ''mock'' config) (\<lambda>params.
    let shape_dims = (case mk_shape params of Some d \<Rightarrow> d | None \<Rightarrow> [1, 4]);
        output_dims = (case mk_output_shape params of Some d \<Rightarrow> d | None \<Rightarrow> shape_dims) in
    and_then (parse_or mock_parse_dtype dt_F32 (mk_dtype params)) (\<lambda>dtype.
    and_then (parse_or mock_parse_dtype dtype (mk_output_dtype params)) (\<lambda>output_dtype.
    and_then (parse_or mock_parse_layout NC (mk_layout params)) (\<lambda>layout.
    and_then (parse_or (\<lambda>ms. and_then (parse_delay_ms ms) (\<lambda>d. Inr (Some d))) None (mk_delay_ms params)) (\<lambda>delay.
    and_then (parse_delays (case mk_delays_ms params of Some ds \<Rightarrow> ds | None \<Rightarrow> [])) (\<lambda>delays.
    let options = MockOpts \<lparr> mo_input_infos = [info_with_layout layout (tensor_info_new (shape_new shape_dims) dtype)],
          mo_output_infos = [info_with_layout layout (tensor_info_new (shape_new output_dims) output_dtype)],
          mo_echo_inputs = (case mk_echo_inputs params of Some b \<Rightarrow> b | None \<Rightarrow> True),
          mo_fill_value = (case mk_fill_value params of Some v \<Rightarrow> v | None \<Rightarrow> 0),
          mo_delay = delay, mo_delays = delays,
          mo_max_in_flight = clamp_in_flight (case mk_max_in_flight params of Some n \<Rightarrow> n | None \<Rightarrow> 1) \<rparr>;
        source = (case bc_model config of None \<Rightarrow> ModelBytes [] | Some path \<Rightarrow> ModelFile path)
    in Inr (into_runtime_option MockKind source options config)))))))"

section \<open>The backend\<close>

record DelayedInference =
  di_sequence :: nat
  di_submitted :: nat
  di_finish :: nat
  di_inputs :: "tensor list"

record MockBackend =
  mb_options :: MockOptions
  mb_input_infos :: "TensorInfo list"
  mb_output_infos :: "TensorInfo list"
  mb_pending :: "DelayedInference list"
  mb_metrics :: bool

definition mock_new :: MockBackend where
  "mock_new = \<lparr> mb_options = mock_options_default, mb_input_infos = [], mb_output_infos = [], mb_pending = [], mb_metrics = False \<rparr>"

text \<open>The bytes of one output: those of the input at its index, or the fill value.\<close>

definition output_bytes ::
  "(nat \<Rightarrow> bool) \<Rightarrow> MockOptions \<Rightarrow> tensor list \<Rightarrow> nat \<Rightarrow> tensor \<Rightarrow> store \<Rightarrow> bytes runtime_result"
where
  "output_bytes can_reserve options inputs index output st =
    (let len = buffer_len (t_buffer output)
     in if mo_echo_inputs options \<and> index < length inputs
        then and_then (map_err RCore (read_bytes can_reserve (t_buffer (inputs ! index)) st)) (\<lambda>data.
          if length data \<noteq> len then Inl (RBackend ''mock backend echo output size mismatch'') else Inr data)
        else and_then (fail_if (\<not> can_reserve len) (RBackend (''mock backend fill allocation failed for '' @ show_nat len @ '' bytes''))) (\<lambda>_.
          Inr (replicate len (mo_fill_value options))))"

text \<open>The outputs in order; the tensors made so far are dropped on an error.\<close>

fun produce_from ::
  "(nat \<Rightarrow> bool) \<Rightarrow> MockOptions \<Rightarrow> tensor list \<Rightarrow> nat \<Rightarrow> TensorInfo list \<Rightarrow> tensor list \<Rightarrow> world \<Rightarrow> tensor list runtime_result \<times> store"
where
  "produce_from can_reserve options inputs index [] outputs (p, st) = (Inr outputs, st)"
| "produce_from can_reserve options inputs index (info # infos) outputs (p, st) =
    (case info_allocate (cpu_device can_reserve) info (p, st) of
       (Inl err, (p1, st1)) \<Rightarrow> (Inl (RCore err), fold (\<lambda>t. drop_buffer (t_buffer t)) outputs st1)
     | (Inr output, (p1, st1)) \<Rightarrow>
         (case output_bytes can_reserve options inputs index output st1 of
            Inl err \<Rightarrow> (Inl err, fold (\<lambda>t. drop_buffer (t_buffer t)) (output # outputs) st1)
          | Inr data \<Rightarrow>
              (case write_from_slice (t_buffer output) data st1 of
                 (Inl err, st2) \<Rightarrow> (Inl (RCore err), fold (\<lambda>t. drop_buffer (t_buffer t)) (output # outputs) st2)
               | (Inr _, st2) \<Rightarrow> produce_from can_reserve options inputs (Suc index) infos (outputs @ [output]) (p1, st2))))"

definition produce_outputs :: "(nat \<Rightarrow> bool) \<Rightarrow> MockBackend \<Rightarrow> tensor list \<Rightarrow> env \<Rightarrow> tensor list runtime_result \<times> env" where
  "produce_outputs can_reserve b inputs e =
    (if length inputs \<noteq> length (mb_input_infos b)
     then (Inl (RInvalidOption ''mock run input count must match configured inputs''), e)
     else
       (case produce_from can_reserve (mb_options b) inputs 0 (mb_output_infos b) [] (cpu_device_pool, env_store e) of
          (r, st) \<Rightarrow> (r, e\<lparr> env_store := st \<rparr>)))"

definition mock_init :: "RuntimeOption \<Rightarrow> MockBackend \<Rightarrow> unit runtime_result \<times> MockBackend" where
  "mock_init option b =
    (case run_checks
        [require_supported (ro_precision option) (supports_precision MockKind) RUnsupportedPrecision,
         require_supported (ro_device option) (supports_device MockKind) RUnsupportedDevice,
         require_supported (ro_deploy_mode option) (supports_deployment MockKind) RUnsupportedDeployment] of
       Inl err \<Rightarrow> (Inl err, b)
     | Inr _ \<Rightarrow>
         (case as_mock (ro_backend_options option) of
            None \<Rightarrow> (Inl (RInvalidOption ''mock backend requires Mock backend options''), b)
          | Some options \<Rightarrow>
              (Inr (), b\<lparr> mb_options := options, mb_input_infos := mo_input_infos options,
                 mb_output_infos := (if mo_output_infos options = [] then mo_input_infos options else mo_output_infos options) \<rparr>)))"

definition mock_reshape :: "shape list \<Rightarrow> MockBackend \<Rightarrow> unit runtime_result \<times> MockBackend" where
  "mock_reshape shapes b =
    (if length shapes \<noteq> length (mb_input_infos b)
     then (Inl (RInvalidOption ''mock reshape shape count must match input count''), b)
     else
       let infos = map2 (\<lambda>info s. info\<lparr> inf_shape := s \<rparr>) (mb_input_infos b) shapes;
           b1 = b\<lparr> mb_input_infos := infos \<rparr>
       in (Inr (), if length (mb_output_infos b1) = length (mb_input_infos b1) \<and> mo_echo_inputs (mb_options b1)
            then b1\<lparr> mb_output_infos := infos \<rparr> else b1))"

definition mock_input_info :: "usize \<Rightarrow> MockBackend \<Rightarrow> TensorInfo runtime_result" where
  "mock_input_info index b =
    (if index < length (mb_input_infos b) then Inr (mb_input_infos b ! index)
     else Inl (RInvalidOption (''input index out of range: '' @ show_nat index)))"

definition mock_output_info :: "usize \<Rightarrow> MockBackend \<Rightarrow> TensorInfo runtime_result" where
  "mock_output_info index b =
    (if index < length (mb_output_infos b) then Inr (mb_output_infos b ! index)
     else Inl (RInvalidOption (''output index out of range: '' @ show_nat index)))"

definition mock_is_async :: "MockBackend \<Rightarrow> bool" where
  "mock_is_async b \<longleftrightarrow> mo_delay (mb_options b) \<noteq> None \<or> mo_delays (mb_options b) \<noteq> []"

definition mock_max_in_flight :: "MockBackend \<Rightarrow> usize" where
  "mock_max_in_flight b = clamp_in_flight (mo_max_in_flight (mb_options b))"

definition mock_in_flight :: "MockBackend \<Rightarrow> usize" where
  "mock_in_flight b = length (mb_pending b)"

text \<open>The last moment an \<open>Instant\<close> represents: seconds are a signed 64-bit number.\<close>

definition INSTANT_MAX :: nat where
  "INSTANT_MAX = 9223372036854775807 * 1000000000 + 999999999"

definition mock_delay :: "MockBackend \<Rightarrow> nat option" where
  "mock_delay b =
    (let delays = mo_delays (mb_options b)
     in if delays = [] then mo_delay (mb_options b) else Some (delays ! (length (mb_pending b) mod length delays)))"

definition mock_submit :: "tensor list \<Rightarrow> nat option \<Rightarrow> nat \<Rightarrow> MockBackend \<times> env \<Rightarrow> unit runtime_result \<times> MockBackend \<times> env" where
  "mock_submit inputs stream sequence s =
    (case s of (b, e) \<Rightarrow>
     if mock_in_flight b \<ge> mock_max_in_flight b then (Inl (RBackend ''mock backend in-flight limit reached''), b, e)
     else
       case mock_delay b of
         None \<Rightarrow> (Inl (RBackend ''mock backend is not configured for async operation''), b, e)
       | Some configured \<Rightarrow>
           let delay = min configured MAX_MOCK_DELAY;
               (now, e1) = instant_now e
           in if now + delay > INSTANT_MAX then (Inl (RBackend ''mock delay exceeds representable time''), b, e1)
              else (Inr (), b\<lparr> mb_pending := mb_pending b @
                     [\<lparr> di_sequence = sequence, di_submitted = now, di_finish = now + delay, di_inputs = inputs \<rparr>] \<rparr>,
                   clone_tensors inputs e1))"

text \<open>The earliest of the submissions that are due, the first in the vector among equals.\<close>

fun scan_ready :: "nat \<Rightarrow> nat \<Rightarrow> (nat \<times> nat) option \<Rightarrow> DelayedInference list \<Rightarrow> (nat \<times> nat) option" where
  "scan_ready now index ready [] = ready"
| "scan_ready now index ready (d # rest) =
    (if di_finish d \<le> now \<and> (case ready of None \<Rightarrow> True | Some (_, finish) \<Rightarrow> di_finish d < finish)
     then scan_ready now (Suc index) (Some (index, di_finish d)) rest
     else scan_ready now (Suc index) ready rest)"

text \<open>\<open>metrics.record_infer_latency_ns\<close> with the time since \<open>start\<close>, when counters are attached.\<close>

definition record_elapsed :: "nat \<Rightarrow> MockBackend \<times> env \<Rightarrow> env" where
  "record_elapsed start s =
    (case s of (b, e) \<Rightarrow>
     if mb_metrics b
     then let (now, e1) = instant_now e in with_metrics (record_infer_latency_ns (min (now - start) usize_max)) e1
     else e)"

definition mock_poll :: "(nat \<Rightarrow> bool) \<Rightarrow> MockBackend \<times> env \<Rightarrow> InferPoll runtime_result \<times> MockBackend \<times> env" where
  "mock_poll can_reserve s =
    (case s of (b, e) \<Rightarrow>
     let (now, e1) = instant_now e
     in case scan_ready now 0 None (mb_pending b) of
          None \<Rightarrow> (Inr PollPending, b, e1)
        | Some (index, _) \<Rightarrow>
            let pending = mb_pending b ! index;
                b1 = b\<lparr> mb_pending := remove_at index (mb_pending b) \<rparr>
            in case produce_outputs can_reserve b1 (di_inputs pending) e1 of
                 (Inl err, e2) \<Rightarrow> (Inl err, b1, drop_tensors (di_inputs pending) e2)
               | (Inr outputs, e2) \<Rightarrow>
                   (Inr (PollReady outputs (di_sequence pending)), b1, drop_tensors (di_inputs pending) (record_elapsed (di_submitted pending) (b1, e2))))"

text \<open>The loop of \<open>run\<close> polls until something is ready; it sleeps between polls.\<close>

partial_function (option) mock_wait ::
  "(nat \<Rightarrow> bool) \<Rightarrow> MockBackend \<times> env \<Rightarrow> (tensor list runtime_result \<times> MockBackend \<times> env) option"
where
  "mock_wait can_reserve s =
    (case mock_poll can_reserve s of
       (r, s1) \<Rightarrow>
         (case r of
            Inl err \<Rightarrow> Some (Inl err, s1)
          | Inr p \<Rightarrow>
              (case p of
                 PollReady outputs sequence \<Rightarrow> Some (Inr outputs, s1)
               | PollPending \<Rightarrow> mock_wait can_reserve s1
               | PollEndOfStream \<Rightarrow> Some (Inl (RBackend ''unexpected end of stream''), s1))))"

definition mock_run ::
  "(nat \<Rightarrow> bool) \<Rightarrow> tensor list \<Rightarrow> MockBackend \<times> env \<Rightarrow> (tensor list runtime_result \<times> MockBackend \<times> env) option"
where
  "mock_run can_reserve inputs s =
    (case s of (b, e) \<Rightarrow>
     let (start, e0) = instant_now e;
         ran = (if mock_is_async b
           then (case mock_submit inputs None 0 (b, e0) of
                   (Inl err, s1) \<Rightarrow> Some (Inl err, s1)
                 | (Inr _, s1) \<Rightarrow> mock_wait can_reserve s1)
           else (case produce_outputs can_reserve b inputs e0 of (r, e1) \<Rightarrow> Some (r, b, e1)))
     in map_option (\<lambda>(r, b1, e1). (r, b1, if is_ok r then record_elapsed start (b1, e1) else e1)) ran)"

definition mock_cancel :: "MockBackend \<times> env \<Rightarrow> CancelReport runtime_result \<times> MockBackend \<times> env" where
  "mock_cancel s =
    (case s of (b, e) \<Rightarrow>
     let requested = min (length (mb_pending b)) usize_max
     in (Inr (cancel_report_default\<lparr> cr_requested := requested, cr_completed := requested \<rparr>), b\<lparr> mb_pending := [] \<rparr>,
         fold (\<lambda>d. drop_tensors (di_inputs d)) (mb_pending b) e))"

definition mock_probe :: "MockBackend \<Rightarrow> RuntimeCapabilities runtime_result" where
  "mock_probe b =
    (let mode = (if mock_is_async b then NativeAsync else BoundedSync)
     in Inr \<lparr> rc_sdk_version = Some ''mock-1'', rc_devices = [Cpu], rc_device_count = 1, rc_precisions = [dt_F32], rc_deploy_modes = [Host_mode],
          rc_execution_mode = mode,
          rc_device_records = [\<lparr> rd_kind = Cpu, rd_logical_id = ''mock-0'', rd_runtime_name = ''mock'', rd_async_capable = mock_is_async b,
            rd_external_memory = False, rd_remote_tensor = False, rd_execution_mode = mode, rd_verified_precisions = [dt_F32] \<rparr>] \<rparr>)"

definition mock_ops :: "(nat \<Rightarrow> bool) \<Rightarrow> MockBackend InferBackend" where
  "mock_ops can_reserve =
    \<lparr> ib_kind = (\<lambda>_. MockKind), ib_init = mock_init, ib_reshape = mock_reshape,
      ib_input_count = (\<lambda>b. length (mb_input_infos b)), ib_output_count = (\<lambda>b. length (mb_output_infos b)),
      ib_input_info = mock_input_info, ib_output_info = mock_output_info, ib_input_infos = mb_input_infos, ib_output_infos = mb_output_infos,
      ib_run = mock_run can_reserve, ib_run_with_stream = (\<lambda>inputs stream. mock_run can_reserve inputs),
      ib_is_async = mock_is_async, ib_max_in_flight = mock_max_in_flight, ib_in_flight = mock_in_flight,
      ib_submit = mock_submit, ib_poll = mock_poll can_reserve, ib_attach_metrics = (\<lambda>b. b\<lparr> mb_metrics := True \<rparr>),
      ib_cancel = mock_cancel, ib_probe_capabilities = mock_probe \<rparr>"

definition mock_descriptor :: "(Value \<Rightarrow> string + MockConfig) \<Rightarrow> MockBackend BackendDescriptor" where
  "mock_descriptor from_value = \<lparr> be_kind = MockKind, be_name = ''mock'', be_create = mock_new, be_configure = configure_mock from_value \<rparr>"

section \<open>Which submission a poll answers\<close>

text \<open>The best of some submissions at a moment: the earliest that is due, the first among equals.\<close>

definition earliest_due :: "nat \<Rightarrow> DelayedInference list \<Rightarrow> (nat \<times> nat) option \<Rightarrow> bool" where
  "earliest_due now ds r \<longleftrightarrow>
    (case r of
       None \<Rightarrow> \<forall>d \<in> set ds. now < di_finish d
     | Some (j, f) \<Rightarrow> j < length ds \<and> f = di_finish (ds ! j) \<and> f \<le> now \<and>
         (\<forall>k < length ds. di_finish (ds ! k) \<le> now \<longrightarrow> f \<le> di_finish (ds ! k) \<and> (di_finish (ds ! k) = f \<longrightarrow> j \<le> k)))"

lemma earliest_due_snoc:
  assumes "earliest_due now ds r"
  shows "earliest_due now (ds @ [d])
    (if di_finish d \<le> now \<and> (case r of None \<Rightarrow> True | Some (_, finish) \<Rightarrow> di_finish d < finish) then Some (length ds, di_finish d) else r)"
  using assms by (auto simp: earliest_due_def nth_append less_Suc_eq split: option.splits) (fastforce dest: nth_mem)+

lemma scan_ready_earliest: "earliest_due now pre ready \<Longrightarrow> earliest_due now (pre @ ds) (scan_ready now (length pre) ready ds)"
proof (induction ds arbitrary: pre ready)
  case (Cons d ds)
  show ?case using Cons.IH [OF earliest_due_snoc [OF Cons.prems, of d]] by (auto split: if_splits)
qed simp

lemma scan_ready_all: "earliest_due now ds (scan_ready now 0 None ds)"
  using scan_ready_earliest [of now "[]" None ds] by (simp add: earliest_due_def)

lemma mset_remove_at: "i < length xs \<Longrightarrow> mset xs = add_mset (xs ! i) (mset (remove_at i xs))"
  by (subst id_take_nth_drop [of i xs]) (auto simp: remove_at_def)

section \<open>The backend keeps the contract of the runtime\<close>

definition mock_outstanding :: "MockBackend \<Rightarrow> nat list" where
  "mock_outstanding b = map di_sequence (mb_pending b)"

lemma mock_env [simp]:
  "env_metrics (snd (produce_outputs can_reserve b inputs e)) = env_metrics e"
  "bm_in_flight (env_metrics (record_elapsed start s)) = bm_in_flight (env_metrics (snd s))"
  "env_metrics (fold (\<lambda>d. drop_tensors (di_inputs d)) ds e) = env_metrics e"
  subgoal by (auto simp: produce_outputs_def split: prod.splits)
  subgoal by (cases s) (auto simp: record_elapsed_def instant_now_def Let_def)
  subgoal by (induction ds arbitrary: e) auto
  done

lemma mock_poll_cases:
  assumes "mock_poll can_reserve (b, e) = (r, b', e')"
  obtains (idle) "r = Inr PollPending" "b' = b" "e' = snd (instant_now e)" "\<forall>d \<in> set (mb_pending b). fst (instant_now e) < di_finish d"
  | (answered) i where "earliest_due (fst (instant_now e)) (mb_pending b) (Some (i, di_finish (mb_pending b ! i)))"
      "b' = b\<lparr> mb_pending := remove_at i (mb_pending b) \<rparr>" "bm_in_flight (env_metrics e') = bm_in_flight (env_metrics e)"
      "\<And>err. r = Inl err \<Longrightarrow> fst (produce_outputs can_reserve b' (di_inputs (mb_pending b ! i)) (snd (instant_now e))) = Inl err"
      "\<And>p. r = Inr p \<Longrightarrow> \<exists>outputs. p = PollReady outputs (di_sequence (mb_pending b ! i)) \<and>
        fst (produce_outputs can_reserve b' (di_inputs (mb_pending b ! i)) (snd (instant_now e))) = Inr outputs"
proof (cases "scan_ready (fst (instant_now e)) 0 None (mb_pending b)")
  case None
  with assms scan_ready_all [of "fst (instant_now e)" "mb_pending b"] show thesis
    by (intro idle) (auto simp: mock_poll_def Let_def earliest_due_def split: prod.splits)
next
  case (Some x)
  obtain i f where x: "x = (i, f)" by (cases x)
  let ?b = "b\<lparr> mb_pending := remove_at i (mb_pending b) \<rparr>"
  obtain r2 e2 where p: "produce_outputs can_reserve ?b (di_inputs (mb_pending b ! i)) (snd (instant_now e)) = (r2, e2)" by (cases "produce_outputs can_reserve ?b (di_inputs (mb_pending b ! i)) (snd (instant_now e))")
  then have e2: "env_metrics e2 = env_metrics e" using mock_env(1) [of can_reserve ?b "di_inputs (mb_pending b ! i)" "snd (instant_now e)"] by simp
  show thesis
    using assms Some x p e2 scan_ready_all [of "fst (instant_now e)" "mb_pending b"]
    by (intro answered [of i]) (auto simp: mock_poll_def Let_def earliest_due_def split: prod.splits sum.splits)
qed

lemma mock_is_async_pending [simp]: "mock_is_async (b\<lparr> mb_pending := ds \<rparr>) = mock_is_async b"
  by (simp add: mock_is_async_def)

interpretation mock: infer_backend "mock_ops can_reserve" mock_outstanding for can_reserve
proof (unfold_locales, goal_cases)
  case (1 b)
  then show ?case by (simp add: mock_ops_def mock_in_flight_def mock_outstanding_def)
next
  case (2 b inputs stream sequence e u b' e')
  then show ?case
    by (auto simp: mock_ops_def mock_submit_def mock_outstanding_def instant_now_def Let_def split: if_splits option.splits prod.splits)
next
  case (3 b inputs stream sequence e err b' e')
  then show ?case
    by (auto simp: mock_ops_def mock_submit_def mock_outstanding_def instant_now_def Let_def split: if_splits option.splits prod.splits)
next
  case (4 b e outputs sequence b' e')
  then have "mock_poll can_reserve (b, e) = (Inr (PollReady outputs sequence), b', e')" by (simp add: mock_ops_def)
  then show ?case using 4(1)
    by (cases rule: mock_poll_cases) (auto simp: mock_ops_def mock_outstanding_def earliest_due_def dest!: mset_remove_at)
next
  case (5 b e r b' e')
  then have "mock_poll can_reserve (b, e) = (Inr r, b', e')" by (simp add: mock_ops_def)
  then show ?case using 5(1,3) by (cases rule: mock_poll_cases) (auto simp: mock_ops_def)
next
  case (6 b e err b' e')
  then have "mock_poll can_reserve (b, e) = (Inl err, b', e')" by (simp add: mock_ops_def)
  then show ?case using 6(1)
    by (cases rule: mock_poll_cases) (auto simp: mock_ops_def mock_outstanding_def earliest_due_def dest!: mset_remove_at)
next
  case (7 b e report b' e')
  then show ?case
    by (auto simp: mock_ops_def mock_cancel_def mock_outstanding_def cancel_report_default_def Let_def intro!: exI [of _ "map di_sequence (mb_pending b)"])
next
  case (8 b e err b' e')
  then show ?case by (auto simp: mock_ops_def mock_cancel_def Let_def)
next
  case (9 b inputs stream e result b' e')
  obtain r1 e1 where "produce_outputs can_reserve b inputs (snd (instant_now e)) = (r1, e1)" by (metis surj_pair)
  moreover from this have "env_metrics e1 = env_metrics e" using mock_env(1) [of can_reserve b inputs "snd (instant_now e)"] by simp
  ultimately show ?case using 9 by (auto simp: mock_ops_def mock_run_def Let_def split: prod.splits if_splits)
qed

section \<open>Properties\<close>

lemma new_with_metrics_ok:
  assumes "new_with_metrics ops debug_records files registered option = Inr rt"
  obtains created backend caps where "create_backend registered (ro_backend option) = Inr created"
    and "ib_init ops option (ib_attach_metrics ops created) = (Inr (), backend)" and "ib_probe_capabilities ops backend = Inr caps"
    and "validate_probed_capabilities debug_records (ro_backend option) option caps = Inr ()"
    and "rt = \<lparr> rt_backend = backend, rt_capabilities = caps, rt_next_sequence = 0, rt_sync_result = None,
      rt_max_in_flight = max (ib_max_in_flight ops backend) 1, rt_process_policy = ro_process_policy option \<rparr>"
proof -
  from assms obtain created where c: "create_backend registered (ro_backend option) = Inr created"
    by (auto simp: new_with_metrics_def result_simps)
  obtain r backend where i: "ib_init ops option (ib_attach_metrics ops created) = (r, backend)" by (metis surj_pair)
  with assms c obtain u where "r = Inr u" by (cases r) (auto simp: new_with_metrics_def result_simps)
  with assms c i show thesis by (auto simp: new_with_metrics_def result_simps intro: that)
qed

lemma mock_init_ok:
  assumes "mock_init option b = (Inr u, b')"
  shows "mb_pending b' = mb_pending b \<and> as_mock (ro_backend_options option) = Some (mb_options b')"
  using assms by (auto simp: mock_init_def simp del: run_checks.simps split: sum.splits option.splits)

lemma mock_runtime_new:
  assumes "new_with_metrics (mock_ops can_reserve) debug_records files [mock_descriptor from_value] option = Inr rt"
  shows "rt_outstanding (mock_ops can_reserve) mock_outstanding rt = [] \<and> rt_sync_result rt = None \<and> rt_max_in_flight rt = mock_max_in_flight (rt_backend rt)"
  using assms
proof (rule new_with_metrics_ok)
  fix created backend caps
  assume "create_backend [mock_descriptor from_value] (ro_backend option) = Inr created"
    and init: "ib_init (mock_ops can_reserve) option (ib_attach_metrics (mock_ops can_reserve) created) = (Inr (), backend)"
    and rt: "rt = \<lparr> rt_backend = backend, rt_capabilities = caps, rt_next_sequence = 0, rt_sync_result = None,
      rt_max_in_flight = max (ib_max_in_flight (mock_ops can_reserve) backend) 1, rt_process_policy = ro_process_policy option \<rparr>"
  then have "created = mock_new" by (auto simp: create_backend_def mock_descriptor_def result_simps split: if_splits)
  then have "mb_pending backend = []" using mock_init_ok [of option "mock_new\<lparr> mb_metrics := True \<rparr>" "()" backend] init by (simp add: mock_ops_def mock_new_def)
  then show ?thesis by (simp add: rt mock_ops_def rt_outstanding_def sync_outstanding_def mock_outstanding_def mock_max_in_flight_def clamp_in_flight_def)
qed

text \<open>C9. Every submission is accounted for: through any sequence of submissions, polls and cancels of a new runtime over the mock backend, accepted
  submissions carry increasing sequence numbers; each of them is answered once, lost once to an error or a cancel, or still waiting;
  and the count in flight of the metrics is the number waiting, which never exceeds the limit.  A synchronous backend needs a limit of one for this.\<close>

theorem runtime_accounts_submissions:
  assumes "runtime_new (mock_ops can_reserve) debug_records files [mock_descriptor from_value] option e0 = (Inr rt, e)"
    and "mock_is_async (rt_backend rt) \<or> rt_max_in_flight rt = 1"
    and "(client_step (mock_ops can_reserve))\<^sup>*\<^sup>* (session_start rt e) s"
  shows "sorted_wrt (<) (ss_submitted s) \<and>
    (\<exists>lost. mset (ss_submitted s) = mset (ss_returned s) + mset lost + mset (rt_outstanding (mock_ops can_reserve) mock_outstanding (ss_runtime s)) \<and>
      length lost = ss_lost s) \<and>
    runtime_in_flight (ss_env s) = length (rt_outstanding (mock_ops can_reserve) mock_outstanding (ss_runtime s)) \<and>
    runtime_in_flight (ss_env s) \<le> rt_max_in_flight rt \<and> rt_max_in_flight rt \<le> 64"
proof -
  have "new_with_metrics (mock_ops can_reserve) debug_records files [mock_descriptor from_value] option = Inr rt" and e: "e = e0\<lparr> env_metrics := backend_metrics_default \<rparr>"
    using assms(1) by (auto simp: runtime_new_def)
  note new = mock_runtime_new [OF this(1)]
  then have limit: "rt_max_in_flight rt \<le> 64" by (auto simp: mock_max_in_flight_def clamp_in_flight_def)
  have "mock.session_ok can_reserve (session_start rt e)"
    by (rule mock.session_start_ok) (use new limit assms(2) in \<open>auto simp: e backend_metrics_default_def usize_max_def mock_ops_def\<close>)
  from mock.sessions.reachable [OF assms(3) this] show ?thesis
    using limit by (auto simp: mock.session_ok_def runtime_in_flight_def session_start_def)
qed

text \<open>C37. A synchronous backend with a limit above one loses results: a second submission before a poll is accepted and replaces the result of the first,
  whose sequence number is never answered, and the count in flight stays at one when nothing is left to poll.\<close>

theorem sync_submit_overwrites:
  assumes "\<not> mock_is_async (rt_backend rt)" and "rt_max_in_flight rt \<ge> 2" and "rt_sync_result rt = None" and "bm_in_flight (env_metrics e) = 0"
    and "runtime_submit (mock_ops can_reserve) inputs1 None (rt, e) = Some (Inr first, rt1, e1)"
    and "runtime_submit (mock_ops can_reserve) inputs2 None (rt1, e1) = Some (Inr second, rt2, e2)"
  shows "\<exists>outputs rt3 e3. runtime_poll (mock_ops can_reserve) (rt2, e2) = (Inr (PollReady outputs second), rt3, e3) \<and> second = Suc first \<and>
    runtime_poll (mock_ops can_reserve) (rt3, e3) = (Inr PollPending, rt3, e3) \<and> runtime_in_flight e3 = 1"
proof -
  note ops = mock_ops_def [of can_reserve]
  have 1: "\<not> mock_is_async (rt_backend rt1) \<and> rt_next_sequence rt = first \<and> rt_next_sequence rt1 = Suc first \<and> bm_in_flight (env_metrics e1) = 1"
    using assms(1,4,5) mock.sync_run [of can_reserve "rt_backend rt"]
    by (auto simp: runtime_submit_def ops checked_add_def Let_def usize_max_def split: if_splits option.splits prod.splits sum.splits)
  obtain outputs where 2: "\<not> mock_is_async (rt_backend rt2) \<and> rt_sync_result rt2 = Some (second, outputs) \<and> second = Suc first \<and> bm_in_flight (env_metrics e2) = 2"
    using 1 assms(6) mock.sync_run [of can_reserve "rt_backend rt1"]
    by (auto simp: runtime_submit_def ops checked_add_def Let_def usize_max_def split: if_splits option.splits prod.splits sum.splits)
  then show ?thesis by (auto simp: runtime_poll_def ops runtime_in_flight_def)
qed

text \<open>The waiting loop ends once the clock has passed the finish of some submission.\<close>

lemma mock_wait_returns:
  assumes "mono (env_clock e)" and "d \<in> set (mb_pending b)" and "di_finish d \<le> env_clock e k"
  shows "\<exists>r. mock_wait can_reserve (b, e) = Some r"
  using assms
proof (induction "k - env_reads e" arbitrary: e rule: less_induct)
  case less
  obtain r b' e' where p: "mock_poll can_reserve (b, e) = (r, b', e')" by (metis prod_cases3)
  then show ?case
  proof (cases rule: mock_poll_cases)
    case idle
    then have "env_clock e (env_reads e) < di_finish d" using less.prems(2) by (auto simp: instant_now_def)
    then have "env_reads e < k" using less.prems(1,3) by (metis leD le_trans linorder_not_less monoD)
    then have "\<exists>r. mock_wait can_reserve (b, e') = Some r" using less.prems idle by (intro less.hyps) (auto simp: instant_now_def)
    then show ?thesis using idle p by (subst mock_wait.simps) simp
  next
    case (answered i)
    then show ?thesis using p by (subst mock_wait.simps) (cases r; fastforce)
  qed
qed

text \<open>Running an inference returns: on any runtime over the mock backend, synchronous or delayed and with other submissions waiting or not,
  \<open>run\<close> gives a result or an error after finitely many polls, as long as the clock does not go back and passes every moment.\<close>

lemma mock_run_returns:
  assumes "mono (env_clock e)" and "\<And>t. \<exists>k. t \<le> env_clock e k"
  shows "\<exists>r. runtime_run (mock_ops can_reserve) inputs (rt, e) = Some r"
proof -
  have "\<exists>r. mock_run can_reserve inputs (b, e) = Some r" for b
  proof (cases "mock_is_async b")
    case True
    obtain r b1 e1 where s: "mock_submit inputs None 0 (b, snd (instant_now e)) = (r, b1, e1)" by (metis prod_cases3)
    show ?thesis
    proof (cases r)
      case (Inr u)
      then have "mb_pending b1 \<noteq> []" and c: "env_clock e1 = env_clock e"
        using s by (auto simp: mock_submit_def instant_now_def clone_tensors_def Let_def split: if_splits option.splits)
      then obtain d where d: "d \<in> set (mb_pending b1)" by (meson hd_in_set)
      obtain k where "di_finish d \<le> env_clock e1 k" using assms(2) c by metis
      with mock_wait_returns [of e1 d b1] d c assms(1) show ?thesis using True s Inr by (auto simp: mock_run_def Let_def split: prod.splits)
    qed (use True s in \<open>auto simp: mock_run_def Let_def split: prod.splits\<close>)
  qed (auto simp: mock_run_def Let_def split: prod.splits)
  then obtain r where "mock_run can_reserve inputs (rt_backend rt, e) = Some r" by blast
  then show ?thesis by (cases r) (simp add: runtime_run_def mock_ops_def)
qed

section \<open>Examples\<close>

definition sample_option :: "nat option \<Rightarrow> RuntimeOption" where
  "sample_option delay = runtime_option_new MockKind (ModelBytes [])
    (MockOpts (mock_options_default\<lparr> mo_input_infos := [], mo_output_infos := [], mo_delay := delay, mo_max_in_flight := 2 \<rparr>))"

definition mock_env0 :: env where
  "mock_env0 = \<lparr> env_store = store_empty, env_metrics = backend_metrics_default, env_clock = (\<lambda>n. 10 * n), env_reads = 0 \<rparr>"

definition sample_runtime :: "nat option \<Rightarrow> MockBackend Runtime" where
  "sample_runtime delay =
    (let b = \<lparr> mb_options = mock_options_default\<lparr> mo_input_infos := [], mo_output_infos := [], mo_delay := delay, mo_max_in_flight := 2 \<rparr>,
           mb_input_infos = [], mb_output_infos = [], mb_pending = [], mb_metrics = True \<rparr>
     in \<lparr> rt_backend = b, rt_capabilities = projr (mock_probe b), rt_next_sequence = 0, rt_sync_result = None, rt_max_in_flight = 2,
          rt_process_policy = process_policy_default \<rparr>)"

abbreviation all_reserve :: "nat \<Rightarrow> bool" where
  "all_reserve \<equiv> \<lambda>_. True"

lemma sample_runtime_new:
  "runtime_new (mock_ops all_reserve) debug_records files [mock_descriptor from_value] (sample_option delay) mock_env0 = (Inr (sample_runtime delay), mock_env0)"
  by (simp add: runtime_new_def new_with_metrics_def sample_option_def runtime_option_new_def validate_runtime_option_def require_supported_def
      ensure_model_source_fits_def fail_if_def create_backend_def mock_descriptor_def mock_ops_def mock_init_def as_mock_def mock_new_def mock_probe_def
      validate_probed_capabilities_def Let_def sample_runtime_def mock_max_in_flight_def clamp_in_flight_def mock_env0_def mock_options_default_def)

lemmas sample_eval = runtime_submit_def runtime_poll_def current_in_flight_def mock_ops_def mock_submit_def mock_poll_def mock_run_def mock_is_async_def
  mock_in_flight_def mock_max_in_flight_def clamp_in_flight_def mock_delay_def MAX_MOCK_DELAY_def MAX_MOCK_DELAY_MS_def from_millis_def instant_now_def
  INSTANT_MAX_def produce_outputs_def remove_at_def checked_add_def usize_max_def sample_runtime_def mock_env0_def mock_options_default_def Let_def

text \<open>Two submissions and a poll.\<close>

lemma sample_session:
  "\<exists>s. (client_step (mock_ops all_reserve))\<^sup>*\<^sup>* (session_start (sample_runtime (Some 5)) mock_env0) s \<and>
    ss_submitted s = [0, 1] \<and> ss_returned s = [0] \<and> ss_lost s = 0"
proof -
  let ?ops = "mock_ops all_reserve"
  obtain rt1 e1 where 1: "runtime_submit ?ops [] None (sample_runtime (Some 5), mock_env0) = Some (Inr 0, rt1, e1)"
    and s1: "rt_backend rt1 = (rt_backend (sample_runtime (Some 5)))\<lparr> mb_pending := [\<lparr> di_sequence = 0, di_submitted = 0, di_finish = 5, di_inputs = [] \<rparr>] \<rparr>"
      "rt_next_sequence rt1 = 1" "rt_max_in_flight rt1 = 2" "env_clock e1 = (\<lambda>n. 10 * n)" "env_reads e1 = 1"
    by (simp add: sample_eval with_metrics_def clone_tensors_def)
  obtain rt2 e2 where 2: "runtime_submit ?ops [] None (rt1, e1) = Some (Inr 1, rt2, e2)"
    and s2: "rt_backend rt2 = (rt_backend rt1)\<lparr> mb_pending := mb_pending (rt_backend rt1) @ [\<lparr> di_sequence = 1, di_submitted = 10, di_finish = 15, di_inputs = [] \<rparr>] \<rparr>"
      "env_clock e2 = (\<lambda>n. 10 * n)" "env_reads e2 = 2"
    using s1 by (simp add: sample_eval with_metrics_def clone_tensors_def)
  obtain outputs rt3 e3 where 3: "runtime_poll ?ops (rt2, e2) = (Inr (PollReady outputs 0), rt3, e3)"
    using s1 s2 by (simp add: sample_eval)
  let ?s = "session_start (sample_runtime (Some 5)) mock_env0"
  let ?s1 = "?s\<lparr> ss_runtime := rt1, ss_env := e1, ss_submitted := ss_submitted ?s @ [0] \<rparr>"
  let ?s2 = "?s1\<lparr> ss_runtime := rt2, ss_env := e2, ss_submitted := ss_submitted ?s1 @ [1] \<rparr>"
  let ?s3 = "?s2\<lparr> ss_runtime := rt3, ss_env := e3, ss_returned := ss_returned ?s2 @ [0] \<rparr>"
  have "client_step ?ops ?s ?s1" using 1 by (intro submit_accepted) (simp add: session_start_def)
  moreover have "client_step ?ops ?s1 ?s2" using 2 by (intro submit_accepted) simp
  moreover have "client_step ?ops ?s2 ?s3" using 3 by (intro poll_answered) simp
  ultimately have "(client_step ?ops)\<^sup>*\<^sup>* ?s ?s3" by (meson converse_rtranclp_into_rtranclp rtranclp.rtrancl_refl)
  then show ?thesis by (intro exI [of _ ?s3]) (simp add: session_start_def)
qed

theorem runtime_accounts_submissions_witness:
  "\<exists>s :: MockBackend session. ss_submitted s = [0, 1] \<and> ss_returned s = [0] \<and> runtime_in_flight (ss_env s) = 1 \<and>
    rt_outstanding (mock_ops all_reserve) mock_outstanding (ss_runtime s) = [1]"
proof -
  obtain s where s: "(client_step (mock_ops all_reserve))\<^sup>*\<^sup>* (session_start (sample_runtime (Some 5)) mock_env0) s"
    "ss_submitted s = [0, 1]" "ss_returned s = [0]" "ss_lost s = 0" using sample_session by blast
  have "mock_is_async (rt_backend (sample_runtime (Some 5)))" by (simp add: sample_runtime_def mock_is_async_def Let_def)
  from runtime_accounts_submissions [OF sample_runtime_new disjI1 [OF this] s(1)] s(2-) show ?thesis
    by (intro exI [of _ s]) auto
qed

theorem sync_submit_overwrites_witness:
  "\<exists>rt2 e2 rt3 e3 outputs. runtime_poll (mock_ops all_reserve) (rt2, e2) = (Inr (PollReady outputs 1), rt3, e3) \<and> runtime_in_flight e3 = 1 \<and>
    runtime_poll (mock_ops all_reserve) (rt3, e3) = (Inr PollPending, rt3, e3)"
proof -
  let ?ops = "mock_ops all_reserve" and ?rt = "sample_runtime None"
  obtain rt1 e1 where 1: "runtime_submit ?ops [] None (?rt, mock_env0) = Some (Inr 0, rt1, e1)"
    and s1: "rt_backend rt1 = rt_backend ?rt" "rt_next_sequence rt1 = 1" "rt_max_in_flight rt1 = 2" "rt_sync_result rt1 \<noteq> None"
    by (simp add: sample_eval)
  obtain rt2 e2 where 2: "runtime_submit ?ops [] None (rt1, e1) = Some (Inr 1, rt2, e2)"
    using s1 by (simp add: sample_eval)
  show ?thesis
    using sync_submit_overwrites [OF _ _ _ _ 1 2] by (simp add: sample_runtime_def mock_env0_def mock_is_async_def backend_metrics_default_def mock_options_default_def Let_def) blast
qed

end
