(* ===== verification/InferenceNodes.thy ===== *)
theory InferenceNodes
  imports MockBackends InstancePools ElementIo
begin

text \<open>
  The inference element, \<open>dg-graph/src/inference.rs\<close>: reading its parameters, the lease of a device core or the pool of instances,
  and the loop that submits packets to runtimes and sends their outputs on.  The runtimes of a pool share one set of counters, so they
  live in one environment.  The process-wide scheduler is a state that other threads change between the turns of the loop.
\<close>

section \<open>Parameters\<close>

record InferenceParams =
  np_backend :: string
  np_model :: "string option"
  np_precision :: "string option"
  np_device :: "string option"
  np_deploy_mode :: "string option"
  np_core_mask :: "32 word option"
  np_instances :: nat
  np_schedule :: "string option"
  np_reshape :: "usize list option"
  np_options :: Value

record InferencePlan =
  pn_option :: RuntimeOption
  pn_reshape :: "shape option"
  pn_instances :: nat
  pn_policy :: SchedulingPolicy

definition infer_parse_dtype :: "string \<Rightarrow> data_type graph_result" where
  "infer_parse_dtype value = ok_or (map_of dtype_names value) (GConfig (''unsupported inference precision: '' @ value))"

definition infer_parse_device :: "string \<Rightarrow> DeviceKind graph_result" where
  "infer_parse_device value =
    ok_or (map_of [(''cpu'', Cpu), (''intel_gpu'', IntelGpu), (''intel_npu'', IntelNpu), (''cuda'', CudaGpu), (''cuda_gpu'', CudaGpu),
        (''rknn'', RknnNpu), (''rknn_npu'', RknnNpu), (''sophon'', SophonTpu), (''sophon_tpu'', SophonTpu)] value)
      (GConfig (''unsupported inference device: '' @ value))"

definition infer_parse_deploy_mode :: "string \<Rightarrow> DeployMode graph_result" where
  "infer_parse_deploy_mode value =
    ok_or (map_of [(''host'', Host_mode), (''soc'', SoC)] value) (GConfig (''unsupported inference deploy_mode: '' @ value))"

definition parse_schedule :: "string option \<Rightarrow> SchedulingPolicy graph_result" where
  "parse_schedule value =
    (let name = (case value of None \<Rightarrow> ''least_loaded'' | Some v \<Rightarrow> v)
     in ok_or (map_of [(''least_loaded'', LeastLoaded), (''round_robin'', RoundRobin)] name) (GConfig (''unsupported inference schedule: '' @ name)))"

text \<open>\<open>value.as_deref().map(parse).transpose()?\<close>.\<close>

definition parse_option :: "('a \<Rightarrow> 'e + 'b) \<Rightarrow> 'a option \<Rightarrow> 'e + 'b option" where
  "parse_option parse value = (case value of None \<Rightarrow> Inr None | Some v \<Rightarrow> and_then (parse v) (\<lambda>x. Inr (Some x)))"

definition options_device :: "(string \<times> Value) list \<Rightarrow> DeviceKind option graph_result" where
  "options_device m = parse_option infer_parse_device (case map_of m ''device'' of Some (String s) \<Rightarrow> Some s | _ \<Rightarrow> None)"

definition select_device :: "DeviceKind option \<Rightarrow> DeviceKind option \<Rightarrow> DeviceKind option graph_result" where
  "select_device top_level from_options =
    (case (top_level, from_options) of
       (Some node, Some opt) \<Rightarrow>
         if node \<noteq> opt
         then Inl (GConfig (''graph `device` ('' @ debug_device_kind node @ '') conflicts with `options.device` ('' @ debug_device_kind opt @ '')''))
         else Inr (Some node)
     | (Some node, None) \<Rightarrow> Inr (Some node)
     | (None, Some opt) \<Rightarrow> Inr (Some opt)
     | (None, None) \<Rightarrow> Inr None)"

text \<open>The messages of runtime errors, which the graph keeps as text.\<close>

fun display_runtime_error :: "runtime_error \<Rightarrow> string" where
  "display_runtime_error (RCore err) = display_core_error err"
| "display_runtime_error (RInvalidOption m) = ''invalid option: '' @ m"
| "display_runtime_error (RUnsupportedBackend kind) = ''unsupported backend: '' @ debug_backend_kind kind"
| "display_runtime_error (RUnsupportedBackendName name) = ''unsupported backend: '' @ name"
| "display_runtime_error (RUnsupportedPrecision p) = ''unsupported precision: '' @ debug_data_type p"
| "display_runtime_error (RUnsupportedDevice d) = ''unsupported device: '' @ debug_device_kind d"
| "display_runtime_error (RUnsupportedDeployment m) = ''unsupported deployment mode: '' @ debug_deploy_mode m"
| "display_runtime_error (RUnsupportedModelSource m) = ''unsupported model source: '' @ m"
| "display_runtime_error (RBackendUnavailable m) = ''backend unavailable: '' @ m"
| "display_runtime_error (RBackend m) = ''backend error: '' @ m"
| "display_runtime_error (RCapabilityUnsupported m) = ''capability unsupported: '' @ m"
| "display_runtime_error (RIo m) = ''IO error: '' @ m"
| "display_runtime_error RSequenceExhausted = ''sequence number space exhausted while in-flight requests remain''"

abbreviation runtime_failed :: "'a runtime_result \<Rightarrow> 'a graph_result" where
  "runtime_failed \<equiv> map_err (\<lambda>err. GRuntimeBackend (display_runtime_error err))"

definition prepare_inference ::
  "(Value \<Rightarrow> string + InferenceParams) \<Rightarrow> 'b BackendDescriptor list \<Rightarrow> Value \<Rightarrow> InferencePlan graph_result"
where
  "prepare_inference from_value registered value =
    and_then (map_err (\<lambda>err. GConfig (''invalid parameters: '' @ err)) (from_value value)) (\<lambda>params.
    let options = (case np_options params of Object m \<Rightarrow> m | _ \<Rightarrow> []) in
    and_then (parse_option infer_parse_device (np_device params)) (\<lambda>top_level.
    and_then (options_device options) (\<lambda>from_options.
    and_then (select_device top_level from_options) (\<lambda>device.
    let config0 = backend_config_new (np_model params) (Object (filter (\<lambda>kv. fst kv \<noteq> ''device'') options)) in
    and_then (parse_option infer_parse_dtype (np_precision params)) (\<lambda>precision.
    let config1 = (case precision of Some p \<Rightarrow> config_with_precision p config0 | None \<Rightarrow> config0);
        config2 = (case device of Some d \<Rightarrow> config_with_device d config1 | None \<Rightarrow> config1) in
    and_then (parse_option infer_parse_deploy_mode (np_deploy_mode params)) (\<lambda>mode.
    let config3 = (case mode of Some m \<Rightarrow> config_with_deploy_mode m config2 | None \<Rightarrow> config2);
        config4 = (case np_core_mask params of Some cores \<Rightarrow> config_with_core_mask cores config3 | None \<Rightarrow> config3) in
    and_then (runtime_failed (configure_backend registered (np_backend params) config4)) (\<lambda>option.
    and_then (runtime_failed (validate_runtime_option option)) (\<lambda>_.
    and_then (parse_schedule (np_schedule params)) (\<lambda>policy.
    Inr \<lparr> pn_option = option, pn_reshape = map_option shape_new (np_reshape params), pn_instances = np_instances params, pn_policy = policy \<rparr>)))))))))"

definition validate_inference :: "(Value \<Rightarrow> string + InferenceParams) \<Rightarrow> 'b BackendDescriptor list \<Rightarrow> Value \<Rightarrow> unit graph_result" where
  "validate_inference from_value registered params = and_then (prepare_inference from_value registered params) (\<lambda>_. Inr ())"

definition inference_model_bytes ::
  "(Value \<Rightarrow> string + InferenceParams) \<Rightarrow> 'b BackendDescriptor list \<Rightarrow> model_files \<Rightarrow> Value \<Rightarrow> resource_policy \<Rightarrow> unit graph_result"
where
  "inference_model_bytes from_value registered files params policy =
    and_then (prepare_inference from_value registered params) (\<lambda>plan.
    and_then (runtime_failed (model_source_size files (ro_model_source (pn_option plan)))) (\<lambda>size.
    map_err GCore (check_model_bytes policy size)))"

section \<open>Devices\<close>

definition requested_core_selection :: "RuntimeOption \<Rightarrow> CoreSelection" where
  "requested_core_selection option =
    (if is_explicit (ro_core option) then ro_core option
     else case ro_core_mask option of Some cores \<Rightarrow> Mask cores | None \<Rightarrow> Auto)"

definition place_option :: "Topology \<Rightarrow> DeviceKind \<Rightarrow> 16 word \<Rightarrow> 8 word \<Rightarrow> RuntimeOption \<Rightarrow> RuntimeOption" where
  "place_option topology kind device_id core option =
    option\<lparr> ro_device := Some kind, ro_device_id := Some device_id, ro_core := Single core, ro_core_mask := None,
      ro_deploy_mode := (case ro_deploy_mode option of None \<Rightarrow> Some (tp_deployment topology) | mode \<Rightarrow> mode) \<rparr>"

definition option_for_placement :: "Topology \<Rightarrow> RuntimeOption \<Rightarrow> Placement \<Rightarrow> RuntimeOption" where
  "option_for_placement topology base placement =
    place_option topology (pc_kind placement) (pc_device_id placement) (pc_core_id placement) base"

text \<open>\<open>{mask:#010x}\<close>: eight hexadecimal digits.\<close>

definition show_mask :: "32 word \<Rightarrow> string" where
  "show_mask cores = ''0x'' @ map (\<lambda>i. ''0123456789abcdef'' ! (unat cores div 16 ^ i mod 16)) (rev [0..<8])"

fun display_sched_error :: "sched_error \<Rightarrow> string" where
  "display_sched_error EmptyTopology = ''topology cannot be empty''"
| "display_sched_error (DuplicateDevice kind i) = ''duplicate device: kind='' @ debug_device_kind kind @ '', id='' @ show_nat (unat i)"
| "display_sched_error (EmptyDevice kind i) = ''device '' @ debug_device_kind kind @ '':'' @ show_nat (unat i) @ '' has no cores''"
| "display_sched_error (CoreIdOutOfRange kind i core) =
    ''core id '' @ show_nat (unat core) @ '' on device '' @ debug_device_kind kind @ '':'' @ show_nat (unat i) @ '' exceeds mask capacity''"
| "display_sched_error (DuplicateCore kind i core) =
    ''duplicate core id '' @ show_nat (unat core) @ '' on device '' @ debug_device_kind kind @ '':'' @ show_nat (unat i)"
| "display_sched_error (UnknownDevice kind i) = ''unknown device '' @ debug_device_kind kind @ '':'' @ show_nat (unat i)"
| "display_sched_error (NoMatchingDevice kind) = ''no device of kind '' @ debug_device_kind kind @ '' matched the request''"
| "display_sched_error (InvalidCoreMask cores) = ''requested core mask '' @ show_mask cores @ '' does not match any core''"
| "display_sched_error (MissingCore cores core) = ''requested core mask '' @ show_mask cores @ '' selects unavailable core '' @ show_nat (unat core)"
| "display_sched_error NoAvailableCore = ''scheduler has no available cores for the request''"
| "display_sched_error InvalidInstanceCount = ''instance pool must contain at least one instance''"
| "display_sched_error (InstanceCountOutOfRange requested limit) =
    ''instance count '' @ show_nat requested @ '' exceeds maximum '' @ show_nat limit"
| "display_sched_error LoadOverflow = ''scheduler core load overflow''"

text \<open>The scheduler of the process: its topology, or the text of the error of its only initialization.\<close>

definition inference_scheduler :: "string + Topology \<Rightarrow> Topology graph_result" where
  "inference_scheduler initialized = map_err (\<lambda>err. GConfig (''failed to initialize inference scheduler: '' @ err)) initialized"

definition acquire_inference_lease ::
  "nat \<Rightarrow> nat \<Rightarrow> string + Topology \<Rightarrow> RuntimeOption \<Rightarrow> SchedulerState \<Rightarrow> (RuntimeOption \<times> Lease option) graph_result \<times> SchedulerState"
where
  "acquire_inference_lease t1 t2 initialized option st =
    (case ro_device option of
       None \<Rightarrow> (Inr (option, None), st)
     | Some kind \<Rightarrow>
         (case inference_scheduler initialized of
            Inl err \<Rightarrow> (Inl err, st)
          | Inr topology \<Rightarrow>
              let selection = requested_core_selection option;
                  request = (case ro_device_id option of
                      Some device_id \<Rightarrow> request_explicit kind device_id selection
                    | None \<Rightarrow> with_core_selection (request_auto kind) selection)
              in case scheduler_acquire t1 t2 request st of
                   (Inl err, st1) \<Rightarrow>
                     (Inl (GConfig (''scheduler could not acquire '' @ debug_device_kind kind @ '' device/core lease: '' @ display_sched_error err)), st1)
                 | (Inr lease, st1) \<Rightarrow>
                     (Inr (place_option topology (fst (le_device lease)) (snd (le_device lease)) (le_core_id lease) option, Some lease), st1)))"

section \<open>Execution\<close>

datatype 'b InferenceExecution =
  SingleExecution "'b Runtime" "Lease option"
| PoolExecution "'b Runtime list" InstancePool SchedulingPolicy usize

record PendingInference =
  pi_runtime_index :: nat
  pi_sequence :: nat
  pi_meta :: PacketMeta
  pi_pool_lease :: "PooledLease option"

definition has_capacity :: "env \<Rightarrow> 'b InferenceExecution \<Rightarrow> bool" where
  "has_capacity e execution =
    (case execution of
       SingleExecution rt lease \<Rightarrow> runtime_in_flight e < rt_max_in_flight rt
     | PoolExecution rts pool policy cursor \<Rightarrow> list_ex (\<lambda>rt. runtime_in_flight e < rt_max_in_flight rt) rts)"

text \<open>The readings of the clock that a checkout makes.\<close>

type_synonym readings = "nat \<times> nat \<times> nat \<times> nat"

text \<open>\<open>InferenceExecution::submit\<close>; the input is given by value and dropped at the end.  A checkout is dropped, and its lease released, when the
  submission fails.  \<open>None\<close>: a synchronous backend does not return.\<close>

definition exec_submit ::
  "'b InferBackend \<Rightarrow> readings \<Rightarrow> tensor \<Rightarrow> string option \<Rightarrow> 'b InferenceExecution \<times> env \<times> SchedulerState \<Rightarrow>
    ((nat \<times> nat \<times> PooledLease option) graph_result outcome \<times> 'b InferenceExecution \<times> env \<times> SchedulerState) option"
where
  "exec_submit ops clocks input stream_id s =
    (case s of (execution, e, st) \<Rightarrow>
     case execution of
       SingleExecution rt lease \<Rightarrow>
         (case runtime_submit ops [input] None (rt, e) of
            None \<Rightarrow> None
          | Some (r, rt1, e1) \<Rightarrow>
              Some (Returned (and_then (runtime_failed r) (\<lambda>sequence. Inr (0, sequence, None))), SingleExecution rt1 lease, drop_tensors [input] e1, st))
     | PoolExecution rts pool policy cursor \<Rightarrow>
         (case clocks of (t0, t1, t2, t3) \<Rightarrow>
          case checkout t0 t1 t2 t3 policy stream_id (pool, st) of
            (Panicked, pool1, st1) \<Rightarrow> Some (Panicked, PoolExecution rts pool1 policy cursor, drop_tensors [input] e, st1)
          | (Returned (Inl err), pool1, st1) \<Rightarrow>
              Some (Returned (Inl (GRuntime (''inference pool checkout failed: '' @ display_sched_error err))), PoolExecution rts pool1 policy cursor,
                drop_tensors [input] e, st1)
          | (Returned (Inr lease), pool1, st1) \<Rightarrow>
              let index = pl_instance_index lease;
                  released = drop_lease (pl_lease lease) st1
              in if \<not> index < length rts
                 then Some (Returned (Inl (GRuntime ''invalid pool instance index'')), PoolExecution rts pool1 policy cursor, drop_tensors [input] e, released)
                 else
                   (case runtime_submit ops [input] None (rts ! index, e) of
                      None \<Rightarrow> None
                    | Some (r, rt1, e1) \<Rightarrow>
                        let execution1 = PoolExecution (rts[index := rt1]) pool1 policy cursor; e2 = drop_tensors [input] e1
                        in case r of
                             Inl err \<Rightarrow> Some (Returned (Inl (GRuntimeBackend (display_runtime_error err))), execution1, e2, released)
                           | Inr sequence \<Rightarrow> Some (Returned (Inr (index, sequence, Some lease)), execution1, e2, st1))))"

text \<open>The runtimes of a pool are polled in turn, from where the last poll stopped; the first answer ends it.\<close>

fun poll_pool ::
  "'b InferBackend \<Rightarrow> nat \<Rightarrow> 'b Runtime list \<times> usize \<times> env \<Rightarrow> (nat \<times> nat \<times> tensor list) option graph_result \<times> 'b Runtime list \<times> usize \<times> env"
where
  "poll_pool ops 0 s = (Inr None, s)"
| "poll_pool ops (Suc n) (rts, cursor, e) =
    (let index = cursor mod length rts;
         cursor1 = (cursor + 1) mod max (length rts) 1
     in case runtime_poll ops (rts ! index, e) of
          (r, rt, e1) \<Rightarrow>
            let s = (rts[index := rt], cursor1, e1)
            in case r of
                 Inl err \<Rightarrow> (Inl (GRuntimeBackend (display_runtime_error err)), s)
               | Inr (PollReady outputs sequence) \<Rightarrow> (Inr (Some (index, sequence, outputs)), s)
               | Inr _ \<Rightarrow> poll_pool ops n s)"

definition poll_ready ::
  "'b InferBackend \<Rightarrow> 'b InferenceExecution \<times> env \<Rightarrow> (nat \<times> nat \<times> tensor list) option graph_result \<times> 'b InferenceExecution \<times> env"
where
  "poll_ready ops s =
    (case s of (execution, e) \<Rightarrow>
     case execution of
       SingleExecution rt lease \<Rightarrow>
         (case runtime_poll ops (rt, e) of
            (r, rt1, e1) \<Rightarrow>
              ((case r of
                  Inl err \<Rightarrow> Inl (GRuntimeBackend (display_runtime_error err))
                | Inr (PollReady outputs sequence) \<Rightarrow> Inr (Some (0, sequence, outputs))
                | Inr _ \<Rightarrow> Inr None), SingleExecution rt1 lease, e1))
     | PoolExecution rts pool policy cursor \<Rightarrow>
         if rts = [] then (Inr None, execution, e)
         else (case poll_pool ops (length rts) (rts, cursor, e) of (r, rts1, cursor1, e1) \<Rightarrow> (r, PoolExecution rts1 pool policy cursor1, e1)))"

fun cancel_runtimes :: "'b InferBackend \<Rightarrow> 'b Runtime list \<Rightarrow> env \<Rightarrow> 'b Runtime list \<times> env" where
  "cancel_runtimes ops [] e = ([], e)"
| "cancel_runtimes ops (rt # rts) e =
    (case runtime_cancel ops (rt, e) of
       (_, rt1, e1) \<Rightarrow> (case cancel_runtimes ops rts e1 of (rts1, e2) \<Rightarrow> (rt1 # rts1, e2)))"

definition exec_cancel :: "'b InferBackend \<Rightarrow> 'b InferenceExecution \<times> env \<Rightarrow> 'b InferenceExecution \<times> env" where
  "exec_cancel ops s =
    (case s of (execution, e) \<Rightarrow>
     case execution of
       SingleExecution rt lease \<Rightarrow> (case runtime_cancel ops (rt, e) of (_, rt1, e1) \<Rightarrow> (SingleExecution rt1 lease, e1))
     | PoolExecution rts pool policy cursor \<Rightarrow>
         (case cancel_runtimes ops rts e of (rts1, e1) \<Rightarrow> (PoolExecution rts1 pool policy cursor, e1)))"

section \<open>Creation\<close>

text \<open>The backends of the process and what a runtime is made with.\<close>

record 'b platform =
  pf_ops :: "'b InferBackend"
  pf_debug_records :: "RuntimeDeviceCapabilities list \<Rightarrow> string"
  pf_files :: model_files
  pf_registered :: "'b BackendDescriptor list"
  pf_params :: "Value \<Rightarrow> string + InferenceParams"
  pf_scheduler :: "string + Topology"
  pf_reserve :: "nat \<Rightarrow> bool"

definition validate_runtime_shape :: "'b InferBackend \<Rightarrow> 'b Runtime \<Rightarrow> unit graph_result" where
  "validate_runtime_shape ops rt =
    and_then (fail_if (ib_input_count ops (rt_backend rt) \<noteq> 1)
      (GConfig (''inference element requires a single-input model, got '' @ show_nat (ib_input_count ops (rt_backend rt)) @ '' inputs''))) (\<lambda>_.
    fail_if (ib_output_count ops (rt_backend rt) = 0) (GConfig ''inference model has no outputs''))"

definition apply_reshape :: "'b InferBackend \<Rightarrow> shape option \<Rightarrow> 'b Runtime \<Rightarrow> 'b Runtime graph_result" where
  "apply_reshape ops planned rt =
    (case planned of
       None \<Rightarrow> Inr rt
     | Some s \<Rightarrow>
         (case runtime_reshape ops [s] rt of
            (Inl err, _) \<Rightarrow> Inl (GRuntimeBackend (display_runtime_error err))
          | (Inr _, rt1) \<Rightarrow> Inr rt1))"

definition platform_runtime :: "'b platform \<Rightarrow> RuntimeOption \<Rightarrow> 'b Runtime graph_result" where
  "platform_runtime pf option = runtime_failed (new_with_metrics (pf_ops pf) (pf_debug_records pf) (pf_files pf) (pf_registered pf) option)"

fun create_pool_runtimes ::
  "'b platform \<Rightarrow> Topology \<Rightarrow> InferencePlan \<Rightarrow> Placement list \<Rightarrow> 'b Runtime list \<Rightarrow> 'b Runtime list graph_result"
where
  "create_pool_runtimes pf topology plan [] runtimes = Inr runtimes"
| "create_pool_runtimes pf topology plan (placement # placements) runtimes =
    and_then (platform_runtime pf (option_for_placement topology (pn_option plan) placement)) (\<lambda>rt.
    and_then (if runtimes = [] then validate_runtime_shape (pf_ops pf) rt else Inr ()) (\<lambda>_.
    and_then (apply_reshape (pf_ops pf) (pn_reshape plan) rt) (\<lambda>rt1.
    create_pool_runtimes pf topology plan placements (runtimes @ [rt1]))))"

definition create_inference_pool :: "'b platform \<Rightarrow> InferencePlan \<Rightarrow> 'b InferenceExecution graph_result" where
  "create_inference_pool pf plan =
    and_then (ok_or (ro_device (pn_option plan)) (GConfig ''inference pool requires a selected device'')) (\<lambda>kind.
    and_then (inference_scheduler (pf_scheduler pf)) (\<lambda>topology.
    and_then (map_err (\<lambda>err. GConfig (''failed to create inference pool: '' @ display_sched_error err))
      (instance_pool_new topology kind (pn_instances plan) (requested_core_selection (pn_option plan)))) (\<lambda>pool.
    and_then (fail_if (\<not> pf_reserve pf (instance_count pool))
      (GConfig (''failed to allocate inference runtime vector for '' @ show_nat (instance_count pool) @ '' instances''))) (\<lambda>_.
    and_then (create_pool_runtimes pf topology plan (ip_placements pool) []) (\<lambda>runtimes.
    Inr (PoolExecution runtimes pool (pn_policy plan) 0))))))"

definition create_single :: "'b platform \<Rightarrow> InferencePlan \<Rightarrow> RuntimeOption \<Rightarrow> Lease option \<Rightarrow> 'b InferenceExecution graph_result" where
  "create_single pf plan option lease =
    and_then (platform_runtime pf option) (\<lambda>rt.
    and_then (validate_runtime_shape (pf_ops pf) rt) (\<lambda>_.
    and_then (apply_reshape (pf_ops pf) (pn_reshape plan) rt) (\<lambda>rt1.
    Inr (SingleExecution rt1 lease))))"

text \<open>Both kinds of execution start from fresh counters.  The lease is released when the runtime is refused.\<close>

definition create_inference_inner ::
  "nat \<Rightarrow> nat \<Rightarrow> 'b platform \<Rightarrow> ProcessRuntimePolicy option \<Rightarrow> Value \<Rightarrow> env \<times> SchedulerState \<Rightarrow>
    'b InferenceExecution graph_result \<times> env \<times> SchedulerState"
where
  "create_inference_inner t1 t2 pf build_policy value s =
    (case s of (e, st) \<Rightarrow>
     case prepare_inference (pf_params pf) (pf_registered pf) value of
       Inl err \<Rightarrow> (Inl err, e, st)
     | Inr plan0 \<Rightarrow>
         let plan = (case build_policy of
               None \<Rightarrow> plan0
             | Some policy \<Rightarrow> plan0\<lparr> pn_option := (pn_option plan0)\<lparr> ro_process_policy := policy \<rparr> \<rparr>);
             fresh = e\<lparr> env_metrics := backend_metrics_default \<rparr>
         in if pn_instances plan \<le> 1 \<or> ro_device (pn_option plan) = None
            then
              (case acquire_inference_lease t1 t2 (pf_scheduler pf) (pn_option plan) st of
                 (Inl err, st1) \<Rightarrow> (Inl err, e, st1)
               | (Inr (option, lease), st1) \<Rightarrow>
                   (case create_single pf plan option lease of
                      Inl err \<Rightarrow> (Inl err, fresh, case lease of None \<Rightarrow> st1 | Some l \<Rightarrow> drop_lease l st1)
                    | Inr execution \<Rightarrow> (Inr execution, fresh, st1)))
            else (create_inference_pool pf plan, fresh, st))"

definition create_inference ::
  "nat \<Rightarrow> nat \<Rightarrow> 'b platform \<Rightarrow> ProcessRuntimePolicy option \<Rightarrow> NodeSpec \<Rightarrow> env \<times> SchedulerState \<Rightarrow>
    'b InferenceExecution graph_result \<times> env \<times> SchedulerState"
where
  "create_inference t1 t2 pf build_policy node s =
    (case create_inference_inner t1 t2 pf build_policy (nd_params node) s of
       (r, s1) \<Rightarrow>
         (map_err (\<lambda>err. case err of
              GConfig message \<Rightarrow> GConfig (''node '' @ nd_name node @ '' inference params: '' @ message)
            | _ \<Rightarrow> GElement (nd_name node) (display_graph_error err)) r, s1))"

section \<open>The loop\<close>

record ('b, 'm) infer_state =
  in_execution :: "'b InferenceExecution"
  in_pending :: "PendingInference list"
  in_eos :: bool
  in_env :: env
  in_scheduler :: SchedulerState
  in_io :: ElementIo
  in_world :: "'m io_world"

text \<open>What a turn of the loop depends on beside the state: the readings of clocks, and how long sends wait and what other threads do
  to the pipes meanwhile.\<close>

record 'm turn =
  tn_times :: readings
  tn_now :: nat
  tn_fuel :: nat
  tn_others :: "nat \<Rightarrow> 'm io_world \<Rightarrow> 'm io_world"

fun send_outputs ::
  "'m turn \<Rightarrow> PacketMeta \<Rightarrow> tensor list \<Rightarrow> ElementIo \<times> nat \<times> 'm io_world \<Rightarrow> (unit graph_result \<times> ElementIo \<times> nat \<times> 'm io_world) option"
where
  "send_outputs turn meta [] s = Some (Inr (), s)"
| "send_outputs turn meta (output # outputs) (io, k, w) =
    (case send (tn_fuel turn) (tn_now turn) (tn_others turn) k io ''out'' (with_meta (packet_tensor output) meta) w of
       None \<Rightarrow> None
     | Some (Inl err, s1) \<Rightarrow> Some (Inl err, s1)
     | Some (Inr _, s1) \<Rightarrow> send_outputs turn meta outputs s1)"

definition drop_pooled :: "PooledLease option \<Rightarrow> SchedulerState \<Rightarrow> SchedulerState" where
  "drop_pooled lease st = (case lease of None \<Rightarrow> st | Some l \<Rightarrow> drop_lease (pl_lease l) st)"

definition find_pending :: "nat \<Rightarrow> nat \<Rightarrow> PendingInference list \<Rightarrow> nat option" where
  "find_pending runtime_index sequence pending =
    position (\<lambda>p. pi_runtime_index p = runtime_index \<and> pi_sequence p = sequence) pending"

text \<open>An answer: the pending entry is found and removed, the outputs are sent with its metadata, its lease ends.\<close>

definition emit_answer ::
  "'m turn \<Rightarrow> nat \<times> nat \<times> tensor list \<Rightarrow> ('b, 'm) infer_state \<Rightarrow> (unit graph_result option outcome \<times> ('b, 'm) infer_state) option"
where
  "emit_answer turn answer s =
    (case answer of (runtime_index, sequence, outputs) \<Rightarrow>
     case find_pending runtime_index sequence (in_pending s) of
       None \<Rightarrow>
         Some (Returned (Some (Inl (GRuntime (''inference returned unknown sequence '' @ show_nat sequence @ '' from runtime '' @ show_nat runtime_index)))), s)
     | Some index \<Rightarrow>
         let pending = in_pending s ! index;
             s1 = s\<lparr> in_pending := remove_at index (in_pending s) \<rparr>
         in case send_outputs turn (pi_meta pending) outputs (in_io s1, 0, in_world s1) of
              None \<Rightarrow> None
            | Some (r, io, _, w) \<Rightarrow>
                let s2 = s1\<lparr> in_io := io, in_world := w, in_scheduler := drop_pooled (pi_pool_lease pending) (in_scheduler s1) \<rparr>
                in Some (Returned (case r of Inl err \<Rightarrow> Some (Inl err) | Inr _ \<Rightarrow> None), s2))"

text \<open>A received packet that is not the end of the stream: its tensor is cloned, submitted, and the packet dropped.\<close>

definition accept_packet ::
  "'b InferBackend \<Rightarrow> 'm turn \<Rightarrow> Packet \<Rightarrow> ('b, 'm) infer_state \<Rightarrow> (unit graph_result option outcome \<times> ('b, 'm) infer_state) option"
where
  "accept_packet ops turn packet s =
    (case tensor_ref packet of
       None \<Rightarrow> Some (Returned (Some (Inl (GRuntime ''inference expects a tensor payload''))), s)
     | Some tensor \<Rightarrow>
         (case exec_submit ops (tn_times turn) tensor (pm_stream_id (pk_meta packet)) (in_execution s, clone_tensors [tensor] (in_env s), in_scheduler s) of
            None \<Rightarrow> None
          | Some (r, execution, e, st) \<Rightarrow>
              let s1 = s\<lparr> in_execution := execution, in_env := drop_tensors [tensor] e, in_scheduler := st \<rparr>
              in Some (case r of
                   Panicked \<Rightarrow> (Panicked, s1)
                 | Returned (Inl err) \<Rightarrow> (Returned (Some (Inl err)), s1)
                 | Returned (Inr (runtime_index, sequence, lease)) \<Rightarrow>
                     (Returned None, s1\<lparr> in_pending := in_pending s1 @
                       [\<lparr> pi_runtime_index = runtime_index, pi_sequence = sequence, pi_meta = pk_meta packet, pi_pool_lease = lease \<rparr>] \<rparr>))))"

text \<open>One turn of the loop of \<open>run\<close>: it goes on (\<open>None\<close>) or returns.\<close>

definition infer_turn ::
  "'b InferBackend \<Rightarrow> 'm turn \<Rightarrow> ('b, 'm) infer_state \<Rightarrow> (unit graph_result option outcome \<times> ('b, 'm) infer_state) option"
where
  "infer_turn ops turn s =
    (case poll_ready ops (in_execution s, in_env s) of
       (polled, execution, e) \<Rightarrow>
         let s1 = s\<lparr> in_execution := execution, in_env := e \<rparr>
         in case polled of
              Inl err \<Rightarrow> Some (Returned (Some (Inl err)), s1)
            | Inr (Some answer) \<Rightarrow> emit_answer turn answer s1
            | Inr None \<Rightarrow>
                if in_eos s1 \<and> in_pending s1 = []
                then
                  (case broadcast_eos (tn_fuel turn) (tn_now turn) (tn_others turn) 0 (in_io s1) (in_world s1) of
                     None \<Rightarrow> None
                   | Some (r, io, _, w) \<Rightarrow> Some (Returned (Some r), s1\<lparr> in_io := io, in_world := w \<rparr>))
                else if should_stop (in_io s1) (in_world s1)
                then
                  if in_pending s1 = []
                  then (case exec_cancel ops (in_execution s1, in_env s1) of
                          (execution2, e2) \<Rightarrow> Some (Returned (Some (Inl GNotRunning)), s1\<lparr> in_execution := execution2, in_env := e2 \<rparr>))
                  else Some (Returned None, s1)
                else if in_eos s1 \<or> \<not> has_capacity (in_env s1) (in_execution s1)
                then Some (Returned None, s1)
                else
                  (case recv (tn_now turn) (in_io s1) ''in'' (in_world s1) of
                     (received, io, w) \<Rightarrow>
                       let s2 = s1\<lparr> in_io := io, in_world := w \<rparr>
                       in case received of
                            Inl err \<Rightarrow> Some (Returned (Some (Inl err)), s2)
                          | Inr None \<Rightarrow> Some (Returned None, s2)
                          | Inr (Some packet) \<Rightarrow>
                              if is_eos packet then Some (Returned None, s2\<lparr> in_eos := True \<rparr>) else accept_packet ops turn packet s2))"

text \<open>The loop as steps: a turn that goes on, and what other threads do between turns to pipes, buffers and the scheduler.\<close>

inductive infer_step :: "'b InferBackend \<Rightarrow> ('b, 'm) infer_state \<Rightarrow> ('b, 'm) infer_state \<Rightarrow> bool" for ops where
  turned: "infer_turn ops turn s = Some (Returned None, t) \<Longrightarrow> infer_step ops s t"
| others: "infer_step ops s (s\<lparr> in_world := w, in_scheduler := st, in_env := (in_env s)\<lparr> env_store := store \<rparr> \<rparr>)"

section \<open>Answers and pending entries\<close>

fun exec_runtimes :: "'b InferenceExecution \<Rightarrow> 'b Runtime list" where
  "exec_runtimes (SingleExecution rt lease) = [rt]"
| "exec_runtimes (PoolExecution rts pool policy cursor) = rts"

definition pending_keys :: "PendingInference list \<Rightarrow> (nat \<times> nat) list" where
  "pending_keys pending = map (\<lambda>p. (pi_runtime_index p, pi_sequence p)) pending"

lemma find_pending_some:
  assumes "(i, q) \<in> set (pending_keys pending)"
  obtains j where "find_pending i q pending = Some j" "j < length pending" "pending_keys pending ! j = (i, q)"
proof -
  have "\<exists>j. position (\<lambda>p. pi_runtime_index p = i \<and> pi_sequence p = q) pending = Some j \<and> j < length pending \<and> pending_keys pending ! j = (i, q)"
    using assms by (induction pending) (auto simp: pending_keys_def)
  then show thesis using that by (auto simp: find_pending_def)
qed

lemma pending_keys_remove:
  "j < length pending \<Longrightarrow> mset (pending_keys pending) = add_mset (pending_keys pending ! j) (mset (pending_keys (remove_at j pending)))"
  using mset_remove_at [of j pending] by (simp add: pending_keys_def)

context infer_backend
begin

text \<open>How often a key, a runtime and a sequence number, is outstanding in a list of runtimes.\<close>

definition key_count :: "'b Runtime list \<Rightarrow> nat \<times> nat \<Rightarrow> nat" where
  "key_count rts k = (if fst k < length rts then count (mset (waiting (rts ! fst k))) (snd k) else 0)"

definition runtime_ok :: "'b Runtime \<Rightarrow> bool" where
  "runtime_ok rt \<longleftrightarrow> (\<forall>q. count (mset (waiting rt)) q \<le> 1) \<and> (\<forall>q \<in> set (waiting rt). q < rt_next_sequence rt) \<and> rt_max_in_flight rt \<le> usize_max"

text \<open>A change of one runtime that keeps its kind: the outstanding keys of the list change by those of the runtime.\<close>

lemma key_count_update:
  "i < length rts \<Longrightarrow> key_count (rts[i := rt]) k = (if fst k = i then count (mset (waiting rt)) (snd k) else key_count rts k)"
  by (auto simp: key_count_def nth_list_update)

lemma runtime_ok_less:
  assumes "runtime_ok rt" and "rt_next_sequence rt \<le> rt_next_sequence rt'" and "mset (waiting rt') \<subseteq># mset (waiting rt)"
    and "rt_max_in_flight rt' = rt_max_in_flight rt"
  shows "runtime_ok rt'"
proof -
  have "count (mset (waiting rt')) q \<le> 1" for q
    using assms(1) mset_subset_eq_count [OF assms(3), of q] by (metis le_trans runtime_ok_def)
  moreover have "q < rt_next_sequence rt'" if "q \<in> set (waiting rt')" for q
    using that assms(1,2) mset_subset_eqD [OF assms(3), of q] by (auto simp: runtime_ok_def)
  ultimately show ?thesis using assms(1,4) by (simp add: runtime_ok_def)
qed

definition slot_free :: "'b Runtime \<Rightarrow> bool" where
  "slot_free rt \<longleftrightarrow> ib_is_async ops (rt_backend rt) \<or> rt_sync_result rt = None"

lemma poll_waits_free:
  assumes "runtime_poll ops (rt, e) = (Inr r, rt', e')" and "r \<in> {PollPending, PollEndOfStream}"
  shows "slot_free rt'"
  using assms poll_waits [OF assms]
  by (auto simp: slot_free_def runtime_poll_def Let_def split: if_splits option.splits prod.splits sum.splits InferPoll.splits)

text \<open>What polling does to runtimes: an answer is an outstanding key that goes away; without an answer, the outstanding keys stay and the runtimes
  that were polled have no result of a synchronous run left.\<close>

definition polled_ok :: "'b Runtime list \<Rightarrow> env \<Rightarrow> (nat \<times> nat \<times> tensor list) option graph_result \<Rightarrow> 'b Runtime list \<Rightarrow> env \<Rightarrow> bool" where
  "polled_ok rts e r rts' e' \<longleftrightarrow>
    map rt_max_in_flight rts' = map rt_max_in_flight rts \<and> (\<forall>rt \<in> set rts'. runtime_ok rt) \<and>
    (case r of
       Inl _ \<Rightarrow> True
     | Inr None \<Rightarrow> key_count rts' = key_count rts \<and> bm_in_flight (env_metrics e') = bm_in_flight (env_metrics e) \<and>
         (\<forall>i < length rts. slot_free (rts ! i) \<longrightarrow> slot_free (rts' ! i))
     | Inr (Some (i, q, outputs)) \<Rightarrow> (\<forall>k. key_count rts k = key_count rts' k + of_bool (k = (i, q))) \<and>
         bm_in_flight (env_metrics e') = bm_in_flight (env_metrics e) - 1)"

lemma poll_one:
  assumes "runtime_poll ops (rts ! i, e) = (r, rt', e')" and "i < length rts" and "\<forall>rt \<in> set rts. runtime_ok rt"
  shows "polled_ok rts e
    (case r of Inl err \<Rightarrow> Inl (GRuntimeBackend (display_runtime_error err)) | Inr (PollReady outputs q) \<Rightarrow> Inr (Some (i, q, outputs)) | Inr _ \<Rightarrow> Inr None)
    (rts[i := rt']) e'"
proof -
  have ok: "runtime_ok (rts ! i)" using assms(2,3) by simp
  have set: "\<forall>rt \<in> set (rts[i := rt']). runtime_ok rt" if "runtime_ok rt'" using assms(3) that by (auto dest!: set_update_subset_insert [THEN subsetD])
  have lims: "map rt_max_in_flight (rts[i := rt']) = map rt_max_in_flight rts" if "rt_max_in_flight rt' = rt_max_in_flight (rts ! i)"
    using that assms(2) by (simp add: map_update list_update_same_conv)
  consider (err) err where "r = Inl err" | (ready) outputs q where "r = Inr (PollReady outputs q)"
    | (idle) p where "r = Inr p" "p \<in> {PollPending, PollEndOfStream}"
    by (metis InferPoll.exhaust insertCI old.sum.exhaust)
  then show ?thesis
  proof cases
    case err
    obtain q where f: "mset (waiting (rts ! i)) = add_mset q (mset (waiting rt'))" "rt_next_sequence rt' = rt_next_sequence (rts ! i)"
      "rt_max_in_flight rt' = rt_max_in_flight (rts ! i)"
      using poll_fails [OF assms(1) [unfolded err]] by blast
    then have "runtime_ok rt'" by (intro runtime_ok_less [OF ok]) auto
    with set lims f show ?thesis by (simp add: polled_ok_def err)
  next
    case ready
    note f = poll_answers [OF assms(1) [unfolded ready]]
    then have "runtime_ok rt'" by (intro runtime_ok_less [OF ok]) auto
    with set lims f assms(2) show ?thesis
      by (auto simp: polled_ok_def ready key_count_update simp del: waiting_simps) (auto simp: key_count_def simp del: waiting_simps)
  next
    case idle
    note f = poll_waits [OF assms(1) [unfolded idle(1)] idle(2)] and free = poll_waits_free [OF assms(1) [unfolded idle(1)] idle(2)]
    then have "runtime_ok rt'" by (intro runtime_ok_less [OF ok]) auto
    moreover have "key_count (rts[i := rt']) = key_count rts"
      using f assms(2) by (auto simp: key_count_def fun_eq_iff nth_list_update simp del: waiting_simps)
    ultimately show ?thesis using set lims f free assms(2) idle by (auto simp: polled_ok_def nth_list_update split: InferPoll.splits)
  qed
qed

lemma polled_ok_trans:
  assumes "polled_ok rts e (Inr None) rts1 e1" and "polled_ok rts1 e1 r rts2 e2"
  shows "polled_ok rts e r rts2 e2"
proof -
  have "length rts1 = length rts" using assms(1) by (auto simp: polled_ok_def dest: map_eq_imp_length_eq)
  then show ?thesis using assms by (auto simp: polled_ok_def split: sum.splits option.splits)
qed

lemma poll_pool_ok:
  assumes "poll_pool ops n (rts, cursor, e) = (r, rts', cursor', e')" and "rts \<noteq> []" and "\<forall>rt \<in> set rts. runtime_ok rt"
  shows "polled_ok rts e r rts' e' \<and> (r = Inr None \<longrightarrow> (\<forall>j < n. slot_free (rts' ! ((cursor + j) mod length rts))))"
  using assms
proof (induction n arbitrary: rts cursor e)
  case 0
  then show ?case by (auto simp: polled_ok_def)
next
  case (Suc n)
  let ?i = "cursor mod length rts"
  have i: "?i < length rts" using Suc.prems(2) by simp
  obtain p rt e1 where p: "runtime_poll ops (rts ! ?i, e) = (p, rt, e1)" by (metis prod_cases3)
  note one = poll_one [OF p i Suc.prems(3)]
  show ?case
  proof (cases "\<exists>x. p = Inr x \<and> x \<in> {PollPending, PollEndOfStream}")
    case True
    then obtain x where x: "p = Inr x" "x \<in> {PollPending, PollEndOfStream}" by blast
    let ?rts = "rts[?i := rt]"
    have o: "polled_ok rts e (Inr None) ?rts e1" using one x by auto
    have free: "slot_free (?rts ! ?i)" using poll_waits_free p x i by simp
    have rest: "poll_pool ops n (?rts, (cursor + 1) mod max (length rts) 1, e1) = (r, rts', cursor', e')"
      using Suc.prems(1) p x by (auto simp: Let_def)
    have "\<forall>rt \<in> set ?rts. runtime_ok rt" using o by (simp add: polled_ok_def)
    note ih = Suc.IH [OF rest _ this]
    have m: "max (length rts) 1 = length rts" using Suc.prems(2) by (cases rts) auto
    have c: "((cursor + 1) mod max (length rts) 1 + j) mod length rts = (cursor + Suc j) mod length rts" for j
      unfolding m by (simp add: mod_simps)
    have "slot_free (rts' ! ((cursor + j) mod length rts))" if "r = Inr None" "j < Suc n" for j
    proof (cases j)
      case 0
      then show ?thesis using ih Suc.prems(2) that(1) free i by (auto simp: polled_ok_def)
    next
      case (Suc j')
      then show ?thesis using ih Suc.prems(2) that c [of j'] by auto
    qed
    then show ?thesis using ih Suc.prems(2) polled_ok_trans [OF o] by auto
  next
    case False
    then show ?thesis using one Suc.prems(1) p by (cases p) (auto simp: Let_def split: InferPoll.splits)
  qed
qed

lemma poll_ready_ok:
  assumes "poll_ready ops (execution, e) = (r, execution', e')" and "\<forall>rt \<in> set (exec_runtimes execution). runtime_ok rt"
  shows "polled_ok (exec_runtimes execution) e r (exec_runtimes execution') e' \<and> (r = Inr None \<longrightarrow> (\<forall>rt \<in> set (exec_runtimes execution'). slot_free rt))"
proof (cases execution)
  case (SingleExecution rt lease)
  obtain p rt1 e1 where p: "runtime_poll ops (rt, e) = (p, rt1, e1)" by (metis prod_cases3)
  then show ?thesis
    using assms SingleExecution poll_one [of "[rt]" 0 e p rt1 e1] poll_waits_free [of rt e _ rt1 e1]
    by (auto simp: poll_ready_def split: sum.splits InferPoll.splits)
next
  case (PoolExecution rts pool policy cursor)
  show ?thesis
  proof (cases "rts = []")
    case True
    then show ?thesis using assms PoolExecution by (auto simp: poll_ready_def polled_ok_def)
  next
    case False
    obtain rts' cursor' where p: "poll_pool ops (length rts) (rts, cursor, e) = (r, rts', cursor', e')" and x: "execution' = PoolExecution rts' pool policy cursor'"
      using assms(1) PoolExecution False by (auto simp: poll_ready_def split: prod.splits)
    note ok = poll_pool_ok [OF p False]
    have len: "length rts' = length rts" using ok assms(2) PoolExecution by (auto simp: polled_ok_def dest: map_eq_imp_length_eq)
    have "slot_free rt" if none: "r = Inr None" and mem: "rt \<in> set rts'" for rt
    proof -
      obtain k where k: "k < length rts" "rt = rts' ! k" using mem len by (auto simp: in_set_conv_nth)
      let ?n = "length rts"
      have pos: "0 < ?n" using k(1) by linarith
      let ?j = "(k + (?n - cursor mod ?n)) mod ?n"
      have "(cursor + ?j) mod ?n = (cursor mod ?n + (k + (?n - cursor mod ?n))) mod ?n" by (simp add: mod_simps)
      also have "cursor mod ?n + (k + (?n - cursor mod ?n)) = k + ?n" using mod_less_divisor [OF pos, of cursor] by linarith
      finally have "(cursor + ?j) mod ?n = k" using k(1) by simp
      moreover have "?j < ?n" by (rule mod_less_divisor [OF pos])
      ultimately show ?thesis using ok assms(2) PoolExecution none k(2) by auto
    qed
    then show ?thesis using ok assms(2) PoolExecution x by auto
  qed
qed

lemma submit_one:
  assumes "runtime_submit ops inputs None (rts ! i, e) = Some (Inr q, rt', e')" and "i < length rts"
    and "\<forall>rt \<in> set rts. runtime_ok rt \<and> slot_free rt" and "bm_in_flight (env_metrics e) < usize_max"
  shows "map rt_max_in_flight (rts[i := rt']) = map rt_max_in_flight rts \<and> (\<forall>rt \<in> set (rts[i := rt']). runtime_ok rt) \<and>
    (\<forall>k. key_count (rts[i := rt']) k = key_count rts k + of_bool (k = (i, q))) \<and> bm_in_flight (env_metrics e') = Suc (bm_in_flight (env_metrics e))"
proof -
  have ok: "runtime_ok (rts ! i)" and free: "slot_free (rts ! i)" using assms(2,3) by simp_all
  note a = submit_accepts [OF assms(1)]
  have a: "q = rt_next_sequence (rts ! i)" "rt_next_sequence rt' = Suc q" "mset (waiting rt') = add_mset q (mset (waiting (rts ! i)))"
    "bm_in_flight (env_metrics e') = Suc (bm_in_flight (env_metrics e))" "rt_max_in_flight rt' = rt_max_in_flight (rts ! i)"
    using a free assms(4) by (auto simp: slot_free_def simp del: waiting_simps)
  have "q \<notin># mset (waiting (rts ! i))" using ok a(1) by (auto simp: runtime_ok_def simp del: waiting_simps)
  then have "count (mset (waiting rt')) k \<le> 1" for k using ok a(3) by (auto simp: runtime_ok_def not_in_iff simp del: waiting_simps)
  moreover have "k < rt_next_sequence rt'" if "k \<in> set (waiting rt')" for k
    using ok a(1,2) that arg_cong [OF a(3), of set_mset] by (auto simp: runtime_ok_def less_Suc_eq simp del: waiting_simps)
  ultimately have "runtime_ok rt'" using ok a(5) by (simp add: runtime_ok_def)
  then show ?thesis using assms(2,3) a
    by (auto simp: map_update list_update_same_conv key_count_update simp del: waiting_simps dest!: set_update_subset_insert [THEN subsetD])
      (auto simp: key_count_def simp del: waiting_simps)
qed

lemma exec_submit_ok:
  assumes "exec_submit ops clocks input stream_id (execution, e, st) = Some (Returned (Inr (i, q, lease)), execution', e', st')"
    and "\<forall>rt \<in> set (exec_runtimes execution). runtime_ok rt \<and> slot_free rt" and "bm_in_flight (env_metrics e) < usize_max"
  shows "map rt_max_in_flight (exec_runtimes execution') = map rt_max_in_flight (exec_runtimes execution) \<and> (\<forall>rt \<in> set (exec_runtimes execution'). runtime_ok rt) \<and>
    (\<forall>k. key_count (exec_runtimes execution') k = key_count (exec_runtimes execution) k + of_bool (k = (i, q))) \<and>
    bm_in_flight (env_metrics e') = Suc (bm_in_flight (env_metrics e))"
proof (cases execution)
  case (SingleExecution rt l)
  then obtain rt' e1 where "runtime_submit ops [input] None (rt, e) = Some (Inr q, rt', e1)" "i = 0" "execution' = SingleExecution rt' l" "e' = drop_tensors [input] e1"
    using assms(1) by (auto simp: exec_submit_def result_simps split: option.splits prod.splits)
  then show ?thesis using submit_one [of "[input]" "[rt]" 0 e q rt' e1] assms(2,3) SingleExecution by auto
next
  case (PoolExecution rts pool policy cursor)
  then obtain rt' e1 pool1 where "runtime_submit ops [input] None (rts ! i, e) = Some (Inr q, rt', e1)" "i < length rts"
      "execution' = PoolExecution (rts[i := rt']) pool1 policy cursor" "e' = drop_tensors [input] e1"
    using assms(1) by (auto simp: exec_submit_def Let_def split: option.splits prod.splits outcome.splits sum.splits if_splits)
  then show ?thesis using submit_one [of "[input]" rts i e q rt' e1] assms(2,3) PoolExecution by auto
qed

text \<open>The invariant of the loop: the pending entries are the outstanding submissions, and the counter counts them.\<close>

definition infer_ok :: "('b, 'm) infer_state \<Rightarrow> bool" where
  "infer_ok s \<longleftrightarrow>
    (\<forall>rt \<in> set (exec_runtimes (in_execution s)). runtime_ok rt) \<and>
    count (mset (pending_keys (in_pending s))) = key_count (exec_runtimes (in_execution s)) \<and>
    bm_in_flight (env_metrics (in_env s)) = length (in_pending s) \<and>
    (in_pending s \<noteq> [] \<longrightarrow> (\<exists>limit \<in> set (map rt_max_in_flight (exec_runtimes (in_execution s))). length (in_pending s) \<le> limit))"

lemma answer_pending:
  assumes "infer_ok s" and "poll_ready ops (in_execution s, in_env s) = (Inr (Some (i, q, outputs)), execution, e)"
  shows "(i, q) \<in> set (pending_keys (in_pending s))"
proof -
  have "key_count (exec_runtimes (in_execution s)) (i, q) > 0"
    using poll_ready_ok [OF assms(2)] assms(1) by (auto simp: infer_ok_def polled_ok_def)
  then show ?thesis using assms(1) by (metis count_greater_zero_iff infer_ok_def set_mset_mset)
qed

lemma pending_distinct: "infer_ok s \<Longrightarrow> distinct (pending_keys (in_pending s))"
proof -
  assume ok: "infer_ok s"
  have "count (mset (pending_keys (in_pending s))) k \<le> 1" for k
    using ok by (auto simp: infer_ok_def key_count_def runtime_ok_def simp del: waiting_simps)
  then show ?thesis by (metis distinct_count_atmost_1 count_mset_0_iff le_0_eq le_Suc_eq One_nat_def)
qed

lemma emit_answer_ok:
  assumes "emit_answer turn (i, q, outputs) s1 = Some (Returned None, t)" and "(i, q) \<in> set (pending_keys (in_pending s1))"
    and "\<forall>rt \<in> set (exec_runtimes (in_execution s1)). runtime_ok rt"
    and "\<And>k. count (mset (pending_keys (in_pending s1))) k = key_count (exec_runtimes (in_execution s1)) k + of_bool (k = (i, q))"
    and "bm_in_flight (env_metrics (in_env s1)) = length (in_pending s1) - 1"
    and "\<exists>limit \<in> set (map rt_max_in_flight (exec_runtimes (in_execution s1))). length (in_pending s1) \<le> limit"
  shows "infer_ok t \<and> in_execution t = in_execution s1"
proof -
  obtain j where j: "find_pending i q (in_pending s1) = Some j" "j < length (in_pending s1)" "pending_keys (in_pending s1) ! j = (i, q)"
    using find_pending_some [OF assms(2)] .
  have t: "in_pending t = remove_at j (in_pending s1)" "in_execution t = in_execution s1" "in_env t = in_env s1"
    using assms(1) j(1) by (auto simp: emit_answer_def Let_def split: option.splits prod.splits sum.splits)
  have "count (mset (pending_keys (in_pending t))) k = key_count (exec_runtimes (in_execution t)) k" for k
    using assms(4) [of k] pending_keys_remove [OF j(2)] j(3) by (auto simp: t split: if_splits)
  moreover have "length (in_pending t) = length (in_pending s1) - 1" using j(2) by (simp add: t(1) remove_at_def)
  moreover obtain limit where "limit \<in> set (map rt_max_in_flight (exec_runtimes (in_execution s1)))" "length (in_pending s1) \<le> limit" using assms(6) ..
  ultimately show ?thesis using assms(3,5) t(2,3) by (auto simp: infer_ok_def fun_eq_iff intro!: bexI)
qed

lemma accept_packet_ok:
  assumes "accept_packet ops turn packet s = Some (Returned None, t)" and "infer_ok s" and "\<forall>rt \<in> set (exec_runtimes (in_execution s)). slot_free rt"
    and "has_capacity (in_env s) (in_execution s)"
  shows "infer_ok t \<and> map rt_max_in_flight (exec_runtimes (in_execution t)) = map rt_max_in_flight (exec_runtimes (in_execution s))"
proof -
  obtain tensor i q lease execution e st meta where
    sub: "exec_submit ops (tn_times turn) tensor (pm_stream_id (pk_meta packet)) (in_execution s, clone_tensors [tensor] (in_env s), in_scheduler s) =
      Some (Returned (Inr (i, q, lease)), execution, e, st)"
    and t: "in_execution t = execution" "env_metrics (in_env t) = env_metrics e"
      "in_pending t = in_pending s @ [\<lparr> pi_runtime_index = i, pi_sequence = q, pi_meta = meta, pi_pool_lease = lease \<rparr>]"
    using assms(1) by (auto simp: accept_packet_def Let_def split: option.splits prod.splits outcome.splits sum.splits)
  obtain rt where rt: "rt \<in> set (exec_runtimes (in_execution s))" "runtime_in_flight (in_env s) < rt_max_in_flight rt"
    using assms(4) by (cases "in_execution s") (auto simp: has_capacity_def list_ex_iff)
  then have "bm_in_flight (env_metrics (clone_tensors [tensor] (in_env s))) < usize_max"
    using assms(2) by (fastforce simp: infer_ok_def runtime_ok_def runtime_in_flight_def)
  moreover have "\<forall>rt \<in> set (exec_runtimes (in_execution s)). runtime_ok rt \<and> slot_free rt" using assms(2,3) by (simp add: infer_ok_def)
  ultimately have ok: "map rt_max_in_flight (exec_runtimes execution) = map rt_max_in_flight (exec_runtimes (in_execution s))"
      "\<forall>rt \<in> set (exec_runtimes execution). runtime_ok rt"
      "\<And>k. key_count (exec_runtimes execution) k = key_count (exec_runtimes (in_execution s)) k + of_bool (k = (i, q))"
      "bm_in_flight (env_metrics e) = Suc (bm_in_flight (env_metrics (in_env s)))"
    using exec_submit_ok [OF sub] by auto
  have "mset (pending_keys (in_pending t)) = add_mset (i, q) (mset (pending_keys (in_pending s)))" by (simp add: t pending_keys_def)
  moreover have "count (mset (pending_keys (in_pending s))) = key_count (exec_runtimes (in_execution s))" using assms(2) by (simp add: infer_ok_def)
  ultimately have "count (mset (pending_keys (in_pending t))) k = key_count (exec_runtimes execution) k" for k
    using ok(3) [of k] by auto
  moreover have "\<exists>limit \<in> set (map rt_max_in_flight (exec_runtimes execution)). length (in_pending t) \<le> limit"
    using rt assms(2) ok(1) by (auto simp: t infer_ok_def runtime_in_flight_def intro!: bexI [of _ rt])
  ultimately show ?thesis using ok assms(2) by (auto simp: infer_ok_def t fun_eq_iff)
qed

lemma infer_turn_ok:
  assumes "infer_ok s" and "infer_turn ops turn s = Some (Returned None, t)"
  shows "infer_ok t \<and> map rt_max_in_flight (exec_runtimes (in_execution t)) = map rt_max_in_flight (exec_runtimes (in_execution s))"
proof -
  obtain polled execution e where p: "poll_ready ops (in_execution s, in_env s) = (polled, execution, e)" by (metis prod_cases3)
  let ?s = "s\<lparr> in_execution := execution, in_env := e \<rparr>"
  have pok: "polled_ok (exec_runtimes (in_execution s)) (in_env s) polled (exec_runtimes execution) e"
    and free: "polled = Inr None \<Longrightarrow> \<forall>rt \<in> set (exec_runtimes execution). slot_free rt"
    using poll_ready_ok [OF p] assms(1) by (auto simp: infer_ok_def)
  have lims: "map rt_max_in_flight (exec_runtimes execution) = map rt_max_in_flight (exec_runtimes (in_execution s))" using pok by (simp add: polled_ok_def)
  show ?thesis
  proof (cases polled)
    case (Inl err)
    then show ?thesis using assms(2) p by (auto simp: infer_turn_def Let_def)
  next
    case (Inr a)
    show ?thesis
    proof (cases a)
      case None
      have s1: "infer_ok ?s" using assms(1) pok lims Inr None by (auto simp: infer_ok_def polled_ok_def)
      have io: "infer_ok (?s\<lparr> in_io := io, in_world := w, in_eos := b \<rparr>)" "infer_ok (?s\<lparr> in_io := io, in_world := w \<rparr>)" for io w b
        using s1 by (simp_all add: infer_ok_def)
      show ?thesis
        using assms(2) p Inr None s1 io lims free accept_packet_ok [of turn _ "?s\<lparr> in_io := _, in_world := _ \<rparr>" t]
        by (auto simp: infer_turn_def Let_def split: if_splits option.splits prod.splits sum.splits)
    next
      case (Some answer)
      obtain i q outputs where answer: "answer = (i, q, outputs)" by (metis prod_cases3)
      have pend: "(i, q) \<in> set (pending_keys (in_pending s))" using answer_pending [OF assms(1)] p Inr Some answer by simp
      then have "in_pending s \<noteq> []" by (auto simp: pending_keys_def)
      have "infer_ok t \<and> in_execution t = in_execution ?s"
      proof (rule emit_answer_ok)
        show "emit_answer turn (i, q, outputs) ?s = Some (Returned None, t)" using assms(2) p Inr Some answer by (simp add: infer_turn_def)
      qed (use assms(1) pok lims Inr Some answer pend \<open>in_pending s \<noteq> []\<close> in \<open>auto simp: infer_ok_def polled_ok_def\<close>)
      then show ?thesis using lims by simp
    qed
  qed
qed

lemma infer_step_ok:
  assumes "infer_step ops s t" and "infer_ok s"
  shows "infer_ok t \<and> map rt_max_in_flight (exec_runtimes (in_execution t)) = map rt_max_in_flight (exec_runtimes (in_execution s))"
  using assms(1)
proof (cases rule: infer_step.cases)
  case (turned turn)
  then show ?thesis using infer_turn_ok [OF assms(2)] by blast
next
  case (others w st store)
  then show ?thesis using assms(2) by (simp add: infer_ok_def)
qed

end

section \<open>Answers and the packets they answer\<close>

text \<open>A log of the packets that were submitted, kept beside the loop and written from the outside of the element: when a turn moves the next sequence number
  of a runtime, the packet at the front of the input pipe before the turn is noted under that runtime and number.\<close>

type_synonym submission_log = "nat \<times> nat \<Rightarrow> Packet option"

definition next_packet :: "('b, 'm) infer_state \<Rightarrow> Packet option" where
  "next_packet s =
    (case map_of (io_inputs (in_io s)) ''in'' of
       None \<Rightarrow> None
     | Some a \<Rightarrow> (case dp_queue (iw_pipes (in_world s) a) of [] \<Rightarrow> None | packet # _ \<Rightarrow> Some packet))"

definition issued :: "'b Runtime list \<Rightarrow> 'b Runtime list \<Rightarrow> (nat \<times> nat) option" where
  "issued rts rts' =
    map_option (\<lambda>i. (i, rt_next_sequence (rts ! i))) (find (\<lambda>i. rt_next_sequence (rts' ! i) \<noteq> rt_next_sequence (rts ! i)) [0..<length rts])"

definition log_turn :: "('b, 'm) infer_state \<Rightarrow> ('b, 'm) infer_state \<Rightarrow> submission_log \<Rightarrow> submission_log" where
  "log_turn s t log =
    (case issued (exec_runtimes (in_execution s)) (exec_runtimes (in_execution t)) of None \<Rightarrow> log | Some k \<Rightarrow> log(k := next_packet s))"

inductive logged_step ::
  "'b InferBackend \<Rightarrow> ('b, 'm) infer_state \<times> submission_log \<Rightarrow> ('b, 'm) infer_state \<times> submission_log \<Rightarrow> bool"
for ops where
  turned: "infer_turn ops turn s = Some (Returned None, t) \<Longrightarrow> logged_step ops (s, log) (t, log_turn s t log)"
| others: "logged_step ops (s, log) (s\<lparr> in_world := w, in_scheduler := st, in_env := (in_env s)\<lparr> env_store := store \<rparr> \<rparr>, log)"

lemma same_sequences:
  assumes "map rt_next_sequence rts' = map rt_next_sequence rts" and "i < length rts"
  shows "rt_next_sequence (rts' ! i) = rt_next_sequence (rts ! i)"
  using assms by (metis length_map nth_map)

lemma issued_none: "map rt_next_sequence rts' = map rt_next_sequence rts \<Longrightarrow> issued rts rts' = None"
  using same_sequences [of rts' rts] by (auto simp: issued_def find_None_iff)

lemma issued_update:
  assumes "map rt_next_sequence rts1 = map rt_next_sequence rts" and "i < length rts" and "rt_next_sequence rt \<noteq> rt_next_sequence (rts ! i)"
  shows "issued rts (rts1[i := rt]) = Some (i, rt_next_sequence (rts ! i))"
proof -
  have "length rts1 = length rts" using assms(1) by (rule map_eq_imp_length_eq)
  then have "find (\<lambda>j. rt_next_sequence (rts1[i := rt] ! j) \<noteq> rt_next_sequence (rts ! j)) [0..<length rts] = Some i"
    unfolding find_Some_iff using assms(2,3) same_sequences [OF assms(1)] by (intro exI [of _ i]) (auto simp: nth_list_update)
  then show ?thesis by (simp add: issued_def)
qed

lemma recv_next:
  assumes "recv now (in_io s) ''in'' (in_world s) = (Inr (Some packet), io, w)" and "\<not> is_eos packet"
  shows "next_packet s = Some packet"
  using assms
  by (auto simp: recv_def next_packet_def recv_timeout_def channel_recv_def is_eos_def packet_eos_def packet_of_def Let_def
      split: option.splits prod.splits sum.splits if_splits list.splits RecvError.splits)

text \<open>What a backend promises about inputs: it keeps them with the number they were submitted with, and answers with what it makes of them.\<close>

locale input_backend = infer_backend ops outstanding for ops :: "'b InferBackend" and outstanding +
  fixes held :: "'b \<Rightarrow> (nat \<times> tensor list) set" and makes :: "'b \<Rightarrow> tensor list \<Rightarrow> tensor list \<Rightarrow> bool"
  assumes held_outstanding: "ib_is_async ops b \<Longrightarrow> (sequence, inputs) \<in> held b \<Longrightarrow> sequence \<in> set (outstanding b)"
    and held_submit: "ib_is_async ops b \<Longrightarrow> ib_submit ops inputs stream sequence (b, e) = (Inr u, b', e') \<Longrightarrow>
      held b' \<subseteq> insert (sequence, inputs) (held b) \<and> makes b' = makes b"
    and held_poll: "ib_is_async ops b \<Longrightarrow> ib_poll ops (b, e) = (r, b', e') \<Longrightarrow> held b' \<subseteq> held b \<and> makes b' = makes b"
    and held_answer: "ib_is_async ops b \<Longrightarrow> ib_poll ops (b, e) = (Inr (PollReady outputs sequence), b', e') \<Longrightarrow>
      \<exists>inputs. (sequence, inputs) \<in> held b \<and> makes b inputs outputs"
    and sync_makes: "\<not> ib_is_async ops b \<Longrightarrow> ib_run_with_stream ops inputs stream (b, e) = Some (Inr outputs, b', e') \<Longrightarrow>
      makes b inputs outputs \<and> makes b' = makes b"
begin

text \<open>The work a runtime has in hand was submitted from logged packets.\<close>

definition sourced :: "(nat \<Rightarrow> Packet option) \<Rightarrow> 'b Runtime \<Rightarrow> bool" where
  "sourced log rt \<longleftrightarrow>
    (if ib_is_async ops (rt_backend rt)
     then \<forall>(sequence, inputs) \<in> held (rt_backend rt). \<exists>packet tensor. log sequence = Some packet \<and> tensor_ref packet = Some tensor \<and> inputs = [tensor]
     else \<forall>sequence outputs. rt_sync_result rt = Some (sequence, outputs) \<longrightarrow>
       (\<exists>packet tensor. log sequence = Some packet \<and> tensor_ref packet = Some tensor \<and> makes (rt_backend rt) [tensor] outputs))"

lemma poll_keeps:
  assumes "runtime_poll ops (rt, e) = (r, rt', e')"
  shows "rt_next_sequence rt' = rt_next_sequence rt \<and> makes (rt_backend rt') = makes (rt_backend rt) \<and> (sourced log rt \<longrightarrow> sourced log rt')"
proof (cases "ib_is_async ops (rt_backend rt)")
  case True
  obtain p b e1 where p: "ib_poll ops (rt_backend rt, e) = (p, b, e1)" by (metis prod_cases3)
  have "ib_is_async ops b" using True p poll_ready poll_idle poll_err by (metis InferPoll.exhaust insertCI old.sum.exhaust)
  moreover have "rt' = rt\<lparr> rt_backend := b \<rparr>"
    using assms True p by (auto simp: runtime_poll_def Let_def split: sum.splits InferPoll.splits)
  ultimately show ?thesis using True held_poll [OF True p] by (auto simp: sourced_def)
next
  case False
  then show ?thesis using assms by (auto simp: runtime_poll_def sourced_def split: option.splits)
qed

lemma poll_sourced:
  assumes "runtime_poll ops (rt, e) = (Inr (PollReady outputs sequence), rt', e')" and "sourced log rt"
  shows "\<exists>packet tensor. log sequence = Some packet \<and> tensor_ref packet = Some tensor \<and> makes (rt_backend rt) [tensor] outputs"
proof (cases "ib_is_async ops (rt_backend rt)")
  case True
  then obtain b e1 where "ib_poll ops (rt_backend rt, e) = (Inr (PollReady outputs sequence), b, e1)"
    using assms(1) by (auto simp: runtime_poll_def Let_def split: prod.splits sum.splits InferPoll.splits)
  from held_answer [OF True this] assms(2) True show ?thesis by (auto simp: sourced_def)
next
  case False
  then show ?thesis using assms by (auto simp: runtime_poll_def sourced_def split: option.splits)
qed

text \<open>A submission moves the next number by one and is logged under it; what was in hand has smaller numbers.\<close>

lemma submit_sourced:
  assumes "runtime_submit ops [tensor] None (rt, e) = Some (Inr q, rt', e')" and "runtime_ok rt" and "slot_free rt"
    and "sourced log rt" and "tensor_ref packet = Some tensor"
  shows "q = rt_next_sequence rt \<and> rt_next_sequence rt' = Suc q \<and> sourced (log(q := Some packet)) rt'"
proof -
  have q: "q = rt_next_sequence rt" "rt_next_sequence rt' = Suc q" "ib_is_async ops (rt_backend rt') = ib_is_async ops (rt_backend rt)"
    using submit_accepts [OF assms(1)] assms(3) by (auto simp: slot_free_def)
  have "sourced (log(q := Some packet)) rt'"
  proof (cases "ib_is_async ops (rt_backend rt)")
    case True
    with assms(1) q(1) obtain u b1 e1 where sub: "ib_submit ops [tensor] None q (rt_backend rt, e) = (Inr u, b1, e1)" and rt': "rt_backend rt' = b1"
      by (auto simp: runtime_submit_def checked_add_def Let_def split: if_splits option.splits prod.splits sum.splits)
    have old: "k < q" if "(k, inputs) \<in> held (rt_backend rt)" for k inputs
      using held_outstanding [OF True that] assms(2) q(1) True by (auto simp: runtime_ok_def)
    have "\<exists>p t. (log(q := Some packet)) k = Some p \<and> tensor_ref p = Some t \<and> inputs = [t]" if "(k, inputs) \<in> held b1" for k inputs
    proof (cases "(k, inputs) = (q, [tensor])")
      case False
      then have "(k, inputs) \<in> held (rt_backend rt)" using held_submit [OF True sub] that by auto
      then show ?thesis using old [of k inputs] assms(4) True by (auto simp: sourced_def)
    qed (use assms(5) in simp)
    then show ?thesis using True q(3) rt' by (auto simp: sourced_def)
  next
    case False
    with assms(1) q(1) obtain outputs b1 e1 where run: "ib_run_with_stream ops [tensor] None (rt_backend rt, e) = Some (Inr outputs, b1, e1)"
      and rt': "rt_backend rt' = b1" "rt_sync_result rt' = Some (q, outputs)"
      by (auto simp: runtime_submit_def checked_add_def Let_def split: if_splits option.splits prod.splits sum.splits)
    show ?thesis using sync_makes [OF False run] rt' False q(3) assms(5) by (auto simp: sourced_def)
  qed
  with q show ?thesis by simp
qed

definition all_sourced :: "submission_log \<Rightarrow> 'b Runtime list \<Rightarrow> bool" where
  "all_sourced log rts \<longleftrightarrow> (\<forall>i < length rts. sourced (\<lambda>q. log (i, q)) (rts ! i))"

definition answer_sourced :: "submission_log \<Rightarrow> 'b Runtime list \<Rightarrow> nat \<times> nat \<times> tensor list \<Rightarrow> bool" where
  "answer_sourced log rts answer \<longleftrightarrow>
    (case answer of (i, q, outputs) \<Rightarrow>
      \<exists>packet tensor. log (i, q) = Some packet \<and> tensor_ref packet = Some tensor \<and> makes (rt_backend (rts ! i)) [tensor] outputs)"

definition polled_from :: "submission_log \<Rightarrow> 'b Runtime list \<Rightarrow> (nat \<times> nat \<times> tensor list) option graph_result \<Rightarrow> 'b Runtime list \<Rightarrow> bool" where
  "polled_from log rts r rts' \<longleftrightarrow>
    map rt_next_sequence rts' = map rt_next_sequence rts \<and> map (makes \<circ> rt_backend) rts' = map (makes \<circ> rt_backend) rts \<and> all_sourced log rts' \<and>
    (\<forall>answer. r = Inr (Some answer) \<longrightarrow> fst answer < length rts \<and> answer_sourced log rts answer)"

lemma poll_one_from:
  assumes "runtime_poll ops (rts ! i, e) = (r, rt', e')" and "i < length rts" and "all_sourced log rts"
  shows "polled_from log rts
    (case r of Inl err \<Rightarrow> Inl (GRuntimeBackend (display_runtime_error err)) | Inr (PollReady outputs q) \<Rightarrow> Inr (Some (i, q, outputs)) | Inr _ \<Rightarrow> Inr None)
    (rts[i := rt'])"
proof -
  have k: "rt_next_sequence rt' = rt_next_sequence (rts ! i)" "makes (rt_backend rt') = makes (rt_backend (rts ! i))"
      "sourced (\<lambda>q. log (i, q)) rt'"
    using poll_keeps [OF assms(1)] assms(2,3) by (auto simp: all_sourced_def)
  have "answer_sourced log rts (i, q, outputs)" if "r = Inr (PollReady outputs q)" for outputs q
    using poll_sourced [OF assms(1) [unfolded that]] assms(2,3) by (auto simp: all_sourced_def answer_sourced_def)
  then show ?thesis using k assms(2,3)
    by (auto simp: polled_from_def all_sourced_def nth_list_update map_update list_update_same_conv split: sum.splits InferPoll.splits)
qed

lemma polled_from_trans:
  assumes "polled_from log rts (Inr None) rts1" and "polled_from log rts1 r rts2"
  shows "polled_from log rts r rts2"
proof -
  have len: "length rts1 = length rts" using assms(1) by (auto simp: polled_from_def dest: map_eq_imp_length_eq)
  have same: "map (makes \<circ> rt_backend) rts1 = map (makes \<circ> rt_backend) rts" using assms(1) by (simp add: polled_from_def)
  have "makes (rt_backend (rts1 ! i)) = makes (rt_backend (rts ! i))" if "i < length rts" for i
    using arg_cong [OF same, of "\<lambda>xs. xs ! i"] that len by simp
  then show ?thesis using assms len by (auto simp: polled_from_def answer_sourced_def)
qed

lemma poll_pool_from:
  assumes "poll_pool ops n (rts, cursor, e) = (r, rts', cursor', e')" and "rts \<noteq> []" and "all_sourced log rts"
  shows "polled_from log rts r rts'"
  using assms
proof (induction n arbitrary: rts cursor e)
  case 0
  then show ?case by (auto simp: polled_from_def)
next
  case (Suc n)
  let ?i = "cursor mod length rts"
  have i: "?i < length rts" using Suc.prems(2) by simp
  obtain p rt e1 where p: "runtime_poll ops (rts ! ?i, e) = (p, rt, e1)" by (metis prod_cases3)
  note one = poll_one_from [OF p i Suc.prems(3)]
  show ?case
  proof (cases "\<exists>x. p = Inr x \<and> x \<in> {PollPending, PollEndOfStream}")
    case True
    then have o: "polled_from log rts (Inr None) (rts[?i := rt])" using one by auto
    then have "all_sourced log (rts[?i := rt])" by (simp add: polled_from_def)
    moreover have "poll_pool ops n (rts[?i := rt], (cursor + 1) mod max (length rts) 1, e1) = (r, rts', cursor', e')"
      using Suc.prems(1) p True by (auto simp: Let_def)
    ultimately show ?thesis using Suc.IH Suc.prems(2) polled_from_trans [OF o] by (metis list_update_nonempty)
  next
    case False
    then show ?thesis using one Suc.prems(1) p by (cases p) (auto simp: Let_def split: InferPoll.splits)
  qed
qed

lemma poll_ready_from:
  assumes "poll_ready ops (execution, e) = (r, execution', e')" and "all_sourced log (exec_runtimes execution)"
  shows "polled_from log (exec_runtimes execution) r (exec_runtimes execution')"
proof (cases execution)
  case (SingleExecution rt lease)
  obtain p rt1 e1 where p: "runtime_poll ops (rt, e) = (p, rt1, e1)" by (metis prod_cases3)
  then show ?thesis
    using assms SingleExecution poll_one_from [of "[rt]" 0 e p rt1 e1 log] by (auto simp: poll_ready_def)
next
  case (PoolExecution rts pool policy cursor)
  then show ?thesis using assms poll_pool_from [of "length rts" rts cursor e]
    by (auto simp: poll_ready_def polled_from_def split: if_splits prod.splits)
qed

lemma exec_submit_from:
  assumes "exec_submit ops clocks tensor stream_id (execution, e, st) = Some (Returned (Inr (i, q, lease)), execution', e', st')"
    and "\<forall>rt \<in> set (exec_runtimes execution). runtime_ok rt \<and> slot_free rt" and "all_sourced log (exec_runtimes execution)"
    and "tensor_ref packet = Some tensor"
  shows "\<exists>rt. i < length (exec_runtimes execution) \<and> exec_runtimes execution' = (exec_runtimes execution)[i := rt] \<and>
    q = rt_next_sequence (exec_runtimes execution ! i) \<and> rt_next_sequence rt = Suc q \<and>
    all_sourced (log((i, q) := Some packet)) (exec_runtimes execution')"
proof -
  obtain rt e0 e1 where i: "i < length (exec_runtimes execution)" and x: "exec_runtimes execution' = (exec_runtimes execution)[i := rt]"
    and sub: "runtime_submit ops [tensor] None (exec_runtimes execution ! i, e0) = Some (Inr q, rt, e1)"
    using assms(1)
    by (cases execution) (auto simp: exec_submit_def result_simps Let_def split: option.splits prod.splits outcome.splits sum.splits if_splits)
  have "runtime_ok (exec_runtimes execution ! i)" "slot_free (exec_runtimes execution ! i)" "sourced (\<lambda>q. log (i, q)) (exec_runtimes execution ! i)"
    using assms(2,3) i by (auto simp: all_sourced_def)
  from submit_sourced [OF sub this assms(4)] have s: "q = rt_next_sequence (exec_runtimes execution ! i)" "rt_next_sequence rt = Suc q"
    "sourced ((\<lambda>q. log (i, q))(q := Some packet)) rt" by auto
  moreover have "(\<lambda>k. (log((i, q) := Some packet)) (j, k)) = (if j = i then (\<lambda>k. log (i, k))(q := Some packet) else (\<lambda>k. log (j, k)))" for j
    by (auto simp: fun_eq_iff)
  ultimately show ?thesis using i x assms(3) by (intro exI [of _ rt]) (auto simp: all_sourced_def nth_list_update)
qed

text \<open>The invariant of the loop with its log.\<close>

definition entries_logged :: "submission_log \<Rightarrow> PendingInference list \<Rightarrow> bool" where
  "entries_logged log pending \<longleftrightarrow> (\<forall>p \<in> set pending. \<exists>packet. log (pi_runtime_index p, pi_sequence p) = Some packet \<and> pi_meta p = pk_meta packet)"

definition logged_ok :: "('b, 'm) infer_state \<times> submission_log \<Rightarrow> bool" where
  "logged_ok sl \<longleftrightarrow>
    (case sl of (s, log) \<Rightarrow> infer_ok s \<and> entries_logged log (in_pending s) \<and> all_sourced log (exec_runtimes (in_execution s)))"

lemma accept_logged:
  assumes "accept_packet ops turn packet s = Some (Returned None, t)" and "infer_ok s" and "\<forall>rt \<in> set (exec_runtimes (in_execution s)). slot_free rt"
    and "all_sourced log (exec_runtimes (in_execution s))" and "entries_logged log (in_pending s)"
  shows "\<exists>i rt q. i < length (exec_runtimes (in_execution s)) \<and> exec_runtimes (in_execution t) = (exec_runtimes (in_execution s))[i := rt] \<and>
    q = rt_next_sequence (exec_runtimes (in_execution s) ! i) \<and> rt_next_sequence rt = Suc q \<and>
    all_sourced (log((i, q) := Some packet)) (exec_runtimes (in_execution t)) \<and> entries_logged (log((i, q) := Some packet)) (in_pending t)"
proof -
  obtain tensor i q lease execution e st where tensor: "tensor_ref packet = Some tensor" and
    sub: "exec_submit ops (tn_times turn) tensor (pm_stream_id (pk_meta packet)) (in_execution s, clone_tensors [tensor] (in_env s), in_scheduler s) =
      Some (Returned (Inr (i, q, lease)), execution, e, st)"
    and t: "in_execution t = execution"
      "in_pending t = in_pending s @ [\<lparr> pi_runtime_index = i, pi_sequence = q, pi_meta = pk_meta packet, pi_pool_lease = lease \<rparr>]"
    using assms(1) by (auto simp: accept_packet_def Let_def split: option.splits prod.splits outcome.splits sum.splits)
  have rts: "\<forall>rt \<in> set (exec_runtimes (in_execution s)). runtime_ok rt \<and> slot_free rt" using assms(2,3) by (simp add: infer_ok_def)
  from exec_submit_from [OF sub rts assms(4) tensor] obtain rt where rt: "i < length (exec_runtimes (in_execution s))"
    "exec_runtimes execution = (exec_runtimes (in_execution s))[i := rt]" "q = rt_next_sequence (exec_runtimes (in_execution s) ! i)" "rt_next_sequence rt = Suc q"
    "all_sourced (log((i, q) := Some packet)) (exec_runtimes execution)" by auto
  have "(pi_runtime_index p, pi_sequence p) \<noteq> (i, q)" if "p \<in> set (in_pending s)" for p
  proof
    assume "(pi_runtime_index p, pi_sequence p) = (i, q)"
    then have "0 < count (mset (pending_keys (in_pending s))) (i, q)" using that by (auto simp: pending_keys_def image_iff)
    then have "0 < key_count (exec_runtimes (in_execution s)) (i, q)" using assms(2) by (metis infer_ok_def)
    then have "q \<in> set (waiting (exec_runtimes (in_execution s) ! i))" by (simp add: key_count_def del: waiting_simps split: if_splits)
    then show False using rts rt(1,3) by (auto simp: runtime_ok_def simp del: waiting_simps)
  qed
  then have "entries_logged (log((i, q) := Some packet)) (in_pending t)" using assms(5) by (auto simp: entries_logged_def t)
  then show ?thesis using rt t(1) by blast
qed

lemma emit_logged:
  assumes "emit_answer turn answer s = Some (Returned None, t)" and "entries_logged log (in_pending s)"
  shows "in_execution t = in_execution s \<and> entries_logged log (in_pending t)"
proof -
  obtain j where "in_pending t = remove_at j (in_pending s)" "in_execution t = in_execution s"
    using assms(1) by (auto simp: emit_answer_def Let_def split: option.splits prod.splits sum.splits)
  then show ?thesis using assms(2) set_remove_at [of j "in_pending s"] by (auto simp: entries_logged_def)
qed

text \<open>A turn that goes on either leaves the pending entries and what they are logged as, or answers, or submits the packet at the front of the pipe.\<close>

lemma infer_turn_logged:
  assumes "logged_ok (s, log)" and "infer_turn ops turn s = Some (Returned None, t)"
  shows "entries_logged (log_turn s t log) (in_pending t) \<and> all_sourced (log_turn s t log) (exec_runtimes (in_execution t))"
proof -
  obtain polled execution e where p: "poll_ready ops (in_execution s, in_env s) = (polled, execution, e)" by (metis prod_cases3)
  let ?s = "s\<lparr> in_execution := execution, in_env := e \<rparr>"
  have ok: "infer_ok s" and log: "entries_logged log (in_pending s)" and src: "all_sourced log (exec_runtimes (in_execution s))"
    using assms(1) by (simp_all add: logged_ok_def)
  have kept: "map rt_next_sequence (exec_runtimes execution) = map rt_next_sequence (exec_runtimes (in_execution s))"
    "all_sourced log (exec_runtimes execution)"
    using poll_ready_from [OF p src] by (simp_all add: polled_from_def)
  have unmoved: ?thesis if "in_execution t = execution" "entries_logged log (in_pending t)"
    using that kept issued_none [OF kept(1)] by (simp add: log_turn_def)
  consider (answer) answer where "polled = Inr (Some answer)" "emit_answer turn answer ?s = Some (Returned None, t)"
    | (quiet) "in_execution t = execution" "in_pending t = in_pending s"
    | (accept) packet io w where "polled = Inr None" "recv (tn_now turn) (in_io s) ''in'' (in_world s) = (Inr (Some packet), io, w)" "\<not> is_eos packet"
        "accept_packet ops turn packet (?s\<lparr> in_io := io, in_world := w \<rparr>) = Some (Returned None, t)"
    using assms(2) p by (auto simp: infer_turn_def Let_def split: if_splits option.splits prod.splits sum.splits)
  then show ?thesis
  proof cases
    case answer
    then show ?thesis using emit_logged [OF answer(2)] log unmoved by simp
  next
    case quiet
    then show ?thesis using log unmoved by simp
  next
    case accept
    let ?a = "?s\<lparr> in_io := io, in_world := w \<rparr>"
    have pok: "polled_ok (exec_runtimes (in_execution s)) (in_env s) polled (exec_runtimes execution) e" and
      free: "\<forall>rt \<in> set (exec_runtimes execution). slot_free rt"
      using poll_ready_ok [OF p] ok accept(1) by (auto simp: infer_ok_def)
    have a: "infer_ok ?a" using ok pok accept(1) by (auto simp: infer_ok_def polled_ok_def)
    have "\<forall>rt \<in> set (exec_runtimes (in_execution ?a)). slot_free rt" "all_sourced log (exec_runtimes (in_execution ?a))" "entries_logged log (in_pending ?a)"
      using free kept(2) log by simp_all
    from accept_logged [OF accept(4) a this] obtain i rt q where "i < length (exec_runtimes (in_execution ?a))"
      "exec_runtimes (in_execution t) = (exec_runtimes (in_execution ?a))[i := rt]" "q = rt_next_sequence (exec_runtimes (in_execution ?a) ! i)"
      and r: "rt_next_sequence rt = Suc q" "all_sourced (log((i, q) := Some packet)) (exec_runtimes (in_execution t))"
        "entries_logged (log((i, q) := Some packet)) (in_pending t)" by blast
    then have x: "i < length (exec_runtimes execution)" "exec_runtimes (in_execution t) = (exec_runtimes execution)[i := rt]"
      "q = rt_next_sequence (exec_runtimes execution ! i)" by simp_all
    have i: "i < length (exec_runtimes (in_execution s))" using x(1) map_eq_imp_length_eq [OF kept(1)] by simp
    have "q = rt_next_sequence (exec_runtimes (in_execution s) ! i)" using x(3) same_sequences [OF kept(1) i] by simp
    then have "log_turn s t log = log((i, q) := Some packet)"
      using issued_update [OF kept(1) i, of rt] x(2) r(1) recv_next [OF accept(2,3)] by (simp add: log_turn_def)
    then show ?thesis using r(2,3) by simp
  qed
qed

lemma logged_step_ok:
  assumes "logged_step ops sl sl'" and "logged_ok sl"
  shows "logged_ok sl'"
  using assms(1)
proof (cases rule: logged_step.cases)
  case (turned turn s t log)
  then show ?thesis using infer_turn_logged [of s log turn t] infer_turn_ok [of s turn t] assms(2) by (auto simp: logged_ok_def)
next
  case (others s log w st store)
  then show ?thesis using assms(2) by (simp add: logged_ok_def infer_ok_def)
qed

text \<open>An answer is of a logged packet, made from its tensor, and goes out with its metadata.\<close>

lemma answer_delivered:
  assumes "logged_ok (s, log)" and "poll_ready ops (in_execution s, in_env s) = (Inr (Some (i, q, outputs)), execution, e)"
  shows "\<exists>packet tensor. log (i, q) = Some packet \<and> tensor_ref packet = Some tensor \<and>
    makes (rt_backend (exec_runtimes (in_execution s) ! i)) [tensor] outputs \<and>
    (\<forall>turn r t. infer_turn ops turn s = Some (Returned r, t) \<longrightarrow>
      (\<exists>sent k. send_outputs turn (pk_meta packet) outputs (in_io s, 0, in_world s) = Some (sent, in_io t, k, in_world t)))"
proof -
  have ok: "infer_ok s" and log: "entries_logged log (in_pending s)" and src: "all_sourced log (exec_runtimes (in_execution s))"
    using assms(1) by (simp_all add: logged_ok_def)
  obtain packet tensor where f: "log (i, q) = Some packet" "tensor_ref packet = Some tensor"
      "makes (rt_backend (exec_runtimes (in_execution s) ! i)) [tensor] outputs"
    using poll_ready_from [OF assms(2) src] by (auto simp: polled_from_def answer_sourced_def)
  obtain j where j: "find_pending i q (in_pending s) = Some j" "j < length (in_pending s)" "pending_keys (in_pending s) ! j = (i, q)"
    using find_pending_some [OF answer_pending [OF ok assms(2)]] .
  then have "pi_meta (in_pending s ! j) = pk_meta packet" using log f(1) by (auto simp: entries_logged_def pending_keys_def dest!: nth_mem)
  then have "\<exists>sent k. send_outputs turn (pk_meta packet) outputs (in_io s, 0, in_world s) = Some (sent, in_io t, k, in_world t)"
    if "infer_turn ops turn s = Some (Returned r, t)" for turn r t
    using that assms(2) j(1) by (auto simp: infer_turn_def emit_answer_def Let_def split: option.splits prod.splits)
  with f show ?thesis by blast
qed

end

section \<open>Properties\<close>

text \<open>An element that was just created: nothing is outstanding and nothing counted.\<close>

definition infer_start :: "'b InferenceExecution \<Rightarrow> env \<Rightarrow> SchedulerState \<Rightarrow> ElementIo \<Rightarrow> 'm io_world \<Rightarrow> ('b, 'm) infer_state" where
  "infer_start execution e st io w =
    \<lparr> in_execution = execution, in_pending = [], in_eos = False, in_env = e, in_scheduler = st, in_io = io, in_world = w \<rparr>"

text \<open>When the element ends, or is dropped, its submissions are cancelled and its leases released.\<close>

definition infer_drop :: "'b InferBackend \<Rightarrow> ('b, 'm) infer_state \<Rightarrow> env \<times> SchedulerState" where
  "infer_drop ops s =
    (case exec_cancel ops (in_execution s, in_env s) of
       (execution, e) \<Rightarrow>
         (e, fold (\<lambda>p. drop_pooled (pi_pool_lease p)) (in_pending s)
           (case execution of SingleExecution rt (Some l) \<Rightarrow> drop_lease l (in_scheduler s) | _ \<Rightarrow> in_scheduler s)))"

interpretation mock_inference: step_system "infer_step (mock_ops can_reserve)" "mock.infer_ok can_reserve"
    "\<lambda>s t. map rt_max_in_flight (exec_runtimes (in_execution t)) = map rt_max_in_flight (exec_runtimes (in_execution s))" for can_reserve
  by unfold_locales (use mock.infer_step_ok in \<open>blast\<close> | simp)+

text \<open>A runtime with nothing to answer.\<close>

definition fresh_runtime :: "(nat \<Rightarrow> bool) \<Rightarrow> MockBackend Runtime \<Rightarrow> bool" where
  "fresh_runtime can_reserve rt \<longleftrightarrow> rt_outstanding (mock_ops can_reserve) mock_outstanding rt = [] \<and> rt_max_in_flight rt \<le> 64"

lemma platform_runtime_fresh:
  assumes "platform_runtime pf option = Inr rt" and "pf_ops pf = mock_ops can_reserve" and "pf_registered pf = [mock_descriptor from_value]"
  shows "fresh_runtime can_reserve rt"
proof -
  have "new_with_metrics (mock_ops can_reserve) (pf_debug_records pf) (pf_files pf) [mock_descriptor from_value] option = Inr rt"
    using assms by (auto simp: platform_runtime_def result_simps)
  from mock_runtime_new [OF this] show ?thesis by (auto simp: fresh_runtime_def mock_max_in_flight_def clamp_in_flight_def)
qed

lemma mock_reshape_fields: "mb_pending (snd (mock_reshape shapes b)) = mb_pending b" "mock_is_async (snd (mock_reshape shapes b)) = mock_is_async b"
  by (auto simp: mock_reshape_def mock_is_async_def Let_def)

lemma apply_reshape_fresh:
  assumes "apply_reshape (mock_ops can_reserve) planned rt = Inr rt'" and "fresh_runtime can_reserve rt"
  shows "fresh_runtime can_reserve rt'"
proof (cases planned)
  case (Some shape)
  then obtain u b where "mock_reshape [shape] (rt_backend rt) = (Inr u, b)" "rt' = rt\<lparr> rt_backend := b \<rparr>"
    using assms(1) by (auto simp: apply_reshape_def runtime_reshape_def mock_ops_def split: prod.splits sum.splits)
  with mock_reshape_fields [of "[shape]" "rt_backend rt"] assms(2) show ?thesis
    by (auto simp: fresh_runtime_def rt_outstanding_def mock_ops_def mock_outstanding_def sync_outstanding_def split: if_splits)
qed (use assms in \<open>simp add: apply_reshape_def\<close>)

lemma create_pool_runtimes_fresh:
  assumes "create_pool_runtimes pf topology plan placements runtimes = Inr rts" and "pf_ops pf = mock_ops can_reserve"
    and "pf_registered pf = [mock_descriptor from_value]" and "\<forall>rt \<in> set runtimes. fresh_runtime can_reserve rt"
  shows "\<forall>rt \<in> set rts. fresh_runtime can_reserve rt"
  using assms(1,4)
proof (induction placements arbitrary: runtimes)
  case (Cons placement placements)
  from Cons.prems(1) assms(2) obtain rt rt1 where new: "platform_runtime pf (option_for_placement topology (pn_option plan) placement) = Inr rt"
      and shaped: "apply_reshape (mock_ops can_reserve) (pn_reshape plan) rt = Inr rt1" and rest: "create_pool_runtimes pf topology plan placements (runtimes @ [rt1]) = Inr rts"
    by (auto simp: result_simps)
  have "fresh_runtime can_reserve rt1" by (rule apply_reshape_fresh [OF shaped platform_runtime_fresh [OF new assms(2,3)]])
  with Cons.prems(2) have "\<forall>rt \<in> set (runtimes @ [rt1]). fresh_runtime can_reserve rt" by auto
  then show ?case by (rule Cons.IH [OF rest])
qed auto

lemma created_fresh:
  assumes "create_inference_inner t1 t2 pf build_policy value (e0, st0) = (Inr execution, e, st)" and "pf_ops pf = mock_ops can_reserve"
    and "pf_registered pf = [mock_descriptor from_value]"
  shows "(\<forall>rt \<in> set (exec_runtimes execution). fresh_runtime can_reserve rt) \<and> bm_in_flight (env_metrics e) = 0"
proof -
  consider plan option lease where "create_single pf plan option lease = Inr execution" | plan where "create_inference_pool pf plan = Inr execution"
    using assms(1) by (auto simp: create_inference_inner_def Let_def split: sum.splits prod.splits if_splits)
  then have "\<forall>rt \<in> set (exec_runtimes execution). fresh_runtime can_reserve rt"
  proof cases
    case 1
    then obtain rt rt1 where "platform_runtime pf option = Inr rt" "apply_reshape (mock_ops can_reserve) (pn_reshape plan) rt = Inr rt1" "execution = SingleExecution rt1 lease"
      using assms(2) by (auto simp: create_single_def result_simps)
    then show ?thesis using platform_runtime_fresh [OF _ assms(2,3)] apply_reshape_fresh by fastforce
  next
    case 2
    then obtain topology placements rts pool where "create_pool_runtimes pf topology plan placements [] = Inr rts" "execution = PoolExecution rts pool (pn_policy plan) 0"
      by (auto simp: create_inference_pool_def result_simps)
    then show ?thesis using create_pool_runtimes_fresh [OF _ assms(2,3)] by fastforce
  qed
  moreover have "e = e0\<lparr> env_metrics := backend_metrics_default \<rparr>"
    using assms(1) by (auto simp: create_inference_inner_def Let_def split: sum.splits prod.splits if_splits)
  ultimately show ?thesis by (simp add: backend_metrics_default_def)
qed

lemma infer_start_ok:
  assumes "\<forall>rt \<in> set (exec_runtimes execution). fresh_runtime can_reserve rt" and "bm_in_flight (env_metrics e) = 0"
  shows "mock.infer_ok can_reserve (infer_start execution e st io w)"
proof -
  have "mock.key_count can_reserve (exec_runtimes execution) k = 0" for k
    using assms(1) by (auto simp: mock.key_count_def fresh_runtime_def)
  moreover have "mock.runtime_ok can_reserve rt" if "rt \<in> set (exec_runtimes execution)" for rt
    using assms(1) that by (auto simp: mock.runtime_ok_def fresh_runtime_def usize_max_def)
  ultimately show ?thesis using assms(2) by (auto simp: mock.infer_ok_def infer_start_def pending_keys_def fun_eq_iff)
qed

section \<open>The mock backend keeps inputs\<close>

definition mock_held :: "MockBackend \<Rightarrow> (nat \<times> tensor list) set" where
  "mock_held b = (\<lambda>d. (di_sequence d, di_inputs d)) ` set (mb_pending b)"

text \<open>The outputs are those of \<open>produce_outputs\<close> for the inputs, in some state of the store.\<close>

definition mock_makes :: "(nat \<Rightarrow> bool) \<Rightarrow> MockBackend \<Rightarrow> tensor list \<Rightarrow> tensor list \<Rightarrow> bool" where
  "mock_makes can_reserve b inputs outputs \<longleftrightarrow> (\<exists>e. fst (produce_outputs can_reserve b inputs e) = Inr outputs)"

lemma mock_makes_pending [simp]: "mock_makes can_reserve (b\<lparr> mb_pending := ds \<rparr>) = mock_makes can_reserve b"
  by (intro ext) (simp add: mock_makes_def produce_outputs_def)

interpretation mock_inputs: input_backend "mock_ops can_reserve" mock_outstanding mock_held "mock_makes can_reserve" for can_reserve
proof (unfold_locales, goal_cases)
  case (1 b sequence inputs)
  then show ?case by (auto simp: mock_held_def mock_outstanding_def)
next
  case (2 b inputs stream sequence e u b' e')
  then show ?case
    by (auto simp: mock_ops_def mock_submit_def mock_held_def instant_now_def Let_def split: if_splits option.splits prod.splits)
next
  case (3 b e r b' e')
  then have "mock_poll can_reserve (b, e) = (r, b', e')" by (simp add: mock_ops_def)
  then show ?case by (cases rule: mock_poll_cases) (auto simp: mock_held_def intro!: imageI dest!: set_remove_at [THEN subsetD])
next
  case (4 b e outputs sequence b' e')
  then have "mock_poll can_reserve (b, e) = (Inr (PollReady outputs sequence), b', e')" by (simp add: mock_ops_def)
  then show ?case
  proof (cases rule: mock_poll_cases)
    case (answered i)
    have "mock_makes can_reserve b' (di_inputs (mb_pending b ! i)) outputs" using answered(5) by (auto simp: mock_makes_def)
    moreover have "i < length (mb_pending b)" "sequence = di_sequence (mb_pending b ! i)" using answered(1,5) by (auto simp: earliest_due_def)
    ultimately show ?thesis using answered(2) by (intro exI [of _ "di_inputs (mb_pending b ! i)"]) (auto simp: mock_held_def intro!: image_eqI)
  qed simp
next
  case (5 b inputs stream e outputs b' e')
  then show ?case by (auto simp: mock_ops_def mock_run_def mock_makes_def Let_def split: prod.splits if_splits) (metis fst_conv)
qed

interpretation mock_logged: invariant_system "logged_step (mock_ops can_reserve)" "mock_inputs.logged_ok can_reserve" for can_reserve
  by unfold_locales (rule mock_inputs.logged_step_ok)

lemma mock_ops_async: "ib_is_async (mock_ops can_reserve) = mock_is_async"
  by (simp add: mock_ops_def)

lemma fresh_sourced:
  assumes "fresh_runtime can_reserve rt"
  shows "mock_inputs.sourced can_reserve log rt"
proof (cases "mock_is_async (rt_backend rt)")
  case True
  then show ?thesis using assms by (auto simp: fresh_runtime_def rt_outstanding_def mock_inputs.sourced_def mock_held_def mock_outstanding_def mock_ops_async)
next
  case False
  then show ?thesis using assms
    by (auto simp: fresh_runtime_def rt_outstanding_def mock_inputs.sourced_def sync_outstanding_def mock_ops_async split: option.splits)
qed

text \<open>C8. Each answer of an inference element goes out with the metadata of the packet it was computed from.  This is proved for the mock backend, the only
  backend that is modelled, synchronous or with delayed answers, in a single runtime or a pool.  Beside the loop a log notes, under the runtime and the sequence number that
  a submission takes, the packet that stood at the front of the input.  Through any turns of the loop that go on and any interference of other threads: the pending entries have
  distinct keys and the counter in flight is their number; the inputs that a backend with delayed answers keeps under a number are the tensor of the packet logged there; and
  whenever a poll answers with a runtime, a number and outputs, a packet is logged there, the outputs are those that the backend produces from its tensor in some state of
  the store, and a turn that returns sends exactly them on \<open>out\<close> with that packet's metadata.\<close>

theorem inference_answers_matched:
  assumes "create_inference_inner t1 t2 pf build_policy value (e0, st0) = (Inr execution, e, st)" and "pf_ops pf = mock_ops can_reserve"
    and "pf_registered pf = [mock_descriptor from_value]"
    and "(logged_step (mock_ops can_reserve))\<^sup>*\<^sup>* (infer_start execution e st io w, Map.empty) (s, log)"
  shows "distinct (pending_keys (in_pending s)) \<and> runtime_in_flight (in_env s) = length (in_pending s) \<and>
    (\<forall>i < length (exec_runtimes (in_execution s)). mock_is_async (rt_backend (exec_runtimes (in_execution s) ! i)) \<longrightarrow>
      (\<forall>d \<in> set (mb_pending (rt_backend (exec_runtimes (in_execution s) ! i))).
        \<exists>packet tensor. log (i, di_sequence d) = Some packet \<and> tensor_ref packet = Some tensor \<and> di_inputs d = [tensor])) \<and>
    (\<forall>i q outputs execution' e'. poll_ready (mock_ops can_reserve) (in_execution s, in_env s) = (Inr (Some (i, q, outputs)), execution', e') \<longrightarrow>
      (\<exists>packet tensor. log (i, q) = Some packet \<and> tensor_ref packet = Some tensor \<and>
        mock_makes can_reserve (rt_backend (exec_runtimes (in_execution s) ! i)) [tensor] outputs \<and>
        (\<forall>turn r t. infer_turn (mock_ops can_reserve) turn s = Some (Returned r, t) \<longrightarrow>
          (\<exists>sent k. send_outputs turn (pk_meta packet) outputs (in_io s, 0, in_world s) = Some (sent, in_io t, k, in_world t)))))"
proof -
  have fresh: "\<forall>rt \<in> set (exec_runtimes execution). fresh_runtime can_reserve rt" "bm_in_flight (env_metrics e) = 0"
    using created_fresh [OF assms(1-3)] by simp_all
  have "mock_inputs.logged_ok can_reserve (infer_start execution e st io w, Map.empty)"
    using infer_start_ok [OF fresh] fresh_sourced fresh(1)
    by (auto simp: mock_inputs.logged_ok_def mock_inputs.entries_logged_def mock_inputs.all_sourced_def infer_start_def)
  then have ok: "mock_inputs.logged_ok can_reserve (s, log)" using mock_logged.reachable [OF assms(4)] by simp
  then have iok: "mock.infer_ok can_reserve s" by (simp add: mock_inputs.logged_ok_def)
  have "mock_inputs.all_sourced can_reserve log (exec_runtimes (in_execution s))" using ok by (simp add: mock_inputs.logged_ok_def)
  then have "\<forall>i < length (exec_runtimes (in_execution s)). mock_is_async (rt_backend (exec_runtimes (in_execution s) ! i)) \<longrightarrow>
      (\<forall>d \<in> set (mb_pending (rt_backend (exec_runtimes (in_execution s) ! i))).
        \<exists>packet tensor. log (i, di_sequence d) = Some packet \<and> tensor_ref packet = Some tensor \<and> di_inputs d = [tensor])"
    by (auto simp: mock_inputs.all_sourced_def mock_inputs.sourced_def mock_ops_async mock_held_def)
  then show ?thesis
    using mock.pending_distinct [OF iok] mock_inputs.answer_delivered [OF ok] iok by (simp add: runtime_in_flight_def mock.infer_ok_def)
qed

text \<open>C26. A pool does not run its instances in parallel: its runtimes share one count in flight, and capacity compares that sum with the limit of a single runtime.
  However many instances a pool has, as long as each of them allows at most \<open>limit\<close> submissions, no more than \<open>limit\<close> are ever pending over the whole pool.\<close>

theorem pool_shares_capacity:
  assumes "create_inference_inner t1 t2 pf build_policy value (e0, st0) = (Inr (PoolExecution rts pool policy cursor), e, st)"
    and "pf_ops pf = mock_ops can_reserve" and "pf_registered pf = [mock_descriptor from_value]"
    and "\<forall>rt \<in> set rts. rt_max_in_flight rt \<le> limit"
    and "(infer_step (mock_ops can_reserve))\<^sup>*\<^sup>* (infer_start (PoolExecution rts pool policy cursor) e st io w) s"
  shows "length (in_pending s) \<le> limit"
proof -
  have start: "mock.infer_ok can_reserve (infer_start (PoolExecution rts pool policy cursor) e st io w)"
    using infer_start_ok created_fresh [OF assms(1-3)] by blast
  have lims: "map rt_max_in_flight (exec_runtimes (in_execution s)) = map rt_max_in_flight rts" and ok: "mock.infer_ok can_reserve s"
    using mock_inference.reachable [OF assms(5) start] by (simp_all add: infer_start_def)
  show ?thesis
  proof (cases "in_pending s = []")
    case False
    then obtain m where "m \<in> set (map rt_max_in_flight (exec_runtimes (in_execution s)))" "length (in_pending s) \<le> m"
      using ok by (auto simp: mock.infer_ok_def)
    then show ?thesis using lims assms(4) by auto
  qed simp
qed

section \<open>An example\<close>

text \<open>A pool of two instances on a two-core device, delayed answers, one packet at the input.\<close>

definition two_cores :: Topology where
  "two_cores = \<lparr> tp_deployment = Host_mode, tp_devices = [\<lparr> sd_kind = Cpu, sd_id = 0, sd_cores = [\<lparr> core_id = 0 \<rparr>, \<lparr> core_id = 1 \<rparr>] \<rparr>] \<rparr>"

definition delayed_config :: MockConfig where
  "delayed_config = \<lparr> mk_shape = Some [1], mk_output_shape = None, mk_dtype = Some ''u8'', mk_output_dtype = None, mk_layout = None, mk_echo_inputs = None,
    mk_fill_value = None, mk_delay_ms = Some 1, mk_delays_ms = None, mk_max_in_flight = None \<rparr>"

definition pool_params :: InferenceParams where
  "pool_params = \<lparr> np_backend = ''mock'', np_model = None, np_precision = None, np_device = Some ''cpu'', np_deploy_mode = None, np_core_mask = None,
    np_instances = 2, np_schedule = None, np_reshape = None, np_options = Null \<rparr>"

definition pool_platform :: "MockBackend platform" where
  "pool_platform = \<lparr> pf_ops = mock_ops all_reserve, pf_debug_records = (\<lambda>_. []), pf_files = \<lparr> mf_open = (\<lambda>_. Inl []), mf_len = (\<lambda>_. Inl []), mf_read = (\<lambda>_ _. Inl []) \<rparr>,
    pf_registered = [mock_descriptor (\<lambda>_. Inr delayed_config)], pf_params = (\<lambda>_. Inr pool_params), pf_scheduler = Inr two_cores, pf_reserve = all_reserve \<rparr>"

definition two_core_state :: SchedulerState where
  "two_core_state = sample_state\<lparr> ss_devices := [(ss_devices sample_state ! 0)\<lparr> ds_kind := Cpu \<rparr>] \<rparr>"

definition pool_created :: "MockBackend InferenceExecution graph_result \<times> env \<times> SchedulerState" where
  "pool_created = create_inference_inner 0 0 pool_platform None Null (mock_env0, two_core_state)"

definition one_packet :: "unit io_world" where
  "one_packet = \<lparr> iw_pipes = (\<lambda>_. unbounded\<lparr> dp_queue := [packet_tensor \<lparr> t_desc = info_tensor_desc (tensor_info_new (shape_new [1]) dt_U8) Cpu,
      t_buffer = \<lparr> b_device = Cpu, b_domain = Host, b_desc = buffer_desc_new 1 1, b_external = external_none, b_storage = 0 \<rparr> \<rparr>], dp_depth := 1 \<rparr>),
    iw_tables = (\<lambda>_. []), iw_stop = False, iw_control_stop = (\<lambda>_. False), iw_eos = (\<lambda>_. \<lparr> es_seen = False, es_broadcasts = 0, es_instances = 1 \<rparr>),
    iw_metrics = (\<lambda>_. metrics_default) \<rparr>"

definition pool_io :: ElementIo where
  "pool_io = \<lparr> io_name = ''infer'', io_inputs = [(''in'', 0)], io_outputs = [(''out'', 0)], io_control = 0, io_eos = 0, io_metrics = 0,
    io_packet_starts = [], io_max_packet_starts = 8, io_policy = resource_policy_default \<rparr>"

definition placed :: "8 word \<Rightarrow> Placement" where
  "placed core = \<lparr> pc_kind = Cpu, pc_device_id = 0, pc_core_id = core \<rparr>"

definition delayed_pool :: InstancePool where
  "delayed_pool = \<lparr> ip_placements = [placed 0, placed 1], ip_allowed_placements = [(0, 0), (0, 1)], ip_next_instance = 0, ip_next_poisoned = False,
    ip_affinity = affinity_new 2 600 \<rparr>"

lemma two_cores_pool: "instance_pool_new two_cores Cpu 2 Auto = Inr delayed_pool"
  by (simp add: delayed_pool_def instance_pool_new_def MAX_INSTANCE_COUNT_def available_placements_def two_cores_def placed_def placement_key_def
      upt_rec Let_def numeral_2_eq_2)

definition delayed_mock :: MockOptions where
  "delayed_mock =
    (let info = info_with_layout NC (tensor_info_new (shape_new [1]) dt_U8)
     in \<lparr> mo_input_infos = [info], mo_output_infos = [info], mo_echo_inputs = True, mo_fill_value = 0, mo_delay = Some 1000000, mo_delays = [], mo_max_in_flight = 1 \<rparr>)"

definition delayed_option :: RuntimeOption where
  "delayed_option = into_runtime_option MockKind (ModelBytes []) (MockOpts delayed_mock) (config_with_device Cpu (backend_config_new None (Object [])))"

lemma prepared_pool: "prepare_inference (\<lambda>_. Inr pool_params) [mock_descriptor (\<lambda>_. Inr delayed_config)] v =
    Inr \<lparr> pn_option = delayed_option, pn_reshape = None, pn_instances = 2, pn_policy = LeastLoaded \<rparr>"
  by (simp add: prepare_inference_def pool_params_def parse_option_def infer_parse_device_def options_device_def select_device_def parse_schedule_def
      configure_backend_def mock_descriptor_def configure_mock_def parse_options_def delayed_config_def parse_or_def mock_parse_dtype_def dtype_names_def
      parse_delay_ms_def MAX_MOCK_DELAY_MS_def from_millis_def clamp_in_flight_def into_runtime_option_def config_with_device_def backend_config_new_def
      validate_runtime_option_def require_supported_def supports_device_def fail_if_def delayed_option_def delayed_mock_def Let_def)

definition delayed_runtime :: "MockBackend Runtime" where
  "delayed_runtime =
    (let b = \<lparr> mb_options = delayed_mock, mb_input_infos = mo_input_infos delayed_mock, mb_output_infos = mo_output_infos delayed_mock, mb_pending = [], mb_metrics = True \<rparr>
     in \<lparr> rt_backend = b, rt_capabilities = projr (mock_probe b), rt_next_sequence = 0, rt_sync_result = None, rt_max_in_flight = 1,
          rt_process_policy = process_policy_default \<rparr>)"

lemma delayed_runtime_new: "platform_runtime pool_platform (option_for_placement two_cores delayed_option (placed core)) = Inr delayed_runtime"
  by (simp add: platform_runtime_def pool_platform_def new_with_metrics_def option_for_placement_def place_option_def two_cores_def placed_def delayed_option_def
      into_runtime_option_def config_with_device_def backend_config_new_def validate_runtime_option_def require_supported_def supports_device_def
      supports_deployment_def ensure_model_source_fits_def fail_if_def create_backend_def mock_descriptor_def mock_ops_def mock_init_def as_mock_def mock_new_def
      mock_probe_def validate_probed_capabilities_def caps_supports_device_def caps_supports_deployment_def mock_max_in_flight_def clamp_in_flight_def
      delayed_runtime_def delayed_mock_def mock_is_async_def Let_def)

lemma pool_created: "pool_created = (Inr (PoolExecution [delayed_runtime, delayed_runtime] delayed_pool LeastLoaded 0), mock_env0, two_core_state)"
proof -
  have shape: "validate_runtime_shape (mock_ops all_reserve) delayed_runtime = Inr ()"
    by (simp add: validate_runtime_shape_def mock_ops_def delayed_runtime_def delayed_mock_def fail_if_def Let_def)
  have option: "ro_device delayed_option = Some Cpu" "requested_core_selection delayed_option = Auto"
    by (simp_all add: delayed_option_def into_runtime_option_def config_with_device_def backend_config_new_def requested_core_selection_def is_explicit_def)
  have pf: "pf_params pool_platform = (\<lambda>_. Inr pool_params)" "pf_registered pool_platform = [mock_descriptor (\<lambda>_. Inr delayed_config)]"
    "pf_scheduler pool_platform = Inr two_cores" "pf_ops pool_platform = mock_ops all_reserve" "pf_reserve pool_platform = all_reserve"
    by (simp_all add: pool_platform_def)
  have "create_pool_runtimes pool_platform two_cores \<lparr> pn_option = delayed_option, pn_reshape = None, pn_instances = 2, pn_policy = LeastLoaded \<rparr>
      (ip_placements delayed_pool) [] = Inr [delayed_runtime, delayed_runtime]"
    by (simp add: delayed_pool_def delayed_runtime_new shape pf apply_reshape_def)
  then show ?thesis
    by (simp add: pool_created_def create_inference_inner_def prepared_pool pf option create_inference_pool_def inference_scheduler_def two_cores_pool
        fail_if_def mock_env0_def)
qed

lemma first_turn:
  "\<exists>s. infer_turn (mock_ops all_reserve) \<lparr> tn_times = (0, 0, 0, 0), tn_now = 0, tn_fuel = 1, tn_others = (\<lambda>_ w. w) \<rparr>
      (infer_start (PoolExecution [delayed_runtime, delayed_runtime] delayed_pool LeastLoaded 0) mock_env0 two_core_state pool_io one_packet) = Some (Returned None, s) \<and>
    length (in_pending s) = 1"
proof -
  let ?ops = "mock_ops all_reserve" and ?rts = "[delayed_runtime, delayed_runtime]"
  have poll: "\<exists>e. poll_ready ?ops (PoolExecution ?rts delayed_pool LeastLoaded 0, mock_env0) = (Inr None, PoolExecution ?rts delayed_pool LeastLoaded 0, e) \<and>
      env_clock e = (\<lambda>n. 10 * n) \<and> env_reads e = 2 \<and> bm_in_flight (env_metrics e) = 0"
    by (simp add: poll_ready_def numeral_2_eq_2 sample_eval delayed_runtime_def delayed_mock_def mock_env0_def with_metrics_def backend_metrics_default_def)
  then obtain e where poll: "poll_ready ?ops (PoolExecution ?rts delayed_pool LeastLoaded 0, mock_env0) = (Inr None, PoolExecution ?rts delayed_pool LeastLoaded 0, e)"
    and e: "env_clock e = (\<lambda>n. 10 * n)" "env_reads e = 2" "bm_in_flight (env_metrics e) = 0" by blast
  let ?t = "\<lparr> t_desc = info_tensor_desc (tensor_info_new (shape_new [1]) dt_U8) Cpu,
    t_buffer = \<lparr> b_device = Cpu, b_domain = Host, b_desc = buffer_desc_new 1 1, b_external = external_none, b_storage = 0 \<rparr> \<rparr>"
  have "\<exists>l p st. checkout 0 0 0 0 LeastLoaded None (delayed_pool, two_core_state) = (Returned (Inr l), p, st) \<and> pl_instance_index l = 0"
    by (simp add: checkout_def delayed_pool_def placed_def two_core_state_def checkout_request_def scheduler_acquire_def
        sample_simps with_policy_def with_allowed_placements_def matching_instances_def Let_def)
  then obtain l p st where co: "checkout 0 0 0 0 LeastLoaded None (delayed_pool, two_core_state) = (Returned (Inr l), p, st)" "pl_instance_index l = 0" by blast
  have "\<exists>rt e1. runtime_submit ?ops [?t] None (delayed_runtime, clone_tensors [?t] e) = Some (Inr 0, rt, e1)"
    using e by (simp add: sample_eval delayed_runtime_def delayed_mock_def clone_tensors_def)
  then obtain rt e1 where sub: "runtime_submit ?ops [?t] None (delayed_runtime, clone_tensors [?t] e) = Some (Inr 0, rt, e1)" by blast
  have "\<exists>io w. recv 0 pool_io ''in'' one_packet = (Inr (Some (packet_tensor ?t)), io, w)"
    by (simp add: recv_def pool_io_def one_packet_def unbounded_def recv_timeout_def channel_recv_def is_eos_def packet_tensor_def packet_of_def Let_def)
  then obtain io w where recv: "recv 0 pool_io ''in'' one_packet = (Inr (Some (packet_tensor ?t)), io, w)" by blast
  have ready: "\<not> should_stop pool_io one_packet" "has_capacity e (PoolExecution ?rts delayed_pool LeastLoaded 0)"
    using e by (simp_all add: should_stop_def one_packet_def has_capacity_def runtime_in_flight_def delayed_runtime_def Let_def)
  have packet: "tensor_ref (packet_tensor ?t) = Some ?t" "pm_stream_id (pk_meta (packet_tensor ?t)) = None" "\<not> is_eos (packet_tensor ?t)"
    by (simp_all add: tensor_ref_def packet_tensor_def packet_of_def packet_meta_default_def is_eos_def)
  show ?thesis
    using poll co sub recv ready packet by (simp add: infer_turn_def infer_start_def accept_packet_def exec_submit_def Let_def)
qed

theorem pool_shares_capacity_witness:
  "\<exists>s. (infer_step (mock_ops all_reserve))\<^sup>*\<^sup>* (infer_start (PoolExecution [delayed_runtime, delayed_runtime] delayed_pool LeastLoaded 0) mock_env0 two_core_state pool_io one_packet) s \<and>
    length (in_pending s) = 1 \<and> length (in_pending s) \<le> 1"
proof -
  obtain s where s: "infer_step (mock_ops all_reserve)
      (infer_start (PoolExecution [delayed_runtime, delayed_runtime] delayed_pool LeastLoaded 0) mock_env0 two_core_state pool_io one_packet) s" "length (in_pending s) = 1"
    using first_turn by (meson infer_step.turned)
  have "\<forall>rt \<in> set [delayed_runtime, delayed_runtime]. rt_max_in_flight rt \<le> 1" by (simp add: delayed_runtime_def Let_def)
  from pool_shares_capacity [OF pool_created [unfolded pool_created_def] _ _ this, of all_reserve _ pool_io one_packet s] s show ?thesis
    by (intro exI [of _ s]) (auto simp: pool_platform_def)
qed

theorem inference_answers_matched_witness:
  "\<exists>s log. (logged_step (mock_ops all_reserve))\<^sup>*\<^sup>*
      (infer_start (PoolExecution [delayed_runtime, delayed_runtime] delayed_pool LeastLoaded 0) mock_env0 two_core_state pool_io one_packet, Map.empty) (s, log) \<and>
    length (in_pending s) = 1 \<and> runtime_in_flight (in_env s) = 1"
proof -
  let ?start = "infer_start (PoolExecution [delayed_runtime, delayed_runtime] delayed_pool LeastLoaded 0) mock_env0 two_core_state pool_io one_packet"
  obtain s where s: "logged_step (mock_ops all_reserve) (?start, Map.empty) (s, log_turn ?start s Map.empty)" "length (in_pending s) = 1"
    using first_turn by (meson logged_step.turned)
  from inference_answers_matched [OF pool_created [unfolded pool_created_def], of all_reserve _ pool_io one_packet s] s show ?thesis
    by (intro exI [of _ s] exI [of _ "log_turn ?start s Map.empty"]) (auto simp: pool_platform_def)
qed

end
