(* ===== verification/ParallelElements.thy ===== *)
theory ParallelElements
  imports Builtins ElementIo
begin

text \<open>
  The elements of \<open>dg-elements/src/parallel.rs\<close> (distributor, converger, filter) and \<open>dg-elements/src/tools.rs\<close> (the HTTP push
  sink): reading their parameters, and their loops turn by turn over the modelled ports.  Posting a request is an argument.
\<close>

section \<open>Parameters\<close>

datatype DistributionStrategy = SplitRoundRobin | SplitBroadcast

datatype FilterMode = PassPackets | DropPackets

text \<open>\<open>params.get(key).map(as_str or error).transpose()?.unwrap_or(fallback)\<close>.\<close>

definition str_field :: "(string \<times> Value) list \<Rightarrow> string \<Rightarrow> string \<Rightarrow> string graph_result" where
  "str_field params key fallback =
    (case map_of params key of
       None \<Rightarrow> Inr fallback
     | Some value \<Rightarrow> ok_or (as_str value) (GConfig (''field '' @ key @ '' must be a string'')))"

definition parse_distributor :: "NodeSpec \<Rightarrow> DistributionStrategy graph_result" where
  "parse_distributor node =
    and_then (params_object node) (\<lambda>params.
    and_then (reject_unknown_fields params [''strategy'']) (\<lambda>_.
    and_then (str_field params ''strategy'' ''round_robin'') (\<lambda>value.
    if value = ''round_robin'' then Inr SplitRoundRobin
    else if value = ''broadcast'' then Inr SplitBroadcast
    else Inl (GConfig (''field strategy must be one of round_robin, broadcast; got '' @ value)))))"

definition validate_distributor :: "NodeSpec \<Rightarrow> unit graph_result" where
  "validate_distributor node = and_then (parse_distributor node) (\<lambda>_. Inr ())"

definition validate_converger :: "NodeSpec \<Rightarrow> unit graph_result" where
  "validate_converger node =
    (if nd_params node = Null then Inr ()
     else and_then (params_object node) (\<lambda>params. reject_unknown_fields params []))"

definition parse_filter :: "NodeSpec \<Rightarrow> FilterMode graph_result" where
  "parse_filter node =
    and_then (params_object node) (\<lambda>params.
    and_then (reject_unknown_fields params [''mode'']) (\<lambda>_.
    and_then (str_field params ''mode'' ''pass'') (\<lambda>value.
    if value = ''pass'' then Inr PassPackets
    else if value = ''drop'' then Inr DropPackets
    else Inl (GConfig (''field mode must be one of pass, drop; got '' @ value)))))"

definition validate_filter :: "NodeSpec \<Rightarrow> unit graph_result" where
  "validate_filter node = and_then (parse_filter node) (\<lambda>_. Inr ())"

section \<open>The loops\<close>

text \<open>What a turn depends on beside the state: the reading of the clock, how long sends wait, and what other threads do meanwhile.\<close>

record 'm pace =
  pa_now :: nat
  pa_fuel :: nat
  pa_others :: "nat \<Rightarrow> 'm io_world \<Rightarrow> 'm io_world"

text \<open>The state of a loop, with the packets it has sent, in order.\<close>

record 'm flow =
  fl_io :: ElementIo
  fl_world :: "'m io_world"
  fl_sent :: "(string \<times> Packet) list"

definition flow_send :: "'m pace \<Rightarrow> string \<Rightarrow> Packet \<Rightarrow> 'm flow \<Rightarrow> (unit graph_result \<times> 'm flow) option" where
  "flow_send pace port packet s =
    (case send (pa_fuel pace) (pa_now pace) (pa_others pace) 0 (fl_io s) port packet (fl_world s) of
       None \<Rightarrow> None
     | Some (Inl err, io, k, w) \<Rightarrow> Some (Inl err, s\<lparr> fl_io := io, fl_world := w \<rparr>)
     | Some (Inr _, io, k, w) \<Rightarrow> Some (Inr (), s\<lparr> fl_io := io, fl_world := w, fl_sent := fl_sent s @ [(port, packet)] \<rparr>))"

definition flow_eos :: "'m pace \<Rightarrow> 'm flow \<Rightarrow> (unit graph_result option \<times> 'm flow) option" where
  "flow_eos pace s =
    (case broadcast_eos (pa_fuel pace) (pa_now pace) (pa_others pace) 0 (fl_io s) (fl_world s) of
       None \<Rightarrow> None
     | Some (r, io, k, w) \<Rightarrow> Some (Some r, s\<lparr> fl_io := io, fl_world := w \<rparr>))"

text \<open>\<open>str::parse::<usize>\<close>.\<close>

fun digits_value :: "nat \<Rightarrow> string \<Rightarrow> nat option" where
  "digits_value acc [] = Some acc"
| "digits_value acc (c # cs) =
    (let d = of_char c in if 48 \<le> d \<and> d \<le> (57 :: nat) then digits_value (10 * acc + (d - 48)) cs else None)"

definition parse_usize :: "string \<Rightarrow> nat option" where
  "parse_usize s =
    (let digits = (case s of c # rest \<Rightarrow> if c = CHR ''+'' then rest else s | [] \<Rightarrow> [])
     in if digits = [] then None
        else case digits_value 0 digits of Some n \<Rightarrow> if n \<le> usize_max then Some n else None | None \<Rightarrow> None)"

definition distributor_ports :: "ElementIo \<Rightarrow> nat list" where
  "distributor_ports io =
    List.map_filter (\<lambda>name. if starts_with ''out'' name then parse_usize (drop 3 name) else None) (map fst (io_outputs io))"

definition out_port :: "nat \<Rightarrow> string" where
  "out_port index = ''out'' @ show_nat index"

fun broadcast_packet :: "'m pace \<Rightarrow> nat list \<Rightarrow> Packet \<Rightarrow> 'm flow \<Rightarrow> (unit graph_result \<times> 'm flow) option" where
  "broadcast_packet pace [] packet s = Some (Inr (), s)"
| "broadcast_packet pace (index # ports) packet s =
    (case flow_send pace (out_port index) packet s of
       None \<Rightarrow> None
     | Some (Inl err, s1) \<Rightarrow> Some (Inl err, s1)
     | Some (Inr _, s1) \<Rightarrow> broadcast_packet pace ports packet s1)"

text \<open>A turn goes on (\<open>None\<close>) or returns; \<open>next\<close> is the round-robin cursor.\<close>

definition distributor_turn ::
  "'m pace \<Rightarrow> DistributionStrategy \<Rightarrow> nat list \<Rightarrow> usize \<times> 'm flow \<Rightarrow> (unit graph_result option \<times> usize \<times> 'm flow) option"
where
  "distributor_turn pace strategy ports st =
    (case st of (cursor, s) \<Rightarrow>
     case recv (pa_now pace) (fl_io s) ''in'' (fl_world s) of
       (received, io, w) \<Rightarrow>
         let s1 = s\<lparr> fl_io := io, fl_world := w \<rparr>
         in case received of
              Inl err \<Rightarrow> Some (Some (Inl err), cursor, s1)
            | Inr None \<Rightarrow> Some (None, cursor, s1)
            | Inr (Some packet) \<Rightarrow>
                if is_eos packet then map_option (\<lambda>(r, s2). (r, cursor, s2)) (flow_eos pace s1)
                else
                  (case strategy of
                     SplitBroadcast \<Rightarrow>
                       map_option (\<lambda>(r, s2). (case r of Inl err \<Rightarrow> Some (Inl err) | Inr _ \<Rightarrow> None, cursor, s2)) (broadcast_packet pace ports packet s1)
                   | SplitRoundRobin \<Rightarrow>
                       map_option (\<lambda>(r, s2). (case r of Inl err \<Rightarrow> Some (Inl err) | Inr _ \<Rightarrow> None, wrapping_add cursor 1, s2))
                         (flow_send pace (out_port (ports ! (cursor mod length ports))) packet s1)))"

definition distributor_start :: "ElementIo \<Rightarrow> 'm io_world \<Rightarrow> (nat list \<times> usize \<times> 'm flow) graph_result" where
  "distributor_start io w =
    (let ports = distributor_ports io
     in if ports = [] then Inl (GConfig ''distributor requires at least one output'')
        else Inr (ports, 0, \<lparr> fl_io = io, fl_world = w, fl_sent = [] \<rparr>))"

text \<open>The converger: which inputs have ended, and a pass over those that have not.\<close>

type_synonym finished_ports = "(string \<times> bool) list"

fun converge_ports ::
  "'m pace \<Rightarrow> string list \<Rightarrow> bool \<times> finished_ports \<times> 'm flow \<Rightarrow> (unit graph_result option \<times> bool \<times> finished_ports \<times> 'm flow) option"
where
  "converge_ports pace [] st = Some (None, st)"
| "converge_ports pace (port # ports) (got, finished, s) =
    (case recv (pa_now pace) (fl_io s) port (fl_world s) of
       (received, io, w) \<Rightarrow>
         let s1 = s\<lparr> fl_io := io, fl_world := w \<rparr>
         in case received of
              Inl err \<Rightarrow> Some (Some (Inl err), got, finished, s1)
            | Inr None \<Rightarrow> converge_ports pace ports (got, finished, s1)
            | Inr (Some packet) \<Rightarrow>
                if is_eos packet then converge_ports pace ports (True, bt_insert port True finished, s1)
                else
                  (case flow_send pace ''out'' packet s1 of
                     None \<Rightarrow> None
                   | Some (Inl err, s2) \<Rightarrow> Some (Some (Inl err), got, finished, s2)
                   | Some (Inr _, s2) \<Rightarrow> converge_ports pace ports (True, finished, s2)))"

definition converger_turn :: "'m pace \<Rightarrow> finished_ports \<times> 'm flow \<Rightarrow> (unit graph_result option \<times> finished_ports \<times> 'm flow) option" where
  "converger_turn pace st =
    (case st of (finished, s) \<Rightarrow>
     if list_all snd finished then map_option (\<lambda>(r, s1). (r, finished, s1)) (flow_eos pace s)
     else
       (case converge_ports pace (map fst (filter (\<lambda>p. \<not> snd p) finished)) (False, finished, s) of
          None \<Rightarrow> None
        | Some (Some r, got, finished1, s1) \<Rightarrow> Some (Some r, finished1, s1)
        | Some (None, got, finished1, s1) \<Rightarrow>
            Some (if \<not> got \<and> should_stop (fl_io s1) (fl_world s1) then Some (Inl GNotRunning) else None, finished1, s1)))"

definition converger_start :: "ElementIo \<Rightarrow> 'm io_world \<Rightarrow> (finished_ports \<times> 'm flow) graph_result" where
  "converger_start io w =
    (let finished = fold (\<lambda>p. bt_insert (fst p) False) (io_inputs io) []
     in if finished = [] then Inl (GConfig ''converger requires at least one input'')
        else Inr (finished, \<lparr> fl_io = io, fl_world = w, fl_sent = [] \<rparr>))"

definition filter_turn :: "FilterMode \<Rightarrow> 'm pace \<Rightarrow> 'm flow \<Rightarrow> (unit graph_result option \<times> 'm flow) option" where
  "filter_turn mode pace s =
    (case recv (pa_now pace) (fl_io s) ''in'' (fl_world s) of
       (received, io, w) \<Rightarrow>
         let s1 = s\<lparr> fl_io := io, fl_world := w \<rparr>
         in case received of
              Inl err \<Rightarrow> Some (Some (Inl err), s1)
            | Inr None \<Rightarrow> Some (None, s1)
            | Inr (Some packet) \<Rightarrow>
                if is_eos packet then flow_eos pace s1
                else if mode = PassPackets
                then map_option (\<lambda>(r, s2). (case r of Inl err \<Rightarrow> Some (Inl err) | Inr _ \<Rightarrow> None, s2)) (flow_send pace ''out'' packet s1)
                else Some (None, s1))"

section \<open>The HTTP push sink\<close>

definition MAX_URL_LENGTH :: nat where
  "MAX_URL_LENGTH = 4096"

definition MAX_METHOD_LENGTH :: nat where
  "MAX_METHOD_LENGTH = 64"

record HttpPushRequest =
  hr_url :: string
  hr_method :: string
  hr_packet :: Packet

record HttpPush =
  hp_url :: string
  hp_method :: string

definition validate_http_url :: "string \<Rightarrow> unit graph_result" where
  "validate_http_url url =
    (case split_once ''://'' url of
       None \<Rightarrow> Inl (GConfig ''field url must use the http:// or https:// scheme'')
     | Some (scheme, rest) \<Rightarrow>
         fail_if (to_lowercase scheme \<noteq> ''http'' \<and> to_lowercase scheme \<noteq> ''https'' \<or> rest = [] \<or> list_ex is_whitespace rest)
           (GConfig ''field url must use a non-empty http:// or https:// URL''))"

definition upper_char :: "char \<Rightarrow> char" where
  "upper_char c = (if 97 \<le> (of_char c :: nat) \<and> of_char c \<le> (122 :: nat) then char_of (of_char c - 32 :: nat) else c)"

definition push_url :: "(string \<times> Value) list \<Rightarrow> string graph_result" where
  "push_url params =
    (case map_of params ''url'' of
       Some value \<Rightarrow>
         ok_or (case as_str value of Some url \<Rightarrow> if url = [] then None else Some url | None \<Rightarrow> None)
           (GConfig ''field url must be a non-empty string'')
     | None \<Rightarrow> Inl (GConfig ''field url is required and must be a string''))"

definition parse_http_push :: "NodeSpec \<Rightarrow> HttpPush graph_result" where
  "parse_http_push node =
    and_then (params_object node) (\<lambda>params.
    and_then (reject_unknown_fields params [''url'', ''method'']) (\<lambda>_.
    and_then (push_url params) (\<lambda>url.
    and_then (fail_if (length url > MAX_URL_LENGTH) (GResourceLimit ''http_push url length'' (length url) MAX_URL_LENGTH)) (\<lambda>_.
    and_then (validate_http_url url) (\<lambda>_.
    and_then (str_field params ''method'' ''POST'') (\<lambda>method.
    and_then (fail_if (method = [] \<or> list_ex is_whitespace method) (GConfig ''field method must be a non-empty HTTP method'')) (\<lambda>_.
    and_then (fail_if (length method > MAX_METHOD_LENGTH) (GResourceLimit ''http_push method length'' (length method) MAX_METHOD_LENGTH)) (\<lambda>_.
    Inr \<lparr> hp_url = url, hp_method = map upper_char method \<rparr>))))))))"

text \<open>The part after the last \<open>@\<close>.\<close>

definition after_last_at :: "string \<Rightarrow> string" where
  "after_last_at s = rev (takeWhile (\<lambda>c. c \<noteq> CHR ''@'') (rev s))"

definition http_redact_url :: "string \<Rightarrow> string" where
  "http_redact_url url =
    (case split_once ''://'' url of
       None \<Rightarrow> url
     | Some (scheme, after_scheme) \<Rightarrow>
         let authority_end = (\<lambda>c. c \<notin> set ''/?#'');
             authority = takeWhile authority_end after_scheme;
             path_and_rest = dropWhile authority_end after_scheme;
             path = (case split_once ''?'' path_and_rest of
                 Some (p, _) \<Rightarrow> p
               | None \<Rightarrow> (case split_once ''#'' path_and_rest of Some (p, _) \<Rightarrow> p | None \<Rightarrow> path_and_rest))
         in scheme @ ''://'' @ after_last_at authority @ path)"

text \<open>The driver is installed once for the process.\<close>

definition install_http_push_driver :: "'d option \<Rightarrow> 'd \<Rightarrow> unit graph_result \<times> 'd option" where
  "install_http_push_driver installed driver =
    (case installed of
       None \<Rightarrow> (Inr (), Some driver)
     | Some _ \<Rightarrow> (Inl (GConfig ''http_push driver already installed''), installed))"

text \<open>\<open>driver\<close> is the installed driver, if any.\<close>

definition push_turn :: "(HttpPushRequest \<Rightarrow> graph_error + unit) option \<Rightarrow> HttpPush \<Rightarrow> 'm pace \<Rightarrow> 'm flow \<Rightarrow> (unit graph_result option \<times> 'm flow) option" where
  "push_turn driver push pace s =
    (case recv (pa_now pace) (fl_io s) ''in'' (fl_world s) of
       (received, io, w) \<Rightarrow>
         let s1 = s\<lparr> fl_io := io, fl_world := w \<rparr>
         in case received of
              Inl err \<Rightarrow> Some (Some (Inl err), s1)
            | Inr None \<Rightarrow> Some (if should_stop io w then Some (Inl GNotRunning) else None, s1)
            | Inr (Some packet) \<Rightarrow>
                if is_eos packet then Some (Some (Inr ()), s1)
                else
                  (case driver of
                     None \<Rightarrow> Some (Some (Inl (GRuntime (''http_push node '' @ io_name io @ '' has no installed driver for '' @ http_redact_url (hp_url push)))), s1)
                   | Some post \<Rightarrow>
                       (case post \<lparr> hr_url = hp_url push, hr_method = hp_method push, hr_packet = packet \<rparr> of
                          Inl err \<Rightarrow> Some (Some (Inl (GRuntime (''http_push node '' @ io_name io @ '' failed posting to '' @
                            http_redact_url (hp_url push) @ '': '' @ display_graph_error err))), s1)
                        | Inr _ \<Rightarrow> Some (None, s1))))"

section \<open>Distribution\<close>

lemma flow_send_sent: "flow_send pace port packet s = Some (Inr u, t) \<Longrightarrow> fl_sent t = fl_sent s @ [(port, packet)]"
  by (auto simp: flow_send_def split: option.splits prod.splits sum.splits)

text \<open>The loop as steps: a turn that goes on, and what other threads do to the pipes between turns.\<close>

inductive distributor_step :: "DistributionStrategy \<Rightarrow> nat list \<Rightarrow> usize \<times> 'm flow \<Rightarrow> usize \<times> 'm flow \<Rightarrow> bool" for strategy ports where
  turned: "distributor_turn pace strategy ports s = Some (None, t) \<Longrightarrow> distributor_step strategy ports s t"
| others: "distributor_step strategy ports (cursor, s) (cursor, s\<lparr> fl_world := w \<rparr>)"

definition in_rotation :: "nat list \<Rightarrow> usize \<times> 'm flow \<Rightarrow> bool" where
  "in_rotation ports s \<longleftrightarrow> fst s = length (fl_sent (snd s)) mod (usize_max + 1) \<and>
    (length (fl_sent (snd s)) \<le> usize_max + 1 \<longrightarrow>
      map fst (fl_sent (snd s)) = map (\<lambda>k. out_port (ports ! (k mod length ports))) [0..<length (fl_sent (snd s))])"

lemma rotation_step:
  assumes "in_rotation ports s" and "distributor_step SplitRoundRobin ports s t"
  shows "in_rotation ports t"
  using assms(2)
proof (cases rule: distributor_step.cases)
  case (turned pace)
  obtain cursor f where s: "s = (cursor, f)" by (cases s)
  from turned s consider f1 where "t = (cursor, f1)" "fl_sent f1 = fl_sent f"
    | p f1 where "t = (wrapping_add cursor 1, f1)" "fl_sent f1 = fl_sent f @ [(out_port (ports ! (cursor mod length ports)), p)]"
    by (auto simp: distributor_turn_def flow_eos_def Let_def dest!: flow_send_sent split: prod.splits sum.splits option.splits if_splits)
      (metis obj_sumE old.unit.exhaust)
  then show ?thesis
  proof cases
    case 1
    then show ?thesis using assms(1) s by (simp add: in_rotation_def)
  next
    case 2
    then show ?thesis using assms(1) s by (auto simp: in_rotation_def wrapping_add_def mod_Suc_eq)
  qed
next
  case (others cursor f w)
  then show ?thesis using assms(1) by (simp add: in_rotation_def)
qed

interpretation rotation: invariant_system "distributor_step SplitRoundRobin ports" "in_rotation ports" for ports
  by unfold_locales (rule rotation_step)

text \<open>C40. A round-robin distributor sends its packets to its outputs in turn: through any turns and any interference of other threads, the k-th packet it has sent
  went to the output at position k modulo the number of outputs, so the outputs differ by at most one packet.\<close>

theorem round_robin_order:
  assumes "distributor_start io w = Inr (ports, s0)" and "(distributor_step SplitRoundRobin ports)\<^sup>*\<^sup>* s0 s" and "length (fl_sent (snd s)) \<le> usize_max"
  shows "map fst (fl_sent (snd s)) = map (\<lambda>k. out_port (ports ! (k mod length ports))) [0..<length (fl_sent (snd s))]"
proof -
  have "in_rotation ports s0" using assms(1) by (auto simp: distributor_start_def in_rotation_def Let_def split: if_splits)
  then have "in_rotation ports s" using rotation.reachable [OF assms(2)] by blast
  then show ?thesis using assms(3) by (simp add: in_rotation_def)
qed

section \<open>A converger ends early\<close>

lemmas recv_eval = recv_def recv_timeout_def channel_recv_def mark_seen_def on_metrics_def set_pipe_def should_stop_def

text \<open>C38. A converger can end while an input is still running.  The end-of-stream flag belongs to the node, not to the port: when one input has ended and another
  has just no packet waiting, receiving from the other reports an end of stream too.  The converger then counts all inputs as finished, and
  whatever the other input brings later, its next turn forwards nothing and broadcasts the end of the stream.\<close>

theorem converger_ends_early:
  assumes "io_inputs io = [(''in0'', a), (''in1'', b)]" and "a \<noteq> b" and "dp_queue (iw_pipes w a) = packet_eos # rest" and "dp_queue (iw_pipes w b) = []"
    and "dp_senders (iw_pipes w b) > 0" and "\<not> should_stop io w"
  shows "\<exists>finished s. converger_turn pace (projr (converger_start io w)) = Some (None, finished, s) \<and> fl_sent s = [] \<and>
    (\<forall>pace' later. converger_turn pace' (finished, s\<lparr> fl_world := later \<rparr>) = map_option (\<lambda>(r, s'). (r, finished, s')) (flow_eos pace' (s\<lparr> fl_world := later \<rparr>)))"
proof -
  have eos: "is_eos packet_eos" by (simp add: is_eos_def packet_eos_def packet_of_def)
  have start: "converger_start io w = Inr ([(''in0'', False), (''in1'', False)], \<lparr> fl_io = io, fl_world = w, fl_sent = [] \<rparr>)"
    using assms(1) by (simp add: converger_start_def)
  show ?thesis using assms eos unfolding start
    by (auto simp: converger_turn_def recv_eval Let_def)
qed

section \<open>Elements that never finish a packet\<close>

text \<open>Every received packet is entered as started, and only sending, finishing or dropping it takes it out.\<close>

lemma recv_starts:
  assumes "map_of (io_inputs io) ''in'' = Some a" and "dp_queue (iw_pipes w a) = packet # rest" and "\<not> is_eos packet"
    and "length (io_packet_starts io) \<le> io_max_packet_starts io"
  obtains w' where "dp_queue (iw_pipes w' a) = rest"
    and "recv now io ''in'' w =
      (if length (io_packet_starts io) < io_max_packet_starts io then Inr (Some packet)
       else Inl (GResourceLimit (io_name io @ ''/packet_starts'') (Suc (io_max_packet_starts io)) (io_max_packet_starts io)),
       io\<lparr> io_packet_starts := io_packet_starts io @ [now] \<rparr>, w')"
proof -
  define pipe where "pipe = depth_down ((iw_pipes w a)\<lparr> dp_queue := rest \<rparr>)"
  define w1 where "w1 = on_metrics io record_received (on_metrics io (record_queue_depth (receiver_depth pipe)) (set_pipe a pipe w))"
  have taken: "recv_timeout (iw_pipes w a) = (Inr packet, pipe)"
    by (simp add: recv_timeout_def channel_recv_def assms(2) pipe_def)
  have "dp_queue (iw_pipes w1 a) = rest"
    by (simp add: w1_def on_metrics_def set_pipe_def pipe_def depth_down_def)
  moreover have "recv now io ''in'' w =
      (if length (io_packet_starts io) < io_max_packet_starts io then Inr (Some packet)
       else Inl (GResourceLimit (io_name io @ ''/packet_starts'') (Suc (io_max_packet_starts io)) (io_max_packet_starts io)),
       io\<lparr> io_packet_starts := io_packet_starts io @ [now] \<rparr>, w1)"
    using assms(3,4) by (simp add: recv_def assms(1) taken Let_def w1_def)
  ultimately show thesis by (rule that)
qed

text \<open>Turns without interference of other threads, until one returns.\<close>

fun run_turns :: "('s \<Rightarrow> (unit graph_result option \<times> 's) option) \<Rightarrow> nat \<Rightarrow> 's \<Rightarrow> (unit graph_result option \<times> 's) option" where
  "run_turns turn 0 s = Some (None, s)"
| "run_turns turn (Suc n) s =
    (case turn s of
       Some (None, s1) \<Rightarrow> run_turns turn n s1
     | r \<Rightarrow> r)"

text \<open>An element whose turn takes a packet and does nothing to its ports with it.\<close>

locale hoarder =
  fixes turn :: "'m pace \<Rightarrow> 'm flow \<Rightarrow> (unit graph_result option \<times> 'm flow) option"
  assumes takes: "recv (pa_now pace) (fl_io s) ''in'' (fl_world s) = (Inr (Some packet), io, w) \<Longrightarrow> \<not> is_eos packet \<Longrightarrow>
      turn pace s = Some (None, s\<lparr> fl_io := io, fl_world := w \<rparr>)"
    and fails: "recv (pa_now pace) (fl_io s) ''in'' (fl_world s) = (Inl err, io, w) \<Longrightarrow> turn pace s = Some (Some (Inl err), s\<lparr> fl_io := io, fl_world := w \<rparr>)"
begin

lemma limit_reached:
  assumes "map_of (io_inputs (fl_io s)) ''in'' = Some a" and "dp_queue (iw_pipes (fl_world s) a) = packets @ rest"
    and "list_all (\<lambda>p. \<not> is_eos p) packets" and "length (io_packet_starts (fl_io s)) + length packets = Suc (io_max_packet_starts (fl_io s))"
    and "length (io_packet_starts (fl_io s)) \<le> io_max_packet_starts (fl_io s)"
  shows "\<exists>t. run_turns (turn pace) (length packets) s =
    Some (Some (Inl (GResourceLimit (io_name (fl_io s) @ ''/packet_starts'') (Suc (io_max_packet_starts (fl_io s))) (io_max_packet_starts (fl_io s)))), t)"
  using assms
proof (induction packets arbitrary: s)
  case (Cons packet packets)
  let ?io = "fl_io s"
  obtain w' where q: "dp_queue (iw_pipes w' a) = packets @ rest" and r: "recv (pa_now pace) ?io ''in'' (fl_world s) =
      (if length (io_packet_starts ?io) < io_max_packet_starts ?io then Inr (Some packet)
       else Inl (GResourceLimit (io_name ?io @ ''/packet_starts'') (Suc (io_max_packet_starts ?io)) (io_max_packet_starts ?io)),
       ?io\<lparr> io_packet_starts := io_packet_starts ?io @ [pa_now pace] \<rparr>, w')"
    using recv_starts [of ?io a "fl_world s" packet "packets @ rest" "pa_now pace"] Cons.prems by auto
  show ?case
  proof (cases "length (io_packet_starts ?io) < io_max_packet_starts ?io")
    case True
    let ?s = "s\<lparr> fl_io := ?io\<lparr> io_packet_starts := io_packet_starts ?io @ [pa_now pace] \<rparr>, fl_world := w' \<rparr>"
    have "turn pace s = Some (None, ?s)" using takes [of pace s packet] r True Cons.prems(3) by simp
    moreover have "\<exists>t. run_turns (turn pace) (length packets) ?s =
        Some (Some (Inl (GResourceLimit (io_name (fl_io ?s) @ ''/packet_starts'') (Suc (io_max_packet_starts (fl_io ?s))) (io_max_packet_starts (fl_io ?s)))), t)"
      by (rule Cons.IH) (use Cons.prems q True in auto)
    ultimately show ?thesis by simp
  next
    case False
    then show ?thesis using fails [of pace s] r by simp
  qed
qed simp

end

interpretation dropping: hoarder "filter_turn DropPackets"
  by unfold_locales (auto simp: filter_turn_def)

interpretation pushing: hoarder "push_turn (Some (\<lambda>_. Inr ())) push" for push
  by unfold_locales (auto simp: push_turn_def)

text \<open>C39. A filter that drops fails instead of dropping: it never reports a dropped packet as done, so when as many packets are received as may be started at once (the queue
  capacity of the graph), the next one ends the element with a resource error.\<close>

theorem filter_drop_fails:
  assumes "map_of (io_inputs (fl_io s)) ''in'' = Some a" and "dp_queue (iw_pipes (fl_world s) a) = packets @ rest" and "list_all (\<lambda>p. \<not> is_eos p) packets"
    and "io_packet_starts (fl_io s) = []" and "length packets = Suc (io_max_packet_starts (fl_io s))"
  shows "\<exists>t. run_turns (filter_turn DropPackets pace) (length packets) s =
    Some (Some (Inl (GResourceLimit (io_name (fl_io s) @ ''/packet_starts'') (length packets) (io_max_packet_starts (fl_io s)))), t)"
  using dropping.limit_reached [OF assms(1-3), of pace] assms(4,5) by simp

text \<open>The HTTP push sink has the same fault, however well the driver posts.\<close>

lemma http_push_fails:
  assumes "map_of (io_inputs (fl_io s)) ''in'' = Some a" and "dp_queue (iw_pipes (fl_world s) a) = packets @ rest" and "list_all (\<lambda>p. \<not> is_eos p) packets"
    and "io_packet_starts (fl_io s) = []" and "length packets = Suc (io_max_packet_starts (fl_io s))"
  shows "\<exists>t. run_turns (push_turn (Some (\<lambda>_. Inr ())) push pace) (length packets) s =
    Some (Some (Inl (GResourceLimit (io_name (fl_io s) @ ''/packet_starts'') (length packets) (io_max_packet_starts (fl_io s)))), t)"
  using pushing.limit_reached [OF assms(1-3), of push pace] assms(4,5) by simp

text \<open>Redaction looks for a query before it looks for a fragment, so a fragment with a question mark in it stays.\<close>

lemma http_redact_keeps_fragment: "http_redact_url ''https://host/path#token?x'' = ''https://host/path#token''"
  by (simp add: http_redact_url_def split_once_def starts_with_def after_last_at_def Let_def)

section \<open>Examples\<close>

definition two_outputs :: ElementIo where
  "two_outputs = sample_io\<lparr> io_outputs := [(''out0'', 0), (''out1'', 1)] \<rparr>"

definition two_waiting :: "unit io_world" where
  "two_waiting = sample_world\<lparr> iw_tables := (\<lambda>k. [4 + k]),
    iw_pipes := (\<lambda>a. if a = 1 then unbounded\<lparr> dp_queue := [packet_detections [], packet_detections []], dp_depth := 2 \<rparr> else unbounded) \<rparr>"

definition unhindered :: "unit pace" where
  "unhindered = \<lparr> pa_now = 0, pa_fuel = 1, pa_others = (\<lambda>_ w. w) \<rparr>"

lemmas turn_eval = distributor_turn_def flow_send_def send_def recv_def recv_timeout_def channel_recv_def try_send_def channel_send_def should_stop_def
  on_metrics_def set_pipe_def depth_up_def depth_down_def complete_packet_def Let_def out_port_def show_nat.simps is_eos_def packet_detections_def packet_of_def

lemma wrapping_small: "wrapping_add 0 (Suc 0) = Suc 0" "wrapping_add (Suc 0) (Suc 0) = 2"
  by (simp_all add: wrapping_add_def usize_max_def)

lemma two_turns:
  obtains s1 s2 where "distributor_turn unhindered SplitRoundRobin [0, 1] (0, \<lparr> fl_io = two_outputs, fl_world = two_waiting, fl_sent = [] \<rparr>) = Some (None, 1, s1)"
    and "distributor_turn unhindered SplitRoundRobin [0, 1] (1, s1) = Some (None, 2, s2)" and "length (fl_sent s2) = 2"
  by (simp add: turn_eval two_outputs_def two_waiting_def unhindered_def sample_io_def sample_world_def unbounded_def wrapping_small)

theorem round_robin_order_witness:
  "\<exists>s. (distributor_step SplitRoundRobin [0, 1])\<^sup>*\<^sup>* (0, \<lparr> fl_io = two_outputs, fl_world = two_waiting, fl_sent = [] \<rparr>) s \<and>
    map fst (fl_sent (snd s)) = [''out0'', ''out1'']"
proof -
  obtain s1 s2 where t1: "distributor_turn unhindered SplitRoundRobin [0, 1] (0, \<lparr> fl_io = two_outputs, fl_world = two_waiting, fl_sent = [] \<rparr>) = Some (None, 1, s1)"
    and t2: "distributor_turn unhindered SplitRoundRobin [0, 1] (1, s1) = Some (None, 2, s2)" and l: "length (fl_sent s2) = 2"
    by (rule two_turns)
  have steps: "(distributor_step SplitRoundRobin [0, 1])\<^sup>*\<^sup>* (0, \<lparr> fl_io = two_outputs, fl_world = two_waiting, fl_sent = [] \<rparr>) (2, s2)"
    using distributor_step.turned [OF t1] distributor_step.turned [OF t2] by (rule converse_rtranclp_into_rtranclp [OF _ r_into_rtranclp])
  have "distributor_ports two_outputs = [0, 1]"
    by (simp add: distributor_ports_def parse_usize_def two_outputs_def sample_io_def map_filter_simps starts_with_def usize_max_def)
  then have start: "distributor_start two_outputs two_waiting = Inr ([0, 1], 0, \<lparr> fl_io = two_outputs, fl_world = two_waiting, fl_sent = [] \<rparr>)"
    by (simp add: distributor_start_def)
  have "map fst (fl_sent s2) = [''out0'', ''out1'']"
    using round_robin_order [OF start steps] l by (simp add: usize_max_def upt_rec out_port_def show_nat.simps)
  then show ?thesis using steps by force
qed

definition ended_input :: "unit io_world" where
  "ended_input = sample_world\<lparr> iw_pipes := (\<lambda>a. if a = 0 then unbounded\<lparr> dp_queue := [packet_eos], dp_depth := 1 \<rparr> else unbounded) \<rparr>"

theorem converger_ends_early_witness:
  "\<exists>finished s. converger_turn \<lparr> pa_now = 0, pa_fuel = 1, pa_others = (\<lambda>_ w. w) \<rparr>
      (projr (converger_start (sample_io\<lparr> io_inputs := [(''in0'', 0), (''in1'', 1)] \<rparr>) ended_input)) = Some (None, finished, s) \<and> fl_sent s = []"
proof -
  have "\<not> should_stop (sample_io\<lparr> io_inputs := [(''in0'', 0), (''in1'', 1)] \<rparr>) ended_input"
    by (simp add: should_stop_def ended_input_def sample_world_def)
  from converger_ends_early [of "sample_io\<lparr> io_inputs := [(''in0'', 0), (''in1'', 1)] \<rparr>" 0 1 ended_input "[]", OF _ _ _ _ _ this]
  show ?thesis by (fastforce simp: ended_input_def unbounded_def)
qed

theorem filter_drop_fails_witness:
  "\<exists>t. run_turns (filter_turn DropPackets \<lparr> pa_now = 0, pa_fuel = 1, pa_others = (\<lambda>_ w. w) \<rparr>) 2
      \<lparr> fl_io = sample_io, fl_world = sample_world\<lparr> iw_pipes := (\<lambda>_. unbounded\<lparr> dp_queue := replicate 3 (packet_detections []) \<rparr>) \<rparr>, fl_sent = [] \<rparr> =
    Some (Some (Inl (GResourceLimit ''a/packet_starts'' 2 1)), t)"
  using filter_drop_fails [of "\<lparr> fl_io = sample_io, fl_world = sample_world\<lparr> iw_pipes := (\<lambda>_. unbounded\<lparr> dp_queue := replicate 3 (packet_detections []) \<rparr>) \<rparr>, fl_sent = [] \<rparr>" 1
      "replicate 2 (packet_detections [])" "[packet_detections []]" "\<lparr> pa_now = 0, pa_fuel = 1, pa_others = (\<lambda>_ w. w) \<rparr>"]
  by (simp add: sample_io_def packet_detections_def packet_of_def is_eos_def numeral_2_eq_2 numeral_3_eq_3)

end
