(* ===== verification/Spec2Isabelle.thy ===== *)
theory Spec2Isabelle
  imports Tensors ProcessPolicy MediaInfo InstancePools ElementIo Startup Draining HubDelivery ThreadPools InferenceNodes ParallelElements
begin

text \<open>
  A verification development for the media-inference engine in \<open>src/crates\<close>.  The engine runs
  graphs of elements: a configuration is loaded, normalized and validated; the graph is built into nodes with
  worker threads and bounded queues between their ports; tensors and media frames flow as packets; inference
  instances are leased from a scheduler; the configuration of a running graph can be replaced; streams enter and leave
  through an in-process hub or a network connector.

  \<^bold>\<open>Shared vocabulary.\<close>  \<open>Prelude\<close> has results as sums, the checked, saturating and wrapping operations on \<open>usize\<close> (a natural
  number below \<open>2 ^ 64\<close>), and lemmas on lists; \<open>RustStr\<close> the operations of \<open>str\<close> and of \<open>BTreeMap\<close> (a list of pairs sorted
  by key), which also stands for hash maps whose order is not observed.

  \<^bold>\<open>Core data, \<open>dg-core\<close>.\<close>
  \<^item> \<open>CoreTypes\<close>, \<open>DataTypes\<close>, \<open>Shapes\<close>: tags and errors, element types and the packing of 4-bit values, extents, strides and storage
    sizes.  Round trip of packing; strides address every element once and stay inside the computed extent.
  \<^item> \<open>Resource\<close>, \<open>ProcessPolicy\<close>: limits and the checks against them.
  \<^item> \<open>Buffers\<close>: reference-counted storage in an explicit store with drop guards.  An external buffer is released exactly once, and handles
    see each other's writes.
  \<^item> \<open>MemoryPools\<close>: allocators as an interface, and the pool with its cache.  Limits of the cache under a validated configuration, and ownership: no buffer is handed out
    twice.
  \<^item> \<open>Tensors\<close>: tensors and the CPU device.  \<open>MediaInfo\<close>: media metadata and plane layouts, with \<open>plane_geometry\<close> of \<open>dg-media/src/bridge.rs\<close>;
    the samples of every pixel of a validated image lie inside the buffer, where semi-planar formats need an even width.

  \<^bold>\<open>Scheduling, \<open>dg-scheduler\<close>.\<close>  \<open>Scheduler\<close> has topologies, leases, affinity and the selection policies; loads count the leases, and
  the least loaded core is chosen.  \<open>InstancePools\<close> has pools of model instances over a shared scheduler; a panic is an outcome.

  \<^bold>\<open>Configuration, \<open>dg-graph\<close>.\<close>
  \<^item> \<open>GraphTypes\<close>, \<open>Values\<close>, \<open>Builtins\<close>: the configuration structs, parameter values and placeholders, the registry of elements as a list
    of descriptors and the built-in elements.
  \<^item> \<open>Cycles\<close>: cycle detection is exact.  The depth-first search has fuel, one more than the number of nodes of the adjacency map, and
    the proof shows that this is enough.
  \<^item> \<open>GraphSpecs\<close>: normalization and validation; validation accepts exactly the graphs of a declarative description.
  \<^item> \<open>GraphLoad\<close>: loading with includes.  The fuel of the recursion is the include depth limit plus two; loading returns
    with it, stays below the base directory and gives valid graphs.

  \<^bold>\<open>Execution, \<open>dg-graph\<close>.\<close>
  \<^item> \<open>Packets\<close>, \<open>Pipes\<close>: packets, sinks, counters; queues with their shared depth counter as functions and as the atomic
    steps that threads interleave.
  \<^item> \<open>ElementIo\<close>: what an element does to its ports, over a world of pipes and flags that other threads change between any two steps
    (the argument \<open>others\<close>).  Sending has fuel for its waiting loop: when the
    others set a stop flag by their K-th turn, K + 2 attempts per pipe are enough.
  \<^item> \<open>GraphDiffs\<close>, \<open>Lifecycle\<close>, \<open>HotUpdate\<close>, \<open>Rewiring\<close>, \<open>Startup\<close>, \<open>Draining\<close>: differences of configurations; status, joining and root cause of
    a running graph; the hot update, step by step as \<open>engine.rs\<close> performs it; starting.  Pipes and tables are
    addresses of a heap.  A started graph is wired as its configuration says, and stays so over successful updates.  A valid graph starts unless it asks for instances of an element that has only one.
    Draining a replaced pipe is a step relation of three threads, the drain, the upstream and the consumer: every packet of the old pipe is delivered in order, still waiting, in hand, or
    dropped by a drain that gave up, and the upstream may overtake it.
  \<^item> \<open>ThreadPools\<close>: the work-stealing pool; its queues as functions, and its workers as the atomic steps of \<open>pool.rs\<close>.  Every spawned job is
    in one place until it has run once, and workers leave only when nothing is left; dropping the pool can hang.

  \<^bold>\<open>Inference, \<open>dg-runtime\<close> and \<open>dg-graph/src/inference.rs\<close>.\<close>
  \<^item> \<open>RuntimeMetrics\<close>: the counters of a backend and the latency histogram.  A reported percentile is the bucket bound of the exact
    nearest-rank percentile of the recorded latencies.
  \<^item> \<open>RuntimeTypes\<close>: errors, tensor metadata, capabilities, options and the registry of backends.
  \<^item> \<open>Runtimes\<close>: the backend trait as a record of operations over a state, and the runtime over it.  \<open>MockBackends\<close>: the mock backend.
    The loop of its \<open>run\<close> may not end, so it is a partial function to an option; it returns when the clock goes on.  Every
    submission is answered, lost or waiting, once.
  \<^item> \<open>InferenceNodes\<close>: the inference element, its parameters, device leases and pools, and its loop as turns.  Over the mock backend, answers go out with the
    metadata of the packet that was submitted under their number, by a log of submissions kept beside the loop; a pool has the capacity of one of its instances.

  \<^bold>\<open>Elements, \<open>dg-elements\<close>.\<close>  \<open>ParallelElements\<close> has the distributor, the converger, the filter and the HTTP push sink: parameters and loops, turn by
  turn.  A round-robin distributor keeps its rotation; a converger can end before its inputs do, and a filter that drops fails at the queue capacity.

  \<^bold>\<open>Streams, \<open>dg-stream\<close>.\<close>  \<open>StreamTypes\<close> has tracks, options, errors with URL redaction and the endpoint checks; \<open>StreamHub\<close> the hub, its publishers and
  subscriber queues; \<open>HubRegistry\<close> the registry over any sequence of operations and the interleavings of openings; \<open>HubDelivery\<close> that the hub implements
  one queue per subscriber.

  \<^bold>\<open>Interfaces.\<close>  Locales state what a client may rely on: allocators (\<open>deallocation\<close>, \<open>buffer_allocator\<close>, \<open>pool_backend\<close>, interpreted on the CPU
  allocator), leases (\<open>lease_service\<close>, interpreted on the scheduler), elements that never finish a packet (\<open>hoarder\<close>, interpreted on the filter and the HTTP push) and backends (\<open>infer_backend\<close>, and \<open>input_backend\<close> with what a backend does with inputs,
  interpreted on the mock backend; the lemmas of the runtime and of the inference element are proved in them).
  \<open>step_system\<close> and \<open>invariant_system\<close> of the prelude carry invariants of steps over reachable states; the steps of pipes, running graphs,
  draining, the thread pool, runtime clients, the distributor and the inference loop interpret them.

  \<^bold>\<open>Parameters.\<close>  What the sources call and do not contain is an argument: the file system and the serde parsers (\<open>file_system\<close>),
  the registered elements and model checks (\<open>graph_env\<close>), creating elements and spawning threads (\<open>engine_env\<close>), conversion
  of numbers to \<open>f32\<close>, the random number of a backoff, the network connector, model files, the deserialization of options, the driver of HTTP pushes, clocks (a sequence of readings), and
  whether memory can be reserved.

  \<^bold>\<open>Not modelled.\<close>  The C interface and the command line are glue over the crates above.  The vendor backends and their bindings, the codecs of \<open>dg-media\<close>
  and the network part of \<open>dg-stream\<close> call libraries outside of the repository.  The other elements of \<open>dg-elements\<close> compute on floating-point
  numbers.  In the loop of the inference element the buffers of outputs that are sent leave the model's store.  Waiting on condition variables, real time and the file watcher are left out; where they decide an outcome, the outcome is an argument.
\<close>

end
